(* ===== verification/Prelude.thy ===== *)
theory Prelude
  imports Main "HOL-Library.Word" "HOL-Library.Monad_Syntax"
begin

text \<open>
  The vocabulary the component theories share: the C integer types as words, byte strings,
  \<open>size_t\<close> arithmetic, the value of undefined behaviour, and the calculus of the
  "write it if it fits" serialisers that every \<open>LW...Serialize\<close> function follows.
\<close>

unbundle bit_operations_syntax

named_theorems lens \<open>lengths of the byte strings and buffers the components produce\<close>
named_theorems roundtrip \<open>decoding what was encoded\<close>
named_theorems wsteps \<open>what one step of a serialiser writes\<close>

subsection \<open>C types\<close>

text \<open>
  \<open>size_t\<close> is 64 bits wide. Sizes of objects in memory never reach \<open>2 ^ 64\<close> and are plain
  \<open>nat\<close>; where a length is read from untrusted bytes, \<open>size_add\<close> and \<open>size_mul\<close> write the
  wrap-around out. A \<open>char *\<close> string is the \<open>string\<close> before its NUL. A pointer that may be
  NULL is an \<open>option\<close>.
\<close>

type_synonym u8 = "8 word"
type_synonym u16 = "16 word"
type_synonym u32 = "32 word"
type_synonym u64 = "64 word"
type_synonym bytes = "u8 list"

definition SIZE_MAX :: nat where
  "SIZE_MAX = 2 ^ 64 - 1"

definition size_add :: "nat \<Rightarrow> nat \<Rightarrow> nat" where
  "size_add a b = (a + b) mod 2 ^ 64"

definition size_mul :: "nat \<Rightarrow> nat \<Rightarrow> nat" where
  "size_mul a b = (a * b) mod 2 ^ 64"

lemma size_add_small: "a + b < 2 ^ 64 \<Longrightarrow> size_add a b = a + b"
  by (simp add: size_add_def)

lemma size_mul_small: "a * b < 2 ^ 64 \<Longrightarrow> size_mul a b = a * b"
  by (simp add: size_mul_def)

lemma unat_u8_less [simp]: "unat (x :: u8) < 256"
  using unsigned_less [of x, where ?'a = nat] by simp

lemma unat_u32_less: "unat (x :: u32) < 2 ^ 32"
  using unsigned_less [of x, where ?'a = nat] by simp

lemma unat_u64_less: "unat (x :: u64) < 2 ^ 64"
  using unsigned_less [of x, where ?'a = nat] by simp

subsection \<open>Undefined behaviour\<close>

text \<open>
  A read or write outside an object, or through NULL, has no value in C. Operations that can
  do so on some input return \<open>None\<close> there, so that "never faults" is a theorem to prove.
\<close>

definition deref :: "'a list \<Rightarrow> nat \<Rightarrow> 'a option" where
  "deref xs i = (if i < length xs then Some (xs ! i) else None)"

lemma deref_Some [simp]: "i < length xs \<Longrightarrow> deref xs i = Some (xs ! i)"
  by (simp add: deref_def)

lemma deref_None [simp]: "length xs \<le> i \<Longrightarrow> deref xs i = None"
  by (simp add: deref_def)

subsection \<open>Loops that may fault\<close>

text \<open>
  A loop over a list that updates a state, and one that stops at the first element for which its
  body is true. Recursive functions may call themselves in the bodies.
\<close>

primrec fold_m :: "('a \<Rightarrow> 's \<Rightarrow> 's option) \<Rightarrow> 'a list \<Rightarrow> 's \<Rightarrow> 's option" where
  "fold_m f [] s = Some s"
| "fold_m f (x # xs) s = Option.bind (f x s) (fold_m f xs)"

primrec any_m :: "('a \<Rightarrow> bool option) \<Rightarrow> 'a list \<Rightarrow> bool option" where
  "any_m f [] = Some False"
| "any_m f (x # xs) = Option.bind (f x) (\<lambda>b. if b then Some True else any_m f xs)"

lemma fold_m_mono [partial_function_mono]:
  assumes "\<And>x s. mono_option (\<lambda>f. B f x s)"
  shows "mono_option (\<lambda>f. fold_m (B f) xs s)"
  by (induction xs arbitrary: s) (auto intro!: partial_function_mono assms)

lemma any_m_mono [partial_function_mono]:
  assumes "\<And>x. mono_option (\<lambda>f. B f x)"
  shows "mono_option (\<lambda>f. any_m (B f) xs)"
  by (induction xs) (auto intro!: partial_function_mono assms)

lemma fold_m_append: "fold_m f (xs @ ys) s = Option.bind (fold_m f xs s) (fold_m f ys)"
  by (induction xs arbitrary: s) (auto split: Option.bind_splits)

text \<open>An invariant of the state, kept by every body, holds after the loop.\<close>

lemma fold_m_invariant:
  "fold_m f xs s = Some s' \<Longrightarrow> P s \<Longrightarrow> (\<And>x s s'. x \<in> set xs \<Longrightarrow> P s \<Longrightarrow> f x s = Some s' \<Longrightarrow> P s') \<Longrightarrow> P s'"
proof (induction xs arbitrary: s)
  case (Cons x xs)
  then obtain s1 where "f x s = Some s1" "fold_m f xs s1 = Some s'" by (auto split: Option.bind_splits)
  then show ?case using Cons.IH [of s1] Cons.prems(2,3) by (meson list.set_intros)
qed simp

lemma fold_m_Some:
  "P s \<Longrightarrow> (\<And>x s. x \<in> set xs \<Longrightarrow> P s \<Longrightarrow> \<exists>s'. f x s = Some s' \<and> P s') \<Longrightarrow> \<exists>s'. fold_m f xs s = Some s' \<and> P s'"
proof (induction xs arbitrary: s)
  case (Cons x xs)
  then obtain s1 where "f x s = Some s1" "P s1" by (meson list.set_intros(1))
  then show ?case using Cons.IH [of s1] Cons.prems(2) by auto
qed simp

lemma any_m_total: "(\<And>x. x \<in> set xs \<Longrightarrow> f x = Some (P x)) \<Longrightarrow> any_m f xs = Some (list_ex P xs)"
  by (induction xs) auto

subsection \<open>Output buffers\<close>

text \<open>
  An output buffer is NULL or the bytes it holds; its size (\<open>bufLen\<close>) is their number. A
  serialiser keeps an offset and performs steps of two shapes:
  \<^item> \<open>put bs\<close>: \<^verbatim>\<open>if (data && off + n <= dataLen) memcpy(&data[off], bs, n); off += n;\<close>
  \<^item> \<open>call w\<close>: \<^verbatim>\<open>off += w((data ? &data[off] : NULL), (off <= dataLen ? dataLen - off : 0));\<close>
  and ends with \<^verbatim>\<open>return (! data || off <= dataLen) ? off : 0\<close>, which is \<open>finish\<close>.
\<close>

type_synonym cbuf = "bytes option"
type_synonym wstate = "nat \<times> cbuf"
type_synonym writer = "cbuf \<Rightarrow> nat \<times> cbuf"

definition poke :: "nat \<Rightarrow> bytes \<Rightarrow> cbuf \<Rightarrow> cbuf" where
  "poke off bs cb = (case cb of None \<Rightarrow> None | Some b \<Rightarrow>
     Some (if off + length bs \<le> length b then take off b @ bs @ drop (off + length bs) b else b))"

definition put :: "bytes \<Rightarrow> wstate \<Rightarrow> wstate" where
  "put bs st = (fst st + length bs, poke (fst st) bs (snd st))"

definition at_off :: "nat \<Rightarrow> cbuf \<Rightarrow> cbuf" where
  "at_off off cb = map_option (drop off) cb"

definition put_back :: "nat \<Rightarrow> cbuf \<Rightarrow> cbuf \<Rightarrow> cbuf" where
  "put_back off cb sub = (case (cb, sub) of (Some b, Some s) \<Rightarrow> Some (take off b @ s) | _ \<Rightarrow> cb)"

definition call :: "writer \<Rightarrow> wstate \<Rightarrow> wstate" where
  "call w st = (let (r, sub) = w (at_off (fst st) (snd st))
                in (fst st + r, put_back (fst st) (snd st) sub))"

definition steps :: "(wstate \<Rightarrow> wstate) list \<Rightarrow> wstate \<Rightarrow> wstate" where
  "steps fs st = fold (\<lambda>f. f) fs st"

definition fits :: "nat \<Rightarrow> cbuf \<Rightarrow> bool" where
  "fits n cb = (case cb of None \<Rightarrow> True | Some b \<Rightarrow> n \<le> length b)"

definition finish :: "wstate \<Rightarrow> nat \<times> cbuf" where
  "finish st = (if fits (fst st) (snd st) then fst st else 0, snd st)"

lemma steps_simps [simp]:
  "steps [] st = st" "steps (f # fs) st = steps fs (f st)"
  by (simp_all add: steps_def)

lemma steps_append [simp]: "steps (fs @ gs) st = steps gs (steps fs st)"
  by (simp add: steps_def)

text \<open>
  \<open>overwrite off bs cb\<close> is the buffer after \<open>bs\<close> was written at \<open>off\<close>. A step \<open>wstep f bs\<close>
  advances by the length of \<open>bs\<close> and, when it fits, writes exactly \<open>bs\<close>; a writer \<open>writes w bs\<close>
  returns the length of \<open>bs\<close> for NULL and, when it fits, writes exactly \<open>bs\<close>.
\<close>

definition overwrite :: "nat \<Rightarrow> bytes \<Rightarrow> cbuf \<Rightarrow> cbuf" where
  "overwrite off bs cb = map_option (\<lambda>b. take off b @ bs @ drop (off + length bs) b) cb"

definition wstep :: "(wstate \<Rightarrow> wstate) \<Rightarrow> bytes \<Rightarrow> bool" where
  "wstep f bs = (\<forall>off cb. fits (off + length bs) cb \<longrightarrow>
     f (off, cb) = (off + length bs, overwrite off bs cb))"

definition writes :: "writer \<Rightarrow> bytes \<Rightarrow> bool" where
  "writes w bs = (\<forall>cb. fits (length bs) cb \<longrightarrow> w cb = (length bs, overwrite 0 bs cb))"

lemma fits_mono: "fits n cb \<Longrightarrow> m \<le> n \<Longrightarrow> fits m cb"
  by (auto simp: fits_def split: option.splits)

lemma fits_overwrite [simp]: "fits (off + length bs) cb \<Longrightarrow> fits n (overwrite off bs cb) = fits n cb"
  by (auto simp: fits_def overwrite_def split: option.splits)

lemma overwrite_overwrite:
  assumes "fits (off + length as + length bs) cb"
  shows "overwrite (off + length as) bs (overwrite off as cb) = overwrite off (as @ bs) cb"
proof (cases cb)
  case (Some b)
  have "off + (length as + (length bs)) \<le> length b"
    using assms by (simp add: Some fits_def add.assoc)
  then show ?thesis
    by (simp add: Some overwrite_def add.assoc add.commute [of "length bs"])
qed (simp add: overwrite_def)

lemma wstepD: "wstep f bs \<Longrightarrow> fits (off + length bs) cb \<Longrightarrow> f (off, cb) = (off + length bs, overwrite off bs cb)"
  by (simp add: wstep_def)

lemma writesD: "writes w bs \<Longrightarrow> fits (length bs) cb \<Longrightarrow> w cb = (length bs, overwrite 0 bs cb)"
  by (simp add: writes_def)

lemma writes_NULL: "writes w bs \<Longrightarrow> w None = (length bs, None)"
  by (simp add: writes_def fits_def overwrite_def)

lemma writes_exact: "writes w bs \<Longrightarrow> length b = length bs \<Longrightarrow> w (Some b) = (length bs, Some bs)"
  by (simp add: writes_def fits_def overwrite_def)

lemma wstep_put [wsteps]: "wstep (put bs) bs"
  by (auto simp: wstep_def put_def poke_def overwrite_def fits_def split: option.splits)

lemma wstep_call [wsteps]:
  assumes "writes w bs"
  shows "wstep (call w) bs"
  unfolding wstep_def
proof (intro allI impI)
  fix off cb
  assume fit: "fits (off + length bs) cb"
  then have "fits (length bs) (at_off off cb)"
    by (auto simp: fits_def at_off_def split: option.splits)
  with assms have "w (at_off off cb) = (length bs, overwrite 0 bs (at_off off cb))"
    by (rule writesD)
  then show "call w (off, cb) = (off + length bs, overwrite off bs cb)"
    by (cases cb) (simp_all add: call_def at_off_def put_back_def overwrite_def add.commute)
qed

lemma wstep_id [wsteps]: "wstep (\<lambda>st. st) []"
  by (auto simp: wstep_def overwrite_def map_option.id [unfolded id_def] )

lemma wstep_comp:
  assumes "wstep f as" "wstep g bs"
  shows "wstep (\<lambda>st. g (f st)) (as @ bs)"
  unfolding wstep_def
proof (intro allI impI)
  fix off cb
  assume fit: "fits (off + length (as @ bs)) cb"
  then have f: "fits (off + length as) cb" and all: "fits (off + length as + length bs) cb"
    by (auto intro: fits_mono simp: add.assoc)
  from f all have "fits (off + length as + length bs) (overwrite off as cb)"
    by simp
  then have "g (off + length as, overwrite off as cb) =
      (off + length as + length bs, overwrite (off + length as) bs (overwrite off as cb))"
    by (rule wstepD [OF assms(2)])
  then show "g (f (off, cb)) = (off + length (as @ bs), overwrite off (as @ bs) cb)"
    using wstepD [OF assms(1) f] overwrite_overwrite [OF all] by (simp add: add.assoc)
qed

lemma steps_fun: "steps [] = (\<lambda>st. st)" "steps (f # fs) = (\<lambda>st. steps fs (f st))"
  "steps (fs @ gs) = (\<lambda>st. steps gs (steps fs st))"
  by (simp_all add: fun_eq_iff)

lemma wstep_steps_Nil [wsteps]: "wstep (steps []) []"
  using wstep_id by (simp add: steps_fun)

lemma wstep_steps_Cons [wsteps]:
  "wstep f as \<Longrightarrow> wstep (steps fs) bs \<Longrightarrow> wstep (steps (f # fs)) (as @ bs)"
  using wstep_comp [of f as "steps fs" bs] by (simp add: steps_fun)

lemma wstep_steps_append:
  "wstep (steps fs) as \<Longrightarrow> wstep (steps gs) bs \<Longrightarrow> wstep (steps (fs @ gs)) (as @ bs)"
  using wstep_comp [of "steps fs" as "steps gs" bs] by (simp add: steps_fun)

lemma wstep_steps_map:
  "(\<And>x. x \<in> set xs \<Longrightarrow> wstep (f x) (g x)) \<Longrightarrow> wstep (steps (map f xs)) (concat (map g xs))"
  by (induction xs) (auto intro: wsteps)

lemma writes_steps:
  assumes "wstep (steps fs) bs"
  shows "writes (\<lambda>cb. finish (steps fs (0, cb))) bs"
  unfolding writes_def
  by (auto simp: wstepD [OF assms, of 0, simplified] finish_def fits_overwrite [of 0, simplified])

text \<open>
  Calling a writer twice, with NULL for the length and then with a buffer of that length, and
  taking what it returns of it.
\<close>

definition produced :: "writer \<Rightarrow> bytes" where
  "produced w = (case w (Some (replicate (fst (w None)) 0)) of (n, Some b) \<Rightarrow> take n b | (n, None) \<Rightarrow> [])"

lemma produced_writes: "writes w bs \<Longrightarrow> produced w = bs"
  by (simp add: produced_def writes_NULL writes_exact)

end
