(* ===== verification/LW_Int.thy ===== *)
theory LW_Int
  imports Prelude
begin

text \<open>
  Model of \<^verbatim>\<open>LWInt.h\<close>: the unaligned little- and big-endian accessors, the 160- and 256-bit
  values and their comparison, and hex. A \<open>UInt256\<close> is its byte array (\<open>u8[32]\<close>); the other
  views of the C union are read from it with the little-endian order of the supported hosts.
  The accessors are related to one generic pair \<open>le_get\<close>/\<open>le_set\<close>, which is where the
  round trips are proved.
\<close>

type_synonym UInt160 = bytes
type_synonym UInt256 = bytes

subsection \<open>The unaligned accessors\<close>

definition UInt16SetBE :: "u16 \<Rightarrow> bytes" where
  "UInt16SetBE u = [ucast (drop_bit 8 u AND 0xff), ucast (u AND 0xff)]"

definition UInt16SetLE :: "u16 \<Rightarrow> bytes" where
  "UInt16SetLE u = [ucast (u AND 0xff), ucast (drop_bit 8 u AND 0xff)]"

definition UInt32SetBE :: "u32 \<Rightarrow> bytes" where
  "UInt32SetBE u = [ucast (drop_bit 24 u AND 0xff), ucast (drop_bit 16 u AND 0xff),
                    ucast (drop_bit 8 u AND 0xff), ucast (u AND 0xff)]"

definition UInt32SetLE :: "u32 \<Rightarrow> bytes" where
  "UInt32SetLE u = [ucast (u AND 0xff), ucast (drop_bit 8 u AND 0xff),
                    ucast (drop_bit 16 u AND 0xff), ucast (drop_bit 24 u AND 0xff)]"

definition UInt64SetBE :: "u64 \<Rightarrow> bytes" where
  "UInt64SetBE u = [ucast (drop_bit 56 u AND 0xff), ucast (drop_bit 48 u AND 0xff),
                    ucast (drop_bit 40 u AND 0xff), ucast (drop_bit 32 u AND 0xff),
                    ucast (drop_bit 24 u AND 0xff), ucast (drop_bit 16 u AND 0xff),
                    ucast (drop_bit 8 u AND 0xff), ucast (u AND 0xff)]"

definition UInt64SetLE :: "u64 \<Rightarrow> bytes" where
  "UInt64SetLE u = [ucast (u AND 0xff), ucast (drop_bit 8 u AND 0xff),
                    ucast (drop_bit 16 u AND 0xff), ucast (drop_bit 24 u AND 0xff),
                    ucast (drop_bit 32 u AND 0xff), ucast (drop_bit 40 u AND 0xff),
                    ucast (drop_bit 48 u AND 0xff), ucast (drop_bit 56 u AND 0xff)]"

definition UInt16GetBE :: "bytes \<Rightarrow> u16" where
  "UInt16GetBE b = push_bit 8 (ucast (b ! 0)) OR ucast (b ! 1)"

definition UInt16GetLE :: "bytes \<Rightarrow> u16" where
  "UInt16GetLE b = push_bit 8 (ucast (b ! 1)) OR ucast (b ! 0)"

definition UInt32GetBE :: "bytes \<Rightarrow> u32" where
  "UInt32GetBE b = push_bit 24 (ucast (b ! 0)) OR push_bit 16 (ucast (b ! 1)) OR
                   push_bit 8 (ucast (b ! 2)) OR ucast (b ! 3)"

definition UInt32GetLE :: "bytes \<Rightarrow> u32" where
  "UInt32GetLE b = push_bit 24 (ucast (b ! 3)) OR push_bit 16 (ucast (b ! 2)) OR
                   push_bit 8 (ucast (b ! 1)) OR ucast (b ! 0)"

definition UInt64GetBE :: "bytes \<Rightarrow> u64" where
  "UInt64GetBE b =
     push_bit 56 (ucast (b ! 0)) OR push_bit 48 (ucast (b ! 1)) OR
     push_bit 40 (ucast (b ! 2)) OR push_bit 32 (ucast (b ! 3)) OR
     push_bit 24 (ucast (b ! 4)) OR push_bit 16 (ucast (b ! 5)) OR
     push_bit 8 (ucast (b ! 6)) OR ucast (b ! 7)"

definition UInt64GetLE :: "bytes \<Rightarrow> u64" where
  "UInt64GetLE b =
     push_bit 56 (ucast (b ! 7)) OR push_bit 48 (ucast (b ! 6)) OR
     push_bit 40 (ucast (b ! 5)) OR push_bit 32 (ucast (b ! 4)) OR
     push_bit 24 (ucast (b ! 3)) OR push_bit 16 (ucast (b ! 2)) OR
     push_bit 8 (ucast (b ! 1)) OR ucast (b ! 0)"

definition UInt128Get :: "bytes \<Rightarrow> bytes" where
  "UInt128Get b = take 16 b"

definition UInt160Get :: "bytes \<Rightarrow> UInt160" where
  "UInt160Get b = take 20 b"

definition UInt256Get :: "bytes \<Rightarrow> UInt256" where
  "UInt256Get b = take 32 b"

definition UInt128Set :: "bytes \<Rightarrow> bytes" where
  "UInt128Set u = take 16 u"

definition UInt160Set :: "UInt160 \<Rightarrow> bytes" where
  "UInt160Set u = take 20 u"

definition UInt256Set :: "UInt256 \<Rightarrow> bytes" where
  "UInt256Set u = take 32 u"

subsection \<open>Comparison and reversal\<close>

definition union_u32 :: "bytes \<Rightarrow> nat \<Rightarrow> u32" where
  "union_u32 u i = UInt32GetLE (drop (4 * i) u)"

definition union_u64 :: "bytes \<Rightarrow> nat \<Rightarrow> u64" where
  "union_u64 u i = UInt64GetLE (drop (8 * i) u)"

definition UInt128Eq :: "bytes \<Rightarrow> bytes \<Rightarrow> bool" where
  "UInt128Eq a b = (union_u64 a 0 = union_u64 b 0 \<and> union_u64 a 1 = union_u64 b 1)"

definition UInt160Eq :: "UInt160 \<Rightarrow> UInt160 \<Rightarrow> bool" where
  "UInt160Eq a b = (union_u32 a 0 = union_u32 b 0 \<and> union_u32 a 1 = union_u32 b 1 \<and>
     union_u32 a 2 = union_u32 b 2 \<and> union_u32 a 3 = union_u32 b 3 \<and> union_u32 a 4 = union_u32 b 4)"

definition UInt256Eq :: "UInt256 \<Rightarrow> UInt256 \<Rightarrow> bool" where
  "UInt256Eq a b = (union_u64 a 0 = union_u64 b 0 \<and> union_u64 a 1 = union_u64 b 1 \<and>
     union_u64 a 2 = union_u64 b 2 \<and> union_u64 a 3 = union_u64 b 3)"

definition UInt128IsZero :: "bytes \<Rightarrow> bool" where
  "UInt128IsZero u = ((union_u64 u 0 OR union_u64 u 1) = 0)"

definition UInt160IsZero :: "UInt160 \<Rightarrow> bool" where
  "UInt160IsZero u = ((union_u32 u 0 OR union_u32 u 1 OR union_u32 u 2 OR union_u32 u 3 OR
     union_u32 u 4) = 0)"

definition UInt256IsZero :: "UInt256 \<Rightarrow> bool" where
  "UInt256IsZero u = ((union_u64 u 0 OR union_u64 u 1 OR union_u64 u 2 OR union_u64 u 3) = 0)"

definition UInt256Reverse :: "UInt256 \<Rightarrow> UInt256" where
  "UInt256Reverse u = map (\<lambda>i. u ! (31 - i)) [0..<32]"

definition UINT160_ZERO :: UInt160 where
  "UINT160_ZERO = replicate 20 0"

definition UINT256_ZERO :: UInt256 where
  "UINT256_ZERO = replicate 32 0"

subsection \<open>The generic accessors\<close>

fun le_get :: "bytes \<Rightarrow> 'a::len word" where
  "le_get [] = 0"
| "le_get (b # bs) = ucast b OR push_bit 8 (le_get bs)"

fun le_set :: "nat \<Rightarrow> 'a::len word \<Rightarrow> bytes" where
  "le_set 0 u = []"
| "le_set (Suc n) u = ucast u # le_set n (drop_bit 8 u)"

lemma not_bit_u8 [simp]: "8 \<le> n \<Longrightarrow> \<not> bit (w :: u8) n"
  using bit_imp_le_length [of w n] by auto

lemma bit_ff: "bit (0xff :: 'a::len word) n \<longleftrightarrow> n < LENGTH('a) \<and> n < 8"
proof -
  have "(0xff :: 'a word) = mask 8" by (simp add: mask_eq_exp_minus_1)
  then show ?thesis by (simp only: bit_mask_iff) (auto simp: bit_simps)
qed

lemma ucast_and_ff [simp]: "(ucast (x AND 0xff) :: u8) = ucast (x :: 'a::len word)"
  by (rule bit_word_eqI, unfold bit_unsigned_iff bit_and_iff bit_ff) (auto dest: bit_imp_le_length)

lemma length_le_set [lens, simp]: "length (le_set n u) = n"
  by (induction n arbitrary: u) auto

lemma le_get_set: "le_get (le_set n u) = take_bit (8 * n) u"
proof (induction n arbitrary: u)
  case (Suc n)
  have "ucast (ucast u :: u8) OR push_bit 8 (take_bit (8 * n) (drop_bit 8 u)) =
      take_bit (8 * Suc n) u"
    by (rule bit_word_eqI) (auto simp: bit_simps)
  then show ?case by (simp add: Suc.IH)
qed simp

lemma le_set_get: "8 * length bs \<le> LENGTH('a) \<Longrightarrow> le_set (length bs) (le_get bs :: 'a::len word) = bs"
proof (induction bs)
  case (Cons b bs)
  have hd: "(ucast (ucast b OR push_bit 8 (le_get bs :: 'a word)) :: u8) = b"
    using Cons.prems by (intro bit_word_eqI) (auto simp: bit_simps)
  have "drop_bit 8 (ucast b OR push_bit 8 (x :: 'a word)) = x"
    if "drop_bit (LENGTH('a) - 8) x = 0" for x
  proof (rule bit_word_eqI)
    fix n assume n: "n < LENGTH('a)"
    have "\<not> bit x n" if "LENGTH('a) - 8 \<le> n"
    proof -
      have "\<not> bit (drop_bit (LENGTH('a) - 8) x) (n - (LENGTH('a) - 8))"
        using \<open>drop_bit (LENGTH('a) - 8) x = 0\<close> by simp
      then show ?thesis using that by (simp add: bit_simps)
    qed
    then show "bit (drop_bit 8 (ucast b OR push_bit 8 x)) n = bit x n"
      using n by (cases "8 + n < LENGTH('a)") (auto simp: bit_simps)
  qed
  moreover have small: "\<not> bit (le_get cs :: 'a word) n" if "8 * length cs \<le> n" for cs n
    using that by (induction cs arbitrary: n) (auto simp: bit_simps)
  have "drop_bit (LENGTH('a) - 8) (le_get bs :: 'a word) = 0"
    using Cons.prems by (intro bit_word_eqI) (auto simp: bit_simps small)
  ultimately show ?case
    using Cons by (simp add: hd)
qed simp

subsection \<open>The accessors are the generic ones\<close>

lemma take_bytes:
  "2 \<le> length b \<Longrightarrow> take 2 b = [b ! 0, b ! 1]"
  "4 \<le> length b \<Longrightarrow> take 4 b = [b ! 0, b ! 1, b ! 2, b ! 3]"
  "8 \<le> length b \<Longrightarrow> take 8 b = [b ! 0, b ! 1, b ! 2, b ! 3, b ! 4, b ! 5, b ! 6, b ! 7]"
  for b :: bytes
  by (rule nth_equalityI; auto simp: less_Suc_eq numeral_eq_Suc)+

lemma UIntSetLE_le_set:
  "UInt16SetLE v = le_set 2 v" "UInt32SetLE w = le_set 4 w" "UInt64SetLE u = le_set 8 u"
  by (simp_all add: UInt16SetLE_def UInt32SetLE_def UInt64SetLE_def numeral_eq_Suc)

lemma UIntSetBE_le_set:
  "UInt16SetBE v = rev (le_set 2 v)" "UInt32SetBE w = rev (le_set 4 w)"
  "UInt64SetBE u = rev (le_set 8 u)"
  by (simp_all add: UInt16SetBE_def UInt32SetBE_def UInt64SetBE_def numeral_eq_Suc)

lemma UIntGetLE_le_get:
  "2 \<le> length b \<Longrightarrow> UInt16GetLE b = le_get (take 2 b)"
  "4 \<le> length b \<Longrightarrow> UInt32GetLE b = le_get (take 4 b)"
  "8 \<le> length b \<Longrightarrow> UInt64GetLE b = le_get (take 8 b)"
  by (simp_all add: take_bytes UInt16GetLE_def UInt32GetLE_def UInt64GetLE_def
        push_bit_or ac_simps)

lemma UIntGetBE_le_get:
  "2 \<le> length b \<Longrightarrow> UInt16GetBE b = le_get (rev (take 2 b))"
  "4 \<le> length b \<Longrightarrow> UInt32GetBE b = le_get (rev (take 4 b))"
  "8 \<le> length b \<Longrightarrow> UInt64GetBE b = le_get (rev (take 8 b))"
  by (simp_all add: take_bytes UInt16GetBE_def UInt32GetBE_def UInt64GetBE_def
        push_bit_or ac_simps)

lemma length_UIntSet [lens, simp]:
  "length (UInt16SetLE v) = 2" "length (UInt32SetLE w) = 4" "length (UInt64SetLE u) = 8"
  "length (UInt16SetBE v) = 2" "length (UInt32SetBE w) = 4" "length (UInt64SetBE u) = 8"
  by (simp_all add: UIntSetLE_le_set UIntSetBE_le_set)

lemma take_bit_full [simp]:
  "take_bit 16 (v :: u16) = v" "take_bit 32 (w :: u32) = w" "take_bit 64 (u :: u64) = u"
  by (rule bit_word_eqI; simp add: bit_simps)+

lemma UIntGet_Set_LE [roundtrip, simp]:
  "UInt16GetLE (UInt16SetLE v @ t) = v"
  "UInt32GetLE (UInt32SetLE w @ t) = w"
  "UInt64GetLE (UInt64SetLE u @ t) = u"
  by (simp_all add: UIntGetLE_le_get UIntSetLE_le_set le_get_set)

lemma UIntGet_Set_BE [roundtrip, simp]:
  "UInt16GetBE (UInt16SetBE v @ t) = v"
  "UInt32GetBE (UInt32SetBE w @ t) = w"
  "UInt64GetBE (UInt64SetBE u @ t) = u"
  by (simp_all add: UIntGetBE_le_get UIntSetBE_le_set le_get_set)

lemma UIntSet_Get_LE [roundtrip]:
  "length b = 2 \<Longrightarrow> UInt16SetLE (UInt16GetLE b) = b"
  "length b = 4 \<Longrightarrow> UInt32SetLE (UInt32GetLE b) = b"
  "length b = 8 \<Longrightarrow> UInt64SetLE (UInt64GetLE b) = b"
  using le_set_get [of b, where ?'a = 16] le_set_get [of b, where ?'a = 32]
    le_set_get [of b, where ?'a = 64]
  by (simp_all add: UIntGetLE_le_get UIntSetLE_le_set)

lemma UIntSet_Get_BE [roundtrip]:
  "length b = 2 \<Longrightarrow> UInt16SetBE (UInt16GetBE b) = b"
  "length b = 4 \<Longrightarrow> UInt32SetBE (UInt32GetBE b) = b"
  "length b = 8 \<Longrightarrow> UInt64SetBE (UInt64GetBE b) = b"
  using le_set_get [of "rev b", where ?'a = 16] le_set_get [of "rev b", where ?'a = 32]
    le_set_get [of "rev b", where ?'a = 64]
  by (simp_all add: UIntGetBE_le_get UIntSetBE_le_set)

subsection \<open>Comparison is equality of the bytes\<close>

lemma le_get_inj:
  assumes "length a = length b" "8 * length b \<le> LENGTH('a)"
    and "(le_get a :: 'a::len word) = le_get b"
  shows "a = b"
  using assms le_set_get [of a, where ?'a = 'a] le_set_get [of b, where ?'a = 'a] by metis

lemma take8_eq: "length a = 32 \<Longrightarrow> i < 4 \<Longrightarrow>
  union_u64 a i = le_get (take 8 (drop (8 * i) a))"
  by (simp add: union_u64_def UIntGetLE_le_get)

lemma take4_eq: "length a = 20 \<Longrightarrow> i < 5 \<Longrightarrow>
  union_u32 a i = le_get (take 4 (drop (4 * i) a))"
  by (simp add: union_u32_def UIntGetLE_le_get)

lemma chunks_eqI:
  assumes "\<forall>i < k. take n (drop (n * i) a) = take n (drop (n * i) b)"
    and "length a = n * k" "length b = n * k"
  shows "a = b"
  using assms
proof (induction k arbitrary: a b)
  case (Suc k)
  have hd: "take n a = take n b" using spec [OF Suc.prems(1), of 0] by simp
  have "take n (drop (n * i) (drop n a)) = take n (drop (n * i) (drop n b))" if "i < k" for i
    using spec [OF Suc.prems(1), of "Suc i"] that by (simp add: add.commute)
  then have "drop n a = drop n b"
    using Suc.prems(2,3) by (intro Suc.IH) auto
  with hd show ?case by (metis append_take_drop_id)
qed simp

lemma UInt256Eq_iff [simp]:
  assumes a: "length a = 32" and b: "length b = 32"
  shows "UInt256Eq a b \<longleftrightarrow> a = b"
proof
  assume eq: "UInt256Eq a b"
  have "take 8 (drop (8 * i) a) = take 8 (drop (8 * i) b)" if i: "i < 4" for i
  proof (rule le_get_inj [where ?'a = 64])
    have "i = 0 \<or> i = 1 \<or> i = 2 \<or> i = 3" using i by auto
    then have "union_u64 a i = union_u64 b i"
      using eq by (auto simp: UInt256Eq_def)
    then show "(le_get (take 8 (drop (8 * i) a)) :: u64) = le_get (take 8 (drop (8 * i) b))"
      by (simp add: take8_eq a b i)
  qed (use a b i in auto)
  then show "a = b"
    using a b by (intro chunks_eqI [of 4 8]) auto
qed (simp add: UInt256Eq_def)

lemma le_get_zero: "le_get (replicate n 0) = 0"
  by (induction n) simp_all

lemma union_u64_ZERO: "i < 4 \<Longrightarrow> union_u64 UINT256_ZERO i = 0"
  using le_get_zero [of 8, where ?'a = 64]
  by (auto simp: take8_eq UINT256_ZERO_def min_def)

lemma UInt256IsZero_iff:
  assumes u: "length u = 32"
  shows "UInt256IsZero u \<longleftrightarrow> u = UINT256_ZERO"
proof -
  have "UInt256IsZero u \<longleftrightarrow> UInt256Eq u UINT256_ZERO"
    by (simp add: UInt256IsZero_def UInt256Eq_def union_u64_ZERO or_eq_0_iff)
  then show ?thesis using u by (simp add: UINT256_ZERO_def)
qed

lemma length_UINT_ZERO [lens, simp]: "length UINT256_ZERO = 32" "length UINT160_ZERO = 20"
  by (simp_all add: UINT256_ZERO_def UINT160_ZERO_def)

lemma length_UInt256Reverse [lens, simp]: "length (UInt256Reverse u) = 32"
  by (simp add: UInt256Reverse_def)

lemma UInt256Reverse_rev: "length u = 32 \<Longrightarrow> UInt256Reverse u = rev u"
  by (rule nth_equalityI) (auto simp: UInt256Reverse_def rev_nth)

subsection \<open>Hexadecimal\<close>

definition hexc :: "u8 \<Rightarrow> u8" where
  "hexc u = (u AND 0x0f) + (if (u AND 0x0f) \<le> 9 then 48 else 97 - 0x0a)"

definition hexu :: "u8 \<Rightarrow> int" where
  "hexu c = (if 48 \<le> c \<and> c \<le> 57 then uint c - 48
             else if 97 \<le> c \<and> c \<le> 102 then uint c - (97 - 0x0a)
             else if 65 \<le> c \<and> c \<le> 70 then uint c - (65 - 0x0a) else -1)"

definition u256hex :: "UInt256 \<Rightarrow> bytes" where
  "u256hex u = concat (map (\<lambda>b. [hexc (drop_bit 4 b), hexc b]) u)"

definition hex_byte :: "u8 \<Rightarrow> u8 \<Rightarrow> u8" where
  "hex_byte c d = word_of_int (push_bit 4 (hexu c) OR hexu d)"

definition uint256 :: "bytes \<Rightarrow> UInt256" where
  "uint256 s = map (\<lambda>i. hex_byte (s ! (2 * i)) (s ! (2 * i + 1))) [0..<32]"

lemma hexu_hexc: "hexu (hexc u) = uint (u AND 0x0f)"
proof -
  have "u AND 0x0f \<le> 0x0f" by (rule word_and_le1)
  then show ?thesis
    by (simp add: hexu_def hexc_def word_le_def uint_word_ariths)
qed

lemma hex_byte_hexc: "hex_byte (hexc (drop_bit 4 b)) (hexc b) = b"
proof -
  have nibble: "(0x0f :: u8) = mask 4" by (simp add: mask_eq_exp_minus_1)
  have "(word_of_int (push_bit 4 (uint (drop_bit 4 b AND 0x0f)) OR uint (b AND 0x0f)) :: u8) = b"
    unfolding nibble by (rule bit_word_eqI) (auto simp: bit_simps simp del: mask_numeral)
  then show ?thesis by (simp add: hex_byte_def hexu_hexc)
qed

lemma length_u256hex: "length (u256hex u) = 2 * length u"
  by (induction u) (simp_all add: u256hex_def)

lemma u256hex_nth:
  "i < length u \<Longrightarrow> u256hex u ! (2 * i) = hexc (drop_bit 4 (u ! i)) \<and>
                     u256hex u ! (2 * i + 1) = hexc (u ! i)"
proof (induction u arbitrary: i)
  case (Cons b u)
  then show ?case by (cases i) (auto simp: u256hex_def)
qed simp

lemma uint256_u256hex [roundtrip]: "length u = 32 \<Longrightarrow> uint256 (u256hex u) = u"
  by (rule nth_equalityI) (auto simp: uint256_def u256hex_nth [simplified] hex_byte_hexc)

lemma unat_drop_bit: "unat (drop_bit n w) = unat w div 2 ^ n" for w :: "'w::len word"
  unfolding unsigned_drop_bit_eq by (simp add: drop_bit_eq_div take_bit_nat_eq_self)

end
