(* ===== verification/LW_Array.thy ===== *)
theory LW_Array
  imports Prelude
begin

text \<open>
  Model of \<^verbatim>\<open>LWArray.h\<close>, the growable array macros: a memory block of \<open>capacity\<close> items of
  which the first \<open>count\<close> are live. The zero item \<open>z\<close> is what \<open>calloc\<close> and \<open>memset\<close> leave.
  The element loops are written as the loops they are; an assertion that fails is \<open>None\<close>.
  The contract: every macro keeps the unused slots zeroed (which is why growing the count
  exposes zeroes) and acts on the live items as the list operation of its name.
\<close>

record 'a arr =
  mem :: "'a list"
  cnt :: nat

abbreviation capacity :: "'a arr \<Rightarrow> nat" where
  "capacity a \<equiv> length (mem a)"

definition array_new :: "'a \<Rightarrow> nat \<Rightarrow> 'a arr" where
  "array_new z cap = \<lparr>mem = replicate cap z, cnt = 0\<rparr>"

definition array_set_capacity :: "'a \<Rightarrow> nat \<Rightarrow> 'a arr \<Rightarrow> 'a arr option" where
  "array_set_capacity z cap a =
     (if cap < cnt a then None
      else Some (a\<lparr>mem := take cap (mem a) @ replicate (cap - capacity a) z\<rparr>))"

definition grow_to :: "'a \<Rightarrow> nat \<Rightarrow> nat \<Rightarrow> 'a arr \<Rightarrow> 'a arr option" where
  "grow_to z need cap a = (if need > capacity a then array_set_capacity z cap a else Some a)"

definition array_set_count :: "'a \<Rightarrow> nat \<Rightarrow> 'a arr \<Rightarrow> 'a arr option" where
  "array_set_count z n a =
     (case grow_to z n n a of None \<Rightarrow> None
      | Some a' \<Rightarrow> Some (a'\<lparr>mem := (if n < cnt a' then take n (mem a') @ replicate (cnt a' - n) z
                                       @ drop (cnt a') (mem a') else mem a'), cnt := n\<rparr>))"

definition array_add :: "'a \<Rightarrow> 'a \<Rightarrow> 'a arr \<Rightarrow> 'a arr option" where
  "array_add z item a =
     (case grow_to z (cnt a + 1) ((capacity a + 1) * 3 div 2) a of None \<Rightarrow> None
      | Some a' \<Rightarrow> Some (a'\<lparr>mem := (mem a')[cnt a' := item], cnt := cnt a' + 1\<rparr>))"

fun copy_in :: "'a list \<Rightarrow> nat \<Rightarrow> 'a list \<Rightarrow> 'a list" where
  "copy_in m i [] = m"
| "copy_in m i (x # xs) = copy_in (m[i := x]) (Suc i) xs"

definition array_add_array :: "'a \<Rightarrow> 'a list \<Rightarrow> 'a arr \<Rightarrow> 'a arr option" where
  "array_add_array z other a =
     (case grow_to z (cnt a + length other) ((cnt a + length other) * 3 div 2) a of None \<Rightarrow> None
      | Some a' \<Rightarrow> Some (a'\<lparr>mem := copy_in (mem a') (cnt a') other, cnt := cnt a' + length other\<rparr>))"

text \<open>\<open>shift_up k idx n m\<close>: the loop that moves the items \<open>idx..<idx + n\<close> up by \<open>k\<close>, last first.\<close>

fun shift_up :: "nat \<Rightarrow> nat \<Rightarrow> nat \<Rightarrow> 'a list \<Rightarrow> 'a list" where
  "shift_up k idx 0 m = m"
| "shift_up k idx (Suc n) m = shift_up k idx n (m[idx + n + k := m ! (idx + n)])"

definition array_insert :: "'a \<Rightarrow> nat \<Rightarrow> 'a \<Rightarrow> 'a arr \<Rightarrow> 'a arr option" where
  "array_insert z idx item a =
     (if idx < cnt a + 1 then
        (case grow_to z (cnt a + 1) ((capacity a + 1) * 3 div 2) (a\<lparr>cnt := cnt a + 1\<rparr>) of None \<Rightarrow> None
         | Some a' \<Rightarrow> Some (a'\<lparr>mem := (shift_up 1 idx (cnt a - idx) (mem a'))[idx := item]\<rparr>))
      else None)"

definition array_insert_array :: "'a \<Rightarrow> nat \<Rightarrow> 'a list \<Rightarrow> 'a arr \<Rightarrow> 'a arr option" where
  "array_insert_array z idx other a =
     (if idx \<le> cnt a then
        (case grow_to z (cnt a + length other) ((cnt a + length other) * 3 div 2) a of None \<Rightarrow> None
         | Some a' \<Rightarrow> Some (a'\<lparr>mem := copy_in (shift_up (length other) idx (cnt a' - idx) (mem a')) idx other,
                             cnt := cnt a' + length other\<rparr>))
      else None)"

text \<open>\<open>shift_down k i n m\<close>: the loop that moves \<open>n\<close> items down by \<open>k\<close> to \<open>i\<close>, first first.\<close>

fun shift_down :: "nat \<Rightarrow> nat \<Rightarrow> nat \<Rightarrow> 'a list \<Rightarrow> 'a list" where
  "shift_down k i 0 m = m"
| "shift_down k i (Suc n) m = shift_down k (Suc i) n (m[i := m ! (i + k)])"

definition array_rm :: "'a \<Rightarrow> nat \<Rightarrow> 'a arr \<Rightarrow> 'a arr option" where
  "array_rm z idx a =
     (if idx < cnt a then
        Some (a\<lparr>mem := (shift_down 1 idx (cnt a - 1 - idx) (mem a))[cnt a - 1 := z], cnt := cnt a - 1\<rparr>)
      else None)"

definition array_rm_last :: "'a \<Rightarrow> 'a arr \<Rightarrow> 'a arr" where
  "array_rm_last z a =
     (if cnt a > 0 then a\<lparr>mem := (mem a)[cnt a - 1 := z], cnt := cnt a - 1\<rparr> else a)"

definition array_rm_range :: "'a \<Rightarrow> nat \<Rightarrow> nat \<Rightarrow> 'a arr \<Rightarrow> 'a arr option" where
  "array_rm_range z idx len a =
     (if idx < cnt a \<and> idx + len \<le> cnt a then
        Some (a\<lparr>mem := copy_in (shift_down len idx (cnt a - len - idx) (mem a)) (cnt a - len) (replicate len z),
               cnt := cnt a - len\<rparr>)
      else None)"

definition array_clear :: "'a \<Rightarrow> 'a arr \<Rightarrow> 'a arr" where
  "array_clear z a = a\<lparr>mem := replicate (cnt a) z @ drop (cnt a) (mem a), cnt := 0\<rparr>"

subsection \<open>The element loops\<close>

lemma replicate_append [simp]:
  "replicate m z @ replicate n z = replicate (m + n) z"
  "replicate m z @ replicate n z @ xs = replicate (m + n) z @ xs"
  by (simp_all add: replicate_add)

lemma length_copy_in [simp]: "length (copy_in m i xs) = length m"
  by (induction m i xs rule: copy_in.induct) simp_all

lemma length_shift_up [simp]: "length (shift_up k i n m) = length m"
  by (induction k i n m rule: shift_up.induct) simp_all

lemma length_shift_down [simp]: "length (shift_down k i n m) = length m"
  by (induction k i n m rule: shift_down.induct) simp_all

lemma copy_in_eq: "i + length xs \<le> length m \<Longrightarrow>
  copy_in m i xs = take i m @ xs @ drop (i + length xs) m"
proof (induction m i xs rule: copy_in.induct)
  case (2 m i x xs)
  then show ?case by (simp add: upd_conv_take_nth_drop add.commute)
qed simp

lemma shift_down_nth: "i + n + k \<le> length m \<Longrightarrow> j < length m \<Longrightarrow>
  shift_down k i n m ! j = (if i \<le> j \<and> j < i + n then m ! (j + k) else m ! j)"
proof (induction k i n m arbitrary: j rule: shift_down.induct)
  case (2 k i n m)
  then show ?case by (cases "k = 0") (auto simp: nth_list_update)
qed auto

lemma shift_up_nth: "i + n + k \<le> length m \<Longrightarrow> j < length m \<Longrightarrow>
  shift_up k i n m ! j = (if i + k \<le> j \<and> j < i + n + k then m ! (j - k) else m ! j)"
proof (induction k i n m arbitrary: j rule: shift_up.induct)
  case (2 k i n m)
  then show ?case by (cases "k = 0") (auto simp: nth_list_update)
qed auto

lemma shift_down_eq: "i + n + k \<le> length m \<Longrightarrow>
  shift_down k i n m = take i m @ take n (drop (i + k) m) @ drop (i + n) m"
  by (rule nth_equalityI) (auto simp: shift_down_nth nth_append add.commute add.left_commute)

lemma shift_up_eq: "i + n + k \<le> length m \<Longrightarrow>
  shift_up k i n m = take (i + k) m @ take n (drop i m) @ drop (i + n + k) m"
  by (rule nth_equalityI) (auto simp: shift_up_nth nth_append add.commute add.left_commute)

subsection \<open>The contract\<close>

definition arr_inv :: "'a \<Rightarrow> 'a arr \<Rightarrow> bool" where
  "arr_inv z a \<longleftrightarrow> cnt a \<le> capacity a \<and> drop (cnt a) (mem a) = replicate (capacity a - cnt a) z"

definition items :: "'a arr \<Rightarrow> 'a list" where
  "items a = take (cnt a) (mem a)"

lemma arr_invI:
  assumes "mem a = xs @ replicate k z" "cnt a = length xs"
  shows "arr_inv z a" and "items a = xs"
  using assms by (simp_all add: arr_inv_def items_def)

lemma arr_invE:
  assumes "arr_inv z a"
  obtains k where "mem a = items a @ replicate k z" "cnt a = length (items a)"
proof
  show "mem a = items a @ replicate (capacity a - cnt a) z"
    using assms by (metis append_take_drop_id arr_inv_def items_def)
  show "cnt a = length (items a)"
    using assms by (simp add: arr_inv_def items_def)
qed

lemma array_new_ok: "arr_inv z (array_new z cap)" "items (array_new z cap) = []"
  by (simp_all add: array_new_def arr_inv_def items_def)

lemma grow_to_ok:
  assumes "arr_inv z a" "cnt a \<le> cap" "need \<le> cap"
  obtains a' k where "grow_to z need cap a = Some a'" "mem a' = items a @ replicate k z"
    "cnt a' = length (items a)" "need \<le> length (mem a')" "arr_inv z a'" "items a' = items a"
proof -
  from assms(1) obtain k where k: "mem a = items a @ replicate k z" "cnt a = length (items a)"
    by (rule arr_invE)
  show thesis
  proof (cases "need > capacity a")
    case False
    with k show thesis by (intro that [of a k]) (auto simp: grow_to_def assms(1))
  next
    case True
    let ?a = "a\<lparr>mem := take cap (mem a) @ replicate (cap - capacity a) z\<rparr>"
    have m: "mem ?a = items a @ replicate (cap - cnt a) z"
      using True assms(2,3) k by simp
    show thesis
    proof (rule that [of ?a "cap - cnt a"])
      show "grow_to z need cap a = Some ?a"
        using True assms(2) by (simp add: grow_to_def array_set_capacity_def)
      show "arr_inv z ?a" "items ?a = items a"
        using k(2) by (auto intro: arr_invI [OF m])
    qed (use m k True assms in simp_all)
  qed
qed

lemma cnt_items: "arr_inv z a \<Longrightarrow> cnt a = length (items a)"
  by (simp add: arr_inv_def items_def)

lemma cnt_cap: "arr_inv z a \<Longrightarrow> cnt a \<le> capacity a"
  by (simp add: arr_inv_def)

text \<open>
  \<open>models z r xs\<close>: the operation succeeded with a well-formed array whose live items are \<open>xs\<close>.
\<close>

definition models :: "'a \<Rightarrow> 'a arr option \<Rightarrow> 'a list \<Rightarrow> bool" where
  "models z r xs \<longleftrightarrow> (\<exists>a. r = Some a \<and> arr_inv z a \<and> items a = xs)"

lemma modelsI: "mem a = xs @ replicate k z \<Longrightarrow> cnt a = length xs \<Longrightarrow> models z (Some a) xs"
  using arr_invI [of a xs k z] by (simp add: models_def)

lemma array_add_models:
  assumes "arr_inv z a"
  shows "models z (array_add z x a) (items a @ [x])"
proof -
  obtain a' k where g: "grow_to z (cnt a + 1) ((capacity a + 1) * 3 div 2) a = Some a'"
    and a': "mem a' = items a @ replicate k z" "cnt a' = length (items a)" "cnt a + 1 \<le> length (mem a')"
    using cnt_cap [OF assms] by (rule_tac grow_to_ok [OF assms, of "(capacity a + 1) * 3 div 2" "cnt a + 1"]) auto
  then obtain k' where "k = Suc k'" using cnt_items [OF assms] by (cases k) auto
  then show ?thesis
    using a' by (auto simp: array_add_def g [simplified] intro: modelsI)
qed

lemma array_add_array_models:
  assumes "arr_inv z a"
  shows "models z (array_add_array z xs a) (items a @ xs)"
proof -
  let ?n = "cnt a + length xs"
  obtain a' k where g: "grow_to z ?n (?n * 3 div 2) a = Some a'"
    and a': "mem a' = items a @ replicate k z" "cnt a' = length (items a)" "?n \<le> length (mem a')"
    by (rule grow_to_ok [OF assms, of "?n * 3 div 2" ?n]) auto
  then show ?thesis
    using cnt_items [OF assms]
    by (auto simp: array_add_array_def g [simplified] copy_in_eq intro!: modelsI [where k = "k - length xs"])
qed

lemma array_set_count_models:
  assumes "arr_inv z a"
  shows "models z (array_set_count z n a) (take n (items a @ replicate n z))"
proof (cases "n < cnt a")
  case True
  obtain k where k: "mem a = items a @ replicate k z" using assms by (rule arr_invE)
  have "n \<le> capacity a" using True cnt_cap [OF assms] by simp
  then show ?thesis
    using True k cnt_items [OF assms]
    by (auto simp: array_set_count_def grow_to_def intro!: modelsI [where k = "cnt a - n + k"])
next
  case False
  obtain a' k where g: "grow_to z n n a = Some a'"
    and a': "mem a' = items a @ replicate k z" "cnt a' = length (items a)" "n \<le> length (mem a')"
    using False by (rule_tac grow_to_ok [OF assms, of n n]) auto
  then have "n \<le> length (items a) + k" by simp
  then have "replicate k z = replicate (n - length (items a)) z @ replicate (length (items a) + k - n) z"
    using False cnt_items [OF assms] by simp
  then show ?thesis
    using a' False cnt_items [OF assms]
    by (auto simp: array_set_count_def g min_def intro!: modelsI [where k = "length (items a) + k - n"])
qed

lemma array_insert_array_models:
  assumes "arr_inv z a" "i \<le> length (items a)"
  shows "models z (array_insert_array z i xs a) (take i (items a) @ xs @ drop i (items a))"
proof -
  let ?n = "length (items a) + length xs"
  obtain a' k where g: "grow_to z ?n (?n * 3 div 2) a = Some a'"
    and a': "mem a' = items a @ replicate k z" "cnt a' = length (items a)" "?n \<le> length (mem a')"
    using cnt_items [OF assms(1)] by (rule_tac grow_to_ok [OF assms(1), of "?n * 3 div 2" ?n]) auto
  have k: "length xs \<le> k" using a' cnt_items [OF assms(1)] by simp
  have "copy_in (shift_up (length xs) i (cnt a' - i) (mem a')) i xs =
      (take i (items a) @ xs @ drop i (items a)) @ replicate (k - length xs) z"
    using assms(2) a' k
    by (simp add: shift_up_eq copy_in_eq take_add [symmetric] drop_append)
  then show ?thesis
    using assms(2) a'(2) cnt_items [OF assms(1)]
    by (auto simp: array_insert_array_def g [simplified] intro!: modelsI)
qed

lemma array_insert_models:
  assumes "arr_inv z a" "i \<le> length (items a)"
  shows "models z (array_insert z i x a) (take i (items a) @ x # drop i (items a))"
proof -
  obtain k0 where k0: "mem a = items a @ replicate k0 z" using assms(1) by (rule arr_invE)
  have n: "cnt a = length (items a)" using assms(1) by (rule cnt_items)
  let ?cap = "(capacity a + 1) * 3 div 2"
  define m where "m = (if cnt a + 1 > capacity a then take ?cap (mem a) @ replicate (?cap - capacity a) z else mem a)"
  have cap: "capacity a + 1 \<le> ?cap" by simp
  have g: "grow_to z (cnt a + 1) ?cap (a\<lparr>cnt := cnt a + 1\<rparr>) = Some (a\<lparr>cnt := cnt a + 1, mem := m\<rparr>)"
    using cap cnt_cap [OF assms(1)] by (auto simp: grow_to_def array_set_capacity_def m_def)
  obtain k where k: "m = items a @ replicate (Suc k) z"
  proof (cases "cnt a + 1 > capacity a")
    case True
    then have "m = items a @ replicate (k0 + (?cap - capacity a)) z"
      using cap by (simp add: m_def k0)
    moreover have "Suc (k0 + (?cap - capacity a) - 1) = k0 + (?cap - capacity a)" using cap by simp
    ultimately show thesis using that [of "k0 + (?cap - capacity a) - 1"] by metis
  next
    case False
    then have "k0 = Suc (k0 - 1)" using k0 n by simp
    then show thesis using False k0 that [of "k0 - 1"] by (simp add: m_def)
  qed
  have "(shift_up 1 i (cnt a - i) m)[i := x] = (take i (items a) @ x # drop i (items a)) @ replicate k z"
    using assms(2) n k by (simp add: shift_up_eq take_Suc_conv_app_nth list_update_append nth_append)
  then show ?thesis
    using assms(2) n by (auto simp: array_insert_def g [unfolded n, simplified] intro!: modelsI)
qed

lemma array_rm_range_models:
  assumes "arr_inv z a" "i < length (items a)" "i + n \<le> length (items a)"
  shows "models z (array_rm_range z i n a) (take i (items a) @ drop (i + n) (items a))"
proof -
  obtain k where k: "mem a = items a @ replicate k z" using assms(1) by (rule arr_invE)
  have c: "cnt a = length (items a)" using assms(1) by (rule cnt_items)
  have "copy_in (shift_down n i (cnt a - n - i) (mem a)) (cnt a - n) (replicate n z) =
      (take i (items a) @ drop (i + n) (items a)) @ replicate (n + k) z"
    using assms(2,3) c k by (simp add: shift_down_eq copy_in_eq)
  then show ?thesis
    using assms(2,3) c by (auto simp: array_rm_range_def intro!: modelsI)
qed

lemma array_rm_models:
  assumes "arr_inv z a" "i < length (items a)"
  shows "models z (array_rm z i a) (take i (items a) @ drop (Suc i) (items a))"
proof -
  obtain k where k: "mem a = items a @ replicate k z" using assms(1) by (rule arr_invE)
  have c: "cnt a = length (items a)" using assms(1) by (rule cnt_items)
  obtain ys y where y: "items a = ys @ [y]" using assms(2) by (cases "items a" rule: rev_cases) auto
  have "(shift_down 1 i (cnt a - 1 - i) (mem a))[cnt a - 1 := z] =
      (take i (items a) @ drop (Suc i) (items a)) @ replicate (Suc k) z"
  proof (cases "i = length ys")
    case False
    then have i: "i < length ys" using assms(2) y by simp
    then have "shift_down 1 i (length ys - i) (mem a) = (take i ys @ drop (Suc i) ys @ [y]) @ y # replicate k z"
      by (simp add: shift_down_eq k y Suc_diff_Suc)
    then show ?thesis using i c y by (simp add: list_update_append) arith
  qed (use c k y in simp)
  then show ?thesis
    using assms(2) c by (auto simp: array_rm_def intro!: modelsI [where k = "Suc k"])
qed

lemma array_rm_last_models:
  assumes "arr_inv z a"
  shows "models z (Some (array_rm_last z a)) (butlast (items a))"
proof (cases "items a" rule: rev_cases)
  case Nil
  then show ?thesis using assms cnt_items [OF assms] by (simp add: models_def array_rm_last_def)
next
  case (snoc xs x)
  obtain k where k: "mem a = items a @ replicate k z" using assms by (rule arr_invE)
  then show ?thesis
    using snoc cnt_items [OF assms]
    by (auto simp: array_rm_last_def list_update_append intro!: modelsI [where k = "Suc k"])
qed

lemma array_clear_models:
  assumes "arr_inv z a"
  shows "models z (Some (array_clear z a)) []"
proof -
  obtain k where k: "mem a = items a @ replicate k z" using assms by (rule arr_invE)
  then show ?thesis
    using cnt_items [OF assms]
    by (auto simp: array_clear_def intro!: modelsI [where k = "cnt a + k"])
qed

end
