(* ===== verification/LW_Set.thy ===== *)
theory LW_Set
  imports Prelude
begin

text \<open>
  Model of \<^verbatim>\<open>LWSet.c\<close>, the linearly probed hash table every wallet component keeps its state in.
  A set holds its bucket array, its size, the item count and the two functions it was created
  with, as \<^verbatim>\<open>struct LWSetStruct\<close> does. An item is a non-NULL pointer; HOL equality of items is
  pointer equality. Probing visits the buckets cyclically and may visit each once: a probe that
  comes round without stopping would loop forever in C, and is \<open>None\<close> here, as is an operation
  that would need a table beyond the largest size. The theorems show that neither happens in a
  well-formed set with room, and that the table implements a set keyed by \<open>eq\<close>.
\<close>

definition tableSizes :: "nat list" where
  "tableSizes = [
    1, 3, 7, 13, 23, 37, 59, 97, 149, 227, 347, 523, 787, 1187, 1783, 2677, 4019, 6037, 9059, 13591,
    20389, 30593, 45887, 68863, 103307, 154981, 232487, 348739, 523129, 784697, 1177067, 1765609,
    2648419, 3972643, 5958971, 8938469, 13407707, 20111563, 30167359, 45251077, 67876637, 101814991,
    152722489, 229083739, 343625629, 515438447, 773157683, 1159736527, 1739604799, 2609407319, 3914111041]"

definition TABLE_SIZES_LEN :: nat where
  "TABLE_SIZES_LEN = length tableSizes"

record 'a lwset =
  table :: "'a option list"
  tsize :: nat
  itemCount :: nat
  hashf :: "'a \<Rightarrow> nat"
  eqf :: "'a \<Rightarrow> 'a \<Rightarrow> bool"

subsection \<open>Creation\<close>

definition size_index :: "nat \<Rightarrow> nat" where
  "size_index cap = length (takeWhile (\<lambda>s. s < cap) tableSizes)"

text \<open>
  The table and size of \<open>st\<close> are left as they were when no size is large enough: zero for
  \<open>LWSetNew\<close> (the struct comes from \<open>calloc\<close>), garbage for \<open>LWSetGrow\<close>.
\<close>

definition LWSetInit :: "'a lwset \<Rightarrow> ('a \<Rightarrow> nat) \<Rightarrow> ('a \<Rightarrow> 'a \<Rightarrow> bool) \<Rightarrow> nat \<Rightarrow> 'a lwset" where
  "LWSetInit st hash eq capacity =
     (let i = size_index capacity;
          set1 = (if i + 1 < TABLE_SIZES_LEN
                  then st\<lparr>table := replicate (tableSizes ! (i + 1)) None, tsize := tableSizes ! (i + 1)\<rparr>
                  else st)
      in set1\<lparr>itemCount := 0, hashf := hash, eqf := eq\<rparr>)"

definition LWSetNew :: "('a \<Rightarrow> nat) \<Rightarrow> ('a \<Rightarrow> 'a \<Rightarrow> bool) \<Rightarrow> nat \<Rightarrow> 'a lwset" where
  "LWSetNew hash eq capacity =
     LWSetInit \<lparr>table = [], tsize = 0, itemCount = 0, hashf = hash, eqf = eq\<rparr> hash eq capacity"

subsection \<open>Probing\<close>

fun probe :: "nat \<Rightarrow> ('a option \<Rightarrow> bool) \<Rightarrow> 'a option list \<Rightarrow> nat \<Rightarrow> nat option" where
  "probe 0 stop t i = None"
| "probe (Suc n) stop t i = (if stop (t ! i) then Some i else probe n stop t ((i + 1) mod length t))"

definition stop_at :: "('a \<Rightarrow> 'a \<Rightarrow> bool) \<Rightarrow> 'a \<Rightarrow> 'a option \<Rightarrow> bool" where
  "stop_at eq item cell = (case cell of None \<Rightarrow> True | Some t \<Rightarrow> t = item \<or> eq t item)"

definition find_bucket :: "'a lwset \<Rightarrow> 'a \<Rightarrow> nat option" where
  "find_bucket st item =
     probe (tsize st) (stop_at (eqf st) item) (table st) (hashf st item mod tsize st)"

definition LWSetGet :: "'a lwset \<Rightarrow> 'a \<Rightarrow> 'a option option" where
  "LWSetGet st item = map_option (\<lambda>i. table st ! i) (find_bucket st item)"

definition LWSetContains :: "'a lwset \<Rightarrow> 'a \<Rightarrow> bool option" where
  "LWSetContains st item = map_option (\<lambda>t. t \<noteq> None) (LWSetGet st item)"

subsection \<open>Adding\<close>

text \<open>The part of \<open>LWSetAdd\<close> before the load check: the new set and the item replaced.\<close>

definition put_item :: "'a lwset \<Rightarrow> 'a \<Rightarrow> ('a lwset \<times> 'a option) option" where
  "put_item st item = (case find_bucket st item of None \<Rightarrow> None
     | Some i \<Rightarrow> (let t = table st ! i in
         Some (st\<lparr>itemCount := (if t = None then itemCount st + 1 else itemCount st),
                   table := (table st)[i := Some item]\<rparr>, t)))"

fun add_each :: "('s \<Rightarrow> 'a \<Rightarrow> ('s \<times> 'a option) option) \<Rightarrow> 's \<Rightarrow> 'a option list \<Rightarrow> 's option" where
  "add_each add st [] = Some st"
| "add_each add st (None # ts) = add_each add st ts"
| "add_each add st (Some t # ts) =
     (case add st t of None \<Rightarrow> None | Some (st', _) \<Rightarrow> add_each add st' ts)"

definition LWSetGrow :: "('a lwset \<Rightarrow> 'a \<Rightarrow> ('a lwset \<times> 'a option) option) \<Rightarrow> 'a lwset \<Rightarrow> nat
    \<Rightarrow> 'a lwset option" where
  "LWSetGrow add st capacity =
     (if size_index capacity + 1 < TABLE_SIZES_LEN then
        (case add_each add (LWSetInit st (hashf st) (eqf st) capacity) (table st) of None \<Rightarrow> None
         | Some newSet \<Rightarrow> Some (st\<lparr>table := table newSet, tsize := tsize newSet,
                                    itemCount := itemCount newSet\<rparr>))
      else None)"

text \<open>
  \<open>LWSetAdd\<close> and \<open>LWSetGrow\<close> call each other; each level of nesting allocates the next larger
  table, so there are at most \<open>TABLE_SIZES_LEN\<close> levels. (One is enough: see \<open>LWSetAdd_ok\<close>.)
\<close>

primrec LWSetAdd_levels :: "nat \<Rightarrow> 'a lwset \<Rightarrow> 'a \<Rightarrow> ('a lwset \<times> 'a option) option" where
  "LWSetAdd_levels 0 = (\<lambda>st item. None)"
| "LWSetAdd_levels (Suc n) = (\<lambda>st item.
     (case put_item st item of None \<Rightarrow> None
      | Some (st', t) \<Rightarrow>
          if itemCount st' > ((tsize st + 2) div 3) * 2
          then map_option (\<lambda>s. (s, t)) (LWSetGrow (LWSetAdd_levels n) st' (tsize st))
          else Some (st', t)))"

definition LWSetAdd :: "'a lwset \<Rightarrow> 'a \<Rightarrow> ('a lwset \<times> 'a option) option" where
  "LWSetAdd = LWSetAdd_levels TABLE_SIZES_LEN"

subsection \<open>Removing\<close>

text \<open>The cleanup loop: re-adds the items of the cluster after the freed bucket.\<close>

fun cleanup :: "nat \<Rightarrow> nat \<Rightarrow> nat \<Rightarrow> 'a lwset \<Rightarrow> 'a lwset option" where
  "cleanup 0 sz i st = None"
| "cleanup (Suc n) sz i st =
     (case table st ! i of None \<Rightarrow> Some st
      | Some t \<Rightarrow>
          (case LWSetAdd (st\<lparr>itemCount := itemCount st - 1, table := (table st)[i := None]\<rparr>) t of
             None \<Rightarrow> None
           | Some (st', _) \<Rightarrow> cleanup n sz ((i + 1) mod sz) st'))"

definition LWSetRemove :: "'a lwset \<Rightarrow> 'a \<Rightarrow> ('a lwset \<times> 'a option) option" where
  "LWSetRemove st item =
     (case find_bucket st item of None \<Rightarrow> None
      | Some i \<Rightarrow>
          (case table st ! i of None \<Rightarrow> Some (st, None)
           | Some r \<Rightarrow>
               map_option (\<lambda>s. (s, Some r))
                 (cleanup (tsize st) (tsize st) ((i + 1) mod tsize st)
                    (st\<lparr>itemCount := itemCount st - 1, table := (table st)[i := None]\<rparr>))))"

subsection \<open>The remaining operations\<close>

definition LWSetClear :: "'a lwset \<Rightarrow> 'a lwset" where
  "LWSetClear st = st\<lparr>table := replicate (tsize st) None, itemCount := 0\<rparr>"

definition LWSetCount :: "'a lwset \<Rightarrow> nat" where
  "LWSetCount st = itemCount st"

fun intersects_from :: "'a lwset \<Rightarrow> 'a option list \<Rightarrow> bool option" where
  "intersects_from st [] = Some False"
| "intersects_from st (None # ts) = intersects_from st ts"
| "intersects_from st (Some t # ts) =
     (case LWSetGet st t of None \<Rightarrow> None | Some (Some _) \<Rightarrow> Some True
      | Some None \<Rightarrow> intersects_from st ts)"

definition LWSetIntersects :: "'a lwset \<Rightarrow> 'a lwset \<Rightarrow> bool option" where
  "LWSetIntersects st otherSet = intersects_from st (table otherSet)"

fun first_item :: "'a option list \<Rightarrow> 'a option" where
  "first_item [] = None"
| "first_item (None # ts) = first_item ts"
| "first_item (Some t # ts) = Some t"

definition LWSetIterate :: "'a lwset \<Rightarrow> 'a option \<Rightarrow> 'a option option" where
  "LWSetIterate st previous =
     (case previous of None \<Rightarrow> Some (first_item (table st))
      | Some p \<Rightarrow> map_option (\<lambda>i. first_item (drop (i + 1) (table st))) (find_bucket st p))"

fun all_items :: "'a option list \<Rightarrow> nat \<Rightarrow> 'a list" where
  "all_items ts 0 = []"
| "all_items [] n = []"
| "all_items (None # ts) (Suc n) = all_items ts (Suc n)"
| "all_items (Some t # ts) (Suc n) = t # all_items ts n"

definition LWSetAll :: "'a lwset \<Rightarrow> nat \<Rightarrow> 'a list" where
  "LWSetAll st count = all_items (table st) count"

definition LWSetApply :: "'a lwset \<Rightarrow> 'i \<Rightarrow> ('i \<Rightarrow> 'a \<Rightarrow> 'i) \<Rightarrow> 'i" where
  "LWSetApply st info apply =
     foldl (\<lambda>i t. case t of None \<Rightarrow> i | Some x \<Rightarrow> apply i x) info (table st)"

definition LWSetUnion :: "'a lwset \<Rightarrow> 'a lwset \<Rightarrow> 'a lwset option" where
  "LWSetUnion st otherSet = add_each LWSetAdd st (table otherSet)"

definition LWSetMinus :: "'a lwset \<Rightarrow> 'a lwset \<Rightarrow> 'a lwset option" where
  "LWSetMinus st otherSet = add_each LWSetRemove st (table otherSet)"

fun intersect_loop :: "nat \<Rightarrow> nat \<Rightarrow> nat \<Rightarrow> 'a lwset \<Rightarrow> 'a lwset \<Rightarrow> 'a lwset option" where
  "intersect_loop 0 sz i st otherSet = (if i < sz then None else Some st)"
| "intersect_loop (Suc n) sz i st otherSet =
     (if i < sz then
        (case table st ! i of None \<Rightarrow> intersect_loop n sz (i + 1) st otherSet
         | Some t \<Rightarrow>
             (case LWSetContains otherSet t of None \<Rightarrow> None
              | Some True \<Rightarrow> intersect_loop n sz (i + 1) st otherSet
              | Some False \<Rightarrow>
                  (case LWSetRemove st t of None \<Rightarrow> None
                   | Some (st', _) \<Rightarrow> intersect_loop n sz i st' otherSet)))
      else Some st)"

definition LWSetIntersect :: "'a lwset \<Rightarrow> 'a lwset \<Rightarrow> 'a lwset option" where
  "LWSetIntersect st otherSet =
     intersect_loop (tsize st + itemCount st) (tsize st) 0 st otherSet"

subsection \<open>Cyclic buckets and probing\<close>

definition cell :: "'a option list \<Rightarrow> nat \<Rightarrow> 'a option" where
  "cell t k = t ! (k mod length t)"

lemma cell_mod [simp]: "cell t (k mod length t) = cell t k"
  by (simp add: cell_def)

lemma cell_mod_add [simp]: "cell t (k mod length t + d) = cell t (k + d)"
  by (simp add: cell_def mod_add_left_eq)

lemma cell_update:
  "t \<noteq> [] \<Longrightarrow> cell (t[j mod length t := v]) k = (if k mod length t = j mod length t then v else cell t k)"
  by (simp add: cell_def nth_list_update)

lemma probe_spec:
  "i < length t \<Longrightarrow> (case probe n stop t i of
      None \<Rightarrow> \<forall>d < n. \<not> stop (cell t (i + d))
    | Some j \<Rightarrow> \<exists>d < n. j = (i + d) mod length t \<and> stop (cell t (i + d)) \<and>
                (\<forall>e < d. \<not> stop (cell t (i + e))))"
proof (induction n arbitrary: i)
  case (Suc n)
  let ?i = "(i + 1) mod length t"
  have i': "?i < length t" using Suc.prems by (intro mod_less_divisor) auto
  have step: "cell t (?i + e) = cell t (i + Suc e)" "(?i + e) mod length t = (i + Suc e) mod length t" for e
    using cell_mod_add [of t "i + 1" e] by (simp_all add: mod_add_left_eq)
  have here: "t ! i = cell t i" using Suc.prems by (simp add: cell_def)
  show ?case
  proof (cases "stop (t ! i)")
    case True
    then show ?thesis using here Suc.prems by (auto intro: exI [of _ 0])
  next
    case False
    have less: "(\<forall>e < Suc d. \<not> stop (cell t (i + e))) \<longleftrightarrow> (\<forall>e < d. \<not> stop (cell t (?i + e)))" for d
      using False here by (simp add: All_less_Suc2 step)
    show ?thesis
    proof (cases "probe n stop t ?i")
      case None
      then show ?thesis using Suc.IH [OF i'] False less [of n] by simp
    next
      case (Some j)
      then obtain d where "d < n" "j = (?i + d) mod length t" "stop (cell t (?i + d))"
        "\<forall>e < d. \<not> stop (cell t (?i + e))"
        using Suc.IH [OF i'] by auto
      then have "Suc d < Suc n \<and> j = (i + Suc d) mod length t \<and> stop (cell t (i + Suc d)) \<and>
          (\<forall>e < Suc d. \<not> stop (cell t (i + e)))"
        by (simp only: less step) simp
      then show ?thesis using False Some by auto
    qed
  qed
qed simp

text \<open>\<open>run t h d\<close>: the \<open>d\<close> buckets from \<open>h\<close> on are occupied.\<close>

definition run :: "'a option list \<Rightarrow> nat \<Rightarrow> nat \<Rightarrow> bool" where
  "run t h d \<longleftrightarrow> (\<forall>e < d. cell t (h + e) \<noteq> None)"

definition held :: "'a option list \<Rightarrow> 'a set" where
  "held t = {x. Some x \<in> set t}"

definition reach :: "('a \<Rightarrow> nat) \<Rightarrow> 'a option list \<Rightarrow> 'a \<Rightarrow> bool" where
  "reach h t x \<longleftrightarrow> (\<exists>d < length t. cell t (h x + d) = Some x \<and> run t (h x) d)"

lemma held_cell: "x \<in> held t \<longleftrightarrow> (\<exists>j < length t. cell t j = Some x)"
  by (auto simp: held_def cell_def in_set_conv_nth)

lemma held_cellI: "t \<noteq> [] \<Longrightarrow> cell t k = Some x \<Longrightarrow> x \<in> held t"
  unfolding held_cell by (intro exI [of _ "k mod length t"]) auto

definition uniq :: "('a \<Rightarrow> 'a \<Rightarrow> bool) \<Rightarrow> 'a option list \<Rightarrow> bool" where
  "uniq eq t \<longleftrightarrow> (\<forall>i j x y. cell t i = Some x \<longrightarrow> cell t j = Some y \<longrightarrow> eq x y \<longrightarrow>
      i mod length t = j mod length t)"

definition table_ok :: "('a \<Rightarrow> nat) \<Rightarrow> ('a \<Rightarrow> 'a \<Rightarrow> bool) \<Rightarrow> 'a option list \<Rightarrow> bool" where
  "table_ok h eq t \<longleftrightarrow> t \<noteq> [] \<and> uniq eq t \<and> (\<forall>x \<in> held t. reach h t x)"

definition has_hole :: "'a option list \<Rightarrow> bool" where
  "has_hole t \<longleftrightarrow> (\<exists>j < length t. cell t j = None)"

lemma uniqD: "table_ok h eq t \<Longrightarrow> cell t i = Some x \<Longrightarrow> cell t j = Some y \<Longrightarrow> eq x y \<Longrightarrow>
    i mod length t = j mod length t"
  unfolding table_ok_def uniq_def by blast

lemma reachD: "table_ok h eq t \<Longrightarrow> x \<in> held t \<Longrightarrow> reach h t x"
  unfolding table_ok_def by blast

lemma run_mono: "run t h d \<Longrightarrow> (\<And>k. cell t k \<noteq> None \<Longrightarrow> cell t' k \<noteq> None) \<Longrightarrow> run t' h d"
  by (auto simp: run_def)

lemma mod_cover: "j < n \<Longrightarrow> \<exists>d < n. (h + d) mod n = j" for n :: nat
proof -
  assume j: "j < n"
  have "(h + (j + n - h mod n) mod n) mod n = (h mod n + (j + n - h mod n)) mod n"
    by (simp add: mod_simps)
  also have "\<dots> = j" using j by (simp add: less_imp_le_nat trans_le_add2)
  finally show ?thesis using j by (intro exI [of _ "(j + n - h mod n) mod n"]) simp
qed

locale set_keys =
  fixes hash :: "'a \<Rightarrow> nat" and eq :: "'a \<Rightarrow> 'a \<Rightarrow> bool"
  assumes eq_refl: "eq x x"
    and eq_sym: "eq x y \<Longrightarrow> eq y x"
    and eq_trans: "eq x y \<Longrightarrow> eq y z \<Longrightarrow> eq x z"
    and eq_hash: "eq x y \<Longrightarrow> hash x = hash y"
begin

lemma held_same:
  assumes "table_ok hash eq t" "cell t i = Some x" "y \<in> held t" "eq x y"
  shows "x = y"
proof -
  obtain j where "j < length t" "cell t j = Some y"
    using assms(3) by (auto simp: held_cell)
  moreover have "i mod length t = j mod length t"
    using uniqD [OF assms(1,2) calculation(2) assms(4)] .
  ultimately show ?thesis using assms(2) by (simp add: cell_def)
qed

lemma stop_at_iff: "stop_at eq x c \<longleftrightarrow> c = None \<or> (\<exists>y. c = Some y \<and> eq y x)"
  by (auto simp: stop_at_def eq_refl split: option.splits)

lemma probe_held:
  assumes ok: "table_ok hash eq t" and y: "y \<in> held t" "eq y x"
  shows "\<exists>d < length t. probe (length t) (stop_at eq x) t (hash x mod length t) = Some ((hash x + d) mod length t)
           \<and> cell t (hash x + d) = Some y \<and> run t (hash x) d"
proof -
  have ne: "t \<noteq> []" using ok by (simp add: table_ok_def)
  have "reach hash t y" using ok y(1) by (rule reachD)
  then obtain d where d: "d < length t" "cell t (hash x + d) = Some y" "run t (hash x) d"
    using eq_hash [OF y(2)] by (auto simp: reach_def)
  have stop: "stop_at eq x (cell t (hash x + d))" using d(2) y(2) by (simp add: stop_at_iff)
  from ne have h: "hash x mod length t < length t" by simp
  show ?thesis
  proof (cases "probe (length t) (stop_at eq x) t (hash x mod length t)")
    case None
    then show ?thesis using probe_spec [OF h, of "length t" "stop_at eq x"] d(1) stop by auto
  next
    case (Some j)
    then obtain d' where d': "d' < length t" "j = (hash x + d') mod length t"
      "stop_at eq x (cell t (hash x + d'))" "\<forall>e < d'. \<not> stop_at eq x (cell t (hash x + e))"
      using probe_spec [OF h, of "length t" "stop_at eq x"] by (auto simp: mod_add_left_eq)
    have le: "d' \<le> d" using d'(4) stop by (meson not_le)
    then have "cell t (hash x + d') \<noteq> None"
      using d(2,3) by (cases "d' = d") (auto simp: run_def)
    then obtain z where z: "cell t (hash x + d') = Some z" "eq z x"
      using d'(3) by (auto simp: stop_at_iff)
    then have "z = y" using held_same [OF ok z(1) y(1)] y(2) eq_sym eq_trans by blast
    then show ?thesis using Some d' z le d(3) by (intro exI [of _ d']) (auto simp: run_def)
  qed
qed

lemma probe_absent:
  assumes ne: "t \<noteq> []" and hole: "has_hole t" and x: "\<forall>y \<in> held t. \<not> eq y x"
  shows "\<exists>d < length t. probe (length t) (stop_at eq x) t (hash x mod length t) = Some ((hash x + d) mod length t)
           \<and> cell t (hash x + d) = None \<and> run t (hash x) d"
proof -
  have iff: "stop_at eq x (cell t k) \<longleftrightarrow> cell t k = None" for k
    using x held_cellI [OF ne, of k] by (auto simp: stop_at_iff)
  from ne have h: "hash x mod length t < length t" by simp
  obtain d where d: "d < length t" "cell t (hash x + d) = None"
    using hole mod_cover [of _ "length t" "hash x"] by (metis cell_mod has_hole_def)
  show ?thesis
  proof (cases "probe (length t) (stop_at eq x) t (hash x mod length t)")
    case None
    then show ?thesis using probe_spec [OF h, of "length t" "stop_at eq x"] d by (auto simp: iff)
  next
    case (Some j)
    then obtain d' where d': "d' < length t" "j = (hash x + d') mod length t"
      "stop_at eq x (cell t (hash x + d'))" "\<forall>e < d'. \<not> stop_at eq x (cell t (hash x + e))"
      using probe_spec [OF h, of "length t" "stop_at eq x"] by (auto simp: mod_add_left_eq)
    then have "cell t (hash x + d') = None" "run t (hash x) d'"
      by (simp_all only: iff run_def not_False_eq_True simp_thms)
    then show ?thesis using Some d'(1,2) by blast
  qed
qed

lemma fill_ok:
  assumes ok: "table_ok hash eq t" and d: "d < length t" "run t (hash x) d"
    and same: "\<forall>y \<in> held t. eq y x \<longrightarrow> cell t (hash x + d) = Some y"
    and here: "\<forall>y. cell t (hash x + d) = Some y \<longrightarrow> eq y x"
  shows "table_ok hash eq (t[(hash x + d) mod length t := Some x])" (is "table_ok _ _ ?t")
    and "held (t[(hash x + d) mod length t := Some x]) = insert x {y \<in> held t. \<not> eq y x}"
proof -
  have ne: "t \<noteq> []" using ok by (simp add: table_ok_def)
  note upd = cell_update [OF ne]
  have fill: "cell t k \<noteq> None \<Longrightarrow> cell ?t k \<noteq> None" for k by (simp add: upd)
  show held: "held ?t = insert x {y \<in> held t. \<not> eq y x}"
  proof (intro set_eqI iffI)
    fix y assume "y \<in> held ?t"
    then obtain j where j: "j < length t" "cell ?t j = Some y" by (auto simp: held_cell)
    show "y \<in> insert x {y \<in> held t. \<not> eq y x}"
    proof (cases "j = (hash x + d) mod length t")
      case False
      then have c: "cell t j = Some y" and "y \<in> held t"
        using j by (auto simp: upd intro: held_cellI [OF ne])
      moreover have "\<not> eq y x"
      proof
        assume "eq y x"
        then have "cell t (hash x + d) = Some y" using same \<open>y \<in> held t\<close> by blast
        then have "j mod length t = (hash x + d) mod length t"
          using uniqD [OF ok c _ eq_refl] by blast
        then show False using False j(1) by simp
      qed
      ultimately show ?thesis by simp
    qed (use j in \<open>simp add: upd\<close>)
  next
    fix y assume "y \<in> insert x {y \<in> held t. \<not> eq y x}"
    then consider "y = x" | "y \<in> held t" "\<not> eq y x" by blast
    then show "y \<in> held ?t"
    proof cases
      case 1
      then show ?thesis using ne by (intro held_cellI [of ?t "hash x + d"]) (auto simp: upd)
    next
      case 2
      then obtain j where j: "j < length t" "cell t j = Some y" by (auto simp: held_cell)
      then have "j mod length t \<noteq> (hash x + d) mod length t"
        using 2(2) here by (metis cell_mod)
      then show ?thesis using j ne by (intro held_cellI [of ?t j]) (auto simp: upd)
    qed
  qed
  have "uniq eq ?t"
    unfolding uniq_def length_list_update
  proof (intro allI impI)
    fix i j y z
    assume c: "cell ?t i = Some y" "cell ?t j = Some z" "eq y z"
    have "y = x \<or> \<not> eq y x" "z = x \<or> \<not> eq z x"
      using c(1,2) held held_cellI [of ?t] ne by auto
    show "i mod length t = j mod length t"
    proof (cases "i mod length t = (hash x + d) mod length t")
      case True
      then have "y = x" using c(1) by (simp add: upd)
      then have "eq z x" using c(3) eq_sym by blast
      show ?thesis
      proof (rule ccontr)
        assume "i mod length t \<noteq> j mod length t"
        then have zj: "cell t j = Some z" using c(2) True by (simp add: upd)
        then have "cell t (hash x + d) = Some z"
          using same \<open>eq z x\<close> held_cellI [OF ne] by blast
        then have "j mod length t = (hash x + d) mod length t"
          using uniqD [OF ok zj _ eq_refl] by blast
        then show False using True \<open>i mod length t \<noteq> j mod length t\<close> by simp
      qed
    next
      case False
      then have yi: "cell t i = Some y" using c(1) by (simp add: upd)
      show ?thesis
      proof (cases "j mod length t = (hash x + d) mod length t")
        case True
        then have "eq y x" using c by (simp add: upd)
        then have "cell t (hash x + d) = Some y" using same yi held_cellI [OF ne] by blast
        then show ?thesis using uniqD [OF ok yi _ eq_refl] True by metis
      next
        case False
        then have "cell t j = Some z" using c(2) by (simp add: upd)
        then show ?thesis using uniqD [OF ok yi _ c(3)] by blast
      qed
    qed
  qed
  moreover have "reach hash ?t y" if "y \<in> held ?t" for y
  proof (cases "y = x")
    case True
    then show ?thesis
      using d run_mono [OF d(2) fill] by (auto simp: reach_def upd)
  next
    case False
    then have y: "y \<in> held t" "\<not> eq y x" using that held by auto
    then have "reach hash t y" using ok by (auto intro: reachD)
    then obtain e where e: "e < length t" "cell t (hash y + e) = Some y" "run t (hash y) e"
      by (auto simp: reach_def)
    have "(hash y + e) mod length t \<noteq> (hash x + d) mod length t"
      using e(2) y(2) here by (metis cell_mod)
    then show ?thesis
      using e run_mono [OF e(3) fill] by (auto simp: reach_def upd)
  qed
  ultimately show "table_ok hash eq ?t"
    using ne by (simp add: table_ok_def)
qed

end

subsection \<open>Counting and load\<close>

definition entries :: "'a option list \<Rightarrow> 'a list" where
  "entries t = List.map_filter id t"

definition occupied :: "'a option list \<Rightarrow> nat" where
  "occupied t = length (entries t)"

definition load_limit :: "nat \<Rightarrow> nat" where
  "load_limit n = ((n + 2) div 3) * 2"

lemma entries_simps [simp]:
  "entries [] = []" "entries (None # t) = entries t" "entries (Some x # t) = x # entries t"
  "entries (t @ t') = entries t @ entries t'" "entries (replicate n None) = []"
  by (simp_all add: entries_def map_filter_def)

lemma set_entries: "set (entries t) = held t"
  by (force simp: entries_def map_filter_def held_def)

lemma occupied_update:
  assumes "i < length t"
  shows "occupied (t[i := Some x]) = (if t ! i = None then Suc (occupied t) else occupied t)"
    and "occupied (t[i := None]) = (if t ! i = None then occupied t else occupied t - 1)"
proof -
  have split: "occupied t = occupied (take i t @ t ! i # drop (Suc i) t)"
    using assms by (simp add: id_take_nth_drop [symmetric])
  show "occupied (t[i := Some x]) = (if t ! i = None then Suc (occupied t) else occupied t)"
    "occupied (t[i := None]) = (if t ! i = None then occupied t else occupied t - 1)"
    unfolding split upd_conv_take_nth_drop [OF assms] by (auto simp: occupied_def)
qed

lemma hole_if: "occupied t < length t \<Longrightarrow> has_hole t"
proof (rule ccontr)
  assume "occupied t < length t" "\<not> has_hole t"
  then have "\<forall>c \<in> set t. c \<noteq> None" by (auto simp: has_hole_def cell_def in_set_conv_nth)
  then have "occupied t = length t" unfolding occupied_def by (induction t) auto
  with \<open>occupied t < length t\<close> show False by simp
qed

lemma sizes_load: "n \<in> set (tl tableSizes) \<Longrightarrow> load_limit n < n \<and> 0 < n"
  by (auto simp: tableSizes_def load_limit_def)

lemma sorted_sizes: "sorted_wrt (<) tableSizes"
  by (simp add: tableSizes_def)

lemma takeWhile_sorted: "sorted_wrt (<) xs \<Longrightarrow> k < length xs \<Longrightarrow>
    length (takeWhile (\<lambda>s. s < xs ! k) xs) = k" for xs :: "nat list"
  by (induction xs arbitrary: k) (auto simp: nth_Cons' dest: less_imp_not_less)

lemma size_index_nth: "k < TABLE_SIZES_LEN \<Longrightarrow> size_index (tableSizes ! k) = k"
  by (simp add: size_index_def takeWhile_sorted sorted_sizes TABLE_SIZES_LEN_def)

lemma next_load:
  assumes "1 \<le> k" "k + 1 < TABLE_SIZES_LEN"
  shows "load_limit (tableSizes ! k) + 1 \<le> load_limit (tableSizes ! (k + 1))"
proof -
  have "\<forall>(a, b) \<in> set (zip (tl tableSizes) (tl (tl tableSizes))). load_limit a + 1 \<le> load_limit b"
    by (simp add: tableSizes_def load_limit_def)
  moreover have "(tableSizes ! k, tableSizes ! (k + 1)) \<in> set (zip (tl tableSizes) (tl (tl tableSizes)))"
    using assms by (auto simp: in_set_zip nth_tl TABLE_SIZES_LEN_def intro!: exI [of _ "k - 1"])
  ultimately show ?thesis by blast
qed

lemma uniq_entries:
  assumes "\<And>x. eq x x" "uniq eq t"
  shows "sorted_wrt (\<lambda>x y. \<not> eq x y) (entries t)"
proof -
  have less: "\<not> eq x y" if "i < j" "j < length t" "t ! i = Some x" "t ! j = Some y" for i j x y
  proof
    assume "eq x y"
    moreover have "cell t i = Some x" "cell t j = Some y" using that by (simp_all add: cell_def)
    ultimately have "i mod length t = j mod length t" using assms(2) unfolding uniq_def by blast
    with that(1,2) show False by simp
  qed
  have "sorted_wrt (\<lambda>c c'. \<forall>x y. c = Some x \<longrightarrow> c' = Some y \<longrightarrow> \<not> eq x y) t"
    unfolding sorted_wrt_iff_nth_less using less by blast
  then show ?thesis
  proof (induction t)
    case (Cons c t)
    then show ?case by (cases c) (auto simp: set_entries held_def)
  qed simp
qed


text \<open>\<open>ins eq x S\<close> is \<open>S\<close> with \<open>x\<close> in place of the equal item; \<open>found eq S x r\<close> says \<open>r\<close> is that item.\<close>

definition ins :: "('a \<Rightarrow> 'a \<Rightarrow> bool) \<Rightarrow> 'a \<Rightarrow> 'a set \<Rightarrow> 'a set" where
  "ins eq x S = insert x {y \<in> S. \<not> eq y x}"

definition found :: "('a \<Rightarrow> 'a \<Rightarrow> bool) \<Rightarrow> 'a set \<Rightarrow> 'a \<Rightarrow> 'a option \<Rightarrow> bool" where
  "found eq S x r \<longleftrightarrow> (case r of None \<Rightarrow> \<forall>y \<in> S. \<not> eq y x | Some y \<Rightarrow> y \<in> S \<and> eq y x)"

definition set_inv :: "'a lwset \<Rightarrow> bool" where
  "set_inv s \<longleftrightarrow> tsize s = length (table s) \<and> itemCount s = occupied (table s) \<and>
     itemCount s \<le> load_limit (tsize s) \<and> tsize s \<in> set (tl tableSizes) \<and>
     table_ok (hashf s) (eqf s) (table s)"

definition members :: "'a lwset \<Rightarrow> 'a set" where
  "members s = held (table s)"

definition has_room :: "'a lwset \<Rightarrow> bool" where
  "has_room s \<longleftrightarrow> itemCount s < load_limit (last tableSizes)"

lemma set_inv_hole: "set_inv s \<Longrightarrow> has_hole (table s)"
  using sizes_load [of "tsize s"] by (auto simp: set_inv_def intro: hole_if)

lemma set_inv_replace: "set_inv s \<Longrightarrow> tsize s' = length (table s') \<Longrightarrow> tsize s' = tsize s \<Longrightarrow>
    itemCount s' = occupied (table s') \<Longrightarrow> itemCount s' \<le> load_limit (tsize s) \<Longrightarrow>
    hashf s' = hashf s \<Longrightarrow> eqf s' = eqf s \<Longrightarrow> table_ok (hashf s) (eqf s) (table s') \<Longrightarrow> set_inv s'"
  unfolding set_inv_def by metis

context set_keys
begin

lemma find_bucket_ok:
  assumes "table_ok hash eq (table s)" "has_hole (table s)" "tsize s = length (table s)"
    "hashf s = hash" "eqf s = eq"
  shows "\<exists>d < length (table s). find_bucket s x = Some ((hash x + d) mod length (table s)) \<and>
     run (table s) (hash x) d \<and> found eq (held (table s)) x (cell (table s) (hash x + d))"
proof (cases "\<exists>y \<in> held (table s). eq y x")
  case True
  then show ?thesis
    using probe_held [OF assms(1)] by (fastforce simp: find_bucket_def assms(3-) found_def)
next
  case False
  have "table s \<noteq> []" using assms(1) by (simp add: table_ok_def)
  then show ?thesis
    using probe_absent [OF _ assms(2)] False by (fastforce simp: find_bucket_def assms(3-) found_def)
qed

lemma LWSetGet_ok:
  assumes "set_inv s" "hashf s = hash" "eqf s = eq"
  shows "\<exists>r. LWSetGet s x = Some r \<and> found eq (members s) x r"
  using find_bucket_ok [of s x] assms set_inv_hole [OF assms(1)]
  by (auto simp: set_inv_def LWSetGet_def members_def cell_def)

lemma put_item_ok:
  assumes ok: "table_ok hash eq (table s)" "has_hole (table s)" "tsize s = length (table s)"
    "hashf s = hash" "eqf s = eq"
  shows "\<exists>t r. put_item s x = Some (s\<lparr>table := t, itemCount := itemCount s + of_bool (r = None)\<rparr>, r) \<and>
     found eq (held (table s)) x r \<and> table_ok hash eq t \<and> held t = ins eq x (held (table s)) \<and>
     length t = length (table s) \<and> occupied t = occupied (table s) + of_bool (r = None)"
proof -
  let ?t = "table s"
  obtain d where d: "d < length ?t" "find_bucket s x = Some ((hash x + d) mod length ?t)"
    "run ?t (hash x) d" "found eq (held ?t) x (cell ?t (hash x + d))"
    using find_bucket_ok [OF ok] by blast
  have ne: "?t \<noteq> []" using ok(1) by (simp add: table_ok_def)
  have same: "\<forall>y \<in> held ?t. eq y x \<longrightarrow> cell ?t (hash x + d) = Some y"
  proof (intro ballI impI)
    fix y assume y: "y \<in> held ?t" "eq y x"
    then obtain z where z: "cell ?t (hash x + d) = Some z" "eq z x"
      using d(4) by (cases "cell ?t (hash x + d)") (auto simp: found_def)
    then show "cell ?t (hash x + d) = Some y"
      using held_same [OF ok(1) z(1) y(1)] y(2) eq_sym eq_trans by blast
  qed
  have here: "\<forall>y. cell ?t (hash x + d) = Some y \<longrightarrow> eq y x"
    using d(4) by (auto simp: found_def)
  have nth: "?t ! ((hash x + d) mod length ?t) = cell ?t (hash x + d)" by (simp add: cell_def)
  have less: "(hash x + d) mod length ?t < length ?t" using ne by simp
  have put: "put_item s x = Some (s\<lparr>table := ?t[(hash x + d) mod length ?t := Some x],
      itemCount := itemCount s + of_bool (cell ?t (hash x + d) = None)\<rparr>, cell ?t (hash x + d))"
    by (simp add: put_item_def d(2) nth Let_def)
  show ?thesis
    using put fill_ok [OF ok(1) d(1,3) same here] d(4) occupied_update(1) [OF less]
    by (intro exI conjI) (assumption | simp add: ins_def nth)+
qed

lemma add_no_grow:
  assumes "set_inv s" "hashf s = hash" "eqf s = eq"
    "itemCount s < load_limit (tsize s) \<or> (\<exists>y \<in> members s. eq y x)"
  shows "\<exists>s' r. LWSetAdd_levels (Suc n) s x = Some (s', r) \<and> set_inv s' \<and> hashf s' = hash \<and> eqf s' = eq \<and>
     tsize s' = tsize s \<and> members s' = ins eq x (members s) \<and> found eq (members s) x r \<and>
     itemCount s' = itemCount s + of_bool (r = None)"
proof -
  obtain t r where t: "put_item s x = Some (s\<lparr>table := t, itemCount := itemCount s + of_bool (r = None)\<rparr>, r)"
    "found eq (members s) x r" "table_ok hash eq t" "held t = ins eq x (members s)"
    "length t = length (table s)" "occupied t = occupied (table s) + of_bool (r = None)"
    using put_item_ok [of s x] assms(1-3) set_inv_hole [OF assms(1)]
    unfolding members_def set_inv_def by metis
  have count: "itemCount s + of_bool (r = None) \<le> load_limit (tsize s)"
    using assms(1,4) t(2) by (cases r) (auto simp: found_def set_inv_def)
  let ?s = "s\<lparr>table := t, itemCount := itemCount s + of_bool (r = None)\<rparr>"
  have "LWSetAdd_levels (Suc n) s x = Some (?s, r)"
    using t(1) count by (simp add: load_limit_def)
  moreover have "set_inv ?s"
    using assms(1) by (rule set_inv_replace) (use assms(1-3) t(3,5,6) count in \<open>auto simp: set_inv_def\<close>)
  ultimately show ?thesis
    using t(2,4) assms(2,3) by (intro exI [of _ ?s] exI [of _ r]) (simp add: members_def)
qed


lemma add_each_no_grow:
  assumes "set_inv s" "hashf s = hash" "eqf s = eq" "itemCount s + occupied ts \<le> load_limit (tsize s)"
  shows "\<exists>s'. add_each (LWSetAdd_levels (Suc n)) s ts = Some s' \<and> set_inv s' \<and> hashf s' = hash \<and>
     eqf s' = eq \<and> tsize s' = tsize s \<and> members s' = fold (ins eq) (entries ts) (members s)"
  using assms
proof (induction ts arbitrary: s)
  case (Cons c ts)
  show ?case
  proof (cases c)
    case None
    then show ?thesis using Cons by (simp add: occupied_def)
  next
    case (Some x)
    then have "itemCount s < load_limit (tsize s)" using Cons.prems(4) by (simp add: occupied_def)
    then obtain s' r where s': "LWSetAdd_levels (Suc n) s x = Some (s', r)" "set_inv s'" "hashf s' = hash"
      "eqf s' = eq" "tsize s' = tsize s" "members s' = ins eq x (members s)"
      "itemCount s' = itemCount s + of_bool (r = None)"
      using add_no_grow [of s x n] Cons.prems(1-3) by blast
    then have "itemCount s' + occupied ts \<le> load_limit (tsize s')"
      using Cons.prems(4) Some by (simp add: occupied_def)
    from Cons.IH [OF s'(2-4) this] show ?thesis using s'(1,5,6) Some by auto
  qed
qed auto

lemma fold_ins: "sorted_wrt (\<lambda>x y. \<not> eq x y) xs \<Longrightarrow> (\<forall>x \<in> set xs. \<forall>y \<in> S. \<not> eq y x) \<Longrightarrow>
    fold (ins eq) xs S = S \<union> set xs"
proof (induction xs arbitrary: S)
  case (Cons x xs)
  have "ins eq x S = insert x S" using Cons.prems(2) by (auto simp: ins_def)
  moreover have "fold (ins eq) xs (insert x S) = insert x S \<union> set xs"
    using Cons.prems by (intro Cons.IH) auto
  ultimately show ?case by simp
qed simp

lemma new_table:
  assumes "1 \<le> k" "k < TABLE_SIZES_LEN"
  shows "set_inv \<lparr>table = replicate (tableSizes ! k) None, tsize = tableSizes ! k, itemCount = 0,
     hashf = hash, eqf = eq\<rparr>"
proof -
  have k: "tableSizes ! k \<in> set (tl tableSizes)"
    using assms by (auto simp: TABLE_SIZES_LEN_def in_set_conv_nth nth_tl intro!: exI [of _ "k - 1"])
  have [simp]: "cell (replicate (tableSizes ! k) None) i = None" for i
    using sizes_load [OF k] by (simp add: cell_def)
  show ?thesis
    using k sizes_load [OF k] by (auto simp: set_inv_def occupied_def table_ok_def uniq_def held_def)
qed

lemma LWSetNew_ok:
  assumes "capacity \<le> 2609407319"
  shows "set_inv (LWSetNew hash eq capacity)" "members (LWSetNew hash eq capacity) = {}"
    "hashf (LWSetNew hash eq capacity) = hash" "eqf (LWSetNew hash eq capacity) = eq"
proof -
  have "size_index capacity + 1 < TABLE_SIZES_LEN"
    using assms by (simp add: size_index_def tableSizes_def TABLE_SIZES_LEN_def)
  then have new: "LWSetNew hash eq capacity = \<lparr>table = replicate (tableSizes ! (size_index capacity + 1)) None,
      tsize = tableSizes ! (size_index capacity + 1), itemCount = 0, hashf = hash, eqf = eq\<rparr>"
    by (simp add: LWSetNew_def LWSetInit_def Let_def)
  show "set_inv (LWSetNew hash eq capacity)"
    using new_table [of "size_index capacity + 1"] \<open>size_index capacity + 1 < TABLE_SIZES_LEN\<close>
    unfolding new by simp
  show "members (LWSetNew hash eq capacity) = {}" "hashf (LWSetNew hash eq capacity) = hash"
    "eqf (LWSetNew hash eq capacity) = eq"
    by (auto simp: new members_def held_def)
qed

lemma grow_ok:
  assumes tab: "table_ok hash eq (table s)" and s: "hashf s = hash" "eqf s = eq"
    and k: "1 \<le> k" "k + 1 < TABLE_SIZES_LEN" "occupied (table s) \<le> load_limit (tableSizes ! k) + 1"
  shows "\<exists>s'. LWSetGrow (LWSetAdd_levels (Suc n)) s (tableSizes ! k) = Some s' \<and> set_inv s' \<and>
     hashf s' = hash \<and> eqf s' = eq \<and> members s' = members s"
proof -
  have idx: "size_index (tableSizes ! k) = k" using k by (simp add: size_index_nth)
  define new where "new = LWSetInit s (hashf s) (eqf s) (tableSizes ! k)"
  have new: "new = s\<lparr>table := replicate (tableSizes ! (k + 1)) None, tsize := tableSizes ! (k + 1),
      itemCount := 0, hashf := hash, eqf := eq\<rparr>"
    using k(2) by (simp add: new_def LWSetInit_def idx s Let_def)
  have "set_inv new" "members new = {}"
    using new_table [of "k + 1"] k(2) by (auto simp: new set_inv_def members_def held_def)
  moreover have "itemCount new + occupied (table s) \<le> load_limit (tsize new)"
    using next_load [OF k(1,2)] k(3) by (simp add: new)
  ultimately obtain s' where s': "add_each (LWSetAdd_levels (Suc n)) new (table s) = Some s'"
    "set_inv s'" "hashf s' = hash" "eqf s' = eq" "members s' = fold (ins eq) (entries (table s)) {}"
    using add_each_no_grow [of new "table s" n] new by auto
  have "fold (ins eq) (entries (table s)) {} = members s"
    using tab uniq_entries [of eq "table s"] eq_refl
    by (subst fold_ins) (auto simp: table_ok_def set_entries members_def)
  moreover have "LWSetGrow (LWSetAdd_levels (Suc n)) s (tableSizes ! k) =
      Some (s\<lparr>table := table s', tsize := tsize s', itemCount := itemCount s'\<rparr>)"
    using k(2) s'(1) by (simp add: LWSetGrow_def idx new_def)
  ultimately show ?thesis
    using s' s by (auto simp: set_inv_def members_def)
qed

lemma sizes_index: "n \<in> set (tl tableSizes) \<Longrightarrow> \<exists>k. 1 \<le> k \<and> k < TABLE_SIZES_LEN \<and> n = tableSizes ! k"
  unfolding in_set_conv_nth TABLE_SIZES_LEN_def by (metis Nat.add_0_right One_nat_def add_Suc_right length_tl
      less_diff_conv nth_tl le_add2 plus_1_eq_Suc add.commute)

lemma LWSetAdd_levels_Suc: "\<exists>n. LWSetAdd = LWSetAdd_levels (Suc (Suc n))"
proof -
  have "TABLE_SIZES_LEN = Suc (Suc 49)" by (simp add: TABLE_SIZES_LEN_def tableSizes_def)
  then show ?thesis unfolding LWSetAdd_def by metis
qed

lemma LWSetAdd_ok:
  assumes inv: "set_inv s" and s: "hashf s = hash" "eqf s = eq" and room: "has_room s"
  shows "\<exists>s' r. LWSetAdd s x = Some (s', r) \<and> set_inv s' \<and> hashf s' = hash \<and> eqf s' = eq \<and>
     members s' = ins eq x (members s) \<and> found eq (members s) x r"
proof -
  obtain n where lev: "(LWSetAdd :: 'a lwset \<Rightarrow> _) = LWSetAdd_levels (Suc (Suc n))" using LWSetAdd_levels_Suc by blast
  obtain t r where t: "put_item s x = Some (s\<lparr>table := t, itemCount := itemCount s + of_bool (r = None)\<rparr>, r)"
    "found eq (members s) x r" "table_ok hash eq t" "held t = ins eq x (members s)"
    "length t = length (table s)" "occupied t = occupied (table s) + of_bool (r = None)"
    using put_item_ok [of s x] inv s set_inv_hole [OF inv]
    unfolding members_def set_inv_def by metis
  let ?s = "s\<lparr>table := t, itemCount := itemCount s + of_bool (r = None)\<rparr>"
  show ?thesis
  proof (cases "itemCount ?s \<le> load_limit (tsize s)")
    case True
    then have "itemCount s < load_limit (tsize s) \<or> (\<exists>y \<in> members s. eq y x)"
      using t(2) by (cases r) (auto simp: found_def)
    then show ?thesis
      using add_no_grow [OF inv s, of x "Suc n"] unfolding lev by blast
  next
    case False
    obtain k where k: "1 \<le> k" "k < TABLE_SIZES_LEN" "tsize s = tableSizes ! k"
      using inv sizes_index [of "tsize s"] unfolding set_inv_def by blast
    have "tableSizes \<noteq> []" by (simp add: tableSizes_def)
    then have "k = TABLE_SIZES_LEN - 1 \<Longrightarrow> tsize s = last tableSizes"
      by (simp add: k(3) last_conv_nth TABLE_SIZES_LEN_def)
    then have "k \<noteq> TABLE_SIZES_LEN - 1"
      using room False by (cases r) (auto simp: has_room_def)
    then have k2: "k + 1 < TABLE_SIZES_LEN" using k(2) by simp
    have "occupied t \<le> load_limit (tableSizes ! k) + 1"
      using inv t(6) k(3) by (auto simp: set_inv_def)
    then obtain s' where "LWSetGrow (LWSetAdd_levels (Suc n)) ?s (tableSizes ! k) = Some s'"
      "set_inv s'" "hashf s' = hash" "eqf s' = eq" "members s' = members ?s"
      using grow_ok [of ?s k n] t(3) s k(1) k2 by auto
    moreover have "LWSetAdd s x = map_option (\<lambda>s. (s, r)) (LWSetGrow (LWSetAdd_levels (Suc n)) ?s (tsize s))"
      using t(1) False unfolding lev by (simp add: load_limit_def)
    ultimately have "LWSetAdd s x = Some (s', r) \<and> set_inv s' \<and> hashf s' = hash \<and> eqf s' = eq \<and>
        members s' = ins eq x (members s)"
      using t(4) k(3) by (simp add: members_def)
    then show ?thesis using t(2) by blast
  qed
qed

end

context set_keys
begin

text \<open>
  While \<open>LWSetRemove\<close> re-adds the cluster after the freed bucket \<open>j\<close>, the buckets
  \<open>j + m, ..., j + D - 1\<close> are still to be re-added: their items can be reached only through the
  buckets \<open>j, ..., j + m - 1\<close>, which may be empty. \<open>gap_path t j m p d\<close>: the first \<open>d\<close> buckets
  from \<open>p\<close> are occupied or among those.
\<close>

definition gap_path :: "'a option list \<Rightarrow> nat \<Rightarrow> nat \<Rightarrow> nat \<Rightarrow> nat \<Rightarrow> bool" where
  "gap_path t j m p d \<longleftrightarrow> (\<forall>e < d. cell t (p + e) \<noteq> None \<or> (\<exists>f < m. (p + e) mod length t = (j + f) mod length t))"

definition pending :: "'a option list \<Rightarrow> nat \<Rightarrow> nat \<Rightarrow> nat \<Rightarrow> 'a \<Rightarrow> bool" where
  "pending t j m D x \<longleftrightarrow> (\<exists>e. m \<le> e \<and> e < D \<and> cell t (j + e) = Some x)"

definition cleaning :: "'a option list \<Rightarrow> nat \<Rightarrow> nat \<Rightarrow> nat \<Rightarrow> bool" where
  "cleaning t j m D \<longleftrightarrow> t \<noteq> [] \<and> uniq eq t \<and> D < length t \<and> m \<le> D \<and> cell t (j + D) = None \<and>
     (\<forall>e. m \<le> e \<longrightarrow> e < D \<longrightarrow> cell t (j + e) \<noteq> None) \<and>
     (\<forall>x \<in> held t. \<not> pending t j m D x \<longrightarrow> reach hash t x) \<and>
     (\<forall>x. pending t j m D x \<longrightarrow> (\<exists>d < length t. cell t (hash x + d) = Some x \<and> gap_path t j m (hash x) d))"

lemma cleaning_done: "cleaning t j D D \<Longrightarrow> table_ok hash eq t"
  by (auto simp: cleaning_def table_ok_def pending_def)

lemma same_cell:
  fixes n :: nat
  assumes "(a + e) mod n = (a + f) mod n" "e < n" "f < n"
  shows "e = f"
proof -
  have *: "e \<le> f \<Longrightarrow> (a + f) mod n = (a + e) mod n \<Longrightarrow> f < n \<Longrightarrow> e = f" for e f :: nat
    by (auto simp: mod_eq_dvd_iff_nat dest: dvd_imp_le)
  show ?thesis using *[of e f] *[of f e] assms by linarith
qed

lemma uniq_clear: "t \<noteq> [] \<Longrightarrow> uniq eq t \<Longrightarrow> uniq eq (t[k mod length t := None])"
  unfolding uniq_def by (simp add: cell_update)

lemma uniq_fill:
  assumes "t \<noteq> []" "uniq eq t" "\<forall>y \<in> held t. \<not> eq y x"
  shows "uniq eq (t[k mod length t := Some x])"
  unfolding uniq_def
proof (intro allI impI)
  let ?t = "t[k mod length t := Some x]"
  fix i j y z
  assume c: "cell ?t i = Some y" "cell ?t j = Some z" "eq y z"
  have new: "i mod length t = k mod length t \<and> y = x \<or> cell t i = Some y \<and> \<not> eq y x"
    if "cell ?t i = Some y" for i y
    using that assms(3) held_cellI [OF assms(1), of i y] by (auto simp: cell_update [OF assms(1)] split: if_splits)
  show "i mod length ?t = j mod length ?t"
    using new [OF c(1)] new [OF c(2)] c(3) eq_sym [OF c(3)] assms(2) unfolding uniq_def length_list_update
    by metis
qed

lemma not_through:
  assumes last: "cell t (j + D) = None" and m: "m < D" and d': "run t p d'" "cell t (p + d') = Some y"
    and np: "\<not> pending t j m D y" and i: "i \<le> d'"
  shows "(p + i) mod length t \<noteq> (j + m) mod length t"
proof
  assume im: "(p + i) mod length t = (j + m) mod length t"
  have shift: "cell t (j + (m + g)) = cell t (p + (i + g))" for g
    using im by (metis cell_mod_add add.assoc)
  have "m + (d' - i) < D"
  proof (rule ccontr)
    assume "\<not> m + (d' - i) < D"
    then have "cell t (p + (i + (D - m))) = None" "i + (D - m) \<le> d'"
      using shift [of "D - m"] last m i by auto
    then show False using d' by (metis le_neq_implies_less option.distinct(1) run_def)
  qed
  moreover have "cell t (j + (m + (d' - i))) = Some y" using shift [of "d' - i"] i d'(2) by simp
  ultimately show False using np unfolding pending_def by (metis le_add1)
qed

lemma gap_path_less:
  "gap_path t j m p d \<Longrightarrow> e < d \<Longrightarrow> cell t (p + e) = None \<Longrightarrow>
    \<exists>f < m. (p + e) mod length t = (j + f) mod length t"
  by (auto simp: gap_path_def)

lemma held_fill:
  assumes "t \<noteq> []" "cell t k = None"
  shows "held (t[k mod length t := Some x]) = insert x (held t)"
proof -
  have k: "k mod length t < length t" using assms(1) by simp
  let ?A = "set (take (k mod length t) t) \<union> set (drop (Suc (k mod length t)) t)"
  have "t[k mod length t := None] = t" using assms(2) by (simp add: cell_def list_update_same_conv k)
  moreover have "set (t[k mod length t := v]) = insert v ?A" for v
    using k by (simp add: upd_conv_take_nth_drop)
  ultimately have "set t = insert None ?A" "set (t[k mod length t := Some x]) = insert (Some x) ?A"
    by metis+
  then show ?thesis by (auto simp: held_def)
qed

text \<open>One round: the item of bucket \<open>j + m\<close> goes to its first free bucket.\<close>

lemma cleaning_step:
  assumes c: "cleaning t j m D" and m: "m < D" "cell t (j + m) = Some x"
  defines "t1 \<equiv> t[(j + m) mod length t := None]"
  shows "\<exists>d < length t. probe (length t) (stop_at eq x) t1 (hash x mod length t) = Some ((hash x + d) mod length t) \<and>
     cell t1 (hash x + d) = None \<and>
     cleaning (t1[(hash x + d) mod length t := Some x]) j (Suc m) D \<and>
     held (t1[(hash x + d) mod length t := Some x]) = held t"
proof -
  let ?n = "length t"
  have ne: "t \<noteq> []" and un: "uniq eq t" and D: "D < ?n" and last: "cell t (j + D) = None"
    and full: "\<And>e. m \<le> e \<Longrightarrow> e < D \<Longrightarrow> cell t (j + e) \<noteq> None"
    using c by (auto simp: cleaning_def)
  have t1: "t1 \<noteq> []" "length t1 = ?n" using ne by (auto simp: t1_def)
  have cell1: "cell t1 k = (if k mod ?n = (j + m) mod ?n then None else cell t k)" for k
    unfolding t1_def by (rule cell_update [OF ne])
  have held1: "held t1 = held t - {x}"
  proof (intro set_eqI iffI)
    fix y assume "y \<in> held t1"
    then obtain k where k: "k < ?n" "cell t1 k = Some y" by (auto simp: held_cell t1)
    then have "cell t k = Some y" "k mod ?n \<noteq> (j + m) mod ?n" by (auto simp: cell1 split: if_splits)
    moreover from this have "y \<noteq> x" using un m(2) eq_refl [of x] unfolding uniq_def by blast
    ultimately show "y \<in> held t - {x}" using held_cellI [OF ne] by blast
  next
    fix y assume "y \<in> held t - {x}"
    then obtain k where k: "k < ?n" "cell t k = Some y" "y \<noteq> x" by (auto simp: held_cell)
    then have "k mod ?n \<noteq> (j + m) mod ?n" using m(2) by (metis cell_mod option.inject)
    then show "y \<in> held t1" using k by (intro held_cellI [OF t1(1), of k]) (simp add: cell1)
  qed
  have fresh: "\<forall>y \<in> held t1. \<not> eq y x"
  proof (intro ballI notI)
    fix y assume y: "y \<in> held t1" "eq y x"
    then obtain k where k: "cell t k = Some y" "y \<noteq> x" by (auto simp: held1 held_cell)
    then have "k mod ?n = (j + m) mod ?n" using un m(2) y(2) unfolding uniq_def by blast
    then show False using k m(2) by (metis cell_mod option.inject)
  qed
  have "has_hole t1" using ne by (auto simp: has_hole_def t1 cell1 intro!: exI [of _ "(j + m) mod ?n"])
  then obtain d where d: "d < ?n" "probe ?n (stop_at eq x) t1 (hash x mod ?n) = Some ((hash x + d) mod ?n)"
    "cell t1 (hash x + d) = None" "run t1 (hash x) d"
    using probe_absent [OF t1(1) _ fresh] unfolding t1 by blast
  let ?t = "t1[(hash x + d) mod ?n := Some x]"
  have cell2: "cell ?t k = (if k mod ?n = (hash x + d) mod ?n then Some x else cell t1 k)" for k
    using cell_update [OF t1(1), of "hash x + d" "Some x" k] by (simp add: t1)
  have moved: "cell ?t (j + e) = Some y \<longleftrightarrow> cell t (j + e) = Some y" if "m < e" "e < D" for e y
  proof -
    have "(j + e) mod ?n \<noteq> (j + m) mod ?n" using that m(1) D same_cell [of j e ?n m] by auto
    moreover from this have "(j + e) mod ?n \<noteq> (hash x + d) mod ?n"
      using full [of e] that d(3) by (metis cell1 cell_mod less_imp_le)
    ultimately show ?thesis by (simp add: cell1 cell2)
  qed
  have kept: "cell ?t k \<noteq> None" if "cell t k \<noteq> None" "k mod ?n \<noteq> (j + m) mod ?n" for k
    using that by (simp add: cell1 cell2)
  have "pending t j m D x" using m unfolding pending_def by blast
  then obtain d0 where d0: "d0 < ?n" "cell t (hash x + d0) = Some x" "gap_path t j m (hash x) d0"
    using c unfolding cleaning_def by blast
  have at: "(hash x + d0) mod ?n = (j + m) mod ?n"
    using un d0(2) m(2) eq_refl [of x] unfolding uniq_def by blast
  have "cell t1 (hash x + d0) = None" by (simp add: cell1 at)
  then have "d \<le> d0" using d(4) by (meson not_le run_def)
  have "(hash x + d) mod ?n \<noteq> (j + D) mod ?n"
  proof
    assume q: "(hash x + d) mod ?n = (j + D) mod ?n"
    show False
    proof (cases "d = d0")
      case True
      then show False using q at same_cell [of j D ?n m] m(1) D by simp
    next
      case False
      have "cell t (hash x + d) = None" using q last by (metis cell_mod)
      then obtain f where "f < m" "(hash x + d) mod ?n = (j + f) mod ?n"
        using gap_path_less [OF d0(3), of d] \<open>d \<le> d0\<close> False by auto
      then show False using q same_cell [of j D ?n f] m(1) D by simp
    qed
  qed
  then have last': "cell ?t (j + D) = None" using last by (simp add: cell1 cell2)
  have full': "cell ?t (j + e) \<noteq> None" if "Suc m \<le> e" "e < D" for e
    using moved [of e] full [of e] that by (cases "cell t (j + e)") auto
  have un': "uniq eq ?t"
    using uniq_fill [OF t1(1) _ fresh, of "hash x + d"] uniq_clear [OF ne un, of "j + m"]
    by (simp add: t1 flip: t1_def)
  have held2: "held ?t = held t"
    using held_fill [OF t1(1) d(3), of x] held1 held_cellI [OF ne m(2)] by (auto simp: t1)
  have pend: "\<exists>d' < ?n. cell ?t (hash y + d') = Some y \<and> gap_path ?t j (Suc m) (hash y) d'"
    if p: "pending ?t j (Suc m) D y" for y
  proof -
    obtain e where e: "m < e" "e < D" "cell t (j + e) = Some y"
      using p moved by (auto simp: pending_def Suc_le_eq)
    then have "pending t j m D y" unfolding pending_def by (metis less_imp_le)
    then obtain d' where d': "d' < ?n" "cell t (hash y + d') = Some y" "gap_path t j m (hash y) d'"
      using c unfolding cleaning_def by blast
    have "(hash y + d') mod ?n = (j + e) mod ?n"
      using un d'(2) e(3) eq_refl [of y] unfolding uniq_def by blast
    then have "cell ?t (hash y + d') = Some y" using moved e by (metis cell_mod length_list_update t1(2))
    moreover have "gap_path ?t j (Suc m) (hash y) d'"
      unfolding gap_path_def
    proof (intro allI impI)
      fix i assume "i < d'"
      with d'(3) have "cell t (hash y + i) \<noteq> None \<or> (\<exists>f < m. (hash y + i) mod ?n = (j + f) mod ?n)"
        by (simp add: gap_path_def)
      then show "cell ?t (hash y + i) \<noteq> None \<or> (\<exists>f < Suc m. (hash y + i) mod length ?t = (j + f) mod length ?t)"
        using kept [of "hash y + i"] t1(2) by (auto intro: less_SucI)
    qed
    ultimately show ?thesis using d'(1) by blast
  qed
  have rest: "reach hash ?t y" if y: "y \<in> held t" "\<not> pending ?t j (Suc m) D y" for y
  proof (cases "y = x")
    case True
    have "run ?t (hash x) d" using d(4) by (auto simp: run_def cell2)
    then show ?thesis using True d(1) unfolding reach_def
      by (intro exI [of _ d]) (simp add: cell2 t1)
  next
    case False
    have np: "\<not> pending t j m D y"
    proof
      assume "pending t j m D y"
      then obtain e where e: "m \<le> e" "e < D" "cell t (j + e) = Some y" by (auto simp: pending_def)
      then have "m < e" using False m(2) by (metis le_neq_implies_less option.inject)
      then show False using e y(2) moved [of e y] by (auto simp: pending_def Suc_le_eq)
    qed
    then have "reach hash t y" using c y(1) unfolding cleaning_def by blast
    then obtain d' where d': "d' < ?n" "cell t (hash y + d') = Some y" "run t (hash y) d'"
      by (auto simp: reach_def)
    have away: "(hash y + i) mod ?n \<noteq> (j + m) mod ?n" if "i \<le> d'" for i
      using not_through [OF last m(1) d'(3,2) np that] .
    have "run ?t (hash y) d'"
      unfolding run_def
    proof (intro allI impI)
      fix i assume "i < d'"
      then show "cell ?t (hash y + i) \<noteq> None" using d'(3) away [of i] kept by (simp add: run_def)
    qed
    moreover have "cell t1 (hash y + d') = Some y" using away [of d'] d'(2) by (simp add: cell1)
    moreover from this have "(hash y + d') mod ?n \<noteq> (hash x + d) mod ?n"
      using d(3) by (metis cell_mod option.distinct(1) t1(2))
    ultimately show ?thesis using d'(1) unfolding reach_def by (intro exI [of _ d']) (simp add: cell2 t1)
  qed
  have "cleaning ?t j (Suc m) D"
    unfolding cleaning_def
    using t1 un' D m(1) last' full' pend rest held2 by (simp add: Suc_le_eq)
  then show ?thesis using d held2 by blast
qed


lemma add_fresh:
  fixes s :: "'a lwset"
  assumes "find_bucket s x = Some i" "table s ! i = None" "i < length (table s)"
    "itemCount s < load_limit (tsize s)"
  shows "LWSetAdd s x = Some (s\<lparr>itemCount := itemCount s + 1, table := (table s)[i := Some x]\<rparr>, None)"
proof -
  obtain n where lev: "(LWSetAdd :: 'a lwset \<Rightarrow> _) = LWSetAdd_levels (Suc (Suc n))"
    using LWSetAdd_levels_Suc by blast
  show ?thesis
    using assms unfolding lev by (simp add: put_item_def load_limit_def Let_def)
qed

lemma cleanup_ok:
  assumes "cleaning (table s) j m D" "D - m < k" "tsize s = length (table s)" "hashf s = hash" "eqf s = eq"
    "itemCount s = occupied (table s)" "itemCount s \<le> load_limit (tsize s)"
  shows "\<exists>t. cleanup k (tsize s) ((j + m) mod tsize s) s = Some (s\<lparr>table := t\<rparr>) \<and> table_ok hash eq t \<and>
     held t = held (table s) \<and> length t = length (table s) \<and> occupied t = occupied (table s)"
  using assms
proof (induction k arbitrary: s m)
  case (Suc k)
  let ?t = "table s" and ?n = "length (table s)"
  have ne: "?t \<noteq> []" and mD: "m \<le> D" using Suc.prems(1) by (auto simp: cleaning_def)
  have here: "?t ! ((j + m) mod ?n) = cell ?t (j + m)" by (simp add: cell_def)
  show ?case
  proof (cases "m = D")
    case True
    then have "cell ?t (j + m) = None" "table_ok hash eq ?t"
      using Suc.prems(1) cleaning_done by (auto simp: cleaning_def)
    then show ?thesis using Suc.prems(3) here by (intro exI [of _ ?t]) simp
  next
    case False
    then have m: "m < D" using mD by simp
    then obtain x where x: "cell ?t (j + m) = Some x" using Suc.prems(1) by (fastforce simp: cleaning_def)
    define t1 where "t1 = ?t[(j + m) mod ?n := None]"
    obtain d where d: "probe ?n (stop_at eq x) t1 (hash x mod ?n) = Some ((hash x + d) mod ?n)"
      "cell t1 (hash x + d) = None" "cleaning (t1[(hash x + d) mod ?n := Some x]) j (Suc m) D"
      "held (t1[(hash x + d) mod ?n := Some x]) = held ?t"
      using cleaning_step [OF Suc.prems(1) m x] unfolding t1_def by blast
    define t2 where "t2 = t1[(hash x + d) mod ?n := Some x]"
    have len: "length t1 = ?n" "length t2 = ?n" by (simp_all add: t1_def t2_def)
    have less: "(j + m) mod ?n < ?n" "(hash x + d) mod ?n < ?n" using ne by simp_all
    have pos: "0 < occupied ?t"
      using held_cellI [OF ne x] by (metis gr0I length_0_conv list.set(1) occupied_def set_entries empty_iff)
    have occ1: "occupied t1 = occupied ?t - 1"
      unfolding t1_def occupied_update(2) [OF less(1)] here x by simp
    have "t1 ! ((hash x + d) mod ?n) = None" using d(2) by (simp add: cell_def len)
    then have occ: "occupied t2 = occupied ?t"
      unfolding t2_def using occupied_update(1) [of "(hash x + d) mod ?n" t1 x] less(2) occ1 pos by (simp add: len)
    have add: "LWSetAdd (s\<lparr>itemCount := itemCount s - 1, table := t1\<rparr>) x = Some (s\<lparr>table := t2\<rparr>, None)"
      using add_fresh [of "s\<lparr>itemCount := itemCount s - 1, table := t1\<rparr>" x "(hash x + d) mod ?n"]
        d(1,2) Suc.prems(3-) less(2) pos
      by (auto simp: find_bucket_def len t2_def cell_def)
    have "\<exists>t. cleanup k (tsize s) ((j + Suc m) mod tsize s) (s\<lparr>table := t2\<rparr>) = Some (s\<lparr>table := t\<rparr>) \<and>
        table_ok hash eq t \<and> held t = held t2 \<and> length t = length t2 \<and> occupied t = occupied t2"
      using Suc.IH [of "s\<lparr>table := t2\<rparr>" "Suc m"] d(3) Suc.prems m len(2) occ by (simp add: t2_def)
    moreover have "cleanup (Suc k) (tsize s) ((j + m) mod tsize s) s =
        cleanup k (tsize s) ((j + Suc m) mod tsize s) (s\<lparr>table := t2\<rparr>)"
      using here x add Suc.prems(3) by (simp add: t1_def mod_Suc_eq)
    ultimately show ?thesis using d(4) len occ by (simp add: t2_def)
  qed
qed simp

lemma cleaning_start:
  assumes ok: "table_ok hash eq t" and x: "cell t i = Some x" and hole: "has_hole t"
  shows "\<exists>D. cleaning (t[i mod length t := None]) i 1 D \<and> held (t[i mod length t := None]) = held t - {x}"
proof -
  let ?n = "length t" and ?t = "t[i mod length t := None]"
  have ne: "t \<noteq> []" and un: "uniq eq t" using ok by (auto simp: table_ok_def)
  have upd: "cell ?t k = (if k mod ?n = i mod ?n then None else cell t k)" for k
    by (rule cell_update [OF ne])
  obtain j where "j < ?n" "cell t j = None" using hole by (auto simp: has_hole_def)
  then obtain D0 where D0: "D0 < ?n" "cell t (i + D0) = None" using mod_cover [of j ?n i] by (metis cell_mod)
  define D where "D = (LEAST D. cell t (i + D) = None)"
  have D: "cell t (i + D) = None" "D < ?n" "\<And>e. e < D \<Longrightarrow> cell t (i + e) \<noteq> None"
    unfolding D_def using D0 Least_le [of "\<lambda>D. cell t (i + D) = None" D0]
    by (auto intro: LeastI [of _ D0] dest: not_less_Least)
  have pos: "0 < D" using D(1) x by (cases D) auto
  have differ: "(i + e) mod ?n \<noteq> i mod ?n" if "0 < e" "e \<le> D" for e
    using same_cell [of i e ?n 0] that D(2) ne by auto
  have held': "held ?t = held t - {x}"
  proof (intro set_eqI iffI)
    fix y assume "y \<in> held ?t"
    then obtain k where k: "k < ?n" "cell ?t k = Some y" by (auto simp: held_cell)
    then have "cell t k = Some y" "k mod ?n \<noteq> i mod ?n" by (auto simp: upd split: if_splits)
    moreover from this have "y \<noteq> x" using uniqD [OF ok _ x eq_refl] by blast
    ultimately show "y \<in> held t - {x}" using held_cellI [OF ne] by blast
  next
    fix y assume "y \<in> held t - {x}"
    then obtain k where k: "k < ?n" "cell t k = Some y" "y \<noteq> x" by (auto simp: held_cell)
    then have "k mod ?n \<noteq> i mod ?n" using x by (metis cell_mod option.inject)
    then show "y \<in> held ?t" using k ne by (intro held_cellI [of ?t k]) (auto simp: upd)
  qed
  have pend: "pending ?t i 1 D y \<longleftrightarrow> y \<noteq> x \<and> pending t i 0 D y" for y
  proof
    assume "pending ?t i 1 D y"
    then obtain e where e: "1 \<le> e" "e < D" "cell ?t (i + e) = Some y" by (auto simp: pending_def)
    then have "cell t (i + e) = Some y" using differ [of e] by (simp add: upd)
    moreover have "y \<noteq> x" using uniqD [OF ok calculation x] eq_refl [of x] differ [of e] e by auto
    ultimately show "y \<noteq> x \<and> pending t i 0 D y" using e by (auto simp: pending_def)
  next
    assume "y \<noteq> x \<and> pending t i 0 D y"
    then obtain e where e: "e < D" "cell t (i + e) = Some y" "y \<noteq> x" by (auto simp: pending_def)
    then have "0 < e" using x by (cases e) auto
    then show "pending ?t i 1 D y"
      using e differ [of e] unfolding pending_def by (intro exI [of _ e]) (simp add: upd)
  qed
  have paths: "\<exists>d < ?n. cell t (hash y + d) = Some y \<and> run t (hash y) d" if "y \<in> held t" for y
    using reachD [OF ok that] by (auto simp: reach_def)
  have reached: "reach hash ?t y" if y: "y \<in> held t" "y \<noteq> x" "\<not> pending t i 0 D y" for y
  proof -
    obtain d where d: "d < ?n" "cell t (hash y + d) = Some y" "run t (hash y) d" using paths y by blast
    have "(hash y + e) mod ?n \<noteq> i mod ?n" if "e \<le> d" for e
      using not_through [of t i D 0, OF D(1) pos d(3,2) y(3) that] by simp
    then show ?thesis using d unfolding reach_def run_def by (intro exI [of _ d]) (simp add: upd)
  qed
  have gaps: "\<exists>d < ?n. cell ?t (hash y + d) = Some y \<and> gap_path ?t i 1 (hash y) d"
    if y: "y \<noteq> x" "pending t i 0 D y" for y
  proof -
    have "y \<in> held t" using y held_cellI [OF ne] by (auto simp: pending_def)
    then obtain d where d: "d < ?n" "cell t (hash y + d) = Some y" "run t (hash y) d" using paths by blast
    moreover have "cell ?t (hash y + d) = Some y" using d(2) x y(1) by (auto simp: upd) (metis cell_mod option.inject)
    ultimately show ?thesis by (intro exI [of _ d]) (auto simp: gap_path_def run_def upd)
  qed
  have "\<forall>y \<in> held ?t. \<not> pending ?t i 1 D y \<longrightarrow> reach hash ?t y"
    using reached unfolding held' pend by blast
  moreover have "\<forall>y. pending ?t i 1 D y \<longrightarrow>
      (\<exists>d < length ?t. cell ?t (hash y + d) = Some y \<and> gap_path ?t i 1 (hash y) d)"
    using gaps unfolding pend length_list_update by blast
  moreover have "cell ?t (i + D) = None" "\<forall>e. 1 \<le> e \<longrightarrow> e < D \<longrightarrow> cell ?t (i + e) \<noteq> None"
    using D(1,3) differ by (auto simp: upd)
  ultimately have "cleaning ?t i 1 D"
    unfolding cleaning_def using ne uniq_clear [OF ne un] D(2) pos by simp
  then show ?thesis using held' by blast
qed

lemma LWSetRemove_ok:
  assumes inv: "set_inv s" and s: "hashf s = hash" "eqf s = eq"
  shows "\<exists>s' r. LWSetRemove s x = Some (s', r) \<and> set_inv s' \<and> hashf s' = hash \<and> eqf s' = eq \<and>
     tsize s' = tsize s \<and> members s' = {y \<in> members s. \<not> eq y x} \<and> found eq (members s) x r \<and>
     itemCount s' \<le> itemCount s"
proof -
  let ?t = "table s" and ?n = "length (table s)"
  have ok: "table_ok hash eq ?t" "tsize s = ?n" "itemCount s = occupied ?t" "itemCount s \<le> load_limit (tsize s)"
    and hole: "has_hole ?t"
    using inv s set_inv_hole [OF inv] by (auto simp: set_inv_def)
  have ne: "?t \<noteq> []" using ok(1) by (simp add: table_ok_def)
  obtain d where d: "d < ?n" "find_bucket s x = Some ((hash x + d) mod ?n)"
    "found eq (held ?t) x (cell ?t (hash x + d))"
    using find_bucket_ok [OF ok(1) hole ok(2) s] by blast
  have here: "?t ! ((hash x + d) mod ?n) = cell ?t (hash x + d)" by (simp add: cell_def)
  have less: "(hash x + d) mod ?n < ?n" using ne by simp
  show ?thesis
  proof (cases "cell ?t (hash x + d)")
    case None
    then have "LWSetRemove s x = Some (s, None)" "\<forall>y \<in> held ?t. \<not> eq y x"
      using d(2,3) here by (simp_all add: LWSetRemove_def found_def)
    then show ?thesis using inv s by (intro exI [of _ s] exI [of _ None]) (auto simp: members_def found_def)
  next
    case (Some y)
    then have y: "y \<in> held ?t" "eq y x" using d(3) by (simp_all add: found_def)
    let ?t1 = "?t[(hash x + d) mod ?n := None]"
    let ?s = "s\<lparr>itemCount := itemCount s - 1, table := ?t1\<rparr>"
    obtain D where D: "cleaning ?t1 (hash x + d) 1 D" "held ?t1 = held ?t - {y}"
      using cleaning_start [OF ok(1) Some hole] by blast
    have occ: "occupied ?t1 = occupied ?t - 1"
      using occupied_update(2) [OF less] here Some by simp
    have "D < ?n" using D(1) by (simp add: cleaning_def)
    then have fuel: "D - 1 < ?n" by simp
    have "\<exists>t. cleanup ?n (tsize ?s) ((hash x + d + 1) mod tsize ?s) ?s = Some (?s\<lparr>table := t\<rparr>) \<and>
        table_ok hash eq t \<and> held t = held (table ?s) \<and> length t = length (table ?s) \<and>
        occupied t = occupied (table ?s)"
      by (rule cleanup_ok) (use D(1) fuel ok s occ in \<open>simp_all\<close>)
    then obtain t where t: "cleanup ?n (tsize s) ((hash x + d + 1) mod tsize s) ?s = Some (?s\<lparr>table := t\<rparr>)"
      "table_ok hash eq t" "held t = held ?t1" "length t = ?n" "occupied t = occupied ?t1"
      by auto
    let ?s' = "?s\<lparr>table := t\<rparr>"
    have "LWSetRemove s x = Some (?s', Some y)"
      using d(2) here Some t(1) ok(2) by (simp add: LWSetRemove_def mod_Suc_eq)
    moreover have "set_inv ?s'"
      using inv by (rule set_inv_replace) (use ok s t(2-5) occ in auto)
    moreover have "{z \<in> members s. \<not> eq z x} = held ?t - {y}"
    proof -
      have "z = y" if "z \<in> held ?t" "eq z x" for z
        using held_same [OF ok(1) Some that(1)] y(2) that(2) eq_sym eq_trans by blast
      then show ?thesis using y unfolding members_def by blast
    qed
    ultimately show ?thesis
      using s t(3) D(2) y by (intro exI [of _ ?s'] exI [of _ "Some y"]) (simp add: members_def found_def)
  qed
qed

end

subsection \<open>The contract of a set, and the bulk operations\<close>

text \<open>
  What the bulk operations rely on: a state \<open>valid\<close> with contents \<open>mem\<close>, an update whose effect
  on the contents is \<open>eff\<close>, and room for \<open>n\<close> more updates. \<open>LWSetUnion\<close> and \<open>LWSetMinus\<close> are one
  loop over the other set's table, proved once here and used for both updates.
\<close>

locale item_store =
  fixes valid :: "'s \<Rightarrow> bool" and mem :: "'s \<Rightarrow> 'a set" and room :: "nat \<Rightarrow> 's \<Rightarrow> bool"
    and upd :: "'s \<Rightarrow> 'a \<Rightarrow> ('s \<times> 'a option) option" and eff :: "'a \<Rightarrow> 'a set \<Rightarrow> 'a set"
  assumes upd_ok: "valid s \<Longrightarrow> room (Suc n) s \<Longrightarrow>
    \<exists>s' r. upd s x = Some (s', r) \<and> valid s' \<and> room n s' \<and> mem s' = eff x (mem s)"
begin

lemma each_ok: "valid s \<Longrightarrow> room (occupied ts) s \<Longrightarrow>
    \<exists>s'. add_each upd s ts = Some s' \<and> valid s' \<and> mem s' = fold eff (entries ts) (mem s)"
proof (induction ts arbitrary: s)
  case (Cons c ts)
  show ?case
  proof (cases c)
    case None
    then show ?thesis using Cons by (simp add: occupied_def)
  next
    case (Some x)
    then obtain s' r where s': "upd s x = Some (s', r)" "valid s'" "room (occupied ts) s'" "mem s' = eff x (mem s)"
      using upd_ok [OF Cons.prems(1), of "occupied ts" x] Cons.prems(2) by (auto simp: occupied_def)
    show ?thesis using Cons.IH [OF s'(2,3)] s'(1,4) Some by auto
  qed
qed auto

end

lemma fold_remove: "fold (\<lambda>x S. {y \<in> S. \<not> eq y x}) xs S = {y \<in> S. \<forall>x \<in> set xs. \<not> eq y x}"
  by (induction xs arbitrary: S) auto

lemma distinct_split:
  assumes "distinct l" "l = xs @ p # ys" "l = as @ p # bs"
  shows "ys = bs"
proof -
  have drop: "dropWhile (\<lambda>y. y \<noteq> p) l = p # zs" if "l = ws @ p # zs" for ws zs
    using that assms(1) by (auto simp: dropWhile_append3)
  show ?thesis using drop [OF assms(2)] drop [OF assms(3)] by simp
qed

lemma first_item_entries: "first_item ts = (case entries ts of [] \<Rightarrow> None | y # ys \<Rightarrow> Some y)"
  by (induction ts rule: first_item.induct) simp_all

lemma all_items_entries: "all_items ts n = take n (entries ts)"
  by (induction ts n rule: all_items.induct) simp_all

context set_keys
begin

lemma sorted_entries: "table_ok hash eq t \<Longrightarrow> sorted_wrt (\<lambda>x y. \<not> eq x y) (entries t)"
  using uniq_entries [of eq t] eq_refl by (auto simp: table_ok_def)

lemma distinct_entries: "table_ok hash eq t \<Longrightarrow> distinct (entries t)"
proof (drule sorted_entries)
  show "distinct xs" if "sorted_wrt (\<lambda>x y. \<not> eq x y) xs" for xs
    using that by (induction xs) (auto simp: eq_refl)
qed

lemma LWSetCount_ok:
  assumes "set_inv s" "hashf s = hash" "eqf s = eq"
  shows "finite (members s)" "LWSetCount s = card (members s)"
  using assms distinct_entries [of "table s"]
  by (auto simp: LWSetCount_def members_def set_inv_def occupied_def distinct_card simp flip: set_entries)

lemma fold_ins_all: "sorted_wrt (\<lambda>x y. \<not> eq x y) xs \<Longrightarrow>
    fold (ins eq) xs S = set xs \<union> {y \<in> S. \<forall>x \<in> set xs. \<not> eq y x}"
proof (induction xs arbitrary: S)
  case (Cons x xs)
  then show ?case by (auto simp: ins_def)
qed simp

end

text \<open>The two updates of a set whose functions are \<open>hash\<close> and \<open>eq\<close> are such updates.\<close>

sublocale set_keys \<subseteq> adding: item_store
  "\<lambda>s. set_inv s \<and> hashf s = hash \<and> eqf s = eq" members
  "\<lambda>n s. itemCount s + n \<le> load_limit (last tableSizes)" LWSetAdd "ins eq"
proof
  fix s :: "'a lwset" and n x
  assume s: "set_inv s \<and> hashf s = hash \<and> eqf s = eq" and n: "itemCount s + Suc n \<le> load_limit (last tableSizes)"
  have "has_room s" using n by (simp add: has_room_def)
  then obtain s' r where s': "LWSetAdd s x = Some (s', r)" "set_inv s'" "hashf s' = hash" "eqf s' = eq"
    "members s' = ins eq x (members s)"
    using LWSetAdd_ok [of s x] s by blast
  have fin: "finite (members s)" "itemCount s = card (members s)" "itemCount s' = card (members s')"
    using LWSetCount_ok [of s] LWSetCount_ok [of s'] s s' by (auto simp: LWSetCount_def)
  have "card (members s') \<le> Suc (card {y \<in> members s. \<not> eq y x})"
    using fin(1) by (simp add: s'(5) ins_def card_insert_if)
  also have "card {y \<in> members s. \<not> eq y x} \<le> card (members s)"
    using fin(1) by (intro card_mono) auto
  finally show "\<exists>s' r. LWSetAdd s x = Some (s', r) \<and> (set_inv s' \<and> hashf s' = hash \<and> eqf s' = eq) \<and>
      itemCount s' + n \<le> load_limit (last tableSizes) \<and> members s' = ins eq x (members s)"
    using s' n fin by (intro exI [of _ s'] exI [of _ r]) simp
qed

sublocale set_keys \<subseteq> removing: item_store
  "\<lambda>s. set_inv s \<and> hashf s = hash \<and> eqf s = eq" members
  "\<lambda>n s. True" LWSetRemove "\<lambda>x S. {y \<in> S. \<not> eq y x}"
proof
  fix s :: "'a lwset" and n x
  assume s: "set_inv s \<and> hashf s = hash \<and> eqf s = eq"
  then show "\<exists>s' r. LWSetRemove s x = Some (s', r) \<and> (set_inv s' \<and> hashf s' = hash \<and> eqf s' = eq) \<and> True \<and>
      members s' = {y \<in> members s. \<not> eq y x}"
    using LWSetRemove_ok [of s x] by blast
qed

context set_keys
begin

lemma LWSetUnion_ok:
  assumes s: "set_inv s" "hashf s = hash" "eqf s = eq" and o: "set_inv other" "hashf other = hash" "eqf other = eq"
    and room: "itemCount s + itemCount other \<le> load_limit (last tableSizes)"
  shows "\<exists>s'. LWSetUnion s other = Some s' \<and> set_inv s' \<and> hashf s' = hash \<and> eqf s' = eq \<and>
     members s' = members other \<union> {y \<in> members s. \<forall>x \<in> members other. \<not> eq y x}"
  using adding.each_ok [of s "table other"] assms sorted_entries [of "table other"]
  by (auto simp: LWSetUnion_def fold_ins_all set_inv_def set_entries members_def)

lemma LWSetMinus_ok:
  assumes s: "set_inv s" "hashf s = hash" "eqf s = eq"
  shows "\<exists>s'. LWSetMinus s other = Some s' \<and> set_inv s' \<and> hashf s' = hash \<and> eqf s' = eq \<and>
     members s' = {y \<in> members s. \<forall>x \<in> members other. \<not> eq y x}"
  using removing.each_ok [of s "table other"] assms
  by (auto simp: LWSetMinus_def fold_remove set_entries members_def)

lemma LWSetIntersects_ok:
  assumes s: "set_inv s" "hashf s = hash" "eqf s = eq"
  shows "LWSetIntersects s other = Some (\<exists>x \<in> members other. \<exists>y \<in> members s. eq y x)"
proof -
  have "intersects_from s ts = Some (\<exists>x \<in> held ts. \<exists>y \<in> members s. eq y x)" for ts
  proof (induction ts)
    case (Cons c ts)
    show ?case
    proof (cases c)
      case (Some x)
      obtain r where "LWSetGet s x = Some r" "found eq (members s) x r" using LWSetGet_ok [OF s] by blast
      then show ?thesis using Some Cons by (cases r) (auto simp: found_def held_def)
    qed (use Cons in \<open>simp add: held_def\<close>)
  qed (simp add: held_def)
  then show ?thesis by (simp add: LWSetIntersects_def members_def)
qed

lemma LWSetIterate_ok:
  assumes s: "set_inv s" "hashf s = hash" "eqf s = eq" and split: "entries (table s) = xs @ p # ys"
  shows "LWSetIterate s (Some p) = Some (case ys of [] \<Rightarrow> None | y # _ \<Rightarrow> Some y)"
proof -
  let ?t = "table s"
  have ok: "table_ok hash eq ?t" "tsize s = length ?t" and hole: "has_hole ?t"
    using s set_inv_hole [OF s(1)] by (auto simp: set_inv_def)
  have ne: "?t \<noteq> []" using ok(1) by (simp add: table_ok_def)
  have p: "p \<in> held ?t" using split by (simp flip: set_entries)
  obtain d where d: "find_bucket s p = Some ((hash p + d) mod length ?t)"
    "found eq (held ?t) p (cell ?t (hash p + d))"
    using find_bucket_ok [OF ok(1) hole ok(2) s(2,3)] by blast
  then have c: "cell ?t (hash p + d) = Some p"
    using p held_same [OF ok(1) _ p] eq_refl by (cases "cell ?t (hash p + d)") (auto simp: found_def)
  let ?k = "(hash p + d) mod length ?t"
  have k: "?k < length ?t" "?t ! ?k = Some p" using ne c by (auto simp: cell_def)
  have "entries ?t = entries (take ?k ?t) @ p # entries (drop (?k + 1) ?t)"
    by (subst id_take_nth_drop [OF k(1)]) (simp add: k(2))
  then have "ys = entries (drop (?k + 1) ?t)"
    by (rule distinct_split [OF distinct_entries [OF ok(1)] split])
  then show ?thesis by (simp add: LWSetIterate_def d(1) first_item_entries)
qed

lemma LWSetClear_ok:
  assumes "set_inv s" "hashf s = hash" "eqf s = eq"
  shows "set_inv (LWSetClear s)" "members (LWSetClear s) = {}" "hashf (LWSetClear s) = hash" "eqf (LWSetClear s) = eq"
proof -
  obtain k where "1 \<le> k" "k < TABLE_SIZES_LEN" "tsize s = tableSizes ! k"
    using assms(1) sizes_index [of "tsize s"] unfolding set_inv_def by blast
  then show "set_inv (LWSetClear s)" "members (LWSetClear s) = {}" "hashf (LWSetClear s) = hash" "eqf (LWSetClear s) = eq"
    using new_table [of k] assms(2,3) by (auto simp: LWSetClear_def set_inv_def members_def held_def)
qed

end

subsection \<open>The table implements a set\<close>

text \<open>\<open>set_of hash eq s S\<close>: \<open>s\<close> is a well-formed table with these functions, holding the items \<open>S\<close>.\<close>

definition set_of :: "('a \<Rightarrow> nat) \<Rightarrow> ('a \<Rightarrow> 'a \<Rightarrow> bool) \<Rightarrow> 'a lwset \<Rightarrow> 'a set \<Rightarrow> bool" where
  "set_of hash eq s S \<longleftrightarrow> set_keys hash eq \<and> set_inv s \<and> hashf s = hash \<and> eqf s = eq \<and> members s = S"

lemma set_ofE:
  assumes "set_of hash eq s S"
  shows "set_keys hash eq" "set_inv s" "hashf s = hash" "eqf s = eq" "members s = S"
  using assms by (simp_all add: set_of_def)

lemma set_of_count: "set_of hash eq s S \<Longrightarrow> finite S \<and> itemCount s = card S"
  using set_keys.LWSetCount_ok [of hash eq s] by (auto simp: set_of_def LWSetCount_def)

lemma last_load: "load_limit (last tableSizes) = 2609407362"
  by (simp add: load_limit_def tableSizes_def)

text \<open>A set used to exercise the theorems: two items that collide in the smallest table.\<close>

definition example_set :: "nat lwset" where
  "example_set = \<lparr>table = [Some 4, Some 5, None, None, None, None, Some 6], tsize = 7, itemCount = 3,
     hashf = (\<lambda>n. 6), eqf = (\<lambda>a b. a = b)\<rparr>"

lemma example_keys: "set_keys (\<lambda>n :: nat. 6) (\<lambda>a b. a = b)"
  by unfold_locales auto

lemma probe_numeral: "probe (numeral k) stop t i =
    (if stop (t ! i) then Some i else probe (pred_numeral k) stop t ((i + 1) mod length t))"
  by (simp add: numeral_eq_Suc)

lemma example_set_of: "set_of (\<lambda>n. 6) (\<lambda>a b. a = b) example_set {4, 5, 6}"
proof -
  have levels: "TABLE_SIZES_LEN = Suc (Suc 49)"
    by (simp add: TABLE_SIZES_LEN_def tableSizes_def)
  note eval = set_keys.add_fresh [OF example_keys] find_bucket_def stop_at_def load_limit_def example_set_def
  define s0 s1 s2 where s0: "s0 = LWSetNew (\<lambda>n :: nat. 6) (\<lambda>a b. a = b) 3"
    and s1: "s1 = example_set\<lparr>table := [None, None, None, None, None, None, Some 6], itemCount := 1\<rparr>"
    and s2: "s2 = example_set\<lparr>table := [Some 4, None, None, None, None, None, Some 6], itemCount := 2\<rparr>"
  have replicate: "replicate 7 None = [None, None, None, None, None, None, None]"
    by (simp add: numeral_eq_Suc)
  have "size_index 3 = 1" by (simp add: size_index_def tableSizes_def)
  then have new: "s0 = example_set\<lparr>table := [None, None, None, None, None, None, None], itemCount := 0\<rparr>"
    by (simp add: s0 LWSetNew_def LWSetInit_def levels tableSizes_def Let_def example_set_def replicate)
  have set0: "set_of (\<lambda>n. 6) (\<lambda>a b. a = b) s0 {}"
    using set_keys.LWSetNew_ok [OF example_keys, of 3] example_keys by (simp add: set_of_def s0)
  have add: "\<exists>s' r. LWSetAdd s x = Some (s', r) \<and> set_of (\<lambda>n. 6) (\<lambda>a b. a = b) s' (insert x S)"
    if "set_of (\<lambda>n :: nat. 6) (\<lambda>a b. a = b) s S" "card S < 9" for s x S
    using set_keys.LWSetAdd_ok [OF example_keys, of s x] that set_of_count [OF that(1)]
    by (auto simp: set_of_def has_room_def last_load ins_def)
  have "LWSetAdd s0 6 = Some (s1, None)"
    by (subst eval(1) [where i = 6]) (simp_all add: new eval(2-) s1 probe_numeral)
  then have set1: "set_of (\<lambda>n. 6) (\<lambda>a b. a = b) s1 {6}" using add [OF set0, of 6] by auto
  have "LWSetAdd s1 4 = Some (s2, None)"
    by (subst eval(1) [where i = 0]) (simp_all add: eval(2-) s1 s2 probe_numeral)
  then have set2: "set_of (\<lambda>n. 6) (\<lambda>a b. a = b) s2 {4, 6}" using add [OF set1, of 4] by auto
  have "LWSetAdd s2 5 = Some (example_set, None)"
    by (subst eval(1) [where i = 1]) (simp_all add: eval(2-) s2 probe_numeral)
  then show ?thesis using add [OF set2, of 5] by (auto simp: insert_commute)
qed


text \<open>
  C4. Adding to a well-formed table never loops or fails while the set has fewer than the
  2609407362 items the largest table can carry. The item takes the place of the equal item, which
  is returned, the rest is kept, and the table stays well formed, grown when it must.
\<close>

theorem LWSetAdd_refines:
  assumes "set_of hash eq s S" "card S < 2609407362"
  shows "\<exists>s' r. LWSetAdd s x = Some (s', r) \<and> set_of hash eq s' (insert x {y \<in> S. \<not> eq y x}) \<and>
    (case r of None \<Rightarrow> \<forall>y \<in> S. \<not> eq y x | Some y \<Rightarrow> y \<in> S \<and> eq y x)"
  using set_keys.LWSetAdd_ok [OF set_ofE(1-4) [OF assms(1)], of x] assms(2) set_of_count [OF assms(1)]
    set_ofE [OF assms(1)]
  by (auto simp: set_of_def has_room_def last_load ins_def found_def)

theorem LWSetAdd_refines_witness:
  "\<exists>s' r. LWSetAdd example_set 13 = Some (s', r) \<and>
     set_of (\<lambda>n. 6) (\<lambda>a b. a = b) s' (insert 13 {y \<in> {4, 5, 6}. y \<noteq> 13}) \<and>
     (case r of None \<Rightarrow> \<forall>y \<in> {4, 5, 6}. y \<noteq> (13 :: nat) | Some y \<Rightarrow> y \<in> {4, 5, 6} \<and> y = 13)"
  using LWSetAdd_refines [OF example_set_of, of 13] by simp

text \<open>
  C5. Removing an item takes it out, and only it, whatever cluster of colliding items it sits in:
  the cleanup loop ends and leaves every remaining item where a probe finds it.
\<close>

theorem LWSetRemove_refines:
  assumes "set_of hash eq s S"
  shows "\<exists>s' r. LWSetRemove s x = Some (s', r) \<and> set_of hash eq s' {y \<in> S. \<not> eq y x} \<and>
    (case r of None \<Rightarrow> \<forall>y \<in> S. \<not> eq y x | Some y \<Rightarrow> y \<in> S \<and> eq y x)"
  using set_keys.LWSetRemove_ok [OF set_ofE(1-4) [OF assms], of x] set_ofE [OF assms]
  by (auto simp: set_of_def found_def)

theorem LWSetRemove_refines_witness:
  "\<exists>s' r. LWSetRemove example_set 6 = Some (s', r) \<and>
     set_of (\<lambda>n. 6) (\<lambda>a b. a = b) s' {y \<in> {4, 5, 6}. y \<noteq> 6} \<and>
     (case r of None \<Rightarrow> \<forall>y \<in> {4, 5, 6}. y \<noteq> (6 :: nat) | Some y \<Rightarrow> y \<in> {4, 5, 6} \<and> y = 6)"
  by (rule LWSetRemove_refines [OF example_set_of, of 6])

text \<open>
  Reading: \<open>LWSetGet\<close> returns the equal item if there is one, \<open>LWSetContains\<close> and
  \<open>LWSetCount\<close> agree with the set, \<open>LWSetAll\<close> lists its items once each.
\<close>

theorem LWSet_reads:
  assumes "set_of hash eq s S"
  shows "(\<exists>r. LWSetGet s x = Some r \<and> (case r of None \<Rightarrow> \<forall>y \<in> S. \<not> eq y x | Some y \<Rightarrow> y \<in> S \<and> eq y x)) \<and>
    LWSetContains s x = Some (\<exists>y \<in> S. eq y x) \<and> LWSetCount s = card S \<and>
    set (LWSetAll s (LWSetCount s)) = S \<and> distinct (LWSetAll s (LWSetCount s))"
proof -
  obtain r where r: "LWSetGet s x = Some r" "found eq S x r"
    using set_keys.LWSetGet_ok [OF set_ofE(1-4) [OF assms], of x] set_ofE(5) [OF assms] by blast
  have "LWSetContains s x = Some (\<exists>y \<in> S. eq y x)"
    using r by (cases r) (auto simp: LWSetContains_def found_def)
  moreover have "LWSetCount s = card S" using set_of_count [OF assms] by (simp add: LWSetCount_def)
  moreover have "LWSetAll s (LWSetCount s) = entries (table s)"
    using set_ofE(2) [OF assms] by (simp add: LWSetAll_def all_items_entries LWSetCount_def set_inv_def occupied_def)
  moreover have "distinct (entries (table s))"
    using set_keys.distinct_entries [OF set_ofE(1) [OF assms], of "table s"] set_ofE [OF assms] by (simp add: set_inv_def)
  ultimately show ?thesis
    using r set_ofE(5) [OF assms] by (auto simp: found_def set_entries members_def)
qed

theorem LWSet_reads_witness:
  "(\<exists>r. LWSetGet example_set 5 = Some r \<and>
      (case r of None \<Rightarrow> \<forall>y \<in> {4, 5, 6}. y \<noteq> (5 :: nat) | Some y \<Rightarrow> y \<in> {4, 5, 6} \<and> y = 5)) \<and>
    LWSetContains example_set 5 = Some (\<exists>y \<in> {4, 5, 6}. y = (5 :: nat)) \<and> LWSetCount example_set = card {4, 5, 6 :: nat} \<and>
    set (LWSetAll example_set (LWSetCount example_set)) = {4, 5, 6} \<and>
    distinct (LWSetAll example_set (LWSetCount example_set))"
  by (rule LWSet_reads [OF example_set_of, of 5])

text \<open>
  The bulk operations are the set operations up to \<open>eq\<close>: \<open>LWSetUnion\<close> lets the other set's
  items win, \<open>LWSetMinus\<close> needs nothing of the other table but its items, and \<open>LWSetIntersects\<close>
  decides whether the sets meet.
\<close>

theorem LWSet_bulk:
  assumes "set_of hash eq s S" "set_of hash eq other T" "card S + card T \<le> 2609407362"
  shows "(\<exists>s'. LWSetUnion s other = Some s' \<and> set_of hash eq s' (T \<union> {y \<in> S. \<forall>x \<in> T. \<not> eq y x})) \<and>
    (\<exists>s'. LWSetMinus s other = Some s' \<and> set_of hash eq s' {y \<in> S. \<forall>x \<in> T. \<not> eq y x}) \<and>
    LWSetIntersects s other = Some (\<exists>x \<in> T. \<exists>y \<in> S. eq y x)"
  using set_keys.LWSetUnion_ok [OF set_ofE(1-4) [OF assms(1)] set_ofE(2-4) [OF assms(2)]]
    set_keys.LWSetMinus_ok [OF set_ofE(1-4) [OF assms(1)], of other]
    set_keys.LWSetIntersects_ok [OF set_ofE(1-4) [OF assms(1)], of other]
    set_of_count [OF assms(1)] set_of_count [OF assms(2)] assms(3) last_load
    set_ofE(1,5) [OF assms(1)] set_ofE(5) [OF assms(2)]
  unfolding set_of_def by auto

theorem LWSet_bulk_witness:
  "(\<exists>s'. LWSetUnion example_set example_set = Some s' \<and>
      set_of (\<lambda>n. 6) (\<lambda>a b. a = b) s' ({4, 5, 6} \<union> {y \<in> {4, 5, 6}. \<forall>x \<in> {4, 5, 6}. y \<noteq> x})) \<and>
    (\<exists>s'. LWSetMinus example_set example_set = Some s' \<and>
      set_of (\<lambda>n. 6) (\<lambda>a b. a = b) s' {y \<in> {4, 5, 6}. \<forall>x \<in> {4, 5, 6}. y \<noteq> x}) \<and>
    LWSetIntersects example_set example_set = Some (\<exists>x \<in> {4, 5, 6}. \<exists>y \<in> {4, 5, 6 :: nat}. y = x)"
  by (rule LWSet_bulk [OF example_set_of example_set_of]) simp

text \<open>
  Iterating from NULL, each call passing the item the last one returned, visits every item
  once: the items are listed by some \<open>xs\<close>, the first call returns its head, and a call with an
  element of \<open>xs\<close> returns the next one, NULL at the end.
\<close>

theorem LWSetIterate_visits:
  assumes "set_of hash eq s S"
  shows "\<exists>xs. set xs = S \<and> distinct xs \<and>
    LWSetIterate s None = Some (case xs of [] \<Rightarrow> None | y # _ \<Rightarrow> Some y) \<and>
    (\<forall>as p bs. xs = as @ p # bs \<longrightarrow>
      LWSetIterate s (Some p) = Some (case bs of [] \<Rightarrow> None | y # _ \<Rightarrow> Some y))"
  using set_keys.LWSetIterate_ok [OF set_ofE(1-4) [OF assms]] set_keys.distinct_entries [OF set_ofE(1) [OF assms], of "table s"]
    set_ofE [OF assms]
  by (intro exI [of _ "entries (table s)"])
    (simp add: LWSetIterate_def first_item_entries set_entries members_def set_inv_def)

theorem LWSetIterate_visits_witness:
  "\<exists>xs. set xs = {4, 5, 6} \<and> distinct xs \<and>
    LWSetIterate example_set None = Some (case xs of [] \<Rightarrow> None | y # _ \<Rightarrow> Some y) \<and>
    (\<forall>as p bs. xs = as @ p # bs \<longrightarrow>
      LWSetIterate example_set (Some p) = Some (case bs of [] \<Rightarrow> None | y # _ \<Rightarrow> Some y))"
  by (rule LWSetIterate_visits [OF example_set_of])

end
