(* ===== verification/LW_Hash.thy ===== *)
theory LW_Hash
  imports LW_Int
begin

text \<open>
  Model of the hash functions of \<^verbatim>\<open>LWCrypto.c\<close>, on a little-endian machine: a buffer is its bytes
  and a word load reads four or eight of them, so that \<open>le32\<close> and \<open>le64\<close> are identities. The
  seven Merkle-Damgard hashes share one loop in the source, written out in each; it is \<open>md_hash\<close>
  here. The theorems show that this loop hashes the padded message block by block.
\<close>

subsection \<open>Words\<close>

definition rol32 :: "u32 \<Rightarrow> nat \<Rightarrow> u32" where
  "rol32 a b = push_bit b a OR drop_bit (32 - b) a"

definition ror32 :: "u32 \<Rightarrow> nat \<Rightarrow> u32" where
  "ror32 a b = drop_bit b a OR push_bit (32 - b) a"

definition ror64 :: "u64 \<Rightarrow> nat \<Rightarrow> u64" where
  "ror64 a b = drop_bit b a OR push_bit (64 - b) a"

definition rol64 :: "u64 \<Rightarrow> nat \<Rightarrow> u64" where
  "rol64 a b = push_bit b a XOR drop_bit (64 - b) a"

definition be32 :: "u32 \<Rightarrow> u32" where
  "be32 x = push_bit 24 (x AND 0xff) OR push_bit 8 (x AND 0xff00) OR
     drop_bit 8 (x AND 0xff0000) OR drop_bit 24 (x AND 0xff000000)"

definition be64 :: "u64 \<Rightarrow> u64" where
  "be64 x = ucast (be32 (ucast (drop_bit 32 x))) OR push_bit 32 (ucast (be32 (ucast x)))"

definition words32 :: "nat \<Rightarrow> bytes \<Rightarrow> u32 list" where
  "words32 n b = map (\<lambda>i. UInt32GetLE (drop (4 * i) b)) [0..<n]"

definition words64 :: "nat \<Rightarrow> bytes \<Rightarrow> u64 list" where
  "words64 n b = map (\<lambda>i. UInt64GetLE (drop (8 * i) b)) [0..<n]"

definition bytes32 :: "u32 list \<Rightarrow> bytes" where
  "bytes32 ws = concat (map UInt32SetLE ws)"

definition bytes64 :: "u64 list \<Rightarrow> bytes" where
  "bytes64 ws = concat (map UInt64SetLE ws)"

subsection \<open>SHA-1\<close>

definition sha_f1 :: "u32 \<Rightarrow> u32 \<Rightarrow> u32 \<Rightarrow> u32" where
  "sha_f1 x y z = (x AND y) OR (NOT x AND z)"

definition sha_f2 :: "u32 \<Rightarrow> u32 \<Rightarrow> u32 \<Rightarrow> u32" where
  "sha_f2 x y z = x XOR y XOR z"

definition sha_f3 :: "u32 \<Rightarrow> u32 \<Rightarrow> u32 \<Rightarrow> u32" where
  "sha_f3 x y z = (x AND y) OR (x AND z) OR (y AND z)"

type_synonym u32x5 = "u32 \<times> u32 \<times> u32 \<times> u32 \<times> u32"

definition sha1_op :: "(u32 \<Rightarrow> u32 \<Rightarrow> u32 \<Rightarrow> u32) \<Rightarrow> u32 \<Rightarrow> u32 \<Rightarrow> u32x5 \<Rightarrow> u32x5" where
  "sha1_op f y z = (\<lambda>(a, b, c, d, e). (rol32 a 5 + f b c d + e + y + z, a, rol32 b 30, c, d))"

definition sha1_round :: "nat \<Rightarrow> u32x5 \<times> u32 list \<Rightarrow> u32x5 \<times> u32 list" where
  "sha1_round i = (\<lambda>(v, x).
     let xi = (if i < 16 then be32 (x ! i)
               else rol32 (x ! (i - 3) XOR x ! (i - 8) XOR x ! (i - 14) XOR x ! (i - 16)) 1)
     in (if i < 20 then sha1_op sha_f1 0x5a827999 xi v
         else if i < 40 then sha1_op sha_f2 0x6ed9eba1 xi v
         else if i < 60 then sha1_op sha_f3 0x8f1bbcdc xi v
         else sha1_op sha_f2 0xca62c1d6 xi v, x[i := xi]))"

text \<open>
  The compression of the first 16 words of \<open>x\<close>. The source extends them in place to 80 words;
  every caller rewrites or clears the words of \<open>x\<close> before it uses them again.
\<close>

definition LWSHA1Compress :: "u32 list \<Rightarrow> bytes \<Rightarrow> u32 list" where
  "LWSHA1Compress r x =
     (case fold sha1_round [0..<80] ((r ! 0, r ! 1, r ! 2, r ! 3, r ! 4), words32 16 x @ replicate 64 0) of
        ((a, b, c, d, e), _) \<Rightarrow> [r ! 0 + a, r ! 1 + b, r ! 2 + c, r ! 3 + d, r ! 4 + e])"

subsection \<open>SHA-2\<close>

definition sha_ch :: "'a::len word \<Rightarrow> 'a word \<Rightarrow> 'a word \<Rightarrow> 'a word" where
  "sha_ch x y z = (x AND y) XOR (NOT x AND z)"

definition sha_maj :: "'a::len word \<Rightarrow> 'a word \<Rightarrow> 'a word \<Rightarrow> 'a word" where
  "sha_maj x y z = (x AND y) XOR (x AND z) XOR (y AND z)"

definition sha_s0 :: "u32 \<Rightarrow> u32" where
  "sha_s0 x = ror32 x 2 XOR ror32 x 13 XOR ror32 x 22"

definition sha_s1 :: "u32 \<Rightarrow> u32" where
  "sha_s1 x = ror32 x 6 XOR ror32 x 11 XOR ror32 x 25"

definition sha_s2 :: "u32 \<Rightarrow> u32" where
  "sha_s2 x = ror32 x 7 XOR ror32 x 18 XOR drop_bit 3 x"

definition sha_s3 :: "u32 \<Rightarrow> u32" where
  "sha_s3 x = ror32 x 17 XOR ror32 x 19 XOR drop_bit 10 x"

definition sha_S0 :: "u64 \<Rightarrow> u64" where
  "sha_S0 x = ror64 x 28 XOR ror64 x 34 XOR ror64 x 39"

definition sha_S1 :: "u64 \<Rightarrow> u64" where
  "sha_S1 x = ror64 x 14 XOR ror64 x 18 XOR ror64 x 41"

definition sha_S2 :: "u64 \<Rightarrow> u64" where
  "sha_S2 x = ror64 x 1 XOR ror64 x 8 XOR drop_bit 7 x"

definition sha_S3 :: "u64 \<Rightarrow> u64" where
  "sha_S3 x = ror64 x 19 XOR ror64 x 61 XOR drop_bit 6 x"

definition sha256_k :: "u32 list" where
  "sha256_k = concat [
    [0x428a2f98, 0x71374491, 0xb5c0fbcf, 0xe9b5dba5, 0x3956c25b, 0x59f111f1, 0x923f82a4, 0xab1c5ed5],
    [0xd807aa98, 0x12835b01, 0x243185be, 0x550c7dc3, 0x72be5d74, 0x80deb1fe, 0x9bdc06a7, 0xc19bf174],
    [0xe49b69c1, 0xefbe4786, 0x0fc19dc6, 0x240ca1cc, 0x2de92c6f, 0x4a7484aa, 0x5cb0a9dc, 0x76f988da],
    [0x983e5152, 0xa831c66d, 0xb00327c8, 0xbf597fc7, 0xc6e00bf3, 0xd5a79147, 0x06ca6351, 0x14292967],
    [0x27b70a85, 0x2e1b2138, 0x4d2c6dfc, 0x53380d13, 0x650a7354, 0x766a0abb, 0x81c2c92e, 0x92722c85],
    [0xa2bfe8a1, 0xa81a664b, 0xc24b8b70, 0xc76c51a3, 0xd192e819, 0xd6990624, 0xf40e3585, 0x106aa070],
    [0x19a4c116, 0x1e376c08, 0x2748774c, 0x34b0bcb5, 0x391c0cb3, 0x4ed8aa4a, 0x5b9cca4f, 0x682e6ff3],
    [0x748f82ee, 0x78a5636f, 0x84c87814, 0x8cc70208, 0x90befffa, 0xa4506ceb, 0xbef9a3f7, 0xc67178f2]]"

definition sha512_k :: "u64 list" where
  "sha512_k = concat [
    [0x428a2f98d728ae22, 0x7137449123ef65cd, 0xb5c0fbcfec4d3b2f, 0xe9b5dba58189dbbc, 0x3956c25bf348b538],
    [0x59f111f1b605d019, 0x923f82a4af194f9b, 0xab1c5ed5da6d8118, 0xd807aa98a3030242, 0x12835b0145706fbe],
    [0x243185be4ee4b28c, 0x550c7dc3d5ffb4e2, 0x72be5d74f27b896f, 0x80deb1fe3b1696b1, 0x9bdc06a725c71235],
    [0xc19bf174cf692694, 0xe49b69c19ef14ad2, 0xefbe4786384f25e3, 0x0fc19dc68b8cd5b5, 0x240ca1cc77ac9c65],
    [0x2de92c6f592b0275, 0x4a7484aa6ea6e483, 0x5cb0a9dcbd41fbd4, 0x76f988da831153b5, 0x983e5152ee66dfab],
    [0xa831c66d2db43210, 0xb00327c898fb213f, 0xbf597fc7beef0ee4, 0xc6e00bf33da88fc2, 0xd5a79147930aa725],
    [0x06ca6351e003826f, 0x142929670a0e6e70, 0x27b70a8546d22ffc, 0x2e1b21385c26c926, 0x4d2c6dfc5ac42aed],
    [0x53380d139d95b3df, 0x650a73548baf63de, 0x766a0abb3c77b2a8, 0x81c2c92e47edaee6, 0x92722c851482353b],
    [0xa2bfe8a14cf10364, 0xa81a664bbc423001, 0xc24b8b70d0f89791, 0xc76c51a30654be30, 0xd192e819d6ef5218],
    [0xd69906245565a910, 0xf40e35855771202a, 0x106aa07032bbd1b8, 0x19a4c116b8d2d0c8, 0x1e376c085141ab53],
    [0x2748774cdf8eeb99, 0x34b0bcb5e19b48a8, 0x391c0cb3c5c95a63, 0x4ed8aa4ae3418acb, 0x5b9cca4f7763e373],
    [0x682e6ff3d6b2b8a3, 0x748f82ee5defb2fc, 0x78a5636f43172f60, 0x84c87814a1f0ab72, 0x8cc702081a6439ec],
    [0x90befffa23631e28, 0xa4506cebde82bde9, 0xbef9a3f7b2c67915, 0xc67178f2e372532b, 0xca273eceea26619c],
    [0xd186b8c721c0c207, 0xeada7dd6cde0eb1e, 0xf57d4f7fee6ed178, 0x06f067aa72176fba, 0x0a637dc5a2c898a6],
    [0x113f9804bef90dae, 0x1b710b35131c471b, 0x28db77f523047d84, 0x32caab7b40c72493, 0x3c9ebe0a15c9bebc],
    [0x431d67c49c100d4c, 0x4cc5d4becb3e42b6, 0x597f299cfc657e2a, 0x5fcb6fab3ad6faec, 0x6c44198c4a475817]]"

type_synonym 'w x8 = "'w \<times> 'w \<times> 'w \<times> 'w \<times> 'w \<times> 'w \<times> 'w \<times> 'w"

definition sha256_round :: "u32 list \<Rightarrow> nat \<Rightarrow> u32 x8 \<Rightarrow> u32 x8" where
  "sha256_round w i = (\<lambda>(a, b, c, d, e, f, g, h).
     let t1 = h + sha_s1 e + sha_ch e f g + sha256_k ! i + w ! i;
         t2 = sha_s0 a + sha_maj a b c
     in (t1 + t2, a, b, c, d + t1, e, f, g))"

definition LWSHA256Compress :: "u32 list \<Rightarrow> bytes \<Rightarrow> u32 list" where
  "LWSHA256Compress r x =
     (let w = fold (\<lambda>i w. w @ [sha_s3 (w ! (i - 2)) + w ! (i - 7) + sha_s2 (w ! (i - 15)) + w ! (i - 16)])
                [16..<64] (map be32 (words32 16 x))
      in case fold (sha256_round w) [0..<64] (r ! 0, r ! 1, r ! 2, r ! 3, r ! 4, r ! 5, r ! 6, r ! 7) of
           (a, b, c, d, e, f, g, h) \<Rightarrow>
             [r ! 0 + a, r ! 1 + b, r ! 2 + c, r ! 3 + d, r ! 4 + e, r ! 5 + f, r ! 6 + g, r ! 7 + h])"

definition sha512_round :: "u64 list \<Rightarrow> nat \<Rightarrow> u64 x8 \<Rightarrow> u64 x8" where
  "sha512_round w i = (\<lambda>(a, b, c, d, e, f, g, h).
     let t1 = h + sha_S1 e + sha_ch e f g + sha512_k ! i + w ! i;
         t2 = sha_S0 a + sha_maj a b c
     in (t1 + t2, a, b, c, d + t1, e, f, g))"

definition LWSHA512Compress :: "u64 list \<Rightarrow> bytes \<Rightarrow> u64 list" where
  "LWSHA512Compress r x =
     (let w = fold (\<lambda>i w. w @ [sha_S3 (w ! (i - 2)) + w ! (i - 7) + sha_S2 (w ! (i - 15)) + w ! (i - 16)])
                [16..<80] (map be64 (words64 16 x))
      in case fold (sha512_round w) [0..<80] (r ! 0, r ! 1, r ! 2, r ! 3, r ! 4, r ! 5, r ! 6, r ! 7) of
           (a, b, c, d, e, f, g, h) \<Rightarrow>
             [r ! 0 + a, r ! 1 + b, r ! 2 + c, r ! 3 + d, r ! 4 + e, r ! 5 + f, r ! 6 + g, r ! 7 + h])"

subsection \<open>RIPEMD-160\<close>

definition rmd_f :: "u32 \<Rightarrow> u32 \<Rightarrow> u32 \<Rightarrow> u32" where "rmd_f x y z = x XOR y XOR z"
definition rmd_g :: "u32 \<Rightarrow> u32 \<Rightarrow> u32 \<Rightarrow> u32" where "rmd_g x y z = (x AND y) OR (NOT x AND z)"
definition rmd_h :: "u32 \<Rightarrow> u32 \<Rightarrow> u32 \<Rightarrow> u32" where "rmd_h x y z = (x OR NOT y) XOR z"
definition rmd_i :: "u32 \<Rightarrow> u32 \<Rightarrow> u32 \<Rightarrow> u32" where "rmd_i x y z = (x AND z) OR (y AND NOT z)"
definition rmd_j :: "u32 \<Rightarrow> u32 \<Rightarrow> u32 \<Rightarrow> u32" where "rmd_j x y z = x XOR (y OR NOT z)"

text \<open>Word order and shifts of the five rounds, left line and right line.\<close>

definition rmd_rl :: "nat list list" where
  "rmd_rl = [
    [0, 1, 2, 3, 4, 5, 6, 7, 8, 9, 10, 11, 12, 13, 14, 15],
    [7, 4, 13, 1, 10, 6, 15, 3, 12, 0, 9, 5, 2, 14, 11, 8],
    [3, 10, 14, 4, 9, 15, 8, 1, 2, 7, 0, 6, 13, 11, 5, 12],
    [1, 9, 11, 10, 0, 8, 12, 4, 13, 3, 7, 15, 14, 5, 6, 2],
    [4, 0, 5, 9, 7, 12, 2, 10, 14, 1, 3, 8, 11, 6, 15, 13]]"

definition rmd_rr :: "nat list list" where
  "rmd_rr = [
    [5, 14, 7, 0, 9, 2, 11, 4, 13, 6, 15, 8, 1, 10, 3, 12],
    [6, 11, 3, 7, 0, 13, 5, 10, 14, 15, 8, 12, 4, 9, 1, 2],
    [15, 5, 1, 3, 7, 14, 6, 9, 11, 8, 12, 2, 10, 0, 4, 13],
    [8, 6, 4, 1, 3, 11, 15, 0, 5, 12, 2, 13, 9, 7, 10, 14],
    [12, 15, 10, 4, 1, 5, 8, 7, 6, 2, 13, 14, 0, 3, 9, 11]]"

definition rmd_sl :: "nat list list" where
  "rmd_sl = [
    [11, 14, 15, 12, 5, 8, 7, 9, 11, 13, 14, 15, 6, 7, 9, 8],
    [7, 6, 8, 13, 11, 9, 7, 15, 7, 12, 15, 9, 11, 7, 13, 12],
    [11, 13, 6, 7, 14, 9, 13, 15, 14, 8, 13, 6, 5, 12, 7, 5],
    [11, 12, 14, 15, 14, 15, 9, 8, 9, 14, 5, 6, 8, 6, 5, 12],
    [9, 15, 5, 11, 6, 8, 13, 12, 5, 12, 13, 14, 11, 8, 5, 6]]"

definition rmd_sr :: "nat list list" where
  "rmd_sr = [
    [8, 9, 9, 11, 13, 15, 15, 5, 7, 7, 8, 11, 14, 14, 12, 6],
    [9, 13, 15, 7, 12, 8, 9, 11, 7, 7, 12, 7, 6, 15, 13, 11],
    [9, 7, 15, 11, 8, 6, 6, 14, 12, 13, 5, 14, 13, 13, 7, 5],
    [15, 5, 8, 11, 14, 14, 6, 14, 6, 9, 12, 9, 12, 5, 15, 8],
    [8, 5, 12, 9, 12, 5, 14, 6, 8, 13, 6, 5, 15, 13, 11, 11]]"

definition rmd_op :: "(u32 \<Rightarrow> u32 \<Rightarrow> u32 \<Rightarrow> u32) \<Rightarrow> u32 \<Rightarrow> u32 \<Rightarrow> nat \<Rightarrow> u32x5 \<Rightarrow> u32x5" where
  "rmd_op f x k s = (\<lambda>(a, b, c, d, e). (e, rol32 (a + f b c d + x + k) s + e, b, rol32 c 10, d))"

definition rmd_line :: "(u32 \<Rightarrow> u32 \<Rightarrow> u32 \<Rightarrow> u32) list \<Rightarrow> u32 list \<Rightarrow> nat list list \<Rightarrow> nat list list \<Rightarrow> u32 list
    \<Rightarrow> u32x5 \<Rightarrow> u32x5" where
  "rmd_line fs ks rs ss x v =
     fold (\<lambda>n v. fold (\<lambda>i v. rmd_op (fs ! n) (x ! (rs ! n ! i)) (ks ! n) (ss ! n ! i) v) [0..<16] v) [0..<5] v"

definition LWRMDCompress :: "u32 list \<Rightarrow> bytes \<Rightarrow> u32 list" where
  "LWRMDCompress r b =
     (let x = words32 16 b; v = (r ! 0, r ! 1, r ! 2, r ! 3, r ! 4)
      in case (rmd_line [rmd_f, rmd_g, rmd_h, rmd_i, rmd_j]
                 [0x00000000, 0x5a827999, 0x6ed9eba1, 0x8f1bbcdc, 0xa953fd4e] rmd_rl rmd_sl x v,
               rmd_line [rmd_j, rmd_i, rmd_h, rmd_g, rmd_f]
                 [0x50a28be6, 0x5c4dd124, 0x6d703ef3, 0x7a6d76e9, 0x00000000] rmd_rr rmd_sr x v) of
           ((al, bl, cl, dl, el), (ar, br, cr, dr, er)) \<Rightarrow>
             [r ! 1 + cl + dr, r ! 2 + dl + er, r ! 3 + el + ar, r ! 4 + al + br, r ! 0 + bl + cr])"

subsection \<open>MD5\<close>

definition md5_F :: "u32 \<Rightarrow> u32 \<Rightarrow> u32 \<Rightarrow> u32" where "md5_F x y z = z XOR (x AND (y XOR z))"
definition md5_G :: "u32 \<Rightarrow> u32 \<Rightarrow> u32 \<Rightarrow> u32" where "md5_G x y z = y XOR (z AND (x XOR y))"
definition md5_H :: "u32 \<Rightarrow> u32 \<Rightarrow> u32 \<Rightarrow> u32" where "md5_H x y z = x XOR y XOR z"
definition md5_I :: "u32 \<Rightarrow> u32 \<Rightarrow> u32 \<Rightarrow> u32" where "md5_I x y z = y XOR (x OR NOT z)"

definition md5_k :: "u32 list" where
  "md5_k = [
    0xd76aa478, 0xe8c7b756, 0x242070db, 0xc1bdceee, 0xf57c0faf, 0x4787c62a, 0xa8304613, 0xfd469501,
    0x698098d8, 0x8b44f7af, 0xffff5bb1, 0x895cd7be, 0x6b901122, 0xfd987193, 0xa679438e, 0x49b40821,
    0xf61e2562, 0xc040b340, 0x265e5a51, 0xe9b6c7aa, 0xd62f105d, 0x02441453, 0xd8a1e681, 0xe7d3fbc8,
    0x21e1cde6, 0xc33707d6, 0xf4d50d87, 0x455a14ed, 0xa9e3e905, 0xfcefa3f8, 0x676f02d9, 0x8d2a4c8a,
    0xfffa3942, 0x8771f681, 0x6d9d6122, 0xfde5380c, 0xa4beea44, 0x4bdecfa9, 0xf6bb4b60, 0xbebfbc70,
    0x289b7ec6, 0xeaa127fa, 0xd4ef3085, 0x04881d05, 0xd9d4d039, 0xe6db99e5, 0x1fa27cf8, 0xc4ac5665,
    0xf4292244, 0x432aff97, 0xab9423a7, 0xfc93a039, 0x655b59c3, 0x8f0ccc92, 0xffeff47d, 0x85845dd1,
    0x6fa87e4f, 0xfe2ce6e0, 0xa3014314, 0x4e0811a1, 0xf7537e82, 0xbd3af235, 0x2ad7d2bb, 0xeb86d391]"

definition md5_s :: "nat list" where
  "md5_s = [7, 12, 17, 22, 5, 9, 14, 20, 4, 11, 16, 23, 6, 10, 15, 21]"

definition md5_op :: "(u32 \<Rightarrow> u32 \<Rightarrow> u32 \<Rightarrow> u32) \<Rightarrow> u32 \<Rightarrow> u32 \<Rightarrow> nat \<Rightarrow> u32 \<times> u32 \<times> u32 \<times> u32
    \<Rightarrow> u32 \<times> u32 \<times> u32 \<times> u32" where
  "md5_op f x k s = (\<lambda>(a, b, c, d). (d, rol32 (a + (f b c d + x + k)) s + b, b, c))"

definition md5_round :: "u32 list \<Rightarrow> nat \<Rightarrow> u32 \<times> u32 \<times> u32 \<times> u32 \<Rightarrow> u32 \<times> u32 \<times> u32 \<times> u32" where
  "md5_round x i =
     (if i < 16 then md5_op md5_F (x ! i) (md5_k ! i) (md5_s ! (i mod 4))
      else if i < 32 then md5_op md5_G (x ! ((5 * i + 1) mod 16)) (md5_k ! i) (md5_s ! (4 + i mod 4))
      else if i < 48 then md5_op md5_H (x ! ((3 * i + 5) mod 16)) (md5_k ! i) (md5_s ! (8 + i mod 4))
      else md5_op md5_I (x ! ((7 * i) mod 16)) (md5_k ! i) (md5_s ! (12 + i mod 4)))"

definition LWMD5Compress :: "u32 list \<Rightarrow> bytes \<Rightarrow> u32 list" where
  "LWMD5Compress r b =
     (case fold (md5_round (words32 16 b)) [0..<64] (r ! 0, r ! 1, r ! 2, r ! 3) of
        (a, b, c, d) \<Rightarrow> [r ! 0 + a, r ! 1 + b, r ! 2 + c, r ! 3 + d])"

subsection \<open>The block loop and the padding\<close>

text \<open>
  \<open>absorb\<close> is the loop over the message with index \<open>i\<close>, hash state \<open>buf\<close> and block buffer \<open>x\<close>; it
  returns the three as the loop leaves them. \<open>incl\<close> tells the two loop conditions of the source
  apart: \<^verbatim>\<open>i < len\<close> and \<^verbatim>\<open>i <= len\<close>.
\<close>

function absorb :: "bool \<Rightarrow> nat \<Rightarrow> ('s \<Rightarrow> bytes \<Rightarrow> 's) \<Rightarrow> bytes \<Rightarrow> nat \<Rightarrow> 's \<Rightarrow> bytes \<Rightarrow> nat \<times> 's \<times> bytes" where
  "absorb incl n compress data i buf x =
     (if n \<noteq> 0 \<and> (if incl then i \<le> length data else i < length data) then
        let k = (if i + n < length data then n else length data - i);
            x' = take k (drop i data) @ drop k x
        in if i + n > length data then (i, buf, x')
           else absorb incl n compress data (i + n) (compress buf x') x'
      else (i, buf, x))"
  by pat_completeness auto
termination
  by (relation "measure (\<lambda>(incl, n, compress, data, i, buf, x). Suc (length data) - i)") (auto split: if_splits)

declare absorb.simps [simp del]

text \<open>
  The tail: clear the rest of the block, append \<open>0x80\<close>, spill if the length field (\<open>fl\<close> bytes) does
  not fit. The block buffer is not initialised: \<open>junk\<close> gives the bytes it holds at the start.
\<close>

definition md_hash :: "bool \<Rightarrow> nat \<Rightarrow> nat \<Rightarrow> ('s \<Rightarrow> bytes \<Rightarrow> 's) \<Rightarrow> 's \<Rightarrow> bytes \<Rightarrow> (nat \<Rightarrow> u8) \<Rightarrow> bytes \<Rightarrow> 's" where
  "md_hash incl n fl compress iv lenbytes junk data =
     (case absorb incl n compress data 0 iv (map junk [0..<n]) of (i, buf, x) \<Rightarrow>
        let r = length data - i;
            x1 = (take r x @ replicate (n - r) 0)[r := 0x80];
            (buf1, x2) = (if r \<ge> n - fl then (compress buf x1, replicate n 0) else (buf, x1))
        in compress buf1 (take (n - fl) x2 @ lenbytes))"

definition be_len :: "nat \<Rightarrow> bytes" where
  "be_len len = UInt32SetLE (be32 (ucast (drop_bit 29 (of_nat len :: u64)))) @ UInt32SetLE (be32 (ucast (push_bit 3 (of_nat len :: u64))))"

definition le_len :: "nat \<Rightarrow> bytes" where
  "le_len len = UInt32SetLE (ucast (push_bit 3 (of_nat len :: u64))) @ UInt32SetLE (ucast (drop_bit 29 (of_nat len :: u64)))"

definition be_len16 :: "nat \<Rightarrow> bytes" where
  "be_len16 len = UInt64SetLE 0 @ UInt64SetLE (be64 (of_nat len * 8))"

text \<open>
  Each function for given contents of its buffer, and for a buffer of zeros; the two are the same by
  \<open>hashes_of_padded_message\<close>.
\<close>

definition LWSHA1_from :: "(nat \<Rightarrow> u8) \<Rightarrow> bytes \<Rightarrow> bytes" where
  "LWSHA1_from junk data = bytes32 (map be32 (take 5
     (md_hash False 64 8 LWSHA1Compress [0x67452301, 0xefcdab89, 0x98badcfe, 0x10325476, 0xc3d2e1f0]
        (be_len (length data)) junk data)))"

definition LWSHA1 :: "bytes \<Rightarrow> bytes" where
  "LWSHA1 = LWSHA1_from (\<lambda>i. 0)"

definition LWSHA224_from :: "(nat \<Rightarrow> u8) \<Rightarrow> bytes \<Rightarrow> bytes" where
  "LWSHA224_from junk data = bytes32 (map be32 (take 7
     (md_hash False 64 8 LWSHA256Compress [0xc1059ed8, 0x367cd507, 0x3070dd17, 0xf70e5939, 0xffc00b31,
        0x68581511, 0x64f98fa7, 0xbefa4fa4] (be_len (length data)) junk data)))"

definition LWSHA224 :: "bytes \<Rightarrow> bytes" where
  "LWSHA224 = LWSHA224_from (\<lambda>i. 0)"

definition LWSHA256_from :: "(nat \<Rightarrow> u8) \<Rightarrow> bytes \<Rightarrow> bytes" where
  "LWSHA256_from junk data = bytes32 (map be32 (take 8
     (md_hash False 64 8 LWSHA256Compress [0x6a09e667, 0xbb67ae85, 0x3c6ef372, 0xa54ff53a, 0x510e527f,
        0x9b05688c, 0x1f83d9ab, 0x5be0cd19] (be_len (length data)) junk data)))"

definition LWSHA256 :: "bytes \<Rightarrow> bytes" where
  "LWSHA256 = LWSHA256_from (\<lambda>i. 0)"

definition LWSHA256_2 :: "bytes \<Rightarrow> bytes" where
  "LWSHA256_2 data = LWSHA256 (LWSHA256 data)"

definition LWSHA384_from :: "(nat \<Rightarrow> u8) \<Rightarrow> bytes \<Rightarrow> bytes" where
  "LWSHA384_from junk data = bytes64 (map be64 (take 6
     (md_hash False 128 16 LWSHA512Compress [0xcbbb9d5dc1059ed8, 0x629a292a367cd507, 0x9159015a3070dd17,
        0x152fecd8f70e5939, 0x67332667ffc00b31, 0x8eb44a8768581511, 0xdb0c2e0d64f98fa7, 0x47b5481dbefa4fa4]
        (be_len16 (length data)) junk data)))"

definition LWSHA384 :: "bytes \<Rightarrow> bytes" where
  "LWSHA384 = LWSHA384_from (\<lambda>i. 0)"

definition LWSHA512_from :: "(nat \<Rightarrow> u8) \<Rightarrow> bytes \<Rightarrow> bytes" where
  "LWSHA512_from junk data = bytes64 (map be64 (take 8
     (md_hash False 128 16 LWSHA512Compress [0x6a09e667f3bcc908, 0xbb67ae8584caa73b, 0x3c6ef372fe94f82b,
        0xa54ff53a5f1d36f1, 0x510e527fade682d1, 0x9b05688c2b3e6c1f, 0x1f83d9abfb41bd6b, 0x5be0cd19137e2179]
        (be_len16 (length data)) junk data)))"

definition LWSHA512 :: "bytes \<Rightarrow> bytes" where
  "LWSHA512 = LWSHA512_from (\<lambda>i. 0)"

definition LWRMD160_from :: "(nat \<Rightarrow> u8) \<Rightarrow> bytes \<Rightarrow> bytes" where
  "LWRMD160_from junk data = bytes32 (take 5
     (md_hash True 64 8 LWRMDCompress [0x67452301, 0xefcdab89, 0x98badcfe, 0x10325476, 0xc3d2e1f0]
        (le_len (length data)) junk data))"

definition LWRMD160 :: "bytes \<Rightarrow> bytes" where
  "LWRMD160 = LWRMD160_from (\<lambda>i. 0)"

definition LWHash160 :: "bytes \<Rightarrow> bytes" where
  "LWHash160 data = LWRMD160 (LWSHA256 data)"

definition LWMD5_from :: "(nat \<Rightarrow> u8) \<Rightarrow> bytes \<Rightarrow> bytes" where
  "LWMD5_from junk data = bytes32 (take 4
     (md_hash True 64 8 LWMD5Compress [0x67452301, 0xefcdab89, 0x98badcfe, 0x10325476]
        (le_len (length data)) junk data))"

definition LWMD5 :: "bytes \<Rightarrow> bytes" where
  "LWMD5 = LWMD5_from (\<lambda>i. 0)"

subsection \<open>SHA-3 and Keccak\<close>

definition keccak_k :: "u64 list" where
  "keccak_k = [
    0x0000000000000001, 0x0000000000008082, 0x800000000000808a, 0x8000000080008000,
    0x000000000000808b, 0x0000000080000001, 0x8000000080008081, 0x8000000000008009,
    0x000000000000008a, 0x0000000000000088, 0x0000000080008009, 0x000000008000000a,
    0x000000008000808b, 0x800000000000008b, 0x8000000000008089, 0x8000000000008003,
    0x8000000000008002, 0x8000000000000080, 0x000000000000800a, 0x800000008000000a,
    0x8000000080008081, 0x8000000000008080, 0x0000000080000001, 0x8000000080008008]"

definition keccak_rho :: "nat list" where
  "keccak_rho = [0, 1, 62, 28, 27, 36, 44, 6, 55, 20, 3, 10, 43, 25, 39, 41, 45, 15, 21, 8, 18, 2, 61, 56, 14]"

text \<open>The assignments \<open>r[d] = r[s]\<close> of the pi step in their order; \<open>r[10]\<close> then gets the old \<open>r[1]\<close>.\<close>

definition keccak_pi :: "(nat \<times> nat) list" where
  "keccak_pi = [(1, 6), (6, 9), (9, 22), (22, 14), (14, 20), (20, 2), (2, 12), (12, 13), (13, 19), (19, 23),
     (23, 15), (15, 4), (4, 24), (24, 21), (21, 8), (8, 16), (16, 5), (5, 3), (3, 18), (18, 17), (17, 11),
     (11, 7), (7, 10)]"

definition keccak_theta :: "u64 list \<Rightarrow> u64 list" where
  "keccak_theta r =
     (let a = map (\<lambda>j. r ! j XOR r ! (j + 5) XOR r ! (j + 10) XOR r ! (j + 15) XOR r ! (j + 20)) [0..<5];
          b = [rol64 (a ! 1) 1 XOR a ! 4, rol64 (a ! 2) 1 XOR a ! 0, rol64 (a ! 3) 1 XOR a ! 1,
               rol64 (a ! 4) 1 XOR a ! 2, rol64 (a ! 0) 1 XOR a ! 3]
      in map (\<lambda>i. r ! i XOR b ! (i mod 5)) [0..<25])"

definition keccak_chi :: "u64 list \<Rightarrow> u64 list" where
  "keccak_chi r = fold (\<lambda>j r.
     let r0 = r ! j; r1 = r ! (1 + j);
         r = r[j := r ! j XOR (NOT r1 AND r ! (2 + j))];
         r = r[1 + j := r ! (1 + j) XOR (NOT (r ! (2 + j)) AND r ! (3 + j))];
         r = r[2 + j := r ! (2 + j) XOR (NOT (r ! (3 + j)) AND r ! (4 + j))];
         r = r[3 + j := r ! (3 + j) XOR (NOT (r ! (4 + j)) AND r0)]
     in r[4 + j := r ! (4 + j) XOR (NOT r0 AND r1)]) [0, 5, 10, 15, 20] r"

definition keccak_round :: "nat \<Rightarrow> u64 list \<Rightarrow> u64 list" where
  "keccak_round i r =
     (let r = keccak_theta r;
          r = map (\<lambda>j. rol64 (r ! j) (keccak_rho ! j)) [0..<25];
          r1 = r ! 1;
          r = (fold (\<lambda>(d, s) r. r[d := r ! s]) keccak_pi r)[10 := r1];
          r = keccak_chi r
      in r[0 := r ! 0 XOR keccak_k ! i])"

definition LWSHA3Compress :: "nat \<Rightarrow> u64 list \<Rightarrow> bytes \<Rightarrow> u64 list" where
  "LWSHA3Compress blockSize r x =
     fold keccak_round [0..<24]
       (fold (\<lambda>i r. r[i := r ! i XOR UInt64GetLE (drop (8 * i) x)]) [0..<blockSize div 8] r)"

definition keccak_hash :: "u8 \<Rightarrow> bytes \<Rightarrow> bytes" where
  "keccak_hash pad data =
     (case absorb True 136 (LWSHA3Compress 136) data 0 (replicate 25 0) (replicate 136 0) of (i, buf, x) \<Rightarrow>
        let r = length data - i;
            x1 = take r x @ replicate (136 - r) 0;
            x2 = x1[r := x1 ! r OR pad];
            x3 = x2[135 := x2 ! 135 OR 0x80]
        in bytes64 (take 4 (LWSHA3Compress 136 buf x3)))"

definition LWSHA3_256 :: "bytes \<Rightarrow> bytes" where
  "LWSHA3_256 data = keccak_hash 0x06 data"

definition LWKeccak256 :: "bytes \<Rightarrow> bytes" where
  "LWKeccak256 data = keccak_hash 0x01 data"

subsection \<open>MurmurHash3\<close>

definition fmix32 :: "u32 \<Rightarrow> u32" where
  "fmix32 h =
     (let h = h XOR drop_bit 16 h; h = h * 0x85ebca6b; h = h XOR drop_bit 13 h; h = h * 0xc2b2ae35
      in h XOR drop_bit 16 h)"

definition murmur_block :: "u32 \<Rightarrow> u32 \<Rightarrow> u32" where
  "murmur_block w h =
     (let k = rol32 (w * 0xcc9e2d51) 15 * 0x1b873593 in rol32 (h XOR k) 13 * 5 + 0xe6546b64)"

definition LWMurmur3_32 :: "bytes \<Rightarrow> u32 \<Rightarrow> u32" where
  "LWMurmur3_32 data seed =
     (let len = length data;
          h = fold murmur_block (words32 (len div 4) data) seed;
          t = drop (len div 4 * 4) data;
          k = (if 3 \<le> length t then push_bit 16 (ucast (t ! 2)) else 0);
          k = (if 2 \<le> length t then k XOR push_bit 8 (ucast (t ! 1)) else k);
          h = (if 1 \<le> length t then h XOR rol32 ((k XOR ucast (t ! 0)) * 0xcc9e2d51) 15 * 0x1b873593 else h)
      in fmix32 (h XOR of_nat len))"

subsection \<open>The loop hashes the padded message\<close>

primrec chunks :: "nat \<Rightarrow> nat \<Rightarrow> 'a list \<Rightarrow> 'a list list" where
  "chunks 0 n xs = []"
| "chunks (Suc k) n xs = take n xs # chunks k n (drop n xs)"

definition md_pad :: "nat \<Rightarrow> bytes \<Rightarrow> bytes \<Rightarrow> bytes" where
  "md_pad n lenbytes data = data @ [0x80] @
     replicate ((n - (length data + 1 + length lenbytes) mod n) mod n) 0 @ lenbytes"

definition md_spec :: "nat \<Rightarrow> ('s \<Rightarrow> bytes \<Rightarrow> 's) \<Rightarrow> 's \<Rightarrow> bytes \<Rightarrow> bytes \<Rightarrow> 's" where
  "md_spec n compress iv lenbytes data =
     (let p = md_pad n lenbytes data in foldl compress iv (chunks (length p div n) n p))"

lemma chunks_append: "length xs = k * n \<Longrightarrow> chunks (k + j) n (xs @ ys) = chunks k n xs @ chunks j n ys"
proof (induction k arbitrary: xs)
  case (Suc k)
  then show ?case using Suc.IH [of "drop n xs"] by simp
qed simp

lemma chunks_two: "length xs = n \<Longrightarrow> length ys = n \<Longrightarrow> chunks 2 n (xs @ ys) = [xs, ys]"
  by (simp add: numeral_2_eq_2)

lemma mod_once: "n \<le> m \<Longrightarrow> m < 2 * n \<Longrightarrow> m mod n = m - n" for n :: nat
  by (simp add: le_mod_geq)

lemma absorb_ok:
  "0 < n \<Longrightarrow> i \<le> length data \<Longrightarrow> length x = n \<Longrightarrow>
   \<exists>x'. absorb incl n compress data i buf x =
      (i + (length data - i) div n * n, foldl compress buf (chunks ((length data - i) div n) n (drop i data)), x') \<and>
    length x' = n \<and> take ((length data - i) mod n) x' = drop (i + (length data - i) div n * n) data"
proof (induction incl n compress data i buf x rule: absorb.induct)
  case (1 incl n compress data i buf x)
  let ?len = "length data"
  show ?case
  proof (cases "if incl then i \<le> ?len else i < ?len")
    case False
    then have "i = ?len" using 1(3) by (auto split: if_splits)
    then show ?thesis using False 1 by (subst absorb.simps) (auto split: if_splits)
  next
    case True
    define k where "k = (if i + n < ?len then n else ?len - i)"
    define x' where "x' = take k (drop i data) @ drop k x"
    have k: "k \<le> n" "i + k \<le> ?len" if "i + n \<le> ?len" using that by (auto simp: k_def)
    show ?thesis
    proof (cases "i + n > ?len")
      case over: True
      then have "k = ?len - i" "?len - i < n" using 1(3) by (auto simp: k_def)
      moreover have "absorb incl n compress data i buf x = (i, buf, x')"
        using 1(2) True over by (subst absorb.simps) (simp add: Let_def k_def x'_def)
      ultimately show ?thesis using 1(3,4) by (auto simp: x'_def)
    next
      case False
      then have "k = n" using 1(3) by (auto simp: k_def)
      have x': "x' = take n (drop i data)" "length x' = n" using False 1(4) by (auto simp: x'_def \<open>k = n\<close>)
      have step: "absorb incl n compress data i buf x = absorb incl n compress data (i + n) (compress buf x') x'"
        using 1(2) True False by (subst absorb.simps) (simp add: Let_def k_def x'_def)
      have num: "(?len - i) div n = Suc ((?len - (i + n)) div n)" "(?len - i) mod n = (?len - (i + n)) mod n"
        using False 1(2) by (simp_all add: le_div_geq le_mod_geq)
      have eq: "i + Suc m * n = i + n + m * n" for m by simp
      have "\<exists>x''. absorb incl n compress data (i + n) (compress buf x') x' =
          (i + n + (?len - (i + n)) div n * n,
           foldl compress (compress buf x') (chunks ((?len - (i + n)) div n) n (drop (i + n) data)), x'') \<and>
        length x'' = n \<and> take ((?len - (i + n)) mod n) x'' = drop (i + n + (?len - (i + n)) div n * n) data"
        by (rule 1(1) [OF _ k_def x'_def]) (use 1(2) True False x' in auto)
      then show ?thesis
        unfolding step num eq by (simp add: x'(1) add.commute [of n])
    qed
  qed
qed

text \<open>
  A Merkle-Damgard hash: a block size, a shorter nonempty length field and a compression. In it
  the loop of the source is the textbook fold over the padded message.
\<close>

locale block_hash =
  fixes n fl :: nat and compress :: "'s \<Rightarrow> bytes \<Rightarrow> 's"
  assumes field: "0 < fl" "fl < n"
begin

lemma md_hash_spec:
  assumes lb: "length lb = fl"
  shows "md_hash incl n fl compress iv lb junk data = md_spec n compress iv lb data"
proof -
  let ?len = "length data" and ?q = "length data div n" and ?r = "length data mod n"
  have n: "0 < n" using field by simp
  obtain x where abs: "absorb incl n compress data 0 iv (map junk [0..<n]) =
      (?q * n, foldl compress iv (chunks ?q n data), x)" and x: "length x = n" "take ?r x = drop (?q * n) data"
    using absorb_ok [OF n, of 0 data "map junk [0..<n]" incl compress iv] by auto
  have r: "?r < n" "?len - ?q * n = ?r" using n by (simp_all add: minus_div_mult_eq_mod)
  define tl where "tl = drop (?q * n) data"
  have tl: "length tl = ?r" by (simp add: tl_def r)
  have dat: "take (?q * n) data @ tl = data" by (simp add: tl_def)
  have qlen: "length (take (?q * n) data) = ?q * n" by simp
  have head: "chunks ?q n (take (?q * n) data) = chunks ?q n data"
    using chunks_append [OF qlen, of 0 tl] dat by simp
  let ?x1 = "tl @ 0x80 # replicate (n - ?r - 1) 0"
  have x1: "(take ?r x @ replicate (n - ?r) 0)[?r := 0x80] = ?x1"
    using r(1) by (cases "n - ?r") (auto simp: x(2) tl_def [symmetric] tl list_update_append)
  have modlen: "(?len + 1 + fl) mod n = (?r + 1 + fl) mod n" by (metis add.assoc mod_add_left_eq)
  have pad: "md_pad n lb data = take (?q * n) data @ (tl @ 0x80 # replicate ((n - (?r + 1 + fl) mod n) mod n) 0 @ lb)"
  proof -
    have "md_pad n lb data = data @ 0x80 # replicate ((n - (?r + 1 + fl) mod n) mod n) 0 @ lb"
      unfolding md_pad_def lb modlen by simp
    then show ?thesis using dat by (metis append.assoc)
  qed
  show ?thesis
  proof (cases "?r \<ge> n - fl")
    case False
    then have z: "(n - (?r + 1 + fl) mod n) mod n = n - ?r - 1 - fl" using field
      by (cases "?r + 1 + fl = n") auto
    let ?last = "tl @ 0x80 # replicate (n - ?r - 1 - fl) 0 @ lb"
    have len: "length ?last = n" using False r(1) lb tl by simp
    note p = pad [unfolded z]
    have "take (n - fl) ?x1 @ lb = ?last" using False tl r(1) by (auto simp: take_Cons' min_def)
    moreover have "chunks (length (md_pad n lb data) div n) n (md_pad n lb data) = chunks ?q n data @ [?last]"
    proof -
      have "length (md_pad n lb data) = (?q + 1) * n" using len qlen unfolding p by simp
      then show ?thesis using chunks_append [OF qlen, of 1 ?last] n len head unfolding p by simp
    qed
    ultimately show ?thesis
      using False by (simp add: md_hash_def abs Let_def r(2) x1 md_spec_def)
  next
    case True
    then have ge: "n \<le> ?r + fl" by simp
    have "(?r + 1 + fl) mod n = ?r + 1 + fl - n" using ge r(1) field by (intro mod_once) linarith+
    then have z: "(n - (?r + 1 + fl) mod n) mod n = (n - ?r - 1) + (n - fl)"
      using ge r(1) field by (subst mod_less) linarith+
    let ?last = "replicate (n - fl) 0 @ lb"
    note p = pad [unfolded z]
    have "Suc (?r + (n - Suc ?r)) = n" using r(1) by linarith
    then have len: "length ?x1 = n" "length ?last = n" using lb tl field by simp_all
    have "chunks (length (md_pad n lb data) div n) n (md_pad n lb data) = chunks ?q n data @ [?x1, ?last]"
    proof -
      have eq: "md_pad n lb data = take (?q * n) data @ ?x1 @ ?last" unfolding p by (simp add: replicate_add)
      have "length (md_pad n lb data) = (?q + 2) * n" using len qlen by (simp add: eq)
      then have "chunks (length (md_pad n lb data) div n) n (md_pad n lb data) =
          chunks ?q n (take (?q * n) data) @ chunks 2 n (?x1 @ ?last)"
        using chunks_append [OF qlen, of 2 "?x1 @ ?last"] n by (simp add: eq)
      also have "chunks 2 n (?x1 @ ?last) = [?x1, ?last]" using len by (rule chunks_two)
      finally show ?thesis by (simp add: head)
    qed
    then show ?thesis
      using True by (simp add: md_hash_def abs Let_def r(2) x1 md_spec_def)
  qed
qed

end


interpretation sha1: block_hash 64 8 LWSHA1Compress by unfold_locales simp_all
interpretation sha256: block_hash 64 8 LWSHA256Compress by unfold_locales simp_all
interpretation sha512: block_hash 128 16 LWSHA512Compress by unfold_locales simp_all
interpretation rmd160: block_hash 64 8 LWRMDCompress by unfold_locales simp_all
interpretation md5: block_hash 64 8 LWMD5Compress by unfold_locales simp_all

lemma length_len [lens, simp]: "length (be_len n) = 8" "length (le_len n) = 8" "length (be_len16 n) = 16"
  by (simp_all add: be_len_def le_len_def be_len16_def)

lemma length_bytes32 [lens, simp]: "length (bytes32 ws) = 4 * length ws"
  by (induction ws) (simp_all add: bytes32_def)

lemma length_bytes64 [lens, simp]: "length (bytes64 ws) = 8 * length ws"
  by (induction ws) (simp_all add: bytes64_def)

text \<open>The compressions return full states, so the digests have their nominal lengths.\<close>

lemma length_compress:
  "length (LWSHA1Compress r x) = 5" "length (LWSHA256Compress r x) = 8" "length (LWSHA512Compress s x) = 8"
  "length (LWRMDCompress r x) = 5" "length (LWMD5Compress r x) = 4"
  by (simp_all add: LWSHA1Compress_def LWSHA256Compress_def LWSHA512Compress_def LWRMDCompress_def
      LWMD5Compress_def Let_def split: prod.splits del: upt_rec_numeral)

lemma length_md_hash: "(\<And>r x. length (compress r x) = k) \<Longrightarrow> length (md_hash incl n fl compress iv lb junk data) = k"
  by (simp add: md_hash_def Let_def split: prod.splits)

lemmas hash_defs = LWSHA1_def LWSHA224_def LWSHA256_def LWSHA384_def LWSHA512_def LWRMD160_def LWMD5_def
  LWSHA1_from_def LWSHA224_from_def LWSHA256_from_def LWSHA384_from_def LWSHA512_from_def LWRMD160_from_def LWMD5_from_def

lemma length_hash [lens, simp]:
  "length (LWSHA1 d) = 20" "length (LWSHA224 d) = 28" "length (LWSHA256 d) = 32" "length (LWSHA384 d) = 48"
  "length (LWSHA512 d) = 64" "length (LWRMD160 d) = 20" "length (LWMD5 d) = 16" "length (LWSHA256_2 d) = 32"
  "length (LWHash160 d) = 20"
  by (simp_all add: hash_defs LWSHA256_2_def LWHash160_def length_md_hash length_compress)

lemma length_keccak_round [simp]: "length (keccak_round i r) = 25"
  by (simp add: keccak_round_def keccak_chi_def keccak_pi_def Let_def)

lemma length_fold: "is \<noteq> [] \<Longrightarrow> (\<And>i r. length (f i r) = n) \<Longrightarrow> length (fold f is r) = n"
  by (induction "is" arbitrary: r rule: list_nonempty_induct) auto

lemma length_SHA3Compress [simp]: "length (LWSHA3Compress n r x) = 25"
  by (simp add: LWSHA3Compress_def length_fold)

lemma length_sha3 [lens, simp]: "length (LWSHA3_256 d) = 32" "length (LWKeccak256 d) = 32"
  by (simp_all add: LWSHA3_256_def LWKeccak256_def keccak_hash_def Let_def split: prod.splits)

text \<open>The specification: the compression folded over the blocks of the padded message.\<close>

definition sha32_spec :: "nat \<Rightarrow> (u32 list \<Rightarrow> bytes \<Rightarrow> u32 list) \<Rightarrow> u32 list \<Rightarrow> bytes \<Rightarrow> bytes" where
  "sha32_spec k compress iv d = bytes32 (map be32 (take k (md_spec 64 compress iv (be_len (length d)) d)))"

definition sha64_spec :: "nat \<Rightarrow> u64 list \<Rightarrow> bytes \<Rightarrow> bytes" where
  "sha64_spec k iv d = bytes64 (map be64 (take k (md_spec 128 LWSHA512Compress iv (be_len16 (length d)) d)))"

definition md32_spec :: "nat \<Rightarrow> (u32 list \<Rightarrow> bytes \<Rightarrow> u32 list) \<Rightarrow> u32 list \<Rightarrow> bytes \<Rightarrow> bytes" where
  "md32_spec k compress iv d = bytes32 (take k (md_spec 64 compress iv (le_len (length d)) d))"

text \<open>
  C27. Each of SHA-1, SHA-224, SHA-256, SHA-384, SHA-512, RIPEMD-160 and MD5 is its compression folded
  over the blocks of the padded message, with the length in the byte order of the algorithm, whatever
  the length of the message and whatever bytes (\<open>junk\<close>) the uninitialised block buffer holds at the
  start: the block loop with its two exit paths and the spill of the length field into a block of its
  own do not show.
\<close>

theorem hashes_of_padded_message:
  "(LWSHA1_from junk d = LWSHA1 d \<and>
     LWSHA1 d = sha32_spec 5 LWSHA1Compress [0x67452301, 0xefcdab89, 0x98badcfe, 0x10325476, 0xc3d2e1f0] d) \<and>
   (LWSHA224_from junk d = LWSHA224 d \<and>
     LWSHA224 d = sha32_spec 7 LWSHA256Compress [0xc1059ed8, 0x367cd507, 0x3070dd17, 0xf70e5939, 0xffc00b31,
       0x68581511, 0x64f98fa7, 0xbefa4fa4] d) \<and>
   (LWSHA256_from junk d = LWSHA256 d \<and>
     LWSHA256 d = sha32_spec 8 LWSHA256Compress [0x6a09e667, 0xbb67ae85, 0x3c6ef372, 0xa54ff53a, 0x510e527f,
       0x9b05688c, 0x1f83d9ab, 0x5be0cd19] d) \<and>
   (LWSHA384_from junk d = LWSHA384 d \<and>
     LWSHA384 d = sha64_spec 6 [0xcbbb9d5dc1059ed8, 0x629a292a367cd507, 0x9159015a3070dd17,
       0x152fecd8f70e5939, 0x67332667ffc00b31, 0x8eb44a8768581511, 0xdb0c2e0d64f98fa7, 0x47b5481dbefa4fa4] d) \<and>
   (LWSHA512_from junk d = LWSHA512 d \<and>
     LWSHA512 d = sha64_spec 8 [0x6a09e667f3bcc908, 0xbb67ae8584caa73b, 0x3c6ef372fe94f82b,
       0xa54ff53a5f1d36f1, 0x510e527fade682d1, 0x9b05688c2b3e6c1f, 0x1f83d9abfb41bd6b, 0x5be0cd19137e2179] d) \<and>
   (LWRMD160_from junk d = LWRMD160 d \<and>
     LWRMD160 d = md32_spec 5 LWRMDCompress [0x67452301, 0xefcdab89, 0x98badcfe, 0x10325476, 0xc3d2e1f0] d) \<and>
   (LWMD5_from junk d = LWMD5 d \<and>
     LWMD5 d = md32_spec 4 LWMD5Compress [0x67452301, 0xefcdab89, 0x98badcfe, 0x10325476] d)"
  unfolding hash_defs sha32_spec_def sha64_spec_def md32_spec_def
  by (simp only: sha1.md_hash_spec sha256.md_hash_spec sha512.md_hash_spec rmd160.md_hash_spec md5.md_hash_spec length_len simp_thms)

end
