(* ===== verification/LW_Crypto.thy ===== *)
theory LW_Crypto
  imports LW_Hash
begin

text \<open>
  Model of the keyed functions of \<^verbatim>\<open>LWCrypto.c\<close>: HMAC and its random generator, PBKDF2, Poly1305,
  ChaCha20, their authenticated encryption, and scrypt. A hash is a parameter of type
  \<open>bytes \<Rightarrow> bytes\<close> with its length, as the function pointer of the source. Arithmetic stays on
  32- and 64-bit words. The scrubbing of temporaries is not modelled.
\<close>

subsection \<open>HMAC\<close>

definition LWHMAC :: "(bytes \<Rightarrow> bytes) \<Rightarrow> nat \<Rightarrow> bytes \<Rightarrow> bytes \<Rightarrow> bytes" where
  "LWHMAC hash hashLen key data =
     (let blockLen = (if hashLen > 32 then 128 else 64);
          key = (if length key > blockLen then hash key else key);
          padded = key @ replicate (blockLen - length key) 0;
          kipad = map (\<lambda>b. b XOR 0x36) padded;
          kopad = map (\<lambda>b. b XOR 0x5c) padded
      in hash (kopad @ hash (kipad @ data)))"

text \<open>
  One call of the generator: the output and the new \<open>K\<close> and \<open>V\<close>. \<open>n\<close> counts the rounds of the
  output loop, which runs while \<^verbatim>\<open>i*hashLen < outLen\<close>; the last copy is cut to what is left.
\<close>

fun drbg_out :: "(bytes \<Rightarrow> bytes) \<Rightarrow> nat \<Rightarrow> bytes \<Rightarrow> bytes \<Rightarrow> nat \<Rightarrow> bytes \<times> bytes" where
  "drbg_out hash hashLen K V 0 = ([], V)"
| "drbg_out hash hashLen K V (Suc n) =
     (let V = LWHMAC hash hashLen K V; (rest, V') = drbg_out hash hashLen K V n in (V @ rest, V'))"

definition LWHMACDRBG :: "nat \<Rightarrow> bytes \<Rightarrow> bytes \<Rightarrow> (bytes \<Rightarrow> bytes) \<Rightarrow> nat \<Rightarrow> bytes option \<Rightarrow> bytes option
    \<Rightarrow> bytes option \<Rightarrow> bytes \<times> bytes \<times> bytes" where
  "LWHMACDRBG outLen K V hash hashLen seed nonce ps =
     (let fresh = (seed \<noteq> None \<or> nonce \<noteq> None \<or> ps \<noteq> None);
          mem = (\<lambda>m. case m of None \<Rightarrow> [] | Some b \<Rightarrow> b);
          (K, V) = (if fresh then (replicate hashLen 0, replicate hashLen 1) else (K, V));
          K = LWHMAC hash hashLen K (V @ [0x00] @ mem seed @ mem nonce @ mem ps);
          V = LWHMAC hash hashLen K V;
          (K, V) = (if fresh then
              (let K = LWHMAC hash hashLen K (V @ [0x01] @ mem seed @ mem nonce @ mem ps)
               in (K, LWHMAC hash hashLen K V))
            else (K, V));
          (out, V) = drbg_out hash hashLen K V ((outLen + hashLen - 1) div hashLen)
      in (take outLen out, K, V))"

subsection \<open>PBKDF2\<close>

definition xor_bytes :: "bytes \<Rightarrow> bytes \<Rightarrow> bytes" where
  "xor_bytes a b = map2 (\<lambda>x y. x XOR y) a b"

text \<open>The inner loop: rounds \<open>r, ..., rounds - 1\<close> with the running \<open>U\<close> and \<open>T\<close>.\<close>

fun pbkdf2_rounds :: "(bytes \<Rightarrow> bytes) \<Rightarrow> bytes \<times> bytes \<Rightarrow> nat \<Rightarrow> bytes \<times> bytes" where
  "pbkdf2_rounds mac (U, T) 0 = (U, T)"
| "pbkdf2_rounds mac (U, T) (Suc n) = (let U = mac U in pbkdf2_rounds mac (U, xor_bytes T U) n)"

definition pbkdf2_block :: "(bytes \<Rightarrow> bytes) \<Rightarrow> nat \<Rightarrow> bytes \<Rightarrow> bytes \<Rightarrow> nat \<Rightarrow> nat \<Rightarrow> bytes" where
  "pbkdf2_block hash hashLen pw salt rounds i =
     (let U = LWHMAC hash hashLen pw (salt @ UInt32SetLE (be32 (of_nat (i + 1))))
      in snd (pbkdf2_rounds (LWHMAC hash hashLen pw) (U, U) (rounds - 1)))"

definition LWPBKDF2 :: "nat \<Rightarrow> (bytes \<Rightarrow> bytes) \<Rightarrow> nat \<Rightarrow> bytes \<Rightarrow> bytes \<Rightarrow> nat \<Rightarrow> bytes" where
  "LWPBKDF2 dkLen hash hashLen pw salt rounds =
     concat (map (\<lambda>i. take (if i * hashLen + hashLen \<le> dkLen then hashLen else dkLen mod hashLen)
                        (pbkdf2_block hash hashLen pw salt rounds i))
       [0..<(dkLen + hashLen - 1) div hashLen])"

subsection \<open>Poly1305\<close>

type_synonym limbs = "u32 \<times> u32 \<times> u32 \<times> u32 \<times> u32"

definition poly_r :: "bytes \<Rightarrow> limbs" where
  "poly_r key32 =
     (let t0 = UInt32GetLE key32; t1 = UInt32GetLE (drop 4 key32);
          t2 = UInt32GetLE (drop 8 key32); t3 = UInt32GetLE (drop 12 key32)
      in (t0 AND 0x03ffffff, (drop_bit 26 t0 OR push_bit 6 t1) AND 0x03ffff03,
          (drop_bit 20 t1 OR push_bit 12 t2) AND 0x03ffc0ff,
          (drop_bit 14 t2 OR push_bit 18 t3) AND 0x03f03fff, drop_bit 8 t3 AND 0x000fffff))"

text \<open>\<open>h += x\<close> for a 16-byte block, \<open>hibit\<close> set for a full one.\<close>

definition poly_add :: "u32 \<Rightarrow> bytes \<Rightarrow> limbs \<Rightarrow> limbs" where
  "poly_add hibit x = (\<lambda>(h0, h1, h2, h3, h4).
     let t0 = UInt32GetLE x; t1 = UInt32GetLE (drop 4 x);
         t2 = UInt32GetLE (drop 8 x); t3 = UInt32GetLE (drop 12 x)
     in (h0 + (t0 AND 0x03ffffff), h1 + ((drop_bit 26 t0 OR push_bit 6 t1) AND 0x03ffffff),
         h2 + ((drop_bit 20 t1 OR push_bit 12 t2) AND 0x03ffffff),
         h3 + ((drop_bit 14 t2 OR push_bit 18 t3) AND 0x03ffffff), h4 + (drop_bit 8 t3 OR hibit)))"

text \<open>\<open>h *= r\<close> with the partial reduction that follows.\<close>

definition poly_mul :: "limbs \<Rightarrow> limbs \<Rightarrow> limbs" where
  "poly_mul = (\<lambda>(r0, r1, r2, r3, r4) (h0, h1, h2, h3, h4).
     let w = (\<lambda>x :: u32. ucast x :: u64); lo = (\<lambda>x :: u64. ucast x :: u32);
         d0 = w h0 * w r0 + w h1 * w r4 * 5 + w h2 * w r3 * 5 + w h3 * w r2 * 5 + w h4 * w r1 * 5;
         d1 = w h0 * w r1 + w h1 * w r0 + w h2 * w r4 * 5 + w h3 * w r3 * 5 + w h4 * w r2 * 5;
         d2 = w h0 * w r2 + w h1 * w r1 + w h2 * w r0 + w h3 * w r4 * 5 + w h4 * w r3 * 5;
         d3 = w h0 * w r3 + w h1 * w r2 + w h2 * w r1 + w h3 * w r0 + w h4 * w r4 * 5;
         d4 = w h0 * w r4 + w h1 * w r3 + w h2 * w r2 + w h3 * w r1 + w h4 * w r0;
         d1 = d1 + w (lo (drop_bit 26 d0)); h1 = lo d1 AND 0x03ffffff;
         d2 = d2 + w (lo (drop_bit 26 d1)); h2 = lo d2 AND 0x03ffffff;
         d3 = d3 + w (lo (drop_bit 26 d2)); h3 = lo d3 AND 0x03ffffff;
         d4 = d4 + w (lo (drop_bit 26 d3)); h4 = lo d4 AND 0x03ffffff;
         h0 = (lo d0 AND 0x03ffffff) + lo (drop_bit 26 d4) * 5;
         h1 = h1 + drop_bit 26 h0; h0 = h0 AND 0x03ffffff
     in (h0, h1, h2, h3, h4))"

function poly_blocks :: "limbs \<Rightarrow> bytes \<Rightarrow> limbs \<Rightarrow> limbs" where
  "poly_blocks r data h =
     (if data = [] then h
      else if length data < 16
      then poly_mul r (poly_add 0 ((data @ replicate (16 - length data) 0)[length data := 1]) h)
      else poly_blocks r (drop 16 data) (poly_mul r (poly_add (push_bit 24 1) (take 16 data) h)))"
  by pat_completeness auto
termination by (relation "measure (\<lambda>(r, data, h). length data)") auto

declare poly_blocks.simps [simp del]

definition poly_final :: "bytes \<Rightarrow> limbs \<Rightarrow> bytes" where
  "poly_final key32 = (\<lambda>(h0, h1, h2, h3, h4).
     let m = 0x03ffffff :: u32;
         h2 = h2 + drop_bit 26 h1; h1 = h1 AND m; h3 = h3 + drop_bit 26 h2; h2 = h2 AND m;
         h4 = h4 + drop_bit 26 h3; h3 = h3 AND m; h0 = h0 + drop_bit 26 h4 * 5; h4 = h4 AND m;
         h1 = h1 + drop_bit 26 h0; h0 = h0 AND m;
         t0 = h0 + 5; t1 = h1 + drop_bit 26 t0; t0 = t0 AND m; t2 = h2 + drop_bit 26 t1; t1 = t1 AND m;
         t3 = h3 + drop_bit 26 t2; t2 = t2 AND m; t4 = h4 + drop_bit 26 t3 - push_bit 26 1; t3 = t3 AND m;
         b = drop_bit 31 t4 - 1;
         h0 = (h0 AND NOT b) OR (t0 AND b); h1 = (h1 AND NOT b) OR (t1 AND b);
         h2 = (h2 AND NOT b) OR (t2 AND b); h3 = (h3 AND NOT b) OR (t3 AND b);
         h4 = (h4 AND NOT b) OR (t4 AND b);
         h0 = h0 OR push_bit 26 h1; h1 = drop_bit 6 h1 OR push_bit 20 h2;
         h2 = drop_bit 12 h2 OR push_bit 14 h3; h3 = drop_bit 18 h3 OR push_bit 8 h4;
         w = (\<lambda>x :: u32. ucast x :: u64); lo = (\<lambda>x :: u64. ucast x :: u32);
         x = (\<lambda>i. w (UInt32GetLE (drop (16 + 4 * i) key32)));
         d0 = w h0 + x 0; d1 = w h1 + x 1 + drop_bit 32 d0;
         d2 = w h2 + x 2 + drop_bit 32 d1; d3 = w h3 + x 3 + drop_bit 32 d2
     in bytes32 [lo d0, lo d1, lo d2, lo d3])"

definition LWPoly1305 :: "bytes \<Rightarrow> bytes \<Rightarrow> bytes" where
  "LWPoly1305 key32 data = poly_final key32 (poly_blocks (poly_r key32) data (0, 0, 0, 0, 0))"

subsection \<open>ChaCha20\<close>

definition qr :: "nat \<Rightarrow> nat \<Rightarrow> nat \<Rightarrow> nat \<Rightarrow> u32 list \<Rightarrow> u32 list" where
  "qr a b c d x =
     (let x = x[a := x ! a + x ! b]; x = x[d := rol32 (x ! d XOR x ! a) 16];
          x = x[c := x ! c + x ! d]; x = x[b := rol32 (x ! b XOR x ! c) 12];
          x = x[a := x ! a + x ! b]; x = x[d := rol32 (x ! d XOR x ! a) 8];
          x = x[c := x ! c + x ! d]
      in x[b := rol32 (x ! b XOR x ! c) 7])"

definition chacha_double_round :: "u32 list \<Rightarrow> u32 list" where
  "chacha_double_round x =
     (let x = qr 3 7 11 15 (qr 2 6 10 14 (qr 1 5 9 13 (qr 0 4 8 12 x)))
      in qr 3 4 9 14 (qr 2 7 8 13 (qr 1 6 11 12 (qr 0 5 10 15 x))))"

definition chacha_block :: "u32 list \<Rightarrow> bytes" where
  "chacha_block s = bytes32 (map2 (+) s ((chacha_double_round ^^ 10) s))"

definition chacha_next :: "u32 list \<Rightarrow> u32 list" where
  "chacha_next s = (let s = s[12 := s ! 12 + 1] in if s ! 12 = 0 then s[13 := s ! 13 + 1] else s)"

fun chacha_loop :: "nat \<Rightarrow> u32 list \<Rightarrow> bytes \<Rightarrow> bytes \<Rightarrow> bytes" where
  "chacha_loop i s b [] = []"
| "chacha_loop i s b (x # xs) =
     (let (s, b) = (if i mod 64 = 0 then (chacha_next s, chacha_block s) else (s, b))
      in (x XOR b ! (i mod 64)) # chacha_loop (i + 1) s b xs)"

definition chacha_sigma :: bytes where
  "chacha_sigma = map (\<lambda>c. of_nat (of_char c)) ''expand 32-byte k''"

definition chacha_init :: "bytes \<Rightarrow> bytes \<Rightarrow> u64 \<Rightarrow> u32 list" where
  "chacha_init key32 iv8 counter =
     words32 4 chacha_sigma @ words32 8 key32 @
     [ucast counter, ucast (drop_bit 32 counter)] @ words32 2 iv8"

definition LWChacha20 :: "bytes \<Rightarrow> bytes \<Rightarrow> bytes \<Rightarrow> u64 \<Rightarrow> bytes" where
  "LWChacha20 key32 iv8 data counter = chacha_loop 0 (chacha_init key32 iv8 counter) [] data"

subsection \<open>Authenticated encryption\<close>

definition pad16 :: "bytes \<Rightarrow> bytes" where
  "pad16 rest = rest @ replicate (16 - length rest) 0"

text \<open>The whole blocks of \<open>b\<close>, then its remainder padded with zeros, if any.\<close>

definition aead_absorb :: "limbs \<Rightarrow> bytes \<Rightarrow> limbs \<Rightarrow> limbs" where
  "aead_absorb r b h =
     (let whole = length b div 16 * 16; h = poly_blocks r (take whole b) h
      in if length b mod 16 \<noteq> 0 then poly_blocks r (pad16 (drop whole b)) h else h)"

definition aead_mac :: "bytes \<Rightarrow> bytes \<Rightarrow> bytes \<Rightarrow> bytes" where
  "aead_mac macKey ad ct =
     (let r = poly_r macKey; h = aead_absorb r ct (aead_absorb r ad (0, 0, 0, 0, 0))
      in poly_final macKey (poly_blocks r (UInt64SetLE (of_nat (length ad)) @ UInt64SetLE (of_nat (length ct))) h))"

definition aead_counter :: "bytes \<Rightarrow> u64" where
  "aead_counter nonce12 = UInt64GetLE (replicate 4 0 @ take 4 nonce12)"

text \<open>
  The number returned and the bytes written. \<open>outLen\<close> is \<open>None\<close> when \<open>out\<close> is NULL. The decryption
  compares the tag with the precedences of the source, \<^verbatim>\<open>!=\<close> binding tighter than \<^verbatim>\<open>|\<close>.
\<close>

definition LWChacha20Poly1305AEADEncrypt :: "nat option \<Rightarrow> bytes \<Rightarrow> bytes \<Rightarrow> bytes \<Rightarrow> bytes \<Rightarrow> nat \<times> bytes" where
  "LWChacha20Poly1305AEADEncrypt outLen key32 nonce12 data ad =
     (case outLen of None \<Rightarrow> (length data + 16, [])
      | Some n \<Rightarrow>
          if n < length data + 16 \<or> length data div 64 \<ge> 2 ^ 32 - 1 then (0, [])
          else (let iv = drop 4 nonce12; counter = aead_counter nonce12;
                    macKey = LWChacha20 key32 iv (replicate 32 0) counter;
                    ct = LWChacha20 key32 iv data (counter + 1)
                in (length data + 16, ct @ aead_mac macKey ad ct)))"

definition tag_differs :: "bytes \<Rightarrow> bytes \<Rightarrow> bool" where
  "tag_differs mac h =
     (let m = words32 4 mac; t = words32 4 h
      in (m ! 0 XOR t ! 0) OR (m ! 1 XOR t ! 1) OR (m ! 2 XOR t ! 2) OR
         of_bool ((m ! 3 XOR t ! 3) \<noteq> 0) \<noteq> 0)"

definition LWChacha20Poly1305AEADDecrypt :: "nat option \<Rightarrow> bytes \<Rightarrow> bytes \<Rightarrow> bytes \<Rightarrow> bytes \<Rightarrow> nat \<times> bytes" where
  "LWChacha20Poly1305AEADDecrypt outLen key32 nonce12 data ad =
     (case outLen of None \<Rightarrow> (if length data < 16 then 0 else length data - 16, [])
      | Some n \<Rightarrow>
          if length data < 16 \<or> (length data - 16) div 64 \<ge> 2 ^ 32 - 1 \<or> n + 16 < length data then (0, [])
          else (let len = length data - 16; iv = drop 4 nonce12; counter = aead_counter nonce12;
                    macKey = LWChacha20 key32 iv (replicate 32 0) counter;
                    tag = aead_mac macKey ad (take len data);
                    len = (if tag_differs (take 16 (drop len data)) tag then 0 else len)
                in (len, LWChacha20 key32 iv (take len data) (counter + 1))))"

subsection \<open>scrypt\<close>

definition salsa_op :: "nat \<Rightarrow> nat \<Rightarrow> nat \<Rightarrow> nat \<Rightarrow> u32 list \<Rightarrow> u32 list" where
  "salsa_op d a b k x = x[d := x ! d XOR rol32 (x ! a + x ! b) k]"

text \<open>The assignments of a double round: \<open>(d, a, b, k)\<close> is \<^verbatim>\<open>xd ^= rol32(xa + xb, k)\<close>.\<close>

definition salsa_ops :: "(nat \<times> nat \<times> nat \<times> nat) list" where
  "salsa_ops = [
    (4, 0, 12, 7), (8, 4, 0, 9), (12, 8, 4, 13), (0, 12, 8, 18),
    (9, 5, 1, 7), (13, 9, 5, 9), (1, 13, 9, 13), (5, 1, 13, 18),
    (14, 10, 6, 7), (2, 14, 10, 9), (6, 2, 14, 13), (10, 6, 2, 18),
    (3, 15, 11, 7), (7, 3, 15, 9), (11, 7, 3, 13), (15, 11, 7, 18),
    (1, 0, 3, 7), (2, 1, 0, 9), (3, 2, 1, 13), (0, 3, 2, 18),
    (6, 5, 4, 7), (7, 6, 5, 9), (4, 7, 6, 13), (5, 4, 7, 18),
    (11, 10, 9, 7), (8, 11, 10, 9), (9, 8, 11, 13), (10, 9, 8, 18),
    (12, 15, 14, 7), (13, 12, 15, 9), (14, 13, 12, 13), (15, 14, 13, 18)]"

definition salsa20_8 :: "u32 list \<Rightarrow> u32 list" where
  "salsa20_8 b = map2 (+) b
     (((\<lambda>x. fold (\<lambda>(d, a, b, k). salsa_op d a b k) salsa_ops x) ^^ 4) b)"

text \<open>A block of 64 bytes is eight 64-bit words, and sixteen 32-bit words to \<open>salsa20_8\<close>.\<close>

definition salsa64 :: "u64 list \<Rightarrow> u64 list" where
  "salsa64 b = words64 8 (bytes32 (salsa20_8 (words32 16 (bytes64 b))))"

definition store :: "'a list \<Rightarrow> nat \<Rightarrow> 'a list \<Rightarrow> 'a list" where
  "store m k b = take k m @ b @ drop (k + length b) m"

definition xor_words :: "u64 list \<Rightarrow> u64 list \<Rightarrow> u64 list" where
  "xor_words a b = map2 (\<lambda>x y. x XOR y) a b"

definition blockmix_step :: "u64 list \<Rightarrow> nat \<Rightarrow> nat \<Rightarrow> u64 list \<times> u64 list \<Rightarrow> u64 list \<times> u64 list" where
  "blockmix_step src r n = (\<lambda>(b, dest).
     let i = 2 * n;
         b = salsa64 (xor_words b (take 8 (drop (i * 8) src)));
         dest = store dest (i * 4) b;
         b = salsa64 (xor_words b (take 8 (drop (i * 8 + 8) src)))
     in (b, store dest (i * 4 + r * 8) b))"

definition blockmix_salsa8 :: "u64 list \<Rightarrow> u64 list \<Rightarrow> nat \<Rightarrow> u64 list" where
  "blockmix_salsa8 dest src r =
     snd (fold (blockmix_step src r) [0..<r] (take 8 (drop ((2 * r - 1) * 8) src), dest))"

definition scrypt_fill :: "nat \<Rightarrow> nat \<Rightarrow> u64 list \<times> u64 list \<times> u64 list \<Rightarrow> u64 list \<times> u64 list \<times> u64 list" where
  "scrypt_fill r n = (\<lambda>(v, x, y).
     let j = 2 * n;
         v = store v (j * (16 * r)) x; y = blockmix_salsa8 y x r;
         v = store v ((j + 1) * (16 * r)) y; x = blockmix_salsa8 x y r
     in (v, x, y))"

definition scrypt_index :: "nat \<Rightarrow> nat \<Rightarrow> u64 list \<Rightarrow> nat" where
  "scrypt_index n r x = unat (x ! ((2 * r - 1) * 8) AND of_nat (n - 1))"

definition scrypt_mix :: "nat \<Rightarrow> nat \<Rightarrow> u64 list \<Rightarrow> u64 list \<times> u64 list \<Rightarrow> u64 list \<times> u64 list" where
  "scrypt_mix n r v = (\<lambda>(x, y).
     let x = xor_words x (take (16 * r) (drop (scrypt_index n r x * (16 * r)) v));
         y = blockmix_salsa8 y x r;
         y = xor_words y (take (16 * r) (drop (scrypt_index n r y * (16 * r)) v));
         x = blockmix_salsa8 x y r
     in (x, y))"

text \<open>
  \<open>None\<close>: the fill loop writes past \<open>v\<close>, because \<open>n\<close> is odd or because \<^verbatim>\<open>128*r*n\<close>, the size
  allocated, is computed in 32 bits.
\<close>

definition LWScrypt :: "nat \<Rightarrow> bytes \<Rightarrow> bytes \<Rightarrow> nat \<Rightarrow> nat \<Rightarrow> nat \<Rightarrow> bytes option" where
  "LWScrypt dkLen pw salt n r p =
     (if odd n \<or> 128 * r * n \<ge> 2 ^ 32 then None
      else (let b = LWPBKDF2 (128 * r * p) LWSHA256 32 pw salt 1;
                b = concat (map (\<lambda>i.
                  let x = words64 (16 * r) (drop (i * 128 * r) b);
                      zs = replicate (16 * r) 0;
                      (v, x, y) = fold (scrypt_fill r) [0..<n div 2] (replicate (16 * r * n) 0, x, zs);
                      (x, y) = fold (\<lambda>_. scrypt_mix n r v) [0..<n div 2] (x, y)
                  in bytes64 x) [0..<p])
            in Some (LWPBKDF2 dkLen LWSHA256 32 pw b 1)))"

subsection \<open>Functions of a hash\<close>

text \<open>\<open>Ti = U1 xor U2 xor ... xor Urounds\<close> with \<open>U(k+1) = hmac(pw, Uk)\<close>.\<close>

definition pbkdf2_T :: "(bytes \<Rightarrow> bytes) \<Rightarrow> nat \<Rightarrow> bytes \<Rightarrow> bytes \<Rightarrow> nat \<Rightarrow> nat \<Rightarrow> bytes" where
  "pbkdf2_T hash hashLen pw salt rounds i =
     (let U = (\<lambda>k. (LWHMAC hash hashLen pw ^^ k) (LWHMAC hash hashLen pw (salt @ UInt32SetLE (be32 (of_nat (i + 1))))))
      in foldl xor_bytes (U 0) (map U [1..<rounds]))"

text \<open>What the keyed functions rely on: digests of the declared length.\<close>

lemma div_split_off: "c < m \<Longrightarrow> (c + q * m) div m = q" for c m q :: nat
  by simp

locale hash_function =
  fixes hash :: "bytes \<Rightarrow> bytes" and hashLen :: nat
  assumes pos: "0 < hashLen" and len: "length (hash d) = hashLen"
begin

lemma length_hmac [simp]: "length (LWHMAC hash hashLen key data) = hashLen"
  by (simp add: LWHMAC_def Let_def len)

lemma length_xor_bytes [simp]: "length (xor_bytes a b) = min (length a) (length b)"
  by (simp add: xor_bytes_def)

lemma pbkdf2_rounds_foldl:
  "snd (pbkdf2_rounds mac (U, T) n) = foldl xor_bytes T (map (\<lambda>k. (mac ^^ k) U) [1..<Suc n])"
proof (induction n arbitrary: U T)
  case (Suc n)
  have "map (\<lambda>k. (mac ^^ k) U) [1..<Suc (Suc n)] = mac U # map (\<lambda>k. (mac ^^ k) (mac U)) [1..<Suc n]"
    by (simp add: upt_conv_Cons map_Suc_upt [symmetric] funpow_swap1 del: upt_Suc)
  then show ?case using Suc.IH by (simp add: Let_def del: upt_Suc)
qed simp

lemma pbkdf2_block_T: "0 < rounds \<Longrightarrow> pbkdf2_block hash hashLen pw salt rounds i = pbkdf2_T hash hashLen pw salt rounds i"
  by (simp add: pbkdf2_block_def pbkdf2_T_def Let_def pbkdf2_rounds_foldl del: upt_Suc)

lemma length_pbkdf2_rounds:
  "(\<And>x. length (mac x) = k) \<Longrightarrow> length T = k \<Longrightarrow> length (snd (pbkdf2_rounds mac (U, T) n)) = k"
  by (induction n arbitrary: U T) (auto simp: Let_def)

lemma length_pbkdf2_block: "length (pbkdf2_block hash hashLen pw salt rounds i) = hashLen"
  by (simp add: pbkdf2_block_def Let_def length_pbkdf2_rounds)

lemma pbkdf2_ok:
  assumes "0 < rounds"
  shows "LWPBKDF2 dkLen hash hashLen pw salt rounds =
      take dkLen (concat (map (pbkdf2_T hash hashLen pw salt rounds) [0..<(dkLen + hashLen - 1) div hashLen]))"
    and "length (LWPBKDF2 dkLen hash hashLen pw salt rounds) = dkLen"
proof -
  let ?B = "pbkdf2_block hash hashLen pw salt rounds" and ?q = "dkLen div hashLen" and ?r = "dkLen mod hashLen"
  let ?f = "\<lambda>i. take (if i * hashLen + hashLen \<le> dkLen then hashLen else dkLen mod hashLen) (?B i)"
  have T: "?B = pbkdf2_T hash hashLen pw salt rounds" using pbkdf2_block_T [OF assms] by (rule ext)
  have whole: "map ?f [0..<?q] = map ?B [0..<?q]"
  proof (rule map_cong [OF refl])
    fix i assume "i \<in> set [0..<?q]"
    then have "Suc i \<le> ?q" by simp
    then have "Suc i * hashLen \<le> dkLen" by (metis le_trans mult_le_mono1 div_times_less_eq_dividend)
    then show "?f i = ?B i" by (simp add: length_pbkdf2_block)
  qed
  have len: "length (concat (map ?B [0..<k])) = k * hashLen" for k
    by (simp add: length_concat o_def length_pbkdf2_block sum_list_triv)
  have eq: "dkLen = ?q * hashLen + ?r" by simp
  show main: "LWPBKDF2 dkLen hash hashLen pw salt rounds =
      take dkLen (concat (map (pbkdf2_T hash hashLen pw salt rounds) [0..<(dkLen + hashLen - 1) div hashLen]))"
  proof (cases "?r = 0")
    case True
    have "dkLen + hashLen - 1 = (hashLen - 1) + ?q * hashLen" using eq True pos by linarith
    moreover have "hashLen - 1 < hashLen" using pos by simp
    ultimately have n: "(dkLen + hashLen - 1) div hashLen = ?q" by (simp only: div_split_off)
    show ?thesis
      unfolding LWPBKDF2_def n whole T [symmetric] using len [of ?q] eq True by simp
  next
    case False
    have "dkLen + hashLen - 1 = (?r - 1) + Suc ?q * hashLen" using eq False pos by simp
    moreover have "?r - 1 < hashLen" using mod_less_divisor [OF pos, of dkLen] by linarith
    ultimately have n: "(dkLen + hashLen - 1) div hashLen = Suc ?q" by (simp only: div_split_off)
    have "\<not> ?q * hashLen + hashLen \<le> dkLen" using eq mod_less_divisor [OF pos, of dkLen] by linarith
    then have split: "map ?f [0..<Suc ?q] = map ?B [0..<?q] @ [take ?r (?B ?q)]" using whole by simp
    then show ?thesis
      unfolding LWPBKDF2_def n split T [symmetric] using len [of ?q] by (simp add: minus_div_mult_eq_mod)
  qed
  have "dkLen \<le> (dkLen + hashLen - 1) div hashLen * hashLen"
    using pos div_mult_mod_eq [of "dkLen + hashLen - 1" hashLen] mod_less_divisor [OF pos, of "dkLen + hashLen - 1"]
    by linarith
  then show "length (LWPBKDF2 dkLen hash hashLen pw salt rounds) = dkLen"
    unfolding main T [symmetric] by (simp add: len)
qed


lemma drbg_length: "drbg_out hash hashLen K V n = (out, V') \<Longrightarrow> length out = n * hashLen"
  by (induction n arbitrary: V V' out) (auto simp: Let_def split: prod.splits)

end

interpretation fn_sha1: hash_function LWSHA1 20 by unfold_locales simp_all
interpretation fn_sha256: hash_function LWSHA256 32 by unfold_locales simp_all
interpretation fn_sha512: hash_function LWSHA512 64 by unfold_locales simp_all

subsection \<open>ChaCha20\<close>

lemma xor_cancel [simp]: "(x XOR k) XOR k = x" for x :: "'a::len word"
  by (simp add: xor.assoc)

lemma chacha_loop_twice: "chacha_loop i s b (chacha_loop i s b xs) = xs"
  by (induction xs arbitrary: i s b) (simp_all add: Let_def split: prod.splits)

lemma length_chacha_loop [simp]: "length (chacha_loop i s b xs) = length xs"
  by (induction xs arbitrary: i s b) (simp_all add: Let_def split: prod.splits)

lemma length_chacha [lens, simp]: "length (LWChacha20 key iv data c) = length data"
  by (simp add: LWChacha20_def)

lemma chacha_twice: "LWChacha20 key iv (LWChacha20 key iv data c) c = data"
  by (simp add: LWChacha20_def chacha_loop_twice)

subsection \<open>Authenticated encryption\<close>

lemma length_poly_final [lens, simp]: "length (poly_final key h) = 16"
  by (cases h) (simp add: poly_final_def Let_def)

lemma length_aead_mac [lens, simp]: "length (aead_mac key ad ct) = 16"
  by (simp add: aead_mac_def Let_def)

lemma tag_differs_self [simp]: "\<not> tag_differs t t"
  by (simp add: tag_differs_def Let_def)

lemma or_zero_iff: "a OR b = 0 \<longleftrightarrow> a = 0 \<and> b = 0" for a b :: "'a::len word"
  by (auto simp: bit_eq_iff bit_simps)

lemma xor_zero_iff: "a XOR b = 0 \<longleftrightarrow> a = b" for a b :: "'a::len word"
  by (auto simp: bit_eq_iff bit_simps)

lemma words32_inj:
  assumes "length a = 4 * n" "length b = 4 * n" "\<forall>i < n. words32 n a ! i = words32 n b ! i"
  shows "a = b"
proof (rule chunks_eqI [where k = n and n = 4])
  show "\<forall>i < n. take 4 (drop (4 * i) a) = take 4 (drop (4 * i) b)"
  proof (intro allI impI)
    fix i assume i: "i < n"
    then have "4 \<le> length (drop (4 * i) a)" "4 \<le> length (drop (4 * i) b)" using assms(1,2) by auto
    then show "take 4 (drop (4 * i) a) = take 4 (drop (4 * i) b)"
      using assms(3) i by (intro le_get_inj [where ?'a = 32]) (auto simp: words32_def UIntGetLE_le_get)
  qed
qed (use assms in auto)

lemma tag_differs_iff:
  assumes "length a = 16" "length b = 16"
  shows "tag_differs a b \<longleftrightarrow> a \<noteq> b"
proof -
  have "\<not> tag_differs a b \<longleftrightarrow> (\<forall>i < 4. words32 4 a ! i = words32 4 b ! i)"
    by (auto simp: tag_differs_def Let_def or_zero_iff xor_zero_iff eval_nat_numeral less_Suc_eq)
  then show ?thesis using words32_inj [of a 4 b] assms by auto
qed

text \<open>What a decryption accepts: a tag that is the authenticator of the ciphertext before it.\<close>

lemma decrypt_accepts:
  assumes "length data = n + 16" "n div 64 < 2 ^ 32 - 1" "n \<le> outLen"
  shows "LWChacha20Poly1305AEADDecrypt (Some outLen) key nonce data ad =
    (if drop n data = aead_mac (LWChacha20 key (drop 4 nonce) (replicate 32 0) (aead_counter nonce)) ad (take n data)
     then (n, LWChacha20 key (drop 4 nonce) (take n data) (aead_counter nonce + 1)) else (0, []))"
proof -
  have "LWChacha20 key iv [] c = []" for iv c by (simp add: LWChacha20_def)
  then show ?thesis
    using assms by (simp add: LWChacha20Poly1305AEADDecrypt_def Let_def tag_differs_iff)
qed

text \<open>
  C28. Decrypting what was encrypted under the same key, nonce and associated data gives the
  message back, for every message below the counter limit and buffers that are large enough.
\<close>

theorem aead_roundtrip:
  assumes "length data div 64 < 2 ^ 32 - 1" "length data + 16 \<le> n" "length data \<le> m"
  shows "fst (LWChacha20Poly1305AEADEncrypt (Some n) key nonce data ad) = length data + 16 \<and>
    length (snd (LWChacha20Poly1305AEADEncrypt (Some n) key nonce data ad)) = length data + 16 \<and>
    LWChacha20Poly1305AEADDecrypt (Some m) key nonce
      (snd (LWChacha20Poly1305AEADEncrypt (Some n) key nonce data ad)) ad = (length data, data)"
proof -
  let ?mac = "LWChacha20 key (drop 4 nonce) (replicate 32 0) (aead_counter nonce)"
  let ?ct = "LWChacha20 key (drop 4 nonce) data (aead_counter nonce + 1)"
  have "LWChacha20Poly1305AEADEncrypt (Some n) key nonce data ad = (length data + 16, ?ct @ aead_mac ?mac ad ?ct)"
    using assms by (simp add: LWChacha20Poly1305AEADEncrypt_def Let_def)
  then show ?thesis
    using assms by (simp add: decrypt_accepts [of _ "length data"] chacha_twice)
qed

theorem aead_roundtrip_witness:
  "LWChacha20Poly1305AEADDecrypt (Some 20) (replicate 32 7) (replicate 12 9)
     (snd (LWChacha20Poly1305AEADEncrypt (Some 20) (replicate 32 7) (replicate 12 9) [1, 2, 3] [4])) [4] =
   (3, [1, 2, 3])"
  using aead_roundtrip [of "[1, 2, 3]" 20 20 "replicate 32 7" "replicate 12 9" "[4]"] by simp

text \<open>
  C29. The decryption only releases authenticated messages: it writes as many bytes as the number it
  returns; when that is not zero, the input is exactly what the encryption makes of the message it
  wrote; and for an input that the encryption makes of no message it returns zero and writes nothing.
\<close>

theorem aead_authentic:
  "length (snd (LWChacha20Poly1305AEADDecrypt (Some m) key nonce data ad)) =
      fst (LWChacha20Poly1305AEADDecrypt (Some m) key nonce data ad) \<and>
   (fst (LWChacha20Poly1305AEADDecrypt (Some m) key nonce data ad) \<noteq> 0 \<longrightarrow>
      LWChacha20Poly1305AEADEncrypt (Some (length data)) key nonce
        (snd (LWChacha20Poly1305AEADDecrypt (Some m) key nonce data ad)) ad = (length data, data)) \<and>
   ((\<forall>msg. LWChacha20Poly1305AEADEncrypt (Some (length data)) key nonce msg ad \<noteq> (length data, data)) \<longrightarrow>
      LWChacha20Poly1305AEADDecrypt (Some m) key nonce data ad = (0, []))"
proof -
  let ?d = "LWChacha20Poly1305AEADDecrypt (Some m) key nonce data ad"
  have written: "length (snd ?d) = fst ?d"
    by (simp add: LWChacha20Poly1305AEADDecrypt_def Let_def)
  have released: "LWChacha20Poly1305AEADEncrypt (Some (length data)) key nonce (snd ?d) ad = (length data, data)" if "fst ?d \<noteq> 0"
  proof -
    have len: "16 \<le> length data" "(length data - 16) div 64 < 2 ^ 32 - 1" "length data \<le> m + 16"
      using that by (auto simp: LWChacha20Poly1305AEADDecrypt_def not_le split: if_splits)
    define n where "n = length data - 16"
    have n: "length data = n + 16" "n div 64 < 2 ^ 32 - 1" "n \<le> m" using len by (auto simp: n_def)
    note dec = decrypt_accepts [OF n, of key nonce ad]
    have tag: "drop n data = aead_mac (LWChacha20 key (drop 4 nonce) (replicate 32 0) (aead_counter nonce)) ad (take n data)"
      using that unfolding dec by (auto split: if_splits)
    show ?thesis
      unfolding dec using n tag by (simp add: LWChacha20Poly1305AEADEncrypt_def Let_def chacha_twice flip: tag)
  qed
  have "?d = (0, [])" if "\<forall>msg. LWChacha20Poly1305AEADEncrypt (Some (length data)) key nonce msg ad \<noteq> (length data, data)"
    using written released that by (metis length_0_conv prod.collapse)
  then show ?thesis using written released by blast
qed

lemma encrypted_tag:
  assumes "LWChacha20Poly1305AEADEncrypt (Some n) key nonce msg ad = (length ct + 16, ct @ tag)"
  shows "tag = aead_mac (LWChacha20 key (drop 4 nonce) (replicate 32 0) (aead_counter nonce)) ad ct"
proof -
  let ?ct = "LWChacha20 key (drop 4 nonce) msg (aead_counter nonce + 1)"
  have e: "length msg = length ct" "?ct @ aead_mac (LWChacha20 key (drop 4 nonce) (replicate 32 0) (aead_counter nonce)) ad ?ct = ct @ tag"
    using assms by (simp_all add: LWChacha20Poly1305AEADEncrypt_def Let_def split: if_splits)
  then have "?ct = ct" by (simp add: append_eq_append_conv)
  then show ?thesis using e(2) by simp
qed

text \<open>A ciphertext; and one whose tag is not the one of its bytes.\<close>

theorem aead_authentic_witness:
  "LWChacha20Poly1305AEADEncrypt (Some 19) [] []
     (snd (LWChacha20Poly1305AEADDecrypt (Some 3) [] []
       (snd (LWChacha20Poly1305AEADEncrypt (Some 19) [] [] [1, 2, 3] [])) [])) [] =
   (19, snd (LWChacha20Poly1305AEADEncrypt (Some 19) [] [] [1, 2, 3] [])) \<and>
   (\<exists>tag. length tag = 16 \<and> LWChacha20Poly1305AEADDecrypt (Some 3) (replicate 32 7) (replicate 12 9) ([1, 2, 3] @ tag) [] = (0, []))"
proof
  let ?c = "snd (LWChacha20Poly1305AEADEncrypt (Some 19) [] [] [1, 2, 3] [])"
  have len: "length ?c = 19" by (simp add: LWChacha20Poly1305AEADEncrypt_def Let_def)
  have "LWChacha20Poly1305AEADDecrypt (Some 3) [] [] ?c [] = (3, [1, 2, 3])"
    using len by (simp add: decrypt_accepts [of ?c 3]) (simp add: LWChacha20Poly1305AEADEncrypt_def Let_def chacha_twice)
  then show "LWChacha20Poly1305AEADEncrypt (Some 19) [] [] (snd (LWChacha20Poly1305AEADDecrypt (Some 3) [] [] ?c [])) [] = (19, ?c)"
    using aead_authentic [of 3 "[]" "[]" ?c "[]"] len by simp
next
  let ?key = "replicate 32 7 :: bytes" and ?nonce = "replicate 12 9 :: bytes"
  let ?mac = "aead_mac (LWChacha20 ?key (drop 4 ?nonce) (replicate 32 0) (aead_counter ?nonce)) [] [1, 2, 3]"
  have "length (replicate 16 (0 :: u8)) = 16" "length (replicate 16 (1 :: u8)) = 16" "replicate 16 (0 :: u8) \<noteq> replicate 16 1" by simp_all
  then obtain tag where tag: "length tag = 16" "tag \<noteq> ?mac" by metis
  have "LWChacha20Poly1305AEADEncrypt (Some (length ([1, 2, 3] @ tag))) ?key ?nonce msg [] \<noteq> (length ([1, 2, 3] @ tag), [1, 2, 3] @ tag)" for msg
    using encrypted_tag [of "length ([1, 2, 3] @ tag)" ?key ?nonce msg "[]" "[1, 2, 3]" tag] tag by auto
  then show "\<exists>tag. length tag = 16 \<and> LWChacha20Poly1305AEADDecrypt (Some 3) ?key ?nonce ([1, 2, 3] @ tag) [] = (0, [])"
    using aead_authentic [of 3 ?key ?nonce "[1, 2, 3] @ tag" "[]"] tag(1) by blast
qed

text \<open>
  PBKDF2 over SHA-512 (mnemonics) and over SHA-256 (scrypt) fills the derived key exactly, with
  the leading bytes of the blocks \<open>U1 xor U2 xor ... xor Urounds\<close>, also when the key length is not
  a multiple of the digest length.
\<close>

theorem pbkdf2_spec:
  assumes "0 < rounds"
  shows "length (LWPBKDF2 dkLen LWSHA512 64 pw salt rounds) = dkLen \<and>
    LWPBKDF2 dkLen LWSHA512 64 pw salt rounds =
      take dkLen (concat (map (pbkdf2_T LWSHA512 64 pw salt rounds) [0..<(dkLen + 64 - 1) div 64])) \<and>
    LWPBKDF2 dkLen LWSHA256 32 pw salt rounds =
      take dkLen (concat (map (pbkdf2_T LWSHA256 32 pw salt rounds) [0..<(dkLen + 32 - 1) div 32]))"
  using fn_sha512.pbkdf2_ok [OF assms] fn_sha256.pbkdf2_ok [OF assms] by blast

theorem pbkdf2_spec_witness:
  "length (LWPBKDF2 70 LWSHA512 64 [1] [2] 2048) = 70 \<and>
    LWPBKDF2 70 LWSHA512 64 [1] [2] 2048 =
      take 70 (concat (map (pbkdf2_T LWSHA512 64 [1] [2] 2048) [0..<(70 + 64 - 1) div 64])) \<and>
    LWPBKDF2 70 LWSHA256 32 [1] [2] 2048 =
      take 70 (concat (map (pbkdf2_T LWSHA256 32 [1] [2] 2048) [0..<(70 + 32 - 1) div 32]))"
  by (rule pbkdf2_spec) simp

end
