(* ===== verification/LW_Base58.thy ===== *)
theory LW_Base58
  imports LW_Crypto
begin

text \<open>
  Model of \<^verbatim>\<open>LWBase58.c\<close>. The conversion buffers hold one digit per byte, most significant first,
  and the inner loops carry from the last to the first digit in 32 bits, so an inner loop is a
  \<open>foldr\<close>. A size argument is \<open>None\<close> when the output pointer is NULL; the result is what is (or
  would be) written, \<open>None\<close> or empty when the function returns 0. The theorems show that the
  buffers are large enough, whatever the input, and that decoding inverts encoding.
\<close>

definition fits_in :: "nat \<Rightarrow> nat option \<Rightarrow> bool" where
  "fits_in n cap = (case cap of None \<Rightarrow> True | Some k \<Rightarrow> n \<le> k)"

definition b58_chars :: string where
  "b58_chars = ''123456789ABCDEFGHJKLMNPQRSTUVWXYZabcdefghijkmnopqrstuvwxyz''"

subsection \<open>Encoding\<close>

definition b58_digit :: "u8 \<Rightarrow> u32 \<times> bytes \<Rightarrow> u32 \<times> bytes" where
  "b58_digit b = (\<lambda>(carry, out).
     let carry = carry + push_bit 8 (ucast b) in (carry div 58, ucast (carry mod 58) # out))"

definition b58_shift_in :: "bytes \<Rightarrow> u8 \<Rightarrow> bytes" where
  "b58_shift_in buf d = snd (foldr b58_digit buf (ucast d, []))"

definition LWBase58Encode :: "nat option \<Rightarrow> bytes \<Rightarrow> string option" where
  "LWBase58Encode strLen data =
     (let zcount = length (takeWhile (\<lambda>b. b = 0) data);
          rest = drop zcount data;
          buf = foldl b58_shift_in (replicate (length rest * 138 div 100 + 1) 0) rest;
          str = replicate zcount (b58_chars ! 0) @ map (\<lambda>d. b58_chars ! unat d) (dropWhile (\<lambda>b. b = 0) buf)
      in if fits_in (length str + 1) strLen then Some str else None)"

subsection \<open>Decoding\<close>

definition char_in :: "char \<Rightarrow> char \<Rightarrow> char \<Rightarrow> bool" where
  "char_in c a b \<longleftrightarrow> of_char a \<le> (of_char c :: nat) \<and> (of_char c :: nat) \<le> of_char b"

definition b58_value :: "char \<Rightarrow> u32" where
  "b58_value c =
     (let carry = of_char c in
      if char_in c CHR ''1'' CHR ''9'' then carry - of_char CHR ''1''
      else if char_in c CHR ''A'' CHR ''H'' then carry + 9 - of_char CHR ''A''
      else if char_in c CHR ''J'' CHR ''N'' then carry + 17 - of_char CHR ''J''
      else if char_in c CHR ''P'' CHR ''Z'' then carry + 22 - of_char CHR ''P''
      else if char_in c CHR ''a'' CHR ''k'' then carry + 33 - of_char CHR ''a''
      else if char_in c CHR ''m'' CHR ''z'' then carry + 44 - of_char CHR ''m''
      else 0xffffffff)"

definition b256_digit :: "u8 \<Rightarrow> u32 \<times> bytes \<Rightarrow> u32 \<times> bytes" where
  "b256_digit b = (\<lambda>(carry, out).
     let carry = carry + ucast b * 58 in (drop_bit 8 carry, ucast (carry AND 0xff) # out))"

definition b256_shift_in :: "bytes \<Rightarrow> u32 \<Rightarrow> bytes" where
  "b256_shift_in buf carry = snd (foldr b256_digit buf (carry, []))"

text \<open>The loop stops at the first character that is no base58 digit; what came before stays.\<close>

fun b58_decode_loop :: "bytes \<Rightarrow> string \<Rightarrow> bytes" where
  "b58_decode_loop buf [] = buf"
| "b58_decode_loop buf (c # cs) =
     (if b58_value c \<ge> 58 then buf else b58_decode_loop (b256_shift_in buf (b58_value c)) cs)"

definition LWBase58Decode :: "nat option \<Rightarrow> string \<Rightarrow> bytes option" where
  "LWBase58Decode dataLen str =
     (let zcount = length (takeWhile (\<lambda>c. c = CHR ''1'') str);
          rest = drop zcount str;
          buf = b58_decode_loop (replicate (length rest * 733 div 1000 + 1) 0) rest;
          data = replicate zcount 0 @ dropWhile (\<lambda>b. b = 0) buf
      in if fits_in (length data) dataLen then Some data else None)"

subsection \<open>With a checksum\<close>

definition LWBase58CheckEncode :: "nat option \<Rightarrow> bytes \<Rightarrow> string option" where
  "LWBase58CheckEncode strLen data = LWBase58Encode strLen (data @ take 4 (LWSHA256_2 data))"

definition LWBase58CheckDecode :: "nat option \<Rightarrow> string \<Rightarrow> bytes" where
  "LWBase58CheckDecode dataLen str =
     (case LWBase58Decode (Some (length str)) str of None \<Rightarrow> []
      | Some buf \<Rightarrow>
          if length buf \<ge> 4 then
            (let len = length buf - 4;
                 payload = (if take 4 (drop len buf) \<noteq> take 4 (LWSHA256_2 (take len buf)) then [] else take len buf)
             in if fits_in (length payload) dataLen then payload else [])
          else [])"

subsection \<open>Positional notation\<close>

definition val :: "nat \<Rightarrow> nat list \<Rightarrow> nat" where
  "val B ds = foldl (\<lambda>a d. a * B + d) 0 ds"

lemma val_foldl: "foldl (\<lambda>a d. a * B + d) a ds = a * B ^ length ds + val B ds"
proof (induction ds arbitrary: a)
  case (Cons d ds)
  have "foldl (\<lambda>a d. a * B + d) (a * B + d) ds = (a * B + d) * B ^ length ds + val B ds" by (rule Cons)
  moreover have "val B (d # ds) = d * B ^ length ds + val B ds" using Cons [of d] by (simp add: val_def)
  ultimately show ?case by (simp add: algebra_simps)
qed (simp add: val_def)

lemma val_simps [simp]: "val B [] = 0" "val B (d # ds) = d * B ^ length ds + val B ds"
  "val B (ds @ es) = val B ds * B ^ length es + val B es"
  using val_foldl [of B d ds] val_foldl [of B "val B ds" es] by (simp_all add: val_def)

lemma val_less: "\<forall>d \<in> set ds. d < B \<Longrightarrow> val B ds < B ^ length ds"
proof (induction ds)
  case (Cons d ds)
  have "(d + 1) * B ^ length ds \<le> B * B ^ length ds" using Cons.prems by (intro mult_le_mono1) auto
  then show ?case using Cons by (simp add: algebra_simps)
qed simp

lemma val_ge: "ds \<noteq> [] \<Longrightarrow> hd ds \<noteq> 0 \<Longrightarrow> B ^ (length ds - 1) \<le> val B ds"
  by (cases ds) (auto intro: trans_le_add1)

lemma val_zeros [simp]: "val B (replicate n 0) = 0"
  by (induction n) simp_all

lemma val_strip: "val B (dropWhile (\<lambda>d. d = 0) ds) = val B ds"
  by (induction ds) simp_all

lemma div_digit: "v < p \<Longrightarrow> (d * p + v) div p = d" for d p v :: nat
  using div_mult_self1 [of p v d] by (simp add: add.commute)

lemma val_inj:
  "length ds = length es \<Longrightarrow> \<forall>d \<in> set ds. d < B \<Longrightarrow> \<forall>d \<in> set es. d < B \<Longrightarrow> val B ds = val B es \<Longrightarrow> ds = es"
proof (induction ds es rule: list_induct2)
  case (Cons d ds e es)
  have *: "d * B ^ length es + val B ds = e * B ^ length es + val B es" "val B ds < B ^ length es" "val B es < B ^ length es"
    using Cons val_less [of ds B] val_less [of es B] by auto
  then have "(d * B ^ length es + val B ds) div B ^ length es = (e * B ^ length es + val B es) div B ^ length es" by simp
  then have "d = e" using *(2,3) by (simp only: div_digit)
  then show ?case using * Cons by simp
qed simp

lemma val_unique:
  assumes B: "1 < B" and ds: "\<forall>d \<in> set ds. d < B" "ds = [] \<or> hd ds \<noteq> 0"
    and es: "\<forall>d \<in> set es. d < B" "es = [] \<or> hd es \<noteq> 0" and eq: "val B ds = val B es"
  shows "ds = es"
proof -
  have le: "length xs \<le> length ys" if "\<forall>d \<in> set ys. d < B" "xs = [] \<or> hd xs \<noteq> 0" "val B xs = val B ys" for xs ys
  proof (cases "xs = []")
    case False
    then have "B ^ (length xs - 1) < B ^ length ys"
      using val_ge [of xs B] val_less [OF that(1)] that by auto
    then show ?thesis using B by (simp add: power_strict_increasing_iff)
  qed simp
  have "length ds = length es"
    using le [OF es(1) ds(2) eq] le [OF ds(1) es(2) eq [symmetric]] by (rule antisym)
  then show ?thesis using ds(1) es(1) eq by (rule val_inj)
qed

text \<open>
  Base conversion with a digit buffer: one step multiplies the buffer by \<open>M\<close> and adds a digit,
  in base \<open>B\<close>, carrying from the last digit to the first.
\<close>

locale radix =
  fixes B M :: nat and digit :: "u8 \<Rightarrow> u32 \<times> bytes \<Rightarrow> u32 \<times> bytes"
  assumes B: "1 < B" and M: "0 < M"
    and digit_ok: "unat b < B \<Longrightarrow> unat c < M \<Longrightarrow> \<exists>c' d. digit b (c, out) = (c', d # out) \<and>
      unat c' = (unat c + unat b * M) div B \<and> unat d = (unat c + unat b * M) mod B"
begin

lemma carry_less: "c < M \<Longrightarrow> b < B \<Longrightarrow> (c + b * M) div B < M"
proof -
  assume "c < M" "b < B"
  then have "c + b * M < (b + 1) * M" by simp
  also have "\<dots> \<le> B * M" using \<open>b < B\<close> by (intro mult_le_mono1) simp
  finally show ?thesis using B by (simp add: div_less_iff_less_mult mult.commute)
qed

lemma shift_ok:
  assumes "\<forall>b \<in> set buf. unat b < B" "unat c < M"
  shows "\<exists>c' out. foldr digit buf (c, []) = (c', out) \<and> length out = length buf \<and> unat c' < M \<and>
    (\<forall>b \<in> set out. unat b < B) \<and>
    val B (map unat out) + unat c' * B ^ length buf = val B (map unat buf) * M + unat c"
  using assms
proof (induction buf)
  case (Cons b buf)
  then obtain c1 out where IH: "foldr digit buf (c, []) = (c1, out)" "length out = length buf" "unat c1 < M"
    "\<forall>b \<in> set out. unat b < B" "val B (map unat out) + unat c1 * B ^ length buf = val B (map unat buf) * M + unat c"
    by auto
  have b: "unat b < B" using Cons.prems by simp
  obtain c' d where d: "digit b (c1, out) = (c', d # out)" "unat c' = (unat c1 + unat b * M) div B"
    "unat d = (unat c1 + unat b * M) mod B"
    using digit_ok [OF b IH(3)] by blast
  have "unat d + unat c' * B = unat c1 + unat b * M" using d(2,3) by simp
  then have "(unat d + unat c' * B) * B ^ length buf = (unat c1 + unat b * M) * B ^ length buf" by simp
  then have "unat d * B ^ length buf + val B (map unat out) + unat c' * B ^ length (b # buf) =
      (unat b * B ^ length buf + val B (map unat buf)) * M + unat c"
    using IH(5) by (simp add: algebra_simps)
  then show ?case
    using IH d carry_less [OF IH(3) b] B by auto
qed simp

text \<open>No carry is lost as long as the number fits into the buffer.\<close>

lemma shift_exact:
  assumes "\<forall>b \<in> set buf. unat b < B" "unat c < M" "val B (map unat buf) * M + unat c < B ^ length buf"
  shows "length (snd (foldr digit buf (c, []))) = length buf"
    "\<forall>b \<in> set (snd (foldr digit buf (c, []))). unat b < B"
    "val B (map unat (snd (foldr digit buf (c, [])))) = val B (map unat buf) * M + unat c"
proof -
  obtain c' out where o: "foldr digit buf (c, []) = (c', out)" "length out = length buf" "\<forall>b \<in> set out. unat b < B"
    "val B (map unat out) + unat c' * B ^ length buf = val B (map unat buf) * M + unat c"
    using shift_ok [OF assms(1,2)] by blast
  have "unat c' = 0" using o(4) assms(3) by (cases "unat c'") auto
  then show "length (snd (foldr digit buf (c, []))) = length buf"
    "\<forall>b \<in> set (snd (foldr digit buf (c, []))). unat b < B"
    "val B (map unat (snd (foldr digit buf (c, [])))) = val B (map unat buf) * M + unat c"
    using o by simp_all
qed

lemma convert_ok:
  assumes "\<forall>c \<in> set cs. unat c < M" "\<forall>b \<in> set buf. unat b < B"
    "val B (map unat buf) * M ^ length cs + val M (map unat cs) < B ^ length buf"
  defines "out \<equiv> foldl (\<lambda>buf c. snd (foldr digit buf (c, []))) buf cs"
  shows "length out = length buf \<and> (\<forall>b \<in> set out. unat b < B) \<and>
    val B (map unat out) = val B (map unat buf) * M ^ length cs + val M (map unat cs)"
  using assms(1-3) unfolding out_def
proof (induction cs arbitrary: buf)
  case (Cons c cs)
  let ?buf = "snd (foldr digit buf (c, []))"
  have "(val B (map unat buf) * M + unat c) * 1 \<le> (val B (map unat buf) * M + unat c) * M ^ length cs"
    using M by (intro mult_le_mono2) simp
  also have "\<dots> \<le> val B (map unat buf) * M ^ length (c # cs) + val M (map unat (c # cs))"
    by (simp add: algebra_simps)
  also have "\<dots> < B ^ length buf" by (rule Cons.prems(3))
  finally have "val B (map unat buf) * M + unat c < B ^ length buf" by simp
  note step = shift_exact [OF Cons.prems(2) _ this]
  have c: "unat c < M" using Cons.prems(1) by simp
  have "val B (map unat ?buf) * M ^ length cs + val M (map unat cs) =
      val B (map unat buf) * M ^ length (c # cs) + val M (map unat (c # cs))"
    by (simp add: step(3) [OF c] algebra_simps)
  then show ?case
    using Cons.IH [of ?buf] Cons.prems step [OF c] by simp
qed simp

end

lemma unat_ucast_u8 [simp]: "unat (ucast (b :: u8) :: u32) = unat b"
  by (simp add: unsigned_ucast_eq take_bit_nat_eq_self [OF less_trans [OF unat_u8_less]])

lemma unat_u8_u32: "unat (x :: u32) < 256 \<Longrightarrow> unat (ucast x :: u8) = unat x"
  by (simp add: unsigned_ucast_eq take_bit_nat_eq_self)

lemma unat_add_small: "unat x + unat y < 2 ^ 32 \<Longrightarrow> unat (x + y) = unat x + unat y" for x y :: u32
  by (rule unat_add_lem [THEN iffD1]) simp

lemma unat_mult_small: "unat x * unat y < 2 ^ 32 \<Longrightarrow> unat (x * y) = unat x * unat y" for x y :: u32
  by (rule unat_mult_lem [THEN iffD1]) simp

lemma unat_div_mod: "unat (x div y) = unat x div unat y" "unat (x mod y) = unat x mod unat y" for x y :: u32
  by (simp_all add: unat_div unat_mod)

interpretation b58: radix 58 256 b58_digit
proof
  fix b :: u8 and c :: u32 and out
  assume b: "unat b < 58" and c: "unat c < 256"
  have "unat (push_bit 8 (ucast b :: u32)) = unat b * 256"
    using b unat_mult_small [of "ucast b" 256] by (simp add: push_bit_eq_mult)
  then have u: "unat (c + push_bit 8 (ucast b)) = unat c + unat b * 256"
    using b c by (subst unat_add_small) auto
  have "unat (ucast ((c + push_bit 8 (ucast b)) mod 58) :: u8) = (unat c + unat b * 256) mod 58"
    by (subst unat_u8_u32) (simp_all add: unat_div_mod u less_trans [OF mod_less_divisor])
  then show "\<exists>c' d. b58_digit b (c, out) = (c', d # out) \<and> unat c' = (unat c + unat b * 256) div 58 \<and>
      unat d = (unat c + unat b * 256) mod 58"
    by (simp add: b58_digit_def Let_def unat_div_mod u)
qed auto

interpretation b256: radix 256 58 b256_digit
proof
  fix b :: u8 and c :: u32 and out
  assume b: "unat b < 256" and c: "unat c < 58"
  have mul: "unat (ucast b * 58 :: u32) = unat b * 58"
    using b unat_mult_small [of "ucast b" 58] by (auto simp: less_trans [of _ 14848])
  have "unat c + unat b * 58 < 256 * 58 + 58" using c unat_u8_less [of b] by linarith
  then have u: "unat (c + ucast b * 58) = unat c + unat b * 58"
    by (subst unat_add_small) (simp_all add: mul)
  have "unat (ucast (c + ucast b * 58) :: u8) = (unat c + unat b * 58) mod 256"
    by (simp add: unsigned_ucast_eq take_bit_eq_mod [where ?'a = nat] u)
  moreover have "unat (drop_bit 8 (c + ucast b * 58)) = (unat c + unat b * 58) div 256"
    by (subst unat_drop_bit_eq) (simp add: drop_bit_eq_div u)
  ultimately show "\<exists>c' d. b256_digit b (c, out) = (c', d # out) \<and> unat c' = (unat c + unat b * 58) div 256 \<and>
      unat d = (unat c + unat b * 58) mod 256"
    by (simp add: b256_digit_def Let_def)
qed auto


subsection \<open>The buffers are large enough\<close>

lemma power_ratio_le:
  fixes a b :: nat
  assumes "a ^ p \<le> b ^ q" "q * n \<le> p * m" "0 < p" "1 \<le> b"
  shows "a ^ n \<le> b ^ m"
proof -
  have "(a ^ n) ^ p = (a ^ p) ^ n" by (simp add: power_mult [symmetric] mult.commute)
  also have "\<dots> \<le> (b ^ q) ^ n" by (rule power_mono [OF assms(1)]) simp
  also have "\<dots> = b ^ (q * n)" by (simp add: power_mult)
  also have "\<dots> \<le> b ^ (p * m)" using assms(2,4) by (rule power_increasing)
  also have "\<dots> = (b ^ m) ^ p" by (simp add: power_mult [symmetric] mult.commute)
  finally show ?thesis using assms(3) by (metis power_mono_iff zero_le)
qed

lemma encode_buffer: "256 ^ n \<le> (58 :: nat) ^ (n * 138 div 100 + 1)"
proof (rule power_ratio_le [where p = 100 and q = 138])
  show "138 * n \<le> 100 * (n * 138 div 100 + 1)" by simp
qed simp_all

lemma decode_buffer: "58 ^ n \<le> (256 :: nat) ^ (n * 733 div 1000 + 1)"
proof (rule power_ratio_le [where p = 71 and q = 52])
  have "733 * n < 1000 * (n * 733 div 1000 + 1)" by simp
  then show "52 * n \<le> 71 * (n * 733 div 1000 + 1)" by linarith
qed simp_all

subsection \<open>Round trip\<close>

definition val8 :: "nat \<Rightarrow> bytes \<Rightarrow> nat" where
  "val8 B b = val B (map unat b)"

lemma val8_strip: "val8 B (dropWhile (\<lambda>b. b = 0) ds) = val8 B ds"
  by (induction ds) (simp_all add: val8_def unat_eq_0)

lemma encode_digits:
  fixes rest :: bytes
  defines "buf \<equiv> foldl b58_shift_in (replicate (length rest * 138 div 100 + 1) 0) rest"
  shows "\<forall>d \<in> set buf. unat d < 58" "val8 58 buf = val8 256 rest"
proof -
  have "b58_shift_in = (\<lambda>buf d. snd (foldr b58_digit buf (ucast d, [])))"
    by (simp add: b58_shift_in_def fun_eq_iff)
  then have "buf = foldl (\<lambda>buf c. snd (foldr b58_digit buf (c, [])))
      (replicate (length rest * 138 div 100 + 1) 0) (map ucast rest)"
    by (simp add: buf_def foldl_map)
  moreover have "val 256 (map unat rest) < 256 ^ length rest"
    using val_less [of "map unat rest" 256] by simp
  then have "val 256 (map unat rest) < 58 ^ (length rest * 138 div 100 + 1)"
    using encode_buffer by (rule less_le_trans)
  ultimately have "(\<forall>d \<in> set buf. unat d < 58) \<and> val 58 (map unat buf) = val 256 (map unat rest)"
    using b58.convert_ok [of "map ucast rest" "replicate (length rest * 138 div 100 + 1) 0"] by (simp add: o_def)
  then show "\<forall>d \<in> set buf. unat d < 58" "val8 58 buf = val8 256 rest" by (simp_all add: val8_def)
qed

lemma b58_value_chars: "d < 58 \<Longrightarrow> b58_value (b58_chars ! d) = of_nat d"
proof -
  have "\<forall>d \<in> set [0..<58]. b58_value (b58_chars ! d) = of_nat d" by code_simp
  then show "d < 58 \<Longrightarrow> b58_value (b58_chars ! d) = of_nat d" by simp
qed

lemma decode_loop_valid: "\<forall>c \<in> set cs. b58_value c < 58 \<Longrightarrow>
    b58_decode_loop buf cs = foldl b256_shift_in buf (map b58_value cs)"
  by (induction cs arbitrary: buf) (auto simp: not_le)

lemma decode_digits:
  fixes ds :: "u32 list"
  assumes "\<forall>d \<in> set ds. unat d < 58" "length ds * 733 div 1000 + 1 \<le> n"
  shows "val8 256 (foldl b256_shift_in (replicate n 0) ds) = val 58 (map unat ds)"
proof -
  have shift: "b256_shift_in = (\<lambda>buf c. snd (foldr b256_digit buf (c, [])))"
    by (simp add: b256_shift_in_def fun_eq_iff)
  have "val 58 (map unat ds) < 58 ^ length ds"
    using val_less [of "map unat ds" 58] assms(1) by simp
  also have "(58 :: nat) ^ length ds \<le> 256 ^ (length ds * 733 div 1000 + 1)" by (rule decode_buffer)
  also have "\<dots> \<le> 256 ^ n" using assms(2) by (rule power_increasing) simp
  finally show ?thesis
    using b256.convert_ok [of ds "replicate n 0"] assms(1) by (simp add: val8_def shift)
qed

lemma dropWhile_head: "dropWhile P xs = [] \<or> \<not> P (hd (dropWhile P xs))"
  by (metis hd_dropWhile)

lemma strip_unique:
  "val8 256 a = val8 256 b \<Longrightarrow> dropWhile (\<lambda>x. x = 0) a = dropWhile (\<lambda>x. x = 0) b"
proof -
  assume eq: "val8 256 a = val8 256 b"
  let ?s = "dropWhile (\<lambda>x :: u8. x = 0)"
  have hd: "map unat (?s a) = [] \<or> hd (map unat (?s a)) \<noteq> 0" for a
    using dropWhile_head [of "\<lambda>x. x = 0" a] by (cases "?s a") (auto simp: unat_eq_0)
  have "map unat (?s a) = map unat (?s b)"
    using eq val8_strip [of 256 a] val8_strip [of 256 b]
    by (intro val_unique [of 256, OF _ _ hd _ hd]) (auto simp: val8_def)
  moreover have "inj (unat :: u8 \<Rightarrow> nat)" by (rule inj_unsigned)
  ultimately show ?thesis by (rule map_injective)
qed

lemma decode_encode_rest:
  fixes rest :: bytes
  assumes rest: "rest = [] \<or> hd rest \<noteq> 0"
  defines "ds \<equiv> dropWhile (\<lambda>b. b = 0) (foldl b58_shift_in (replicate (length rest * 138 div 100 + 1) 0) rest)"
  shows "dropWhile (\<lambda>b. b = 0) (b58_decode_loop (replicate (length ds * 733 div 1000 + 1) 0) (map (\<lambda>d. b58_chars ! unat d) ds)) = rest"
    and "length rest \<le> length ds"
proof -
  have ds: "\<forall>d \<in> set ds. unat d < 58" "val8 58 ds = val8 256 rest"
    using encode_digits [of rest] by (auto simp: ds_def val8_strip dest: set_dropWhileD)
  have vals: "map b58_value (map (\<lambda>d. b58_chars ! unat d) ds) = map ucast ds"
    using ds(1) by (auto simp: b58_value_chars)
  have small: "\<forall>d \<in> set (map ucast ds :: u32 list). unat d < 58" using ds(1) by simp
  have "\<forall>c \<in> set (map (\<lambda>d. b58_chars ! unat d) ds). b58_value c < 58"
    using ds(1) by (auto simp: b58_value_chars word_less_nat_alt)
  then have loop: "b58_decode_loop (replicate (length ds * 733 div 1000 + 1) 0) (map (\<lambda>d. b58_chars ! unat d) ds) =
      foldl b256_shift_in (replicate (length (map ucast ds :: u32 list) * 733 div 1000 + 1) 0) (map ucast ds)"
    by (simp only: decode_loop_valid vals length_map)
  have "val8 256 (b58_decode_loop (replicate (length ds * 733 div 1000 + 1) 0) (map (\<lambda>d. b58_chars ! unat d) ds)) = val8 256 rest"
    unfolding loop decode_digits [OF small order_refl] using ds(2) by (simp add: val8_def o_def)
  from strip_unique [OF this] rest
  show "dropWhile (\<lambda>b. b = 0) (b58_decode_loop (replicate (length ds * 733 div 1000 + 1) 0) (map (\<lambda>d. b58_chars ! unat d) ds)) = rest"
    by (cases rest) auto
  show "length rest \<le> length ds"
  proof (cases "rest = []")
    case False
    have "256 ^ (length rest - 1) \<le> val8 256 rest"
      using val_ge [of "map unat rest" 256] rest False by (simp add: val8_def hd_map unat_eq_0)
    also have "\<dots> < 58 ^ length ds"
      using val_less [of "map unat ds" 58] ds by (simp add: val8_def)
    also have "\<dots> \<le> (256 :: nat) ^ length ds" by (rule power_mono) simp_all
    finally show ?thesis by (simp add: power_strict_increasing_iff)
  qed simp
qed

lemma one_char: "d < 58 \<Longrightarrow> d \<noteq> 0 \<Longrightarrow> b58_chars ! d \<noteq> CHR ''1''"
proof -
  have "\<forall>d \<in> set [1..<58]. b58_chars ! d \<noteq> CHR ''1''" by code_simp
  then show "d < 58 \<Longrightarrow> d \<noteq> 0 \<Longrightarrow> b58_chars ! d \<noteq> CHR ''1''" by simp
qed

lemma takeWhile_prefix: "cs = [] \<or> hd cs \<noteq> c \<Longrightarrow> length (takeWhile (\<lambda>x. x = c) (replicate z c @ cs)) = z"
  by (cases cs) (auto simp: takeWhile_append)

lemma drop_prefix: "drop z (replicate z c @ cs) = cs"
  by simp

lemma zeros_split: "replicate (length (takeWhile (\<lambda>b. b = 0) data)) 0 @ drop (length (takeWhile (\<lambda>b. b = 0) data)) data = data"
  by (induction data) auto

lemma decode_encode:
  assumes "LWBase58Encode cap data = Some str"
  shows "LWBase58Decode (Some (length str)) str = Some data" "LWBase58Decode None str = Some data"
proof -
  define z rest where "z = length (takeWhile (\<lambda>b. b = 0) data)" and "rest = drop z data"
  define ds where "ds = dropWhile (\<lambda>b. b = 0) (foldl b58_shift_in (replicate (length rest * 138 div 100 + 1) 0) rest)"
  define cs where "cs = map (\<lambda>d. b58_chars ! unat d) ds"
  have data: "data = replicate z 0 @ rest" using zeros_split [of data] by (simp add: z_def rest_def)
  have rest: "rest = [] \<or> hd rest \<noteq> 0"
    using dropWhile_head [of "\<lambda>b. b = 0" data] by (simp add: rest_def z_def dropWhile_eq_drop)
  have one: "b58_chars ! 0 = CHR ''1''" by (simp add: b58_chars_def)
  have str: "str = replicate z CHR ''1'' @ cs"
    using assms by (simp add: LWBase58Encode_def Let_def z_def rest_def ds_def cs_def one split: if_splits)
  have "\<forall>d \<in> set ds. unat d < 58" using encode_digits(1) [of rest] by (auto simp: ds_def dest: set_dropWhileD)
  moreover have "ds = [] \<or> hd ds \<noteq> 0" unfolding ds_def using dropWhile_head by blast
  ultimately have "cs = [] \<or> hd cs \<noteq> CHR ''1''"
    by (cases ds) (auto simp: cs_def one_char unat_eq_0)
  then have zc: "length (takeWhile (\<lambda>c. c = CHR ''1'') str) = z" unfolding str by (rule takeWhile_prefix)
  have "dropWhile (\<lambda>b. b = 0) (b58_decode_loop (replicate (length cs * 733 div 1000 + 1) 0) cs) = rest"
    using decode_encode_rest(1) [OF rest] by (simp only: ds_def [symmetric] cs_def [symmetric] length_map) (simp add: cs_def)
  moreover have "length rest \<le> length ds"
    using decode_encode_rest(2) [OF rest] by (simp only: ds_def)
  then have "length data \<le> length str" by (simp add: data str cs_def)
  ultimately show "LWBase58Decode (Some (length str)) str = Some data" "LWBase58Decode None str = Some data"
    unfolding LWBase58Decode_def Let_def zc by (simp_all add: str data fits_in_def)
qed

lemma check_decode_encode:
  assumes "LWBase58CheckEncode cap data = Some str" "fits_in (length data) n"
  shows "LWBase58CheckDecode n str = data"
  using decode_encode [OF assms(1) [unfolded LWBase58CheckEncode_def]] assms(2)
  by (simp add: LWBase58CheckDecode_def)

lemma b58_encode_form: "\<exists>S. \<forall>cap. LWBase58Encode cap data = (if fits_in (length S + 1) cap then Some S else None)"
  unfolding LWBase58Encode_def Let_def by blast

lemma decode_form: "LWBase58Decode cap s = (case LWBase58Decode None s of None \<Rightarrow> None
    | Some d \<Rightarrow> if fits_in (length d) cap then Some d else None)"
  unfolding LWBase58Decode_def Let_def by (simp only: fits_in_def option.case if_True)

lemma encode_valid:
  assumes "LWBase58Encode cap data = Some str"
  shows "\<forall>c \<in> set str. b58_value c < 58"
proof -
  define rest where "rest = drop (length (takeWhile (\<lambda>b. b = 0) data)) data"
  have "b58_value (b58_chars ! unat d) < 58" if "d \<in> set (dropWhile (\<lambda>b. b = 0)
      (foldl b58_shift_in (replicate (length rest * 138 div 100 + 1) 0) rest))" for d
    using encode_digits(1) [of rest] set_dropWhileD [OF that] by (simp add: b58_value_chars word_less_nat_alt)
  moreover have "b58_value (b58_chars ! 0) < 58" using b58_value_chars [of 0] by simp
  ultimately show ?thesis
    using assms unfolding LWBase58Encode_def Let_def rest_def [symmetric] by (auto split: if_splits)
qed

lemma encode_some: "\<exists>str. LWBase58Encode None data = Some str"
  by (simp add: LWBase58Encode_def fits_in_def Let_def)


text \<open>Whatever follows the first character that is no digit does not change the result.\<close>

lemma decode_loop_invalid: "\<forall>c \<in> set s. b58_value c < 58 \<Longrightarrow> 58 \<le> b58_value c \<Longrightarrow>
    b58_decode_loop buf (s @ c # t) = b58_decode_loop buf s"
  by (induction s arbitrary: buf) (auto simp: not_le)

lemma decode_tail:
  assumes s: "\<forall>c \<in> set s. b58_value c < 58" and c: "58 \<le> b58_value c"
  shows "LWBase58Decode None (s @ c # t) = LWBase58Decode None s"
proof -
  define z r where "z = length (takeWhile (\<lambda>c. c = CHR ''1'') s)" and "r = drop z s"
  have "c \<noteq> CHR ''1''" using c by (auto simp: b58_value_def char_in_def Let_def)
  then have z: "length (takeWhile (\<lambda>c. c = CHR ''1'') (s @ c # t)) = z"
    by (auto simp: z_def takeWhile_append takeWhile_eq_all_conv [THEN iffD2])
  have "z \<le> length s" by (simp add: z_def length_takeWhile_le)
  then have r': "drop z (s @ c # t) = r @ c # t" by (simp add: r_def)
  have r: "\<forall>c \<in> set r. b58_value c < 58" using s by (auto simp: r_def dest: in_set_dropD)
  then have small: "\<forall>d \<in> set (map b58_value r). unat d < 58" by (auto simp: word_less_nat_alt)
  define n where "n = length (r @ c # t) * 733 div 1000 + 1"
  have n: "length (map b58_value r) * 733 div 1000 + 1 \<le> n"
    by (simp add: n_def div_le_mono)
  have "val8 256 (b58_decode_loop (replicate n 0) r) = val8 256 (b58_decode_loop (replicate (length r * 733 div 1000 + 1) 0) r)"
    using decode_digits [OF small n] decode_digits [OF small order_refl]
    by (simp only: decode_loop_valid [OF r] length_map)
  note strip = strip_unique [OF this]
  show ?thesis
    unfolding LWBase58Decode_def Let_def z r' decode_loop_invalid [OF r c] n_def [symmetric] strip
    by (simp only: z_def [symmetric] r_def [symmetric])
qed

lemma check_decode_tail:
  assumes "LWBase58CheckEncode cap0 data = Some str" "58 \<le> b58_value c" "fits_in (length data) cap"
  shows "LWBase58CheckDecode cap (str @ c # junk) = data"
proof -
  have enc: "LWBase58Encode cap0 (data @ take 4 (LWSHA256_2 data)) = Some str"
    using assms(1) by (simp add: LWBase58CheckEncode_def)
  have "length (data @ take 4 (LWSHA256_2 data)) \<le> length str"
    using decode_encode [OF enc] decode_form [of "Some (length str)" str] by (simp add: fits_in_def split: if_splits)
  then have "LWBase58Decode (Some (length (str @ c # junk))) (str @ c # junk) = Some (data @ take 4 (LWSHA256_2 data))"
    using decode_tail [OF encode_valid [OF enc] assms(2)] decode_encode(2) [OF enc]
    by (subst decode_form) (simp add: fits_in_def)
  then show ?thesis using assms(3) by (simp add: LWBase58CheckDecode_def)
qed

text \<open>
  C30. Base58 decoding inverts encoding for every byte string, leading zeros included: the
  conversion buffers, sized by rational approximations of the logarithms, lose no carry in either
  direction; with a checksum, decoding returns the payload.
\<close>

theorem base58_roundtrip:
  "\<exists>str. LWBase58Encode None data = Some str \<and> LWBase58Decode None str = Some data \<and>
     (\<forall>n. LWBase58Encode (Some n) data = (if length str + 1 \<le> n then Some str else None)) \<and>
     (\<exists>cstr. LWBase58CheckEncode None data = Some cstr \<and> LWBase58CheckDecode None cstr = data \<and>
        LWBase58CheckDecode (Some (length data)) cstr = data)"
proof -
  obtain str where str: "LWBase58Encode None data = Some str" using encode_some by blast
  obtain cstr where cstr: "LWBase58CheckEncode None data = Some cstr"
    using encode_some by (auto simp: LWBase58CheckEncode_def)
  have "LWBase58Encode (Some n) data = (if length str + 1 \<le> n then Some str else None)" for n
    using b58_encode_form [of data] str by (auto simp: fits_in_def)
  then show ?thesis
    using str decode_encode(2) [OF str] cstr check_decode_encode [OF cstr] by (auto simp: fits_in_def)
qed

text \<open>
  Decoding does not reject a string with a character that is no base58 digit: it returns
  what the characters before it decode to, so any text may follow a valid string.
\<close>

theorem base58_ignores_tail:
  assumes "LWBase58CheckEncode None data = Some str" "58 \<le> b58_value c"
  shows "LWBase58CheckDecode None (str @ c # junk) = data"
  using assms by (rule check_decode_tail) (simp add: fits_in_def)

theorem base58_ignores_tail_witness:
  "\<exists>str. LWBase58CheckEncode None [1, 2] = Some str \<and> LWBase58CheckDecode None (str @ CHR ''!'' # ''junk'') = [1, 2]"
proof -
  obtain str where str: "LWBase58CheckEncode None [1, 2] = Some str"
    using encode_some by (auto simp: LWBase58CheckEncode_def)
  moreover have "58 \<le> b58_value CHR ''!''" by code_simp
  ultimately show ?thesis using base58_ignores_tail [OF str, of "CHR ''!''" "''junk''"] by auto
qed

end
