(* ===== verification/LW_Bech32.thy ===== *)
theory LW_Bech32
  imports LW_Base58
begin

text \<open>
  Model of \<^verbatim>\<open>LWBech32.c\<close>: native witness addresses. The checksum runs on 32-bit words; the loops
  carry the checksum, the output and the bit accumulator the source keeps. The theorems show the
  checksum check accepts what the encoder appends, and that decoding inverts encoding.
\<close>

definition OP_0 :: u8 where "OP_0 = 0x00"
definition OP_1 :: u8 where "OP_1 = 0x51"

definition polymod :: "u32 \<Rightarrow> u32" where
  "polymod x =
     push_bit 5 (x AND 0x1ffffff) XOR (- (drop_bit 25 x AND 1) AND 0x3b6a57b2) XOR
     (- (drop_bit 26 x AND 1) AND 0x26508e6d) XOR (- (drop_bit 27 x AND 1) AND 0x1ea119fa) XOR
     (- (drop_bit 28 x AND 1) AND 0x3d4233dd) XOR (- (drop_bit 29 x AND 1) AND 0x2a1462b3)"

definition islower :: "char \<Rightarrow> bool" where "islower c \<longleftrightarrow> char_in c CHR ''a'' CHR ''z''"
definition isupper :: "char \<Rightarrow> bool" where "isupper c \<longleftrightarrow> char_in c CHR ''A'' CHR ''Z''"

definition tolower :: "char \<Rightarrow> char" where
  "tolower c = (if isupper c then char_of (of_char c + (32 :: nat)) else c)"

text \<open>Characters 33 to 126; a \<^verbatim>\<open>char\<close> above 127 is negative and fails the first test.\<close>

definition printable :: "char \<Rightarrow> bool" where
  "printable c \<longleftrightarrow> 33 \<le> (of_char c :: nat) \<and> (of_char c :: nat) \<le> 126"

definition bech32_chars :: string where
  "bech32_chars = ''qpzry9x8gf2tvdw0s3jn54khce6mua7l''"

subsection \<open>Decoding\<close>

text \<open>The index of the last \<open>1\<close> at or below \<open>n\<close>, 0 when the search reaches the first character.\<close>

fun find_sep :: "string \<Rightarrow> nat \<Rightarrow> nat" where
  "find_sep addr 0 = 0"
| "find_sep addr (Suc n) =
     (if Suc n < length addr \<and> addr ! Suc n = CHR ''1'' then Suc n else find_sep addr n)"

text \<open>The switch on the lower-case character; \<open>None\<close> is its default case.\<close>

definition bech32_value :: "char \<Rightarrow> u8 option" where
  "bech32_value c = map_of
     [(CHR ''q'', 0), (CHR ''p'', 1), (CHR ''z'', 2), (CHR ''r'', 3),
      (CHR ''y'', 4), (CHR ''9'', 5), (CHR ''x'', 6), (CHR ''8'', 7),
      (CHR ''g'', 8), (CHR ''f'', 9), (CHR ''2'', 10), (CHR ''t'', 11),
      (CHR ''v'', 12), (CHR ''d'', 13), (CHR ''w'', 14), (CHR ''0'', 15),
      (CHR ''s'', 16), (CHR ''3'', 17), (CHR ''j'', 18), (CHR ''n'', 19),
      (CHR ''5'', 20), (CHR ''4'', 21), (CHR ''k'', 22), (CHR ''h'', 23),
      (CHR ''c'', 24), (CHR ''e'', 25), (CHR ''6'', 26), (CHR ''m'', 27),
      (CHR ''u'', 28), (CHR ''a'', 29), (CHR ''7'', 30), (CHR ''l'', 31)] (tolower c)"

text \<open>The bits of data digit number \<open>j\<close> go to \<open>buf\<close>.\<close>

definition put_digit :: "nat \<Rightarrow> u8 \<Rightarrow> bytes \<Rightarrow> bytes" where
  "put_digit j c buf =
     (let x = (j mod 8) * 5 - ((j mod 8) * 5 div 8) * 8;
          k = (j div 8) * 5 + (j mod 8) * 5 div 8;
          buf = buf[k := buf ! k OR drop_bit x (push_bit 3 c)]
      in if x > 3 then buf[k + 1 := buf ! (k + 1) OR push_bit (11 - x) c] else buf)"

text \<open>
  The loop over the characters after the separator: \<open>j\<close> is the data index, \<open>None\<close> at the first
  (the version), and \<open>left\<close> the number of characters still to come, of which the last six are the
  checksum. \<open>None\<close> as result is the return on an invalid digit.
\<close>

fun bech32_loop :: "nat option \<Rightarrow> string \<Rightarrow> u32 \<Rightarrow> u8 \<Rightarrow> bytes \<Rightarrow> (u32 \<times> u8 \<times> bytes) option" where
  "bech32_loop j [] chk ver buf = Some (chk, ver, buf)"
| "bech32_loop j (a # as) chk ver buf =
     (case bech32_value a of None \<Rightarrow> None
      | Some c \<Rightarrow>
          (let chk = polymod chk XOR ucast c in
           case j of None \<Rightarrow> bech32_loop (Some 0) as chk c buf
           | Some n \<Rightarrow> bech32_loop (Some (n + 1)) as chk ver
                         (if length (a # as) \<le> 6 then buf else put_digit n c buf)))"

definition bech32_hrp :: "string \<Rightarrow> u32" where
  "bech32_hrp hrp =
     (let chk = foldl (\<lambda>chk c. polymod chk XOR drop_bit 5 (of_char c)) 1 hrp;
          chk = polymod chk
      in foldl (\<lambda>chk c. polymod chk XOR (of_char c AND 0x1f)) chk hrp)"

text \<open>The prefix and the witness program, or \<open>None\<close> when 0 is returned.\<close>

definition LWBech32Decode :: "string \<Rightarrow> (string \<times> bytes) option" where
  "LWBech32Decode addr =
     (if \<exists>c \<in> set addr. \<not> printable c then None
      else
       (let addrLen = length addr; sep = find_sep addr addrLen in
        if addrLen < 8 \<or> addrLen > 90 \<or> sep < 1 \<or> sep + 2 + 6 > addrLen \<or>
           (list_ex isupper addr \<and> list_ex islower addr) then None
        else
         (let hrp = take sep addr;
              chk = polymod (foldl (\<lambda>chk c. polymod chk XOR drop_bit 5 (of_char (tolower c))) 1 hrp);
              chk = foldl (\<lambda>chk c. polymod chk XOR (of_char c AND 0x1f)) chk hrp
          in case bech32_loop None (drop (sep + 1) addr) chk 0xff (replicate 52 0) of None \<Rightarrow> None
             | Some (chk, ver, buf) \<Rightarrow>
                 (let bufLen = (addrLen - (sep + 2 + 6)) * 5 div 8 in
                  if chk \<noteq> 1 \<or> ver > 16 \<or> bufLen < 2 \<or> bufLen > 40 then None
                  else Some (map tolower hrp,
                             (if ver = 0 then OP_0 else ver + OP_1 - 1) # of_nat bufLen # take bufLen buf)))))"

subsection \<open>Encoding\<close>

text \<open>Step \<open>j\<close> of the regrouping loop, over the previous byte, the checksum and the output.\<close>

definition bech32_emit :: "u8 \<Rightarrow> u32 \<times> string \<Rightarrow> u32 \<times> string" where
  "bech32_emit c = (\<lambda>(chk, out). (polymod chk XOR ucast c, out @ [bech32_chars ! unat c]))"

definition bech32_step :: "nat \<Rightarrow> bytes \<Rightarrow> nat \<Rightarrow> u8 \<times> u32 \<times> string \<Rightarrow> u8 \<times> u32 \<times> string" where
  "bech32_step len data j = (\<lambda>(b, st).
     let a = b; b = (if j < len then data ! (2 + j) else 0);
         x = (j mod 5) * 8 - ((j mod 5) * 8 div 5) * 5;
         c = (push_bit (5 - x) a OR drop_bit (3 + x) b) AND 0x1f;
         st = (if j < len \<or> j mod 5 > 0 then bech32_emit c st else st);
         c = drop_bit (x - 2) b AND 0x1f;
         st = (if x \<ge> 2 \<and> j < len then bech32_emit c st else st)
     in (b, st))"

text \<open>
  \<open>Some None\<close> when 0 is returned, \<open>None\<close> when the string and its NUL do not fit \<open>addr[91]\<close>;
  \<open>data\<close> is a witness program of at least \<open>2 + data ! 1\<close> bytes.
\<close>

definition LWBech32Encode :: "string \<Rightarrow> bytes \<Rightarrow> string option option" where
  "LWBech32Encode hrp data =
     (if length hrp > 84 \<or> (\<exists>c \<in> set hrp. \<not> printable c \<or> isupper c) then Some None
      else
       (let i = length hrp + 1 in
        if data ! 0 > OP_0 \<and> data ! 0 < OP_1 then Some None
        else
         (let ver = (if data ! 0 \<ge> OP_1 then data ! 0 + 1 - OP_1 else 0); len = unat (data ! 1) in
          if ver > 16 \<or> len < 2 \<or> len > 40 \<or> i + 1 + len + 6 \<ge> 91 then Some None
          else
           (let st = bech32_emit ver (bech32_hrp hrp, hrp @ ''1'');
                (b, chk, out) = fold (bech32_step len data) [0..<len + 1] (0, st);
                chk = (polymod ^^ 6) chk XOR 1;
                addr = out @ map (\<lambda>j. bech32_chars ! unat (drop_bit ((5 - j) * 5) chk AND 0x1f)) [0..<6]
            in if length addr + 1 > 91 then None else Some (Some addr)))))"

subsection \<open>The checksum\<close>

definition sel :: "bool \<Rightarrow> u32 \<Rightarrow> u32" where
  "sel b k = (if b then k else 0)"

lemma mask_bit: "- (drop_bit n x AND 1) AND k = sel (bit x n) k" for x :: u32
  by (simp add: sel_def and_one_eq mod2_eq_if bit_iff_odd_drop_bit)

lemma polymod_sel: "polymod x = push_bit 5 (x AND 0x1ffffff) XOR sel (bit x 25) 0x3b6a57b2 XOR
    sel (bit x 26) 0x26508e6d XOR sel (bit x 27) 0x1ea119fa XOR sel (bit x 28) 0x3d4233dd XOR sel (bit x 29) 0x2a1462b3"
  unfolding polymod_def mask_bit ..

lemma sel_xor: "sel (b \<noteq> c) k = sel b k XOR sel c k"
  by (simp add: sel_def)

lemma polymod_xor: "polymod (x XOR y) = polymod x XOR polymod y"
proof -
  have "push_bit 5 ((x XOR y) AND 0x1ffffff) = push_bit 5 (x AND 0x1ffffff) XOR push_bit 5 (y AND 0x1ffffff)"
    by (simp add: bit.conj_xor_distrib2 push_bit_xor)
  then show ?thesis
    unfolding polymod_sel bit_xor_iff sel_xor by (simp only: ac_simps)
qed

lemma polymod_small: "take_bit 25 x = x \<Longrightarrow> polymod x = push_bit 5 x"
proof -
  assume *: "take_bit 25 x = x"
  then have "x AND 0x1ffffff = x"
    using take_bit_eq_mask [of 25 x] by (simp add: mask_eq_exp_minus_1)
  moreover have "\<not> bit x n" if "25 \<le> n" for n
    using that by (subst * [symmetric]) (simp add: bit_take_bit_iff)
  ultimately show ?thesis by (simp add: polymod_sel sel_def)
qed

lemma polymod_bound: "take_bit 30 (polymod x) = polymod x"
proof -
  have sel: "take_bit 30 (sel b k) = sel b k" if "take_bit 30 k = k" for b k
    using that by (simp add: sel_def)
  have "take_bit 30 (push_bit 5 (x AND 0x1ffffff)) = push_bit 5 (x AND 0x1ffffff)"
  proof -
    have "x AND 0x1ffffff = take_bit 25 x" using take_bit_eq_mask [of 25 x] by (simp add: mask_eq_exp_minus_1)
    then show ?thesis by (simp add: take_bit_push_bit)
  qed
  then show ?thesis
    unfolding polymod_sel take_bit_xor by (simp add: sel)
qed

definition bech_step :: "u32 \<Rightarrow> u8 \<Rightarrow> u32" where
  "bech_step chk c = polymod chk XOR ucast c"

definition chk_digit :: "u32 \<Rightarrow> nat \<Rightarrow> u8" where
  "chk_digit r j = ucast (drop_bit ((5 - j) * 5) r AND 0x1f)"

lemma and_1f: "(x :: u32) AND 0x1f = take_bit 5 x"
  using take_bit_eq_mask [of 5 x] by (simp add: mask_eq_exp_minus_1)

lemma ucast_chk_digit: "(ucast (chk_digit r j) :: u32) = take_bit 5 (drop_bit ((5 - j) * 5) r)"
  unfolding chk_digit_def and_1f by (intro bit_word_eqI) (auto simp: bit_simps)

lemma take_bit_mono_self: "take_bit m y = y \<Longrightarrow> m \<le> n \<Longrightarrow> take_bit n y = y" for y :: u32
  using take_bit_take_bit [of n m y] by (simp add: min_absorb2)

text \<open>Appending the six digits of \<open>r\<close> adds \<open>r\<close> to the checksum over six zeros.\<close>

lemma append_digits:
  assumes r: "take_bit 30 r = r"
  shows "k \<le> 6 \<Longrightarrow> foldl bech_step c (map (chk_digit r) [0..<k]) = (polymod ^^ k) c XOR drop_bit ((6 - k) * 5) r"
proof (induction k)
  case 0
  have "drop_bit 30 r = 0" by (subst r [symmetric]) (simp add: drop_bit_take_bit)
  then show ?case by simp
next
  case (Suc k)
  let ?y = "drop_bit ((6 - k) * 5) r"
  have "take_bit (30 - (6 - k) * 5) (drop_bit ((6 - k) * 5) r) = ?y"
    by (subst (2) r [symmetric]) (simp add: drop_bit_take_bit)
  moreover have "30 - (6 - k) * 5 \<le> 25" using Suc.prems by simp
  ultimately have small: "take_bit 25 ?y = ?y"
    by (rule take_bit_mono_self)
  have n: "(6 - k) * 5 = (5 - k) * 5 + 5" "6 - Suc k = 5 - k" using Suc.prems by simp_all
  have "push_bit 5 ?y XOR take_bit 5 (drop_bit ((5 - k) * 5) r) = drop_bit ((5 - k) * 5) r"
    unfolding n(1) by (intro bit_word_eqI) (auto simp: bit_simps)
  then have "bech_step ((polymod ^^ k) c XOR ?y) (chk_digit r k) = (polymod ^^ Suc k) c XOR drop_bit ((5 - k) * 5) r"
    unfolding bech_step_def polymod_xor polymod_small [OF small] ucast_chk_digit by (simp add: xor.assoc)
  moreover have "foldl bech_step c (map (chk_digit r) [0..<k]) = (polymod ^^ k) c XOR ?y" using Suc by simp
  ultimately show ?case unfolding n(2) by (simp only: upt_Suc_append zero_le map_append foldl_append list.map foldl.simps)
qed

lemma checksum_ok: "foldl bech_step c (map (chk_digit ((polymod ^^ 6) c XOR 1)) [0..<6]) = 1"
proof -
  have "take_bit 30 ((polymod ^^ 6) c XOR 1) = (polymod ^^ 6) c XOR 1"
    using polymod_bound [of "(polymod ^^ 5) c"] by (simp add: take_bit_xor eval_nat_numeral)
  from append_digits [OF this, of 6 c] show ?thesis by (simp flip: xor.assoc)
qed

subsection \<open>Regrouping\<close>

text \<open>The five-bit digits of a byte string, padded with zero bits: what the encoding loop emits.\<close>

definition low5 :: "u8 \<Rightarrow> u8" where
  "low5 x = x AND 0x1f"

fun digits5 :: "bytes \<Rightarrow> u8 list" where
  "digits5 [] = []"
| "digits5 [a] = [low5 (drop_bit 3 a), low5 (push_bit 2 a)]"
| "digits5 [a, b] = [low5 (drop_bit 3 a), low5 (push_bit 2 a OR drop_bit 6 b), low5 (drop_bit 1 b), low5 (push_bit 4 b)]"
| "digits5 [a, b, c] = [low5 (drop_bit 3 a), low5 (push_bit 2 a OR drop_bit 6 b), low5 (drop_bit 1 b),
     low5 (push_bit 4 b OR drop_bit 4 c), low5 (push_bit 1 c)]"
| "digits5 [a, b, c, d] = [low5 (drop_bit 3 a), low5 (push_bit 2 a OR drop_bit 6 b), low5 (drop_bit 1 b),
     low5 (push_bit 4 b OR drop_bit 4 c), low5 (push_bit 1 c OR drop_bit 7 d), low5 (drop_bit 2 d), low5 (push_bit 3 d)]"
| "digits5 (a # b # c # d # e # r) =
     [low5 (drop_bit 3 a), low5 (push_bit 2 a OR drop_bit 6 b), low5 (drop_bit 1 b),
      low5 (push_bit 4 b OR drop_bit 4 c), low5 (push_bit 1 c OR drop_bit 7 d), low5 (drop_bit 2 d),
      low5 (push_bit 3 d OR drop_bit 5 e), low5 e] @ digits5 r"

lemma low5_take: "low5 x = take_bit 5 x"
  using take_bit_eq_mask [of 5 x] by (simp add: low5_def mask_eq_exp_minus_1)

lemma low5_less: "low5 x < 32"
  using take_bit_nat_less_exp [of 5 "unat x"] by (simp add: low5_take word_less_nat_alt unsigned_take_bit_eq)

lemma digits5_less: "\<forall>d \<in> set (digits5 xs). d < 32"
  by (induction xs rule: digits5.induct) (auto simp: low5_less)

lemma length_digits5: "length (digits5 xs) = (8 * length xs + 4) div 5"
  by (induction xs rule: digits5.induct) simp_all

text \<open>The same digits, one input byte at a time: \<open>i\<close> is the index modulo 5 and \<open>a\<close> the previous byte.\<close>

definition spill :: "nat \<Rightarrow> nat" where
  "spill i = i * 8 - (i * 8 div 5) * 5"

fun emitted :: "nat \<Rightarrow> u8 \<Rightarrow> bytes \<Rightarrow> u8 list" where
  "emitted i a [] = (if i = 0 then [] else [low5 (push_bit (5 - spill i) a)])"
| "emitted i a (b # xs) = low5 (push_bit (5 - spill i) a OR drop_bit (3 + spill i) b) #
     (if spill i \<ge> 2 then [low5 (drop_bit (spill i - 2) b)] else []) @ emitted ((i + 1) mod 5) b xs"

lemma step_emits:
  "bech32_step len data j (a, st) =
    (if j < len then (data ! (2 + j), fold bech32_emit
       (low5 (push_bit (5 - spill (j mod 5)) a OR drop_bit (3 + spill (j mod 5)) (data ! (2 + j))) #
        (if spill (j mod 5) \<ge> 2 then [low5 (drop_bit (spill (j mod 5) - 2) (data ! (2 + j)))] else [])) st)
     else (0, if j mod 5 > 0 then bech32_emit (low5 (push_bit (5 - spill (j mod 5)) a)) st else st))"
  by (simp add: bech32_step_def Let_def low5_def spill_def)

lemma loop_emits:
  "j \<le> len \<Longrightarrow> snd (fold (bech32_step len data) [j..<len + 1] (a, st)) =
   fold bech32_emit (emitted (j mod 5) a (map ((!) data) [2 + j..<2 + len])) st"
proof (induction j arbitrary: a st rule: inc_induct)
  case base
  then show ?case by (simp add: step_emits)
next
  case (step j)
  have "[j..<len + 1] = j # [Suc j..<len + 1]" "[2 + j..<2 + len] = (2 + j) # [2 + Suc j..<2 + len]"
    using step.hyps by (simp_all add: upt_conv_Cons del: upt_Suc)
  moreover have "Suc j mod 5 = (j mod 5 + 1) mod 5" by (simp add: mod_simps)
  ultimately show ?case using step by (simp add: step_emits del: upt_Suc)
qed

lemma low5_push5: "low5 (push_bit 5 a OR b) = low5 b"
  by (intro bit_word_eqI) (auto simp: low5_take bit_simps)

lemma emitted_digits5: "emitted 0 a xs = digits5 xs"
  by (induction xs arbitrary: a rule: digits5.induct) (simp_all add: spill_def low5_push5)

subsection \<open>Regrouping back\<close>

fun put_digits :: "nat \<Rightarrow> u8 list \<Rightarrow> bytes \<Rightarrow> bytes" where
  "put_digits n [] buf = buf"
| "put_digits n (c # cs) buf = put_digits (Suc n) cs (put_digit n c buf)"

lemma put_digit_shift: "length pre = 5 * m \<Longrightarrow> put_digit (8 * m + i) c (pre @ zs) = pre @ put_digit i c zs"
proof -
  assume len: "length pre = 5 * m"
  have "(8 * m + i) div 8 * 5 = length pre + i div 8 * 5" "(8 * m + i) mod 8 = i mod 8" using len by simp_all
  then show ?thesis
    by (simp add: put_digit_def Let_def list_update_append nth_append add.assoc)
qed

lemma put_digits_shift: "length pre = 5 * m \<Longrightarrow> put_digits (8 * m + i) cs (pre @ zs) = pre @ put_digits i cs zs"
  by (induction cs arbitrary: i zs) (simp_all add: put_digit_shift flip: add_Suc_right)

lemma put_digits_append: "put_digits n (cs @ ds) buf = put_digits (n + length cs) ds (put_digits n cs buf)"
  by (induction cs arbitrary: n buf) simp_all

text \<open>Each byte comes back from the digits its bits went to.\<close>

lemma byte_eq_iff: "a = b \<longleftrightarrow> bit a 0 = bit b 0 \<and> bit a 1 = bit b 1 \<and> bit a 2 = bit b 2 \<and> bit a 3 = bit b 3 \<and>
    bit a 4 = bit b 4 \<and> bit a 5 = bit b 5 \<and> bit a 6 = bit b 6 \<and> bit a 7 = bit b 7" for a b :: u8
proof -
  have "a = b \<longleftrightarrow> (\<forall>n < 8. bit a n = bit b n)" by (auto intro!: bit_word_eqI)
  then show ?thesis by (simp add: All_less_Suc eval_nat_numeral) blast
qed

lemma bit_twice: "bit (c * 2) n \<longleftrightarrow> 0 < n \<and> n < 8 \<and> bit c (n - 1)" for c :: u8
proof -
  have "c * 2 = push_bit 1 c" by (simp add: push_bit_eq_mult)
  then show ?thesis by (auto simp only: bit_push_bit_iff) (auto simp: bit_simps)
qed

lemmas five_bits = put_digit_def Let_def low5_take
lemmas byte_bits = byte_eq_iff bit_simps bit_twice

lemma put_block:
  "put_digits 0 (digits5 [a, b, c, d, e]) (0 # 0 # 0 # 0 # 0 # zs) = a # b # c # d # e # zs"
  by (simp add: five_bits, simp add: byte_bits, simp add: numeral_eq_Suc byte_bits)


lemma put_tails:
  "put_digits 0 (digits5 [a]) (0 # 0 # zs) = a # 0 # zs"
  "put_digits 0 (digits5 [a, b]) (0 # 0 # 0 # zs) = a # b # 0 # zs"
  "put_digits 0 (digits5 [a, b, c]) (0 # 0 # 0 # 0 # zs) = a # b # c # 0 # zs"
  "put_digits 0 (digits5 [a, b, c, d]) (0 # 0 # 0 # 0 # 0 # zs) = a # b # c # d # 0 # zs"
  by (simp_all add: five_bits, simp_all add: byte_bits, simp_all add: numeral_eq_Suc byte_bits)

lemma replicate_split: "k \<le> n \<Longrightarrow> replicate n x = replicate k x @ replicate (n - k) x"
  by (simp flip: replicate_add)

lemma put_digits5: "length xs + 2 \<le> n \<Longrightarrow> put_digits 0 (digits5 xs) (replicate n 0) = xs @ replicate (n - length xs) 0"
proof (induction xs arbitrary: n rule: digits5.induct)
  case 1 then show ?case by simp
next
  case (2 a)
  then have "replicate n 0 = 0 # 0 # replicate (n - 2) (0 :: u8)" "replicate (n - 1) 0 = 0 # replicate (n - 2) (0 :: u8)"
    using replicate_split [of 2 n "0 :: u8"] replicate_split [of 1 "n - 1" "0 :: u8"] by (simp_all add: numeral_eq_Suc)
  then show ?case by (simp add: put_tails del: digits5.simps)
next
  case (3 a b)
  then have "replicate n 0 = 0 # 0 # 0 # replicate (n - 3) (0 :: u8)" "replicate (n - Suc (Suc 0)) 0 = 0 # replicate (n - 3) (0 :: u8)"
    using replicate_split [of 3 n "0 :: u8"] replicate_split [of 1 "n - 2" "0 :: u8"] by (simp_all add: numeral_eq_Suc)
  then show ?case by (simp add: put_tails del: digits5.simps)
next
  case (4 a b c)
  then have "replicate n 0 = 0 # 0 # 0 # 0 # replicate (n - 4) (0 :: u8)" "replicate (n - Suc (Suc (Suc 0))) 0 = 0 # replicate (n - 4) (0 :: u8)"
    using replicate_split [of 4 n "0 :: u8"] replicate_split [of 1 "n - 3" "0 :: u8"] by (simp_all add: numeral_eq_Suc)
  then show ?case by (simp add: put_tails del: digits5.simps)
next
  case (5 a b c d)
  then have "replicate n 0 = 0 # 0 # 0 # 0 # 0 # replicate (n - 5) (0 :: u8)" "replicate (n - Suc (Suc (Suc (Suc 0)))) 0 = 0 # replicate (n - 5) (0 :: u8)"
    using replicate_split [of 5 n "0 :: u8"] replicate_split [of 1 "n - 4" "0 :: u8"] by (simp_all add: numeral_eq_Suc)
  then show ?case by (simp add: put_tails del: digits5.simps)
next
  case (6 a b c d e r)
  then have rep: "replicate n 0 = 0 # 0 # 0 # 0 # 0 # replicate (n - 5) (0 :: u8)"
    using replicate_split [of 5 n "0 :: u8"] by (simp add: numeral_eq_Suc)
  have split: "digits5 (a # b # c # d # e # r) = digits5 [a, b, c, d, e] @ digits5 r" by simp
  have len: "length (digits5 [a, b, c, d, e]) = 8" by simp
  have "put_digits 0 (digits5 (a # b # c # d # e # r)) (replicate n 0) =
      put_digits (8 * 1 + 0) (digits5 r) ([a, b, c, d, e] @ replicate (n - 5) 0)"
    unfolding split put_digits_append len rep put_block by simp
  also have "\<dots> = [a, b, c, d, e] @ put_digits 0 (digits5 r) (replicate (n - 5) 0)"
    by (rule put_digits_shift) simp
  also have "put_digits 0 (digits5 r) (replicate (n - 5) 0) = r @ replicate (n - 5 - length r) 0"
    using 6 by (intro 6(1)) simp
  finally show ?case by simp
qed

subsection \<open>The round trip\<close>

definition bech_char :: "u8 \<Rightarrow> char" where
  "bech_char d = bech32_chars ! unat d"

lemma digit_char:
  assumes d: "d < 32"
  shows "bech32_value (bech_char d) = Some d \<and> printable (bech_char d) \<and> \<not> isupper (bech_char d) \<and>
    bech_char d \<noteq> CHR ''1''"
proof -
  have "\<forall>n \<in> set [0..<32]. bech32_value (bech32_chars ! n) = Some (of_nat n) \<and> printable (bech32_chars ! n) \<and>
      \<not> isupper (bech32_chars ! n) \<and> bech32_chars ! n \<noteq> CHR ''1''"
    by code_simp
  moreover have "unat d \<in> set [0..<32]" using d by (simp add: word_less_nat_alt del: upt_rec_numeral)
  moreover have "of_nat (unat d) = d" by simp
  ultimately show ?thesis unfolding bech_char_def by (metis (no_types))
qed

lemma fold_emit: "fold bech32_emit ds (chk, out) = (foldl bech_step chk ds, out @ map bech_char ds)"
  by (induction ds arbitrary: chk out) (simp_all add: bech32_emit_def bech_step_def bech_char_def)

lemma loop_tail: "\<forall>d \<in> set cs. d < 32 \<Longrightarrow> length cs \<le> 6 \<Longrightarrow>
    bech32_loop (Some n) (map bech_char cs) chk ver buf = Some (foldl bech_step chk cs, ver, buf)"
  by (induction cs arbitrary: n chk) (simp_all add: digit_char bech_step_def Let_def)

lemma loop_digits: "\<forall>d \<in> set (ds @ cs). d < 32 \<Longrightarrow> length cs = 6 \<Longrightarrow>
    bech32_loop (Some n) (map bech_char (ds @ cs)) chk ver buf =
    Some (foldl bech_step chk (ds @ cs), ver, put_digits n ds buf)"
  by (induction ds arbitrary: n chk buf) (simp_all add: loop_tail digit_char bech_step_def Let_def del: map_append)

lemma find_sep_last: "CHR ''1'' \<notin> set r \<Longrightarrow> k \<le> length r + 1 \<Longrightarrow> find_sep (p @ CHR ''1'' # r) (length p + k) = length p"
proof (induction k)
  case 0
  then show ?case by (cases p) simp_all
next
  case (Suc k)
  have "r ! k \<noteq> CHR ''1''" if "k < length r" using that Suc.prems(1) nth_mem by metis
  then show ?case using Suc by (cases "k < length r") (auto simp: nth_append)
qed

lemma tolower_id: "\<not> isupper c \<Longrightarrow> tolower c = c"
  by (simp add: tolower_def)

lemma unat_chk_digit: "unat (chk_digit r j) = unat (drop_bit ((5 - j) * 5) r AND 0x1f)"
proof -
  have "(ucast (ucast (drop_bit ((5 - j) * 5) r AND 0x1f) :: u8) :: u32) = drop_bit ((5 - j) * 5) r AND 0x1f"
    unfolding and_1f by (intro bit_word_eqI) (auto simp: bit_simps)
  then show ?thesis unfolding chk_digit_def by (metis unat_ucast_u8)
qed

lemma chk_digit_less: "chk_digit r j < 32"
proof -
  have "unat (drop_bit ((5 - j) * 5) r AND 0x1f) < 2 ^ 5"
    unfolding and_1f unsigned_take_bit_eq by (rule take_bit_nat_less_exp)
  then show ?thesis by (simp add: word_less_nat_alt unat_chk_digit)
qed

definition witness_ver :: "bytes \<Rightarrow> u8" where
  "witness_ver data = (if data ! 0 \<ge> OP_1 then data ! 0 + 1 - OP_1 else 0)"

definition bech_string :: "string \<Rightarrow> u8 \<Rightarrow> bytes \<Rightarrow> string" where
  "bech_string hrp ver xs =
     (let ds = ver # digits5 xs
      in hrp @ CHR ''1'' # map bech_char
        (ds @ map (chk_digit ((polymod ^^ 6) (foldl bech_step (bech32_hrp hrp) ds) XOR 1)) [0..<6]))"

lemma length_bech_string: "length (bech_string hrp ver xs) = length hrp + 8 + (8 * length xs + 4) div 5"
  by (simp add: bech_string_def Let_def length_digits5)

lemma encode_form:
  fixes data hrp
  defines "ver \<equiv> witness_ver data" and "len \<equiv> unat (data ! 1)"
  defines "s \<equiv> bech_string hrp ver (map ((!) data) [2..<2 + len])"
  shows "LWBech32Encode hrp data =
    (if length hrp > 84 \<or> (\<exists>c \<in> set hrp. \<not> printable c \<or> isupper c) \<or> data ! 0 > OP_0 \<and> data ! 0 < OP_1 \<or>
        ver > 16 \<or> len < 2 \<or> len > 40 \<or> length hrp + 1 + 1 + len + 6 \<ge> 91 then Some None
     else if length s + 1 > 91 then None else Some (Some s))"
proof -
  let ?st = "bech32_emit ver (bech32_hrp hrp, hrp @ ''1'')"
  define chk where "chk = foldl bech_step (bech32_hrp hrp) (ver # digits5 (map ((!) data) [2..<2 + len]))"
  have loop: "snd (fold (bech32_step len data) [0..<len + 1] (0, ?st)) =
      (chk, hrp @ ''1'' @ map bech_char (ver # digits5 (map ((!) data) [2..<2 + len])))"
    using loop_emits [of 0 len data 0 ?st]
    by (simp add: emitted_digits5 fold_emit chk_def bech32_emit_def bech_step_def bech_char_def del: upt_Suc)
  obtain b where "fold (bech32_step len data) [0..<len + 1] (0, ?st) =
      (b, chk, hrp @ ''1'' @ map bech_char (ver # digits5 (map ((!) data) [2..<2 + len])))"
    using loop by (metis prod.collapse)
  moreover have "s = hrp @ CHR ''1'' # map bech_char (ver # digits5 (map ((!) data) [2..<2 + len])) @
      map (\<lambda>j. bech_char (chk_digit ((polymod ^^ 6) chk XOR 1) j)) [0..<6]"
    by (simp add: s_def bech_string_def Let_def chk_def del: upt_Suc upt_rec_numeral)
  ultimately show ?thesis
    unfolding LWBech32Encode_def Let_def witness_ver_def [symmetric] unat_chk_digit [symmetric] bech_char_def [symmetric]
      ver_def [symmetric] len_def [symmetric]
    by (simp del: upt_Suc upt_rec_numeral)
qed

lemma bech32_decode_encode:
  assumes enc: "LWBech32Encode hrp data = Some (Some s)" and hrp: "hrp \<noteq> []" and len: "2 + unat (data ! 1) \<le> length data"
    and s: "length s \<le> 90"
  shows "LWBech32Decode s = Some (hrp, take (2 + unat (data ! 1)) data)"
proof -
  let ?len = "unat (data ! 1)"
  define ver where "ver = witness_ver data"
  define xs where "xs = map ((!) data) [2..<2 + ?len]"
  define chk where "chk = foldl bech_step (bech32_hrp hrp) (ver # digits5 xs)"
  define cs where "cs = map (chk_digit ((polymod ^^ 6) chk XOR 1)) [0..<6]"
  have xs: "?len = 0 + length xs" "xs = take ?len (drop 2 data)"
    using len by (auto simp: xs_def simp del: upt_Suc intro!: nth_equalityI)
  have hrp_ok: "\<forall>c \<in> set hrp. printable c \<and> \<not> isupper c"
    and ver: "ver \<le> 16" "2 \<le> ?len" "?len \<le> 40" "\<not> (OP_0 < data ! 0 \<and> data ! 0 < OP_1)"
    and s_eq: "s = hrp @ CHR ''1'' # map bech_char (ver # digits5 xs @ cs)"
    using enc unfolding encode_form ver_def [symmetric] xs_def [symmetric]
    by (simp_all add: not_less bech_string_def Let_def cs_def chk_def split: if_splits)
  define r where r: "r = map bech_char (ver # digits5 xs @ cs)"
  have s_r: "s = hrp @ CHR ''1'' # r" unfolding s_eq r ..
  have small: "\<forall>d \<in> set (ver # digits5 xs @ cs). d < 32"
    using ver(1) digits5_less [of xs] by (auto simp: cs_def chk_digit_less intro: order_le_less_trans)
  then have chars: "\<forall>c \<in> set r. printable c \<and> \<not> isupper c \<and> c \<noteq> CHR ''1''"
    unfolding r by (auto simp only: set_map digit_char)
  then have ok: "\<not> (\<exists>c \<in> set s. \<not> printable c)" "\<not> list_ex isupper s" "\<forall>c \<in> set hrp. tolower c = c"
  proof -
    have "set s = insert CHR ''1'' (set hrp \<union> set r)" unfolding s_r by auto
    then have "\<forall>c \<in> set s. printable c \<and> \<not> isupper c"
      using hrp_ok chars by (simp add: ball_Un) (simp add: printable_def isupper_def char_in_def)
    then show "\<not> (\<exists>c \<in> set s. \<not> printable c)" "\<not> list_ex isupper s"
      unfolding list_ex_iff by simp_all
  qed (use hrp_ok tolower_id in blast)
  have sep: "find_sep s (length s) = length hrp"
  proof -
    have "CHR ''1'' \<notin> set r" using chars by blast
    from find_sep_last [OF this order_refl, of hrp] show ?thesis by (simp add: s_r)
  qed
  have chk_hrp: "foldl (\<lambda>chk c. polymod chk XOR (of_char c AND 0x1f))
      (polymod (foldl (\<lambda>chk c. polymod chk XOR drop_bit 5 (of_char (tolower c))) 1 hrp)) hrp = bech32_hrp hrp"
    using ok(3) unfolding bech32_hrp_def Let_def by (simp cong: foldl_cong)
  have cs: "length cs = 6" by (simp add: cs_def)
  have "bech32_loop None r (bech32_hrp hrp) 0xff (replicate 52 0) =
      Some (foldl bech_step chk cs, ver, put_digits 0 (digits5 xs) (replicate 52 0))"
    using small loop_digits [OF _ cs, of "digits5 xs" 0] by (simp add: r digit_char bech_step_def [symmetric] chk_def)
  also have "foldl bech_step chk cs = 1" by (simp only: cs_def checksum_ok)
  also have "put_digits 0 (digits5 xs) (replicate 52 0) = xs @ replicate (52 - length xs) 0"
    using ver(3) xs(1) by (intro put_digits5) simp
  finally have loop: "bech32_loop None r (bech32_hrp hrp) 0xff (replicate 52 0) = Some (1, ver, xs @ replicate (52 - length xs) 0)" .
  have lens: "length s = length hrp + 8 + (8 * length xs + 4) div 5"
    by (simp add: s_r r length_digits5 cs)
  have buf_len: "(8 * length xs + 4) div 5 * 5 div 8 = length xs" by arith
  have data: "take (2 + ?len) data = data ! 0 # data ! 1 # xs"
  proof -
    have "data \<noteq> []" using len by auto
    then show ?thesis
      using len take_Suc_conv_app_nth [of 0 data] take_Suc_conv_app_nth [of 1 data] unfolding take_add xs(2) [symmetric]
      by (simp add: numeral_2_eq_2)
  qed
  have v0: "(if ver = 0 then OP_0 else ver + OP_1 - 1) = data ! 0"
    using ver(4) unfolding ver_def witness_ver_def OP_0_def OP_1_def by (auto simp: word_gt_0)
  have parts: "take (length hrp) s = hrp" "drop (length hrp + 1) s = r"
    by (simp_all add: s_r)
  have "of_nat ?len = data ! 1" by simp
  then have "of_nat (length xs) = data ! 1" unfolding xs(1) by simp
  then show ?thesis
    using ok hrp s lens ver(1,2,3) xs(1) unfolding LWBech32Decode_def Let_def sep parts chk_hrp loop data
    by (simp add: buf_len v0 map_idI not_less)
qed

text \<open>
  C31. Decoding inverts encoding: for every human-readable part and every witness program of any
  version and length for which \<open>LWBech32Encode\<close> produces a string of the 90 characters an address
  may have, \<open>LWBech32Decode\<close> returns that part and exactly the bytes of the program.
\<close>

theorem bech32_roundtrip:
  assumes "LWBech32Encode hrp data = Some (Some s)" "hrp \<noteq> []" "2 + unat (data ! 1) \<le> length data"
    and "length s \<le> 90"
  shows "LWBech32Decode s = Some (hrp, take (2 + unat (data ! 1)) data)"
  using assms by (rule bech32_decode_encode)

lemma polymod_0_1:
  "polymod 0 = 0" "polymod 1 = 32"
  by (simp_all add: polymod_def)

lemma polymod_six: "(polymod ^^ 6) x = polymod (polymod (polymod (polymod (polymod (polymod x)))))"
  by (simp add: eval_nat_numeral)

lemmas bech32_eval = Let_def printable_def isupper_def islower_def char_in_def OP_0_def OP_1_def bech32_hrp_def
  bech32_emit_def bech32_step_def polymod_six polymod_def [of "numeral n" for n] polymod_0_1 bech32_chars_def

theorem bech32_roundtrip_witness:
  "LWBech32Decode ''ltc1qqypqff38v2'' = Some (''ltc'', take (2 + unat ([0, 2, 1, 2 :: u8] ! 1)) [0, 2, 1, 2])"
proof (rule bech32_roundtrip)
  have "[0..<6] = [0, 1, 2, 3, 4, 5]" "[0..<2 + 1] = [0, 1, 2]" by (simp_all add: upt_rec)
  then show "LWBech32Encode ''ltc'' [0, 2, 1, 2] = Some (Some ''ltc1qqypqff38v2'')"
    by (simp add: LWBech32Encode_def bech32_eval)
qed simp_all

lemma bech32_loop_length: "bech32_loop j as chk ver buf = Some (chk', ver', buf') \<Longrightarrow> length buf' = length buf"
  by (induction j as chk ver buf rule: bech32_loop.induct)
    (auto simp: Let_def put_digit_def split: option.splits if_splits)

text \<open>
  The decoder stays inside its caller's buffers and checks what it promises: a result has a
  human-readable part of 1 to 82 characters, a program of 2 to 40 bytes behind its length byte,
  a version opcode, and it comes from a printable address of at most 90 characters in one case.
\<close>

theorem bech32_decode_bounds:
  assumes "LWBech32Decode addr = Some (hrp, data)"
  shows "length hrp \<in> {1..82} \<and> length data = 2 + unat (data ! 1) \<and> unat (data ! 1) \<in> {2..40} \<and>
    (data ! 0 = OP_0 \<or> OP_1 \<le> data ! 0 \<and> data ! 0 \<le> OP_1 + 15) \<and>
    length addr \<le> 90 \<and> list_all printable addr \<and> \<not> (list_ex isupper addr \<and> list_ex islower addr)"
proof -
  define sep where "sep = find_sep addr (length addr)"
  define n where "n = (length addr - (sep + 2 + 6)) * 5 div 8"
  have pr: "list_all printable addr" using assms by (auto simp: LWBech32Decode_def list_all_iff split: if_splits)
  have len: "\<not> length addr > 90" "\<not> sep < 1" "\<not> sep + 2 + 6 > length addr" "\<not> (list_ex isupper addr \<and> list_ex islower addr)"
    using assms by (auto simp: LWBech32Decode_def Let_def sep_def [symmetric] split: if_splits)
  from assms obtain hrp0 as c chk ver buf where loop: "bech32_loop None as c 0xff (replicate 52 0) = Some (chk, ver, buf)"
    and n: "\<not> n < 2" "\<not> n > 40" and v: "\<not> ver > 16" and hrp: "hrp = map tolower (take sep addr)"
    and data: "data = (if ver = 0 then OP_0 else ver + OP_1 - 1) # of_nat n # take n buf"
    by (auto simp: LWBech32Decode_def Let_def sep_def [symmetric] n_def split: if_splits option.splits)
  have "length buf = 52" using bech32_loop_length [OF loop] by simp
  moreover have "unat (of_nat n :: u8) = n" using n by (simp add: unsigned_of_nat take_bit_nat_eq_self)
  moreover have "ver = 0 \<or> OP_1 \<le> ver + OP_1 - 1 \<and> ver + OP_1 - 1 \<le> OP_1 + 15"
  proof (cases "ver = 0")
    case False
    then have "1 \<le> unat ver" "unat ver \<le> 16" using v by (simp_all add: word_le_nat_alt unat_gt_0 Suc_le_eq not_less)
    then show ?thesis by (simp add: OP_1_def word_le_nat_alt unat_word_ariths mod_less)
  qed simp
  ultimately show ?thesis using pr len n by (auto simp: data hrp)
qed

text \<open>
  The encoder's own check bounds the length of the data before regrouping, so a long
  human-readable part lets it write past \<open>addr[91]\<close>: 40 characters and 40 bytes pass the check
  and need 113 bytes. With a part of at most 18 characters (the wallet's are three or four) the
  buffer is never overrun, whatever the data.
\<close>

theorem bech32_encode_overrun:
  "LWBech32Encode (replicate 40 CHR ''a'') (0 # 40 # replicate 40 0) = None \<and>
   (\<forall>hrp data. length hrp \<le> 18 \<longrightarrow> LWBech32Encode hrp data \<noteq> None)"
proof
  show "LWBech32Encode (replicate 40 CHR ''a'') (0 # 40 # replicate 40 0) = None"
    by (simp add: encode_form witness_ver_def OP_0_def OP_1_def length_bech_string printable_def isupper_def char_in_def)
  show "\<forall>hrp data. length hrp \<le> 18 \<longrightarrow> LWBech32Encode hrp data \<noteq> None"
    by (auto simp: encode_form length_bech_string)
qed

theorem bech32_encode_overrun_witness: "LWBech32Encode ''ltc'' (0 # 40 # replicate 40 0) \<noteq> None"
  using bech32_encode_overrun by simp

lemma replicate_2: "replicate 2 x = [x, x]"
  by (simp add: numeral_2_eq_2)

text \<open>
  The padding bits of the last digit are not checked: these two different addresses, with
  valid checksums, decode to the same witness program.
\<close>

theorem bech32_padding_ignored:
  "LWBech32Decode ''ltc1qqypqff38v2'' = Some (''ltc'', [0, 2, 1, 2]) \<and>
   LWBech32Decode ''ltc1qqypp5l9j3c'' = Some (''ltc'', [0, 2, 1, 2])"
  by (rule conjI; simp add: LWBech32Decode_def bech32_eval bech32_value_def tolower_def put_digit_def;
      simp add: take_update_swap replicate_2)

theorem bech32_decode_bounds_witness:
  "length ''ltc'' \<in> {1..82} \<and> length [0, 2, 1, 2 :: u8] = 2 + unat ([0, 2, 1, 2 :: u8] ! 1)"
  using bech32_decode_bounds [of "''ltc1qqypqff38v2''" "''ltc''" "[0, 2, 1, 2]"]
  by (simp add: LWBech32Decode_def bech32_eval bech32_value_def tolower_def put_digit_def take_update_swap replicate_2)

end
