(* ===== verification/LW_Address.thy ===== *)
theory LW_Address
  imports LW_Bech32
begin

text \<open>
  Model of \<^verbatim>\<open>LWAddress.c\<close>: variable-length integers, the scanner and builder of script data
  pushes, and the maps between scripts and addresses. A pointer into a script is the rest of the
  script from there on, \<open>None\<close> for NULL; a read outside the script makes the result \<open>None\<close>. The
  build option \<^verbatim>\<open>LITECOIN_TESTNET\<close> is the argument \<open>testnet\<close>.
\<close>

subsection \<open>Variable-length integers\<close>

text \<open>The value and its length, for the bytes available; a NULL buffer has none.\<close>

definition LWVarInt :: "bytes \<Rightarrow> u64 \<times> nat" where
  "LWVarInt buf =
     (let h = (if 1 \<le> length buf then buf ! 0 else 0) in
      if h = 0xfd then (if 1 + 2 \<le> length buf then ucast (UInt16GetLE (drop 1 buf)) else 0, 1 + 2)
      else if h = 0xfe then (if 1 + 4 \<le> length buf then ucast (UInt32GetLE (drop 1 buf)) else 0, 1 + 4)
      else if h = 0xff then (if 1 + 8 \<le> length buf then UInt64GetLE (drop 1 buf) else 0, 1 + 8)
      else (ucast h, 1))"

definition LWVarIntSet :: "u64 \<Rightarrow> writer" where
  "LWVarIntSet i cb =
     (if i < 0xfd then finish (put [ucast i] (0, cb))
      else if i \<le> 0xffff then finish (put (0xfd # UInt16SetLE (ucast i)) (0, cb))
      else if i \<le> 0xffffffff then finish (put (0xfe # UInt32SetLE (ucast i)) (0, cb))
      else finish (put (0xff # UInt64SetLE i) (0, cb)))"

definition LWVarIntSize :: "u64 \<Rightarrow> nat" where
  "LWVarIntSize i = fst (LWVarIntSet i None)"

subsection \<open>Script elements\<close>

definition OP_PUSHDATA1 :: u8 where "OP_PUSHDATA1 = 0x4c"
definition OP_PUSHDATA2 :: u8 where "OP_PUSHDATA2 = 0x4d"
definition OP_PUSHDATA4 :: u8 where "OP_PUSHDATA4 = 0x4e"
definition OP_16 :: u8 where "OP_16 = 0x60"
definition OP_DUP :: u8 where "OP_DUP = 0x76"
definition OP_EQUAL :: u8 where "OP_EQUAL = 0x87"
definition OP_EQUALVERIFY :: u8 where "OP_EQUALVERIFY = 0x88"
definition OP_HASH160 :: u8 where "OP_HASH160 = 0xa9"
definition OP_CHECKSIG :: u8 where "OP_CHECKSIG = 0xac"

text \<open>
  One iteration, from offset and \<open>len\<close>: when the length bytes of a push are missing, \<open>len\<close> keeps
  its value from the element before.
\<close>

definition script_step :: "bytes \<Rightarrow> nat \<times> nat \<Rightarrow> nat \<times> nat" where
  "script_step script = (\<lambda>(off, len).
     let scriptLen = length script; op = script ! off;
         (off, len) =
           (if op = OP_PUSHDATA1 then
              (off + 1 + 1, if off + 1 + 1 \<le> scriptLen then unat (script ! (off + 1)) else len)
            else if op = OP_PUSHDATA2 then
              (off + 1 + 2, if off + 1 + 2 \<le> scriptLen then unat (UInt16GetLE (drop (off + 1) script)) else len)
            else if op = OP_PUSHDATA4 then
              (off + 1 + 4, if off + 1 + 4 \<le> scriptLen then unat (UInt32GetLE (drop (off + 1) script)) else len)
            else (off + 1, if op > OP_PUSHDATA4 then 0 else unat op))
     in (off + len, len))"

lemma script_step_advances: "off < fst (script_step script (off, len))"
  by (simp add: script_step_def Let_def)

text \<open>The offsets of the elements, and the offset at which the scan ends.\<close>

function script_scan :: "bytes \<Rightarrow> nat \<times> nat \<Rightarrow> nat list \<times> nat" where
  "script_scan script (off, len) =
     (if off < length script then
        (let (elems, end) = script_scan script (script_step script (off, len)) in (off # elems, end))
      else ([], off))"
  by pat_completeness auto
termination
proof (relation "measure (\<lambda>(script, off, len). length script - off)")
  fix script :: bytes and off len :: nat
  assume "off < length script"
  moreover obtain off' len' where "script_step script (off, len) = (off', len')" by fastforce
  ultimately show "((script, script_step script (off, len)), script, off, len) \<in>
      measure (\<lambda>(script, off, len). length script - off)"
    using script_step_advances [of off script len] by simp
qed simp

declare script_scan.simps [simp del]

text \<open>The offsets written to \<open>elems\<close> (room for \<open>elemsCount\<close>, \<open>None\<close> for NULL); empty when 0 is returned.\<close>

definition LWScriptElements :: "nat option \<Rightarrow> bytes \<Rightarrow> nat list" where
  "LWScriptElements elemsCount script =
     (let (elems, off) = script_scan script (0, 0)
      in if fits_in (length elems) elemsCount \<and> off = length script then elems else [])"

definition LWScriptData :: "bytes \<Rightarrow> (nat \<times> bytes option) option" where
  "LWScriptData elem = do {
     op \<leftarrow> deref elem 0;
     (dataLen, skip) \<leftarrow>
       (if op = OP_PUSHDATA1 then (if 1 + 1 \<le> length elem then Some (unat (elem ! 1), 1 + 1) else None)
        else if op = OP_PUSHDATA2 then
          (if 1 + 2 \<le> length elem then Some (unat (UInt16GetLE (drop 1 elem)), 1 + 2) else None)
        else if op = OP_PUSHDATA4 then
          (if 1 + 4 \<le> length elem then Some (unat (UInt32GetLE (drop 1 elem)), 1 + 4) else None)
        else Some (if op > OP_PUSHDATA4 then 0 else unat op, 1));
     Some (dataLen, if dataLen > 0 then Some (drop skip elem) else None) }"

definition LWScriptPushData :: "bytes \<Rightarrow> writer" where
  "LWScriptPushData data cb =
     (let dataLen = length data in
      if dataLen < unat OP_PUSHDATA1 then finish (put (of_nat dataLen # data) (0, cb))
      else if dataLen < 255 then finish (put ([OP_PUSHDATA1, of_nat dataLen] @ data) (0, cb))
      else if dataLen < 65535 then finish (put (OP_PUSHDATA2 # UInt16SetLE (of_nat dataLen) @ data) (0, cb))
      else finish (put (OP_PUSHDATA4 # UInt32SetLE (of_nat dataLen) @ data) (0, cb)))"

subsection \<open>Addresses\<close>

definition MAX_SCRIPT_LENGTH :: nat where "MAX_SCRIPT_LENGTH = 0x100"

definition pubkey_address :: "bool \<Rightarrow> u8" where
  "pubkey_address testnet = (if testnet then 111 else 48)"

definition script_address :: "bool \<Rightarrow> u8" where
  "script_address testnet = (if testnet then 58 else 50)"

definition bech32_prefix :: "bool \<Rightarrow> string" where
  "bech32_prefix testnet = (if testnet then ''tltc'' else ''ltc'')"

text \<open>Reading \<open>n\<close> bytes through a pointer.\<close>

definition read_n :: "bytes option \<Rightarrow> nat \<Rightarrow> bytes option" where
  "read_n d n = (case d of None \<Rightarrow> None | Some b \<Rightarrow> if n \<le> length b then Some (take n b) else None)"

text \<open>\<open>Some None\<close> when 0 is returned, \<open>Some (Some a)\<close> for an address that is written.\<close>

definition LWAddressFromScriptPubKey :: "bool \<Rightarrow> nat option \<Rightarrow> bytes \<Rightarrow> string option option" where
  "LWAddressFromScriptPubKey testnet addrLen script =
     (if length script = 0 \<or> length script > MAX_SCRIPT_LENGTH then Some None
      else
        (let elems = LWScriptElements (Some (length (LWScriptElements None script))) script;
             count = length elems; op = (\<lambda>i. script ! (elems ! i)); elem = (\<lambda>i. drop (elems ! i) script)
         in if count = 5 \<and> op 0 = OP_DUP \<and> op 1 = OP_HASH160 \<and> op 2 = 20 \<and>
               op 3 = OP_EQUALVERIFY \<and> op 4 = OP_CHECKSIG then do {
              (l, d) \<leftarrow> LWScriptData (elem 2);
              hash \<leftarrow> read_n d 20;
              Some (LWBase58CheckEncode addrLen (pubkey_address testnet # hash)) }
            else if count = 3 \<and> op 0 = OP_HASH160 \<and> op 1 = 20 \<and> op 2 = OP_EQUAL then do {
              (l, d) \<leftarrow> LWScriptData (elem 1);
              hash \<leftarrow> read_n d 20;
              Some (LWBase58CheckEncode addrLen (script_address testnet # hash)) }
            else if count = 2 \<and> (op 0 = 65 \<or> op 0 = 33) \<and> op 1 = OP_CHECKSIG then do {
              (l, d) \<leftarrow> LWScriptData (elem 0);
              key \<leftarrow> read_n d l;
              Some (LWBase58CheckEncode addrLen (pubkey_address testnet # LWHash160 key)) }
            else if count = 2 \<and> (op 0 = OP_0 \<and> (op 1 = 20 \<or> op 1 = 32) \<or>
                 op 0 \<ge> OP_1 \<and> op 0 \<le> OP_16 \<and> op 1 \<ge> 2 \<and> op 1 \<le> 40) then do {
              a \<leftarrow> LWBech32Encode (bech32_prefix testnet) script;
              Some (case a of None \<Rightarrow> None
                    | Some a \<Rightarrow> if fits_in (length a + 1) addrLen then Some a else None) }
            else Some None))"

definition LWAddressFromScriptSig :: "bool \<Rightarrow> nat option \<Rightarrow> bytes \<Rightarrow> string option option" where
  "LWAddressFromScriptSig testnet addrLen script =
     (if length script = 0 \<or> length script > MAX_SCRIPT_LENGTH then Some None
      else
        (let elems = LWScriptElements (Some (length (LWScriptElements None script))) script;
             count = length elems; op = (\<lambda>i. script ! (elems ! i)); elem = (\<lambda>i. drop (elems ! i) script)
         in if count \<ge> 2 \<and> op (count - 2) \<le> OP_PUSHDATA4 \<and> (op (count - 1) = 65 \<or> op (count - 1) = 33) then do {
              (l, d) \<leftarrow> LWScriptData (elem (count - 1));
              if l \<noteq> 65 \<and> l \<noteq> 33 \<or> d = None then Some None
              else do {
                key \<leftarrow> read_n d l;
                Some (LWBase58CheckEncode addrLen (pubkey_address testnet # LWHash160 key)) } }
            else if count \<ge> 2 \<and> op (count - 2) \<le> OP_PUSHDATA4 \<and> op (count - 1) \<le> OP_PUSHDATA4 \<and>
                    op (count - 1) > 0 then do {
              (l, d) \<leftarrow> LWScriptData (elem (count - 1));
              if d = None then Some None
              else do {
                redeem \<leftarrow> read_n d l;
                Some (LWBase58CheckEncode addrLen (script_address testnet # LWHash160 redeem)) } }
            else Some None))"

text \<open>Not implemented by the source, which returns 0.\<close>

definition LWAddressFromWitness :: "nat option \<Rightarrow> bytes \<Rightarrow> string option" where
  "LWAddressFromWitness addrLen witness = None"

definition LWAddressScriptPubKey :: "bool \<Rightarrow> string \<Rightarrow> writer" where
  "LWAddressScriptPubKey testnet addr cb =
     (let data = LWBase58CheckDecode (Some 42) addr in
      if length data = 21 then
        if data ! 0 = pubkey_address testnet then
          finish (put ([OP_DUP, OP_HASH160, 20] @ drop 1 data @ [OP_EQUALVERIFY, OP_CHECKSIG]) (0, cb))
        else if data ! 0 = script_address testnet then
          finish (put ([OP_HASH160, 20] @ drop 1 data @ [OP_EQUAL]) (0, cb))
        else (0, cb)
      else
        (case LWBech32Decode addr of None \<Rightarrow> (0, cb)
         | Some (hrp, data) \<Rightarrow>
             if length data > 2 \<and> hrp = bech32_prefix testnet \<and>
                (data ! 0 \<noteq> OP_0 \<or> data ! 1 = 20 \<or> data ! 1 = 32) then finish (put data (0, cb))
             else (0, cb)))"

definition LWAddressIsValid :: "bool \<Rightarrow> string \<Rightarrow> bool" where
  "LWAddressIsValid testnet addr =
     (let data = LWBase58CheckDecode (Some 42) addr in
      if length data = 21 then data ! 0 = pubkey_address testnet \<or> data ! 0 = script_address testnet
      else
        (case LWBech32Decode addr of None \<Rightarrow> False
         | Some (hrp, data) \<Rightarrow>
             length data > 2 \<and> hrp = bech32_prefix testnet \<and>
             (data ! 0 \<noteq> OP_0 \<or> data ! 1 = 20 \<or> data ! 1 = 32)))"

definition LWAddressHash160 :: "string \<Rightarrow> bytes option" where
  "LWAddressHash160 addr =
     (let data = LWBase58CheckDecode (Some 21) addr
      in if length data = 21 then Some (drop 1 data) else None)"

definition LWAddressHash :: "string \<Rightarrow> u32" where
  "LWAddressHash addr = LWMurmur3_32 (map of_char addr) 0"

text \<open>\<^verbatim>\<open>strncmp\<close> over the 75 bytes of an \<open>LWAddress\<close>.\<close>

definition LWAddressEq :: "string \<Rightarrow> string \<Rightarrow> bool" where
  "LWAddressEq addr otherAddr = (take 75 addr = take 75 otherAddr)"

subsection \<open>Variable-length integers: correctness\<close>

lemma writes_put [wsteps]: "writes (\<lambda>cb. finish (put bs (0, cb))) bs"
  using writes_steps [of "[put bs]" bs] wstep_steps_Cons [OF wstep_put wstep_steps_Nil, of bs] by simp

text \<open>The canonical encoding.\<close>

definition varint :: "u64 \<Rightarrow> bytes" where
  "varint i =
     (if i < 0xfd then [ucast i]
      else if i \<le> 0xffff then 0xfd # UInt16SetLE (ucast i)
      else if i \<le> 0xffffffff then 0xfe # UInt32SetLE (ucast i)
      else 0xff # UInt64SetLE i)"

lemma LWVarIntSet_writes [wsteps]: "writes (LWVarIntSet i) (varint i)"
proof -
  have "LWVarIntSet i = (\<lambda>cb. finish (put (varint i) (0, cb)))"
    by (simp add: LWVarIntSet_def varint_def fun_eq_iff)
  then show ?thesis by (simp add: writes_put)
qed

lemma LWVarIntSize_varint: "LWVarIntSize i = length (varint i)"
  by (simp add: LWVarIntSize_def writes_NULL [OF LWVarIntSet_writes])

lemma ucast_ucast_small: "unat i < 2 ^ LENGTH('b) \<Longrightarrow> (ucast (ucast i :: 'b::len word) :: 'a::len word) = i"
  by (simp add: unsigned_ucast_eq word_unat_eq_iff unsigned_take_bit_eq take_bit_nat_eq_self)

lemma LWVarInt_varint [roundtrip]: "LWVarInt (varint i @ t) = (i, length (varint i))"
proof -
  have 8: "i < 0xfd \<Longrightarrow> (ucast (ucast i :: u8) :: u64) = i" "i < 0xfd \<Longrightarrow> (ucast i :: u8) \<notin> {0xfd, 0xfe, 0xff}"
  proof -
    assume "i < 0xfd"
    then have i: "unat i < 253" by (simp add: word_less_nat_alt)
    then show "(ucast (ucast i :: u8) :: u64) = i" by (intro ucast_ucast_small) simp
    from i have "unat (ucast i :: u8) < 253" by (simp add: unsigned_ucast_eq unsigned_take_bit_eq take_bit_nat_eq_self)
    then show "(ucast i :: u8) \<notin> {0xfd, 0xfe, 0xff}" by auto
  qed
  have 16: "i \<le> 0xffff \<Longrightarrow> (ucast (ucast i :: u16) :: u64) = i"
    by (intro ucast_ucast_small) (simp add: word_le_nat_alt)
  have 32: "i \<le> 0xffffffff \<Longrightarrow> (ucast (ucast i :: u32) :: u64) = i"
    by (intro ucast_ucast_small) (simp add: word_le_nat_alt)
  show ?thesis
    using 8 16 32 by (auto simp: LWVarInt_def varint_def Let_def)
qed

lemma length_varint: "length (varint i) \<in> {1, 3, 5, 9}"
  by (simp add: varint_def)

subsection \<open>Script elements: correctness\<close>

lemma scan_Cons:
  "script_scan s (off, len) = (e # es, end) \<longleftrightarrow>
   e = off \<and> off < length s \<and> script_scan s (script_step s (off, len)) = (es, end)"
  by (subst script_scan.simps) (auto split: prod.splits)

lemma scan_Nil: "script_scan s (off, len) = ([], end) \<longleftrightarrow> end = off \<and> length s \<le> off"
  by (subst script_scan.simps) (auto split: prod.splits)

lemma step_op:
  "s ! off \<notin> {OP_PUSHDATA1, OP_PUSHDATA2, OP_PUSHDATA4} \<Longrightarrow>
   script_step s (off, len) = (off + 1 + (if s ! off > OP_PUSHDATA4 then 0 else unat (s ! off)),
     if s ! off > OP_PUSHDATA4 then 0 else unat (s ! off))"
  by (simp add: script_step_def Let_def)

lemma scan_end: "script_scan s (off, len) = (es, end) \<Longrightarrow> off \<le> end"
proof (induction es arbitrary: off len)
  case (Cons e es)
  obtain off' len' where step: "script_step s (off, len) = (off', len')" by fastforce
  then have "script_scan s (off', len') = (es, end)" using Cons.prems by (simp add: scan_Cons)
  then have "off' \<le> end" by (rule Cons.IH)
  then show ?case using script_step_advances [of off s len] step by simp
qed (simp add: scan_Nil)

lemma step_data:
  assumes "off < length s" "script_step s (off, len) = (off', len')" "off' \<le> length s"
  shows "\<exists>k > 0. off' = off + k + len' \<and>
    LWScriptData (drop off s) = Some (len', if len' > 0 then Some (drop (off + k) s) else None)"
proof -
  define op where "op = s ! off"
  have op: "deref (drop off s) 0 = Some op" "drop off s ! 1 = s ! (off + 1)" "drop 1 (drop off s) = drop (off + 1) s"
    using assms(1) by (simp_all add: op_def add.commute deref_def)
  consider "op = OP_PUSHDATA1" | "op = OP_PUSHDATA2" | "op = OP_PUSHDATA4" | "op \<notin> {OP_PUSHDATA1, OP_PUSHDATA2, OP_PUSHDATA4}"
    by auto
  then show ?thesis
  proof cases
    case 1
    then have "off' = off + 2 + len'" "off + 2 \<le> length s \<Longrightarrow> len' = unat (s ! (off + 1))"
      using assms(2) by (auto simp: script_step_def Let_def op_def [symmetric])
    then show ?thesis using assms(3) 1 op
      by (intro exI [of _ 2]) (auto simp: LWScriptData_def add.commute)
  next
    case 2
    then have "off' = off + 3 + len'" "off + 3 \<le> length s \<Longrightarrow> len' = unat (UInt16GetLE (drop (off + 1) s))"
      using assms(2) by (auto simp: script_step_def Let_def op_def [symmetric] OP_PUSHDATA1_def OP_PUSHDATA2_def)
    then show ?thesis using assms(3) 2 op
      by (intro exI [of _ 3]) (auto simp: LWScriptData_def add.commute eval_nat_numeral OP_PUSHDATA1_def OP_PUSHDATA2_def)
  next
    case 3
    then have "off' = off + 5 + len'" "off + 5 \<le> length s \<Longrightarrow> len' = unat (UInt32GetLE (drop (off + 1) s))"
      using assms(2) by (auto simp: script_step_def Let_def op_def [symmetric] OP_PUSHDATA1_def OP_PUSHDATA2_def OP_PUSHDATA4_def)
    then show ?thesis using assms(3) 3 op
      by (intro exI [of _ 5]) (auto simp: LWScriptData_def add.commute eval_nat_numeral OP_PUSHDATA1_def OP_PUSHDATA2_def OP_PUSHDATA4_def)
  next
    case 4
    then show ?thesis using assms(2) op
      by (intro exI [of _ 1]) (auto simp: LWScriptData_def step_op op_def [symmetric])
  qed
qed

text \<open>\<open>tiles s off es\<close>: the elements at \<open>es\<close> cover \<open>s\<close> from \<open>off\<close> on, one after the other.\<close>

fun tiles :: "bytes \<Rightarrow> nat \<Rightarrow> nat list \<Rightarrow> bool" where
  "tiles s off [] \<longleftrightarrow> off = length s"
| "tiles s off (e # es) \<longleftrightarrow> e = off \<and> off < length s \<and>
     (\<exists>k n. 0 < k \<and> LWScriptData (drop off s) = Some (n, if n > 0 then Some (drop (off + k) s) else None) \<and>
       tiles s (off + k + n) es)"

lemma tiles_le: "tiles s off es \<Longrightarrow> off \<le> length s"
  by (cases es) auto

lemma scan_tiles: "script_scan s (off, len) = (es, length s) \<Longrightarrow> tiles s off es"
proof (induction es arbitrary: off len)
  case (Cons e es)
  obtain off' len' where step: "script_step s (off, len) = (off', len')" by fastforce
  then have *: "e = off" "off < length s" "script_scan s (off', len') = (es, length s)"
    using Cons.prems by (auto simp: scan_Cons)
  from step_data [OF *(2) step scan_end [OF *(3)]]
  obtain k where k: "0 < k" "off' = off + k + len'"
      "LWScriptData (drop off s) = Some (len', if len' > 0 then Some (drop (off + k) s) else None)" by blast
  moreover have "tiles s off' es" using *(3) by (rule Cons.IH)
  ultimately show ?case using * unfolding tiles.simps by blast
qed (simp add: scan_Nil)

lemma elements_tiles: "es = LWScriptElements cap s \<Longrightarrow> es = [] \<or> tiles s 0 es"
  using scan_tiles [of s 0 0] by (auto simp: LWScriptElements_def split: prod.splits if_splits)

lemma elements_twice:
  "LWScriptElements (Some (length (LWScriptElements None s))) s = LWScriptElements None s"
  by (auto simp: LWScriptElements_def fits_in_def split: prod.splits)

subsection \<open>Building scripts\<close>

definition push_bytes :: "bytes \<Rightarrow> bytes" where
  "push_bytes d =
     (if length d < 76 then [of_nat (length d)]
      else if length d < 255 then [OP_PUSHDATA1, of_nat (length d)]
      else if length d < 65535 then OP_PUSHDATA2 # UInt16SetLE (of_nat (length d))
      else OP_PUSHDATA4 # UInt32SetLE (of_nat (length d))) @ d"

lemma LWScriptPushData_writes [wsteps]: "writes (LWScriptPushData d) (push_bytes d)"
proof -
  have "LWScriptPushData d = (\<lambda>cb. finish (put (push_bytes d) (0, cb)))"
    by (simp add: LWScriptPushData_def push_bytes_def fun_eq_iff Let_def OP_PUSHDATA1_def)
  then show ?thesis by (simp add: writes_put)
qed

lemma push_step:
  assumes d: "length d < 2 ^ 32"
  shows "script_step (pre @ push_bytes d @ t) (length pre, len) = (length pre + length (push_bytes d), length d)"
proof -
  consider "length d < 76" | "76 \<le> length d" "length d < 255" | "255 \<le> length d" "length d < 65535" | "65535 \<le> length d" by linarith
  then show ?thesis
  proof cases
    case 1
    moreover have "(of_nat (length d) :: u8) \<notin> {OP_PUSHDATA1, OP_PUSHDATA2, OP_PUSHDATA4} \<and>
        \<not> of_nat (length d) > OP_PUSHDATA4 \<and> unat (of_nat (length d) :: u8) = length d"
      using 1 by (auto simp: word_less_nat_alt word_unat_eq_iff unsigned_of_nat take_bit_nat_eq_self OP_PUSHDATA1_def OP_PUSHDATA2_def OP_PUSHDATA4_def)
    ultimately show ?thesis by (simp add: step_op nth_append push_bytes_def)
  next
    case 2
    then show ?thesis
      by (simp add: script_step_def Let_def nth_append push_bytes_def unsigned_of_nat take_bit_nat_eq_self)
  next
    case 3
    then show ?thesis
      by (simp add: script_step_def Let_def nth_append push_bytes_def unsigned_of_nat take_bit_nat_eq_self OP_PUSHDATA1_def OP_PUSHDATA2_def)
  next
    case 4
    then show ?thesis using d
      by (simp add: script_step_def Let_def nth_append push_bytes_def unsigned_of_nat take_bit_nat_eq_self OP_PUSHDATA1_def OP_PUSHDATA2_def OP_PUSHDATA4_def)
  qed
qed

fun offsets :: "nat \<Rightarrow> bytes list \<Rightarrow> nat list" where
  "offsets n [] = []"
| "offsets n (x # xs) = n # offsets (n + length x) xs"

lemma scan_pushes:
  "\<forall>d \<in> set ds. length d < 2 ^ 32 \<Longrightarrow>
   script_scan (pre @ concat (map push_bytes ds)) (length pre, len) =
   (offsets (length pre) (map push_bytes ds), length (pre @ concat (map push_bytes ds)))"
proof (induction ds arbitrary: pre len)
  case (Cons d ds)
  have "0 < length (push_bytes d)" by (simp add: push_bytes_def)
  then show ?case
    using Cons.IH [of "pre @ push_bytes d" "length d"] Cons.prems push_step [of d pre "concat (map push_bytes ds)" len]
    by (simp add: scan_Cons add.assoc)
qed (simp add: scan_Nil)

lemma data_push:
  assumes d: "length d < 2 ^ 32"
  shows "LWScriptData (push_bytes d @ t) = Some (length d, if d = [] then None else Some (d @ t))"
proof -
  have "0 < length (push_bytes d @ t)" by (simp add: push_bytes_def)
  from step_data [OF this push_step [OF d, of "[]", simplified]]
  obtain k where k: "length (push_bytes d) = k + length d"
    "LWScriptData (push_bytes d @ t) = Some (length d, if d \<noteq> [] then Some (drop k (push_bytes d @ t)) else None)" by auto
  then have "drop k (push_bytes d) = d" "k \<le> length (push_bytes d)" by (simp_all add: push_bytes_def split: if_splits)
  then show ?thesis using k(2) by auto
qed

lemma offsets_nth: "i < length xs \<Longrightarrow> drop (offsets n xs ! i) (pre @ concat xs) = concat (drop i xs)" if "length pre = n" for n
  using that
proof (induction xs arbitrary: i n pre)
  case (Cons x xs)
  then show ?case using Cons.IH [where pre = "pre @ x" and n = "n + length x"] by (cases i) auto
qed simp

lemma length_offsets [simp]: "length (offsets n xs) = length xs"
  by (induction xs arbitrary: n) simp_all

subsection \<open>The standard scripts\<close>

definition p2pkh :: "bytes \<Rightarrow> bytes" where
  "p2pkh h = [OP_DUP, OP_HASH160, 20] @ h @ [OP_EQUALVERIFY, OP_CHECKSIG]"

definition p2sh :: "bytes \<Rightarrow> bytes" where
  "p2sh h = [OP_HASH160, 20] @ h @ [OP_EQUAL]"

definition p2pk :: "bytes \<Rightarrow> bytes" where
  "p2pk key = of_nat (length key) # key @ [OP_CHECKSIG]"

definition witness_ok :: "u8 \<Rightarrow> bytes \<Rightarrow> bool" where
  "witness_ok v prog \<longleftrightarrow> v = OP_0 \<and> length prog \<in> {20, 32} \<or> OP_1 \<le> v \<and> v \<le> OP_16 \<and> length prog \<in> {2..40}"

definition p2w :: "u8 \<Rightarrow> bytes \<Rightarrow> bytes" where
  "p2w v prog = v # of_nat (length prog) # prog"

lemmas opcodes = OP_PUSHDATA1_def OP_PUSHDATA2_def OP_PUSHDATA4_def OP_DUP_def OP_HASH160_def OP_EQUAL_def
  OP_EQUALVERIFY_def OP_CHECKSIG_def OP_0_def OP_1_def OP_16_def

lemma elements_scan: "LWScriptElements None s = e # es \<longleftrightarrow> script_scan s (0, 0) = (e # es, length s)"
  by (auto simp: LWScriptElements_def fits_in_def split: prod.splits if_splits)

lemmas unroll = scan_Cons scan_Nil step_op

lemma cut1: "i < length s \<Longrightarrow> s ! i = x \<Longrightarrow> drop i s = x # drop (i + 1) s"
  by (auto simp: Cons_nth_drop_Suc)

lemma cut: "drop i s = take n (drop i s) @ drop (i + n) s"
  by (metis append_take_drop_id drop_drop add.commute)

lemma drop_past: "drop off buf = xs @ t \<Longrightarrow> drop (off + length xs) buf = t"
  by (metis append_eq_conv_conj drop_drop add.commute)

lemma unat_length: "length xs < 2 ^ 32 \<Longrightarrow> unat (of_nat (length xs) :: u64) = length xs"
  by (simp add: unsigned_of_nat take_bit_nat_eq_self)

lemma push_free:
  "unat x \<le> 75 \<or> unat x \<ge> 79 \<Longrightarrow> x \<notin> {OP_PUSHDATA1, OP_PUSHDATA2, OP_PUSHDATA4}"
  "unat x \<ge> 79 \<Longrightarrow> x > OP_PUSHDATA4" "unat x \<le> 75 \<Longrightarrow> \<not> x > OP_PUSHDATA4"
  by (auto simp: opcodes word_less_nat_alt)

lemma p2pkh_elements:
  "LWScriptElements None s = [a, b, c, d, e] \<and> s ! a = OP_DUP \<and> s ! b = OP_HASH160 \<and> s ! c = 20 \<and>
     s ! d = OP_EQUALVERIFY \<and> s ! e = OP_CHECKSIG \<longleftrightarrow>
   [a, b, c, d, e] = [0, 1, 2, 23, 24] \<and> (\<exists>h. length h = 20 \<and> s = p2pkh h)" (is "?l \<longleftrightarrow> ?r")
proof
  assume l: ?l
  then have scan: "script_scan s (0, 0) = ([a, b, c, d, e], length s)"
    and op: "s ! a = OP_DUP" "s ! b = OP_HASH160" "s ! c = 20" "s ! d = OP_EQUALVERIFY" "s ! e = OP_CHECKSIG"
    by (simp_all add: elements_scan)
  then have *: "a = 0" "b = 1" "c = 2" "d = 23" "e = 24" "length s = 25"
    by (simp_all add: unroll opcodes cong: conj_cong)
  have "drop 0 s = p2pkh (take 20 (drop 3 s))"
    using op * cut1 [of 0 s OP_DUP] cut1 [of 1 s OP_HASH160] cut1 [of 2 s 20] cut [of 3 s 20]
      cut1 [of 23 s OP_EQUALVERIFY] cut1 [of 24 s OP_CHECKSIG] by (simp add: p2pkh_def numeral_2_eq_2 numeral_3_eq_3)
  then show ?r using * by (intro conjI exI [of _ "take 20 (drop 3 s)"]) auto
next
  assume ?r
  then show ?l by (auto simp: elements_scan p2pkh_def unroll opcodes nth_append)
qed

lemma p2sh_elements:
  "LWScriptElements None s = [a, b, c] \<and> s ! a = OP_HASH160 \<and> s ! b = 20 \<and> s ! c = OP_EQUAL \<longleftrightarrow>
   [a, b, c] = [0, 1, 22] \<and> (\<exists>h. length h = 20 \<and> s = p2sh h)" (is "?l \<longleftrightarrow> ?r")
proof
  assume l: ?l
  then have scan: "script_scan s (0, 0) = ([a, b, c], length s)"
    and op: "s ! a = OP_HASH160" "s ! b = 20" "s ! c = OP_EQUAL"
    by (simp_all add: elements_scan)
  then have *: "a = 0" "b = 1" "c = 22" "length s = 23"
    by (simp_all add: unroll opcodes cong: conj_cong)
  have "drop 0 s = p2sh (take 20 (drop 2 s))"
    using op * cut1 [of 0 s OP_HASH160] cut1 [of 1 s 20] cut [of 2 s 20] cut1 [of 22 s OP_EQUAL] by (simp add: p2sh_def numeral_2_eq_2)
  then show ?r using * by (intro conjI exI [of _ "take 20 (drop 2 s)"]) auto
next
  assume ?r
  then show ?l by (auto simp: elements_scan p2sh_def unroll opcodes nth_append)
qed

lemma p2pk_elements:
  "LWScriptElements None s = [a, b] \<and> (s ! a = 65 \<or> s ! a = 33) \<and> s ! b = OP_CHECKSIG \<longleftrightarrow>
   (\<exists>key. [a, b] = [0, length key + 1] \<and> length key \<in> {65, 33} \<and> s = p2pk key)" (is "?l \<longleftrightarrow> ?r")
proof
  assume l: ?l
  define n where "n = unat (s ! a)"
  have n: "n \<in> {65, 33}" using l by (auto simp: n_def)
  have *: "a = 0" "b = n + 1" "length s = n + 2" "s ! 0 = of_nat n"
  proof -
    have scan: "script_scan s (0, 0) = ([a, b], length s)" "s ! a = of_nat n" "s ! b = OP_CHECKSIG"
      using l by (simp_all add: elements_scan n_def)
    then show "a = 0" "b = n + 1" "length s = n + 2" "s ! 0 = of_nat n"
      using n by (auto simp: unroll opcodes cong: conj_cong)
  qed
  have "drop 0 s = p2pk (take n (drop 1 s))"
    using l * n cut1 [of 0 s "of_nat n"] cut [of 1 s n] cut1 [of "n + 1" s OP_CHECKSIG] by (simp add: p2pk_def)
  then show ?r using * n by (intro exI [of _ "take n (drop 1 s)"]) auto
next
  assume ?r
  then show ?l by (auto simp: elements_scan p2pk_def unroll opcodes nth_append)
qed

lemma p2w_elements:
  "LWScriptElements None s = [a, b] \<and> (s ! a = OP_0 \<and> (s ! b = 20 \<or> s ! b = 32) \<or>
      s ! a \<ge> OP_1 \<and> s ! a \<le> OP_16 \<and> s ! b \<ge> 2 \<and> s ! b \<le> 40) \<longleftrightarrow>
   [a, b] = [0, 1] \<and> (\<exists>v prog. witness_ok v prog \<and> s = p2w v prog)" (is "?l \<longleftrightarrow> ?r")
proof
  assume l: ?l
  define v n where "v = s ! a" and "n = unat (s ! b)"
  have v: "v = OP_0 \<and> n \<in> {20, 32} \<or> OP_1 \<le> v \<and> v \<le> OP_16 \<and> n \<in> {2..40}"
    using l by (auto simp: v_def n_def word_le_nat_alt)
  have "unat v = 0 \<or> unat v \<ge> 81 \<and> unat v \<le> 96" "n \<le> 40"
    using v by (auto simp: opcodes word_le_nat_alt)
  then have ops: "s ! a \<notin> {OP_PUSHDATA1, OP_PUSHDATA2, OP_PUSHDATA4}" "s ! b \<notin> {OP_PUSHDATA1, OP_PUSHDATA2, OP_PUSHDATA4}"
    "s ! a > OP_PUSHDATA4 \<or> s ! a = 0" "\<not> s ! b > OP_PUSHDATA4"
    by (auto simp: v_def n_def opcodes word_less_nat_alt unat_eq_0)
  have *: "a = 0" "b = 1" "length s = n + 2" 
  proof -
    have scan: "script_scan s (0, 0) = ([a, b], length s)" using l by (simp add: elements_scan)
    then show "a = 0" "b = 1" "length s = n + 2"
      using ops by (auto simp: unroll n_def cong: conj_cong)
  qed
  have "s ! 0 = v" "s ! 1 = of_nat n" using *(1,2) by (simp_all add: v_def n_def)
  then have "drop 0 s = p2w v (take n (drop 2 s))"
    using * cut1 [of 0 s v] cut1 [of 1 s "of_nat n"] by (simp add: p2w_def numeral_2_eq_2)
  moreover have "witness_ok v (take n (drop 2 s))" using v * by (auto simp: witness_ok_def)
  ultimately show ?r using * by auto
next
  assume ?r
  then obtain v prog where ab: "a = 0" "b = 1" and v: "witness_ok v prog" and s: "s = p2w v prog" by auto
  have "unat v = 0 \<or> unat v \<ge> 81 \<and> unat v \<le> 96" "length prog \<le> 40"
    using v by (auto simp: witness_ok_def opcodes word_le_nat_alt)
  moreover have n: "unat (of_nat (length prog) :: u8) = length prog" using calculation(2) by (simp add: unsigned_of_nat take_bit_nat_eq_self)
  ultimately have ops: "v \<notin> {OP_PUSHDATA1, OP_PUSHDATA2, OP_PUSHDATA4}"
    "of_nat (length prog) \<notin> {OP_PUSHDATA1, OP_PUSHDATA2, OP_PUSHDATA4}"
    "v > OP_PUSHDATA4 \<or> v = 0" "\<not> of_nat (length prog) > OP_PUSHDATA4"
    using push_free [of v] push_free [of "of_nat (length prog)"] by (auto simp: unat_eq_0)
  have "script_scan s (0, 0) = ([0, 1], length s)"
    using ops n by (auto simp: s p2w_def unroll)
  moreover have "s ! 0 = v" "s ! 1 = of_nat (length prog)" by (simp_all add: s p2w_def)
  ultimately show ?l using v n by (auto simp: elements_scan ab witness_ok_def word_le_nat_alt)
qed

text \<open>The address of each kind of script.\<close>

lemma length_scripts [lens, simp]:
  "length (p2pkh h) = length h + 5" "length (p2sh h) = length h + 3" "length (p2pk k) = length k + 2"
  "length (p2w v prog) = length prog + 2"
  by (simp_all add: p2pkh_def p2sh_def p2pk_def p2w_def)

lemmas from_script = LWAddressFromScriptPubKey_def elements_twice Let_def

lemma address_p2pkh:
  assumes h: "length h = 20"
  shows "LWAddressFromScriptPubKey tn cap (p2pkh h) = Some (LWBase58CheckEncode cap (pubkey_address tn # h))"
proof -
  have "LWScriptElements None (p2pkh h) = [0, 1, 2, 23, 24] \<and> p2pkh h ! 0 = OP_DUP \<and> p2pkh h ! 1 = OP_HASH160 \<and>
      p2pkh h ! 2 = 20 \<and> p2pkh h ! 23 = OP_EQUALVERIFY \<and> p2pkh h ! 24 = OP_CHECKSIG"
    using h p2pkh_elements [of "p2pkh h" 0 1 2 23 24] by blast
  moreover have "drop 2 (p2pkh h) = push_bytes h @ [OP_EQUALVERIFY, OP_CHECKSIG]"
    using h by (simp add: p2pkh_def push_bytes_def)
  moreover have "h \<noteq> []" using h by auto
  ultimately show ?thesis
    using h unfolding from_script by (simp add: MAX_SCRIPT_LENGTH_def data_push read_n_def)
qed

lemma address_p2sh:
  assumes h: "length h = 20"
  shows "LWAddressFromScriptPubKey tn cap (p2sh h) = Some (LWBase58CheckEncode cap (script_address tn # h))"
proof -
  have "LWScriptElements None (p2sh h) = [0, 1, 22] \<and> p2sh h ! 0 = OP_HASH160 \<and> p2sh h ! 1 = 20 \<and>
      p2sh h ! 22 = OP_EQUAL"
    using h p2sh_elements [of "p2sh h" 0 1 22] by blast
  moreover have "drop 1 (p2sh h) = push_bytes h @ [OP_EQUAL]"
    using h by (simp add: p2sh_def push_bytes_def)
  moreover have "h \<noteq> []" using h by auto
  ultimately show ?thesis
    using h unfolding from_script by (simp add: MAX_SCRIPT_LENGTH_def data_push read_n_def)
qed

lemma address_p2pk:
  assumes key: "length key \<in> {65, 33}"
  shows "LWAddressFromScriptPubKey tn cap (p2pk key) = Some (LWBase58CheckEncode cap (pubkey_address tn # LWHash160 key))"
proof -
  have "LWScriptElements None (p2pk key) = [0, length key + 1] \<and> (p2pk key ! 0 = 65 \<or> p2pk key ! 0 = 33) \<and>
      p2pk key ! (length key + 1) = OP_CHECKSIG"
    using key p2pk_elements [of "p2pk key" 0 "length key + 1"] by blast
  moreover have "LWScriptData (p2pk key) = Some (length key, Some (key @ [OP_CHECKSIG]))"
  proof -
    have "p2pk key = push_bytes key @ [OP_CHECKSIG]" using key by (auto simp: p2pk_def push_bytes_def)
    moreover have "key \<noteq> []" "length key < 2 ^ 32" using key by auto
    ultimately show ?thesis using data_push [of key "[OP_CHECKSIG]"] by simp
  qed
  moreover have "length key \<le> 65" using key by auto
  ultimately show ?thesis
    unfolding from_script by (simp add: MAX_SCRIPT_LENGTH_def read_n_def)
qed

lemma witness_len: "witness_ok v prog \<Longrightarrow> unat (of_nat (length prog) :: u8) = length prog \<and> length prog \<in> {2..40}"
  by (auto simp: witness_ok_def unsigned_of_nat take_bit_nat_eq_self)

lemma address_p2w: "witness_ok v prog \<Longrightarrow>
    \<exists>a. LWBech32Encode (bech32_prefix tn) (p2w v prog) = Some (Some a) \<and> length a \<le> 76 \<and>
      LWAddressFromScriptPubKey tn cap (p2w v prog) = Some (if fits_in (length a + 1) cap then Some a else None)"
proof -
  assume v: "witness_ok v prog"
  have ops: "LWScriptElements None (p2w v prog) = [0, 1]" "v = OP_0 \<and> (p2w v prog ! 1 = 20 \<or> p2w v prog ! 1 = 32) \<or>
      v \<ge> OP_1 \<and> v \<le> OP_16 \<and> p2w v prog ! 1 \<ge> 2 \<and> p2w v prog ! 1 \<le> 40"
    using v p2w_elements [of "p2w v prog" 0 1] by (auto simp: p2w_def)
  have len: "unat (of_nat (length prog) :: u8) = length prog" "2 \<le> length prog" "length prog \<le> 40"
    using witness_len [OF v] by simp_all
  have w: "witness_ver (p2w v prog) \<le> 16 \<and> \<not> (v > OP_0 \<and> v < OP_1)"
  proof (cases "v = OP_0")
    case False
    then have "81 \<le> unat v" "unat v \<le> 96" using v by (simp_all add: witness_ok_def opcodes word_le_nat_alt)
    moreover have "unat (v - 80) = unat v - 80" using calculation(1) by (simp add: unat_sub word_le_nat_alt)
    ultimately show ?thesis by (simp add: witness_ver_def p2w_def opcodes word_le_nat_alt word_less_nat_alt)
  qed (simp add: witness_ver_def p2w_def opcodes)
  have pre: "length (bech32_prefix tn) \<le> 4" "\<forall>c \<in> set (bech32_prefix tn). printable c \<and> \<not> isupper c"
    by (simp_all add: bech32_prefix_def printable_def isupper_def char_in_def)
  have "\<exists>a. LWBech32Encode (bech32_prefix tn) (p2w v prog) = Some (Some a) \<and> length a \<le> 76"
    using w len pre by (auto simp: encode_form length_bech_string p2w_def not_less)
  then obtain a where "LWBech32Encode (bech32_prefix tn) (p2w v prog) = Some (Some a)" "length a \<le> 76" by blast
  moreover have "p2w v prog ! 0 = v" by (simp add: p2w_def)
  moreover have "\<not> (v = 65 \<or> v = 33)" using v by (auto simp: witness_ok_def opcodes)
  ultimately show ?thesis using ops len
    unfolding from_script by (simp add: MAX_SCRIPT_LENGTH_def)
qed

lemma five: "length es = 5 \<Longrightarrow> es = [es ! 0, es ! 1, es ! 2, es ! 3, es ! 4]"
  "length es = 3 \<Longrightarrow> es = [es ! 0, es ! 1, es ! 2]" "length es = 2 \<Longrightarrow> es = [es ! 0, es ! 1]"
  by (rule nth_equalityI; auto simp: nth_Cons numeral_eq_Suc less_Suc_eq)+

definition standard :: "bytes \<Rightarrow> bool" where
  "standard s \<longleftrightarrow> (\<exists>h. length h = 20 \<and> (s = p2pkh h \<or> s = p2sh h)) \<or>
     (\<exists>key. length key \<in> {65, 33} \<and> s = p2pk key) \<or> (\<exists>v prog. witness_ok v prog \<and> s = p2w v prog)"

lemma address_other:
  assumes s: "\<not> standard s"
  shows "LWAddressFromScriptPubKey tn cap s = Some None"
proof -
  define es where "es = LWScriptElements None s"
  have "\<not> (length es = 5 \<and> s ! (es ! 0) = OP_DUP \<and> s ! (es ! 1) = OP_HASH160 \<and> s ! (es ! 2) = 20 \<and>
      s ! (es ! 3) = OP_EQUALVERIFY \<and> s ! (es ! 4) = OP_CHECKSIG)"
    using s five(1) [of es] p2pkh_elements [of s "es ! 0" "es ! 1" "es ! 2" "es ! 3" "es ! 4"] by (metis es_def standard_def)
  moreover have "\<not> (length es = 3 \<and> s ! (es ! 0) = OP_HASH160 \<and> s ! (es ! 1) = 20 \<and> s ! (es ! 2) = OP_EQUAL)"
    using s five(2) [of es] p2sh_elements [of s "es ! 0" "es ! 1" "es ! 2"] by (metis es_def standard_def)
  moreover have "\<not> (length es = 2 \<and> (s ! (es ! 0) = 65 \<or> s ! (es ! 0) = 33) \<and> s ! (es ! 1) = OP_CHECKSIG)"
    using s five(3) [of es] p2pk_elements [of s "es ! 0" "es ! 1"] by (metis es_def standard_def)
  moreover have "\<not> (length es = 2 \<and> (s ! (es ! 0) = OP_0 \<and> (s ! (es ! 1) = 20 \<or> s ! (es ! 1) = 32) \<or>
      s ! (es ! 0) \<ge> OP_1 \<and> s ! (es ! 0) \<le> OP_16 \<and> s ! (es ! 1) \<ge> 2 \<and> s ! (es ! 1) \<le> 40))"
    using s five(3) [of es] p2w_elements [of s "es ! 0" "es ! 1"] by (metis es_def standard_def)
  moreover have "LWScriptElements (Some (length es)) s = es" unfolding es_def by (rule elements_twice)
  ultimately show ?thesis
    unfolding LWAddressFromScriptPubKey_def Let_def es_def [symmetric] by (simp only: if_False if_cancel)
qed

lemma check_encode_some: "\<exists>a. LWBase58CheckEncode None data = Some a"
  using encode_some by (simp add: LWBase58CheckEncode_def)

text \<open>The version byte and the hash, or the witness program, come back from an address.\<close>

lemma script_pkh:
  assumes "LWBase58CheckEncode cap (pubkey_address tn # h) = Some a" "length h = 20"
  shows "writes (LWAddressScriptPubKey tn a) (p2pkh h) \<and> LWAddressIsValid tn a"
proof -
  have "LWBase58CheckDecode (Some 42) a = pubkey_address tn # h"
    using assms by (intro check_decode_encode) (simp_all add: fits_in_def)
  then have "LWAddressScriptPubKey tn a = (\<lambda>cb. finish (put (p2pkh h) (0, cb)))" "LWAddressIsValid tn a"
    using assms(2) by (simp_all add: LWAddressScriptPubKey_def LWAddressIsValid_def p2pkh_def Let_def fun_eq_iff)
  then show ?thesis using writes_put by simp
qed

lemma script_sh:
  assumes "LWBase58CheckEncode cap (script_address tn # h) = Some a" "length h = 20"
  shows "writes (LWAddressScriptPubKey tn a) (p2sh h) \<and> LWAddressIsValid tn a"
proof -
  have "LWBase58CheckDecode (Some 42) a = script_address tn # h"
    using assms by (intro check_decode_encode) (simp_all add: fits_in_def)
  moreover have "script_address tn \<noteq> pubkey_address tn" by (simp add: script_address_def pubkey_address_def)
  ultimately have "LWAddressScriptPubKey tn a = (\<lambda>cb. finish (put (p2sh h) (0, cb)))" "LWAddressIsValid tn a"
    using assms(2) by (simp_all add: LWAddressScriptPubKey_def LWAddressIsValid_def p2sh_def Let_def fun_eq_iff)
  then show ?thesis using writes_put by simp
qed

text \<open>A witness address is never mistaken for base58: \<open>l\<close> is no digit, so decoding stops there.\<close>

lemma not_base58: "LWBase58CheckDecode cap (bech32_prefix tn @ t) = []"
proof -
  define s where "s = (if tn then ''t'' else [])"
  have "\<forall>c \<in> set s. b58_value c < 58" "58 \<le> b58_value CHR ''l''"
    by (simp_all add: s_def b58_value_def char_in_def Let_def)
  then have "LWBase58Decode None (s @ CHR ''l'' # r) = LWBase58Decode None s" for r
    by (rule decode_tail)
  moreover obtain d where d: "LWBase58Decode None s = Some d" "length d < 4"
    by (simp add: s_def LWBase58Decode_def Let_def fits_in_def b256_shift_in_def b256_digit_def b58_value_def char_in_def split: if_splits)
  moreover obtain r where "bech32_prefix tn @ t = s @ CHR ''l'' # r"
    by (simp add: s_def bech32_prefix_def split: if_splits)
  ultimately show ?thesis
    unfolding LWBase58CheckDecode_def by (subst decode_form) (simp split: option.splits if_splits)
qed

lemma script_w:
  assumes a: "LWBech32Encode (bech32_prefix tn) (p2w v prog) = Some (Some a)" "length a \<le> 76" and v: "witness_ok v prog"
  shows "writes (LWAddressScriptPubKey tn a) (p2w v prog) \<and> LWAddressIsValid tn a"
proof -
  have n: "unat (p2w v prog ! 1) = length prog" using witness_len [OF v] by (simp add: p2w_def)
  then have "take (2 + unat (p2w v prog ! 1)) (p2w v prog) = p2w v prog" by simp
  moreover have "bech32_prefix tn \<noteq> []" by (simp add: bech32_prefix_def)
  ultimately have dec: "LWBech32Decode a = Some (bech32_prefix tn, p2w v prog)"
    using bech32_decode_encode [OF a(1)] a(2) n by simp
  obtain t where "a = bech32_prefix tn @ t"
    using a(1) by (auto simp: encode_form bech_string_def Let_def split: if_splits)
  then have "LWBase58CheckDecode (Some 42) a = []" using not_base58 by blast
  moreover have "p2w v prog ! 0 \<noteq> OP_0 \<or> p2w v prog ! 1 = 20 \<or> p2w v prog ! 1 = 32"
    using v by (auto simp: witness_ok_def p2w_def opcodes)
  moreover have "length (p2w v prog) > 2" using witness_len [OF v] by auto
  ultimately have "LWAddressScriptPubKey tn a = (\<lambda>cb. finish (put (p2w v prog) (0, cb)))" "LWAddressIsValid tn a"
    using dec by (simp_all add: LWAddressScriptPubKey_def LWAddressIsValid_def Let_def fun_eq_iff)
  then show ?thesis using writes_put by simp
qed

subsection \<open>Properties\<close>

text \<open>
  A length written as a varint is read back with its size, whatever follows it, and the
  writer returns that size and fills exactly that many bytes of a buffer that has room.
\<close>

theorem varint_roundtrip:
  "LWVarInt (varint i @ t) = (i, LWVarIntSize i) \<and> writes (LWVarIntSet i) (varint i) \<and>
   LWVarIntSize i = length (varint i) \<and> LWVarIntSize i \<in> {1, 3, 5, 9}"
  using LWVarInt_varint LWVarIntSet_writes length_varint by (simp add: LWVarIntSize_varint)

text \<open>
  The scan of a script, which always ends, returns nothing or a list of elements that covers
  the script exactly: each element starts where the one before it ended, and reading its data
  stays inside the script, whatever the bytes are.
\<close>

theorem script_elements_tile:
  "LWScriptElements cap s = [] \<or> tiles s 0 (LWScriptElements cap s)"
  using elements_tiles by blast

text \<open>
  A script built from data pushes is scanned back into those pushes: the elements found are
  as many as the pushes, and the data of each is the data pushed, of any length below 4 GB.
\<close>

theorem script_push_roundtrip:
  assumes "\<forall>d \<in> set ds. length d < 2 ^ 32"
  shows "let s = concat (map push_bytes ds); es = LWScriptElements None s in
    length es = length ds \<and> (\<forall>i < length ds. \<exists>d. LWScriptData (drop (es ! i) s) = Some (length (ds ! i), d) \<and>
      (if ds ! i = [] then d = None else read_n d (length (ds ! i)) = Some (ds ! i)))"
proof -
  define xs where "xs = map push_bytes ds"
  have es: "LWScriptElements None (concat xs) = offsets 0 xs"
    using scan_pushes [of ds "[]" 0] assms by (simp add: LWScriptElements_def fits_in_def xs_def)
  have "\<exists>d. LWScriptData (drop (offsets 0 xs ! i) (concat xs)) = Some (length (ds ! i), d) \<and>
      (if ds ! i = [] then d = None else read_n d (length (ds ! i)) = Some (ds ! i))" if i: "i < length ds" for i
  proof -
    have "drop (offsets 0 xs ! i) (concat xs) = concat (drop i xs)"
      using offsets_nth [of "[]" 0 i xs] i by (simp add: xs_def)
    also have "\<dots> = push_bytes (ds ! i) @ concat (drop (Suc i) xs)"
      using i by (simp add: xs_def Cons_nth_drop_Suc [symmetric])
    finally show ?thesis using data_push [of "ds ! i"] assms i by (auto simp: read_n_def)
  qed
  then show ?thesis by (simp add: es Let_def xs_def [symmetric]) (simp add: xs_def)
qed

theorem script_push_roundtrip_witness:
  "let s = concat (map push_bytes [[1, 2], [], [3]]); es = LWScriptElements None s in
    length es = length [[1, 2], [], [3 :: u8]] \<and> (\<forall>i < length [[1, 2], [], [3 :: u8]].
      \<exists>d. LWScriptData (drop (es ! i) s) = Some (length ([[1, 2], [], [3 :: u8]] ! i), d) \<and>
      (if [[1, 2], [], [3 :: u8]] ! i = [] then d = None
       else read_n d (length ([[1, 2], [], [3 :: u8]] ! i)) = Some ([[1, 2], [], [3]] ! i)))"
  by (rule script_push_roundtrip) simp

lemma address_cases:
  assumes "LWAddressFromScriptPubKey tn cap s = Some (Some a)"
  shows "\<exists>s'. writes (LWAddressScriptPubKey tn a) s' \<and> LWAddressIsValid tn a \<and>
    (s' = s \<or> (\<exists>key. length key \<in> {65, 33} \<and> s = p2pk key \<and> s' = p2pkh (LWHash160 key)))"
proof -
  have "standard s" using assms address_other [of s tn cap] by fastforce
  then consider h where "length h = 20" "s = p2pkh h" | h where "length h = 20" "s = p2sh h"
    | key where "length key \<in> {65, 33}" "s = p2pk key" | v prog where "witness_ok v prog" "s = p2w v prog"
    unfolding standard_def by blast
  then show ?thesis
  proof cases
    case 1
    then show ?thesis using assms script_pkh [of cap tn h a] by (auto simp: address_p2pkh)
  next
    case 2
    then show ?thesis using assms script_sh [of cap tn h a] by (auto simp: address_p2sh)
  next
    case 3
    then show ?thesis using assms script_pkh [of cap tn "LWHash160 key" a] by (auto simp: address_p2pk)
  next
    case 4
    then show ?thesis using assms address_p2w [of v prog tn cap] script_w [of tn v prog a] by (auto split: if_splits)
  qed
qed

text \<open>
  C32. A script and its address determine each other: when a script has an address, that address is
  valid and the script written for it is the same script. The one exception is pay-to-pubkey,
  whose address is that of the hash of its key.
\<close>

theorem address_roundtrip:
  assumes "LWAddressFromScriptPubKey tn cap s = Some (Some a)"
  shows "\<exists>s'. writes (LWAddressScriptPubKey tn a) s' \<and> LWAddressIsValid tn a \<and>
    (s' = s \<or> (\<exists>key. length key \<in> {65, 33} \<and> s = p2pk key \<and> s' = p2pkh (LWHash160 key)))"
  using assms by (rule address_cases)

theorem address_roundtrip_witness:
  "\<exists>a. LWAddressFromScriptPubKey False None (p2sh (replicate 20 7)) = Some (Some a) \<and>
    (\<exists>s'. writes (LWAddressScriptPubKey False a) s' \<and> LWAddressIsValid False a \<and> (s' = p2sh (replicate 20 7) \<or>
      (\<exists>key. length key \<in> {65, 33} \<and> p2sh (replicate 20 7) = p2pk key \<and> s' = p2pkh (LWHash160 key))))"
proof -
  obtain a where a: "LWAddressFromScriptPubKey False None (p2sh (replicate 20 7)) = Some (Some a)"
    using check_encode_some by (auto simp: address_p2sh)
  from address_roundtrip [OF this] a show ?thesis by blast
qed

lemma tiles_nth:
  "tiles s off es \<Longrightarrow> i < length es \<Longrightarrow> \<exists>k n. es ! i + k + n \<le> length s \<and>
   LWScriptData (drop (es ! i) s) = Some (n, if n > 0 then Some (drop (es ! i + k) s) else None)"
proof (induction es arbitrary: off i)
  case (Cons e es)
  then obtain k n where kn: "e = off" "tiles s (off + k + n) es"
    "LWScriptData (drop off s) = Some (n, if n > 0 then Some (drop (off + k) s) else None)" by auto
  show ?case
  proof (cases i)
    case 0
    then show ?thesis using kn tiles_le [OF kn(2)] by auto
  next
    case (Suc j)
    then show ?thesis using Cons.IH [OF kn(2), of j] Cons.prems(2)
      by (simp only: nth_Cons_Suc list.size(4) Suc_less_eq add_Suc_right add_0_right)
  qed
qed simp

lemma element_data:
  assumes "i < length (LWScriptElements cap s)"
  obtains n d where "LWScriptData (drop (LWScriptElements cap s ! i) s) = Some (n, d)" "d \<noteq> None \<Longrightarrow> \<exists>x. read_n d n = Some x"
proof -
  have "tiles s 0 (LWScriptElements cap s)" using elements_tiles [of _ cap s] assms by fastforce
  from tiles_nth [OF this assms] that show ?thesis by (auto simp: read_n_def split: if_splits)
qed

lemma address_of_sig: "\<exists>r. LWAddressFromScriptSig tn cap s = Some r"
proof (cases "LWScriptElements None s")
  case Nil
  then show ?thesis unfolding LWAddressFromScriptSig_def elements_twice Let_def by simp
next
  case (Cons e es)
  then obtain n d where "LWScriptData (drop (LWScriptElements None s ! (length (LWScriptElements None s) - 1)) s) = Some (n, d)"
      "d \<noteq> None \<Longrightarrow> \<exists>x. read_n d n = Some x"
    using element_data [of "length (LWScriptElements None s) - 1" None s] by auto
  then show ?thesis unfolding LWAddressFromScriptSig_def elements_twice Let_def by auto
qed

text \<open>
  Exactly the standard scripts have an address, and looking for one, in a locking script or in a
  signature script, never reads outside the script nor writes outside a buffer, for every script and every length of the result.
\<close>

theorem address_of_script:
  "(\<exists>r. LWAddressFromScriptPubKey tn cap s = Some r) \<and>
   ((\<exists>a. LWAddressFromScriptPubKey tn None s = Some (Some a)) = standard s) \<and>
   (\<exists>r. LWAddressFromScriptSig tn cap s = Some r)"
proof -
  have "(\<exists>r. LWAddressFromScriptPubKey tn cap s = Some r) \<and>
   ((\<exists>a. LWAddressFromScriptPubKey tn None s = Some (Some a)) = standard s)"
  proof (cases "standard s")
    case True
    then consider h where "length h = 20" "s = p2pkh h" | h where "length h = 20" "s = p2sh h"
      | key where "length key \<in> {65, 33}" "s = p2pk key" | v prog where "witness_ok v prog" "s = p2w v prog"
      unfolding standard_def by blast
    then show ?thesis
    proof cases
      case 4
      then show ?thesis using True address_p2w [of v prog tn None] address_p2w [of v prog tn cap] by (auto simp: fits_in_def)
    qed (use True check_encode_some in \<open>simp_all add: address_p2pkh address_p2sh address_p2pk\<close>)
  next
    case False
    then show ?thesis by (simp add: address_other)
  qed
  then show ?thesis using address_of_sig by simp
qed

text \<open>
  An address is valid exactly when a script can be written for it, and no address is valid on
  both networks.
\<close>

theorem address_valid:
  "LWAddressIsValid tn a = (0 < fst (LWAddressScriptPubKey tn a None)) \<and>
   \<not> (LWAddressIsValid True a \<and> LWAddressIsValid False a)"
proof
  show "LWAddressIsValid tn a = (0 < fst (LWAddressScriptPubKey tn a None))"
    by (auto simp: LWAddressIsValid_def LWAddressScriptPubKey_def Let_def finish_def put_def poke_def fits_def
        split: option.splits)
  show "\<not> (LWAddressIsValid True a \<and> LWAddressIsValid False a)"
    by (auto simp: LWAddressIsValid_def Let_def pubkey_address_def script_address_def bech32_prefix_def
        split: option.splits if_splits)
qed

text \<open>
  Validity of a base58 address does not extend to all its characters: an address of a script
  hash stays valid, and pays the same script, with a zero and any text appended.
\<close>

theorem address_valid_with_junk:
  assumes "LWBase58CheckEncode None (script_address tn # h) = Some a" "length h = 20"
  shows "LWAddressIsValid tn (a @ ''0'' @ junk) \<and> writes (LWAddressScriptPubKey tn (a @ ''0'' @ junk)) (p2sh h)"
proof -
  have "58 \<le> b58_value CHR ''0''" by (simp add: b58_value_def char_in_def Let_def)
  then have "LWBase58CheckDecode (Some 42) (a @ CHR ''0'' # junk) = script_address tn # h"
    using assms by (intro check_decode_tail) (simp_all add: fits_in_def)
  moreover have "script_address tn \<noteq> pubkey_address tn" by (simp add: script_address_def pubkey_address_def)
  ultimately have "LWAddressScriptPubKey tn (a @ ''0'' @ junk) = (\<lambda>cb. finish (put (p2sh h) (0, cb)))"
      "LWAddressIsValid tn (a @ ''0'' @ junk)"
    using assms(2) by (simp_all add: LWAddressScriptPubKey_def LWAddressIsValid_def p2sh_def Let_def fun_eq_iff)
  then show ?thesis using writes_put by simp
qed

theorem address_valid_with_junk_witness:
  "\<exists>a. LWBase58CheckEncode None (script_address False # replicate 20 7) = Some a \<and>
    LWAddressIsValid False (a @ ''0'' @ ''!?'') \<and>
    writes (LWAddressScriptPubKey False (a @ ''0'' @ ''!?'')) (p2sh (replicate 20 7))"
proof -
  obtain a where a: "LWBase58CheckEncode None (script_address False # replicate 20 7) = Some a"
    using check_encode_some by blast
  from address_valid_with_junk [OF this, of "''!?''"] a show ?thesis by auto
qed

end
