(* ===== verification/LW_Key.thy ===== *)
theory LW_Key
  imports LW_Address
begin

text \<open>
  Model of \<^verbatim>\<open>LWKey.c\<close>: private keys and their text forms, public keys, addresses and signatures.
  The curve is libsecp256k1, third-party code: each function the source calls is a field of the
  record \<open>ec\<close>, over its opaque types of public keys, signatures and recoverable signatures, and
  every operation takes that record as its argument. A failing call is \<open>None\<close>. A key's cached
  public key is the 65 zero bytes until it is computed.
\<close>

record ('p, 's, 'r) ec =
  seckey_verify :: "UInt256 \<Rightarrow> bool"
  privkey_tweak_add :: "UInt256 \<Rightarrow> UInt256 \<Rightarrow> bool \<times> UInt256"
  privkey_tweak_mul :: "UInt256 \<Rightarrow> UInt256 \<Rightarrow> bool \<times> UInt256"
  pubkey_create :: "UInt256 \<Rightarrow> 'p option"
  pubkey_parse :: "bytes \<Rightarrow> 'p option"
  pubkey_serialize :: "bool \<Rightarrow> 'p \<Rightarrow> bytes"
  pubkey_tweak_add :: "'p \<Rightarrow> UInt256 \<Rightarrow> 'p option"
  pubkey_tweak_mul :: "'p \<Rightarrow> UInt256 \<Rightarrow> 'p option"
  ecdsa_sign :: "UInt256 \<Rightarrow> UInt256 \<Rightarrow> 's option"
  signature_serialize_der :: "'s \<Rightarrow> bytes"
  signature_parse_der :: "bytes \<Rightarrow> 's option"
  ecdsa_verify :: "'s \<Rightarrow> UInt256 \<Rightarrow> 'p \<Rightarrow> bool"
  sign_recoverable :: "UInt256 \<Rightarrow> UInt256 \<Rightarrow> 'r option"
  recoverable_serialize :: "'r \<Rightarrow> bytes \<times> nat"
  recoverable_parse :: "bytes \<Rightarrow> nat \<Rightarrow> 'r option"
  ecdsa_recover :: "'r \<Rightarrow> UInt256 \<Rightarrow> 'p option"

type_synonym LWECPoint = bytes

record LWKey =
  secret :: UInt256
  pubKey :: bytes
  compressed :: bool

definition NO_KEY :: LWKey where
  "NO_KEY = \<lparr>secret = UINT256_ZERO, pubKey = replicate 65 0, compressed = False\<rparr>"

subsection \<open>Scalars and points\<close>

text \<open>The result and the new value of the argument updated in place.\<close>

definition LWSecp256k1ModAdd :: "('p, 's, 'r) ec \<Rightarrow> UInt256 \<Rightarrow> UInt256 \<Rightarrow> bool \<times> UInt256" where
  "LWSecp256k1ModAdd ec a b = privkey_tweak_add ec a b"

definition LWSecp256k1ModMul :: "('p, 's, 'r) ec \<Rightarrow> UInt256 \<Rightarrow> UInt256 \<Rightarrow> bool \<times> UInt256" where
  "LWSecp256k1ModMul ec a b = privkey_tweak_mul ec a b"

definition LWSecp256k1PointGen :: "('p, 's, 'r) ec \<Rightarrow> UInt256 \<Rightarrow> LWECPoint option" where
  "LWSecp256k1PointGen ec i = do { pk \<leftarrow> pubkey_create ec i; Some (pubkey_serialize ec True pk) }"

definition LWSecp256k1PointAdd :: "('p, 's, 'r) ec \<Rightarrow> LWECPoint \<Rightarrow> UInt256 \<Rightarrow> LWECPoint option" where
  "LWSecp256k1PointAdd ec p i = do {
     pk \<leftarrow> pubkey_parse ec p; pk \<leftarrow> pubkey_tweak_add ec pk i; Some (pubkey_serialize ec True pk) }"

definition LWSecp256k1PointMul :: "('p, 's, 'r) ec \<Rightarrow> LWECPoint \<Rightarrow> UInt256 \<Rightarrow> LWECPoint option" where
  "LWSecp256k1PointMul ec p i = do {
     pk \<leftarrow> pubkey_parse ec p; pk \<leftarrow> pubkey_tweak_mul ec pk i; Some (pubkey_serialize ec True pk) }"

subsection \<open>Private keys\<close>

definition privkey_version :: "bool \<Rightarrow> u8" where
  "privkey_version testnet = (if testnet then 239 else 176)"

definition is_hex :: "char \<Rightarrow> bool" where
  "is_hex c \<longleftrightarrow> char_in c CHR ''0'' CHR ''9'' \<or> char_in c CHR ''A'' CHR ''F'' \<or> char_in c CHR ''a'' CHR ''f''"

definition LWPrivKeyIsValid :: "bool \<Rightarrow> string \<Rightarrow> bool" where
  "LWPrivKeyIsValid testnet privKey =
     (let data = LWBase58CheckDecode (Some 34) privKey; strLen = length privKey in
      if length data = 33 \<or> length data = 34 then data ! 0 = privkey_version testnet
      else if (strLen = 30 \<or> strLen = 22) \<and> privKey ! 0 = CHR ''S'' then
        LWSHA256 (map of_char (privKey @ ''?'')) ! 0 = 0
      else length (takeWhile is_hex privKey) = 64)"

text \<open>
  \<^verbatim>\<open>sscanf(s, "%2hhx", &b)\<close>: white space is skipped, then the longest prefix of at most two
  characters that can begin a signed hexadecimal number is read; it must be one.
\<close>

definition is_space :: "char \<Rightarrow> bool" where
  "is_space c \<longleftrightarrow> c \<in> {CHR '' '', CHR 0x09, CHR 0x0a, CHR 0x0b, CHR 0x0c, CHR 0x0d}"

definition hex_digit :: "char \<Rightarrow> nat" where
  "hex_digit c = (if char_in c CHR ''0'' CHR ''9'' then of_char c - 48
                  else if char_in c CHR ''A'' CHR ''F'' then of_char c - 55 else of_char c - 87)"

definition sscanf_2hhx :: "string \<Rightarrow> u8 option" where
  "sscanf_2hhx s =
     (case dropWhile is_space s of
        [] \<Rightarrow> None
      | a # as \<Rightarrow>
          if a = CHR ''+'' \<or> a = CHR ''-'' then
            (case as of [] \<Rightarrow> None
             | b # bs \<Rightarrow> if \<not> is_hex b then None
                        else Some (if a = CHR ''-'' then - of_nat (hex_digit b) else of_nat (hex_digit b)))
          else if \<not> is_hex a then None
          else (case as of [] \<Rightarrow> Some (of_nat (hex_digit a))
                | b # bs \<Rightarrow> if is_hex b then Some (of_nat (16 * hex_digit a + hex_digit b))
                           else if a = CHR ''0'' \<and> (b = CHR ''x'' \<or> b = CHR ''X'') then None
                           else Some (of_nat (hex_digit a))))"

text \<open>The hexadecimal loop, for room of \<open>n\<close> bytes.\<close>

fun hex_loop :: "nat \<Rightarrow> string \<Rightarrow> bytes" where
  "hex_loop (Suc n) (a # b # s) =
     (case sscanf_2hhx (a # b # s) of None \<Rightarrow> [] | Some x \<Rightarrow> x # hex_loop n s)"
| "hex_loop _ _ = []"

definition LWKeySetSecret :: "('p, 's, 'r) ec \<Rightarrow> UInt256 \<Rightarrow> bool \<Rightarrow> bool \<times> LWKey" where
  "LWKeySetSecret ec sec compr = (seckey_verify ec sec, NO_KEY\<lparr>secret := sec, compressed := compr\<rparr>)"

definition LWKeySetPrivKey :: "('p, 's, 'r) ec \<Rightarrow> bool \<Rightarrow> LWKey \<Rightarrow> string \<Rightarrow> bool \<times> LWKey" where
  "LWKeySetPrivKey ec testnet key privKey =
     (let len = length privKey in
      if (len = 30 \<or> len = 22) \<and> privKey ! 0 = CHR ''S'' then
        if \<not> LWPrivKeyIsValid testnet privKey then (False, key)
        else LWKeySetSecret ec (LWSHA256 (map of_char privKey)) False
      else
        (let data = LWBase58CheckDecode (Some 34) privKey;
             data = (if length data = 0 \<or> length data = 28 then
                       (case LWBase58Decode (Some 34) privKey of None \<Rightarrow> [] | Some d \<Rightarrow> d) else data);
             data = (if length data < 32 \<or> length data > 32 + 2 then hex_loop 34 privKey else data)
         in if (length data = 32 + 1 \<or> length data = 32 + 2) \<and> data ! 0 = privkey_version testnet then
              LWKeySetSecret ec (take 32 (drop 1 data)) (length data = 32 + 2)
            else if length data = 32 then LWKeySetSecret ec data False
            else (False, key)))"

definition LWKeyPrivKey :: "('p, 's, 'r) ec \<Rightarrow> bool \<Rightarrow> nat option \<Rightarrow> LWKey \<Rightarrow> string option" where
  "LWKeyPrivKey ec testnet pkLen key =
     (if seckey_verify ec (secret key) then
        LWBase58CheckEncode pkLen (privkey_version testnet # secret key @ (if compressed key then [0x01] else []))
      else None)"

subsection \<open>Public keys\<close>

definition LWKeySetPubKey :: "('p, 's, 'r) ec \<Rightarrow> bytes \<Rightarrow> bool \<times> LWKey" where
  "LWKeySetPubKey ec pk =
     (let key = NO_KEY\<lparr>pubKey := pk @ drop (length pk) (replicate 65 0), compressed := length pk \<le> 33\<rparr>
      in (pubkey_parse ec (take (length pk) (pubKey key)) \<noteq> None, key))"

text \<open>
  The key as far as it is returned, for room of \<open>pkLen\<close> bytes, and the key object with its cache
  filled in. The result of a call with NULL is the length, that of \<open>LWKeyPubKey\<close> without limit.
\<close>

definition LWKeyPubKey :: "('p, 's, 'r) ec \<Rightarrow> nat option \<Rightarrow> LWKey \<Rightarrow> bytes \<times> LWKey" where
  "LWKeyPubKey ec pkLen key =
     (let size = (if compressed key then 33 else 65);
          (size, key) =
            (if take size (pubKey key) = replicate size 0 then
               (case pubkey_create ec (secret key) of
                  Some pk \<Rightarrow>
                    (let s = pubkey_serialize ec (compressed key) pk
                     in (length s, key\<lparr>pubKey := s @ drop (length s) (pubKey key)\<rparr>))
                | None \<Rightarrow> (0, key))
             else (size, key))
      in (if fits_in size pkLen then take size (pubKey key) else [], key))"

definition LWKeyHash160 :: "('p, 's, 'r) ec \<Rightarrow> LWKey \<Rightarrow> UInt160 \<times> LWKey" where
  "LWKeyHash160 ec key =
     (let (pk, key) = LWKeyPubKey ec None key
      in (if length pk > 0 \<and> pubkey_parse ec pk \<noteq> None then LWHash160 pk else UINT160_ZERO, key))"

definition LWKeyAddress :: "('p, 's, 'r) ec \<Rightarrow> bool \<Rightarrow> nat option \<Rightarrow> LWKey \<Rightarrow> string option \<times> LWKey" where
  "LWKeyAddress ec testnet addrLen key =
     (let (hash, key) = LWKeyHash160 ec key
      in (if \<not> UInt160IsZero hash then LWBase58CheckEncode addrLen (pubkey_address testnet # hash) else None, key))"

subsection \<open>Signatures\<close>

definition LWKeySign :: "('p, 's, 'r) ec \<Rightarrow> nat \<Rightarrow> LWKey \<Rightarrow> UInt256 \<Rightarrow> bytes" where
  "LWKeySign ec sigLen key md =
     (case ecdsa_sign ec md (secret key) of
        Some s \<Rightarrow> (let der = signature_serialize_der ec s in if length der \<le> sigLen then der else [])
      | None \<Rightarrow> [])"

definition LWKeyVerify :: "('p, 's, 'r) ec \<Rightarrow> LWKey \<Rightarrow> UInt256 \<Rightarrow> bytes \<Rightarrow> bool \<times> LWKey" where
  "LWKeyVerify ec key md sig =
     (let (pk, key) = LWKeyPubKey ec None key
      in (if length pk > 0 then
            (case (pubkey_parse ec pk, signature_parse_der ec sig) of
               (Some p, Some s) \<Rightarrow> ecdsa_verify ec s md p
             | _ \<Rightarrow> False)
          else False, key))"

definition LWKeyClean :: "LWKey \<Rightarrow> LWKey" where
  "LWKeyClean key = NO_KEY"

text \<open>For a buffer of \<open>sigLen\<close> bytes, or the length with NULL; the bytes written or as many zeros.\<close>

definition LWKeyCompactSign :: "('p, 's, 'r) ec \<Rightarrow> nat option \<Rightarrow> LWKey \<Rightarrow> UInt256 \<Rightarrow> bytes" where
  "LWKeyCompactSign ec sigLen key md =
     (if \<not> UInt256IsZero (secret key) then
        (case sigLen of None \<Rightarrow> replicate 65 0
         | Some n \<Rightarrow>
             if n \<ge> 65 then
               (case sign_recoverable ec md (secret key) of None \<Rightarrow> []
                | Some s \<Rightarrow> (let (c, recid) = recoverable_serialize ec s
                            in of_nat (27 + recid + (if compressed key then 4 else 0)) # c))
             else [])
      else [])"

text \<open>
  The header byte minus 27 is a C \<open>int\<close>, so its remainder by 4 may be negative; the library
  aborts on a negative recovery id, which is \<open>None\<close>.
\<close>

definition LWKeyRecoverPubKey ::
    "('p, 's, 'r) ec \<Rightarrow> LWKey \<Rightarrow> UInt256 \<Rightarrow> bytes \<Rightarrow> (bool \<times> LWKey) option" where
  "LWKeyRecoverPubKey ec key md compactSig =
     (if length compactSig = 65 then
        (let h = uint (compactSig ! 0) - 27; compr = (h \<ge> 4) in
         if h < 0 \<and> (- h) mod 4 \<noteq> 0 then None
         else
           (case do { s \<leftarrow> recoverable_parse ec (drop 1 compactSig) (nat (h mod 4));
                      pk \<leftarrow> ecdsa_recover ec s md; Some (pubkey_serialize ec compr pk) } of
              None \<Rightarrow> Some (False, key)
            | Some pk \<Rightarrow> Some (LWKeySetPubKey ec pk)))
      else Some (False, key))"

subsection \<open>Properties\<close>

lemma check_encode_longer:
  assumes "LWBase58CheckEncode cap data = Some str"
  shows "length data + 4 \<le> length str"
proof -
  have "LWBase58Decode (Some (length str)) str = Some (data @ take 4 (LWSHA256_2 data))"
    using assms by (auto simp: LWBase58CheckEncode_def intro: decode_encode)
  then show ?thesis using decode_form [of "Some (length str)" str] by (auto simp: fits_in_def split: option.splits if_splits)
qed

text \<open>
  A private key exported in wallet import format is a valid key text, and importing it gives
  back the secret and whether its public key is compressed.
\<close>

theorem wif_roundtrip:
  assumes "LWKeyPrivKey ec tn cap key = Some s" "length (secret key) = 32"
  shows "LWKeySetPrivKey ec tn key' s = (True, NO_KEY\<lparr>secret := secret key, compressed := compressed key\<rparr>) \<and>
    LWPrivKeyIsValid tn s"
proof -
  let ?data = "privkey_version tn # secret key @ (if compressed key then [0x01] else [])"
  have sec: "seckey_verify ec (secret key)" and enc: "LWBase58CheckEncode cap ?data = Some s"
    using assms(1) by (auto simp: LWKeyPrivKey_def split: if_splits)
  have "LWBase58CheckDecode (Some 34) s = ?data"
    using assms(2) by (intro check_decode_encode [OF enc]) (simp add: fits_in_def)
  moreover have "length s \<noteq> 30 \<and> length s \<noteq> 22" using check_encode_longer [OF enc] assms(2) by simp
  ultimately show ?thesis
    using assms(2) sec by (cases "compressed key") (simp_all add: LWKeySetPrivKey_def LWPrivKeyIsValid_def LWKeySetSecret_def)
qed

definition toy_ec :: "(unit, UInt256, unit) ec" where
  "toy_ec = \<lparr>seckey_verify = (\<lambda>k. True), privkey_tweak_add = (\<lambda>a b. (True, a)), privkey_tweak_mul = (\<lambda>a b. (True, a)),
     pubkey_create = (\<lambda>k. Some ()), pubkey_parse = (\<lambda>b. Some ()),
     pubkey_serialize = (\<lambda>c p. replicate (if c then 33 else 65) 2), pubkey_tweak_add = (\<lambda>p i. Some p),
     pubkey_tweak_mul = (\<lambda>p i. Some p), ecdsa_sign = (\<lambda>md k. Some md), signature_serialize_der = (\<lambda>s. s),
     signature_parse_der = (\<lambda>b. Some b), ecdsa_verify = (\<lambda>s md p. s = md), sign_recoverable = (\<lambda>md k. Some ()),
     recoverable_serialize = (\<lambda>s. (replicate 64 0, 1)), recoverable_parse = (\<lambda>b r. Some ()),
     ecdsa_recover = (\<lambda>s md. Some ())\<rparr>"

theorem wif_roundtrip_witness:
  "\<exists>s. LWKeyPrivKey toy_ec False None (NO_KEY\<lparr>compressed := True\<rparr>) = Some s \<and>
    LWKeySetPrivKey toy_ec False NO_KEY s = (True, NO_KEY\<lparr>secret := secret (NO_KEY\<lparr>compressed := True\<rparr>), compressed := compressed (NO_KEY\<lparr>compressed := True\<rparr>)\<rparr>) \<and>
    LWPrivKeyIsValid False s"
proof -
  obtain s where s: "LWKeyPrivKey toy_ec False None (NO_KEY\<lparr>compressed := True\<rparr>) = Some s"
    using check_encode_some by (auto simp: LWKeyPrivKey_def toy_ec_def)
  moreover have "length (secret (NO_KEY\<lparr>compressed := True\<rparr>)) = 32" by (simp add: NO_KEY_def)
  ultimately show ?thesis using wif_roundtrip [OF s, of NO_KEY] by blast
qed

text \<open>
  Recovering the public key from a compact signature gives the signer's key in the form, long
  or short, that the signer uses, provided the library does what its documentation promises: it
  parses back the recoverable signatures it serializes, with their id of 0 to 3 and 64 bytes, and
  recovers from a signature the public key of the secret it was made with.
\<close>

theorem compact_signature_recovers:
  assumes sig: "LWKeyCompactSign ec (Some 65) key md = sig" "sig \<noteq> []"
    and serialize: "\<And>s. recoverable_parse ec (fst (recoverable_serialize ec s)) (snd (recoverable_serialize ec s)) = Some s"
      "\<And>s. length (fst (recoverable_serialize ec s)) = 64 \<and> snd (recoverable_serialize ec s) < 4"
    and recovers: "\<And>md k s. sign_recoverable ec md k = Some s \<Longrightarrow> ecdsa_recover ec s md = pubkey_create ec k"
    and pk: "pubkey_create ec (secret key) = Some pk"
  shows "LWKeyRecoverPubKey ec key' md sig = Some (LWKeySetPubKey ec (pubkey_serialize ec (compressed key) pk))"
proof -
  obtain s c r where s: "sign_recoverable ec md (secret key) = Some s" "recoverable_serialize ec s = (c, r)"
    "sig = of_nat (27 + r + (if compressed key then 4 else 0)) # c"
    using sig by (auto simp: LWKeyCompactSign_def Let_def split: if_splits option.splits prod.splits)
  have cr: "length c = 64" "r < 4" "recoverable_parse ec c r = Some s" using serialize [of s] s(2) by simp_all
  define h where "h = 27 + r + (if compressed key then 4 else 0)"
  have "h < 256" using cr(2) by (simp add: h_def)
  then have "uint (of_nat h :: u8) = int h" by (simp add: uint_nat unsigned_of_nat take_bit_nat_eq_self)
  then have "uint (sig ! 0) - 27 = int (r + (if compressed key then 4 else 0))" by (simp add: s(3) h_def)
  moreover have "nat (int (r + (if compressed key then 4 else 0)) mod 4) = r"
  proof -
    have "int (r + 4) mod 4 = int r" "int r mod 4 = int r" using cr(2) by presburger+
    then show ?thesis by simp
  qed
  ultimately show ?thesis
    using s cr pk recovers [OF s(1)] by (simp add: LWKeyRecoverPubKey_def Let_def)
qed

theorem compact_signature_recovers_witness:
  "LWKeyRecoverPubKey toy_ec NO_KEY UINT256_ZERO (28 # replicate 64 0) =
   Some (LWKeySetPubKey toy_ec (pubkey_serialize toy_ec (compressed (NO_KEY\<lparr>secret := replicate 32 1\<rparr>)) ()))"
proof (rule compact_signature_recovers [where key = "NO_KEY\<lparr>secret := replicate 32 1\<rparr>"])
  have "(replicate 32 1 :: UInt256) \<noteq> UINT256_ZERO" by (simp add: UINT256_ZERO_def)
  then show "LWKeyCompactSign toy_ec (Some 65) (NO_KEY\<lparr>secret := replicate 32 1\<rparr>) UINT256_ZERO =
      28 # replicate 64 0"
    by (simp add: LWKeyCompactSign_def toy_ec_def NO_KEY_def UInt256IsZero_iff)
qed (auto simp: toy_ec_def split: if_splits)

text \<open>
  The address of a key is that of the script that pays to the hash of its public key, and also
  of the script that pays to the key itself; there is none when the library does not accept the
  public key.
\<close>

theorem key_address:
  assumes pk: "fst (LWKeyPubKey ec None key) = pk" "length pk \<in> {65, 33}"
  shows "LWAddressFromScriptPubKey tn cap (p2pk pk) = LWAddressFromScriptPubKey tn cap (p2pkh (LWHash160 pk)) \<and>
    LWAddressFromScriptPubKey tn cap (p2pk pk) =
      Some (if pubkey_parse ec pk \<noteq> None \<and> \<not> UInt160IsZero (LWHash160 pk) then fst (LWKeyAddress ec tn cap key)
            else LWBase58CheckEncode cap (pubkey_address tn # LWHash160 pk)) \<and>
    (pubkey_parse ec pk = None \<longrightarrow> fst (LWKeyAddress ec tn cap key) = None)"
proof -
  have "0 < length pk" using pk(2) by auto
  moreover have "UInt160IsZero UINT160_ZERO"
    by (simp add: UInt160IsZero_def union_u32_def UINT160_ZERO_def UInt32GetLE_def)
  ultimately show ?thesis
    using pk(1) address_p2pk [OF pk(2), of tn cap] address_p2pkh [of "LWHash160 pk" tn cap]
    by (auto simp: LWKeyAddress_def LWKeyHash160_def split: prod.splits)
qed

theorem key_address_witness:
  "LWAddressFromScriptPubKey False None (p2pk (replicate 65 2)) = LWAddressFromScriptPubKey False None (p2pkh (LWHash160 (replicate 65 2))) \<and>
    LWAddressFromScriptPubKey False None (p2pk (replicate 65 2)) =
      Some (if pubkey_parse toy_ec (replicate 65 2) \<noteq> None \<and> \<not> UInt160IsZero (LWHash160 (replicate 65 2))
            then fst (LWKeyAddress toy_ec False None NO_KEY)
            else LWBase58CheckEncode None (pubkey_address False # LWHash160 (replicate 65 2)))"
proof -
  have pk: "fst (LWKeyPubKey toy_ec None NO_KEY) = replicate 65 2" by (simp add: LWKeyPubKey_def toy_ec_def NO_KEY_def fits_in_def)
  have "length (replicate 65 (2 :: u8)) \<in> {65, 33}" by simp
  from key_address [OF pk this, of False None] show ?thesis by blast
qed

end
