(* ===== verification/LW_BIP32.thy ===== *)
theory LW_BIP32
  imports LW_Key
begin

text \<open>
  Model of \<^verbatim>\<open>LWBIP32Sequence.c\<close>: the chains of private keys derived from a seed, and the master
  public key from which the public keys of the same chains are derived without the seed. A derivation
  keeps a secret (or a point) and a chain code. Hashing a public key that could not be computed reads
  an uninitialised buffer: \<open>None\<close>. A failed assertion is \<open>None\<close> too.
\<close>

definition BIP32_HARD :: u32 where "BIP32_HARD = 0x80000000"
definition SEQUENCE_GAP_LIMIT_EXTERNAL :: u32 where "SEQUENCE_GAP_LIMIT_EXTERNAL = 10"
definition SEQUENCE_GAP_LIMIT_INTERNAL :: u32 where "SEQUENCE_GAP_LIMIT_INTERNAL = 5"
definition SEQUENCE_EXTERNAL_CHAIN :: u32 where "SEQUENCE_EXTERNAL_CHAIN = 0"
definition SEQUENCE_INTERNAL_CHAIN :: u32 where "SEQUENCE_INTERNAL_CHAIN = 1"
definition BIP32_SEED_KEY :: bytes where "BIP32_SEED_KEY = map of_char ''Bitcoin seed''"

record LWMasterPubKey =
  fingerPrint :: u32
  chainCode :: UInt256
  mpk_pubKey :: bytes

definition LW_MASTER_PUBKEY_NONE :: LWMasterPubKey where
  "LW_MASTER_PUBKEY_NONE = \<lparr>fingerPrint = 0, chainCode = UINT256_ZERO, mpk_pubKey = replicate 33 0\<rparr>"

definition CKDpriv :: "('p, 's, 'r) ec \<Rightarrow> u32 \<Rightarrow> UInt256 \<times> UInt256 \<Rightarrow> (UInt256 \<times> UInt256) option" where
  "CKDpriv ec i = (\<lambda>(k, c). do {
     buf \<leftarrow> (if i AND BIP32_HARD \<noteq> 0 then Some (0 # UInt256Set k) else LWSecp256k1PointGen ec k);
     let I = LWHMAC LWSHA512 64 c (buf @ UInt32SetBE i) in
     Some (snd (LWSecp256k1ModAdd ec k (take 32 I)), drop 32 I) })"

definition CKDpub :: "('p, 's, 'r) ec \<Rightarrow> u32 \<Rightarrow> LWECPoint \<times> UInt256 \<Rightarrow> LWECPoint \<times> UInt256" where
  "CKDpub ec i = (\<lambda>(K, c).
     if i AND BIP32_HARD \<noteq> BIP32_HARD then
       (let I = LWHMAC LWSHA512 64 c (K @ UInt32SetBE i)
        in (case LWSecp256k1PointAdd ec K (take 32 I) of None \<Rightarrow> K | Some K \<Rightarrow> K, drop 32 I))
     else (K, c))"

text \<open>The secret and chain code of the path m.\<close>

definition master_secret :: "bytes \<Rightarrow> UInt256 \<times> UInt256" where
  "master_secret seed = (let I = LWHMAC LWSHA512 64 BIP32_SEED_KEY seed in (take 32 I, drop 32 I))"

definition LWBIP32MasterPubKey :: "('p, 's, 'r) ec \<Rightarrow> bytes \<Rightarrow> LWMasterPubKey option" where
  "LWBIP32MasterPubKey ec seed =
     (let (secret, chain) = master_secret seed;
          key = snd (LWKeySetSecret ec secret True);
          mpk = LW_MASTER_PUBKEY_NONE\<lparr>fingerPrint := union_u32 (fst (LWKeyHash160 ec key)) 0\<rparr>
      in do {
        (secret, chain) \<leftarrow> CKDpriv ec (0 OR BIP32_HARD) (secret, chain);
        let pk = fst (LWKeyPubKey ec (Some 33) (snd (LWKeySetSecret ec secret True))) in
        Some (mpk\<lparr>chainCode := chain, mpk_pubKey := pk @ drop (length pk) (mpk_pubKey mpk)\<rparr>) })"

text \<open>For room of \<open>pubKeyLen\<close> bytes; 0 is returned when that is too little.\<close>

definition LWBIP32PubKey ::
    "('p, 's, 'r) ec \<Rightarrow> nat option \<Rightarrow> LWMasterPubKey \<Rightarrow> u32 \<Rightarrow> u32 \<Rightarrow> bytes option option" where
  "LWBIP32PubKey ec pubKeyLen mpk chain index =
     (if mpk = LW_MASTER_PUBKEY_NONE then None
      else Some (if fits_in 33 pubKeyLen then
                   Some (fst (CKDpub ec index (CKDpub ec chain (mpk_pubKey mpk, chainCode mpk))))
                 else None))"

fun CKDpath :: "('p, 's, 'r) ec \<Rightarrow> u32 list \<Rightarrow> UInt256 \<times> UInt256 \<Rightarrow> (UInt256 \<times> UInt256) option" where
  "CKDpath ec [] kc = Some kc"
| "CKDpath ec (i # path) kc = Option.bind (CKDpriv ec i kc) (CKDpath ec path)"

text \<open>The path is the list of the variable arguments.\<close>

definition LWBIP32vPrivKeyPath :: "('p, 's, 'r) ec \<Rightarrow> bytes \<Rightarrow> u32 list \<Rightarrow> LWKey option" where
  "LWBIP32vPrivKeyPath ec seed path = do {
     (secret, chainCode) \<leftarrow> CKDpath ec path (master_secret seed); Some (snd (LWKeySetSecret ec secret True)) }"

definition LWBIP32PrivKeyPath :: "('p, 's, 'r) ec \<Rightarrow> bytes \<Rightarrow> u32 list \<Rightarrow> LWKey option" where
  "LWBIP32PrivKeyPath ec seed path = LWBIP32vPrivKeyPath ec seed path"

definition LWBIP32PrivKey :: "('p, 's, 'r) ec \<Rightarrow> bytes \<Rightarrow> u32 \<Rightarrow> u32 \<Rightarrow> LWKey option" where
  "LWBIP32PrivKey ec seed chain index = LWBIP32PrivKeyPath ec seed [0 OR BIP32_HARD, chain, index]"

fun child_keys :: "('p, 's, 'r) ec \<Rightarrow> UInt256 \<times> UInt256 \<Rightarrow> u32 list \<Rightarrow> LWKey list option" where
  "child_keys ec kc [] = Some []"
| "child_keys ec kc (i # is) = do {
     (s, c) \<leftarrow> CKDpriv ec i kc;
     keys \<leftarrow> child_keys ec kc is;
     Some (snd (LWKeySetSecret ec s True) # keys) }"

definition LWBIP32PrivKeyList :: "('p, 's, 'r) ec \<Rightarrow> bytes \<Rightarrow> u32 \<Rightarrow> u32 list \<Rightarrow> LWKey list option" where
  "LWBIP32PrivKeyList ec seed chain indexes =
     (if length indexes > 0 then do {
        kc \<leftarrow> CKDpriv ec (0 OR BIP32_HARD) (master_secret seed);
        kc \<leftarrow> CKDpriv ec chain kc;
        child_keys ec kc indexes }
      else Some [])"

definition LWBIP32APIAuthKey :: "('p, 's, 'r) ec \<Rightarrow> bytes \<Rightarrow> LWKey option" where
  "LWBIP32APIAuthKey ec seed = LWBIP32PrivKeyPath ec seed [1 OR BIP32_HARD, 0]"

text \<open>Four operations are declared but not implemented.\<close>

definition LWBIP32SerializeMasterPrivKey :: "bytes \<Rightarrow> nat" where "LWBIP32SerializeMasterPrivKey seed = 0"
definition LWBIP32ParseMasterPrivKey :: "string \<Rightarrow> nat" where "LWBIP32ParseMasterPrivKey str = 0"
definition LWBIP32SerializeMasterPubKey :: "LWMasterPubKey \<Rightarrow> nat" where "LWBIP32SerializeMasterPubKey mpk = 0"
definition LWBIP32ParseMasterPubKey :: "string \<Rightarrow> LWMasterPubKey" where
  "LWBIP32ParseMasterPubKey str = LW_MASTER_PUBKEY_NONE"

subsection \<open>Public and private derivation agree\<close>

text \<open>
  What is assumed of the library, as its documentation has it: a compressed key takes 33 bytes, the
  first of which is not zero, and parses back; adding a tweak to a secret and to its public key
  leads to a pair of secret and public key again.
\<close>

definition curve_laws :: "('p, 's, 'r) ec \<Rightarrow> bool" where
  "curve_laws ec \<longleftrightarrow>
     (\<forall>p. pubkey_parse ec (pubkey_serialize ec True p) = Some p \<and> length (pubkey_serialize ec True p) = 33 \<and>
          hd (pubkey_serialize ec True p) \<noteq> 0) \<and>
     (\<forall>k t p. fst (privkey_tweak_add ec k t) \<longrightarrow> pubkey_create ec k = Some p \<longrightarrow>
        (\<exists>p'. pubkey_tweak_add ec p t = Some p' \<and> pubkey_create ec (snd (privkey_tweak_add ec k t)) = Some p'))"

text \<open>The addition of the step succeeds: the left half of the hash is a scalar and the sum not zero.\<close>

definition tweak_ok :: "('p, 's, 'r) ec \<Rightarrow> u32 \<Rightarrow> UInt256 \<times> UInt256 \<Rightarrow> bool" where
  "tweak_ok ec i = (\<lambda>(k, c). case LWSecp256k1PointGen ec k of None \<Rightarrow> False
     | Some K \<Rightarrow> fst (LWSecp256k1ModAdd ec k (take 32 (LWHMAC LWSHA512 64 c (K @ UInt32SetBE i)))))"

lemma CKD_step:
  assumes laws: "curve_laws ec" and soft: "i AND BIP32_HARD = 0" and ok: "tweak_ok ec i (k, c)"
    and K: "LWSecp256k1PointGen ec k = Some K"
  shows "\<exists>k' c' K'. CKDpriv ec i (k, c) = Some (k', c') \<and> CKDpub ec i (K, c) = (K', c') \<and> LWSecp256k1PointGen ec k' = Some K'"
proof -
  define I where "I = LWHMAC LWSHA512 64 c (K @ UInt32SetBE i)"
  obtain p where p: "pubkey_create ec k = Some p" "K = pubkey_serialize ec True p"
    using K by (auto simp: LWSecp256k1PointGen_def split: Option.bind_splits)
  have "fst (privkey_tweak_add ec k (take 32 I))" using ok K by (simp add: tweak_ok_def LWSecp256k1ModAdd_def I_def)
  then obtain p' where p': "pubkey_tweak_add ec p (take 32 I) = Some p'"
    "pubkey_create ec (snd (privkey_tweak_add ec k (take 32 I))) = Some p'"
    using laws [unfolded curve_laws_def] p(1) by blast
  have "pubkey_parse ec K = Some p" using laws by (simp add: p curve_laws_def)
  then have "LWSecp256k1PointAdd ec K (take 32 I) = Some (pubkey_serialize ec True p')"
    by (simp add: LWSecp256k1PointAdd_def p')
  then show ?thesis
    using soft p p' by (simp add: CKDpriv_def CKDpub_def I_def LWSecp256k1ModAdd_def LWSecp256k1PointGen_def Let_def BIP32_HARD_def)
qed

lemma pubKey_of_secret:
  assumes "curve_laws ec" "LWSecp256k1PointGen ec s = Some K" "fits_in 33 n"
  shows "fst (LWKeyPubKey ec n (snd (LWKeySetSecret ec s True))) = K" "length K = 33"
proof -
  obtain p where "pubkey_create ec s = Some p" "K = pubkey_serialize ec True p"
    using assms(2) by (auto simp: LWSecp256k1PointGen_def split: Option.bind_splits)
  then show "fst (LWKeyPubKey ec n (snd (LWKeySetSecret ec s True))) = K" "length K = 33"
    using assms(1,3) by (simp_all add: curve_laws_def LWKeyPubKey_def LWKeySetSecret_def NO_KEY_def Let_def)
qed

text \<open>
  C34. The public key that is derived from the master public key alone, for a chain and an index
  without the hard bit, is the public key of the private key that is derived from the seed for
  them: what a wallet without its seed can compute are the addresses its seed can spend from.
\<close>

theorem bip32_public_matches_private:
  assumes laws: "curve_laws ec" and soft: "chain AND BIP32_HARD = 0" "index AND BIP32_HARD = 0"
    and mpk: "LWBIP32MasterPubKey ec seed = Some mpk" "mpk \<noteq> LW_MASTER_PUBKEY_NONE"
    and steps: "CKDpriv ec (0 OR BIP32_HARD) (master_secret seed) = Some kc" "tweak_ok ec chain kc"
      "CKDpriv ec chain kc = Some kc'" "tweak_ok ec index kc'" and cap: "fits_in 33 cap"
  shows "\<exists>key. LWBIP32PrivKey ec seed chain index = Some key \<and>
    LWBIP32PubKey ec cap mpk chain index = Some (Some (fst (LWKeyPubKey ec None key))) \<and>
    LWBIP32PrivKeyList ec seed chain [index] = Some [key]"
proof -
  obtain k c where kc: "kc = (k, c)" by fastforce
  obtain K where K: "LWSecp256k1PointGen ec k = Some K"
    using steps(2) by (auto simp: kc tweak_ok_def split: option.splits)
  have m: "mpk_pubKey mpk = K" "chainCode mpk = c"
    using mpk(1) steps(1) pubKey_of_secret [OF laws K, of "Some 33"]
    by (auto simp: kc LWBIP32MasterPubKey_def fits_in_def LW_MASTER_PUBKEY_NONE_def split: prod.splits)
  obtain k1 c1 K1 where 1: "kc' = (k1, c1)" "CKDpub ec chain (K, c) = (K1, c1)" "LWSecp256k1PointGen ec k1 = Some K1"
    using CKD_step [OF laws soft(1) steps(2) [unfolded kc] K] steps(3) by (auto simp: kc)
  obtain k2 c2 K2 where 2: "CKDpriv ec index kc' = Some (k2, c2)" "CKDpub ec index (K1, c1) = (K2, c2)" "LWSecp256k1PointGen ec k2 = Some K2"
    using CKD_step [OF laws soft(2) steps(4) [unfolded 1] 1(3)] by (auto simp: 1)
  have "LWBIP32PrivKey ec seed chain index = Some (snd (LWKeySetSecret ec k2 True))"
    using steps 2 by (simp add: LWBIP32PrivKey_def LWBIP32PrivKeyPath_def LWBIP32vPrivKeyPath_def)
  moreover have "LWBIP32PubKey ec cap mpk chain index = Some (Some K2)"
    using mpk(2) cap by (simp add: LWBIP32PubKey_def m 1 2)
  moreover have "fst (LWKeyPubKey ec None (snd (LWKeySetSecret ec k2 True))) = K2"
    using pubKey_of_secret(1) [OF laws 2(3), of None] by (simp add: fits_in_def)
  moreover have "LWBIP32PrivKeyList ec seed chain [index] = Some [snd (LWKeySetSecret ec k2 True)]"
    using steps 2 by (simp add: LWBIP32PrivKeyList_def)
  ultimately show ?thesis by blast
qed

text \<open>A group in place of the curve: the first bytes of the secrets under addition.\<close>

definition byte_ec :: "(u8, UInt256, unit) ec" where
  "byte_ec = \<lparr>seckey_verify = (\<lambda>k. True), privkey_tweak_add = (\<lambda>a b. (True, (hd a + hd b) # tl a)),
     privkey_tweak_mul = (\<lambda>a b. (True, a)), pubkey_create = (\<lambda>k. Some (hd k)),
     pubkey_parse = (\<lambda>b. Some (last b)), pubkey_serialize = (\<lambda>c p. 2 # replicate (if c then 31 else 63) 0 @ [p]),
     pubkey_tweak_add = (\<lambda>p i. Some (p + hd i)), pubkey_tweak_mul = (\<lambda>p i. Some p), ecdsa_sign = (\<lambda>md k. Some md),
     signature_serialize_der = (\<lambda>s. s), signature_parse_der = (\<lambda>b. Some b), ecdsa_verify = (\<lambda>s md p. s = md),
     sign_recoverable = (\<lambda>md k. Some ()), recoverable_serialize = (\<lambda>s. (replicate 64 0, 1)),
     recoverable_parse = (\<lambda>b r. Some ()), ecdsa_recover = (\<lambda>s md. Some 0)\<rparr>"

lemma byte_ec_laws: "curve_laws byte_ec" "LWSecp256k1PointGen byte_ec k = Some (2 # replicate 31 0 @ [hd k])"
  by (auto simp: curve_laws_def byte_ec_def LWSecp256k1PointGen_def)

theorem bip32_public_matches_private_witness:
  "\<exists>mpk key. LWBIP32MasterPubKey byte_ec [7] = Some mpk \<and> LWBIP32PrivKey byte_ec [7] 1 5 = Some key \<and>
    LWBIP32PubKey byte_ec None mpk 1 5 = Some (Some (fst (LWKeyPubKey byte_ec None key)))"
proof -
  obtain k c where kc: "CKDpriv byte_ec (0 OR BIP32_HARD) (master_secret [7]) = Some (k, c)"
    by (cases "master_secret [7]") (simp add: CKDpriv_def BIP32_HARD_def Let_def)
  obtain kc' where kc': "CKDpriv byte_ec 1 (k, c) = Some kc'"
    by (simp add: CKDpriv_def BIP32_HARD_def byte_ec_laws Let_def)
  have pk: "fst (LWKeyPubKey byte_ec (Some 33) (snd (LWKeySetSecret byte_ec k True))) = 2 # replicate 31 0 @ [hd k]"
    by (rule pubKey_of_secret) (simp_all add: byte_ec_laws fits_in_def)
  obtain mpk where mpk: "LWBIP32MasterPubKey byte_ec [7] = Some mpk" "mpk_pubKey mpk = 2 # replicate 31 0 @ [hd k]"
    using kc by (cases "master_secret [7]") (simp add: LWBIP32MasterPubKey_def pk LW_MASTER_PUBKEY_NONE_def)
  have ok: "tweak_ok byte_ec i kc" for i kc
    by (cases kc) (simp add: tweak_ok_def byte_ec_laws LWSecp256k1ModAdd_def, simp add: byte_ec_def)
  have "hd (mpk_pubKey LW_MASTER_PUBKEY_NONE) = 0" by (simp add: LW_MASTER_PUBKEY_NONE_def)
  then have "mpk \<noteq> LW_MASTER_PUBKEY_NONE" using mpk(2) by auto
  then show ?thesis
    using bip32_public_matches_private [OF byte_ec_laws(1) _ _ mpk(1) _ kc ok kc' ok, of 5 None] mpk(1)
    by (auto simp: BIP32_HARD_def fits_in_def)
qed

end
