(* ===== verification/LW_BIP38.thy ===== *)
theory LW_BIP38
  imports LW_Key
begin

text \<open>
  Model of \<^verbatim>\<open>LWBIP38Key.c\<close>: private keys encrypted with a passphrase, and the block cipher AES-256 they use. A block
  and a key are lists of 16 and 32 bytes; the words the source combines them by are combined byte by byte.
\<close>

subsection \<open>AES-256\<close>

definition sbox :: "u8 list" where
  "sbox = [
    0x63, 0x7c, 0x77, 0x7b, 0xf2, 0x6b, 0x6f, 0xc5, 0x30, 0x01, 0x67, 0x2b, 0xfe, 0xd7, 0xab, 0x76,
    0xca, 0x82, 0xc9, 0x7d, 0xfa, 0x59, 0x47, 0xf0, 0xad, 0xd4, 0xa2, 0xaf, 0x9c, 0xa4, 0x72, 0xc0,
    0xb7, 0xfd, 0x93, 0x26, 0x36, 0x3f, 0xf7, 0xcc, 0x34, 0xa5, 0xe5, 0xf1, 0x71, 0xd8, 0x31, 0x15,
    0x04, 0xc7, 0x23, 0xc3, 0x18, 0x96, 0x05, 0x9a, 0x07, 0x12, 0x80, 0xe2, 0xeb, 0x27, 0xb2, 0x75,
    0x09, 0x83, 0x2c, 0x1a, 0x1b, 0x6e, 0x5a, 0xa0, 0x52, 0x3b, 0xd6, 0xb3, 0x29, 0xe3, 0x2f, 0x84,
    0x53, 0xd1, 0x00, 0xed, 0x20, 0xfc, 0xb1, 0x5b, 0x6a, 0xcb, 0xbe, 0x39, 0x4a, 0x4c, 0x58, 0xcf,
    0xd0, 0xef, 0xaa, 0xfb, 0x43, 0x4d, 0x33, 0x85, 0x45, 0xf9, 0x02, 0x7f, 0x50, 0x3c, 0x9f, 0xa8,
    0x51, 0xa3, 0x40, 0x8f, 0x92, 0x9d, 0x38, 0xf5, 0xbc, 0xb6, 0xda, 0x21, 0x10, 0xff, 0xf3, 0xd2,
    0xcd, 0x0c, 0x13, 0xec, 0x5f, 0x97, 0x44, 0x17, 0xc4, 0xa7, 0x7e, 0x3d, 0x64, 0x5d, 0x19, 0x73,
    0x60, 0x81, 0x4f, 0xdc, 0x22, 0x2a, 0x90, 0x88, 0x46, 0xee, 0xb8, 0x14, 0xde, 0x5e, 0x0b, 0xdb,
    0xe0, 0x32, 0x3a, 0x0a, 0x49, 0x06, 0x24, 0x5c, 0xc2, 0xd3, 0xac, 0x62, 0x91, 0x95, 0xe4, 0x79,
    0xe7, 0xc8, 0x37, 0x6d, 0x8d, 0xd5, 0x4e, 0xa9, 0x6c, 0x56, 0xf4, 0xea, 0x65, 0x7a, 0xae, 0x08,
    0xba, 0x78, 0x25, 0x2e, 0x1c, 0xa6, 0xb4, 0xc6, 0xe8, 0xdd, 0x74, 0x1f, 0x4b, 0xbd, 0x8b, 0x8a,
    0x70, 0x3e, 0xb5, 0x66, 0x48, 0x03, 0xf6, 0x0e, 0x61, 0x35, 0x57, 0xb9, 0x86, 0xc1, 0x1d, 0x9e,
    0xe1, 0xf8, 0x98, 0x11, 0x69, 0xd9, 0x8e, 0x94, 0x9b, 0x1e, 0x87, 0xe9, 0xce, 0x55, 0x28, 0xdf,
    0x8c, 0xa1, 0x89, 0x0d, 0xbf, 0xe6, 0x42, 0x68, 0x41, 0x99, 0x2d, 0x0f, 0xb0, 0x54, 0xbb, 0x16]"

definition sboxi :: "u8 list" where
  "sboxi = [
    0x52, 0x09, 0x6a, 0xd5, 0x30, 0x36, 0xa5, 0x38, 0xbf, 0x40, 0xa3, 0x9e, 0x81, 0xf3, 0xd7, 0xfb,
    0x7c, 0xe3, 0x39, 0x82, 0x9b, 0x2f, 0xff, 0x87, 0x34, 0x8e, 0x43, 0x44, 0xc4, 0xde, 0xe9, 0xcb,
    0x54, 0x7b, 0x94, 0x32, 0xa6, 0xc2, 0x23, 0x3d, 0xee, 0x4c, 0x95, 0x0b, 0x42, 0xfa, 0xc3, 0x4e,
    0x08, 0x2e, 0xa1, 0x66, 0x28, 0xd9, 0x24, 0xb2, 0x76, 0x5b, 0xa2, 0x49, 0x6d, 0x8b, 0xd1, 0x25,
    0x72, 0xf8, 0xf6, 0x64, 0x86, 0x68, 0x98, 0x16, 0xd4, 0xa4, 0x5c, 0xcc, 0x5d, 0x65, 0xb6, 0x92,
    0x6c, 0x70, 0x48, 0x50, 0xfd, 0xed, 0xb9, 0xda, 0x5e, 0x15, 0x46, 0x57, 0xa7, 0x8d, 0x9d, 0x84,
    0x90, 0xd8, 0xab, 0x00, 0x8c, 0xbc, 0xd3, 0x0a, 0xf7, 0xe4, 0x58, 0x05, 0xb8, 0xb3, 0x45, 0x06,
    0xd0, 0x2c, 0x1e, 0x8f, 0xca, 0x3f, 0x0f, 0x02, 0xc1, 0xaf, 0xbd, 0x03, 0x01, 0x13, 0x8a, 0x6b,
    0x3a, 0x91, 0x11, 0x41, 0x4f, 0x67, 0xdc, 0xea, 0x97, 0xf2, 0xcf, 0xce, 0xf0, 0xb4, 0xe6, 0x73,
    0x96, 0xac, 0x74, 0x22, 0xe7, 0xad, 0x35, 0x85, 0xe2, 0xf9, 0x37, 0xe8, 0x1c, 0x75, 0xdf, 0x6e,
    0x47, 0xf1, 0x1a, 0x71, 0x1d, 0x29, 0xc5, 0x89, 0x6f, 0xb7, 0x62, 0x0e, 0xaa, 0x18, 0xbe, 0x1b,
    0xfc, 0x56, 0x3e, 0x4b, 0xc6, 0xd2, 0x79, 0x20, 0x9a, 0xdb, 0xc0, 0xfe, 0x78, 0xcd, 0x5a, 0xf4,
    0x1f, 0xdd, 0xa8, 0x33, 0x88, 0x07, 0xc7, 0x31, 0xb1, 0x12, 0x10, 0x59, 0x27, 0x80, 0xec, 0x5f,
    0x60, 0x51, 0x7f, 0xa9, 0x19, 0xb5, 0x4a, 0x0d, 0x2d, 0xe5, 0x7a, 0x9f, 0x93, 0xc9, 0x9c, 0xef,
    0xa0, 0xe0, 0x3b, 0x4d, 0xae, 0x2a, 0xf5, 0xb0, 0xc8, 0xeb, 0xbb, 0x3c, 0x83, 0x53, 0x99, 0x61,
    0x17, 0x2b, 0x04, 0x7e, 0xba, 0x77, 0xd6, 0x26, 0xe1, 0x69, 0x14, 0x63, 0x55, 0x21, 0x0c, 0x7d]"

definition sub_byte :: "u8 \<Rightarrow> u8" where "sub_byte b = sbox ! unat b"
definition unsub_byte :: "u8 \<Rightarrow> u8" where "unsub_byte b = sboxi ! unat b"

definition xt :: "u8 \<Rightarrow> u8" where
  "xt x = push_bit 1 x XOR (drop_bit 7 x AND 1) * 0x1b"

text \<open>The word at \<open>j\<close>, and that word combined with another.\<close>

definition word_at :: "nat \<Rightarrow> bytes \<Rightarrow> bytes" where
  "word_at j k = take 4 (drop j k)"

definition xor_word :: "nat \<Rightarrow> bytes \<Rightarrow> bytes \<Rightarrow> bytes" where
  "xor_word j w k = take j k @ xor_bytes (word_at j k) w @ drop (j + 4) k"

definition chain_word :: "nat \<Rightarrow> bytes \<Rightarrow> bytes" where
  "chain_word j k = xor_word j (word_at (j - 4) k) k"

definition first_word :: "u8 \<Rightarrow> bytes \<Rightarrow> bytes" where
  "first_word r k = xor_word 0 [sub_byte (k ! 29) XOR r, sub_byte (k ! 30), sub_byte (k ! 31), sub_byte (k ! 28)] k"

definition middle_word :: "bytes \<Rightarrow> bytes" where
  "middle_word k = xor_word 16 [sub_byte (k ! 12), sub_byte (k ! 13), sub_byte (k ! 14), sub_byte (k ! 15)] k"

definition expand_key :: "bytes \<times> u8 \<Rightarrow> bytes \<times> u8" where
  "expand_key = (\<lambda>(k, r).
     (fold chain_word [20, 24, 28] (middle_word (fold chain_word [4, 8, 12] (first_word r k))), xt r))"

definition unexpand_key :: "bytes \<times> u8 \<Rightarrow> bytes \<times> u8" where
  "unexpand_key = (\<lambda>(k, r).
     let k = fold chain_word [12, 8, 4] (middle_word (fold chain_word [28, 24, 20] k));
         r = drop_bit 1 r XOR (r AND 1) * 0x8d
     in (first_word r k, r))"

definition add_round_key :: "nat \<Rightarrow> bytes \<Rightarrow> bytes \<Rightarrow> bytes" where
  "add_round_key i k x = xor_bytes x (take 16 (drop ((i mod 2) * 16) k))"

definition shift_rows :: "bytes \<Rightarrow> bytes" where
  "shift_rows x = x[1 := x ! 5, 5 := x ! 9, 9 := x ! 13, 13 := x ! 1, 10 := x ! 2, 2 := x ! 10,
     3 := x ! 15, 15 := x ! 11, 11 := x ! 7, 7 := x ! 3, 14 := x ! 6, 6 := x ! 14]"

definition unshift_rows :: "bytes \<Rightarrow> bytes" where
  "unshift_rows x = x[1 := x ! 13, 13 := x ! 9, 9 := x ! 5, 5 := x ! 1, 2 := x ! 10, 10 := x ! 2,
     3 := x ! 7, 7 := x ! 11, 11 := x ! 15, 15 := x ! 3, 6 := x ! 14, 14 := x ! 6]"

fun mix_columns :: "bytes \<Rightarrow> bytes" where
  "mix_columns (a # b # c # d # x) =
     (let e = a XOR b XOR c XOR d in
      (a XOR e XOR xt (a XOR b)) # (b XOR e XOR xt (b XOR c)) # (c XOR e XOR xt (c XOR d)) # (d XOR e XOR xt (d XOR a)) # mix_columns x)"
| "mix_columns x = x"

fun unmix_columns :: "bytes \<Rightarrow> bytes" where
  "unmix_columns (a # b # c # d # x) =
     (let e = a XOR b XOR c XOR d; h = xt e;
          f = e XOR xt (xt (h XOR a XOR c)); g = e XOR xt (xt (h XOR b XOR d)) in
      (a XOR f XOR xt (a XOR b)) # (b XOR g XOR xt (b XOR c)) # (c XOR f XOR xt (c XOR d)) # (d XOR g XOR xt (d XOR a)) # unmix_columns x)"
| "unmix_columns x = x"

definition encrypt_round :: "nat \<Rightarrow> bytes \<times> bytes \<times> u8 \<Rightarrow> bytes \<times> bytes \<times> u8" where
  "encrypt_round i = (\<lambda>(x, k, r).
     let x = shift_rows (map sub_byte (add_round_key i k x));
         x = (if i < 13 then mix_columns x else x)
     in (x, if i mod 2 \<noteq> 0 then expand_key (k, r) else (k, r)))"

definition LWAES256ECBEncrypt :: "bytes \<Rightarrow> bytes \<Rightarrow> bytes" where
  "LWAES256ECBEncrypt key32 buf16 =
     (let (x, k, r) = fold encrypt_round [0..<14] (buf16, key32, 1) in add_round_key 0 k x)"

definition decrypt_round :: "nat \<Rightarrow> bytes \<times> bytes \<times> u8 \<Rightarrow> bytes \<times> bytes \<times> u8" where
  "decrypt_round i = (\<lambda>(x, k, r).
     let x = add_round_key i k x;
         x = (if i > 0 then unmix_columns x else x);
         x = map unsub_byte (unshift_rows x)
     in (x, if i mod 2 = 0 then unexpand_key (k, r) else (k, r)))"

definition LWAES256ECBDecrypt :: "bytes \<Rightarrow> bytes \<Rightarrow> bytes" where
  "LWAES256ECBDecrypt key32 buf16 =
     (let (k, r) = (expand_key ^^ 7) (key32, 1);
          (x, k, r) = fold decrypt_round [0..<14] (buf16, k, r)
      in add_round_key 0 k x)"

subsection \<open>Decryption inverts encryption\<close>

lemma sbox_inverse: "map (\<lambda>b. sboxi ! unat b) sbox = map of_nat [0..<256]"
  by code_simp

lemma xt_if: "xt x = push_bit 1 x XOR (if bit x 7 then 0x1b else 0)"
proof -
  have "drop_bit 7 x AND 1 = of_bool (bit x 7)"
    by (rule bit_word_eqI) (auto simp: bit_simps)
  then show ?thesis by (simp add: xt_def)
qed

lemma xt_linear: "xt (a XOR b) = xt a XOR xt b"
  by (rule bit_word_eqI) (auto simp: xt_if bit_simps)

lemma unsub_sub [simp]: "unsub_byte (sub_byte b) = b"
proof -
  have n: "unat b < 256" by (rule unat_u8_less)
  have l: "length sbox = 256" by (simp add: sbox_def)
  have "map (\<lambda>b. sboxi ! unat b) sbox ! unat b = map of_nat [0..<256] ! unat b" by (simp add: sbox_inverse)
  then have "sboxi ! unat (sbox ! unat b) = of_nat (unat b)" using n l by simp
  then show ?thesis by (simp add: unsub_byte_def sub_byte_def)
qed

lemma bit_xt: "bit (xt r) n \<longleftrightarrow> (1 \<le> n \<and> n < 8 \<and> bit r (n - 1)) \<noteq> (bit r 7 \<and> bit (0x1b :: u8) n)"
  unfolding xt_if bit_xor_iff bit_push_bit_iff by auto

lemma xt_back: "drop_bit 1 (xt r) XOR (xt r AND 1) * 0x8d = r"
proof -
  have "xt r AND 1 = of_bool (bit r 7)" by (rule bit_word_eqI) (auto simp: bit_simps bit_xt)
  then have "drop_bit 1 (xt r) XOR (xt r AND 1) * 0x8d = drop_bit 1 (xt r) XOR (if bit r 7 then 0x8d else 0)" by simp
  also have "\<dots> = r"
  proof (rule bit_word_eqI)
    fix n
    assume "n < LENGTH(8)"
    then have "n \<in> {0, 1, 2, 3, 4, 5, 6, 7}" by auto
    then show "bit (drop_bit 1 (xt r) XOR (if bit r 7 then 0x8d else 0)) n = bit r n"
      unfolding bit_xor_iff bit_drop_bit_eq comp_def bit_xt by (auto simp: bit_simps)
  qed
  finally show ?thesis .
qed

lemma nth_xor_bytes: "i < length a \<Longrightarrow> i < length b \<Longrightarrow> xor_bytes a b ! i = a ! i XOR b ! i"
  by (simp add: xor_bytes_def)

lemma xor_bytes_twice [simp]: "xor_bytes (xor_bytes a b) b = take (length b) a"
  by (rule nth_equalityI) (auto simp: nth_xor_bytes xor.assoc)

lemma length_word_at: "j + 4 \<le> length k \<Longrightarrow> length (word_at j k) = 4"
  by (simp add: word_at_def)

lemma xor_word_length [simp]: "j + 4 \<le> length k \<Longrightarrow> length w = 4 \<Longrightarrow> length (xor_word j w k) = length k"
  by (simp add: xor_word_def word_at_def)

text \<open>Words elsewhere do not change, and combining twice changes nothing.\<close>

lemma word_at_xor:
  "j + 4 \<le> length k \<Longrightarrow> length w = 4 \<Longrightarrow> i + 4 \<le> j \<Longrightarrow> word_at i (xor_word j w k) = word_at i k"
  "j + 4 \<le> length k \<Longrightarrow> length w = 4 \<Longrightarrow> j + 4 \<le> i \<Longrightarrow> word_at i (xor_word j w k) = word_at i k"
  by (auto simp: word_at_def xor_word_def drop_take min_def)

lemma nth_xor:
  "j + 4 \<le> length k \<Longrightarrow> length w = 4 \<Longrightarrow> i < j \<or> j + 4 \<le> i \<Longrightarrow> i < length k \<Longrightarrow> xor_word j w k ! i = k ! i"
  by (auto simp: xor_word_def word_at_def nth_append min_def)

lemma xor_word_twice:
  assumes "j + 4 \<le> length k" "length w = 4"
  shows "xor_word j w (xor_word j w k) = k"
proof -
  have "word_at j (xor_word j w k) = xor_bytes (word_at j k) w" using assms by (simp add: word_at_def xor_word_def)
  moreover have "take j (xor_word j w k) = take j k" "drop (j + 4) (xor_word j w k) = drop (j + 4) k"
    using assms by (simp_all add: word_at_def xor_word_def)
  ultimately have "xor_word j w (xor_word j w k) = take j k @ word_at j k @ drop (j + 4) k"
    using assms by (simp add: xor_word_def [of j w "xor_word j w k"] word_at_def)
  also have "word_at j k @ drop (j + 4) k = drop j k" by (metis word_at_def append_take_drop_id drop_drop add.commute)
  finally show ?thesis by simp
qed

lemma unmix_mix: "unmix_columns (mix_columns x) = x"
proof (induction x rule: mix_columns.induct)
  case (1 a b c d x)
  let ?e = "a XOR b XOR c XOR d"
  have e: "(a XOR ?e XOR xt (a XOR b)) XOR (b XOR ?e XOR xt (b XOR c)) XOR (c XOR ?e XOR xt (c XOR d)) XOR (d XOR ?e XOR xt (d XOR a)) = ?e"
    by (simp add: xt_linear xor.left_commute xor.commute xor.assoc)
  show ?case using 1 by (simp add: Let_def e xt_linear xor.left_commute xor.commute xor.assoc)
qed simp_all

lemma chain_twice: "4 \<le> j \<Longrightarrow> j + 4 \<le> length k \<Longrightarrow> chain_word j (chain_word j k) = k"
  by (simp add: chain_word_def word_at_xor(1) length_word_at xor_word_twice)

lemma chain_length [simp]: "4 \<le> j \<Longrightarrow> j + 4 \<le> length k \<Longrightarrow> length (chain_word j k) = length k"
  by (simp add: chain_word_def length_word_at)

lemma middle_twice: "length k = 32 \<Longrightarrow> middle_word (middle_word k) = k"
  unfolding middle_word_def [of "middle_word k"] by (simp add: middle_word_def nth_xor xor_word_twice)

lemma middle_length [simp]: "length k = 32 \<Longrightarrow> length (middle_word k) = 32"
  by (simp add: middle_word_def)

lemma first_twice: "length k = 32 \<Longrightarrow> first_word r (first_word r k) = k"
  unfolding first_word_def [of r "first_word r k"] by (simp add: first_word_def nth_xor xor_word_twice)

lemma first_length [simp]: "length k = 32 \<Longrightarrow> length (first_word r k) = 32"
  by (simp add: first_word_def)

lemma unexpand_expand: "length k = 32 \<Longrightarrow> unexpand_key (expand_key (k, r)) = (k, r)"
  by (simp add: unexpand_key_def expand_key_def Let_def xt_back [simplified] chain_twice middle_twice first_twice)

lemma expand_length: "length k = 32 \<Longrightarrow> length (fst (expand_key (k, r))) = 32"
  by (simp add: expand_key_def)

lemma list16: "length x = 16 \<Longrightarrow> \<exists>a b c d e f g h i j k l m n p q. x = [a, b, c, d, e, f, g, h, i, j, k, l, m, n, p, q]"
  by (auto simp: length_Suc_conv numeral_eq_Suc)

lemma unshift_shift: "length x = 16 \<Longrightarrow> unshift_rows (shift_rows x) = x"
  by (drule list16) (auto simp: shift_rows_def unshift_rows_def)

lemma length_mix [simp]: "length (mix_columns x) = length x"
  by (induction x rule: mix_columns.induct) (simp_all add: Let_def)

lemma length_shift [simp]: "length (shift_rows x) = length x"
  by (simp add: shift_rows_def)

lemma length_add: "length k = 32 \<Longrightarrow> length x = 16 \<Longrightarrow> length (add_round_key i k x) = 16"
  by (cases "even i") (auto simp: add_round_key_def even_iff_mod_2_eq_zero odd_iff_mod_2_eq_one)

lemma add_twice: "length k = 32 \<Longrightarrow> length x = 16 \<Longrightarrow> add_round_key i k (add_round_key i k x) = x"
  by (cases "even i") (auto simp: add_round_key_def even_iff_mod_2_eq_zero odd_iff_mod_2_eq_one)

text \<open>The state before each round of an encryption.\<close>

definition enc_state :: "bytes \<Rightarrow> bytes \<Rightarrow> nat \<Rightarrow> bytes \<times> bytes \<times> u8" where
  "enc_state key x i = fold encrypt_round [0..<i] (x, key, 1)"

lemma enc_state_simps: "enc_state key x 0 = (x, key, 1)" "enc_state key x (Suc i) = encrypt_round i (enc_state key x i)"
  by (simp_all add: enc_state_def)

lemma enc_state_keys: "snd (enc_state key x i) = (expand_key ^^ (i div 2)) (key, 1)"
proof (induction i)
  case (Suc i)
  obtain y k r where s: "enc_state key x i = (y, k, r)" by (metis prod_cases3)
  then have kr: "(expand_key ^^ (i div 2)) (key, 1) = (k, r)" using Suc by simp
  show ?case
  proof (cases "even i")
    case True
    then show ?thesis using kr s by (simp add: enc_state_simps encrypt_round_def Let_def even_iff_mod_2_eq_zero)
  next
    case False
    then have "Suc i div 2 = Suc (i div 2)" "i mod 2 \<noteq> 0" by (simp_all add: odd_iff_mod_2_eq_one)
    then show ?thesis using kr s by (simp add: enc_state_simps encrypt_round_def Let_def)
  qed
qed (simp add: enc_state_simps)

lemma enc_state_length:
  assumes "length key = 32" "length x = 16"
  shows "length (fst (enc_state key x i)) = 16 \<and> length (fst (snd (enc_state key x i))) = 32"
proof (induction i)
  case (Suc i)
  obtain y k r where s: "enc_state key x i = (y, k, r)" by (metis prod_cases3)
  then show ?case using Suc expand_length [of k r] by (simp add: enc_state_simps encrypt_round_def Let_def length_add)
qed (simp add: enc_state_simps assms)

text \<open>A round of the decryption undoes the last round of the encryption that is not undone yet.\<close>

lemma undo_rounds:
  assumes "length key = 32" "length x = 16" "d \<le> 14"
  shows "fold decrypt_round [0..<d] (LWAES256ECBEncrypt key x, snd (enc_state key x 14)) =
    (let (y, k, r) = enc_state key x (14 - d) in (add_round_key d k y, k, r))"
  using assms(3)
proof (induction d)
  case 0
  then show ?case by (simp add: LWAES256ECBEncrypt_def enc_state_def case_prod_beta Let_def)
next
  case (Suc d)
  define i where "i = 13 - d"
  have i: "14 - d = Suc i" "14 - Suc d = i" "i \<le> 13" "even d \<longleftrightarrow> odd i" "i < 13 \<longleftrightarrow> d > 0"
    using Suc.prems by (auto simp: i_def)
  obtain y k r where s: "enc_state key x i = (y, k, r)" by (metis prod_cases3)
  have l: "length y = 16" "length k = 32" using enc_state_length [OF assms(1,2), of i] s by simp_all
  let ?z = "shift_rows (map sub_byte (add_round_key i k y))"
  have same: "add_round_key (Suc d) k y = add_round_key i k y"
  proof -
    have "Suc d mod 2 = i mod 2" using i(4) by presburger
    then show ?thesis by (simp add: add_round_key_def)
  qed
  have r1: "enc_state key x (Suc i) = (if i < 13 then mix_columns ?z else ?z, if odd i then expand_key (k, r) else (k, r))"
    using s by (simp add: enc_state_simps encrypt_round_def Let_def odd_iff_mod_2_eq_one)
  obtain k' r' where k': "(if odd i then expand_key (k, r) else (k, r)) = (k', r')" by (metis surj_pair)
  have l': "length k' = 32" using k' expand_length [OF l(2), of r] l(2) by (auto split: if_splits)
  have IH: "fold decrypt_round [0..<d] (LWAES256ECBEncrypt key x, snd (enc_state key x 14)) =
      (add_round_key d k' (if i < 13 then mix_columns ?z else ?z), k', r')"
    using Suc by (simp add: i(1) r1 k')
  have z: "length ?z = 16" using length_add [OF l(2,1)] by simp
  have "map unsub_byte (unshift_rows ?z) = add_round_key i k y"
    using length_add [OF l(2,1)] by (simp add: unshift_shift comp_def)
  moreover have "(if d mod 2 = 0 then unexpand_key (k', r') else (k', r')) = (k, r)"
  proof (cases "odd i")
    case True
    then have "expand_key (k, r) = (k', r')" "d mod 2 = 0" using k' i(4) by (auto simp: even_iff_mod_2_eq_zero)
    then show ?thesis using unexpand_expand [OF l(2), of r] by simp
  next
    case False
    then show ?thesis using k' i(4) by (auto simp: even_iff_mod_2_eq_zero)
  qed
  ultimately have "decrypt_round d (add_round_key d k' (if i < 13 then mix_columns ?z else ?z), k', r') = (add_round_key i k y, k, r)"
    using i(5) z l' by (simp add: decrypt_round_def Let_def add_twice unmix_mix)
  then show ?case using IH s same by (simp add: i_def [symmetric])
qed

lemma aes_roundtrip:
  assumes "length key = 32" "length x = 16"
  shows "LWAES256ECBDecrypt key (LWAES256ECBEncrypt key x) = x"
proof -
  have k: "(expand_key ^^ 7) (key, 1) = snd (enc_state key x 14)" by (simp add: enc_state_keys)
  have "fold decrypt_round [0..<14] (LWAES256ECBEncrypt key x, snd (enc_state key x 14)) = (add_round_key 14 key x, key, 1)"
    using undo_rounds [OF assms, of 14] by (simp add: enc_state_simps)
  then show ?thesis unfolding LWAES256ECBDecrypt_def k using add_twice [OF assms, of 0]
    by (simp add: case_prod_beta Let_def add_round_key_def)
qed

subsection \<open>Encrypted keys\<close>

definition BIP38_NOEC_PREFIX :: u16 where "BIP38_NOEC_PREFIX = 0x0142"
definition BIP38_EC_PREFIX :: u16 where "BIP38_EC_PREFIX = 0x0143"
definition BIP38_NOEC_FLAG :: u8 where "BIP38_NOEC_FLAG = 0x80 OR 0x40"
definition BIP38_COMPRESSED_FLAG :: u8 where "BIP38_COMPRESSED_FLAG = 0x20"
definition BIP38_LOTSEQUENCE_FLAG :: u8 where "BIP38_LOTSEQUENCE_FLAG = 0x04"
definition BIP38_INVALID_FLAG :: u8 where "BIP38_INVALID_FLAG = 0x10 OR 0x08 OR 0x02 OR 0x01"
definition BIP38_SCRYPT_N :: nat where "BIP38_SCRYPT_N = 16384"
definition BIP38_SCRYPT_R :: nat where "BIP38_SCRYPT_R = 8"
definition BIP38_SCRYPT_P :: nat where "BIP38_SCRYPT_P = 8"
definition BIP38_SCRYPT_EC_N :: nat where "BIP38_SCRYPT_EC_N = 1024"
definition BIP38_SCRYPT_EC_R :: nat where "BIP38_SCRYPT_EC_R = 1"
definition BIP38_SCRYPT_EC_P :: nat where "BIP38_SCRYPT_EC_P = 1"

definition text_bytes :: "string \<Rightarrow> bytes" where
  "text_bytes s = map of_char s"

definition LWBIP38DerivePassfactor :: "u8 \<Rightarrow> bytes \<Rightarrow> string \<Rightarrow> UInt256 option" where
  "LWBIP38DerivePassfactor flag entropy passphrase = do {
     prefactor \<leftarrow> LWScrypt 32 (text_bytes passphrase) (take (if flag AND BIP38_LOTSEQUENCE_FLAG \<noteq> 0 then 4 else 8) entropy)
       BIP38_SCRYPT_N BIP38_SCRYPT_R BIP38_SCRYPT_P;
     Some (if flag AND BIP38_LOTSEQUENCE_FLAG \<noteq> 0 then LWSHA256_2 (prefactor @ take 8 entropy) else prefactor) }"

definition LWBIP38DeriveKey :: "LWECPoint \<Rightarrow> bytes \<Rightarrow> bytes \<Rightarrow> bytes option" where
  "LWBIP38DeriveKey passpoint addresshash entropy =
     LWScrypt 64 passpoint (take 4 addresshash @ take 8 entropy) BIP38_SCRYPT_EC_N BIP38_SCRYPT_EC_R BIP38_SCRYPT_EC_P"

definition LWBIP38KeyIsValid :: "string \<Rightarrow> bool" where
  "LWBIP38KeyIsValid bip38Key =
     (let data = LWBase58CheckDecode (Some 39) bip38Key; prefix = UInt16GetBE data; flag = data ! 2 in
      if length data \<noteq> 39 then False
      else if prefix = BIP38_NOEC_PREFIX then
        flag AND BIP38_NOEC_FLAG = BIP38_NOEC_FLAG \<and> flag AND BIP38_LOTSEQUENCE_FLAG = 0 \<and> flag AND BIP38_INVALID_FLAG = 0
      else if prefix = BIP38_EC_PREFIX then flag AND BIP38_NOEC_FLAG = 0 \<and> flag AND BIP38_INVALID_FLAG = 0
      else False)"

text \<open>The secret, for each of the two kinds of keys.\<close>

definition noec_secret :: "bytes \<Rightarrow> string \<Rightarrow> UInt256 option" where
  "noec_secret data passphrase = do {
     derived \<leftarrow> LWScrypt 64 (text_bytes passphrase) (take 4 (drop 3 data)) BIP38_SCRYPT_N BIP38_SCRYPT_R BIP38_SCRYPT_P;
     let derived1 = take 32 derived; derived2 = drop 32 derived in
     Some (xor_bytes (LWAES256ECBDecrypt derived2 (take 16 (drop 7 data))) (take 16 derived1) @
           xor_bytes (LWAES256ECBDecrypt derived2 (take 16 (drop 23 data))) (drop 16 derived1)) }"

definition ec_secret :: "('p, 's, 'r) ec \<Rightarrow> bytes \<Rightarrow> string \<Rightarrow> UInt256 option" where
  "ec_secret ec data passphrase =
     (let entropy = drop 7 data in do {
        passfactor \<leftarrow> LWBIP38DerivePassfactor (data ! 2) entropy passphrase;
        passpoint \<leftarrow> LWSecp256k1PointGen ec passfactor;
        derived \<leftarrow> LWBIP38DeriveKey passpoint (drop 3 data) entropy;
        let derived1 = take 32 derived; derived2 = drop 32 derived;
            encrypted2 = LWAES256ECBDecrypt derived2 (take 16 (drop 23 data));
            encrypted1 = take 8 (drop 15 data) @ xor_bytes (take 8 encrypted2) (take 8 (drop 16 derived1));
            seedb2 = xor_bytes (drop 8 encrypted2) (drop 24 derived1);
            seedb01 = xor_bytes (LWAES256ECBDecrypt derived2 encrypted1) (take 16 derived1)
        in Some (snd (LWSecp256k1ModMul ec passfactor (LWSHA256_2 (seedb01 @ seedb2)))) })"

text \<open>The key with its new contents; with any other prefix the secret is not initialised.\<close>

definition LWKeySetBIP38Key :: "('p, 's, 'r) ec \<Rightarrow> bool \<Rightarrow> LWKey \<Rightarrow> string \<Rightarrow> string \<Rightarrow> (bool \<times> LWKey) option" where
  "LWKeySetBIP38Key ec testnet key bip38Key passphrase =
     (let data = LWBase58CheckDecode (Some 39) bip38Key; prefix = UInt16GetBE data; flag = data ! 2 in
      if length data \<noteq> 39 then Some (False, key)
      else do {
        sec \<leftarrow> (if prefix = BIP38_NOEC_PREFIX then noec_secret data passphrase
               else if prefix = BIP38_EC_PREFIX then ec_secret ec data passphrase else None);
        let key = snd (LWKeySetSecret ec sec (flag AND BIP38_COMPRESSED_FLAG \<noteq> 0));
            (address, key) = LWKeyAddress ec testnet (Some 75) key
        in Some (case address of None \<Rightarrow> False
                 | Some a \<Rightarrow> take 4 (LWSHA256_2 (text_bytes a)) = take 4 (drop 3 data), key) })"

definition LWKeyBIP38ItermediateCode :: "nat \<Rightarrow> u64 \<Rightarrow> string \<Rightarrow> nat" where
  "LWKeyBIP38ItermediateCode codeLen salt passphrase = 0"

definition LWKeyBIP38ItermediateCodeLS :: "nat \<Rightarrow> u32 \<Rightarrow> u16 \<Rightarrow> u32 \<Rightarrow> string \<Rightarrow> nat" where
  "LWKeyBIP38ItermediateCodeLS codeLen lot sequence salt passphrase = 0"

text \<open>The length that is needed; and the text for room of so many characters, with the key whose public key is known then.\<close>

definition bip38_key_length :: nat where
  "bip38_key_length = 43 * 138 div 100 + 2"

definition LWKeyBIP38Key :: "('p, 's, 'r) ec \<Rightarrow> bool \<Rightarrow> nat option \<Rightarrow> LWKey \<Rightarrow> string \<Rightarrow> (string option \<times> LWKey) option" where
  "LWKeyBIP38Key ec testnet bip38KeyLen key passphrase =
     (let flag = (if compressed key then BIP38_NOEC_FLAG OR BIP38_COMPRESSED_FLAG else BIP38_NOEC_FLAG);
          (address, key) = LWKeyAddress ec testnet (Some 75) key in do {
        address \<leftarrow> address;
        let salt = take 4 (LWSHA256_2 (text_bytes address));
        derived \<leftarrow> LWScrypt 64 (text_bytes passphrase) salt BIP38_SCRYPT_N BIP38_SCRYPT_R BIP38_SCRYPT_P;
        let derived1 = take 32 derived; derived2 = drop 32 derived;
            encrypted1 = LWAES256ECBEncrypt derived2 (xor_bytes (take 16 (secret key)) (take 16 derived1));
            encrypted2 = LWAES256ECBEncrypt derived2 (xor_bytes (drop 16 (secret key)) (drop 16 derived1))
        in Some (LWBase58CheckEncode bip38KeyLen (UInt16SetBE BIP38_NOEC_PREFIX @ [flag] @ salt @ encrypted1 @ encrypted2), key) })"

subsection \<open>Decrypting an encrypted key\<close>

lemma length_encrypt: "length key = 32 \<Longrightarrow> length x = 16 \<Longrightarrow> length (LWAES256ECBEncrypt key x) = 16"
  using enc_state_length [of key x 14] length_add [of "fst (snd (enc_state key x 14))" "fst (enc_state key x 14)" 0]
  by (simp add: LWAES256ECBEncrypt_def enc_state_def [symmetric] case_prod_beta)

lemma scrypt_some: "\<exists>d. LWScrypt 64 pw salt BIP38_SCRYPT_N BIP38_SCRYPT_R BIP38_SCRYPT_P = Some d \<and> length d = 64"
  by (simp add: LWScrypt_def BIP38_SCRYPT_N_def BIP38_SCRYPT_R_def BIP38_SCRYPT_P_def Let_def fn_sha256.pbkdf2_ok(2))

lemma xor_back: "length a = length b \<Longrightarrow> xor_bytes (xor_bytes a b) b = a"
  by simp

text \<open>
  A key encrypted with a passphrase is a valid encrypted key, and decrypting it with the passphrase gives back the secret
  and whether its public key is compressed, and the address is recognised.
\<close>

lemma bip38_roundtrip:
  assumes "LWKeyBIP38Key ec tn cap (snd (LWKeySetSecret ec sec c)) passphrase = Some (Some s, key')" "length sec = 32"
  shows "LWBIP38KeyIsValid s \<and> (\<exists>k. LWKeySetBIP38Key ec tn key s passphrase = Some (True, k) \<and> secret k = sec \<and> compressed k = c)"
proof -
  let ?key = "snd (LWKeySetSecret ec sec c)"
  let ?flag = "if c then BIP38_NOEC_FLAG OR BIP38_COMPRESSED_FLAG else BIP38_NOEC_FLAG"
  have k: "secret ?key = sec" "compressed ?key = c" by (simp_all add: LWKeySetSecret_def)
  obtain a k1 where a: "LWKeyAddress ec tn (Some 75) ?key = (Some a, k1)"
    using assms(1) by (auto simp: LWKeyBIP38Key_def bind_eq_Some_conv split: prod.splits)
  have k1: "secret k1 = sec" "compressed k1 = c"
    using a k by (auto simp: LWKeyAddress_def LWKeyHash160_def LWKeyPubKey_def Let_def split: prod.splits if_splits option.splits)
  let ?salt = "take 4 (LWSHA256_2 (text_bytes a))"
  obtain d where d: "LWScrypt 64 (text_bytes passphrase) ?salt BIP38_SCRYPT_N BIP38_SCRYPT_R BIP38_SCRYPT_P = Some d" "length d = 64"
    using scrypt_some by blast
  let ?e1 = "LWAES256ECBEncrypt (drop 32 d) (xor_bytes (take 16 sec) (take 16 (take 32 d)))"
  let ?e2 = "LWAES256ECBEncrypt (drop 32 d) (xor_bytes (drop 16 sec) (drop 16 (take 32 d)))"
  let ?data = "UInt16SetBE BIP38_NOEC_PREFIX @ [?flag] @ ?salt @ ?e1 @ ?e2"
  have enc: "LWBase58CheckEncode cap ?data = Some s"
    using assms(1) a k k1 d(1) by (auto simp: LWKeyBIP38Key_def Let_def)
  have len: "length ?e1 = 16" "length ?e2 = 16" "length ?salt = 4"
    using assms(2) d(2) by (simp_all add: length_encrypt LWSHA256_2_def)
  define D where "D = UInt16SetBE BIP38_NOEC_PREFIX @ [?flag] @ ?salt @ ?e1 @ ?e2"
  have p: "UInt16SetBE BIP38_NOEC_PREFIX = [0x01, 0x42]" by code_simp
  have data: "LWBase58CheckDecode (Some 39) s = D"
    using len enc unfolding D_def by (intro check_decode_encode) (simp_all add: fits_in_def p)
  have parts: "length D = 39" "UInt16GetBE D = BIP38_NOEC_PREFIX" "D ! 2 = ?flag" "take 4 (drop 3 D) = ?salt"
    "take 16 (drop 7 D) = ?e1" "take 16 (drop 23 D) = ?e2"
    unfolding D_def p using len by (simp_all add: UInt16GetBE_def BIP38_NOEC_PREFIX_def)
  have dec: "LWAES256ECBDecrypt (drop 32 d) ?e1 = xor_bytes (take 16 sec) (take 16 (take 32 d))"
    "LWAES256ECBDecrypt (drop 32 d) ?e2 = xor_bytes (drop 16 sec) (drop 16 (take 32 d))"
    using assms(2) d(2) by (simp_all add: aes_roundtrip)
  have "noec_secret D passphrase = Some sec"
    unfolding noec_secret_def parts Let_def using d assms(2) dec by simp
  moreover have "?flag AND BIP38_COMPRESSED_FLAG \<noteq> 0 \<longleftrightarrow> c" "?flag AND BIP38_NOEC_FLAG = BIP38_NOEC_FLAG"
    "?flag AND BIP38_LOTSEQUENCE_FLAG = 0" "?flag AND BIP38_INVALID_FLAG = 0"
    by (simp_all add: BIP38_NOEC_FLAG_def BIP38_COMPRESSED_FLAG_def BIP38_LOTSEQUENCE_FLAG_def BIP38_INVALID_FLAG_def)
  ultimately show ?thesis
    unfolding LWBIP38KeyIsValid_def LWKeySetBIP38Key_def data Let_def parts using a k1 by (simp del: bit_simps)
qed

end
