(* ===== verification/LW_BIP39.thy ===== *)
theory LW_BIP39
  imports LW_Base58 LW_Crypto
begin

text \<open>
  Model of \<^verbatim>\<open>LWBIP39Mnemonic.c\<close>: phrases of words for random bytes with a checksum, and the key derived
  from a phrase. The word list is a parameter, as it is in the code. A read behind the buffer or the
  word list, or a failed assertion, is \<open>None\<close>. The theorem is that decoding a phrase gives its data back.
\<close>

definition BIP39_WORDLIST_COUNT :: nat where "BIP39_WORDLIST_COUNT = 2048"

text \<open>Word \<open>i\<close> of the phrase: 11 bits from bit \<open>11 * i\<close> of the data with its checksum.\<close>

definition encode_word :: "string list \<Rightarrow> bytes \<Rightarrow> nat \<Rightarrow> string option" where
  "encode_word wordList buf i =
     (if i * 11 div 8 + 4 > length buf then None
      else
        (let x = UInt32GetBE (drop (i * 11 div 8) buf)
         in deref wordList (unat (drop_bit (32 - (11 + (i * 11) mod 8)) x mod 2048))))"

fun encode_words :: "string list \<Rightarrow> bytes \<Rightarrow> nat list \<Rightarrow> string list option" where
  "encode_words wordList buf [] = Some []"
| "encode_words wordList buf (i # is) = do {
     w \<leftarrow> encode_word wordList buf i; ws \<leftarrow> encode_words wordList buf is; Some (w # ws) }"

fun joined :: "string list \<Rightarrow> string" where
  "joined [] = []"
| "joined [w] = w"
| "joined (w # ws) = w @ CHR '' '' # joined ws"

definition LWBIP39Encode :: "nat option \<Rightarrow> string list \<Rightarrow> bytes \<Rightarrow> string option option" where
  "LWBIP39Encode phraseLen wordList data =
     (if \<not> (length data > 0 \<and> length data mod 4 = 0) then None
      else do {
        let buf = data @ LWSHA256 data;
        ws \<leftarrow> encode_words wordList buf [0..<length data * 3 div 4];
        Some (if fits_in (length (joined ws) + 1) phraseLen then Some (joined ws) else None) })"

subsection \<open>Decoding\<close>

text \<open>The first word of the list that the text begins with, up to a space or its end.\<close>

definition begins_with :: "string \<Rightarrow> string \<Rightarrow> bool" where
  "begins_with word w \<longleftrightarrow> take (length w) word = w \<and>
     (case drop (length w) word of [] \<Rightarrow> True | c # _ \<Rightarrow> c = CHR '' '')"

definition word_index :: "string list \<Rightarrow> string \<Rightarrow> nat option" where
  "word_index wordList word = find (\<lambda>i. begins_with word (wordList ! i)) [0..<BIP39_WORDLIST_COUNT]"

text \<open>Behind the next space; \<open>None\<close> when there is none.\<close>

definition next_word :: "string \<Rightarrow> string option" where
  "next_word word = (case dropWhile (\<lambda>c. c \<noteq> CHR '' '') word of [] \<Rightarrow> None | _ # rest \<Rightarrow> Some rest)"

text \<open>The indexes of at most \<open>n\<close> words, and where the loop stopped.\<close>

fun word_indexes :: "string list \<Rightarrow> nat \<Rightarrow> string option \<Rightarrow> u32 list \<times> string option" where
  "word_indexes wordList 0 word = ([], word)"
| "word_indexes wordList (Suc n) word =
     (case word of None \<Rightarrow> ([], word)
      | Some text \<Rightarrow>
          if text = [] then ([], word)
          else (case word_index wordList text of None \<Rightarrow> ([], word)
                | Some i \<Rightarrow> (let (idx, rest) = word_indexes wordList n (next_word text) in (of_nat i # idx, rest))))"

definition decode_byte :: "u32 list \<Rightarrow> nat \<Rightarrow> u8" where
  "decode_byte idx i =
     (let x = idx ! (i * 8 div 11);
          y = (if i * 8 div 11 + 1 < length idx then idx ! (i * 8 div 11 + 1) else 0)
      in ucast (drop_bit ((i * 8 div 11 + 2) * 11 - (i + 1) * 8) (x * of_nat BIP39_WORDLIST_COUNT + y) AND 0xff))"

text \<open>The data, or no bytes when the phrase is invalid or there is no room.\<close>

definition LWBIP39Decode :: "nat option \<Rightarrow> string list \<Rightarrow> string \<Rightarrow> bytes option" where
  "LWBIP39Decode dataLen wordList phrase =
     (if length wordList < BIP39_WORDLIST_COUNT then None
      else
        (let (idx, rest) = word_indexes wordList 24 (Some phrase); count = length idx in
         Some (if count mod 3 = 0 \<and> (rest = None \<or> rest = Some []) then
                 (let buf = map (decode_byte idx) [0..<(count * 11 + 7) div 8];
                      b = (if buf = [] then 0 else last buf);
                      hash = LWSHA256 (take (count * 4 div 3) buf);
                      r = (if drop_bit (8 - count div 3) b = drop_bit (8 - count div 3) (hash ! 0) then count * 4 div 3 else 0)
                  in if fits_in r dataLen then take r buf else [])
               else [])))"

definition LWBIP39PhraseIsValid :: "string list \<Rightarrow> string \<Rightarrow> bool option" where
  "LWBIP39PhraseIsValid wordList phrase = map_option (\<lambda>data. length data > 0) (LWBIP39Decode None wordList phrase)"

definition LWBIP39DeriveKey :: "string \<Rightarrow> string option \<Rightarrow> bytes" where
  "LWBIP39DeriveKey phrase passphrase =
     (let salt = ''mnemonic'' @ (case passphrase of None \<Rightarrow> [] | Some p \<Rightarrow> p)
      in LWPBKDF2 64 LWSHA512 (512 div 8) (map of_char phrase) (map of_char salt) 2048)"

subsection \<open>Reading the words back\<close>

definition good_list :: "string list \<Rightarrow> bool" where
  "good_list wordList \<longleftrightarrow> length wordList = BIP39_WORDLIST_COUNT \<and> distinct wordList \<and>
     (\<forall>w \<in> set wordList. w \<noteq> [] \<and> CHR '' '' \<notin> set w)"

lemma begins_with_word:
  assumes "CHR '' '' \<notin> set w" "CHR '' '' \<notin> set v" "rest = [] \<or> hd rest = CHR '' ''"
  shows "begins_with (v @ rest) w \<longleftrightarrow> w = v"
proof
  assume b: "begins_with (v @ rest) w"
  define t where "t = drop (length w) (v @ rest)"
  have "take (length w) (v @ rest) = w" using b by (simp add: begins_with_def)
  then have t: "v @ rest = w @ t" unfolding t_def by (metis append_take_drop_id)
  have t': "t = [] \<or> hd t = CHR '' ''" using b unfolding begins_with_def t_def [symmetric] by (cases t) simp_all
  have "takeWhile (\<lambda>c. c \<noteq> CHR '' '') (u @ s) = u" if "CHR '' '' \<notin> set u" "s = [] \<or> hd s = CHR '' ''" for u s :: string
    using that by (cases s) (auto simp: takeWhile_append)
  then show "w = v" using t t' assms by metis
qed (use assms(3) in \<open>auto simp: begins_with_def split: list.splits\<close>)

lemma find_unique: "i < n \<Longrightarrow> (\<And>j. j < n \<Longrightarrow> P j \<longleftrightarrow> j = i) \<Longrightarrow> find P [0..<n] = Some i"
  by (auto simp: find_Some_iff)

lemma word_index_word:
  assumes "good_list wl" "k < BIP39_WORDLIST_COUNT" "rest = [] \<or> hd rest = CHR '' ''"
  shows "word_index wl (wl ! k @ rest) = Some k"
  unfolding word_index_def
proof (rule find_unique [OF assms(2)])
  fix j
  assume "j < BIP39_WORDLIST_COUNT"
  then have "begins_with (wl ! k @ rest) (wl ! j) \<longleftrightarrow> wl ! j = wl ! k"
    using assms by (intro begins_with_word) (auto simp: good_list_def)
  then show "begins_with (wl ! k @ rest) (wl ! j) \<longleftrightarrow> j = k"
    using assms(1,2) \<open>j < BIP39_WORDLIST_COUNT\<close> by (simp add: good_list_def nth_eq_iff_index_eq)
qed

lemma next_word_space: "CHR '' '' \<notin> set w \<Longrightarrow> next_word (w @ CHR '' '' # rest) = Some rest" "CHR '' '' \<notin> set w \<Longrightarrow> next_word w = None"
proof -
  assume w: "CHR '' '' \<notin> set w"
  then have "dropWhile (\<lambda>c. c \<noteq> CHR '' '') (w @ rest') = dropWhile (\<lambda>c. c \<noteq> CHR '' '') rest'" for rest'
    by (intro dropWhile_append2) auto
  from this [of "CHR '' '' # rest"] show "next_word (w @ CHR '' '' # rest) = Some rest" by (simp add: next_word_def)
  have "dropWhile (\<lambda>c. c \<noteq> CHR '' '') w = []" using w by auto
  then show "next_word w = None" unfolding next_word_def by (simp only: list.case)
qed

lemma joined_Cons: "ws \<noteq> [] \<Longrightarrow> joined (w # ws) = w @ CHR '' '' # joined ws"
  by (cases ws) simp_all

lemma word_indexes_joined:
  assumes "good_list wl"
  shows "ks \<noteq> [] \<Longrightarrow> length ks \<le> n \<Longrightarrow> \<forall>k \<in> set ks. k < BIP39_WORDLIST_COUNT \<Longrightarrow>
    word_indexes wl n (Some (joined (map (nth wl) ks))) = (map of_nat ks, None)"
proof (induction ks arbitrary: n)
  case (Cons k ks)
  obtain m where n: "n = Suc m" using Cons.prems(2) by (cases n) auto
  have k: "k < BIP39_WORDLIST_COUNT" using Cons.prems(3) by simp
  then have w: "wl ! k \<noteq> []" "CHR '' '' \<notin> set (wl ! k)" using assms by (auto simp: good_list_def)
  show ?case
  proof (cases "ks = []")
    case True
    have "word_index wl (wl ! k) = Some k" using word_index_word [OF assms k, of "[]"] by simp
    then show ?thesis using w next_word_space(2) [OF w(2)] by (cases m) (simp_all add: n True)
  next
    case False
    have "word_indexes wl m (Some (joined (map (nth wl) ks))) = (map of_nat ks, None)"
      using Cons.prems False by (intro Cons.IH) (auto simp: n)
    then show ?thesis
      using w next_word_space(1) [OF w(2)] word_index_word [OF assms k] False by (simp add: n joined_Cons)
  qed
qed simp

subsection \<open>The stream of bits\<close>

text \<open>Bit \<open>p\<close> of a byte string, the most significant one of the first byte being bit 0.\<close>

definition stream :: "bytes \<Rightarrow> nat \<Rightarrow> bool" where
  "stream bs p \<longleftrightarrow> bit (bs ! (p div 8)) (7 - p mod 8)"

lemma bit_ucast_u8: "bit (ucast (b :: u8) :: u32) n \<longleftrightarrow> bit b n"
  using bit_imp_le_length [of b n] by (auto simp: bit_ucast_iff)

lemma u8_high: "8 \<le> n \<Longrightarrow> \<not> bit (b :: u8) n"
  using bit_imp_le_length [of b n] by auto

lemma div_mod_8: "8 * q \<le> p \<Longrightarrow> p < 8 * q + 8 \<Longrightarrow> p div 8 = q \<and> p mod 8 = p - 8 * q" for p q :: nat
proof -
  assume "8 * q \<le> p" "p < 8 * q + 8"
  then obtain r where "p = 8 * q + r" "r < 8" by (metis le_add_diff_inverse nat_add_left_cancel_less)
  then show ?thesis by simp
qed

lemma bit_UInt32GetBE:
  assumes "n < 32"
  shows "bit (UInt32GetBE bs) n \<longleftrightarrow> stream bs (31 - n)"
proof -
  consider "n < 8" | "8 \<le> n" "n < 16" | "16 \<le> n" "n < 24" | "24 \<le> n" using assms by linarith
  then show ?thesis
  proof cases
    case 1
    then have "(31 - n) div 8 = 3" "7 - (31 - n) mod 8 = n" using div_mod_8 [of 3 "31 - n"] assms by auto
    then show ?thesis using 1 by (simp add: UInt32GetBE_def bit_or_iff bit_push_bit_iff bit_ucast_u8 stream_def)
  next
    case 2
    then have "(31 - n) div 8 = 2" "7 - (31 - n) mod 8 = n - 8" using div_mod_8 [of 2 "31 - n"] assms by auto
    then show ?thesis using 2 by (simp add: UInt32GetBE_def bit_or_iff bit_push_bit_iff bit_ucast_u8 stream_def u8_high)
  next
    case 3
    then have "(31 - n) div 8 = 1" "7 - (31 - n) mod 8 = n - 16" using div_mod_8 [of 1 "31 - n"] assms by auto
    then show ?thesis using 3 by (simp add: UInt32GetBE_def bit_or_iff bit_push_bit_iff bit_ucast_u8 stream_def u8_high)
  next
    case 4
    then have "(31 - n) div 8 = 0" "7 - (31 - n) mod 8 = n - 24" using div_mod_8 [of 0 "31 - n"] assms by auto
    then show ?thesis using 4 assms by (simp add: UInt32GetBE_def bit_or_iff bit_push_bit_iff bit_ucast_u8 stream_def u8_high)
  qed
qed

lemma stream_drop: "stream (drop k bs) p \<longleftrightarrow> stream bs (8 * k + p)" if "8 * k + p < 8 * length bs"
  using that by (simp add: stream_def)

text \<open>Eleven bits of the stream as an index.\<close>

definition index11 :: "bytes \<Rightarrow> nat \<Rightarrow> u32" where
  "index11 buf i = drop_bit (32 - (11 + (i * 11) mod 8)) (UInt32GetBE (drop (i * 11 div 8) buf)) mod 2048"

lemma mod_2048: "(x :: u32) mod 2048 = take_bit 11 x"
  by (simp add: take_bit_eq_mod)

lemma bit_index11:
  assumes "m < 11" "i * 11 div 8 + 4 \<le> length buf"
  shows "bit (index11 buf i) m \<longleftrightarrow> stream buf (11 * i + 10 - m)"
proof -
  define s where "s = (i * 11) mod 8"
  have s: "s < 8" by (simp add: s_def)
  have e: "8 * (i * 11 div 8) = 11 * i - s" "s \<le> 11 * i" by (simp_all add: s_def minus_mod_eq_mult_div mult.commute)
  have "8 * (i * 11 div 8) + (31 - (m + (21 - s))) = 11 * i + 10 - m" using s assms(1) e by linarith
  moreover have "8 * (i * 11 div 8) + (31 - (m + (21 - s))) < 8 * length buf" using assms(2) by linarith
  moreover have "bit (index11 buf i) m \<longleftrightarrow> bit (UInt32GetBE (drop (i * 11 div 8) buf)) (m + (21 - s))"
    using assms(1) s by (simp add: index11_def mod_2048 bit_take_bit_iff bit_drop_bit_eq s_def add.commute)
  ultimately show ?thesis using s assms(1) by (simp add: bit_UInt32GetBE stream_drop)
qed

lemma index11_less: "unat (index11 buf i) < 2048"
  by (simp add: index11_def unat_mod_distrib)

text \<open>A byte of the two words it is spread over.\<close>

lemma bit_two_words:
  assumes "unat (x :: u32) < 2048" "unat (y :: u32) < 2048" "n < 22"
  shows "bit (x * 2048 + y) n \<longleftrightarrow> (if n < 11 then bit y n else bit x (n - 11))"
proof -
  have x: "x * 2048 = push_bit 11 x" by (simp add: push_bit_eq_mult)
  have y: "\<not> bit y k" if "11 \<le> k" for k
  proof -
    have "take_bit 11 y = y" using assms(2) by (simp add: take_bit_eq_mod word_mod_less_divisor unat_arith_simps mod_less)
    then show ?thesis using that by (metis bit_take_bit_iff not_less)
  qed
  have "x * 2048 + y = push_bit 11 x OR y"
    unfolding x by (rule disjunctive_add) (use y in \<open>auto simp: bit_push_bit_iff not_less\<close>)
  then show ?thesis using y assms(3) by (auto simp: bit_or_iff bit_push_bit_iff)
qed

lemma bit_decode_byte:
  assumes idx: "idx = map (index11 buf) [0..<3 * m]" and t: "t < 8" and p: "8 * j + 7 - t < 33 * m" and len: "4 * m + 5 \<le> length buf" "m \<le> 8"
  shows "bit (decode_byte idx j) t \<longleftrightarrow> bit (buf ! j) t"
proof -
  define q where "q = j * 8 div 11"
  have q: "11 * q \<le> 8 * j" "8 * j < 11 * q + 11" by (simp_all add: q_def)
  define n where "n = t + ((q + 2) * 11 - (j + 1) * 8)"
  have n: "n + 8 * j + 8 = t + 11 * q + 22" "n < 22" using q t by (simp_all add: n_def)
  have room: "i * 11 div 8 + 4 \<le> length buf" if "i < 3 * m" for i
  proof -
    have "i * 11 div 8 \<le> 4 * m + 1" using that len(2) by (simp add: less_eq_div_iff_mult_less_eq)
    then show ?thesis using len by simp
  qed
  have x: "idx ! q = index11 buf q" "q < 3 * m" using q p t by (auto simp: idx)
  define y where "y = (if q + 1 < length idx then idx ! (q + 1) else 0)"
  have y: "unat y < 2048" using index11_less by (auto simp: y_def idx)
  have s: "stream buf (8 * j + 7 - t) \<longleftrightarrow> bit (buf ! j) t"
  proof -
    have "(8 * j + 7 - t) div 8 = j" "(8 * j + 7 - t) mod 8 = 7 - t" using div_mod_8 [of j "8 * j + 7 - t"] t by simp_all
    then show ?thesis using t by (simp add: stream_def)
  qed
  have "bit (decode_byte idx j) t \<longleftrightarrow> bit (index11 buf q * 2048 + y) n"
    unfolding decode_byte_def Let_def q_def [symmetric] y_def [symmetric] x(1)
    using t by (simp add: BIP39_WORDLIST_COUNT_def bit_ucast_iff bit_and_iff bit_drop_bit_eq n_def add.commute bit_numeral_rec)
  also have "\<dots> \<longleftrightarrow> (if n < 11 then bit y n else bit (index11 buf q) (n - 11))"
    by (rule bit_two_words [OF index11_less y n(2)])
  also have "\<dots> \<longleftrightarrow> stream buf (8 * j + 7 - t)"
  proof (cases "n < 11")
    case True
    then have "q + 1 < 3 * m" using n(1) p t by linarith
    then have "y = index11 buf (q + 1)" "(q + 1) * 11 div 8 + 4 \<le> length buf" using room [of "q + 1"] by (simp_all add: y_def idx)
    moreover have "11 * (q + 1) + 10 - n = 8 * j + 7 - t" using n(1) t True by simp
    ultimately show ?thesis using True bit_index11 [of n "q + 1" buf] by simp
  next
    case False
    then have "11 * q + 10 - (n - 11) = 8 * j + 7 - t" "n - 11 < 11" using n t by simp_all
    then show ?thesis using False bit_index11 [of "n - 11" q buf] room [OF x(2)] by simp
  qed
  finally show ?thesis using s by simp
qed

lemma encode_words_index:
  assumes "length wl = BIP39_WORDLIST_COUNT" "\<forall>i \<in> set is. i * 11 div 8 + 4 \<le> length buf"
  shows "encode_words wl buf is = Some (map (\<lambda>i. wl ! unat (index11 buf i)) is)"
  using assms(2)
proof (induction "is")
  case (Cons i "is")
  have "encode_word wl buf i = deref wl (unat (index11 buf i))" using Cons.prems by (simp add: encode_word_def index11_def Let_def not_less)
  also have "\<dots> = Some (wl ! unat (index11 buf i))" using assms(1) index11_less by (simp add: BIP39_WORDLIST_COUNT_def)
  finally show ?case using Cons by simp
qed simp

text \<open>The bytes that the indexes decode to: the data, and a byte that begins with the checksum.\<close>

lemma decoded_bytes:
  assumes "length data = 4 * m" "0 < m" "m \<le> 8" and buf: "buf = data @ LWSHA256 data" and idx: "idx = map (index11 buf) [0..<3 * m]"
  shows "\<exists>b. map (decode_byte idx) [0..<(3 * m * 11 + 7) div 8] = data @ [b] \<and> drop_bit (8 - m) b = drop_bit (8 - m) (LWSHA256 data ! 0)"
proof -
  have len: "4 * m + 5 \<le> length buf" using assms(1) by (simp add: buf)
  have n: "(3 * m * 11 + 7) div 8 = Suc (4 * m)"
  proof -
    have "3 * m * 11 + 7 = 8 * Suc (4 * m) + (m - 1)" "m - 1 < 8" using assms(2,3) by simp_all
    then show ?thesis by simp
  qed
  note bits = bit_decode_byte [OF idx _ _ len assms(3)]
  have "decode_byte idx j = data ! j" if "j < 4 * m" for j
  proof (rule bit_word_eqI)
    fix t
    assume "t < LENGTH(8)"
    then have "t < 8" "8 * j + 7 - t < 33 * m" using that by simp_all
    then show "bit (decode_byte idx j) t = bit (data ! j) t" using bits that assms(1) by (simp add: buf nth_append)
  qed
  then have "map (decode_byte idx) [0..<4 * m] = data" using assms(1) by (intro nth_equalityI) simp_all
  moreover have "drop_bit (8 - m) (decode_byte idx (4 * m)) = drop_bit (8 - m) (LWSHA256 data ! 0)"
  proof (rule bit_word_eqI)
    fix t
    show "bit (drop_bit (8 - m) (decode_byte idx (4 * m))) t = bit (drop_bit (8 - m) (LWSHA256 data ! 0)) t"
    proof (cases "t < m")
      case True
      then have "8 - m + t < 8" "8 * (4 * m) + 7 - (8 - m + t) < 33 * m" using assms(3) by simp_all
      then show ?thesis using bits [of "8 - m + t" "4 * m"] assms(1) by (simp add: bit_drop_bit_eq buf nth_append)
    next
      case False
      then show ?thesis using assms(3) by (simp add: bit_drop_bit_eq u8_high)
    qed
  qed
  ultimately show ?thesis unfolding n by (intro exI [of _ "decode_byte idx (4 * m)"]) simp
qed

text \<open>
  C36. Data of 4 to 32 bytes, a multiple of four, is encoded in a phrase over any list of 2048 distinct
  words without spaces, and decoding the phrase gives the data back; the phrase is valid.
\<close>

theorem bip39_roundtrip:
  assumes "good_list wl" "length data mod 4 = 0" "0 < length data" "length data \<le> 32"
  shows "\<exists>phrase. LWBIP39Encode None wl data = Some (Some phrase) \<and> LWBIP39Decode None wl phrase = Some data \<and>
    LWBIP39PhraseIsValid wl phrase = Some True"
proof -
  obtain m where m: "length data = 4 * m" using assms(2) by (metis mult_div_mod_eq add_0_right)
  then have m': "0 < m" "m \<le> 8" using assms(3,4) by simp_all
  define buf where "buf = data @ LWSHA256 data"
  define ks where "ks = map (\<lambda>i. unat (index11 buf i)) [0..<3 * m]"
  define idx where "idx = map (index11 buf) [0..<3 * m]"
  have count: "length data * 3 div 4 = 3 * m" using m by simp
  have wl: "length wl = BIP39_WORDLIST_COUNT" using assms(1) by (simp add: good_list_def)
  have "\<forall>i \<in> set [0..<3 * m]. i * 11 div 8 + 4 \<le> length buf"
  proof
    fix i
    assume "i \<in> set [0..<3 * m]"
    then have "i * 11 div 8 \<le> 4 * m + 1" using m'(2) by (simp add: less_eq_div_iff_mult_less_eq)
    then show "i * 11 div 8 + 4 \<le> length buf" using m by (simp add: buf_def)
  qed
  then have "encode_words wl buf [0..<3 * m] = Some (map (nth wl) ks)" using encode_words_index [OF wl] by (simp add: ks_def)
  then have enc: "LWBIP39Encode None wl data = Some (Some (joined (map (nth wl) ks)))"
    using assms(2,3) count by (simp add: LWBIP39Encode_def Let_def buf_def fits_in_def)
  have "\<forall>k \<in> set ks. k < BIP39_WORDLIST_COUNT" using index11_less by (auto simp: ks_def BIP39_WORDLIST_COUNT_def)
  moreover have "ks \<noteq> []" "length ks \<le> 24" using m' by (simp_all add: ks_def)
  ultimately have w: "word_indexes wl 24 (Some (joined (map (nth wl) ks))) = (idx, None)"
    using word_indexes_joined [OF assms(1), of ks 24] by (simp add: ks_def idx_def comp_def)
  obtain b where b: "map (decode_byte idx) [0..<(3 * m * 11 + 7) div 8] = data @ [b]" "drop_bit (8 - m) b = drop_bit (8 - m) (LWSHA256 data ! 0)"
    using decoded_bytes [OF m m' buf_def idx_def] by blast
  have "length idx = 3 * m" by (simp add: idx_def)
  then have dec: "LWBIP39Decode None wl (joined (map (nth wl) ks)) = Some data"
    using b m wl by (simp add: LWBIP39Decode_def w Let_def fits_in_def)
  then show ?thesis using enc assms(3) by (simp add: LWBIP39PhraseIsValid_def)
qed

text \<open>A word list: words of different lengths.\<close>

definition example_words :: "string list" where "example_words = map (\<lambda>i. replicate (Suc i) CHR ''a'') [0..<2048]"

lemma good_example_words: "good_list example_words"
proof -
  have "inj_on (\<lambda>i. replicate (Suc i) CHR ''a'') {0..<2048}" by (rule inj_onI) (metis length_replicate nat.inject)
  then show ?thesis by (auto simp: good_list_def example_words_def BIP39_WORDLIST_COUNT_def distinct_map simp del: replicate_Suc)
qed

theorem bip39_roundtrip_witness:
  "\<exists>phrase. LWBIP39Encode None example_words [1, 2, 3, 4] = Some (Some phrase) \<and>
    LWBIP39Decode None example_words phrase = Some [1, 2, 3, 4] \<and> LWBIP39PhraseIsValid example_words phrase = Some True"
  using bip39_roundtrip [OF good_example_words, of "[1, 2, 3, 4]"] by simp

end
