(* ===== verification/LW_BIP39Words.thy ===== *)
theory LW_BIP39Words
  imports LW_BIP39
begin

text \<open>
  The English word list of \<^verbatim>\<open>LWBIP39WordsEn.h\<close>, in sixteen parts of 128 words. The first four letters of the
  words increase strictly, so the words are distinct and the list is one that phrases can be made of.
\<close>

definition english_1 :: "string list" where
  "english_1 =
    [''abandon'', ''ability'', ''able'', ''about'', ''above'', ''absent'', ''absorb'', ''abstract'', ''absurd'',
     ''abuse'', ''access'', ''accident'', ''account'', ''accuse'', ''achieve'', ''acid'', ''acoustic'',
     ''acquire'', ''across'', ''act'', ''action'', ''actor'', ''actress'', ''actual'', ''adapt'', ''add'',
     ''addict'', ''address'', ''adjust'', ''admit'', ''adult'', ''advance'', ''advice'', ''aerobic'', ''affair'',
     ''afford'', ''afraid'', ''again'', ''age'', ''agent'', ''agree'', ''ahead'', ''aim'', ''air'', ''airport'',
     ''aisle'', ''alarm'', ''album'', ''alcohol'', ''alert'', ''alien'', ''all'', ''alley'', ''allow'',
     ''almost'', ''alone'', ''alpha'', ''already'', ''also'', ''alter'', ''always'', ''amateur'', ''amazing'',
     ''among'', ''amount'', ''amused'', ''analyst'', ''anchor'', ''ancient'', ''anger'', ''angle'', ''angry'',
     ''animal'', ''ankle'', ''announce'', ''annual'', ''another'', ''answer'', ''antenna'', ''antique'',
     ''anxiety'', ''any'', ''apart'', ''apology'', ''appear'', ''apple'', ''approve'', ''april'', ''arch'',
     ''arctic'', ''area'', ''arena'', ''argue'', ''arm'', ''armed'', ''armor'', ''army'', ''around'', ''arrange'',
     ''arrest'', ''arrive'', ''arrow'', ''art'', ''artefact'', ''artist'', ''artwork'', ''ask'', ''aspect'',
     ''assault'', ''asset'', ''assist'', ''assume'', ''asthma'', ''athlete'', ''atom'', ''attack'', ''attend'',
     ''attitude'', ''attract'', ''auction'', ''audit'', ''august'', ''aunt'', ''author'', ''auto'', ''autumn'',
     ''average'', ''avocado'']"

definition english_2 :: "string list" where
  "english_2 =
    [''avoid'', ''awake'', ''aware'', ''away'', ''awesome'', ''awful'', ''awkward'', ''axis'', ''baby'',
     ''bachelor'', ''bacon'', ''badge'', ''bag'', ''balance'', ''balcony'', ''ball'', ''bamboo'', ''banana'',
     ''banner'', ''bar'', ''barely'', ''bargain'', ''barrel'', ''base'', ''basic'', ''basket'', ''battle'',
     ''beach'', ''bean'', ''beauty'', ''because'', ''become'', ''beef'', ''before'', ''begin'', ''behave'',
     ''behind'', ''believe'', ''below'', ''belt'', ''bench'', ''benefit'', ''best'', ''betray'', ''better'',
     ''between'', ''beyond'', ''bicycle'', ''bid'', ''bike'', ''bind'', ''biology'', ''bird'', ''birth'',
     ''bitter'', ''black'', ''blade'', ''blame'', ''blanket'', ''blast'', ''bleak'', ''bless'', ''blind'',
     ''blood'', ''blossom'', ''blouse'', ''blue'', ''blur'', ''blush'', ''board'', ''boat'', ''body'', ''boil'',
     ''bomb'', ''bone'', ''bonus'', ''book'', ''boost'', ''border'', ''boring'', ''borrow'', ''boss'', ''bottom'',
     ''bounce'', ''box'', ''boy'', ''bracket'', ''brain'', ''brand'', ''brass'', ''brave'', ''bread'', ''breeze'',
     ''brick'', ''bridge'', ''brief'', ''bright'', ''bring'', ''brisk'', ''broccoli'', ''broken'', ''bronze'',
     ''broom'', ''brother'', ''brown'', ''brush'', ''bubble'', ''buddy'', ''budget'', ''buffalo'', ''build'',
     ''bulb'', ''bulk'', ''bullet'', ''bundle'', ''bunker'', ''burden'', ''burger'', ''burst'', ''bus'',
     ''business'', ''busy'', ''butter'', ''buyer'', ''buzz'', ''cabbage'', ''cabin'', ''cable'']"

definition english_3 :: "string list" where
  "english_3 =
    [''cactus'', ''cage'', ''cake'', ''call'', ''calm'', ''camera'', ''camp'', ''can'', ''canal'', ''cancel'',
     ''candy'', ''cannon'', ''canoe'', ''canvas'', ''canyon'', ''capable'', ''capital'', ''captain'', ''car'',
     ''carbon'', ''card'', ''cargo'', ''carpet'', ''carry'', ''cart'', ''case'', ''cash'', ''casino'', ''castle'',
     ''casual'', ''cat'', ''catalog'', ''catch'', ''category'', ''cattle'', ''caught'', ''cause'', ''caution'',
     ''cave'', ''ceiling'', ''celery'', ''cement'', ''census'', ''century'', ''cereal'', ''certain'', ''chair'',
     ''chalk'', ''champion'', ''change'', ''chaos'', ''chapter'', ''charge'', ''chase'', ''chat'', ''cheap'',
     ''check'', ''cheese'', ''chef'', ''cherry'', ''chest'', ''chicken'', ''chief'', ''child'', ''chimney'',
     ''choice'', ''choose'', ''chronic'', ''chuckle'', ''chunk'', ''churn'', ''cigar'', ''cinnamon'', ''circle'',
     ''citizen'', ''city'', ''civil'', ''claim'', ''clap'', ''clarify'', ''claw'', ''clay'', ''clean'', ''clerk'',
     ''clever'', ''click'', ''client'', ''cliff'', ''climb'', ''clinic'', ''clip'', ''clock'', ''clog'',
     ''close'', ''cloth'', ''cloud'', ''clown'', ''club'', ''clump'', ''cluster'', ''clutch'', ''coach'',
     ''coast'', ''coconut'', ''code'', ''coffee'', ''coil'', ''coin'', ''collect'', ''color'', ''column'',
     ''combine'', ''come'', ''comfort'', ''comic'', ''common'', ''company'', ''concert'', ''conduct'',
     ''confirm'', ''congress'', ''connect'', ''consider'', ''control'', ''convince'', ''cook'', ''cool'',
     ''copper'']"

definition english_4 :: "string list" where
  "english_4 =
    [''copy'', ''coral'', ''core'', ''corn'', ''correct'', ''cost'', ''cotton'', ''couch'', ''country'',
     ''couple'', ''course'', ''cousin'', ''cover'', ''coyote'', ''crack'', ''cradle'', ''craft'', ''cram'',
     ''crane'', ''crash'', ''crater'', ''crawl'', ''crazy'', ''cream'', ''credit'', ''creek'', ''crew'',
     ''cricket'', ''crime'', ''crisp'', ''critic'', ''crop'', ''cross'', ''crouch'', ''crowd'', ''crucial'',
     ''cruel'', ''cruise'', ''crumble'', ''crunch'', ''crush'', ''cry'', ''crystal'', ''cube'', ''culture'',
     ''cup'', ''cupboard'', ''curious'', ''current'', ''curtain'', ''curve'', ''cushion'', ''custom'', ''cute'',
     ''cycle'', ''dad'', ''damage'', ''damp'', ''dance'', ''danger'', ''daring'', ''dash'', ''daughter'',
     ''dawn'', ''day'', ''deal'', ''debate'', ''debris'', ''decade'', ''december'', ''decide'', ''decline'',
     ''decorate'', ''decrease'', ''deer'', ''defense'', ''define'', ''defy'', ''degree'', ''delay'', ''deliver'',
     ''demand'', ''demise'', ''denial'', ''dentist'', ''deny'', ''depart'', ''depend'', ''deposit'', ''depth'',
     ''deputy'', ''derive'', ''describe'', ''desert'', ''design'', ''desk'', ''despair'', ''destroy'', ''detail'',
     ''detect'', ''develop'', ''device'', ''devote'', ''diagram'', ''dial'', ''diamond'', ''diary'', ''dice'',
     ''diesel'', ''diet'', ''differ'', ''digital'', ''dignity'', ''dilemma'', ''dinner'', ''dinosaur'',
     ''direct'', ''dirt'', ''disagree'', ''discover'', ''disease'', ''dish'', ''dismiss'', ''disorder'',
     ''display'', ''distance'', ''divert'', ''divide'']"

definition english_5 :: "string list" where
  "english_5 =
    [''divorce'', ''dizzy'', ''doctor'', ''document'', ''dog'', ''doll'', ''dolphin'', ''domain'', ''donate'',
     ''donkey'', ''donor'', ''door'', ''dose'', ''double'', ''dove'', ''draft'', ''dragon'', ''drama'',
     ''drastic'', ''draw'', ''dream'', ''dress'', ''drift'', ''drill'', ''drink'', ''drip'', ''drive'', ''drop'',
     ''drum'', ''dry'', ''duck'', ''dumb'', ''dune'', ''during'', ''dust'', ''dutch'', ''duty'', ''dwarf'',
     ''dynamic'', ''eager'', ''eagle'', ''early'', ''earn'', ''earth'', ''easily'', ''east'', ''easy'', ''echo'',
     ''ecology'', ''economy'', ''edge'', ''edit'', ''educate'', ''effort'', ''egg'', ''eight'', ''either'',
     ''elbow'', ''elder'', ''electric'', ''elegant'', ''element'', ''elephant'', ''elevator'', ''elite'',
     ''else'', ''embark'', ''embody'', ''embrace'', ''emerge'', ''emotion'', ''employ'', ''empower'', ''empty'',
     ''enable'', ''enact'', ''end'', ''endless'', ''endorse'', ''enemy'', ''energy'', ''enforce'', ''engage'',
     ''engine'', ''enhance'', ''enjoy'', ''enlist'', ''enough'', ''enrich'', ''enroll'', ''ensure'', ''enter'',
     ''entire'', ''entry'', ''envelope'', ''episode'', ''equal'', ''equip'', ''era'', ''erase'', ''erode'',
     ''erosion'', ''error'', ''erupt'', ''escape'', ''essay'', ''essence'', ''estate'', ''eternal'', ''ethics'',
     ''evidence'', ''evil'', ''evoke'', ''evolve'', ''exact'', ''example'', ''excess'', ''exchange'', ''excite'',
     ''exclude'', ''excuse'', ''execute'', ''exercise'', ''exhaust'', ''exhibit'', ''exile'', ''exist'', ''exit'']"

definition english_6 :: "string list" where
  "english_6 =
    [''exotic'', ''expand'', ''expect'', ''expire'', ''explain'', ''expose'', ''express'', ''extend'', ''extra'',
     ''eye'', ''eyebrow'', ''fabric'', ''face'', ''faculty'', ''fade'', ''faint'', ''faith'', ''fall'', ''false'',
     ''fame'', ''family'', ''famous'', ''fan'', ''fancy'', ''fantasy'', ''farm'', ''fashion'', ''fat'', ''fatal'',
     ''father'', ''fatigue'', ''fault'', ''favorite'', ''feature'', ''february'', ''federal'', ''fee'', ''feed'',
     ''feel'', ''female'', ''fence'', ''festival'', ''fetch'', ''fever'', ''few'', ''fiber'', ''fiction'',
     ''field'', ''figure'', ''file'', ''film'', ''filter'', ''final'', ''find'', ''fine'', ''finger'', ''finish'',
     ''fire'', ''firm'', ''first'', ''fiscal'', ''fish'', ''fit'', ''fitness'', ''fix'', ''flag'', ''flame'',
     ''flash'', ''flat'', ''flavor'', ''flee'', ''flight'', ''flip'', ''float'', ''flock'', ''floor'', ''flower'',
     ''fluid'', ''flush'', ''fly'', ''foam'', ''focus'', ''fog'', ''foil'', ''fold'', ''follow'', ''food'',
     ''foot'', ''force'', ''forest'', ''forget'', ''fork'', ''fortune'', ''forum'', ''forward'', ''fossil'',
     ''foster'', ''found'', ''fox'', ''fragile'', ''frame'', ''frequent'', ''fresh'', ''friend'', ''fringe'',
     ''frog'', ''front'', ''frost'', ''frown'', ''frozen'', ''fruit'', ''fuel'', ''fun'', ''funny'', ''furnace'',
     ''fury'', ''future'', ''gadget'', ''gain'', ''galaxy'', ''gallery'', ''game'', ''gap'', ''garage'',
     ''garbage'', ''garden'', ''garlic'', ''garment'']"

definition english_7 :: "string list" where
  "english_7 =
    [''gas'', ''gasp'', ''gate'', ''gather'', ''gauge'', ''gaze'', ''general'', ''genius'', ''genre'', ''gentle'',
     ''genuine'', ''gesture'', ''ghost'', ''giant'', ''gift'', ''giggle'', ''ginger'', ''giraffe'', ''girl'',
     ''give'', ''glad'', ''glance'', ''glare'', ''glass'', ''glide'', ''glimpse'', ''globe'', ''gloom'',
     ''glory'', ''glove'', ''glow'', ''glue'', ''goat'', ''goddess'', ''gold'', ''good'', ''goose'', ''gorilla'',
     ''gospel'', ''gossip'', ''govern'', ''gown'', ''grab'', ''grace'', ''grain'', ''grant'', ''grape'',
     ''grass'', ''gravity'', ''great'', ''green'', ''grid'', ''grief'', ''grit'', ''grocery'', ''group'',
     ''grow'', ''grunt'', ''guard'', ''guess'', ''guide'', ''guilt'', ''guitar'', ''gun'', ''gym'', ''habit'',
     ''hair'', ''half'', ''hammer'', ''hamster'', ''hand'', ''happy'', ''harbor'', ''hard'', ''harsh'',
     ''harvest'', ''hat'', ''have'', ''hawk'', ''hazard'', ''head'', ''health'', ''heart'', ''heavy'',
     ''hedgehog'', ''height'', ''hello'', ''helmet'', ''help'', ''hen'', ''hero'', ''hidden'', ''high'', ''hill'',
     ''hint'', ''hip'', ''hire'', ''history'', ''hobby'', ''hockey'', ''hold'', ''hole'', ''holiday'', ''hollow'',
     ''home'', ''honey'', ''hood'', ''hope'', ''horn'', ''horror'', ''horse'', ''hospital'', ''host'', ''hotel'',
     ''hour'', ''hover'', ''hub'', ''huge'', ''human'', ''humble'', ''humor'', ''hundred'', ''hungry'', ''hunt'',
     ''hurdle'', ''hurry'', ''hurt'', ''husband'']"

definition english_8 :: "string list" where
  "english_8 =
    [''hybrid'', ''ice'', ''icon'', ''idea'', ''identify'', ''idle'', ''ignore'', ''ill'', ''illegal'',
     ''illness'', ''image'', ''imitate'', ''immense'', ''immune'', ''impact'', ''impose'', ''improve'',
     ''impulse'', ''inch'', ''include'', ''income'', ''increase'', ''index'', ''indicate'', ''indoor'',
     ''industry'', ''infant'', ''inflict'', ''inform'', ''inhale'', ''inherit'', ''initial'', ''inject'',
     ''injury'', ''inmate'', ''inner'', ''innocent'', ''input'', ''inquiry'', ''insane'', ''insect'', ''inside'',
     ''inspire'', ''install'', ''intact'', ''interest'', ''into'', ''invest'', ''invite'', ''involve'', ''iron'',
     ''island'', ''isolate'', ''issue'', ''item'', ''ivory'', ''jacket'', ''jaguar'', ''jar'', ''jazz'',
     ''jealous'', ''jeans'', ''jelly'', ''jewel'', ''job'', ''join'', ''joke'', ''journey'', ''joy'', ''judge'',
     ''juice'', ''jump'', ''jungle'', ''junior'', ''junk'', ''just'', ''kangaroo'', ''keen'', ''keep'',
     ''ketchup'', ''key'', ''kick'', ''kid'', ''kidney'', ''kind'', ''kingdom'', ''kiss'', ''kit'', ''kitchen'',
     ''kite'', ''kitten'', ''kiwi'', ''knee'', ''knife'', ''knock'', ''know'', ''lab'', ''label'', ''labor'',
     ''ladder'', ''lady'', ''lake'', ''lamp'', ''language'', ''laptop'', ''large'', ''later'', ''latin'',
     ''laugh'', ''laundry'', ''lava'', ''law'', ''lawn'', ''lawsuit'', ''layer'', ''lazy'', ''leader'', ''leaf'',
     ''learn'', ''leave'', ''lecture'', ''left'', ''leg'', ''legal'', ''legend'', ''leisure'', ''lemon'',
     ''lend'']"

definition english_9 :: "string list" where
  "english_9 =
    [''length'', ''lens'', ''leopard'', ''lesson'', ''letter'', ''level'', ''liar'', ''liberty'', ''library'',
     ''license'', ''life'', ''lift'', ''light'', ''like'', ''limb'', ''limit'', ''link'', ''lion'', ''liquid'',
     ''list'', ''little'', ''live'', ''lizard'', ''load'', ''loan'', ''lobster'', ''local'', ''lock'', ''logic'',
     ''lonely'', ''long'', ''loop'', ''lottery'', ''loud'', ''lounge'', ''love'', ''loyal'', ''lucky'',
     ''luggage'', ''lumber'', ''lunar'', ''lunch'', ''luxury'', ''lyrics'', ''machine'', ''mad'', ''magic'',
     ''magnet'', ''maid'', ''mail'', ''main'', ''major'', ''make'', ''mammal'', ''man'', ''manage'', ''mandate'',
     ''mango'', ''mansion'', ''manual'', ''maple'', ''marble'', ''march'', ''margin'', ''marine'', ''market'',
     ''marriage'', ''mask'', ''mass'', ''master'', ''match'', ''material'', ''math'', ''matrix'', ''matter'',
     ''maximum'', ''maze'', ''meadow'', ''mean'', ''measure'', ''meat'', ''mechanic'', ''medal'', ''media'',
     ''melody'', ''melt'', ''member'', ''memory'', ''mention'', ''menu'', ''mercy'', ''merge'', ''merit'',
     ''merry'', ''mesh'', ''message'', ''metal'', ''method'', ''middle'', ''midnight'', ''milk'', ''million'',
     ''mimic'', ''mind'', ''minimum'', ''minor'', ''minute'', ''miracle'', ''mirror'', ''misery'', ''miss'',
     ''mistake'', ''mix'', ''mixed'', ''mixture'', ''mobile'', ''model'', ''modify'', ''mom'', ''moment'',
     ''monitor'', ''monkey'', ''monster'', ''month'', ''moon'', ''moral'', ''more'', ''morning'']"

definition english_10 :: "string list" where
  "english_10 =
    [''mosquito'', ''mother'', ''motion'', ''motor'', ''mountain'', ''mouse'', ''move'', ''movie'', ''much'',
     ''muffin'', ''mule'', ''multiply'', ''muscle'', ''museum'', ''mushroom'', ''music'', ''must'', ''mutual'',
     ''myself'', ''mystery'', ''myth'', ''naive'', ''name'', ''napkin'', ''narrow'', ''nasty'', ''nation'',
     ''nature'', ''near'', ''neck'', ''need'', ''negative'', ''neglect'', ''neither'', ''nephew'', ''nerve'',
     ''nest'', ''net'', ''network'', ''neutral'', ''never'', ''news'', ''next'', ''nice'', ''night'', ''noble'',
     ''noise'', ''nominee'', ''noodle'', ''normal'', ''north'', ''nose'', ''notable'', ''note'', ''nothing'',
     ''notice'', ''novel'', ''now'', ''nuclear'', ''number'', ''nurse'', ''nut'', ''oak'', ''obey'', ''object'',
     ''oblige'', ''obscure'', ''observe'', ''obtain'', ''obvious'', ''occur'', ''ocean'', ''october'', ''odor'',
     ''off'', ''offer'', ''office'', ''often'', ''oil'', ''okay'', ''old'', ''olive'', ''olympic'', ''omit'',
     ''once'', ''one'', ''onion'', ''online'', ''only'', ''open'', ''opera'', ''opinion'', ''oppose'', ''option'',
     ''orange'', ''orbit'', ''orchard'', ''order'', ''ordinary'', ''organ'', ''orient'', ''original'', ''orphan'',
     ''ostrich'', ''other'', ''outdoor'', ''outer'', ''output'', ''outside'', ''oval'', ''oven'', ''over'',
     ''own'', ''owner'', ''oxygen'', ''oyster'', ''ozone'', ''pact'', ''paddle'', ''page'', ''pair'', ''palace'',
     ''palm'', ''panda'', ''panel'', ''panic'', ''panther'', ''paper'']"

definition english_11 :: "string list" where
  "english_11 =
    [''parade'', ''parent'', ''park'', ''parrot'', ''party'', ''pass'', ''patch'', ''path'', ''patient'',
     ''patrol'', ''pattern'', ''pause'', ''pave'', ''payment'', ''peace'', ''peanut'', ''pear'', ''peasant'',
     ''pelican'', ''pen'', ''penalty'', ''pencil'', ''people'', ''pepper'', ''perfect'', ''permit'', ''person'',
     ''pet'', ''phone'', ''photo'', ''phrase'', ''physical'', ''piano'', ''picnic'', ''picture'', ''piece'',
     ''pig'', ''pigeon'', ''pill'', ''pilot'', ''pink'', ''pioneer'', ''pipe'', ''pistol'', ''pitch'', ''pizza'',
     ''place'', ''planet'', ''plastic'', ''plate'', ''play'', ''please'', ''pledge'', ''pluck'', ''plug'',
     ''plunge'', ''poem'', ''poet'', ''point'', ''polar'', ''pole'', ''police'', ''pond'', ''pony'', ''pool'',
     ''popular'', ''portion'', ''position'', ''possible'', ''post'', ''potato'', ''pottery'', ''poverty'',
     ''powder'', ''power'', ''practice'', ''praise'', ''predict'', ''prefer'', ''prepare'', ''present'',
     ''pretty'', ''prevent'', ''price'', ''pride'', ''primary'', ''print'', ''priority'', ''prison'', ''private'',
     ''prize'', ''problem'', ''process'', ''produce'', ''profit'', ''program'', ''project'', ''promote'',
     ''proof'', ''property'', ''prosper'', ''protect'', ''proud'', ''provide'', ''public'', ''pudding'', ''pull'',
     ''pulp'', ''pulse'', ''pumpkin'', ''punch'', ''pupil'', ''puppy'', ''purchase'', ''purity'', ''purpose'',
     ''purse'', ''push'', ''put'', ''puzzle'', ''pyramid'', ''quality'', ''quantum'', ''quarter'', ''question'',
     ''quick'', ''quit'', ''quiz'']"

definition english_12 :: "string list" where
  "english_12 =
    [''quote'', ''rabbit'', ''raccoon'', ''race'', ''rack'', ''radar'', ''radio'', ''rail'', ''rain'', ''raise'',
     ''rally'', ''ramp'', ''ranch'', ''random'', ''range'', ''rapid'', ''rare'', ''rate'', ''rather'', ''raven'',
     ''raw'', ''razor'', ''ready'', ''real'', ''reason'', ''rebel'', ''rebuild'', ''recall'', ''receive'',
     ''recipe'', ''record'', ''recycle'', ''reduce'', ''reflect'', ''reform'', ''refuse'', ''region'', ''regret'',
     ''regular'', ''reject'', ''relax'', ''release'', ''relief'', ''rely'', ''remain'', ''remember'', ''remind'',
     ''remove'', ''render'', ''renew'', ''rent'', ''reopen'', ''repair'', ''repeat'', ''replace'', ''report'',
     ''require'', ''rescue'', ''resemble'', ''resist'', ''resource'', ''response'', ''result'', ''retire'',
     ''retreat'', ''return'', ''reunion'', ''reveal'', ''review'', ''reward'', ''rhythm'', ''rib'', ''ribbon'',
     ''rice'', ''rich'', ''ride'', ''ridge'', ''rifle'', ''right'', ''rigid'', ''ring'', ''riot'', ''ripple'',
     ''risk'', ''ritual'', ''rival'', ''river'', ''road'', ''roast'', ''robot'', ''robust'', ''rocket'',
     ''romance'', ''roof'', ''rookie'', ''room'', ''rose'', ''rotate'', ''rough'', ''round'', ''route'',
     ''royal'', ''rubber'', ''rude'', ''rug'', ''rule'', ''run'', ''runway'', ''rural'', ''sad'', ''saddle'',
     ''sadness'', ''safe'', ''sail'', ''salad'', ''salmon'', ''salon'', ''salt'', ''salute'', ''same'',
     ''sample'', ''sand'', ''satisfy'', ''satoshi'', ''sauce'', ''sausage'', ''save'', ''say'']"

definition english_13 :: "string list" where
  "english_13 =
    [''scale'', ''scan'', ''scare'', ''scatter'', ''scene'', ''scheme'', ''school'', ''science'', ''scissors'',
     ''scorpion'', ''scout'', ''scrap'', ''screen'', ''script'', ''scrub'', ''sea'', ''search'', ''season'',
     ''seat'', ''second'', ''secret'', ''section'', ''security'', ''seed'', ''seek'', ''segment'', ''select'',
     ''sell'', ''seminar'', ''senior'', ''sense'', ''sentence'', ''series'', ''service'', ''session'', ''settle'',
     ''setup'', ''seven'', ''shadow'', ''shaft'', ''shallow'', ''share'', ''shed'', ''shell'', ''sheriff'',
     ''shield'', ''shift'', ''shine'', ''ship'', ''shiver'', ''shock'', ''shoe'', ''shoot'', ''shop'', ''short'',
     ''shoulder'', ''shove'', ''shrimp'', ''shrug'', ''shuffle'', ''shy'', ''sibling'', ''sick'', ''side'',
     ''siege'', ''sight'', ''sign'', ''silent'', ''silk'', ''silly'', ''silver'', ''similar'', ''simple'',
     ''since'', ''sing'', ''siren'', ''sister'', ''situate'', ''six'', ''size'', ''skate'', ''sketch'', ''ski'',
     ''skill'', ''skin'', ''skirt'', ''skull'', ''slab'', ''slam'', ''sleep'', ''slender'', ''slice'', ''slide'',
     ''slight'', ''slim'', ''slogan'', ''slot'', ''slow'', ''slush'', ''small'', ''smart'', ''smile'', ''smoke'',
     ''smooth'', ''snack'', ''snake'', ''snap'', ''sniff'', ''snow'', ''soap'', ''soccer'', ''social'', ''sock'',
     ''soda'', ''soft'', ''solar'', ''soldier'', ''solid'', ''solution'', ''solve'', ''someone'', ''song'',
     ''soon'', ''sorry'', ''sort'', ''soul'', ''sound'', ''soup'']"

definition english_14 :: "string list" where
  "english_14 =
    [''source'', ''south'', ''space'', ''spare'', ''spatial'', ''spawn'', ''speak'', ''special'', ''speed'',
     ''spell'', ''spend'', ''sphere'', ''spice'', ''spider'', ''spike'', ''spin'', ''spirit'', ''split'',
     ''spoil'', ''sponsor'', ''spoon'', ''sport'', ''spot'', ''spray'', ''spread'', ''spring'', ''spy'',
     ''square'', ''squeeze'', ''squirrel'', ''stable'', ''stadium'', ''staff'', ''stage'', ''stairs'', ''stamp'',
     ''stand'', ''start'', ''state'', ''stay'', ''steak'', ''steel'', ''stem'', ''step'', ''stereo'', ''stick'',
     ''still'', ''sting'', ''stock'', ''stomach'', ''stone'', ''stool'', ''story'', ''stove'', ''strategy'',
     ''street'', ''strike'', ''strong'', ''struggle'', ''student'', ''stuff'', ''stumble'', ''style'',
     ''subject'', ''submit'', ''subway'', ''success'', ''such'', ''sudden'', ''suffer'', ''sugar'', ''suggest'',
     ''suit'', ''summer'', ''sun'', ''sunny'', ''sunset'', ''super'', ''supply'', ''supreme'', ''sure'',
     ''surface'', ''surge'', ''surprise'', ''surround'', ''survey'', ''suspect'', ''sustain'', ''swallow'',
     ''swamp'', ''swap'', ''swarm'', ''swear'', ''sweet'', ''swift'', ''swim'', ''swing'', ''switch'', ''sword'',
     ''symbol'', ''symptom'', ''syrup'', ''system'', ''table'', ''tackle'', ''tag'', ''tail'', ''talent'',
     ''talk'', ''tank'', ''tape'', ''target'', ''task'', ''taste'', ''tattoo'', ''taxi'', ''teach'', ''team'',
     ''tell'', ''ten'', ''tenant'', ''tennis'', ''tent'', ''term'', ''test'', ''text'', ''thank'', ''that'']"

definition english_15 :: "string list" where
  "english_15 =
    [''theme'', ''then'', ''theory'', ''there'', ''they'', ''thing'', ''this'', ''thought'', ''three'',
     ''thrive'', ''throw'', ''thumb'', ''thunder'', ''ticket'', ''tide'', ''tiger'', ''tilt'', ''timber'',
     ''time'', ''tiny'', ''tip'', ''tired'', ''tissue'', ''title'', ''toast'', ''tobacco'', ''today'',
     ''toddler'', ''toe'', ''together'', ''toilet'', ''token'', ''tomato'', ''tomorrow'', ''tone'', ''tongue'',
     ''tonight'', ''tool'', ''tooth'', ''top'', ''topic'', ''topple'', ''torch'', ''tornado'', ''tortoise'',
     ''toss'', ''total'', ''tourist'', ''toward'', ''tower'', ''town'', ''toy'', ''track'', ''trade'',
     ''traffic'', ''tragic'', ''train'', ''transfer'', ''trap'', ''trash'', ''travel'', ''tray'', ''treat'',
     ''tree'', ''trend'', ''trial'', ''tribe'', ''trick'', ''trigger'', ''trim'', ''trip'', ''trophy'',
     ''trouble'', ''truck'', ''true'', ''truly'', ''trumpet'', ''trust'', ''truth'', ''try'', ''tube'',
     ''tuition'', ''tumble'', ''tuna'', ''tunnel'', ''turkey'', ''turn'', ''turtle'', ''twelve'', ''twenty'',
     ''twice'', ''twin'', ''twist'', ''two'', ''type'', ''typical'', ''ugly'', ''umbrella'', ''unable'',
     ''unaware'', ''uncle'', ''uncover'', ''under'', ''undo'', ''unfair'', ''unfold'', ''unhappy'', ''uniform'',
     ''unique'', ''unit'', ''universe'', ''unknown'', ''unlock'', ''until'', ''unusual'', ''unveil'', ''update'',
     ''upgrade'', ''uphold'', ''upon'', ''upper'', ''upset'', ''urban'', ''urge'', ''usage'', ''use'', ''used'',
     ''useful'']"

definition english_16 :: "string list" where
  "english_16 =
    [''useless'', ''usual'', ''utility'', ''vacant'', ''vacuum'', ''vague'', ''valid'', ''valley'', ''valve'',
     ''van'', ''vanish'', ''vapor'', ''various'', ''vast'', ''vault'', ''vehicle'', ''velvet'', ''vendor'',
     ''venture'', ''venue'', ''verb'', ''verify'', ''version'', ''very'', ''vessel'', ''veteran'', ''viable'',
     ''vibrant'', ''vicious'', ''victory'', ''video'', ''view'', ''village'', ''vintage'', ''violin'',
     ''virtual'', ''virus'', ''visa'', ''visit'', ''visual'', ''vital'', ''vivid'', ''vocal'', ''voice'',
     ''void'', ''volcano'', ''volume'', ''vote'', ''voyage'', ''wage'', ''wagon'', ''wait'', ''walk'', ''wall'',
     ''walnut'', ''want'', ''warfare'', ''warm'', ''warrior'', ''wash'', ''wasp'', ''waste'', ''water'', ''wave'',
     ''way'', ''wealth'', ''weapon'', ''wear'', ''weasel'', ''weather'', ''web'', ''wedding'', ''weekend'',
     ''weird'', ''welcome'', ''west'', ''wet'', ''whale'', ''what'', ''wheat'', ''wheel'', ''when'', ''where'',
     ''whip'', ''whisper'', ''wide'', ''width'', ''wife'', ''wild'', ''will'', ''win'', ''window'', ''wine'',
     ''wing'', ''wink'', ''winner'', ''winter'', ''wire'', ''wisdom'', ''wise'', ''wish'', ''witness'', ''wolf'',
     ''woman'', ''wonder'', ''wood'', ''wool'', ''word'', ''work'', ''world'', ''worry'', ''worth'', ''wrap'',
     ''wreck'', ''wrestle'', ''wrist'', ''write'', ''wrong'', ''yard'', ''year'', ''yellow'', ''you'', ''young'',
     ''youth'', ''zebra'', ''zero'', ''zone'', ''zoo'']"

definition LWBIP39WordsEn :: "string list" where
  "LWBIP39WordsEn = concat [english_1, english_2, english_3, english_4, english_5, english_6, english_7, english_8,
     english_9, english_10, english_11, english_12, english_13, english_14, english_15, english_16]"

subsection \<open>The order of the words\<close>

fun before :: "string \<Rightarrow> string \<Rightarrow> bool" where
  "before [] (b # bs) \<longleftrightarrow> True"
| "before (a # as) (b # bs) \<longleftrightarrow> (if a = b then before as bs else (of_char a :: nat) < of_char b)"
| "before _ [] \<longleftrightarrow> False"

definition english_word :: "string \<Rightarrow> bool" where
  "english_word w \<longleftrightarrow> 3 \<le> length w \<and> length w \<le> 8 \<and> CHR '' '' \<notin> set w"

definition english_part :: "string list \<Rightarrow> bool" where
  "english_part ws \<longleftrightarrow> length ws = 128 \<and> successively before (map (take 4) ws) \<and> list_all english_word ws"

lemma part_1: "english_part english_1" by code_simp
lemma part_2: "english_part english_2" by code_simp
lemma part_3: "english_part english_3" by code_simp
lemma part_4: "english_part english_4" by code_simp
lemma part_5: "english_part english_5" by code_simp
lemma part_6: "english_part english_6" by code_simp
lemma part_7: "english_part english_7" by code_simp
lemma part_8: "english_part english_8" by code_simp
lemma part_9: "english_part english_9" by code_simp
lemma part_10: "english_part english_10" by code_simp
lemma part_11: "english_part english_11" by code_simp
lemma part_12: "english_part english_12" by code_simp
lemma part_13: "english_part english_13" by code_simp
lemma part_14: "english_part english_14" by code_simp
lemma part_15: "english_part english_15" by code_simp
lemma part_16: "english_part english_16" by code_simp

lemma english_seams:
  "successively (\<lambda>v w. before (take 4 (last v)) (take 4 (hd w)))
    [english_1, english_2, english_3, english_4, english_5, english_6, english_7, english_8,
     english_9, english_10, english_11, english_12, english_13, english_14, english_15, english_16]"
  by code_simp

lemmas parts = part_1 part_2 part_3 part_4 part_5 part_6 part_7 part_8 part_9 part_10 part_11 part_12 part_13 part_14 part_15 part_16

lemma before_irrefl: "\<not> before w w"
  by (induction w) simp_all

lemma before_trans: "before u v \<Longrightarrow> before v w \<Longrightarrow> before u w"
proof (induction u v arbitrary: w rule: before.induct)
  case (1 b bs)
  then show ?case by (cases w) simp_all
next
  case (2 a as b bs)
  then show ?case by (cases w) (auto split: if_splits)
qed simp_all

lemma sorted_before_distinct: "sorted_wrt before ws \<Longrightarrow> distinct ws"
  by (induction ws) (auto simp: before_irrefl)

lemma successively_concat:
  assumes "\<forall>ws \<in> set wss. ws \<noteq> [] \<and> successively P ws" "successively (\<lambda>v w. P (last v) (hd w)) wss"
  shows "successively P (concat wss)"
  using assms
proof (induction wss)
  case (Cons ws wss)
  then show ?case by (cases wss) (simp_all add: successively_append_iff)
qed simp

lemma english_parts:
  assumes "\<forall>ws \<in> set wss. english_part ws" "successively (\<lambda>v w. before (take 4 (last v)) (take 4 (hd w))) wss"
  shows "length (concat wss) = 128 * length wss \<and> distinct (map (take 4) (concat wss)) \<and> list_all english_word (concat wss)"
proof -
  have "successively (\<lambda>v w. before (take 4 v) (take 4 w)) (concat wss)"
    using assms by (intro successively_concat) (auto simp: english_part_def successively_map)
  then have "sorted_wrt before (map (take 4) (concat wss))"
    by (subst successively_conv_sorted_wrt [symmetric]) (auto simp: successively_map intro: transpI before_trans)
  then have "distinct (map (take 4) (concat wss))"
    by (rule sorted_before_distinct)
  moreover have "length (concat wss) = 128 * length wss \<and> list_all english_word (concat wss)"
    using assms(1) by (induction wss) (auto simp: english_part_def)
  ultimately show ?thesis by blast
qed

text \<open>
  C37. The list has 2048 words of three to eight letters without spaces, and already their first four
  letters tell them apart; so it is a list that phrases can be encoded in and read back from.
\<close>

theorem english_list:
  "length LWBIP39WordsEn = BIP39_WORDLIST_COUNT \<and> distinct (map (take 4) LWBIP39WordsEn) \<and>
   list_all english_word LWBIP39WordsEn \<and> good_list LWBIP39WordsEn"
proof -
  have e: "length LWBIP39WordsEn = BIP39_WORDLIST_COUNT" "distinct (map (take 4) LWBIP39WordsEn)" "list_all english_word LWBIP39WordsEn"
    using english_parts [OF _ english_seams] unfolding LWBIP39WordsEn_def BIP39_WORDLIST_COUNT_def by (auto simp: parts)
  moreover have "distinct LWBIP39WordsEn" using e(2) by (simp add: distinct_map)
  ultimately show ?thesis by (auto simp: good_list_def english_word_def list_all_iff)
qed

end
