(* ===== verification/LW_Bloom.thy ===== *)
theory LW_Bloom
  imports LW_Address LW_Hash
begin

text \<open>
  Model of \<^verbatim>\<open>LWBloomFilter.c\<close>: the filters that tell a node which transactions to send (BIP37). The size
  of a new filter and its number of hash functions come from expressions on floating-point numbers,
  which are parameters. A division by zero or an access behind the filter is \<open>None\<close>.
\<close>

record LWBloomFilter =
  filter_bytes :: bytes
  filter_length :: nat
  hashFuncs :: u32
  elemCount :: nat
  filter_tweak :: u32
  filter_flags :: u8

definition BLOOM_MAX_FILTER_LENGTH :: nat where "BLOOM_MAX_FILTER_LENGTH = 36000"
definition BLOOM_MAX_HASH_FUNCS :: u32 where "BLOOM_MAX_HASH_FUNCS = 50"

definition LW_BLOOM_FILTER_FULL :: LWBloomFilter where
  "LW_BLOOM_FILTER_FULL = \<lparr>filter_bytes = [0xff], filter_length = 1, hashFuncs = 0, elemCount = 0, filter_tweak = 0, filter_flags = 0\<rparr>"

text \<open>The index is computed in 64 bits and stored in 32.\<close>

definition LWBloomFilterHash :: "LWBloomFilter \<Rightarrow> bytes \<Rightarrow> u32 \<Rightarrow> u32 option" where
  "LWBloomFilterHash f data hashNum =
     (if size_mul (filter_length f) 8 = 0 then None
      else Some (of_nat (unat (LWMurmur3_32 data (hashNum * 0xfba4c795 + filter_tweak f)) mod size_mul (filter_length f) 8)))"

text \<open>
  \<open>wanted\<close> is the length the false positive rate and the number of elements call for, \<open>funcs\<close> the
  number of hash functions that suits a length.
\<close>

definition LWBloomFilterNew :: "nat \<Rightarrow> (nat \<Rightarrow> u32) \<Rightarrow> u32 \<Rightarrow> u8 \<Rightarrow> LWBloomFilter" where
  "LWBloomFilterNew wanted funcs tweak flags =
     (let len = (if wanted > BLOOM_MAX_FILTER_LENGTH then BLOOM_MAX_FILTER_LENGTH else wanted);
          len = (if len < 1 then 1 else len);
          n = funcs len; n = (if n > BLOOM_MAX_HASH_FUNCS then BLOOM_MAX_HASH_FUNCS else n)
      in \<lparr>filter_bytes = replicate len 0, filter_length = len, hashFuncs = n, elemCount = 0, filter_tweak = tweak, filter_flags = flags\<rparr>)"

text \<open>NULL for a buffer that is NULL, or a length that is too large for a filter or the buffer.\<close>

definition LWBloomFilterParse :: "bytes option \<Rightarrow> LWBloomFilter option" where
  "LWBloomFilterParse buf =
     (case buf of None \<Rightarrow> None
      | Some buf \<Rightarrow>
          let (v, off) = LWVarInt buf; len = unat v in
          if len \<le> BLOOM_MAX_FILTER_LENGTH \<and> off + len \<le> length buf then
            (let f = take len (drop off buf); off = off + len;
                 n = (if off + 4 \<le> length buf then UInt32GetLE (drop off buf) else 0); off = off + 4;
                 tweak = (if off + 4 \<le> length buf then UInt32GetLE (drop off buf) else 0); off = off + 4;
                 flags = (if off + 1 \<le> length buf then buf ! off else 0)
             in Some \<lparr>filter_bytes = f, filter_length = len, hashFuncs = n, elemCount = 0, filter_tweak = tweak, filter_flags = flags\<rparr>)
          else None)"

definition LWBloomFilterSerialize :: "LWBloomFilter \<Rightarrow> writer" where
  "LWBloomFilterSerialize f cb =
     (let len = LWVarIntSize (of_nat (filter_length f)) + filter_length f + 4 + 4 + 1 in
      case cb of None \<Rightarrow> (len, None)
      | Some b \<Rightarrow>
          if len \<le> length b then
            (len, snd (steps [call (LWVarIntSet (of_nat (filter_length f))), put (take (filter_length f) (filter_bytes f)),
               put (UInt32SetLE (hashFuncs f)), put (UInt32SetLE (filter_tweak f)), put [filter_flags f]] (0, Some b)))
          else (0, Some b))"

text \<open>The bit of an index, and setting it.\<close>

definition bit_at :: "bytes \<Rightarrow> u32 \<Rightarrow> bool option" where
  "bit_at f idx = map_option (\<lambda>b. b AND push_bit (unat (idx AND 7)) 1 \<noteq> 0) (deref f (unat (drop_bit 3 idx)))"

definition set_at :: "u32 \<Rightarrow> bytes \<Rightarrow> bytes option" where
  "set_at idx f = map_option (\<lambda>b. f[unat (drop_bit 3 idx) := b OR push_bit (unat (idx AND 7)) 1]) (deref f (unat (drop_bit 3 idx)))"

fun contains_loop :: "LWBloomFilter \<Rightarrow> bytes \<Rightarrow> nat list \<Rightarrow> bool option" where
  "contains_loop f data [] = Some True"
| "contains_loop f data (i # is) = do {
     idx \<leftarrow> LWBloomFilterHash f data (of_nat i);
     b \<leftarrow> bit_at (filter_bytes f) idx;
     if \<not> b then Some False else contains_loop f data is }"

definition LWBloomFilterContainsData :: "LWBloomFilter \<Rightarrow> bytes option \<Rightarrow> bool option" where
  "LWBloomFilterContainsData f data =
     (case data of None \<Rightarrow> Some False | Some data \<Rightarrow> contains_loop f data [0..<unat (hashFuncs f)])"

definition insert_one :: "LWBloomFilter \<Rightarrow> bytes \<Rightarrow> nat \<Rightarrow> bytes \<Rightarrow> bytes option" where
  "insert_one f data i bs = do { idx \<leftarrow> LWBloomFilterHash f data (of_nat i); set_at idx bs }"

definition LWBloomFilterInsertData :: "LWBloomFilter \<Rightarrow> bytes option \<Rightarrow> LWBloomFilter option" where
  "LWBloomFilterInsertData f data =
     (case data of None \<Rightarrow> Some f
      | Some data \<Rightarrow> do {
          bs \<leftarrow> fold_m (insert_one f data) [0..<unat (hashFuncs f)] (filter_bytes f);
          Some (f\<lparr>filter_bytes := bs, elemCount := elemCount f + 1\<rparr>) })"

subsection \<open>No false negatives\<close>

definition filter_ok :: "LWBloomFilter \<Rightarrow> bool" where
  "filter_ok f \<longleftrightarrow> 0 < filter_length f \<and> filter_length f \<le> BLOOM_MAX_FILTER_LENGTH \<and> length (filter_bytes f) = filter_length f"

text \<open>The bits of a filter as a predicate on indexes.\<close>

definition bit_set :: "bytes \<Rightarrow> nat \<Rightarrow> bool" where
  "bit_set f n \<longleftrightarrow> bit (f ! (n div 8)) (n mod 8)"

lemma idx_parts: "unat (drop_bit 3 (idx :: u32)) = unat idx div 8" "unat (idx AND 7) = unat idx mod 8"
proof -
  show "unat (drop_bit 3 idx) = unat idx div 8" by (simp only: unat_drop_bit) simp
  have "idx AND 7 = take_bit 3 idx" by (simp add: take_bit_eq_mask mask_eq_exp_minus_1)
  then show "unat (idx AND 7) = unat idx mod 8" by (simp only: unsigned_take_bit_eq) (simp add: take_bit_eq_mod)
qed

lemma bit_exp_u8: "bit (2 ^ m :: u8) n \<longleftrightarrow> m = n \<and> n < 8"
  by (auto simp: bit_exp_iff possible_bit_word)

lemma and_exp: "(b AND 2 ^ n \<noteq> 0) = bit b n" if "n < 8" for b :: u8
  using that by (simp add: bit_eq_iff [of "b AND 2 ^ n"] bit_and_iff bit_exp_u8)

lemma bit_at_eq: "unat idx < 8 * length f \<Longrightarrow> bit_at f idx = Some (bit_set f (unat idx))"
  by (simp add: bit_at_def idx_parts and_exp bit_set_def less_mult_imp_div_less mult.commute)

lemma set_at_eq:
  assumes "unat idx < 8 * length f"
  shows "\<exists>f'. set_at idx f = Some f' \<and> length f' = length f \<and>
    (\<forall>n < 8 * length f. bit_set f' n \<longleftrightarrow> n = unat idx \<or> bit_set f n)"
proof -
  let ?f = "f[unat idx div 8 := f ! (unat idx div 8) OR push_bit (unat idx mod 8) 1]"
  have "unat idx div 8 < length f" using assms by (simp add: less_mult_imp_div_less mult.commute)
  then have s: "set_at idx f = Some ?f" by (simp add: set_at_def idx_parts)
  have "bit_set ?f n \<longleftrightarrow> n = unat idx \<or> bit_set f n" if "n < 8 * length f" for n
  proof (cases "n div 8 = unat idx div 8")
    case True
    then have "n mod 8 = unat idx mod 8 \<longleftrightarrow> n = unat idx" by (metis div_mult_mod_eq)
    then show ?thesis using True \<open>unat idx div 8 < length f\<close>
      by (auto simp: bit_set_def bit_or_iff bit_exp_u8)
  qed (auto simp: bit_set_def)
  then show ?thesis using s by auto
qed

definition index_of :: "LWBloomFilter \<Rightarrow> bytes \<Rightarrow> nat \<Rightarrow> nat" where
  "index_of f data i = unat (LWMurmur3_32 data (of_nat i * 0xfba4c795 + filter_tweak f)) mod (8 * filter_length f)"

lemma hash_index:
  assumes "filter_ok f"
  shows "\<exists>idx. LWBloomFilterHash f data (of_nat i) = Some idx \<and> unat idx = index_of f data i \<and> index_of f data i < 8 * length (filter_bytes f)"
proof -
  have sz: "size_mul (filter_length f) 8 = 8 * filter_length f"
    using assms by (simp add: size_mul_def filter_ok_def BLOOM_MAX_FILTER_LENGTH_def)
  have "index_of f data i < 8 * filter_length f" using assms by (simp add: index_of_def filter_ok_def)
  moreover have "8 * filter_length f < 2 ^ 32" using assms by (simp add: filter_ok_def BLOOM_MAX_FILTER_LENGTH_def)
  ultimately have "unat (of_nat (index_of f data i) :: u32) = index_of f data i" by (simp add: unsigned_of_nat take_bit_nat_eq_self)
  then show ?thesis using assms sz \<open>index_of f data i < 8 * filter_length f\<close>
    by (auto simp: LWBloomFilterHash_def index_of_def filter_ok_def)
qed

definition hit :: "LWBloomFilter \<Rightarrow> bytes \<Rightarrow> nat \<Rightarrow> bool" where
  "hit f data i \<longleftrightarrow> bit_set (filter_bytes f) (index_of f data i)"

lemma contains_loop_hit: "filter_ok f \<Longrightarrow> contains_loop f data is = Some (\<forall>i \<in> set is. hit f data i)"
proof (induction "is")
  case (Cons i "is")
  obtain idx where "LWBloomFilterHash f data (of_nat i) = Some idx" "unat idx = index_of f data i" "index_of f data i < 8 * length (filter_bytes f)"
    using hash_index [OF Cons.prems] by blast
  then show ?case using Cons by (simp add: bit_at_eq hit_def)
qed simp

lemma contains_hit:
  "filter_ok f \<Longrightarrow> LWBloomFilterContainsData f (Some data) = Some (\<forall>i < unat (hashFuncs f). hit f data i)"
  by (auto simp: LWBloomFilterContainsData_def contains_loop_hit)

text \<open>The filter with other bytes of the same length, of which more bits are set.\<close>

definition grows :: "LWBloomFilter \<Rightarrow> LWBloomFilter \<Rightarrow> bool" where
  "grows f f' \<longleftrightarrow> filter_length f' = filter_length f \<and> hashFuncs f' = hashFuncs f \<and> filter_tweak f' = filter_tweak f \<and>
     filter_flags f' = filter_flags f \<and> length (filter_bytes f') = length (filter_bytes f) \<and>
     (\<forall>n < 8 * length (filter_bytes f). bit_set (filter_bytes f) n \<longrightarrow> bit_set (filter_bytes f') n)"

lemma grows_trans: "grows f g \<Longrightarrow> grows g h \<Longrightarrow> grows f h"
  by (auto simp: grows_def)

lemma grows_ok: "grows f f' \<Longrightarrow> filter_ok f \<Longrightarrow> filter_ok f'"
  by (simp add: grows_def filter_ok_def)

lemma grows_hit: "grows f f' \<Longrightarrow> filter_ok f \<Longrightarrow> hit f data i \<Longrightarrow> hit f' data i"
  using hash_index [of f data i] by (auto simp: grows_def hit_def index_of_def)

lemma insert_loop:
  assumes "filter_ok f" "length bs = length (filter_bytes f)"
  shows "\<exists>bs'. fold_m (insert_one f data) is bs = Some bs' \<and> length bs' = length bs \<and>
    (\<forall>n < 8 * length bs. bit_set bs' n \<longleftrightarrow> bit_set bs n \<or> n \<in> index_of f data ` set is)"
  using assms(2)
proof (induction "is" arbitrary: bs)
  case (Cons i "is")
  obtain idx where idx: "LWBloomFilterHash f data (of_nat i) = Some idx" "unat idx = index_of f data i" "index_of f data i < 8 * length (filter_bytes f)"
    using hash_index [OF assms(1)] by blast
  then obtain b1 where b1: "set_at idx bs = Some b1" "length b1 = length bs" "\<forall>n < 8 * length bs. bit_set b1 n \<longleftrightarrow> n = unat idx \<or> bit_set bs n"
    using set_at_eq [of idx bs] Cons.prems by auto
  obtain b2 where b2: "fold_m (insert_one f data) is b1 = Some b2" "length b2 = length b1"
    "\<forall>n < 8 * length b1. bit_set b2 n \<longleftrightarrow> bit_set b1 n \<or> n \<in> index_of f data ` set is"
    using Cons.IH [of b1] b1(2) Cons.prems by auto
  have "insert_one f data i bs = Some b1" using idx(1) b1(1) by (simp add: insert_one_def)
  then show ?case using idx b1(2,3) b2 by (intro exI [of _ b2]) auto
qed simp

lemma insert_spec:
  assumes "filter_ok f"
  shows "\<exists>f'. LWBloomFilterInsertData f (Some data) = Some f' \<and> grows f f' \<and> elemCount f' = elemCount f + 1 \<and>
    LWBloomFilterContainsData f' (Some data) = Some True"
proof -
  obtain bs where bs: "fold_m (insert_one f data) [0..<unat (hashFuncs f)] (filter_bytes f) = Some bs" "length bs = length (filter_bytes f)"
    "\<forall>n < 8 * length (filter_bytes f). bit_set bs n \<longleftrightarrow> bit_set (filter_bytes f) n \<or> n \<in> index_of f data ` {0..<unat (hashFuncs f)}"
    using insert_loop [OF assms refl, of data "[0..<unat (hashFuncs f)]"] by auto
  let ?f = "f\<lparr>filter_bytes := bs, elemCount := elemCount f + 1\<rparr>"
  have g: "grows f ?f" using bs(2,3) by (simp add: grows_def)
  have "hit ?f data i" if "i < unat (hashFuncs f)" for i
    using that bs(3) hash_index [OF assms, of data i] by (auto simp: hit_def index_of_def)
  then have "LWBloomFilterContainsData ?f (Some data) = Some True" using contains_hit [OF grows_ok [OF g assms]] by simp
  moreover have "LWBloomFilterInsertData f (Some data) = Some ?f" using bs(1) by (simp add: LWBloomFilterInsertData_def)
  ultimately show ?thesis using g by auto
qed

lemma grows_contains:
  "grows f f' \<Longrightarrow> filter_ok f \<Longrightarrow> LWBloomFilterContainsData f (Some data) = Some True \<Longrightarrow> LWBloomFilterContainsData f' (Some data) = Some True"
  using contains_hit [of f data] contains_hit [of f' data] grows_ok [of f f'] grows_hit [of f f' data] by (simp add: grows_def)

text \<open>
  C38. Whatever data is inserted in a new filter, of any size and number of hash functions, nothing
  faults, the number of elements is counted, and each of them is found: there are no false negatives.
\<close>

theorem no_false_negatives:
  "\<exists>f. fold_m (\<lambda>d f. LWBloomFilterInsertData f (Some d)) ds (LWBloomFilterNew wanted funcs tweak flags) = Some f \<and>
    elemCount f = length ds \<and> (\<forall>d \<in> set ds. LWBloomFilterContainsData f (Some d) = Some True)"
proof -
  let ?new = "LWBloomFilterNew wanted funcs tweak flags"
  have new: "filter_ok ?new" "elemCount ?new = 0"
    by (auto simp: LWBloomFilterNew_def filter_ok_def BLOOM_MAX_FILTER_LENGTH_def Let_def)
  have "\<exists>f'. fold_m (\<lambda>d f. LWBloomFilterInsertData f (Some d)) ds f = Some f' \<and> grows f f' \<and> elemCount f' = elemCount f + length ds \<and>
    (\<forall>d \<in> set ds. LWBloomFilterContainsData f' (Some d) = Some True)" if "filter_ok f" for f
    using that
  proof (induction ds arbitrary: f)
    case Nil
    then show ?case by (simp add: grows_def)
  next
    case (Cons d ds)
    obtain f1 where f1: "LWBloomFilterInsertData f (Some d) = Some f1" "grows f f1" "elemCount f1 = elemCount f + 1"
      "LWBloomFilterContainsData f1 (Some d) = Some True" using insert_spec [OF Cons.prems] by blast
    note ok = grows_ok [OF f1(2) Cons.prems]
    obtain f2 where f2: "fold_m (\<lambda>d f. LWBloomFilterInsertData f (Some d)) ds f1 = Some f2" "grows f1 f2" "elemCount f2 = elemCount f1 + length ds"
      "\<forall>d \<in> set ds. LWBloomFilterContainsData f2 (Some d) = Some True" using Cons.IH [OF ok] by blast
    then show ?case using f1 grows_trans [OF f1(2) f2(2)] grows_contains [OF f2(2) ok f1(4)] by auto
  qed
  from this [OF new(1)] show ?thesis using new(2) by auto
qed

theorem no_false_negatives_witness:
  "\<exists>f. fold_m (\<lambda>d f. LWBloomFilterInsertData f (Some d)) [[1, 2], [3]] (LWBloomFilterNew 10 (\<lambda>_. 5) 7 1) = Some f \<and>
    elemCount f = 2 \<and> LWBloomFilterContainsData f (Some [1, 2]) = Some True \<and> LWBloomFilterContainsData f (Some [3]) = Some True"
  using no_false_negatives [of "[[1, 2], [3]]" 10 "\<lambda>_. 5" 7 1] by (simp add: numeral_2_eq_2)

text \<open>
  A filter of at most 36000 bytes is serialised into a buffer of the size announced, and parsing
  that gives it back, without the number of elements, which is not sent.
\<close>

theorem bloom_roundtrip:
  assumes "filter_length f \<le> BLOOM_MAX_FILTER_LENGTH" "length (filter_bytes f) = filter_length f"
  shows "\<exists>bs. LWBloomFilterSerialize f (Some (replicate (fst (LWBloomFilterSerialize f None)) 0)) = (length bs, Some bs) \<and>
    LWBloomFilterParse (Some bs) = Some (f\<lparr>elemCount := 0\<rparr>)"
proof -
  let ?v = "varint (of_nat (filter_length f))"
  define bs where "bs = ?v @ filter_bytes f @ UInt32SetLE (hashFuncs f) @ UInt32SetLE (filter_tweak f) @ [filter_flags f]"
  let ?ss = "[call (LWVarIntSet (of_nat (filter_length f))), put (take (filter_length f) (filter_bytes f)),
               put (UInt32SetLE (hashFuncs f)), put (UInt32SetLE (filter_tweak f)), put [filter_flags f]]"
  have len: "LWVarIntSize (of_nat (filter_length f)) + filter_length f + 4 + 4 + 1 = length bs"
    using assms(2) by (simp add: bs_def LWVarIntSize_varint)
  have "wstep (steps ?ss) (?v @ take (filter_length f) (filter_bytes f) @ UInt32SetLE (hashFuncs f) @ UInt32SetLE (filter_tweak f) @ [filter_flags f] @ [])"
    by (intro wsteps)
  then have w: "wstep (steps ?ss) bs" using assms(2) by (simp add: bs_def)
  have "steps ?ss (0, Some (replicate (length bs) 0)) = (length bs, Some bs)"
    using wstepD [OF w, of 0 "Some (replicate (length bs) 0)"] by (simp add: fits_def overwrite_def)
  then have ser: "LWBloomFilterSerialize f (Some (replicate (fst (LWBloomFilterSerialize f None)) 0)) = (length bs, Some bs)"
    using len by (simp add: LWBloomFilterSerialize_def)
  have n: "unat (of_nat (filter_length f) :: u64) = filter_length f"
    using assms(1) by (simp add: unsigned_of_nat take_bit_nat_eq_self BLOOM_MAX_FILTER_LENGTH_def)
  have v: "LWVarInt bs = (of_nat (filter_length f), length ?v)" unfolding bs_def by (rule LWVarInt_varint)
  have flag: "(?v @ filter_bytes f @ UInt32SetLE (hashFuncs f) @ UInt32SetLE (filter_tweak f) @ [filter_flags f]) ! (8 + (length ?v + filter_length f)) =
      filter_flags f" using assms(2) by (simp add: nth_append)
  have "LWBloomFilterParse (Some bs) = Some (f\<lparr>elemCount := 0\<rparr>)"
    unfolding LWBloomFilterParse_def option.case v
    using assms n flag by (cases f) (simp add: Let_def bs_def roundtrip)
  then show ?thesis using ser by blast
qed

theorem bloom_roundtrip_witness:
  "\<exists>bs. LWBloomFilterParse (Some bs) = Some (LW_BLOOM_FILTER_FULL\<lparr>elemCount := 0\<rparr>)"
  using bloom_roundtrip [of LW_BLOOM_FILTER_FULL] by (auto simp: LW_BLOOM_FILTER_FULL_def BLOOM_MAX_FILTER_LENGTH_def)

text \<open>
  A parsed filter can have length zero: looking for anything in it divides by zero, unless it
  announces no hash functions, when it matches everything.
\<close>

theorem empty_filter_faults:
  "case LWBloomFilterParse (Some [0, 1, 0, 0, 0, 5, 0, 0, 0, 0]) of None \<Rightarrow> False
   | Some f \<Rightarrow> LWBloomFilterContainsData f (Some data) = None \<and> LWBloomFilterContainsData (f\<lparr>hashFuncs := 0\<rparr>) (Some data) = Some True"
proof -
  have v: "LWVarInt [0, 1, 0, 0, 0, 5, 0, 0, 0, 0] = (0, 1)" by (simp add: LWVarInt_def)
  have "UInt32GetLE [1, 0, 0, 0, 5, 0, 0, 0, 0] = 1" by (simp add: UInt32GetLE_def)
  then show ?thesis unfolding LWBloomFilterParse_def option.case v
    by (simp add: Let_def LWBloomFilterContainsData_def LWBloomFilterHash_def size_mul_def)
qed

end
