(* ===== verification/LW_Tx.thy ===== *)
theory LW_Tx
  imports LW_Key "HOL-Library.Multiset"
begin

text \<open>
  Model of \<^verbatim>\<open>LWTransaction.c\<close>. A script or signature and its length are one optional byte string
  (\<open>None\<close> for NULL), and an address field is the string in it, empty when there is none. The
  serialisers are writers; an index of \<open>SIZE_MAX\<close>, for the whole transaction, is \<open>None\<close>. The
  values \<^verbatim>\<open>rand()\<close> returns are a list that is consumed.
\<close>

subsection \<open>Random numbers\<close>

definition LW_RAND_MAX :: u32 where "LW_RAND_MAX = 0x7fffffff"

fun rand_loop :: "u32 \<Rightarrow> u32 list \<Rightarrow> (u32 \<times> u32 list) option" where
  "rand_loop upperBound [] = None"
| "rand_loop upperBound (r # rs) =
     (if r < ((0xffffffff - upperBound * 2) + 1) mod upperBound then rand_loop upperBound rs
      else Some (r mod upperBound, rs))"

definition LWRand :: "u32 \<Rightarrow> u32 list \<Rightarrow> (u32 \<times> u32 list) option" where
  "LWRand upperBound rs =
     rand_loop (if upperBound = 0 \<or> upperBound > LW_RAND_MAX then LW_RAND_MAX else upperBound) rs"

subsection \<open>Inputs and outputs\<close>

record LWTxInput =
  in_hash :: UInt256
  in_index :: u32
  in_address :: string
  in_amount :: u64
  in_script :: "bytes option"
  in_signature :: "bytes option"
  in_sequence :: u32

record LWTxOutput =
  out_address :: string
  out_amount :: u64
  out_script :: "bytes option"

record LWTransaction =
  tx_hash :: UInt256
  tx_version :: u32
  tx_inputs :: "LWTxInput list"
  tx_outputs :: "LWTxOutput list"
  tx_lockTime :: u32
  tx_blockHeight :: u32
  tx_timestamp :: u32

definition TX_FEE_PER_KB :: u64 where "TX_FEE_PER_KB = 1000"
definition TX_OUTPUT_SIZE :: nat where "TX_OUTPUT_SIZE = 34"
definition TX_INPUT_SIZE :: nat where "TX_INPUT_SIZE = 148"
definition TX_UNCONFIRMED :: u32 where "TX_UNCONFIRMED = 0x7fffffff"
definition TXIN_SEQUENCE :: u32 where "TXIN_SEQUENCE = 0xffffffff"
definition TX_VERSION :: u32 where "TX_VERSION = 0x00000001"
definition TX_LOCKTIME :: u32 where "TX_LOCKTIME = 0x00000000"
definition SIGHASH_ALL :: u32 where "SIGHASH_ALL = 0x01"
definition SIGHASH_NONE :: u32 where "SIGHASH_NONE = 0x02"
definition SIGHASH_SINGLE :: u32 where "SIGHASH_SINGLE = 0x03"
definition SIGHASH_ANYONECANPAY :: u32 where "SIGHASH_ANYONECANPAY = 0x80"
definition SIGHASH_FORKID :: u32 where "SIGHASH_FORKID = 0x40"

definition the_bytes :: "bytes option \<Rightarrow> bytes" where
  "the_bytes b = (case b of None \<Rightarrow> [] | Some bs \<Rightarrow> bs)"

text \<open>The address field of 75 bytes after a call that may write an address to it.\<close>

definition script_addr :: "bool \<Rightarrow> bytes \<Rightarrow> string" where
  "script_addr testnet s =
     (case LWAddressFromScriptPubKey testnet (Some 75) s of Some (Some a) \<Rightarrow> a | _ \<Rightarrow> [])"

definition sig_addr :: "bool \<Rightarrow> bytes \<Rightarrow> string" where
  "sig_addr testnet s =
     (case LWAddressFromScriptSig testnet (Some 75) s of Some (Some a) \<Rightarrow> a | _ \<Rightarrow> [])"

definition LWTxInputSetAddress :: "bool \<Rightarrow> string option \<Rightarrow> LWTxInput \<Rightarrow> LWTxInput" where
  "LWTxInputSetAddress testnet address input =
     (let input = input\<lparr>in_script := None, in_address := []\<rparr> in
      case address of None \<Rightarrow> input
      | Some a \<Rightarrow> input\<lparr>in_address := take 74 a, in_script := Some (produced (LWAddressScriptPubKey testnet a))\<rparr>)"

definition LWTxInputSetScript :: "bool \<Rightarrow> bytes option \<Rightarrow> LWTxInput \<Rightarrow> LWTxInput" where
  "LWTxInputSetScript testnet s input =
     (let input = input\<lparr>in_script := None, in_address := []\<rparr> in
      case s of None \<Rightarrow> input
      | Some s \<Rightarrow> input\<lparr>in_script := Some s, in_address := script_addr testnet s\<rparr>)"

definition LWTxInputSetSignature :: "bool \<Rightarrow> bytes option \<Rightarrow> LWTxInput \<Rightarrow> LWTxInput" where
  "LWTxInputSetSignature testnet s input =
     (let input = input\<lparr>in_signature := None\<rparr> in
      case s of None \<Rightarrow> input
      | Some s \<Rightarrow>
          (let input = input\<lparr>in_signature := Some s\<rparr>
           in if in_address input = [] then input\<lparr>in_address := sig_addr testnet s\<rparr> else input))"

definition LWTxOutputSetAddress :: "bool \<Rightarrow> string option \<Rightarrow> LWTxOutput \<Rightarrow> LWTxOutput" where
  "LWTxOutputSetAddress testnet address output =
     (let output = output\<lparr>out_script := None, out_address := []\<rparr> in
      case address of None \<Rightarrow> output
      | Some a \<Rightarrow> output\<lparr>out_address := take 74 a, out_script := Some (produced (LWAddressScriptPubKey testnet a))\<rparr>)"

definition LWTxOutputSetScript :: "bool \<Rightarrow> bytes option \<Rightarrow> LWTxOutput \<Rightarrow> LWTxOutput" where
  "LWTxOutputSetScript testnet s output =
     (let output = output\<lparr>out_script := None, out_address := []\<rparr> in
      case s of None \<Rightarrow> output
      | Some s \<Rightarrow> output\<lparr>out_script := Some s, out_address := script_addr testnet s\<rparr>)"

subsection \<open>Serialisation\<close>

definition LWTxInputData :: "LWTxInput \<Rightarrow> writer" where
  "LWTxInputData input cb =
     (let sig = the_bytes (in_signature input) in
      finish (steps
        ([put (in_hash input), put (UInt32SetLE (in_index input)), call (LWVarIntSet (of_nat (length sig))), put sig] @
         (if in_amount input \<noteq> 0 then [put (UInt64SetLE (in_amount input))] else []) @
         [put (UInt32SetLE (in_sequence input))]) (0, cb)))"

definition output_steps :: "LWTxOutput \<Rightarrow> wstate \<Rightarrow> wstate" where
  "output_steps output =
     steps [put (UInt64SetLE (out_amount output)), call (LWVarIntSet (of_nat (length (the_bytes (out_script output))))),
            put (the_bytes (out_script output))]"

definition LWTransactionOutputData :: "LWTransaction \<Rightarrow> nat option \<Rightarrow> writer" where
  "LWTransactionOutputData tx index cb =
     (let outputs = (case index of None \<Rightarrow> tx_outputs tx
                     | Some i \<Rightarrow> if i < length (tx_outputs tx) then [tx_outputs tx ! i] else [])
      in finish (steps (map output_steps outputs) (0, cb)))"

definition LWTransactionWitnessData :: "LWTransaction \<Rightarrow> nat option \<Rightarrow> u32 \<Rightarrow> writer" where
  "LWTransactionWitnessData tx index hashType cb =
     (case index of None \<Rightarrow> (0, cb)
      | Some index \<Rightarrow>
        (let anyoneCanPay = (hashType AND SIGHASH_ANYONECANPAY \<noteq> 0); sigHash = hashType AND 0x1f in
         if index \<ge> length (tx_inputs tx) then (0, cb)
         else
          (let prevouts = concat (map (\<lambda>i. in_hash i @ UInt32SetLE (in_index i)) (tx_inputs tx));
               sequences = concat (map (\<lambda>i. UInt32SetLE (in_sequence i)) (tx_inputs tx));
               input = tx_inputs tx ! index
           in finish (steps
             [put (UInt32SetLE (tx_version tx)),
              put (if \<not> anyoneCanPay then LWSHA256_2 prevouts else UINT256_ZERO),
              put (if \<not> anyoneCanPay \<and> sigHash \<noteq> SIGHASH_SINGLE \<and> sigHash \<noteq> SIGHASH_NONE
                   then LWSHA256_2 sequences else UINT256_ZERO),
              call (LWTxInputData (input\<lparr>in_signature := in_script input\<rparr>)),
              put (if sigHash \<noteq> SIGHASH_SINGLE \<and> sigHash \<noteq> SIGHASH_NONE
                   then LWSHA256_2 (produced (LWTransactionOutputData tx None))
                   else if sigHash = SIGHASH_SINGLE \<and> index < length (tx_outputs tx)
                   then LWSHA256_2 (produced (LWTransactionOutputData tx (Some index)))
                   else UINT256_ZERO),
              put (UInt32SetLE (tx_lockTime tx)),
              put (UInt32SetLE hashType)] (0, cb)))))"

text \<open>Input \<open>i\<close> as it is written for \<open>index\<close>.\<close>

definition data_input :: "nat option \<Rightarrow> u32 \<Rightarrow> nat \<Rightarrow> LWTxInput \<Rightarrow> LWTxInput" where
  "data_input index sigHash i input =
     (if index = Some i \<or> (index = None \<and> in_signature input = None) then
        (let input = input\<lparr>in_signature := in_script input\<rparr>
         in if index = Some i then input\<lparr>in_amount := 0\<rparr> else input)
      else if index \<noteq> None then
        (let input = input\<lparr>in_signature := None\<rparr>;
             input = (if sigHash = SIGHASH_NONE \<or> sigHash = SIGHASH_SINGLE then input\<lparr>in_sequence := 0\<rparr> else input)
         in input\<lparr>in_amount := 0\<rparr>)
      else input\<lparr>in_amount := 0\<rparr>)"

definition LWTransactionData :: "LWTransaction \<Rightarrow> nat option \<Rightarrow> u32 \<Rightarrow> writer" where
  "LWTransactionData tx index hashType cb =
     (let anyoneCanPay = (hashType AND SIGHASH_ANYONECANPAY \<noteq> 0); sigHash = hashType AND 0x1f;
          inCount = length (tx_inputs tx); outCount = length (tx_outputs tx) in
      if hashType AND SIGHASH_FORKID \<noteq> 0 then LWTransactionWitnessData tx index hashType cb
      else if anyoneCanPay \<and> (case index of None \<Rightarrow> True | Some i \<Rightarrow> i \<ge> inCount) then (0, cb)
      else finish (steps
        ([put (UInt32SetLE (tx_version tx))] @
         (if \<not> anyoneCanPay then
            call (LWVarIntSet (of_nat inCount)) #
            map (\<lambda>i. call (LWTxInputData (data_input index sigHash i (tx_inputs tx ! i)))) [0..<inCount]
          else
            (let input = tx_inputs tx ! the index in
             [call (LWVarIntSet 1),
              call (LWTxInputData (input\<lparr>in_signature := in_script input, in_amount := 0\<rparr>))])) @
         (if sigHash \<noteq> SIGHASH_SINGLE \<and> sigHash \<noteq> SIGHASH_NONE then
            [call (LWVarIntSet (of_nat outCount)), call (LWTransactionOutputData tx None)]
          else
            (case index of
               Some i \<Rightarrow>
                 if sigHash = SIGHASH_SINGLE \<and> i < outCount then
                   [call (LWVarIntSet (of_nat (i + 1)))] @
                   concat (replicate i [put (UInt64SetLE (- 1)), call (LWVarIntSet 0)]) @
                   [call (LWTransactionOutputData tx (Some i))]
                 else [call (LWVarIntSet 0)]
             | None \<Rightarrow> [call (LWVarIntSet 0)])) @
         [put (UInt32SetLE (tx_lockTime tx))] @
         (if index \<noteq> None then [put (UInt32SetLE hashType)] else [])) (0, cb)))"

definition LWTransactionSerialize :: "LWTransaction \<Rightarrow> writer" where
  "LWTransactionSerialize tx = LWTransactionData tx None SIGHASH_ALL"

subsection \<open>Building transactions\<close>

definition LWTransactionNew :: LWTransaction where
  "LWTransactionNew = \<lparr>tx_hash = UINT256_ZERO, tx_version = TX_VERSION, tx_inputs = [], tx_outputs = [],
     tx_lockTime = TX_LOCKTIME, tx_blockHeight = TX_UNCONFIRMED, tx_timestamp = 0\<rparr>"

definition LWTransactionAddInput :: "bool \<Rightarrow> UInt256 \<Rightarrow> u32 \<Rightarrow> u64 \<Rightarrow> bytes option \<Rightarrow> bytes option \<Rightarrow> u32 \<Rightarrow>
    LWTransaction \<Rightarrow> LWTransaction" where
  "LWTransactionAddInput testnet txHash index amount script signature sequence tx =
     (let input = \<lparr>in_hash = txHash, in_index = index, in_address = [], in_amount = amount, in_script = None,
            in_signature = None, in_sequence = sequence\<rparr>;
          input = (if script \<noteq> None then LWTxInputSetScript testnet script input else input);
          input = (if signature \<noteq> None then LWTxInputSetSignature testnet signature input else input)
      in tx\<lparr>tx_inputs := tx_inputs tx @ [input]\<rparr>)"

definition LWTransactionAddOutput :: "bool \<Rightarrow> u64 \<Rightarrow> bytes option \<Rightarrow> LWTransaction \<Rightarrow> LWTransaction" where
  "LWTransactionAddOutput testnet amount script tx =
     (let output = \<lparr>out_address = [], out_amount = amount, out_script = None\<rparr>
      in tx\<lparr>tx_outputs := tx_outputs tx @ [LWTxOutputSetScript testnet script output]\<rparr>)"

definition LWTransactionCopy :: "bool \<Rightarrow> LWTransaction \<Rightarrow> LWTransaction" where
  "LWTransactionCopy testnet tx =
     (let cpy = tx\<lparr>tx_inputs := [], tx_outputs := []\<rparr>;
          cpy = fold (\<lambda>i. LWTransactionAddInput testnet (in_hash i) (in_index i) (in_amount i) (in_script i)
                  (in_signature i) (in_sequence i)) (tx_inputs tx) cpy
      in fold (\<lambda>out. LWTransactionAddOutput testnet (out_amount out) (out_script out)) (tx_outputs tx) cpy)"

text \<open>The Fisher-Yates loop from position \<open>i\<close>.\<close>

function shuffle_loop :: "'a list \<Rightarrow> nat \<Rightarrow> u32 list \<Rightarrow> ('a list \<times> u32 list) option" where
  "shuffle_loop xs i rs =
     (if i + 1 < length xs then
        (case LWRand (of_nat (length xs) - of_nat i) rs of None \<Rightarrow> None
         | Some (r, rs) \<Rightarrow>
             (let j = i + unat r
              in shuffle_loop (if j \<noteq> i then xs[i := xs ! j, j := xs ! i] else xs) (i + 1) rs))
      else Some (xs, rs))"
  by pat_completeness auto
termination
  by (relation "measure (\<lambda>(xs, i, rs). length xs - i)") auto

declare shuffle_loop.simps [simp del]

definition LWTransactionShuffleOutputs :: "u32 list \<Rightarrow> LWTransaction \<Rightarrow> (LWTransaction \<times> u32 list) option" where
  "LWTransactionShuffleOutputs rs tx = do {
     (outs, rs) \<leftarrow> shuffle_loop (tx_outputs tx) 0 rs; Some (tx\<lparr>tx_outputs := outs\<rparr>, rs) }"

definition LWTransactionSize :: "LWTransaction \<Rightarrow> nat" where
  "LWTransactionSize tx =
     8 + LWVarIntSize (of_nat (length (tx_inputs tx))) + LWVarIntSize (of_nat (length (tx_outputs tx))) +
     sum_list (map (\<lambda>input. case in_signature input of
         Some sig \<Rightarrow> 32 + 4 + LWVarIntSize (of_nat (length sig)) + length sig + 4
       | None \<Rightarrow> TX_INPUT_SIZE) (tx_inputs tx)) +
     sum_list (map (\<lambda>out. 8 + LWVarIntSize (of_nat (length (the_bytes (out_script out)))) + length (the_bytes (out_script out)))
       (tx_outputs tx))"

definition LWTransactionStandardFee :: "LWTransaction \<Rightarrow> u64" where
  "LWTransactionStandardFee tx = of_nat ((LWTransactionSize tx + 999) div 1000) * TX_FEE_PER_KB"

definition LWTransactionIsSigned :: "LWTransaction \<Rightarrow> bool" where
  "LWTransactionIsSigned tx \<longleftrightarrow> (\<forall>input \<in> set (tx_inputs tx). in_signature input \<noteq> None)"

text \<open>The rules are not implemented by the source.\<close>

definition LWTransactionIsStandard :: "LWTransaction \<Rightarrow> bool" where
  "LWTransactionIsStandard tx = True"

definition LWTransactionHash :: "LWTransaction \<Rightarrow> u32" where
  "LWTransactionHash tx = union_u32 (tx_hash tx) 0"

definition LWTransactionEq :: "LWTransaction \<Rightarrow> LWTransaction \<Rightarrow> bool" where
  "LWTransactionEq tx other = UInt256Eq (tx_hash tx) (tx_hash other)"

subsection \<open>Parsing\<close>

definition get_u32 :: "bytes \<Rightarrow> nat \<Rightarrow> u32" where
  "get_u32 buf off = (if off + 4 \<le> length buf then UInt32GetLE (drop off buf) else 0)"

definition get_u64 :: "bytes \<Rightarrow> nat \<Rightarrow> u64" where
  "get_u64 buf off = (if off + 8 \<le> length buf then UInt64GetLE (drop off buf) else 0)"

definition get_hash :: "bytes \<Rightarrow> nat \<Rightarrow> UInt256" where
  "get_hash buf off = (if off + 32 \<le> length buf then UInt256Get (drop off buf) else UINT256_ZERO)"

definition has_address :: "bool \<Rightarrow> bytes \<Rightarrow> bool" where
  "has_address testnet s \<longleftrightarrow> (case LWAddressFromScriptPubKey testnet None s of Some (Some a) \<Rightarrow> True | _ \<Rightarrow> False)"

text \<open>
  One input from offset \<open>off\<close>. The script length comes from the message, so the sum with the offset
  wraps around; a read past the buffer after that is \<open>None\<close>.
\<close>

definition parse_input :: "bool \<Rightarrow> bytes \<Rightarrow> nat \<times> bool \<Rightarrow> (LWTxInput \<times> nat \<times> bool) option" where
  "parse_input testnet buf = (\<lambda>(off, isSigned).
     let input = \<lparr>in_hash = get_hash buf off, in_index = get_u32 buf (off + 32), in_address = [], in_amount = 0,
           in_script = None, in_signature = None, in_sequence = 0\<rparr>;
         off = off + 32 + 4;
         (sLen, len) = LWVarInt (drop off buf); sLen = unat sLen; off = off + len
     in do {
       (input, off, isSigned) \<leftarrow>
         (if size_add off sLen \<le> length buf then do {
            s \<leftarrow> read_n (Some (drop off buf)) sLen;
            if has_address testnet s then
              Some ((LWTxInputSetScript testnet (Some s) input)\<lparr>in_amount := get_u64 buf (off + sLen)\<rparr>, off + 8, False)
            else Some (LWTxInputSetSignature testnet (Some s) input, off, isSigned) }
          else Some (input, off, isSigned));
       let off = size_add off sLen in
         Some (input\<lparr>in_sequence := get_u32 buf off\<rparr>, off + 4, isSigned) })"

fun parse_inputs :: "bool \<Rightarrow> bytes \<Rightarrow> nat \<Rightarrow> nat \<times> bool \<Rightarrow> (LWTxInput list \<times> nat \<times> bool) option" where
  "parse_inputs testnet buf 0 st = Some ([], st)"
| "parse_inputs testnet buf (Suc n) st =
     (if fst st \<le> length buf then do {
        (input, st) \<leftarrow> parse_input testnet buf st;
        (inputs, st) \<leftarrow> parse_inputs testnet buf n st;
        Some (input # inputs, st) }
      else Some ([], st))"

definition parse_output :: "bool \<Rightarrow> bytes \<Rightarrow> nat \<Rightarrow> (LWTxOutput \<times> nat) option" where
  "parse_output testnet buf off =
     (let output = \<lparr>out_address = [], out_amount = get_u64 buf off, out_script = None\<rparr>;
          off = off + 8;
          (sLen, len) = LWVarInt (drop off buf); sLen = unat sLen; off = off + len
      in do {
        output \<leftarrow> (if size_add off sLen \<le> length buf then do {
                     s \<leftarrow> read_n (Some (drop off buf)) sLen;
                     Some (LWTxOutputSetScript testnet (Some s) output) }
                   else Some output);
        Some (output, size_add off sLen) })"

fun parse_outputs :: "bool \<Rightarrow> bytes \<Rightarrow> nat \<Rightarrow> nat \<Rightarrow> (LWTxOutput list \<times> nat) option" where
  "parse_outputs testnet buf 0 off = Some ([], off)"
| "parse_outputs testnet buf (Suc n) off =
     (if off \<le> length buf then do {
        (output, off) \<leftarrow> parse_output testnet buf off;
        (outputs, off) \<leftarrow> parse_outputs testnet buf n off;
        Some (output # outputs, off) }
      else Some ([], off))"

text \<open>
  An array of \<open>n\<close> items of \<open>item\<close> bytes behind its two-word header; a size in bytes that wraps
  around leaves a block too small for its count, which is \<open>None\<close> here. The items are of 160 and
  104 bytes. The result is \<open>Some None\<close> when NULL is returned.
\<close>

definition array_bytes_ok :: "nat \<Rightarrow> nat \<Rightarrow> bool" where
  "array_bytes_ok n item \<longleftrightarrow> n * item + 16 < 2 ^ 64"

definition LWTransactionParse :: "bool \<Rightarrow> bytes \<Rightarrow> LWTransaction option option" where
  "LWTransactionParse testnet buf =
     (let version = get_u32 buf 0; off = 4;
          (inCount, len) = LWVarInt (drop off buf); inCount = unat inCount; off = off + len in
      if \<not> array_bytes_ok inCount 160 then None
      else do {
        (inputs, off, isSigned) \<leftarrow> parse_inputs testnet buf inCount (off, True);
        let (outCount, len) = LWVarInt (drop off buf); outCount = unat outCount; off = off + len in
        if \<not> array_bytes_ok outCount 104 then None
        else do {
          (outputs, off) \<leftarrow> parse_outputs testnet buf outCount off;
          let lockTime = get_u32 buf off; off = off + 4 in
          Some (if inCount = 0 \<or> off > length buf then None
                else Some (LWTransactionNew\<lparr>tx_hash := (if isSigned then LWSHA256_2 (take off buf) else UINT256_ZERO),
                  tx_version := version, tx_inputs := inputs, tx_outputs := outputs, tx_lockTime := lockTime\<rparr>)) } })"

subsection \<open>Signing\<close>

text \<open>The signature script for input \<open>i\<close>, whose script pays to the key.\<close>

definition sign_script :: "('p, 's, 'r) ec \<Rightarrow> LWTransaction \<Rightarrow> u32 \<Rightarrow> LWKey \<Rightarrow> nat \<Rightarrow> bytes \<Rightarrow> bytes \<times> LWKey" where
  "sign_script ec tx forkId key i script =
     (let elems = LWScriptElements (Some (length (LWScriptElements None script))) script;
          (pubKey, key) = LWKeyPubKey ec None key;
          md = LWSHA256_2 (produced (LWTransactionData tx (Some i) (forkId OR SIGHASH_ALL)));
          sig = LWKeySign ec (73 - 1) key md @ [ucast (forkId OR SIGHASH_ALL)];
          scr = replicate (1 + 73 + 1 + length pubKey) 0;
          (scriptLen, scr) =
            (if length elems \<ge> 2 \<and> script ! (elems ! (length elems - 2)) = OP_EQUALVERIFY then
               steps [call (LWScriptPushData sig), call (LWScriptPushData pubKey)] (0, Some scr)
             else steps [call (LWScriptPushData sig)] (0, Some scr))
      in (take scriptLen (the_bytes scr), key))"

definition find_index :: "('a \<Rightarrow> bool) \<Rightarrow> 'a list \<Rightarrow> nat" where
  "find_index P xs = length (takeWhile (\<lambda>x. \<not> P x) xs)"

definition sign_input :: "('p, 's, 'r) ec \<Rightarrow> bool \<Rightarrow> u32 \<Rightarrow> string list \<Rightarrow> nat \<Rightarrow>
    LWTransaction \<times> LWKey list \<Rightarrow> LWTransaction \<times> LWKey list" where
  "sign_input ec testnet forkId addrs i = (\<lambda>(tx, keys).
     let input = tx_inputs tx ! i in
     case in_script input of None \<Rightarrow> (tx, keys)
     | Some script \<Rightarrow>
         (case LWAddressFromScriptPubKey testnet (Some 75) script of
            Some (Some address) \<Rightarrow>
              (let j = find_index (\<lambda>a. LWAddressEq a address) addrs in
               if j \<ge> length addrs then (tx, keys)
               else
                 (let (scr, key) = sign_script ec tx forkId (keys ! j) i script
                  in (tx\<lparr>tx_inputs := (tx_inputs tx)[i := LWTxInputSetSignature testnet (Some scr) input]\<rparr>,
                      keys[j := key])))
          | _ \<Rightarrow> (tx, keys)))"

definition LWTransactionSign :: "('p, 's, 'r) ec \<Rightarrow> bool \<Rightarrow> LWTransaction \<Rightarrow> u32 \<Rightarrow> LWKey list \<Rightarrow>
    bool \<times> LWTransaction \<times> LWKey list" where
  "LWTransactionSign ec testnet tx forkId keys =
     (let as = map (LWKeyAddress ec testnet (Some 75)) keys;
          addrs = map (\<lambda>(a, key). case a of None \<Rightarrow> [] | Some a \<Rightarrow> a) as; keys = map snd as;
          (tx, keys) = fold (sign_input ec testnet forkId addrs) [0..<length (tx_inputs tx)] (tx, keys)
      in if LWTransactionIsSigned tx then
           (True, tx\<lparr>tx_hash := LWSHA256_2 (produced (LWTransactionData tx None 0))\<rparr>, keys)
         else (False, tx, keys))"

subsection \<open>What the serialisers write\<close>

lemma writes_eqI: "wstep (steps fs) bs' \<Longrightarrow> bs' = bs \<Longrightarrow> writes (\<lambda>cb. finish (steps fs (0, cb))) bs"
  using writes_steps by blast

definition input_bytes :: "LWTxInput \<Rightarrow> bytes" where
  "input_bytes i = in_hash i @ UInt32SetLE (in_index i) @ varint (of_nat (length (the_bytes (in_signature i)))) @
     the_bytes (in_signature i) @ (if in_amount i \<noteq> 0 then UInt64SetLE (in_amount i) else []) @
     UInt32SetLE (in_sequence i)"

lemma LWTxInputData_writes [wsteps]: "writes (LWTxInputData i) (input_bytes i)"
proof -
  let ?sig = "the_bytes (in_signature i)"
  have amount: "wstep (steps (if in_amount i \<noteq> 0 then [put (UInt64SetLE (in_amount i))] else []))
      (if in_amount i \<noteq> 0 then UInt64SetLE (in_amount i) @ [] else [])"
    by (auto intro!: wsteps simp del: append_Nil2 steps_simps)
  have "wstep (steps ([put (in_hash i), put (UInt32SetLE (in_index i)), call (LWVarIntSet (of_nat (length ?sig))), put ?sig] @
      (if in_amount i \<noteq> 0 then [put (UInt64SetLE (in_amount i))] else []) @ [put (UInt32SetLE (in_sequence i))]))
      ((in_hash i @ UInt32SetLE (in_index i) @ varint (of_nat (length ?sig)) @ ?sig @ []) @
       (if in_amount i \<noteq> 0 then UInt64SetLE (in_amount i) @ [] else []) @ UInt32SetLE (in_sequence i) @ [])"
    by (intro wstep_steps_append amount wsteps)
  from writes_eqI [OF this, of "input_bytes i"] show ?thesis
    unfolding LWTxInputData_def [abs_def] Let_def by (simp add: input_bytes_def)
qed

definition output_bytes :: "LWTxOutput \<Rightarrow> bytes" where
  "output_bytes out = UInt64SetLE (out_amount out) @ varint (of_nat (length (the_bytes (out_script out)))) @
     the_bytes (out_script out)"

lemma output_steps_writes [wsteps]: "wstep (output_steps out) (output_bytes out)"
proof -
  have "wstep (steps [put (UInt64SetLE (out_amount out)), call (LWVarIntSet (of_nat (length (the_bytes (out_script out))))),
      put (the_bytes (out_script out))]) (UInt64SetLE (out_amount out) @ varint (of_nat (length (the_bytes (out_script out)))) @
      the_bytes (out_script out) @ [])"
    by (intro wsteps)
  then show ?thesis by (simp add: output_steps_def [abs_def] output_bytes_def)
qed

definition indexed_outputs :: "LWTransaction \<Rightarrow> nat option \<Rightarrow> LWTxOutput list" where
  "indexed_outputs tx index = (case index of None \<Rightarrow> tx_outputs tx
     | Some i \<Rightarrow> if i < length (tx_outputs tx) then [tx_outputs tx ! i] else [])"

lemma LWTransactionOutputData_writes [wsteps]:
  "writes (LWTransactionOutputData tx index) (concat (map output_bytes (indexed_outputs tx index)))"
  unfolding LWTransactionOutputData_def Let_def indexed_outputs_def [symmetric]
  by (intro writes_steps wstep_steps_map wsteps)

text \<open>The bytes of a whole transaction.\<close>

definition tx_bytes :: "LWTransaction \<Rightarrow> bytes" where
  "tx_bytes tx = UInt32SetLE (tx_version tx) @ varint (of_nat (length (tx_inputs tx))) @
     concat (map (input_bytes \<circ> data_input None SIGHASH_ALL 0) (tx_inputs tx)) @
     varint (of_nat (length (tx_outputs tx))) @ concat (map output_bytes (tx_outputs tx)) @
     UInt32SetLE (tx_lockTime tx)"

lemma data_input_None: "data_input None h i input = data_input None SIGHASH_ALL 0 input"
  by (simp add: data_input_def)

lemma map_nth_upt: "map (\<lambda>i. f (xs ! i)) [0..<length xs] = map f xs"
  by (metis (no_types, lifting) map_nth map_map comp_apply map_cong)

lemma LWTransactionData_writes:
  assumes "hashType \<in> {0, SIGHASH_ALL}"
  shows "writes (LWTransactionData tx None hashType) (tx_bytes tx)"
proof -
  have h: "hashType AND SIGHASH_FORKID = 0" "hashType AND SIGHASH_ANYONECANPAY = 0"
    "hashType AND 0x1f \<noteq> SIGHASH_SINGLE" "hashType AND 0x1f \<noteq> SIGHASH_NONE"
    using assms by (auto simp: SIGHASH_FORKID_def SIGHASH_ANYONECANPAY_def SIGHASH_ALL_def SIGHASH_SINGLE_def SIGHASH_NONE_def)
  have ins: "map (\<lambda>i. call (LWTxInputData (data_input None s i (tx_inputs tx ! i)))) [0..<length (tx_inputs tx)] =
      map (\<lambda>x. call (LWTxInputData (data_input None SIGHASH_ALL 0 x))) (tx_inputs tx)" for s
    by (subst data_input_None) (rule map_nth_upt)
  have "wstep (steps ([put (UInt32SetLE (tx_version tx))] @ [call (LWVarIntSet (of_nat (length (tx_inputs tx))))] @
      map (\<lambda>x. call (LWTxInputData (data_input None SIGHASH_ALL 0 x))) (tx_inputs tx) @
      [call (LWVarIntSet (of_nat (length (tx_outputs tx)))), call (LWTransactionOutputData tx None)] @
      [put (UInt32SetLE (tx_lockTime tx))]))
      ((UInt32SetLE (tx_version tx) @ []) @ (varint (of_nat (length (tx_inputs tx))) @ []) @
       concat (map (\<lambda>x. input_bytes (data_input None SIGHASH_ALL 0 x)) (tx_inputs tx)) @
       (varint (of_nat (length (tx_outputs tx))) @ concat (map output_bytes (indexed_outputs tx None)) @ []) @
       (UInt32SetLE (tx_lockTime tx) @ []))"
    by (intro wstep_steps_append wstep_steps_map wsteps)
  note this [THEN writes_eqI, of "tx_bytes tx"]
  then show ?thesis
    unfolding LWTransactionData_def Let_def h ins by (simp add: h tx_bytes_def comp_def indexed_outputs_def)
qed

subsection \<open>Parsing inverts serialising\<close>

lemma get_at:
  "drop off buf = UInt32SetLE w @ t \<Longrightarrow> get_u32 buf off = w"
  "drop off buf = UInt64SetLE u @ t \<Longrightarrow> get_u64 buf off = u"
  "drop off buf = h @ t \<Longrightarrow> length h = 32 \<Longrightarrow> get_hash buf off = h"
proof -
  have len: "length xs \<le> length buf - off" if "drop off buf = xs @ t" for xs
    using arg_cong [OF that, of length] by simp
  show "drop off buf = UInt32SetLE w @ t \<Longrightarrow> get_u32 buf off = w"
    using len [of "UInt32SetLE w"] by (auto simp: get_u32_def)
  show "drop off buf = UInt64SetLE u @ t \<Longrightarrow> get_u64 buf off = u"
    using len [of "UInt64SetLE u"] by (auto simp: get_u64_def)
  show "drop off buf = h @ t \<Longrightarrow> length h = 32 \<Longrightarrow> get_hash buf off = h"
    using len [of h] by (auto simp: get_hash_def UInt256Get_def)
qed

text \<open>
  What an input keeps through serialisation: a signed input its signature, an unsigned one its
  script and amount. \<open>sendable\<close> inputs are the ones whose bytes tell the two apart.
\<close>

definition sendable :: "bool \<Rightarrow> LWTxInput \<Rightarrow> bool" where
  "sendable tn i \<longleftrightarrow> length (in_hash i) = 32 \<and>
     (case in_signature i of Some s \<Rightarrow> \<not> has_address tn s
      | None \<Rightarrow> (case in_script i of Some s \<Rightarrow> has_address tn s \<and> in_amount i \<noteq> 0 | None \<Rightarrow> False))"

definition sent :: "bool \<Rightarrow> LWTxInput \<Rightarrow> LWTxInput" where
  "sent tn i = (case in_signature i of
       Some s \<Rightarrow> i\<lparr>in_address := sig_addr tn s, in_amount := 0, in_script := None\<rparr>
     | None \<Rightarrow> i\<lparr>in_address := script_addr tn (the_bytes (in_script i))\<rparr>)"

definition sent_output :: "bool \<Rightarrow> LWTxOutput \<Rightarrow> LWTxOutput" where
  "sent_output tn out = \<lparr>out_address = script_addr tn (the_bytes (out_script out)), out_amount = out_amount out,
     out_script = Some (the_bytes (out_script out))\<rparr>"

lemma parse_input_sent:
  assumes i: "sendable tn i" and buf: "drop off buf = input_bytes (data_input None SIGHASH_ALL 0 i) @ t"
    and small: "length buf < 2 ^ 32" "off \<le> length buf"
  shows "parse_input tn buf (off, sg) =
    Some (sent tn i, off + length (input_bytes (data_input None SIGHASH_ALL 0 i)), sg \<and> in_signature i \<noteq> None)"
proof -
  define s where "s = the_bytes (in_signature (data_input None SIGHASH_ALL 0 i))"
  define am where "am = (if in_signature i = None then UInt64SetLE (in_amount i) else [])"
  define v where "v = varint (of_nat (length s))"
  have h: "length (in_hash i) = 32" using i by (simp add: sendable_def)
  have s_cases: "in_signature i = Some s \<and> \<not> has_address tn s \<or>
      in_signature i = None \<and> in_script i = Some s \<and> has_address tn s \<and> in_amount i \<noteq> 0"
    using i by (auto simp: sendable_def s_def data_input_def the_bytes_def Let_def split: option.splits)
  have bytes: "input_bytes (data_input None SIGHASH_ALL 0 i) =
      in_hash i @ UInt32SetLE (in_index i) @ v @ s @ am @ UInt32SetLE (in_sequence i)"
    using s_cases by (auto simp: input_bytes_def v_def am_def data_input_def the_bytes_def Let_def)
  note d0 = buf [unfolded bytes, simplified]
  have d1: "drop (off + 32) buf = UInt32SetLE (in_index i) @ v @ s @ am @ UInt32SetLE (in_sequence i) @ t"
    using drop_past [OF d0] h by simp
  have d2: "drop (off + 32 + 4) buf = v @ s @ am @ UInt32SetLE (in_sequence i) @ t"
    using drop_past [OF d1] by simp
  define off' where "off' = off + 32 + 4 + length v"
  have d3: "drop off' buf = s @ am @ UInt32SetLE (in_sequence i) @ t"
    using drop_past [OF d2] by (simp add: off'_def)
  have d4: "drop (off' + length s) buf = am @ UInt32SetLE (in_sequence i) @ t"
    using drop_past [OF d3] .
  have d5: "drop (off' + length am + length s) buf = UInt32SetLE (in_sequence i) @ t"
    using drop_past [OF d4] by (simp add: add.commute add.left_commute)
  have le: "off' + length s \<le> length buf" "off' + length am + length s < 2 ^ 64"
    using arg_cong [OF d0, of length] small h by (auto simp: off'_def)
  have slen: "length s < 2 ^ 32" using le(1) small by linarith
  have var: "LWVarInt (drop (off + 32 + 4) buf) = (of_nat (length s), length v)"
    unfolding d2 v_def by (rule LWVarInt_varint)
  have sz: "size_add off' (length s) = off' + length s" "size_add (off' + length am) (length s) = off' + length am + length s"
    using le small by (simp_all add: size_add_def)
  have rd: "read_n (Some (drop off' buf)) (length s) = Some s" by (simp add: read_n_def d3)
  have g: "get_hash buf off = in_hash i" "get_u32 buf (off + 32) = in_index i"
    "get_u32 buf (off' + length am + length s) = in_sequence i"
    using get_at(3) [OF d0 h] get_at(1) [OF d1] get_at(1) [OF d5] by simp_all
  have len: "off + length (input_bytes (data_input None SIGHASH_ALL 0 i)) = off' + length am + length s + 4"
    using h by (simp add: bytes off'_def)
  note facts = split fst_conv snd_conv unat_length [OF slen] off'_def [symmetric] le(1) if_True if_False rd bind.bind_lunit g(1,2)
  from s_cases show ?thesis
  proof
    assume c: "in_signature i = Some s \<and> \<not> has_address tn s"
    then have am: "am = []" by (simp add: am_def)
    have "size_add off' (length s) = off' + length s" using sz(1) .
    with c show ?thesis
      unfolding parse_input_def split Let_def var len
      by (simp only: facts) (simp add: LWTxInputSetSignature_def sent_def g(3) [unfolded am, simplified] am)
  next
    assume c: "in_signature i = None \<and> in_script i = Some s \<and> has_address tn s \<and> in_amount i \<noteq> 0"
    then have am: "length am = 8" and amount: "get_u64 buf (off' + length s) = in_amount i"
      using get_at(2) [of "off' + length s" buf "in_amount i"] d4 by (simp_all add: am_def)
    with c show ?thesis
      unfolding parse_input_def split Let_def var len
      by (simp only: facts sz(1)) (simp add: LWTxInputSetScript_def sent_def the_bytes_def g(3) [unfolded am] amount sz(2) [unfolded am])
  qed
qed

lemma parse_inputs_sent:
  "\<forall>i \<in> set is. sendable tn i \<Longrightarrow> drop off buf = concat (map (input_bytes \<circ> data_input None SIGHASH_ALL 0) is) @ t \<Longrightarrow>
   length buf < 2 ^ 32 \<Longrightarrow> off \<le> length buf \<Longrightarrow> parse_inputs tn buf (length is) (off, sg) =
     Some (map (sent tn) is, off + length (concat (map (input_bytes \<circ> data_input None SIGHASH_ALL 0) is)),
       sg \<and> (\<forall>i \<in> set is. in_signature i \<noteq> None))"
proof (induction "is" arbitrary: off sg)
  case (Cons i "is")
  let ?x = "input_bytes (data_input None SIGHASH_ALL 0 i)"
  have d: "drop off buf = ?x @ concat (map (input_bytes \<circ> data_input None SIGHASH_ALL 0) is) @ t"
    using Cons.prems(2) by (simp add: comp_def)
  have "off + length ?x \<le> length buf" using arg_cong [OF d, of length] Cons.prems(4) by simp
  then show ?case
    using parse_input_sent [OF _ d] Cons.IH [OF _ drop_past [OF d]] Cons.prems by (simp add: add.assoc)
qed simp

lemma parse_output_sent:
  assumes buf: "drop off buf = output_bytes out @ t" and small: "length buf < 2 ^ 32" "off \<le> length buf"
  shows "parse_output tn buf off = Some (sent_output tn out, off + length (output_bytes out))"
proof -
  define s where "s = the_bytes (out_script out)"
  define v where "v = varint (of_nat (length s))"
  have d0: "drop off buf = UInt64SetLE (out_amount out) @ v @ s @ t"
    using buf by (simp add: output_bytes_def s_def v_def)
  have d1: "drop (off + 8) buf = v @ s @ t" using drop_past [OF d0] by simp
  have d2: "drop (off + 8 + length v) buf = s @ t" using drop_past [OF d1] .
  have le: "off + 8 + length v + length s \<le> length buf"
    using arg_cong [OF d0, of length] small by simp
  then have sz: "size_add (off + 8 + length v) (length s) = off + 8 + length v + length s" "length s < 2 ^ 32"
    using small by (simp_all add: size_add_def)
  have var: "LWVarInt (drop (off + 8) buf) = (of_nat (length s), length v)"
    unfolding d1 v_def by (rule LWVarInt_varint)
  show ?thesis
    unfolding parse_output_def Let_def var split unat_length [OF sz(2)] sz(1)
    using le by (simp add: read_n_def d2 get_at(2) [OF d0] LWTxOutputSetScript_def sent_output_def s_def [symmetric])
      (simp add: output_bytes_def s_def v_def)
qed

lemma parse_outputs_sent:
  "drop off buf = concat (map output_bytes outs) @ t \<Longrightarrow> length buf < 2 ^ 32 \<Longrightarrow> off \<le> length buf \<Longrightarrow>
   parse_outputs tn buf (length outs) off =
     Some (map (sent_output tn) outs, off + length (concat (map output_bytes outs)))"
proof (induction outs arbitrary: off)
  case (Cons out outs)
  have d: "drop off buf = output_bytes out @ concat (map output_bytes outs) @ t"
    using Cons.prems(1) by simp
  have "off + length (output_bytes out) \<le> length buf" using arg_cong [OF d, of length] Cons.prems(3) by simp
  then show ?case
    using parse_output_sent [OF d] Cons.IH [OF drop_past [OF d]] Cons.prems by (simp add: add.assoc)
qed simp

lemma length_input_bytes: "32 \<le> length (in_hash i) \<Longrightarrow> 41 \<le> length (input_bytes i)"
  using length_varint [of "of_nat (length (the_bytes (in_signature i)))"] by (auto simp: input_bytes_def)

lemma length_output_bytes: "9 \<le> length (output_bytes out)"
  using length_varint [of "of_nat (length (the_bytes (out_script out)))"] by (auto simp: output_bytes_def)

lemma length_concat_ge: "\<forall>x \<in> set xs. k \<le> length (f x) \<Longrightarrow> k * length xs \<le> length (concat (map f xs))"
  by (induction xs) auto

definition sent_tx :: "bool \<Rightarrow> LWTransaction \<Rightarrow> LWTransaction" where
  "sent_tx tn tx = \<lparr>tx_hash = (if LWTransactionIsSigned tx then LWSHA256_2 (tx_bytes tx) else UINT256_ZERO),
     tx_version = tx_version tx, tx_inputs = map (sent tn) (tx_inputs tx),
     tx_outputs = map (sent_output tn) (tx_outputs tx), tx_lockTime = tx_lockTime tx,
     tx_blockHeight = TX_UNCONFIRMED, tx_timestamp = 0\<rparr>"

lemma parse_sent:
  assumes tx: "tx_inputs tx \<noteq> []" "\<forall>i \<in> set (tx_inputs tx). sendable tn i" and len: "length (tx_bytes tx) + length t < 2 ^ 32"
  shows "LWTransactionParse tn (tx_bytes tx @ t) = Some (Some (sent_tx tn tx))"
proof -
  let ?ins = "concat (map (input_bytes \<circ> data_input None SIGHASH_ALL 0) (tx_inputs tx))"
  let ?outs = "concat (map output_bytes (tx_outputs tx))"
  let ?vi = "varint (of_nat (length (tx_inputs tx)))" and ?vo = "varint (of_nat (length (tx_outputs tx)))"
  define buf where "buf = tx_bytes tx @ t"
  have small: "length buf < 2 ^ 32" using len by (simp add: buf_def)
  have d0: "drop 0 buf = UInt32SetLE (tx_version tx) @ ?vi @ ?ins @ ?vo @ ?outs @ UInt32SetLE (tx_lockTime tx) @ t"
    by (simp add: buf_def tx_bytes_def)
  have d1: "drop 4 buf = ?vi @ ?ins @ ?vo @ ?outs @ UInt32SetLE (tx_lockTime tx) @ t" using drop_past [OF d0] by simp
  define o1 where "o1 = 4 + length ?vi"
  have d2: "drop o1 buf = ?ins @ ?vo @ ?outs @ UInt32SetLE (tx_lockTime tx) @ t" using drop_past [OF d1] by (simp add: o1_def)
  define o2 where "o2 = o1 + length ?ins"
  have d3: "drop o2 buf = ?vo @ ?outs @ UInt32SetLE (tx_lockTime tx) @ t" using drop_past [OF d2] by (simp add: o2_def)
  define o3 where "o3 = o2 + length ?vo"
  have d4: "drop o3 buf = ?outs @ UInt32SetLE (tx_lockTime tx) @ t" using drop_past [OF d3] by (simp add: o3_def)
  define o4 where "o4 = o3 + length ?outs"
  have d5: "drop o4 buf = UInt32SetLE (tx_lockTime tx) @ t" using drop_past [OF d4] by (simp add: o4_def)
  have o5: "o4 + 4 = length (tx_bytes tx)" by (simp add: o4_def o3_def o2_def o1_def tx_bytes_def)
  have le: "o1 \<le> length buf" "o3 \<le> length buf" "o4 + 4 \<le> length buf"
    using o5 by (simp_all add: buf_def o4_def o3_def o2_def)
  have "41 * length (tx_inputs tx) \<le> length ?ins"
    using tx(2) by (intro length_concat_ge) (auto intro!: length_input_bytes simp: sendable_def data_input_def Let_def)
  moreover have "9 * length (tx_outputs tx) \<le> length ?outs"
    by (intro length_concat_ge) (auto intro: length_output_bytes)
  ultimately have counts: "length (tx_inputs tx) < 2 ^ 32" "length (tx_outputs tx) < 2 ^ 32"
    using small le by (simp_all add: o4_def o3_def o2_def)
  then have ok: "array_bytes_ok (length (tx_inputs tx)) 160" "array_bytes_ok (length (tx_outputs tx)) 104"
    by (simp_all add: array_bytes_ok_def)
  have vi: "LWVarInt (drop 4 buf) = (of_nat (length (tx_inputs tx)), length ?vi)" unfolding d1 by (rule LWVarInt_varint)
  have vo: "LWVarInt (drop o2 buf) = (of_nat (length (tx_outputs tx)), length ?vo)" unfolding d3 by (rule LWVarInt_varint)
  note ins = parse_inputs_sent [OF tx(2) d2 small le(1), of True, folded o2_def]
  note outs = parse_outputs_sent [OF d4 small le(2), of tn, folded o4_def]
  have lt: "get_u32 buf o4 = tx_lockTime tx" "get_u32 buf 0 = tx_version tx"
    using get_at(1) [OF d5] get_at(1) [OF d0] by simp_all
  have "take (o4 + 4) buf = tx_bytes tx" unfolding o5 by (simp add: buf_def)
  then show ?thesis
    unfolding buf_def [symmetric] LWTransactionParse_def Let_def vi split unat_length [OF counts(1)] o1_def [symmetric]
    using ok tx(1) le(3) lt by (simp add: ins vo unat_length [OF counts(2)] o3_def [symmetric] outs)
      (auto simp: sent_tx_def LWTransactionNew_def LWTransactionIsSigned_def)
qed

subsection \<open>Shuffling\<close>

lemma rand_bound:
  assumes "LWRand n rs = Some (r, rs')" "0 < n" "n \<le> LW_RAND_MAX"
  shows "r < n"
proof -
  have "r < n" if "rand_loop n rs = Some (r, rs')" for rs
    using that assms(2) by (induction rs) (auto split: if_splits simp: word_mod_less_divisor)
  moreover have "rand_loop n rs = Some (r, rs')"
    using assms by (auto simp: LWRand_def split: if_splits)
  ultimately show ?thesis by blast
qed

lemma shuffle_mset:
  "shuffle_loop xs i rs = Some (ys, rs') \<Longrightarrow> length xs < 2 ^ 31 \<Longrightarrow> mset ys = mset xs"
proof (induction xs i rs rule: shuffle_loop.induct)
  case (1 xs i rs)
  show ?case
  proof (cases "i + 1 < length xs")
    case True
    obtain r rs1 where r: "LWRand (of_nat (length xs) - of_nat i) rs = Some (r, rs1)"
      using 1 True by (cases "LWRand (of_nat (length xs) - of_nat i) rs") (auto simp: shuffle_loop.simps)
    define n :: u32 where "n = of_nat (length xs) - of_nat i"
    have n: "unat n = length xs - i"
      using True 1(3) by (simp add: n_def unat_sub word_le_nat_alt unsigned_of_nat take_bit_nat_eq_self)
    have "r < n"
      using r True n 1(3) by (intro rand_bound [of n rs r rs1]) (simp_all add: n_def [symmetric] word_less_nat_alt word_le_nat_alt LW_RAND_MAX_def)
    then have j: "i + unat r < length xs" using n by (simp add: word_less_nat_alt)
    let ?xs = "if i + unat r \<noteq> i then xs[i := xs ! (i + unat r), i + unat r := xs ! i] else xs"
    have "mset ?xs = mset xs"
      using mset_swap [of i xs "i + unat r"] True j by (auto simp: list_update_swap)
    moreover have "shuffle_loop ?xs (i + 1) rs1 = Some (ys, rs')"
      using 1(2) True r by (subst (asm) shuffle_loop.simps) (simp add: Let_def)
    ultimately show ?thesis using 1(1) [OF True r] 1(3) by simp
  qed (use 1 in \<open>simp add: shuffle_loop.simps\<close>)
qed

text \<open>
  Shuffling a transaction's outputs neither loses, duplicates nor changes an output, whatever
  values \<open>rand\<close> returns, and leaves the rest of the transaction as it is.
\<close>

theorem shuffle_permutes:
  assumes "LWTransactionShuffleOutputs rs tx = Some (tx', rs')" "length (tx_outputs tx) < 2 ^ 31"
  shows "mset (tx_outputs tx') = mset (tx_outputs tx) \<and> tx'\<lparr>tx_outputs := tx_outputs tx\<rparr> = tx"
  using assms by (auto simp: LWTransactionShuffleOutputs_def dest!: shuffle_mset split: Option.bind_splits)

definition example_tx :: LWTransaction where
  "example_tx = LWTransactionNew\<lparr>
     tx_inputs := [\<lparr>in_hash = replicate 32 1, in_index = 0, in_address = [], in_amount = 0, in_script = None,
                    in_signature = Some [], in_sequence = TXIN_SEQUENCE\<rparr>],
     tx_outputs := [\<lparr>out_address = [], out_amount = 5, out_script = Some [1, 2]\<rparr>,
                    \<lparr>out_address = [], out_amount = 7, out_script = Some []\<rparr>]\<rparr>"

theorem shuffle_permutes_witness:
  "\<exists>tx' rs'. LWTransactionShuffleOutputs [3] example_tx = Some (tx', rs') \<and>
    mset (tx_outputs tx') = mset (tx_outputs example_tx) \<and> tx'\<lparr>tx_outputs := tx_outputs example_tx\<rparr> = example_tx"
proof -
  obtain tx' rs' where sh: "LWTransactionShuffleOutputs [3] example_tx = Some (tx', rs')"
    by (simp add: LWTransactionShuffleOutputs_def example_tx_def shuffle_loop.simps LWRand_def LW_RAND_MAX_def)
  moreover have "length (tx_outputs example_tx) < 2 ^ 31" by (simp add: example_tx_def)
  ultimately show ?thesis using shuffle_permutes [OF sh] by blast
qed

subsection \<open>Serialisation\<close>

text \<open>
  C33. Parsing what a transaction with at least one input serialises to (below 2^32 bytes), with anything
  behind it, gives the transaction back, as long as its inputs are \<open>sendable\<close>: the script of a signature is
  none that an address can be paid by, since the parser takes such a script for the one of an unsigned input
  (\<open>signature_misread\<close>), and an unsigned input has such a script and a nonzero amount. What comes back is the
  version, the lock time, the outputs with their amounts and scripts, and the inputs with outpoint, sequence
  and either the signature or the script and amount that an unsigned input is sent with. Its hash
  is the double SHA-256 of exactly those bytes when every input is signed, and zero otherwise.
\<close>

theorem tx_roundtrip:
  assumes "tx_inputs tx \<noteq> []" "\<forall>i \<in> set (tx_inputs tx). sendable tn i" "length (tx_bytes tx) + length t < 2 ^ 32"
  shows "writes (LWTransactionSerialize tx) (tx_bytes tx) \<and>
    LWTransactionParse tn (tx_bytes tx @ t) = Some (Some (sent_tx tn tx))"
proof
  show "writes (LWTransactionSerialize tx) (tx_bytes tx)"
    unfolding LWTransactionSerialize_def by (rule LWTransactionData_writes) simp
  show "LWTransactionParse tn (tx_bytes tx @ t) = Some (Some (sent_tx tn tx))" using assms by (rule parse_sent)
qed

theorem tx_roundtrip_witness:
  "writes (LWTransactionSerialize example_tx) (tx_bytes example_tx) \<and>
    LWTransactionParse False (tx_bytes example_tx @ [0xff]) = Some (Some (sent_tx False example_tx))"
  by (rule tx_roundtrip)
    (simp_all add: example_tx_def sendable_def has_address_def LWAddressFromScriptPubKey_def tx_bytes_def
      LWTransactionNew_def data_input_def input_bytes_def output_bytes_def varint_def the_bytes_def)

text \<open>
  A signed transaction whose only signature script pushes a number and twenty bytes, as the script that a
  witness address is paid by does: parsing its bytes reads an amount behind the script, runs past their end
  and fails.
\<close>

definition misread_tx :: LWTransaction where
  "misread_tx = LWTransactionNew\<lparr>tx_inputs := [\<lparr>in_hash = replicate 32 1, in_index = 0, in_address = [], in_amount = 0,
     in_script = None, in_signature = Some (p2w OP_0 (replicate 20 1)), in_sequence = TXIN_SEQUENCE\<rparr>]\<rparr>"

lemma signature_misread:
  "LWTransactionIsSigned misread_tx \<and> writes (LWTransactionSerialize misread_tx) (tx_bytes misread_tx) \<and>
   LWTransactionParse tn (tx_bytes misread_tx) = Some None"
proof -
  let ?s = "0 # 20 # replicate 20 1 :: bytes"
  have "witness_ok OP_0 (replicate 20 1)" by (simp add: witness_ok_def)
  then have a: "has_address tn ?s"
    using address_p2w [of OP_0 "replicate 20 1" tn None] by (auto simp: has_address_def p2w_def OP_0_def fits_in_def)
  have b: "tx_bytes misread_tx = [1, 0, 0, 0, 1] @ replicate 32 1 @ [0, 0, 0, 0, 22] @ ?s @ [0xff, 0xff, 0xff, 0xff, 0, 0, 0, 0, 0]"
    by (simp add: misread_tx_def tx_bytes_def p2w_def OP_0_def input_bytes_def data_input_def varint_def LWTransactionNew_def the_bytes_def
      TX_VERSION_def TX_LOCKTIME_def TXIN_SEQUENCE_def UInt32SetLE_def)
  let ?b = "[1, 0, 0, 0, 1] @ replicate 32 1 @ [0, 0, 0, 0, 22] @ ?s @ [0xff, 0xff, 0xff, 0xff, 0, 0, 0, 0, 0]"
  have len: "length ?b = 73" by simp
  have v: "LWVarInt (drop 4 ?b) = (1, 1)" "LWVarInt (drop 41 ?b) = (22, 1)" "LWVarInt (drop 76 ?b) = (0, 1)" by (simp_all add: LWVarInt_def)
  have r: "read_n (Some (drop 42 ?b)) 22 = Some ?s" by (simp add: read_n_def)
  obtain i where i: "parse_input tn ?b (5, True) = Some (i, 76, False)"
    using a v(2) r len unfolding parse_input_def by (simp add: Let_def size_add_def del: append.simps drop_append)
  have "LWTransactionParse tn ?b = Some None"
    using v i len unfolding LWTransactionParse_def by (simp add: Let_def array_bytes_ok_def del: append.simps drop_append)
  moreover have "writes (LWTransactionSerialize misread_tx) (tx_bytes misread_tx)"
    unfolding LWTransactionSerialize_def by (rule LWTransactionData_writes) simp
  ultimately show ?thesis unfolding b by (simp add: misread_tx_def LWTransactionIsSigned_def LWTransactionNew_def)
qed

text \<open>
  A count or script length in a message is not checked against the size of the message before
  it is used: thirteen bytes make the parser allocate an array whose size in bytes wraps around,
  and fifty make it copy a script from outside the message.
\<close>

theorem tx_parse_overflows:
  "LWTransactionParse tn (replicate 4 0 @ replicate 9 0xff) = None \<and>
   LWTransactionParse tn (replicate 4 0 @ [1] @ replicate 36 0 @ replicate 9 0xff) = None"
proof -
  have var: "LWVarInt (replicate 9 0xff) = (- 1, 9)"
    by (simp add: LWVarInt_def UInt64GetLE_def)
  have fault: "parse_inputs tn (replicate 4 0 @ [1] @ replicate 36 0 @ replicate 9 0xff) 1 (5, True) = None"
  proof -
    have "drop 41 (replicate 4 0 @ [1] @ replicate 36 0 @ replicate 9 (0xff :: u8)) = replicate 9 0xff" by simp
    then show ?thesis
      by (simp add: parse_input_def var size_add_def read_n_def Let_def unsigned_minus_1_eq_mask mask_eq_exp_minus_1)
  qed
  have "LWVarInt (1 # replicate 36 0 @ replicate 9 0xff) = (1, 1)" by (simp add: LWVarInt_def)
  then show ?thesis
    using fault by (simp add: LWTransactionParse_def var array_bytes_ok_def Let_def unsigned_minus_1_eq_mask mask_eq_exp_minus_1)
qed

text \<open>
  The size computed for a signed transaction is the number of bytes it serialises to.
\<close>

theorem tx_size:
  assumes "LWTransactionIsSigned tx" "\<forall>i \<in> set (tx_inputs tx). length (in_hash i) = 32"
  shows "LWTransactionSize tx = length (tx_bytes tx)"
proof -
  have "(\<Sum>i \<leftarrow> is. case in_signature i of Some sig \<Rightarrow> 32 + 4 + LWVarIntSize (of_nat (length sig)) + length sig + 4
       | None \<Rightarrow> TX_INPUT_SIZE) = length (concat (map (input_bytes \<circ> data_input None SIGHASH_ALL 0) is))"
    if "\<forall>i \<in> set is. in_signature i \<noteq> None \<and> length (in_hash i) = 32" for "is"
    using that by (induction "is") (auto simp: input_bytes_def data_input_def LWVarIntSize_varint the_bytes_def)
  moreover have "(\<Sum>out \<leftarrow> outs. 8 + LWVarIntSize (of_nat (length (the_bytes (out_script out)))) + length (the_bytes (out_script out))) =
      length (concat (map output_bytes outs))" for outs
    by (induction outs) (auto simp: output_bytes_def LWVarIntSize_varint)
  ultimately show ?thesis
    using assms by (simp add: LWTransactionSize_def tx_bytes_def LWVarIntSize_varint LWTransactionIsSigned_def)
qed

theorem tx_size_witness: "LWTransactionSize example_tx = length (tx_bytes example_tx)"
  by (rule tx_size) (simp_all add: LWTransactionIsSigned_def example_tx_def)

subsection \<open>Signing\<close>

text \<open>A transaction without its signatures and the addresses derived from them.\<close>

definition bare :: "LWTxInput \<Rightarrow> LWTxInput" where
  "bare i = i\<lparr>in_signature := None, in_address := []\<rparr>"

definition bare_tx :: "LWTransaction \<Rightarrow> LWTransaction" where
  "bare_tx tx = tx\<lparr>tx_hash := [], tx_inputs := map bare (tx_inputs tx)\<rparr>"

lemma bare_fields:
  assumes "bare i = bare j"
  shows "in_hash i = in_hash j" "in_index i = in_index j" "in_amount i = in_amount j" "in_script i = in_script j"
    "in_sequence i = in_sequence j"
  using assms by (cases i; cases j; simp add: bare_def)+

lemma bare_tx_fields:
  assumes "bare_tx tx = bare_tx tx'"
  shows "tx_version tx = tx_version tx'" "tx_outputs tx = tx_outputs tx'" "tx_lockTime tx = tx_lockTime tx'"
    "map bare (tx_inputs tx) = map bare (tx_inputs tx')" "tx_blockHeight tx = tx_blockHeight tx'"
    "tx_timestamp tx = tx_timestamp tx'"
  using assms by (cases tx; cases tx'; simp add: bare_tx_def)+

lemma bare_input_data:
  assumes "bare i = bare j"
  shows "LWTxInputData (data_input (Some n) h k i) = LWTxInputData (data_input (Some n) h k j)"
    "LWTxInputData (i\<lparr>in_signature := in_script i\<rparr>) = LWTxInputData (j\<lparr>in_signature := in_script j\<rparr>)"
    "LWTxInputData (i\<lparr>in_signature := in_script i, in_amount := a\<rparr>) = LWTxInputData (j\<lparr>in_signature := in_script j, in_amount := a\<rparr>)"
  using bare_fields [OF assms] by (auto simp: LWTxInputData_def data_input_def Let_def fun_eq_iff)

text \<open>
  What is hashed for a signature of an input does not depend on the signatures the transaction
  already has, for every hash type: inputs may be signed in any order and signed again.
\<close>

theorem sighash_ignores_signatures:
  assumes "bare_tx tx = bare_tx tx'"
  shows "LWTransactionData tx (Some n) hashType = LWTransactionData tx' (Some n) hashType"
proof
  fix cb
  note f = bare_tx_fields [OF assms]
  have len: "length (tx_inputs tx) = length (tx_inputs tx')" using arg_cong [OF f(4), of length] by simp
  have nth: "bare (tx_inputs tx ! k) = bare (tx_inputs tx' ! k)" if "k < length (tx_inputs tx')" for k
    using arg_cong [OF f(4), of "\<lambda>xs. xs ! k"] that len by simp
  have out: "LWTransactionOutputData tx index = LWTransactionOutputData tx' index" for index
    unfolding fun_eq_iff LWTransactionOutputData_def f by simp
  have lists: "map (\<lambda>i. in_hash i @ UInt32SetLE (in_index i)) (tx_inputs tx) = map (\<lambda>i. in_hash i @ UInt32SetLE (in_index i)) (tx_inputs tx')"
    "map (\<lambda>i. UInt32SetLE (in_sequence i)) (tx_inputs tx) = map (\<lambda>i. UInt32SetLE (in_sequence i)) (tx_inputs tx')"
    by (intro nth_equalityI; simp add: len bare_fields [OF nth])+
  have wit: "LWTransactionWitnessData tx (Some n) hashType cb = LWTransactionWitnessData tx' (Some n) hashType cb"
    unfolding LWTransactionWitnessData_def lists out f len
    by (cases "n < length (tx_inputs tx')") (simp_all add: bare_input_data [OF nth] Let_def)
  have ins: "map (\<lambda>i. call (LWTxInputData (data_input (Some n) h i (tx_inputs tx ! i)))) [0..<length (tx_inputs tx')] =
      map (\<lambda>i. call (LWTxInputData (data_input (Some n) h i (tx_inputs tx' ! i)))) [0..<length (tx_inputs tx')]" for h
    by (intro map_cong) (simp_all add: bare_input_data [OF nth])
  show "LWTransactionData tx (Some n) hashType cb = LWTransactionData tx' (Some n) hashType cb"
    unfolding LWTransactionData_def Let_def wit out f len ins
    by (cases "n < length (tx_inputs tx')") (simp_all add: bare_input_data [OF nth] Let_def)
qed

theorem sighash_ignores_signatures_witness:
  "LWTransactionData example_tx (Some 0) SIGHASH_ALL =
   LWTransactionData (example_tx\<lparr>tx_inputs := [(tx_inputs example_tx ! 0)\<lparr>in_signature := Some [7]\<rparr>]\<rparr>) (Some 0) SIGHASH_ALL"
  by (rule sighash_ignores_signatures) (simp add: bare_tx_def bare_def example_tx_def)

lemma sign_input_bare: "bare_tx (fst (sign_input ec tn forkId addrs i (tx, keys))) = bare_tx tx"
proof -
  have set_sig: "bare (LWTxInputSetSignature tn (Some s) x) = bare x" for s x
    by (simp add: LWTxInputSetSignature_def bare_def Let_def)
  have "map bare ((tx_inputs tx)[i := LWTxInputSetSignature tn (Some s) (tx_inputs tx ! i)]) = map bare (tx_inputs tx)" for s
    by (simp add: map_update set_sig) (metis list_update_id map_update)
  then show ?thesis
    by (auto simp: sign_input_def bare_tx_def Let_def split: option.splits prod.splits)
qed

lemma sign_fold_bare: "bare_tx (fst (fold (sign_input ec tn forkId addrs) is (tx, keys))) = bare_tx tx"
proof (induction "is" arbitrary: tx keys)
  case (Cons i "is")
  obtain tx1 keys1 where "sign_input ec tn forkId addrs i (tx, keys) = (tx1, keys1)" by fastforce
  then show ?case using Cons [of tx1 keys1] sign_input_bare [of ec tn forkId addrs i tx keys] by simp
qed simp

text \<open>
  Signing changes nothing of a transaction but its signatures, the addresses of inputs that
  had none, and its hash; and when it reports success every input is signed and the hash is the
  double SHA-256 of the bytes the transaction serialises to.
\<close>

theorem sign_correct:
  assumes "LWTransactionSign ec tn tx forkId keys = (r, tx', keys')"
  shows "bare_tx tx' = bare_tx tx \<and> (r \<longleftrightarrow> LWTransactionIsSigned tx') \<and>
    (r \<longrightarrow> tx_hash tx' = LWSHA256_2 (produced (LWTransactionSerialize tx')))"
proof -
  let ?as = "map (LWKeyAddress ec tn (Some 75)) keys"
  let ?addrs = "map (\<lambda>(a, key). case a of None \<Rightarrow> [] | Some a \<Rightarrow> a) ?as"
  obtain tx1 keys1 where fold: "fold (sign_input ec tn forkId ?addrs) [0..<length (tx_inputs tx)] (tx, map snd ?as) = (tx1, keys1)"
    by fastforce
  then have bare: "bare_tx tx1 = bare_tx tx" using sign_fold_bare [of ec tn forkId ?addrs _ tx "map snd ?as"] by (metis fst_conv)
  have data: "produced (LWTransactionData x None 0) = tx_bytes x" "produced (LWTransactionSerialize x) = tx_bytes x" for x
    using LWTransactionData_writes [of 0 x] LWTransactionData_writes [of SIGHASH_ALL x]
    by (simp_all add: produced_writes LWTransactionSerialize_def)
  have tx': "tx' = (if LWTransactionIsSigned tx1 then tx1\<lparr>tx_hash := LWSHA256_2 (tx_bytes tx1)\<rparr> else tx1)"
    "r = LWTransactionIsSigned tx1"
    using assms fold by (auto simp: LWTransactionSign_def Let_def data comp_def split: if_splits)
  then show ?thesis
    using bare by (auto simp: data bare_tx_def LWTransactionIsSigned_def tx_bytes_def)
qed

theorem sign_correct_witness:
  "\<exists>r tx' keys'. LWTransactionSign toy_ec False example_tx 0 [NO_KEY] = (r, tx', keys') \<and>
    bare_tx tx' = bare_tx example_tx \<and> (r \<longleftrightarrow> LWTransactionIsSigned tx') \<and>
    (r \<longrightarrow> tx_hash tx' = LWSHA256_2 (produced (LWTransactionSerialize tx')))"
proof -
  obtain r tx' keys' where "LWTransactionSign toy_ec False example_tx 0 [NO_KEY] = (r, tx', keys')" by (metis prod_cases3)
  from sign_correct [OF this] this show ?thesis by blast
qed

end
