(* ===== verification/LW_Wallet.thy ===== *)
theory LW_Wallet
  imports LW_Tx LW_BIP32
begin

text \<open>
  Model of \<^verbatim>\<open>LWWallet.c\<close>: the state of the wallet, its addresses, its transactions and the balance. A
  transaction object is found by its hash in \<open>w_allTx\<close>; the ordered array of pointers is the list
  of those hashes, and following a pointer whose object has been freed is \<open>None\<close>. The hash sets are
  sets and maps (the table of \<open>LW_Set\<close> implements them), compared by hash, by outpoint and by
  address. What the code takes from outside is the record \<open>env\<close>: the curve, the network, the time,
  and whether growing an array moved it. A call is one step: the lock keeps others out, except where
  an operation releases it on the way and calls itself, which is written out.
\<close>

type_synonym LWUTXO = "UInt256 \<times> u32"

record ('p, 's, 'r) env =
  env_ec :: "('p, 's, 'r) ec"
  env_testnet :: bool
  env_now :: int
  env_moved :: "string list \<Rightarrow> bool"

record LWWallet =
  w_balance :: u64
  w_totalSent :: u64
  w_totalReceived :: u64
  w_feePerKb :: u64
  w_balanceHist :: "u64 list"
  w_blockHeight :: u32
  w_utxos :: "LWUTXO list"
  w_transactions :: "UInt256 list"
  w_masterPubKey :: LWMasterPubKey
  w_internalChain :: "string list"
  w_externalChain :: "string list"
  w_allTx :: "UInt256 \<rightharpoonup> LWTransaction"
  w_invalidTx :: "UInt256 set"
  w_pendingTx :: "UInt256 set"
  w_spentOutputs :: "LWUTXO set"
  w_usedAddrs :: "string set"
  w_allAddrs :: "string set"

text \<open>The calls of the callbacks, in their order; one that is not set is not called.\<close>

datatype wallet_event =
  BalanceChanged u64
| TxAdded UInt256
| TxUpdated "UInt256 list" u32 u32
| TxDeleted UInt256 bool bool

definition DEFAULT_FEE_PER_KB :: u64 where "DEFAULT_FEE_PER_KB = (5000 * 1000 + 99) div 100"
definition MIN_FEE_PER_KB :: u64 where "MIN_FEE_PER_KB = (TX_FEE_PER_KB * 1000 + 190) div 191"
definition TX_MIN_OUTPUT_AMOUNT :: u64 where
  "TX_MIN_OUTPUT_AMOUNT = TX_FEE_PER_KB * 3 * (of_nat TX_OUTPUT_SIZE + of_nat TX_INPUT_SIZE) div 1000"
definition TX_MAX_SIZE :: nat where "TX_MAX_SIZE = 100000"
definition TX_MAX_LOCK_HEIGHT :: u32 where "TX_MAX_LOCK_HEIGHT = 500000000"
definition UINT32_MAX :: u32 where "UINT32_MAX = 0xffffffff"
definition UINT64_MAX :: u64 where "UINT64_MAX = 0xffffffffffffffff"

definition txFee :: "u64 \<Rightarrow> nat \<Rightarrow> u64" where
  "txFee feePerKb sz =
     (let standardFee = of_nat ((sz + 999) div 1000) * TX_FEE_PER_KB;
          fee = ((of_nat sz * feePerKb div 1000 + 99) div 100) * 100
      in if fee > standardFee then fee else standardFee)"

subsection \<open>The order of transactions\<close>

definition txChainIndex :: "LWTransaction \<Rightarrow> string list \<Rightarrow> nat" where
  "txChainIndex tx addrChain =
     (case find (\<lambda>i. list_ex (\<lambda>out. LWAddressEq (out_address out) (addrChain ! i)) (tx_outputs tx))
        (rev [0..<length addrChain]) of None \<Rightarrow> SIZE_MAX | Some i \<Rightarrow> i)"

definition spends :: "LWTransaction \<Rightarrow> UInt256 \<Rightarrow> bool" where
  "spends tx txHash \<longleftrightarrow> list_ex (\<lambda>i. UInt256Eq (in_hash i) txHash) (tx_inputs tx)"

partial_function (option) txIsAscending ::
    "LWWallet \<Rightarrow> LWTransaction option \<Rightarrow> LWTransaction option \<Rightarrow> bool option" where
  "txIsAscending w tx1 tx2 =
     (case (tx1, tx2) of
        (Some t1, Some t2) \<Rightarrow>
          if tx_blockHeight t1 > tx_blockHeight t2 then Some True
          else if tx_blockHeight t1 < tx_blockHeight t2 then Some False
          else if spends t1 (tx_hash t2) then Some True
          else if spends t2 (tx_hash t1) then Some False
          else any_m (\<lambda>i. txIsAscending w (w_allTx w (in_hash i)) (Some t2)) (tx_inputs t1)
      | _ \<Rightarrow> Some False)"

definition txCompare :: "LWWallet \<Rightarrow> LWTransaction \<Rightarrow> LWTransaction \<Rightarrow> int option" where
  "txCompare w tx1 tx2 = do {
     a \<leftarrow> txIsAscending w (Some tx1) (Some tx2);
     if a then Some 1
     else do {
       d \<leftarrow> txIsAscending w (Some tx2) (Some tx1);
       if d then Some (- 1)
       else
         (let i = txChainIndex tx1 (w_internalChain w);
              j = txChainIndex tx2 (if i = SIZE_MAX then w_externalChain w else w_internalChain w);
              i = (if i = SIZE_MAX \<and> j \<noteq> SIZE_MAX then txChainIndex tx1 (w_externalChain w) else i)
          in Some (if i \<noteq> SIZE_MAX \<and> j \<noteq> SIZE_MAX \<and> i \<noteq> j then (if i > j then 1 else - 1) else 0)) } }"

text \<open>The insertion loop, over the reversed array.\<close>

fun insert_back :: "LWWallet \<Rightarrow> LWTransaction \<Rightarrow> UInt256 list \<Rightarrow> UInt256 list option" where
  "insert_back w tx [] = Some [tx_hash tx]"
| "insert_back w tx (h # hs) = do {
     t \<leftarrow> w_allTx w h;
     c \<leftarrow> txCompare w t tx;
     if c > 0 then do { hs' \<leftarrow> insert_back w tx hs; Some (h # hs') } else Some (tx_hash tx # h # hs) }"

definition insertTx :: "LWTransaction \<Rightarrow> LWWallet \<Rightarrow> LWWallet option" where
  "insertTx tx w = do {
     hs \<leftarrow> insert_back w tx (rev (w_transactions w)); Some (w\<lparr>w_transactions := rev hs\<rparr>) }"

text \<open>Output \<open>n\<close> of a known transaction when it pays to one of the wallet's addresses.\<close>

definition wallet_output :: "LWWallet \<Rightarrow> UInt256 \<Rightarrow> u32 \<Rightarrow> LWTxOutput option" where
  "wallet_output w h n =
     (case w_allTx w h of None \<Rightarrow> None
      | Some t \<Rightarrow> if unat n < length (tx_outputs t) \<and> out_address (tx_outputs t ! unat n) \<in> w_allAddrs w
                  then Some (tx_outputs t ! unat n) else None)"

definition containsTx :: "LWWallet \<Rightarrow> LWTransaction \<Rightarrow> bool" where
  "containsTx w tx \<longleftrightarrow>
     list_ex (\<lambda>out. out_address out \<in> w_allAddrs w) (tx_outputs tx) \<or>
     list_ex (\<lambda>i. wallet_output w (in_hash i) (in_index i) \<noteq> None) (tx_inputs tx)"

subsection \<open>The balance\<close>

definition outpoint :: "LWTxInput \<Rightarrow> LWUTXO" where
  "outpoint i = (in_hash i, in_index i)"

definition conflicts :: "LWWallet \<Rightarrow> LWTransaction \<Rightarrow> bool" where
  "conflicts w tx \<longleftrightarrow>
     list_ex (\<lambda>i. outpoint i \<in> w_spentOutputs w \<or> in_hash i \<in> w_invalidTx w) (tx_inputs tx)"

definition input_locked :: "int \<Rightarrow> u32 \<Rightarrow> LWTransaction \<Rightarrow> LWTxInput \<Rightarrow> bool" where
  "input_locked now blockHeight tx i \<longleftrightarrow>
     in_sequence i < UINT32_MAX - 1 \<or>
     in_sequence i < UINT32_MAX \<and> tx_lockTime tx < TX_MAX_LOCK_HEIGHT \<and> tx_lockTime tx > blockHeight + 1 \<or>
     in_sequence i < UINT32_MAX \<and> uint (tx_lockTime tx) > now"

definition has_dust :: "LWTransaction \<Rightarrow> bool" where
  "has_dust tx \<longleftrightarrow> list_ex (\<lambda>out. out_amount out < TX_MIN_OUTPUT_AMOUNT) (tx_outputs tx)"

definition postponed :: "int \<Rightarrow> LWWallet \<Rightarrow> LWTransaction \<Rightarrow> bool" where
  "postponed now w tx \<longleftrightarrow>
     LWTransactionSize tx > TX_MAX_SIZE \<or> has_dust tx \<or>
     list_ex (\<lambda>i. input_locked now (w_blockHeight w) tx i \<or> in_hash i \<in> w_pendingTx w) (tx_inputs tx)"

definition add_output :: "UInt256 \<Rightarrow> nat \<times> LWTxOutput \<Rightarrow> LWWallet \<times> u64 \<Rightarrow> LWWallet \<times> u64" where
  "add_output h = (\<lambda>(j, out) (w, balance).
     if out_address out \<noteq> [] then
       (let w = w\<lparr>w_usedAddrs := insert (out_address out) (w_usedAddrs w)\<rparr> in
        if out_address out \<in> w_allAddrs w then
          (w\<lparr>w_utxos := w_utxos w @ [(h, of_nat j)]\<rparr>, balance + out_amount out)
        else (w, balance))
     else (w, balance))"

text \<open>From the last one to the first, the spent ones are removed.\<close>

fun rm_spent :: "LWWallet \<Rightarrow> LWUTXO list \<Rightarrow> u64 \<Rightarrow> (LWUTXO list \<times> u64) option" where
  "rm_spent w [] balance = Some ([], balance)"
| "rm_spent w (u # us) balance = do {
     (us, balance) \<leftarrow> rm_spent w us balance;
     if u \<notin> w_spentOutputs w then Some (u # us, balance)
     else do {
       t \<leftarrow> w_allTx w (fst u);
       out \<leftarrow> deref (tx_outputs t) (unat (snd u));
       Some (us, balance - out_amount out) } }"

text \<open>One transaction; the state is the wallet, the balance and the previous balance.\<close>

definition balance_step :: "int \<Rightarrow> UInt256 \<Rightarrow> LWWallet \<times> u64 \<times> u64 \<Rightarrow> (LWWallet \<times> u64 \<times> u64) option" where
  "balance_step now h = (\<lambda>(w, balance, prevBalance). do {
     tx \<leftarrow> w_allTx w h;
     if tx_blockHeight tx = TX_UNCONFIRMED \<and> conflicts w tx then
       Some (w\<lparr>w_invalidTx := insert h (w_invalidTx w), w_balanceHist := w_balanceHist w @ [balance]\<rparr>, balance, prevBalance)
     else
       (let w = w\<lparr>w_spentOutputs := w_spentOutputs w \<union> set (map outpoint (tx_inputs tx))\<rparr> in
        if tx_blockHeight tx = TX_UNCONFIRMED \<and> postponed now w tx then
          Some (w\<lparr>w_pendingTx := insert h (w_pendingTx w), w_balanceHist := w_balanceHist w @ [balance]\<rparr>, balance, prevBalance)
        else
          (let (w, balance) = fold (add_output (tx_hash tx)) (enumerate 0 (tx_outputs tx)) (w, balance) in do {
             (utxos, balance) \<leftarrow> rm_spent w (w_utxos w) balance;
             let w = w\<lparr>w_utxos := utxos\<rparr>;
                 w = (if prevBalance < balance then w\<lparr>w_totalReceived := w_totalReceived w + (balance - prevBalance)\<rparr> else w);
                 w = (if balance < prevBalance then w\<lparr>w_totalSent := w_totalSent w + (prevBalance - balance)\<rparr> else w)
             in Some (w\<lparr>w_balanceHist := w_balanceHist w @ [balance]\<rparr>, balance, balance) })) })"

definition updateBalance :: "int \<Rightarrow> LWWallet \<Rightarrow> LWWallet option" where
  "updateBalance now w = do {
     (w, balance, prevBalance) \<leftarrow> fold_m (balance_step now) (w_transactions w)
       (w\<lparr>w_utxos := [], w_balanceHist := [], w_spentOutputs := {}, w_invalidTx := {}, w_pendingTx := {},
          w_usedAddrs := {}, w_totalSent := 0, w_totalReceived := 0\<rparr>, 0, 0);
     Some (w\<lparr>w_balance := balance\<rparr>) }"

subsection \<open>What the balance is\<close>

text \<open>What a wallet must satisfy for its operations to be defined.\<close>

definition wallet_ok :: "LWWallet \<Rightarrow> bool" where
  "wallet_ok w \<longleftrightarrow> distinct (w_transactions w) \<and> set (w_transactions w) \<subseteq> dom (w_allTx w) \<and>
     (\<forall>h tx. w_allTx w h = Some tx \<longrightarrow> tx_hash tx = h \<and> length (tx_outputs tx) < 2 ^ 32)"

text \<open>The outputs of a transaction that pay to the wallet, what they are worth, and what it spends.\<close>

definition owned :: "LWWallet \<Rightarrow> UInt256 \<Rightarrow> LWUTXO set" where
  "owned w h = {(h, of_nat j) | j tx. w_allTx w h = Some tx \<and> j < length (tx_outputs tx) \<and>
     out_address (tx_outputs tx ! j) \<noteq> [] \<and> out_address (tx_outputs tx ! j) \<in> w_allAddrs w}"

definition utxo_amount :: "LWWallet \<Rightarrow> LWUTXO \<Rightarrow> u64" where
  "utxo_amount w u = (case w_allTx w (fst u) of None \<Rightarrow> 0 | Some t \<Rightarrow> out_amount (tx_outputs t ! unat (snd u)))"

definition spent_by :: "LWWallet \<Rightarrow> UInt256 \<Rightarrow> LWUTXO set" where
  "spent_by w h = (case w_allTx w h of None \<Rightarrow> {} | Some tx \<Rightarrow> outpoint ` set (tx_inputs tx))"

text \<open>The fields that computing the balance leaves alone.\<close>

definition same_txs :: "LWWallet \<Rightarrow> LWWallet \<Rightarrow> bool" where
  "same_txs w w' \<longleftrightarrow> w_transactions w' = w_transactions w \<and> w_allTx w' = w_allTx w \<and> w_allAddrs w' = w_allAddrs w \<and>
     w_internalChain w' = w_internalChain w \<and> w_externalChain w' = w_externalChain w \<and>
     w_masterPubKey w' = w_masterPubKey w \<and> w_feePerKb w' = w_feePerKb w \<and> w_blockHeight w' = w_blockHeight w"

text \<open>The outputs of one transaction that are added, in order.\<close>

definition new_utxos :: "LWWallet \<Rightarrow> UInt256 \<Rightarrow> nat \<Rightarrow> LWTxOutput list \<Rightarrow> LWUTXO list" where
  "new_utxos w h k outs = map (\<lambda>(j, out). (h, of_nat j))
     (filter (\<lambda>(j, out). out_address out \<noteq> [] \<and> out_address out \<in> w_allAddrs w) (enumerate k outs))"

lemma add_outputs:
  assumes "w_allTx w h = Some tx" "drop k (tx_outputs tx) = outs" "length (tx_outputs tx) < 2 ^ 32" "k + length outs = length (tx_outputs tx)"
  shows "fold (add_output h) (enumerate k outs) (w, b) =
    (w\<lparr>w_utxos := w_utxos w @ new_utxos w h k outs,
       w_usedAddrs := w_usedAddrs w \<union> (out_address ` set outs - {[]})\<rparr>,
     b + sum_list (map (utxo_amount w) (new_utxos w h k outs)))"
  using assms
proof (induction outs arbitrary: w k b)
  case (Cons out outs)
  have k: "k < length (tx_outputs tx)" "tx_outputs tx ! k = out" "drop (Suc k) (tx_outputs tx) = outs"
    using Cons.prems(2,4) by (auto simp: nth_via_drop drop_Suc tl_drop [symmetric])
  have amount: "utxo_amount w (h, of_nat k) = out_amount out" if "w_allTx w h = Some tx" for w :: LWWallet
    using k Cons.prems(3) that by (simp add: utxo_amount_def unsigned_of_nat take_bit_nat_eq_self)
  let ?w = "w\<lparr>w_usedAddrs := insert (out_address out) (w_usedAddrs w)\<rparr>"
  have new: "new_utxos w1 h k' outs' = new_utxos w h k' outs'" "utxo_amount w1 = utxo_amount w"
    if "w_allAddrs w1 = w_allAddrs w" "w_allTx w1 = w_allTx w" for w1 k' outs'
    using that by (simp_all add: new_utxos_def utxo_amount_def fun_eq_iff)
  note IH = Cons.IH [OF _ k(3) Cons.prems(3)]
  consider "out_address out = []" | "out_address out \<noteq> []" "out_address out \<in> w_allAddrs w"
    | "out_address out \<noteq> []" "out_address out \<notin> w_allAddrs w" by blast
  then show ?case
  proof cases
    case 1
    then have "new_utxos w h k (out # outs) = new_utxos w h (Suc k) outs" by (simp add: new_utxos_def)
    then show ?thesis using 1 IH [of w b] Cons.prems(1,4) by (simp add: add_output_def)
  next
    case 2
    then have "new_utxos w h k (out # outs) = (h, of_nat k) # new_utxos w h (Suc k) outs" by (simp add: new_utxos_def)
    then show ?thesis
      using 2 IH [of "?w\<lparr>w_utxos := w_utxos w @ [(h, of_nat k)]\<rparr>" "b + out_amount out"] Cons.prems(1,4) amount [of w]
        new [of "?w\<lparr>w_utxos := w_utxos w @ [(h, of_nat k)]\<rparr>"]
      by (simp add: add_output_def insert_Diff_if add.assoc)
  next
    case 3
    then have "new_utxos w h k (out # outs) = new_utxos w h (Suc k) outs" by (simp add: new_utxos_def)
    then show ?thesis using 3 IH [of ?w b] Cons.prems(1,4) new [of ?w] by (simp add: add_output_def insert_Diff_if)
  qed
qed (simp add: new_utxos_def)

lemma rm_spent_filter:
  assumes "\<forall>u \<in> set us. \<exists>t. w_allTx w (fst u) = Some t \<and> unat (snd u) < length (tx_outputs t)"
  shows "rm_spent w us b = Some (filter (\<lambda>u. u \<notin> w_spentOutputs w) us,
    b - sum_list (map (utxo_amount w) (filter (\<lambda>u. u \<in> w_spentOutputs w) us)))"
  using assms
proof (induction us)
  case (Cons u us)
  then obtain t where "w_allTx w (fst u) = Some t" "unat (snd u) < length (tx_outputs t)" by auto
  then show ?case using Cons by (auto simp: utxo_amount_def algebra_simps)
qed simp

lemma sum_list_filters: "sum_list (map f xs) = sum_list (map f (filter P xs)) + sum_list (map f (filter (\<lambda>x. \<not> P x) xs))"
  for f :: "'a \<Rightarrow> 'b :: comm_monoid_add"
  by (induction xs) (auto simp: ac_simps)

lemma of_nat_u32_inj: "i < 2 ^ 32 \<Longrightarrow> j < 2 ^ 32 \<Longrightarrow> (of_nat i :: u32) = of_nat j \<Longrightarrow> i = j"
proof -
  assume b: "i < 2 ^ 32" "j < 2 ^ 32" and eq: "(of_nat i :: u32) = of_nat j"
  from b have "unat (of_nat i :: u32) = i" "unat (of_nat j :: u32) = j" by (simp_all add: unsigned_of_nat take_bit_nat_eq_self)
  then show "i = j" using eq by metis
qed

lemma set_new_utxos:
  assumes "w_allTx w h = Some tx"
  shows "set (new_utxos w h 0 (tx_outputs tx)) = owned w h"
proof -
  have "set (new_utxos w h 0 (tx_outputs tx)) = {(h, of_nat j) | j out. (j, out) \<in> set (enumerate 0 (tx_outputs tx)) \<and>
      out_address out \<noteq> [] \<and> out_address out \<in> w_allAddrs w}"
    by (auto simp: new_utxos_def)
  then show ?thesis using assms by (auto simp: owned_def in_set_enumerate_eq)
qed

lemma distinct_new_utxos:
  assumes "length outs < 2 ^ 32"
  shows "distinct (new_utxos w h 0 outs)"
proof -
  have "inj_on (\<lambda>(j, out). (h, of_nat j :: u32)) (set (enumerate 0 outs))"
  proof (rule inj_onI, clarify)
    fix j1 o1 j2 o2
    assume a: "(j1, o1) \<in> set (enumerate 0 outs)" "(j2, o2) \<in> set (enumerate 0 outs)" "(of_nat j1 :: u32) = of_nat j2"
    then have "j1 < 2 ^ 32" "j2 < 2 ^ 32" using assms by (auto simp: in_set_enumerate_eq)
    then have "j1 = j2" using a(3) by (rule of_nat_u32_inj)
    then show "j1 = j2 \<and> o1 = o2" using a by (auto simp: in_set_enumerate_eq)
  qed
  then show ?thesis unfolding new_utxos_def
    by (auto simp: distinct_map distinct_enumerate elim: inj_on_subset)
qed


lemma owned_valid:
  assumes "wallet_ok w" "u \<in> owned w h"
  shows "fst u = h" "\<exists>t. w_allTx w (fst u) = Some t \<and> unat (snd u) < length (tx_outputs t)"
proof -
  obtain j tx where u: "u = (h, of_nat j)" "w_allTx w h = Some tx" "j < length (tx_outputs tx)"
    using assms(2) by (auto simp: owned_def)
  then have "length (tx_outputs tx) < 2 ^ 32" using assms(1) by (auto simp: wallet_ok_def)
  then have "unat (of_nat j :: u32) = j" using u(3) by (simp add: unsigned_of_nat take_bit_nat_eq_self)
  then show "fst u = h" "\<exists>t. w_allTx w (fst u) = Some t \<and> unat (snd u) < length (tx_outputs t)" using u by auto
qed

text \<open>The counted transactions of a prefix, and the invariant of the loop.\<close>

definition counted :: "UInt256 list \<Rightarrow> LWWallet \<Rightarrow> UInt256 set" where
  "counted hs w = set hs - w_invalidTx w - w_pendingTx w"

definition balance_inv :: "LWWallet \<Rightarrow> UInt256 list \<Rightarrow> LWWallet \<times> u64 \<times> u64 \<Rightarrow> bool" where
  "balance_inv w0 hs = (\<lambda>(w, b, p). same_txs w0 w \<and> p = b \<and> b = sum_list (map (utxo_amount w0) (w_utxos w)) \<and>
     distinct (w_utxos w) \<and> w_totalReceived w - w_totalSent w = b \<and> length (w_balanceHist w) = length hs \<and>
     w_invalidTx w \<union> w_pendingTx w \<subseteq> set hs \<and>
     w_spentOutputs w = \<Union> (spent_by w0 ` (set hs - w_invalidTx w)) \<and>
     set (w_utxos w) \<subseteq> \<Union> (owned w0 ` counted hs w) - \<Union> (spent_by w0 ` counted hs w) \<and>
     \<Union> (owned w0 ` counted hs w) - w_spentOutputs w \<subseteq> set (w_utxos w))"

lemma owned_fst: "u \<in> owned w h \<Longrightarrow> fst u = h"
  by (auto simp: owned_def)

lemma owned_Union: "u \<in> \<Union> (owned w ` C) \<longleftrightarrow> fst u \<in> C \<and> u \<in> owned w (fst u)"
  using owned_fst by fastforce

lemma utxo_amount_cong: "w_allTx w = w_allTx w' \<Longrightarrow> utxo_amount w = utxo_amount w'"
  by (simp add: utxo_amount_def fun_eq_iff)

lemma balance_invD:
  assumes "balance_inv w0 hs (w, b, p)"
  shows "same_txs w0 w" "p = b" "b = sum_list (map (utxo_amount w0) (w_utxos w))" "distinct (w_utxos w)"
    "w_totalReceived w - w_totalSent w = b" "length (w_balanceHist w) = length hs"
    "w_invalidTx w \<union> w_pendingTx w \<subseteq> set hs" "w_spentOutputs w = \<Union> (spent_by w0 ` (set hs - w_invalidTx w))"
    "set (w_utxos w) \<subseteq> \<Union> (owned w0 ` counted hs w) - \<Union> (spent_by w0 ` counted hs w)"
    "\<Union> (owned w0 ` counted hs w) - w_spentOutputs w \<subseteq> set (w_utxos w)"
  using assms unfolding balance_inv_def prod.case by blast+

text \<open>A transaction that is set aside, because it is invalid or pending.\<close>

lemma balance_inv_invalid:
  assumes "balance_inv w0 hs (w, b, p)" "h \<notin> set hs"
  shows "balance_inv w0 (hs @ [h]) (w\<lparr>w_invalidTx := insert h (w_invalidTx w), w_balanceHist := w_balanceHist w @ [b]\<rparr>, b, p)"
proof -
  let ?w = "w\<lparr>w_invalidTx := insert h (w_invalidTx w), w_balanceHist := w_balanceHist w @ [b]\<rparr>"
  have c: "counted (hs @ [h]) ?w = counted hs w" "set (hs @ [h]) - w_invalidTx ?w = set hs - w_invalidTx w"
    using assms(2) by (auto simp: counted_def)
  show ?thesis
    unfolding balance_inv_def prod.case c using balance_invD [OF assms(1)] by (auto simp: same_txs_def)
qed

lemma balance_inv_pending:
  assumes "balance_inv w0 hs (w, b, p)" "h \<notin> set hs"
  shows "balance_inv w0 (hs @ [h]) (w\<lparr>w_spentOutputs := w_spentOutputs w \<union> spent_by w0 h,
      w_pendingTx := insert h (w_pendingTx w), w_balanceHist := w_balanceHist w @ [b]\<rparr>, b, p)"
proof -
  note inv = balance_invD [OF assms(1)]
  let ?w = "w\<lparr>w_spentOutputs := w_spentOutputs w \<union> spent_by w0 h, w_pendingTx := insert h (w_pendingTx w),
      w_balanceHist := w_balanceHist w @ [b]\<rparr>"
  have c: "counted (hs @ [h]) ?w = counted hs w" using assms(2) by (auto simp: counted_def)
  have s: "w_spentOutputs ?w = \<Union> (spent_by w0 ` (set (hs @ [h]) - w_invalidTx ?w))"
    using inv(7,8) assms(2) by (auto simp: insert_Diff_if)
  have "w_spentOutputs w \<subseteq> w_spentOutputs ?w" by simp
  then have "\<Union> (owned w0 ` counted hs w) - w_spentOutputs ?w \<subseteq> set (w_utxos ?w)" using inv(10) by auto
  then show ?thesis
    unfolding balance_inv_def prod.case c using s inv(1-7,9) by (simp add: same_txs_def) blast
qed

text \<open>A transaction that counts: \<open>w2\<close> is the wallet with its outputs, but the spent ones.\<close>

lemma balance_inv_counted:
  assumes ok: "wallet_ok w0" and inv: "balance_inv w0 hs (w, b, p)" and h: "h \<notin> set hs" "w_allTx w0 h = Some tx"
    and keep: "keep = filter (\<lambda>u. u \<notin> w_spentOutputs w \<union> spent_by w0 h) (w_utxos w @ new_utxos w0 h 0 (tx_outputs tx))"
    and w2: "same_txs w0 w2" "w_utxos w2 = keep" "w_invalidTx w2 = w_invalidTx w" "w_pendingTx w2 = w_pendingTx w"
      "w_spentOutputs w2 = w_spentOutputs w \<union> spent_by w0 h" "length (w_balanceHist w2) = Suc (length (w_balanceHist w))"
      "w_totalReceived w2 - w_totalSent w2 = b'" and b': "b' = sum_list (map (utxo_amount w0) keep)"
  shows "balance_inv w0 (hs @ [h]) (w2, b', b')"
proof -
  note I = balance_invD [OF inv]
  have fresh: "h \<notin> w_invalidTx w" "h \<notin> w_pendingTx w" using I(7) h(1) by auto
  have len: "length (tx_outputs tx) < 2 ^ 32" using ok h(2) by (auto simp: wallet_ok_def)
  note new = set_new_utxos [OF h(2)] distinct_new_utxos [OF len]
  have "fst u \<in> counted hs w" if "u \<in> set (w_utxos w)" for u
    using that I(9) owned_Union [of u w0 "counted hs w"] by blast
  then have "set (w_utxos w) \<inter> owned w0 h = {}" using h(1) owned_fst by (fastforce simp: counted_def)
  then have "distinct (w_utxos w @ new_utxos w0 h 0 (tx_outputs tx))" using I(4) new by simp
  then have dist: "distinct keep" unfolding keep by (rule distinct_filter)
  have c: "counted (hs @ [h]) w2 = insert h (counted hs w)" using fresh w2 by (auto simp: counted_def)
  have s: "w_spentOutputs w2 = \<Union> (spent_by w0 ` (set (hs @ [h]) - w_invalidTx w2))"
    using I(8) fresh w2 by (auto simp: insert_Diff_if)
  then have cs: "\<Union> (spent_by w0 ` insert h (counted hs w)) \<subseteq> w_spentOutputs w2"
    using fresh w2 by (auto simp: counted_def)
  have k: "set keep = (set (w_utxos w) \<union> owned w0 h) - w_spentOutputs w2" by (auto simp: keep new w2)
  have up: "set keep \<subseteq> \<Union> (owned w0 ` insert h (counted hs w)) - \<Union> (spent_by w0 ` insert h (counted hs w))"
  proof -
    have "set (w_utxos w) \<subseteq> \<Union> (owned w0 ` counted hs w)" using I(9) Diff_subset by (rule order_trans)
    then have "set (w_utxos w) \<union> owned w0 h \<subseteq> \<Union> (owned w0 ` insert h (counted hs w))"
      unfolding UN_insert by (simp only: Un_least le_supI2 Un_upper1)
    then show ?thesis unfolding k using cs by (rule Diff_mono)
  qed
  have low: "\<Union> (owned w0 ` insert h (counted hs w)) - w_spentOutputs w2 \<subseteq> set keep"
    unfolding k using I(10) by (auto simp: w2)
  have sub: "w_invalidTx w2 \<union> w_pendingTx w2 \<subseteq> set (hs @ [h])" using I(7) w2 by auto
  have hist: "length (w_balanceHist w2) = length (hs @ [h])" using I(6) w2 by simp
  show ?thesis
    unfolding balance_inv_def prod.case c w2(2)
    by (intro conjI) (fact w2(1) refl b' dist w2(7) hist sub s up low)+
qed

lemma balance_inv_step:
  assumes ok: "wallet_ok w0" and inv: "balance_inv w0 hs (w, b, p)" and h: "h \<notin> set hs" "w_allTx w0 h = Some tx"
  shows "\<exists>st. balance_step now h (w, b, p) = Some st \<and> balance_inv w0 (hs @ [h]) st"
proof -
  note I = balance_invD [OF inv]
  have tx: "w_allTx w h = Some tx" using I(1) h by (simp add: same_txs_def)
  have hash: "tx_hash tx = h" "length (tx_outputs tx) < 2 ^ 32" using ok h(2) by (auto simp: wallet_ok_def)
  have sb: "outpoint ` set (tx_inputs tx) = spent_by w0 h" using h(2) by (simp add: spent_by_def)
  let ?w = "w\<lparr>w_spentOutputs := w_spentOutputs w \<union> spent_by w0 h\<rparr>"
  consider "tx_blockHeight tx = TX_UNCONFIRMED \<and> conflicts w tx"
    | "\<not> (tx_blockHeight tx = TX_UNCONFIRMED \<and> conflicts w tx)" "tx_blockHeight tx = TX_UNCONFIRMED \<and> postponed now ?w tx"
    | (counts) "\<not> (tx_blockHeight tx = TX_UNCONFIRMED \<and> conflicts w tx)" "\<not> (tx_blockHeight tx = TX_UNCONFIRMED \<and> postponed now ?w tx)"
    by blast
  then show ?thesis
  proof cases
    case 1
    then show ?thesis using tx balance_inv_invalid [OF inv h(1)] by (simp add: balance_step_def)
  next
    case 2
    then show ?thesis using tx balance_inv_pending [OF inv h(1)] by (simp add: balance_step_def sb)
  next
    case counts
    define new where "new = new_utxos w0 h 0 (tx_outputs tx)"
    define all where "all = w_utxos w @ new"
    define keep where "keep = filter (\<lambda>u. u \<notin> w_spentOutputs w \<union> spent_by w0 h) all"
    define b' where "b' = sum_list (map (utxo_amount w0) keep)"
    let ?w1 = "?w\<lparr>w_utxos := all, w_usedAddrs := w_usedAddrs w \<union> (out_address ` set (tx_outputs tx) - {[]})\<rparr>"
    have e: "new_utxos ?w h 0 (tx_outputs tx) = new" "utxo_amount ?w = utxo_amount w0" "utxo_amount ?w1 = utxo_amount w0"
      using I(1) by (auto simp: new_def new_utxos_def same_txs_def intro!: utxo_amount_cong)
    have add: "fold (add_output (tx_hash tx)) (enumerate 0 (tx_outputs tx)) (?w, b) = (?w1, b + sum_list (map (utxo_amount w0) new))"
      using add_outputs [of ?w h tx 0 "tx_outputs tx" b] tx hash e by (simp add: all_def)
    have "u \<in> owned w0 (fst u)" if "u \<in> set all" for u
    proof -
      have "u \<in> set (w_utxos w) \<or> u \<in> owned w0 h" using that set_new_utxos [OF h(2)] by (auto simp: all_def new_def)
      then show ?thesis
      proof
        assume "u \<in> set (w_utxos w)"
        then show ?thesis using I(9) owned_Union [of u w0 "counted hs w"] by blast
      qed (simp add: owned_fst)
    qed
    then have "\<forall>u \<in> set all. \<exists>t. w_allTx ?w1 (fst u) = Some t \<and> unat (snd u) < length (tx_outputs t)"
      using owned_valid(2) [OF ok] I(1) unfolding same_txs_def by (simp, blast)
    then have rm: "rm_spent ?w1 all bb = Some (keep, bb - sum_list (map (utxo_amount w0) (filter (\<lambda>u. u \<in> w_spentOutputs w \<union> spent_by w0 h) all)))" for bb
      using rm_spent_filter [of all ?w1 bb] e(3) by (simp add: keep_def)
    have bal: "b + sum_list (map (utxo_amount w0) new) - sum_list (map (utxo_amount w0) (filter (\<lambda>u. u \<in> w_spentOutputs w \<union> spent_by w0 h) all)) = b'"
      using sum_list_filters [of "utxo_amount w0" all "\<lambda>u. u \<in> w_spentOutputs w \<union> spent_by w0 h"]
      by (simp add: b'_def keep_def I(3) all_def algebra_simps)
    define w2 where "w2 = ?w1\<lparr>w_utxos := keep\<rparr>"
    define w3 where "w3 = (if p < b' then w2\<lparr>w_totalReceived := w_totalReceived w2 + (b' - p)\<rparr> else w2)"
    define w4 where "w4 = (if b' < p then w3\<lparr>w_totalSent := w_totalSent w3 + (p - b')\<rparr> else w3)"
    let ?w5 = "w4\<lparr>w_balanceHist := w_balanceHist w4 @ [b']\<rparr>"
    have "balance_step now h (w, b, p) = Some (?w5, b', b')"
      unfolding balance_step_def prod.case tx Option.bind.bind_lunit set_map sb Let_def if_not_P [OF counts(1)] if_not_P [OF counts(2)]
      using add rm bal by (simp add: w4_def w3_def w2_def)
    moreover have "balance_inv w0 (hs @ [h]) (?w5, b', b')"
      by (rule balance_inv_counted [OF ok inv h, of keep]; use I(1,2,5) in \<open>auto simp: w4_def w3_def w2_def same_txs_def
          keep_def all_def new_def b'_def algebra_simps\<close>)
    ultimately show ?thesis by blast
  qed
qed

lemma balance_fold:
  "wallet_ok w0 \<Longrightarrow> balance_inv w0 hs st \<Longrightarrow> distinct (hs @ hs') \<Longrightarrow> set hs' \<subseteq> dom (w_allTx w0) \<Longrightarrow>
   \<exists>st'. fold_m (balance_step now) hs' st = Some st' \<and> balance_inv w0 (hs @ hs') st'"
proof (induction hs' arbitrary: hs st)
  case (Cons h hs')
  obtain w b p where st: "st = (w, b, p)" by (cases st)
  obtain tx where "w_allTx w0 h = Some tx" using Cons.prems(4) by auto
  then obtain st1 where st1: "balance_step now h st = Some st1" "balance_inv w0 (hs @ [h]) st1"
    using balance_inv_step [OF Cons.prems(1) Cons.prems(2) [unfolded st], of h tx now] Cons.prems(3) by (auto simp: st)
  then show ?case using Cons.IH [OF Cons.prems(1) st1(2)] Cons.prems(3,4) by auto
qed simp

lemma updateBalance_spec:
  assumes "wallet_ok w"
  shows "\<exists>w'. updateBalance now w = Some w' \<and> same_txs w w' \<and>
    (let counted = counted (w_transactions w) w' in
     distinct (w_utxos w') \<and>
     set (w_utxos w') \<subseteq> \<Union> (owned w ` counted) - \<Union> (spent_by w ` counted) \<and>
     \<Union> (owned w ` counted) - w_spentOutputs w' \<subseteq> set (w_utxos w') \<and>
     w_spentOutputs w' = \<Union> (spent_by w ` (set (w_transactions w) - w_invalidTx w')) \<and>
     w_balance w' = sum_list (map (utxo_amount w) (w_utxos w')) \<and>
     w_totalReceived w' - w_totalSent w' = w_balance w' \<and>
     length (w_balanceHist w') = length (w_transactions w))"
proof -
  let ?w0 = "w\<lparr>w_utxos := [], w_balanceHist := [], w_spentOutputs := {}, w_invalidTx := {}, w_pendingTx := {},
     w_usedAddrs := {}, w_totalSent := 0, w_totalReceived := 0\<rparr>"
  have "balance_inv w [] (?w0, 0, 0)" by (simp add: balance_inv_def same_txs_def counted_def)
  then obtain w' b p where f: "fold_m (balance_step now) (w_transactions w) (?w0, 0, 0) = Some (w', b, p)"
    "balance_inv w (w_transactions w) (w', b, p)"
    using balance_fold [of w "[]" "(?w0, 0, 0)" "w_transactions w" now] assms by (auto simp: wallet_ok_def)
  have "updateBalance now w = Some (w'\<lparr>w_balance := b\<rparr>)" using f(1) by (simp add: updateBalance_def)
  then show ?thesis using balance_invD [OF f(2)] by (simp add: same_txs_def counted_def Let_def)
qed

text \<open>
  C3. Computing the balance of a wallet always succeeds. Its unspent outputs are distinct outputs
  to its own addresses, of transactions that are neither invalid nor pending, that no such
  transaction spends; every such output that nothing spends is among them. The balance is the sum of
  their amounts, and the difference of the totals received and sent; the history has one balance
  per transaction.
\<close>

theorem updateBalance_correct:
  assumes "wallet_ok w"
  shows "\<exists>w'. updateBalance now w = Some w' \<and> same_txs w w' \<and>
    (let counted = counted (w_transactions w) w' in
     distinct (w_utxos w') \<and>
     set (w_utxos w') \<subseteq> \<Union> (owned w ` counted) - \<Union> (spent_by w ` counted) \<and>
     \<Union> (owned w ` counted) - w_spentOutputs w' \<subseteq> set (w_utxos w') \<and>
     w_spentOutputs w' = \<Union> (spent_by w ` (set (w_transactions w) - w_invalidTx w')) \<and>
     w_balance w' = sum_list (map (utxo_amount w) (w_utxos w')) \<and>
     w_totalReceived w' - w_totalSent w' = w_balance w' \<and>
     length (w_balanceHist w') = length (w_transactions w))"
  using assms by (rule updateBalance_spec)

text \<open>An example: a transaction that pays the wallet, and one that spends it and signals replacement.\<close>

definition example_wallet :: LWWallet where
  "example_wallet =
     (let paid = \<lparr>tx_hash = replicate 32 1, tx_version = 1, tx_inputs = [], tx_outputs = [\<lparr>out_address = ''a'', out_amount = 5000,
             out_script = None\<rparr>], tx_lockTime = 0, tx_blockHeight = 7, tx_timestamp = 1\<rparr>;
          spending = \<lparr>tx_hash = replicate 32 2, tx_version = 1, tx_inputs = [\<lparr>in_hash = replicate 32 1, in_index = 0,
             in_address = ''a'', in_amount = 5000, in_script = None, in_signature = Some [0], in_sequence = 0\<rparr>], tx_outputs = [],
             tx_lockTime = 0, tx_blockHeight = TX_UNCONFIRMED, tx_timestamp = 1\<rparr>
      in \<lparr>w_balance = 0, w_totalSent = 0, w_totalReceived = 0, w_feePerKb = 0, w_balanceHist = [], w_blockHeight = 8,
          w_utxos = [], w_transactions = [tx_hash paid, tx_hash spending], w_masterPubKey = LW_MASTER_PUBKEY_NONE,
          w_internalChain = [], w_externalChain = [''a''],
          w_allTx = [tx_hash paid \<mapsto> paid, tx_hash spending \<mapsto> spending], w_invalidTx = {}, w_pendingTx = {},
          w_spentOutputs = {}, w_usedAddrs = {}, w_allAddrs = {''a''}\<rparr>)"

lemma example_ok: "wallet_ok example_wallet"
  by (auto simp: wallet_ok_def example_wallet_def replicate_eq_replicate split: if_splits)

theorem updateBalance_correct_witness: "\<exists>w'. updateBalance 0 example_wallet = Some w' \<and> same_txs example_wallet w'"
  using updateBalance_correct [OF example_ok, of 0] by blast

text \<open>
  An output that a pending transaction spends is taken out of the unspent outputs only when a
  later transaction is counted: when the pending one is the last, the balance still contains what
  it spends, and the output is offered for spending again.
\<close>

theorem pending_spend_still_counted:
  "case updateBalance 0 example_wallet of None \<Rightarrow> False
   | Some w \<Rightarrow> w_balance w = 5000 \<and> w_utxos w = [(replicate 32 1, 0)] \<and> (replicate 32 1, 0) \<in> w_spentOutputs w"
  by (simp add: updateBalance_def example_wallet_def balance_step_def conflicts_def postponed_def input_locked_def
      has_dust_def add_output_def outpoint_def TX_UNCONFIRMED_def UINT32_MAX_def Let_def replicate_eq_replicate)

end
