(* ===== verification/LW_Registry.thy ===== *)
theory LW_Registry
  imports LW_Wallet
begin

text \<open>
  Model of \<^verbatim>\<open>LWWallet.c\<close>, second part: the address chains, the creation of a wallet, what it says of a
  transaction, and the operations that register, remove and update transactions. Operations that
  call back return the calls in their order.
\<close>

subsection \<open>Address chains\<close>

text \<open>
  The address at a position of a chain: \<open>Some None\<close> when none can be derived, \<open>None\<close> when the
  master public key is missing (an assertion).
\<close>

definition derive_address :: "('p, 's, 'r) env \<Rightarrow> LWMasterPubKey \<Rightarrow> u32 \<Rightarrow> nat \<Rightarrow> string option option" where
  "derive_address env mpk chain pos = do {
     pk \<leftarrow> LWBIP32PubKey (env_ec env) (Some 33) mpk chain (of_nat pos);
     Some (let (ok, key) = LWKeySetPubKey (env_ec env) (the_bytes pk) in
       if \<not> ok then None
       else (case fst (LWKeyAddress (env_ec env) (env_testnet env) (Some 75) key) of
               None \<Rightarrow> None | Some address \<Rightarrow> if LWAddressEq address [] then None else Some address)) }"

text \<open>The loop; \<open>i\<close> is the position behind the last used address.\<close>

partial_function (option) addr_loop ::
    "(nat \<Rightarrow> string option option) \<Rightarrow> string set \<Rightarrow> nat \<Rightarrow> nat \<Rightarrow> string list \<Rightarrow> (nat \<times> string list) option" where
  "addr_loop derive used gapLimit i chain =
     (if i + gapLimit > length chain then do {
        a \<leftarrow> derive (length chain);
        (case a of None \<Rightarrow> Some (i, chain)
         | Some address \<Rightarrow>
             addr_loop derive used gapLimit (if address \<in> used then length chain + 1 else i) (chain @ [address])) }
      else Some (i, chain))"

text \<open>The addresses returned are written when \<open>addrs\<close> is not NULL.\<close>

definition LWWalletUnusedAddrs ::
    "('p, 's, 'r) env \<Rightarrow> bool \<Rightarrow> u32 \<Rightarrow> bool \<Rightarrow> LWWallet \<Rightarrow> (string list \<times> LWWallet) option" where
  "LWWalletUnusedAddrs env addrs gapLimit internal w =
     (if gapLimit = 0 then None
      else do {
        let addrChain = (if internal then w_internalChain w else w_externalChain w);
            chain = (if internal then SEQUENCE_INTERNAL_CHAIN else SEQUENCE_EXTERNAL_CHAIN);
            startCount = length addrChain;
            i = length (dropWhile (\<lambda>a. a \<notin> w_usedAddrs w) (rev addrChain)) in do {
        (i, addrChain) \<leftarrow> addr_loop (derive_address env (w_masterPubKey w) chain) (w_usedAddrs w) (unat gapLimit) i addrChain;
        let out = (if addrs \<and> i + unat gapLimit \<le> length addrChain then take (unat gapLimit) (drop i addrChain) else []);
            w = (if internal then w\<lparr>w_internalChain := addrChain\<rparr> else w\<lparr>w_externalChain := addrChain\<rparr>);
            allAddrs = (if \<not> env_moved env addrChain then w_allAddrs w \<union> set (drop startCount addrChain)
                        else set (w_internalChain w) \<union> set (w_externalChain w))
        in Some (out, w\<lparr>w_allAddrs := allAddrs\<rparr>) } })"

definition LWWalletReceiveAddress :: "('p, 's, 'r) env \<Rightarrow> LWWallet \<Rightarrow> (string \<times> LWWallet) option" where
  "LWWalletReceiveAddress env w = do {
     (as, w) \<leftarrow> LWWalletUnusedAddrs env True 1 False w; Some (case as of [] \<Rightarrow> [] | a # _ \<Rightarrow> a, w) }"

text \<open>At most \<open>addrsCount\<close> addresses, all of them for NULL (\<open>None\<close>).\<close>

definition LWWalletAllAddrs :: "nat option \<Rightarrow> LWWallet \<Rightarrow> string list" where
  "LWWalletAllAddrs addrsCount w =
     (case addrsCount of None \<Rightarrow> w_internalChain w @ w_externalChain w
      | Some n \<Rightarrow>
          let internalCount = (if length (w_internalChain w) < n then length (w_internalChain w) else n);
              externalCount = (if length (w_externalChain w) < n - internalCount then length (w_externalChain w)
                               else n - internalCount)
          in take internalCount (w_internalChain w) @ take externalCount (w_externalChain w))"

definition LWWalletContainsAddress :: "LWWallet \<Rightarrow> string \<Rightarrow> bool" where
  "LWWalletContainsAddress w addr \<longleftrightarrow> addr \<in> w_allAddrs w"

definition LWWalletAddressIsUsed :: "LWWallet \<Rightarrow> string \<Rightarrow> bool" where
  "LWWalletAddressIsUsed w addr \<longleftrightarrow> addr \<in> w_usedAddrs w"

subsection \<open>Creating a wallet\<close>

text \<open>A transaction of the array that is signed and not there yet is added.\<close>

definition new_tx :: "LWTransaction \<Rightarrow> LWWallet \<Rightarrow> LWWallet option" where
  "new_tx tx w =
     (if \<not> LWTransactionIsSigned tx \<or> w_allTx w (tx_hash tx) \<noteq> None then Some w
      else do {
        w \<leftarrow> insertTx tx (w\<lparr>w_allTx := (w_allTx w)(tx_hash tx \<mapsto> tx)\<rparr>);
        Some (w\<lparr>w_usedAddrs := w_usedAddrs w \<union> (out_address ` set (tx_outputs tx) - {[]})\<rparr>) })"

definition empty_wallet :: "LWMasterPubKey \<Rightarrow> LWWallet" where
  "empty_wallet mpk = \<lparr>w_balance = 0, w_totalSent = 0, w_totalReceived = 0, w_feePerKb = DEFAULT_FEE_PER_KB,
     w_balanceHist = [], w_blockHeight = 0, w_utxos = [], w_transactions = [], w_masterPubKey = mpk,
     w_internalChain = [], w_externalChain = [], w_allTx = Map.empty, w_invalidTx = {}, w_pendingTx = {},
     w_spentOutputs = {}, w_usedAddrs = {}, w_allAddrs = {}\<rparr>"

definition LWWalletNew :: "('p, 's, 'r) env \<Rightarrow> LWTransaction list \<Rightarrow> LWMasterPubKey \<Rightarrow> LWWallet option option" where
  "LWWalletNew env transactions mpk = do {
     w \<leftarrow> fold_m new_tx transactions (empty_wallet mpk);
     (as, w) \<leftarrow> LWWalletUnusedAddrs env False SEQUENCE_GAP_LIMIT_EXTERNAL False w;
     (as, w) \<leftarrow> LWWalletUnusedAddrs env False SEQUENCE_GAP_LIMIT_INTERNAL True w;
     w \<leftarrow> updateBalance (env_now env) w;
     Some (if transactions \<noteq> [] \<and> \<not> containsTx w (hd transactions) then None else Some w) }"

subsection \<open>What a wallet holds\<close>

definition LWWalletBalance :: "LWWallet \<Rightarrow> u64" where "LWWalletBalance w = w_balance w"
definition LWWalletTotalSent :: "LWWallet \<Rightarrow> u64" where "LWWalletTotalSent w = w_totalSent w"
definition LWWalletTotalReceived :: "LWWallet \<Rightarrow> u64" where "LWWalletTotalReceived w = w_totalReceived w"
definition LWWalletFeePerKb :: "LWWallet \<Rightarrow> u64" where "LWWalletFeePerKb w = w_feePerKb w"

definition LWWalletSetFeePerKb :: "u64 \<Rightarrow> LWWallet \<Rightarrow> LWWallet" where
  "LWWalletSetFeePerKb feePerKb w = w\<lparr>w_feePerKb := feePerKb\<rparr>"

text \<open>Into an array of \<open>n\<close> elements, or the number there is for NULL: all of them.\<close>

definition at_most :: "nat option \<Rightarrow> 'a list \<Rightarrow> 'a list" where
  "at_most n xs = (case n of None \<Rightarrow> xs | Some n \<Rightarrow> if length xs < n then xs else take n xs)"

definition LWWalletUTXOs :: "nat option \<Rightarrow> LWWallet \<Rightarrow> LWUTXO list" where
  "LWWalletUTXOs n w = at_most n (w_utxos w)"

definition LWWalletTransactions :: "nat option \<Rightarrow> LWWallet \<Rightarrow> UInt256 list" where
  "LWWalletTransactions n w = at_most n (w_transactions w)"

text \<open>The trailing transactions that satisfy a condition on their height.\<close>

fun trailing :: "LWWallet \<Rightarrow> (u32 \<Rightarrow> bool) \<Rightarrow> UInt256 list \<Rightarrow> nat option" where
  "trailing w P [] = Some 0"
| "trailing w P (h # hs) = do {
     t \<leftarrow> w_allTx w h;
     if P (tx_blockHeight t) then do { n \<leftarrow> trailing w P hs; Some (n + 1) } else Some 0 }"

definition LWWalletTxUnconfirmedBefore :: "nat option \<Rightarrow> u32 \<Rightarrow> LWWallet \<Rightarrow> UInt256 list option" where
  "LWWalletTxUnconfirmedBefore txCount blockHeight w = do {
     n \<leftarrow> trailing w (\<lambda>h. h \<ge> blockHeight) (rev (w_transactions w));
     Some (at_most txCount (drop (length (w_transactions w) - n) (w_transactions w))) }"

definition LWWalletContainsTransaction :: "LWTransaction \<Rightarrow> LWWallet \<Rightarrow> bool" where
  "LWWalletContainsTransaction tx w = containsTx w tx"

definition LWWalletTransactionForHash :: "UInt256 \<Rightarrow> LWWallet \<Rightarrow> LWTransaction option option" where
  "LWWalletTransactionForHash txHash w = (if UInt256IsZero txHash then None else Some (w_allTx w txHash))"

definition LWWalletAmountReceivedFromTx :: "LWTransaction \<Rightarrow> LWWallet \<Rightarrow> u64" where
  "LWWalletAmountReceivedFromTx tx w =
     sum_list (map out_amount (filter (\<lambda>out. out_address out \<in> w_allAddrs w) (tx_outputs tx)))"

definition LWWalletAmountSentByTx :: "LWTransaction \<Rightarrow> LWWallet \<Rightarrow> u64" where
  "LWWalletAmountSentByTx tx w =
     sum_list (map (\<lambda>i. case wallet_output w (in_hash i) (in_index i) of None \<Rightarrow> 0 | Some out \<Rightarrow> out_amount out) (tx_inputs tx))"

fun fee_inputs :: "LWWallet \<Rightarrow> LWTxInput list \<Rightarrow> u64 \<Rightarrow> u64" where
  "fee_inputs w [] amount = amount"
| "fee_inputs w (i # is) amount =
     (if amount = UINT64_MAX then amount
      else fee_inputs w is
        (case w_allTx w (in_hash i) of
           Some t \<Rightarrow> if unat (in_index i) < length (tx_outputs t)
                     then amount + out_amount (tx_outputs t ! unat (in_index i)) else UINT64_MAX
         | None \<Rightarrow> UINT64_MAX))"

fun fee_outputs :: "LWTxOutput list \<Rightarrow> u64 \<Rightarrow> u64" where
  "fee_outputs [] amount = amount"
| "fee_outputs (out # outs) amount =
     (if amount = UINT64_MAX then amount else fee_outputs outs (amount - out_amount out))"

definition LWWalletFeeForTx :: "LWTransaction \<Rightarrow> LWWallet \<Rightarrow> u64" where
  "LWWalletFeeForTx tx w = fee_outputs (tx_outputs tx) (fee_inputs w (tx_inputs tx) 0)"

definition LWWalletBalanceAfterTx :: "LWTransaction \<Rightarrow> LWWallet \<Rightarrow> u64 option" where
  "LWWalletBalanceAfterTx tx w =
     (if \<not> LWTransactionIsSigned tx then None
      else (case find (\<lambda>i. UInt256Eq (tx_hash tx) (w_transactions w ! i)) (rev [0..<length (w_transactions w)]) of
              None \<Rightarrow> Some (w_balance w) | Some i \<Rightarrow> deref (w_balanceHist w) i))"

partial_function (option) LWWalletTransactionIsValid :: "LWTransaction \<Rightarrow> LWWallet \<Rightarrow> bool option" where
  "LWWalletTransactionIsValid tx w =
     (if \<not> LWTransactionIsSigned tx then None
      else if tx_blockHeight tx = TX_UNCONFIRMED then
        (let r = (if w_allTx w (tx_hash tx) = None then \<not> list_ex (\<lambda>i. outpoint i \<in> w_spentOutputs w) (tx_inputs tx)
                  else tx_hash tx \<notin> w_invalidTx w) in
         if \<not> r then Some False
         else do {
           bad \<leftarrow> any_m (\<lambda>i. do {
             t \<leftarrow> LWWalletTransactionForHash (in_hash i) w;
             (case t of None \<Rightarrow> Some False | Some t \<Rightarrow> do { v \<leftarrow> LWWalletTransactionIsValid t w; Some (\<not> v) }) }) (tx_inputs tx);
           Some (\<not> bad) })
      else Some True)"

partial_function (option) LWWalletTransactionIsPending :: "int \<Rightarrow> LWTransaction \<Rightarrow> LWWallet \<Rightarrow> bool option" where
  "LWWalletTransactionIsPending now tx w =
     (if \<not> LWTransactionIsSigned tx then None
      else if tx_blockHeight tx = TX_UNCONFIRMED then
        (if LWTransactionSize tx > TX_MAX_SIZE \<or> list_ex (input_locked now (w_blockHeight w) tx) (tx_inputs tx) \<or> has_dust tx
         then Some True
         else any_m (\<lambda>i. do {
           t \<leftarrow> LWWalletTransactionForHash (in_hash i) w;
           (case t of None \<Rightarrow> Some False | Some t \<Rightarrow> LWWalletTransactionIsPending now t w) }) (tx_inputs tx))
      else Some False)"

partial_function (option) LWWalletTransactionIsVerified :: "int \<Rightarrow> LWTransaction \<Rightarrow> LWWallet \<Rightarrow> bool option" where
  "LWWalletTransactionIsVerified now tx w =
     (if \<not> LWTransactionIsSigned tx then None
      else if tx_blockHeight tx = TX_UNCONFIRMED then
        (if tx_timestamp tx = 0 then Some False
         else do {
           valid \<leftarrow> LWWalletTransactionIsValid tx w;
           if \<not> valid then Some False
           else do {
             pending \<leftarrow> LWWalletTransactionIsPending now tx w;
             if pending then Some False
             else do {
               bad \<leftarrow> any_m (\<lambda>i. do {
                 t \<leftarrow> LWWalletTransactionForHash (in_hash i) w;
                 (case t of None \<Rightarrow> Some False | Some t \<Rightarrow> do { v \<leftarrow> LWWalletTransactionIsVerified now t w; Some (\<not> v) }) }) (tx_inputs tx);
               Some (\<not> bad) } } })
      else Some True)"

subsection \<open>Registering, removing and updating\<close>

text \<open>The result is whether the transaction is the wallet's, the wallet, and the calls of the callbacks.\<close>

definition LWWalletRegisterTransaction ::
    "('p, 's, 'r) env \<Rightarrow> LWTransaction \<Rightarrow> LWWallet \<Rightarrow> (bool \<times> LWWallet \<times> wallet_event list) option" where
  "LWWalletRegisterTransaction env tx w =
     (if \<not> LWTransactionIsSigned tx then None
      else if w_allTx w (tx_hash tx) \<noteq> None then Some (True, w, [])
      else if containsTx w tx then do {
        w \<leftarrow> insertTx tx (w\<lparr>w_allTx := (w_allTx w)(tx_hash tx \<mapsto> tx)\<rparr>);
        w \<leftarrow> updateBalance (env_now env) w;
        (as, w) \<leftarrow> LWWalletUnusedAddrs env False SEQUENCE_GAP_LIMIT_EXTERNAL False w;
        (as, w) \<leftarrow> LWWalletUnusedAddrs env False SEQUENCE_GAP_LIMIT_INTERNAL True w;
        Some (True, w, [BalanceChanged (w_balance w), TxAdded (tx_hash tx)]) }
      else Some (False, if tx_blockHeight tx = TX_UNCONFIRMED then w\<lparr>w_allTx := (w_allTx w)(tx_hash tx \<mapsto> tx)\<rparr> else w, []))"

text \<open>The transactions at the end of the array that spend an output of \<open>tx\<close>, from the last one.\<close>

fun dependents :: "LWWallet \<Rightarrow> LWTransaction \<Rightarrow> UInt256 list \<Rightarrow> UInt256 list option" where
  "dependents w tx [] = Some []"
| "dependents w tx (h # hs) = do {
     t \<leftarrow> w_allTx w h;
     if tx_blockHeight t < tx_blockHeight tx then Some []
     else do {
       rest \<leftarrow> dependents w tx hs;
       Some (if \<not> LWTransactionEq tx t \<and> spends t (tx_hash tx) then tx_hash t # rest else rest) } }"

text \<open>The search from the end for the element to remove.\<close>

fun remove_back :: "LWWallet \<Rightarrow> UInt256 \<Rightarrow> UInt256 list \<Rightarrow> UInt256 list option" where
  "remove_back w txHash [] = Some []"
| "remove_back w txHash (h # hs) = do {
     t \<leftarrow> w_allTx w h;
     if UInt256Eq (tx_hash t) txHash then Some hs else do { hs' \<leftarrow> remove_back w txHash hs; Some (h # hs') } }"

definition removeTx :: "UInt256 \<Rightarrow> LWWallet \<Rightarrow> LWWallet option" where
  "removeTx txHash w = do {
     hs \<leftarrow> remove_back w txHash (rev (w_transactions w)); Some (w\<lparr>w_transactions := rev hs\<rparr>) }"

text \<open>After the removal: is the user told, and is a rescan recommended.\<close>

definition notify :: "LWTransaction \<Rightarrow> LWWallet \<Rightarrow> (bool \<times> bool) option" where
  "notify tx w =
     (if LWWalletAmountSentByTx tx w > 0 then do {
        valid \<leftarrow> LWWalletTransactionIsValid tx w;
        if valid then do {
          unconfirmed \<leftarrow> any_m (\<lambda>i. do {
            t \<leftarrow> LWWalletTransactionForHash (in_hash i) w;
            Some (case t of None \<Rightarrow> True | Some t \<Rightarrow> tx_blockHeight t = TX_UNCONFIRMED) }) (tx_inputs tx);
          Some (True, \<not> unconfirmed) }
        else Some (False, False) }
      else Some (False, False))"

partial_function (option) LWWalletRemoveTransaction ::
    "int \<Rightarrow> UInt256 \<Rightarrow> LWWallet \<times> wallet_event list \<Rightarrow> (LWWallet \<times> wallet_event list) option" where
  "LWWalletRemoveTransaction now txHash st =
     (let w = fst st in
      if UInt256IsZero txHash then None
      else
        (case w_allTx w txHash of None \<Rightarrow> Some st
         | Some tx \<Rightarrow> do {
             hashes \<leftarrow> dependents w tx (rev (w_transactions w));
             if hashes \<noteq> [] then do {
               st \<leftarrow> fold_m (LWWalletRemoveTransaction now) (rev hashes) st;
               LWWalletRemoveTransaction now txHash st }
             else do {
               w \<leftarrow> removeTx txHash w;
               w \<leftarrow> updateBalance now (w\<lparr>w_allTx := (w_allTx w)(txHash := None)\<rparr>);
               (notifyUser, recommendRescan) \<leftarrow> notify tx w;
               Some (w, snd st @ [BalanceChanged (w_balance w), TxDeleted txHash notifyUser recommendRescan]) } }))"

text \<open>
  One hash; the state is the wallet, the hashes updated so far and whether the balance has to be
  computed again.
\<close>

definition update_one :: "u32 \<Rightarrow> u32 \<Rightarrow> UInt256 \<Rightarrow> LWWallet \<times> UInt256 list \<times> bool \<Rightarrow>
    (LWWallet \<times> UInt256 list \<times> bool) option" where
  "update_one blockHeight timestamp h = (\<lambda>(w, hashes, needsUpdate).
     case w_allTx w h of None \<Rightarrow> Some (w, hashes, needsUpdate)
     | Some tx \<Rightarrow>
         if tx_blockHeight tx = blockHeight \<and> tx_timestamp tx = timestamp then Some (w, hashes, needsUpdate)
         else
           (let tx = tx\<lparr>tx_timestamp := timestamp, tx_blockHeight := blockHeight\<rparr>;
                w = w\<lparr>w_allTx := (w_allTx w)(h \<mapsto> tx)\<rparr> in
            if containsTx w tx then do {
              v \<leftarrow> removeTx h w;
              w \<leftarrow> (if length (w_transactions v) < length (w_transactions w) then insertTx tx v else Some w);
              Some (w, hashes @ [h], needsUpdate \<or> h \<in> w_pendingTx w \<or> h \<in> w_invalidTx w) }
            else Some (if blockHeight \<noteq> TX_UNCONFIRMED then w\<lparr>w_allTx := (w_allTx w)(h := None)\<rparr> else w,
                       hashes, needsUpdate)))"

definition LWWalletUpdateTransactions ::
    "int \<Rightarrow> UInt256 list \<Rightarrow> u32 \<Rightarrow> u32 \<Rightarrow> LWWallet \<Rightarrow> (LWWallet \<times> wallet_event list) option" where
  "LWWalletUpdateTransactions now txHashes blockHeight timestamp w =
     (let w = (if blockHeight > w_blockHeight w then w\<lparr>w_blockHeight := blockHeight\<rparr> else w) in do {
        (w, hashes, needsUpdate) \<leftarrow> fold_m (update_one blockHeight timestamp) txHashes (w, [], False);
        w \<leftarrow> (if needsUpdate then updateBalance now w else Some w);
        Some (w, (if needsUpdate then [BalanceChanged (w_balance w)] else []) @
                 (if hashes \<noteq> [] then [TxUpdated hashes blockHeight timestamp] else [])) })"

definition unconfirm :: "UInt256 \<Rightarrow> LWWallet \<Rightarrow> LWWallet option" where
  "unconfirm h w = do {
     t \<leftarrow> w_allTx w h; Some (w\<lparr>w_allTx := (w_allTx w)(h \<mapsto> t\<lparr>tx_blockHeight := TX_UNCONFIRMED\<rparr>)\<rparr>) }"

definition LWWalletSetTxUnconfirmedAfter :: "int \<Rightarrow> u32 \<Rightarrow> LWWallet \<Rightarrow> (LWWallet \<times> wallet_event list) option" where
  "LWWalletSetTxUnconfirmedAfter now blockHeight w =
     (let w = w\<lparr>w_blockHeight := blockHeight\<rparr> in do {
        n \<leftarrow> trailing w (\<lambda>h. h > blockHeight) (rev (w_transactions w));
        let hashes = drop (length (w_transactions w) - n) (w_transactions w) in do {
        w \<leftarrow> fold_m unconfirm hashes w;
        w \<leftarrow> (if n > 0 then updateBalance now w else Some w);
        Some (w, if n > 0 then [BalanceChanged (w_balance w), TxUpdated hashes TX_UNCONFIRMED 0] else []) } })"

end
