(* ===== verification/LW_Spending.thy ===== *)
theory LW_Spending
  imports LW_Registry "HOL-Library.Sublist"
begin

text \<open>
  Model of \<^verbatim>\<open>LWWallet.c\<close>, third part: fees, the creation of a transaction from the unspent outputs,
  and signing. A failed assertion is \<open>None\<close>, as is a creation that never returns. The conversions
  to and from local currencies work on floating-point numbers and are not modelled. The lemmas lead to
  what a created transaction spends, pays and leaves as its fee.
\<close>

definition LWWalletFeeForTxSize :: "nat \<Rightarrow> LWWallet \<Rightarrow> u64" where
  "LWWalletFeeForTxSize sz w = txFee (w_feePerKb w) sz"

definition LWWalletMinOutputAmount :: "LWWallet \<Rightarrow> u64" where
  "LWWalletMinOutputAmount w =
     (let amount = (TX_MIN_OUTPUT_AMOUNT * w_feePerKb w + MIN_FEE_PER_KB - 1) div MIN_FEE_PER_KB
      in if amount > TX_MIN_OUTPUT_AMOUNT then amount else TX_MIN_OUTPUT_AMOUNT)"

text \<open>The output an unspent one refers to; there is none when its transaction is unknown.\<close>

definition utxo_output :: "LWWallet \<Rightarrow> LWUTXO \<Rightarrow> LWTxOutput option" where
  "utxo_output w o' = (case w_allTx w (fst o') of None \<Rightarrow> None
     | Some tx \<Rightarrow> if unat (snd o') < length (tx_outputs tx) then Some (tx_outputs tx ! unat (snd o')) else None)"

definition LWWalletMaxOutputAmount :: "LWWallet \<Rightarrow> u64" where
  "LWWalletMaxOutputAmount w =
     (let outs = List.map_filter (utxo_output w) (rev (w_utxos w));
          inCount = length outs; amount = sum_list (map out_amount outs);
          txSize = 8 + LWVarIntSize (of_nat inCount) + TX_INPUT_SIZE * inCount + LWVarIntSize 2 + TX_OUTPUT_SIZE * 2;
          fee = txFee (w_feePerKb w) txSize
      in if amount > fee then amount - fee else 0)"

subsection \<open>Creating a transaction\<close>

text \<open>
  The loop over the unspent outputs, with the transaction so far, the amount of its inputs and the
  fee: it ends with these, or because the transaction became too large.
\<close>

datatype selection =
  Selected LWTransaction u64 u64
| TooLarge u64 u64

definition add_input :: "bool \<Rightarrow> LWUTXO \<Rightarrow> LWTxOutput \<Rightarrow> LWTransaction \<Rightarrow> LWTransaction" where
  "add_input testnet u out tx =
     LWTransactionAddInput testnet (fst u) (snd u) (out_amount out) (out_script out) None TXIN_SEQUENCE tx"

fun select :: "bool \<Rightarrow> LWWallet \<Rightarrow> u64 \<Rightarrow> u64 \<Rightarrow> LWUTXO list \<Rightarrow> LWTransaction \<Rightarrow> u64 \<Rightarrow> u64 \<Rightarrow> selection" where
  "select testnet w amount minAmount [] tx balance feeAmount = Selected tx balance feeAmount"
| "select testnet w amount minAmount (u # us) tx balance feeAmount =
     (case utxo_output w u of
        None \<Rightarrow> select testnet w amount minAmount us tx balance feeAmount
      | Some out \<Rightarrow>
          let tx = add_input testnet u out tx in
          if LWTransactionSize tx + TX_OUTPUT_SIZE > TX_MAX_SIZE then TooLarge balance feeAmount
          else
            (let balance = balance + out_amount out;
                 feeAmount = txFee (w_feePerKb w) (LWTransactionSize tx + TX_OUTPUT_SIZE);
                 feeAmount = (if w_balance w > amount + feeAmount
                              then feeAmount + (w_balance w - (amount + feeAmount)) mod 100 else feeAmount)
             in if balance = amount + feeAmount \<or> balance \<ge> amount + feeAmount + minAmount
                then Selected tx balance feeAmount
                else select testnet w amount minAmount us tx balance feeAmount))"

text \<open>The requested outputs, which must have scripts.\<close>

definition with_outputs :: "bool \<Rightarrow> LWTxOutput list \<Rightarrow> LWTransaction" where
  "with_outputs testnet outputs =
     fold (\<lambda>out. LWTransactionAddOutput testnet (out_amount out) (out_script out)) outputs LWTransactionNew"

text \<open>The result is the transaction, NULL as \<open>None\<close>, the wallet, and what is left of the random numbers.\<close>

partial_function (option) LWWalletCreateTxForOutputs ::
    "('p, 's, 'r) env \<Rightarrow> u32 list \<Rightarrow> LWTxOutput list \<Rightarrow> LWWallet \<Rightarrow>
     (LWTransaction option \<times> LWWallet \<times> u32 list) option" where
  "LWWalletCreateTxForOutputs env rs outputs w =
     (if outputs = [] \<or> list_ex (\<lambda>out. the_bytes (out_script out) = []) outputs then None
      else
        (let tx = with_outputs (env_testnet env) outputs;
             amount = sum_list (map out_amount outputs);
             minAmount = LWWalletMinOutputAmount w;
             feeAmount = txFee (w_feePerKb w) (LWTransactionSize tx + TX_OUTPUT_SIZE) in
         case select (env_testnet env) w amount minAmount (w_utxos w) tx 0 feeAmount of
           TooLarge balance feeAmount \<Rightarrow>
             if w_balance w < amount + txFee (w_feePerKb w)
                  (10 + length (w_utxos w) * TX_INPUT_SIZE + (length outputs + 1) * TX_OUTPUT_SIZE)
             then Some (None, w, rs)
             else if out_amount (last outputs) > amount + feeAmount + minAmount - balance then
               LWWalletCreateTxForOutputs env rs
                 (butlast outputs @ [(last outputs)\<lparr>out_amount := out_amount (last outputs) - (amount + feeAmount - balance)\<rparr>]) w
             else LWWalletCreateTxForOutputs env rs (butlast outputs) w
         | Selected tx balance feeAmount \<Rightarrow>
             if balance < amount + feeAmount then Some (None, w, rs)
             else if balance - (amount + feeAmount) > minAmount then do {
               (as, w) \<leftarrow> LWWalletUnusedAddrs env True 1 True w;
               let addr = (case as of [] \<Rightarrow> [] | a # _ \<Rightarrow> a);
                   script = produced (LWAddressScriptPubKey (env_testnet env) addr);
                   tx = LWTransactionAddOutput (env_testnet env) (balance - (amount + feeAmount)) (Some script) tx in do {
               (tx, rs) \<leftarrow> LWTransactionShuffleOutputs rs tx;
               Some (Some tx, w, rs) } }
             else Some (Some tx, w, rs)))"

definition LWWalletCreateTransaction ::
    "('p, 's, 'r) env \<Rightarrow> u32 list \<Rightarrow> u64 \<Rightarrow> string \<Rightarrow> LWWallet \<Rightarrow> (LWTransaction option \<times> LWWallet \<times> u32 list) option" where
  "LWWalletCreateTransaction env rs amount addr w =
     (if amount = 0 \<or> \<not> LWAddressIsValid (env_testnet env) addr then None
      else
        (let out = \<lparr>out_address = [], out_amount = amount, out_script = None\<rparr>
         in LWWalletCreateTxForOutputs env rs [LWTxOutputSetAddress (env_testnet env) (Some addr) out] w))"

definition dummyScript :: bytes where
  "dummyScript = [OP_DUP, OP_HASH160, 20] @ replicate 20 0 @ [OP_EQUALVERIFY, OP_CHECKSIG]"

definition LWWalletFeeForTxAmount :: "('p, 's, 'r) env \<Rightarrow> u32 list \<Rightarrow> u64 \<Rightarrow> LWWallet \<Rightarrow> (u64 \<times> LWWallet \<times> u32 list) option" where
  "LWWalletFeeForTxAmount env rs amount w =
     (if amount = 0 then None
      else
        (let maxAmount = LWWalletMaxOutputAmount w;
             out = \<lparr>out_address = [], out_amount = (if amount < maxAmount then amount else maxAmount), out_script = None\<rparr>
         in do {
           (tx, w, rs) \<leftarrow> LWWalletCreateTxForOutputs env rs [LWTxOutputSetScript (env_testnet env) (Some dummyScript) out] w;
           Some (case tx of None \<Rightarrow> 0 | Some tx \<Rightarrow> LWWalletFeeForTx tx w, w, rs) }))"

subsection \<open>Signing\<close>

text \<open>The positions of an address in a chain, the last one first.\<close>

definition chain_indexes :: "string list \<Rightarrow> string \<Rightarrow> u32 list" where
  "chain_indexes addrChain address =
     map of_nat (filter (\<lambda>j. LWAddressEq address (addrChain ! j)) (rev [0..<length addrChain]))"

text \<open>
  The indexes are written to arrays of one element per input; the result of signing without a seed
  is -1.
\<close>

definition LWWalletSignTransaction ::
    "('p, 's, 'r) env \<Rightarrow> LWTransaction \<Rightarrow> u32 \<Rightarrow> bytes option \<Rightarrow> LWWallet \<Rightarrow> (int \<times> LWTransaction) option" where
  "LWWalletSignTransaction env tx forkId seed w =
     (let internalIdx = concat (map (\<lambda>i. chain_indexes (w_internalChain w) (in_address i)) (tx_inputs tx));
          externalIdx = concat (map (\<lambda>i. chain_indexes (w_externalChain w) (in_address i)) (tx_inputs tx)) in
      if length internalIdx > length (tx_inputs tx) \<or> length externalIdx > length (tx_inputs tx) then None
      else
        (case seed of None \<Rightarrow> Some (- 1, tx)
         | Some seed \<Rightarrow> do {
             ks \<leftarrow> LWBIP32PrivKeyList (env_ec env) seed SEQUENCE_INTERNAL_CHAIN internalIdx;
             ks' \<leftarrow> LWBIP32PrivKeyList (env_ec env) seed SEQUENCE_EXTERNAL_CHAIN externalIdx;
             Some (let (ok, tx, keys) = LWTransactionSign (env_ec env) (env_testnet env) tx forkId (ks @ ks')
                   in (if ok then 1 else 0, tx)) }))"

subsection \<open>Amounts\<close>

lemma unat_sum_list: "sum_list (map unat xs) < 2 ^ 64 \<Longrightarrow> unat (sum_list xs) = sum_list (map unat xs)" for xs :: "u64 list"
proof (induction xs)
  case (Cons x xs)
  then show ?case by (simp add: unat_word_ariths(1))
qed simp

text \<open>Fees stay far from the wrap-around when the fee rate is below $2^{32}$.\<close>

lemma unat_div_u64: "unat (a div b :: u64) = unat a div unat b"
  by (rule unat_div)

lemma txFee_bounds:
  assumes "unat f < 2 ^ 32" "sz < 2 ^ 31" "0 < sz"
  shows "0 < unat (txFee f sz)" "unat (txFee f sz) < 2 ^ 54"
proof -
  define k where "k = (sz + 999) div 1000"
  have k: "0 < k" "k \<le> 2147485" using assms(2,3) by (auto simp: k_def)
  have s: "unat (of_nat k * TX_FEE_PER_KB) = k * unat TX_FEE_PER_KB"
    using k by (simp add: unat_word_ariths(2) unsigned_of_nat take_bit_nat_eq_self TX_FEE_PER_KB_def)
  have p: "sz * unat f < 2 ^ 63" using mult_strict_mono [OF assms(2,1)] by simp
  have u: "unat (of_nat sz * f) = sz * unat f"
    using p assms(2) by (simp add: unat_word_ariths(2) unsigned_of_nat take_bit_nat_eq_self)
  define q where "q = sz * unat f div 1000"
  have q: "q < 2 ^ 54 - 300" using p by (simp add: q_def)
  have "unat (of_nat sz * f div 1000) = q" by (simp add: unat_div_u64 u q_def)
  then have a: "unat (of_nat sz * f div 1000 + 99) = q + 99" using q by (simp add: unat_word_ariths(1))
  have "unat (((of_nat sz * f div 1000 + 99) div 100) * 100) = (q + 99) div 100 * 100"
    using q by (simp add: unat_word_ariths(2) unat_div_u64 a)
  then have fee: "unat (((of_nat sz * f div 1000 + 99) div 100) * 100) < 2 ^ 54" using q by simp
  have t: "unat TX_FEE_PER_KB = 1000" by (simp add: TX_FEE_PER_KB_def)
  have "0 < k * 1000" "k * 1000 < 2 ^ 54" using k by simp_all
  then show "0 < unat (txFee f sz)" "unat (txFee f sz) < 2 ^ 54"
    using s fee by (auto simp: txFee_def Let_def k_def [symmetric] word_less_nat_alt t)
qed

lemma minAmount_bound:
  assumes "unat (w_feePerKb w) < 2 ^ 32"
  shows "unat (LWWalletMinOutputAmount w) < 2 ^ 54"
proof -
  have m: "unat TX_MIN_OUTPUT_AMOUNT = 546" by (simp add: TX_MIN_OUTPUT_AMOUNT_def TX_FEE_PER_KB_def TX_OUTPUT_SIZE_def TX_INPUT_SIZE_def)
  have f: "unat MIN_FEE_PER_KB = 5236" by (simp add: MIN_FEE_PER_KB_def TX_FEE_PER_KB_def)
  have p: "546 * unat (w_feePerKb w) < 2 ^ 42" using assms by simp
  have u: "unat (TX_MIN_OUTPUT_AMOUNT * w_feePerKb w) = 546 * unat (w_feePerKb w)" using p by (simp add: unat_word_ariths(2) m)
  have "unat (TX_MIN_OUTPUT_AMOUNT * w_feePerKb w + MIN_FEE_PER_KB) = 546 * unat (w_feePerKb w) + 5236"
    using p by (simp add: unat_word_ariths(1) u f)
  moreover have "(1 :: u64) \<le> TX_MIN_OUTPUT_AMOUNT * w_feePerKb w + MIN_FEE_PER_KB" using calculation by (simp add: word_le_nat_alt)
  ultimately have "unat (TX_MIN_OUTPUT_AMOUNT * w_feePerKb w + MIN_FEE_PER_KB - 1) < 2 ^ 43" using p by (simp add: unat_sub)
  then have "unat ((TX_MIN_OUTPUT_AMOUNT * w_feePerKb w + MIN_FEE_PER_KB - 1) div MIN_FEE_PER_KB) < 2 ^ 43"
    unfolding unat_div_u64 by (rule le_less_trans [OF div_le_dividend])
  then show ?thesis by (simp add: LWWalletMinOutputAmount_def Let_def m)
qed

subsection \<open>What a transaction is made of\<close>

lemma add_input_fields:
  "\<exists>i. tx_inputs (add_input testnet u out tx) = tx_inputs tx @ [i] \<and> outpoint i = u \<and> in_amount i = out_amount out \<and> in_signature i = None"
  "tx_outputs (add_input testnet u out tx) = tx_outputs tx"
  by (auto simp: add_input_def LWTransactionAddInput_def LWTxInputSetScript_def outpoint_def Let_def split: option.splits)

text \<open>An output as it is added to the transaction: its address is that of its script.\<close>

definition as_output :: "bool \<Rightarrow> u64 \<Rightarrow> bytes option \<Rightarrow> LWTxOutput" where
  "as_output testnet amount script = LWTxOutputSetScript testnet script \<lparr>out_address = [], out_amount = amount, out_script = None\<rparr>"

lemma as_output_fields: "out_amount (as_output testnet amount script) = amount" "out_script (as_output testnet amount script) = script"
  by (auto simp: as_output_def LWTxOutputSetScript_def Let_def split: option.splits)

lemma AddOutput_fields:
  "tx_outputs (LWTransactionAddOutput testnet amount script tx) = tx_outputs tx @ [as_output testnet amount script]"
  "tx_inputs (LWTransactionAddOutput testnet amount script tx) = tx_inputs tx"
  by (simp_all add: LWTransactionAddOutput_def as_output_def Let_def)

lemma with_outputs_fields:
  "tx_inputs (with_outputs testnet outputs) = []"
  "tx_outputs (with_outputs testnet outputs) = map (\<lambda>out. as_output testnet (out_amount out) (out_script out)) outputs"
proof -
  have "tx_inputs (fold (\<lambda>out. LWTransactionAddOutput testnet (out_amount out) (out_script out)) outputs tx) = tx_inputs tx \<and>
    tx_outputs (fold (\<lambda>out. LWTransactionAddOutput testnet (out_amount out) (out_script out)) outputs tx) =
      tx_outputs tx @ map (\<lambda>out. as_output testnet (out_amount out) (out_script out)) outputs" for tx
    by (induction outputs arbitrary: tx) (simp_all add: AddOutput_fields)
  from this [of LWTransactionNew] show "tx_inputs (with_outputs testnet outputs) = []"
    "tx_outputs (with_outputs testnet outputs) = map (\<lambda>out. as_output testnet (out_amount out) (out_script out)) outputs"
    by (simp_all add: with_outputs_def LWTransactionNew_def)
qed

text \<open>The bytes of the outputs bound the size of the transaction.\<close>

definition outs_size :: "LWTxOutput list \<Rightarrow> nat" where
  "outs_size outs = sum_list (map (\<lambda>out. 17 + length (the_bytes (out_script out))) outs)"

lemma VarIntSize_le: "LWVarIntSize i \<le> 9"
  by (simp add: LWVarIntSize_varint varint_def)

lemma with_outputs_size: "LWTransactionSize (with_outputs testnet outputs) \<le> 26 + outs_size outputs" "0 < LWTransactionSize tx"
proof -
  have "sum_list (map (\<lambda>out. 8 + LWVarIntSize (of_nat (length (the_bytes (out_script out)))) + length (the_bytes (out_script out)))
      (tx_outputs (with_outputs testnet outputs))) \<le> outs_size outputs"
    unfolding with_outputs_fields outs_size_def
    by (induction outputs) (auto simp: as_output_fields intro!: add_mono VarIntSize_le)
  then show "LWTransactionSize (with_outputs testnet outputs) \<le> 26 + outs_size outputs"
    using VarIntSize_le [of 0] VarIntSize_le [of "of_nat (length outputs)"] by (simp add: LWTransactionSize_def with_outputs_fields)
qed (simp add: LWTransactionSize_def)

subsection \<open>The selection\<close>

text \<open>Inputs that spend some of the outputs, in their order.\<close>

definition picked :: "LWWallet \<Rightarrow> LWTxInput list \<Rightarrow> LWUTXO list \<Rightarrow> bool" where
  "picked w ins us \<longleftrightarrow> subseq (map outpoint ins) us \<and>
     (\<forall>i \<in> set ins. in_signature i = None \<and> (\<exists>out. utxo_output w (outpoint i) = Some out \<and> in_amount i = out_amount out))"

text \<open>A fee that is due for a transaction of some size, rounded up a little.\<close>

definition fee_for :: "LWWallet \<Rightarrow> nat \<Rightarrow> u64 \<Rightarrow> bool" where
  "fee_for w sz fee \<longleftrightarrow> (\<exists>e < 100. fee = txFee (w_feePerKb w) sz + e)"

definition due :: "LWWallet \<Rightarrow> LWTransaction \<Rightarrow> u64 \<Rightarrow> bool" where
  "due w tx fee \<longleftrightarrow> LWTransactionSize tx + TX_OUTPUT_SIZE \<le> TX_MAX_SIZE \<and> fee_for w (LWTransactionSize tx + TX_OUTPUT_SIZE) fee"

lemma picked_Nil: "picked w [] us"
  by (simp add: picked_def)

lemma picked_skip: "picked w ins us \<Longrightarrow> picked w ins (u # us)"
  by (auto simp: picked_def)

lemma picked_take:
  "picked w ins us \<Longrightarrow> utxo_output w u = Some out \<Longrightarrow> outpoint i = u \<Longrightarrow> in_amount i = out_amount out \<Longrightarrow> in_signature i = None \<Longrightarrow>
   picked w (i # ins) (u # us)"
  by (auto simp: picked_def)

lemma select_spec:
  "case select testnet w amount minAmount us tx balance fee of
     Selected tx' balance' fee' \<Rightarrow> \<exists>ins. picked w ins us \<and> tx_inputs tx' = tx_inputs tx @ ins \<and> tx_outputs tx' = tx_outputs tx \<and>
       balance' = balance + sum_list (map in_amount ins) \<and> (ins = [] \<and> fee' = fee \<or> due w tx' fee')
   | TooLarge balance' fee' \<Rightarrow> \<exists>ins. picked w ins us \<and> balance' = balance + sum_list (map in_amount ins) \<and>
       (fee' = fee \<or> (\<exists>tx'. due w tx' fee'))"
proof (induction us arbitrary: tx balance fee)
  case Nil
  then show ?case by (simp add: picked_def)
next
  case (Cons u us)
  show ?case
  proof (cases "utxo_output w u")
    case None
    have "select testnet w amount minAmount (u # us) tx balance fee = select testnet w amount minAmount us tx balance fee" using None by simp
    then show ?thesis using Cons.IH [of tx balance fee]
      by (cases "select testnet w amount minAmount us tx balance fee") (simp_all, (blast intro: picked_skip)+)
  next
    case (Some out)
    let ?tx = "add_input testnet u out tx"
    obtain i where i: "tx_inputs ?tx = tx_inputs tx @ [i]" "outpoint i = u" "in_amount i = out_amount out" "in_signature i = None"
      using add_input_fields(1) by blast
    note o = add_input_fields(2) [of testnet u out tx]
    show ?thesis
    proof (cases "LWTransactionSize ?tx + TX_OUTPUT_SIZE > TX_MAX_SIZE")
      case True
      then show ?thesis using Some picked_Nil by (auto simp: Let_def intro!: exI [of _ "[]"])
    next
      case False
      let ?b = "balance + out_amount out"
      let ?f0 = "txFee (w_feePerKb w) (LWTransactionSize ?tx + TX_OUTPUT_SIZE)"
      define f where "f = (if w_balance w > amount + ?f0 then ?f0 + (w_balance w - (amount + ?f0)) mod 100 else ?f0)"
      have e: "(x :: u64) mod 100 < 100" for x by (simp add: word_less_nat_alt unat_mod)
      have f: "due w ?tx f" using False e by (auto simp: f_def due_def fee_for_def intro: exI [of _ 0])
      show ?thesis
      proof (cases "?b = amount + f \<or> ?b \<ge> amount + f + minAmount")
        case True
        have "select testnet w amount minAmount (u # us) tx balance fee = Selected ?tx ?b f"
          unfolding select.simps(2) Some option.case Let_def if_not_P [OF False] f_def [symmetric] using True by simp
        then show ?thesis using i o f picked_take [OF picked_Nil Some i(2-4)] by (auto intro!: exI [of _ "[i]"])
      next
        case more: False
        have more_eq: "select testnet w amount minAmount (u # us) tx balance fee = select testnet w amount minAmount us ?tx ?b f"
          unfolding select.simps(2) Some option.case Let_def if_not_P [OF False] f_def [symmetric] using more by (simp only: if_False)
        have sel: "\<exists>ins'. picked w ins' (u # us) \<and> tx_inputs tx' = tx_inputs tx @ ins' \<and> tx_outputs tx' = tx_outputs tx \<and>
            balance' = balance + sum_list (map in_amount ins') \<and> (ins' = [] \<and> fee' = fee \<or> due w tx' fee')"
          if "picked w ins us" "tx_inputs tx' = tx_inputs ?tx @ ins" "tx_outputs tx' = tx_outputs ?tx"
            "balance' = ?b + sum_list (map in_amount ins)" "ins = [] \<and> fee' = f \<or> due w tx' fee'" for ins tx' balance' fee'
        proof -
          have "due w tx' fee'"
          proof (cases "ins = []")
            case True
            then have "LWTransactionSize tx' = LWTransactionSize ?tx" using that(2,3) by (simp add: LWTransactionSize_def)
            then show ?thesis using that(5) f by (auto simp: due_def)
          qed (use that(5) in simp)
          then show ?thesis using that i o picked_take [OF that(1) Some i(2-4)]
            by (intro exI [of _ "i # ins"]) (simp add: add.assoc)
        qed
        have large: "\<exists>ins'. picked w ins' (u # us) \<and> balance' = balance + sum_list (map in_amount ins') \<and> (fee' = fee \<or> (\<exists>tx'. due w tx' fee'))"
          if "picked w ins us" "balance' = ?b + sum_list (map in_amount ins)" "fee' = f \<or> (\<exists>tx'. due w tx' fee')" for ins balance' fee'
          using that i f picked_take [OF that(1) Some i(2-4)] by (intro exI [of _ "i # ins"]) (auto simp: add.assoc)
        show ?thesis
        proof (cases "select testnet w amount minAmount us ?tx ?b f")
          case (Selected tx' balance' fee')
          then show ?thesis unfolding more_eq Selected selection.case using Cons.IH [of ?tx ?b f, unfolded Selected selection.case] sel by blast
        next
          case (TooLarge balance' fee')
          then show ?thesis unfolding more_eq TooLarge selection.case using Cons.IH [of ?tx ?b f, unfolded TooLarge selection.case] large by blast
        qed
      qed
    qed
  qed
qed

subsection \<open>What is created balances\<close>

definition utxo_value :: "LWWallet \<Rightarrow> LWUTXO \<Rightarrow> nat" where
  "utxo_value w u = (case utxo_output w u of None \<Rightarrow> 0 | Some out \<Rightarrow> unat (out_amount out))"

definition out_total :: "LWTxOutput list \<Rightarrow> nat" where
  "out_total outs = sum_list (map (\<lambda>out. unat (out_amount out)) outs)"

text \<open>Amounts far from the wrap-around: there are never more than $2^{53}$ units.\<close>

definition moderate :: "LWWallet \<Rightarrow> LWTxOutput list \<Rightarrow> bool" where
  "moderate w outputs \<longleftrightarrow> sum_list (map (utxo_value w) (w_utxos w)) < 2 ^ 61 \<and> out_total outputs < 2 ^ 61 \<and>
     unat (w_feePerKb w) < 2 ^ 32 \<and> outs_size outputs < 2 ^ 29"

text \<open>
  The outputs that are paid: the requested ones, or as many of the first ones as fit in a transaction
  of the maximal size, with the amount of the last of them adapted.
\<close>

definition serves :: "LWTxOutput list \<Rightarrow> LWTxOutput list \<Rightarrow> bool" where
  "serves outs outputs \<longleftrightarrow> outs \<noteq> [] \<and> length outs \<le> length outputs \<and>
     map out_script outs = take (length outs) (map out_script outputs) \<and>
     map out_amount (butlast outs) = take (length outs - 1) (map out_amount outputs)"

definition balanced :: "bool \<Rightarrow> LWWallet \<Rightarrow> LWTxOutput list \<Rightarrow> LWTransaction \<Rightarrow> bool" where
  "balanced testnet w outputs tx \<longleftrightarrow> (\<exists>outs change fee. serves outs outputs \<and> length change \<le> 1 \<and>
     mset (tx_outputs tx) = mset (map (\<lambda>out. as_output testnet (out_amount out) (out_script out)) outs @ change) \<and>
     picked w (tx_inputs tx) (w_utxos w) \<and>
     sum_list (map (\<lambda>i. unat (in_amount i)) (tx_inputs tx)) = out_total (tx_outputs tx) + fee \<and>
     unat (txFee (w_feePerKb w)
       (LWTransactionSize (tx\<lparr>tx_outputs := map (\<lambda>out. as_output testnet (out_amount out) (out_script out)) outs\<rparr>) + TX_OUTPUT_SIZE)) \<le> fee)"

lemma serves_self: "outputs \<noteq> [] \<Longrightarrow> serves outputs outputs"
  by (simp add: serves_def butlast_conv_take take_map)

lemma serves_butlast: "serves outs (butlast outputs) \<Longrightarrow> serves outs outputs"
  by (auto simp: serves_def butlast_conv_take take_map min_absorb1)

lemma take_less: "take m xs = take m ys \<Longrightarrow> n \<le> m \<Longrightarrow> take n xs = take n ys"
proof -
  assume a: "take m xs = take m ys" "n \<le> m"
  have "take n (take m xs) = take n (take m ys)" by (simp only: a(1))
  with a(2) show "take n xs = take n ys" by (simp only: take_take min_absorb1)
qed

lemma serves_last: "outputs \<noteq> [] \<Longrightarrow> out_script out = out_script (last outputs) \<Longrightarrow> serves outs (butlast outputs @ [out]) \<Longrightarrow> serves outs outputs"
proof -
  assume a: "outputs \<noteq> []" "out_script out = out_script (last outputs)" "serves outs (butlast outputs @ [out])"
  have s: "map out_script (butlast outputs @ [out]) = map out_script outputs"
    using a(1,2) by (metis append_butlast_last_id list.simps(8,9) map_append)
  have len: "0 < length outputs" "length outs \<le> length (butlast outputs @ [out])" using a(1,3) by (simp_all add: serves_def)
  then have "length outs - 1 \<le> length outputs - 1" by simp
  moreover have "take (length outputs - 1) (map out_amount (butlast outputs @ [out])) = take (length outputs - 1) (map out_amount outputs)"
    by (simp add: butlast_conv_take take_map)
  ultimately have eq: "take (length outs - 1) (map out_amount (butlast outputs @ [out])) = take (length outs - 1) (map out_amount outputs)"
    by (rule take_less [rotated])
  have "map out_amount (butlast outs) = take (length outs - 1) (map out_amount outputs)"
    using a(3) unfolding serves_def eq by blast
  moreover have "map out_script outs = take (length outs) (map out_script outputs)" using a(3) unfolding serves_def s by blast
  moreover have "length outs \<le> length outputs" using len by simp
  ultimately show "serves outs outputs" using a(3) unfolding serves_def by blast
qed

lemma balanced_mono: "(\<And>outs. serves outs outputs' \<Longrightarrow> serves outs outputs) \<Longrightarrow> balanced testnet w outputs' tx \<Longrightarrow> balanced testnet w outputs tx"
  unfolding balanced_def by blast

lemma picked_value:
  assumes "picked w ins us"
  shows "sum_list (map (\<lambda>i. unat (in_amount i)) ins) \<le> sum_list (map (utxo_value w) us)"
proof -
  have e: "map (\<lambda>i. unat (in_amount i)) ins = map (utxo_value w) (map outpoint ins)"
    using assms by (auto simp: picked_def utxo_value_def)
  have s: "subseq (map (utxo_value w) (map outpoint ins)) (map (utxo_value w) us)"
    using assms by (intro subseq_map) (simp add: picked_def)
  have "sum_list xs \<le> sum_list ys" if "subseq xs ys" for xs ys :: "nat list"
    using that by (induction rule: list_emb.induct) auto
  from this [OF s] show ?thesis unfolding e .
qed

lemma due_bounds:
  assumes "due w tx fee" "unat (w_feePerKb w) < 2 ^ 32"
  shows "unat fee < 2 ^ 55" "unat (txFee (w_feePerKb w) (LWTransactionSize tx + TX_OUTPUT_SIZE)) \<le> unat fee"
proof -
  obtain e where e: "e < 100" "fee = txFee (w_feePerKb w) (LWTransactionSize tx + TX_OUTPUT_SIZE) + e"
    using assms(1) by (auto simp: due_def fee_for_def)
  have "LWTransactionSize tx + TX_OUTPUT_SIZE < 2 ^ 31" using assms(1) by (simp add: due_def TX_MAX_SIZE_def)
  then have b: "unat (txFee (w_feePerKb w) (LWTransactionSize tx + TX_OUTPUT_SIZE)) < 2 ^ 54"
    using txFee_bounds(2) [OF assms(2)] with_outputs_size(2) by simp
  have "unat e < 100" using e(1) by (simp add: word_less_nat_alt)
  then have "unat fee = unat (txFee (w_feePerKb w) (LWTransactionSize tx + TX_OUTPUT_SIZE)) + unat e"
    using b by (simp add: e(2) unat_word_ariths(1))
  then show "unat fee < 2 ^ 55" "unat (txFee (w_feePerKb w) (LWTransactionSize tx + TX_OUTPUT_SIZE)) \<le> unat fee"
    using b \<open>unat e < 100\<close> by simp_all
qed

lemma out_total_sum: "out_total outs < 2 ^ 64 \<Longrightarrow> unat (sum_list (map out_amount outs)) = out_total outs"
  using unat_sum_list [of "map out_amount outs"] by (simp add: out_total_def comp_def)

lemma out_total_append: "out_total (xs @ ys) = out_total xs + out_total ys"
  by (simp add: out_total_def)

lemma out_total_as_output: "out_total (map (\<lambda>out. as_output testnet (out_amount out) (out_script out)) outs) = out_total outs"
  by (simp add: out_total_def as_output_fields comp_def)

lemma out_total_mset: "mset xs = mset ys \<Longrightarrow> out_total xs = out_total ys"
  unfolding out_total_def by (metis mset_map sum_mset_sum_list)

text \<open>Adapting the last output when the transaction became too large.\<close>

lemma adapted_total:
  assumes "outputs \<noteq> []" "out_total outputs < 2 ^ 61" "unat balance < 2 ^ 61" "unat fee < 2 ^ 55" "unat minAmount < 2 ^ 54"
    and guard: "out_amount (last outputs) > sum_list (map out_amount outputs) + fee + minAmount - balance"
  shows "out_total (butlast outputs @ [(last outputs)\<lparr>out_amount := out_amount (last outputs) - (sum_list (map out_amount outputs) + fee - balance)\<rparr>]) < 2 ^ 61"
proof -
  let ?A = "out_total outputs"
  let ?a = "unat (out_amount (last outputs))"
  define amount where "amount = sum_list (map out_amount outputs)"
  have A: "unat amount = ?A" unfolding amount_def using assms(2) by (intro out_total_sum) simp
  have split: "?A = out_total (butlast outputs) + ?a"
    using out_total_append [of "butlast outputs" "[last outputs]"] assms(1) by (simp add: out_total_def)
  have AF: "unat (amount + fee) = ?A + unat fee" using assms(2,4) A by (simp add: unat_word_ariths(1))
  have AFM: "unat (amount + fee + minAmount) = ?A + unat fee + unat minAmount" using assms(2,4,5) AF by (simp add: unat_word_ariths(1))
  show ?thesis
  proof (cases "unat balance \<le> ?A + unat fee")
    case True
    then have d: "unat (amount + fee - balance) = ?A + unat fee - unat balance" using AF by (simp add: unat_sub word_le_nat_alt)
    have "unat (amount + fee + minAmount - balance) = ?A + unat fee + unat minAmount - unat balance"
      using AFM True by (simp add: unat_sub word_le_nat_alt)
    then have "?A + unat fee - unat balance < ?a" using guard True unfolding amount_def [symmetric] word_less_nat_alt by simp
    then have "unat (out_amount (last outputs) - (amount + fee - balance)) \<le> ?a"
      using d by (simp add: unat_sub word_le_nat_alt)
    then show ?thesis using split assms(2) by (simp add: amount_def [symmetric] out_total_append) (simp add: out_total_def)
  next
    case False
    define d where "d = balance - (amount + fee)"
    have eq: "out_amount (last outputs) - (amount + fee - balance) = out_amount (last outputs) + d" by (simp add: d_def)
    have "unat d = unat balance - (?A + unat fee)" using AF False by (simp add: d_def unat_sub word_le_nat_alt)
    then have "unat (out_amount (last outputs) - (amount + fee - balance)) = ?a + (unat balance - (?A + unat fee))"
      using False assms(2,3) split by (simp add: eq unat_word_ariths(1))
    then show ?thesis using split assms(3) False by (simp add: amount_def [symmetric] out_total_append) (simp add: out_total_def)
  qed
qed

lemma moderateD:
  assumes "moderate w outputs"
  shows "sum_list (map (utxo_value w) (w_utxos w)) < 2 ^ 61" "out_total outputs < 2 ^ 61" "unat (w_feePerKb w) < 2 ^ 32" "outs_size outputs < 2 ^ 29"
  using assms by (simp_all add: moderate_def)

lemma picked_sum:
  assumes "picked w ins (w_utxos w)" "moderate w outputs"
  shows "unat (sum_list (map in_amount ins)) = sum_list (map (\<lambda>i. unat (in_amount i)) ins)" "unat (sum_list (map in_amount ins)) < 2 ^ 61"
proof -
  have b: "sum_list (map (\<lambda>i. unat (in_amount i)) ins) < 2 ^ 61" using picked_value [OF assms(1)] moderateD(1) [OF assms(2)] by simp
  then show "unat (sum_list (map in_amount ins)) = sum_list (map (\<lambda>i. unat (in_amount i)) ins)"
    using unat_sum_list [of "map in_amount ins"] by (simp add: comp_def)
  then show "unat (sum_list (map in_amount ins)) < 2 ^ 61" using b by simp
qed

lemma first_fee:
  assumes "moderate w outputs"
  shows "0 < unat (txFee (w_feePerKb w) (LWTransactionSize (with_outputs testnet outputs) + TX_OUTPUT_SIZE))"
    "unat (txFee (w_feePerKb w) (LWTransactionSize (with_outputs testnet outputs) + TX_OUTPUT_SIZE)) < 2 ^ 55"
proof -
  have "LWTransactionSize (with_outputs testnet outputs) + TX_OUTPUT_SIZE < 2 ^ 31"
    using with_outputs_size(1) [of testnet outputs] moderateD(4) [OF assms] by (simp add: TX_OUTPUT_SIZE_def)
  from txFee_bounds [OF moderateD(3) [OF assms] this]
  show "0 < unat (txFee (w_feePerKb w) (LWTransactionSize (with_outputs testnet outputs) + TX_OUTPUT_SIZE))"
    "unat (txFee (w_feePerKb w) (LWTransactionSize (with_outputs testnet outputs) + TX_OUTPUT_SIZE)) < 2 ^ 55"
    using with_outputs_size(2) by simp_all
qed

text \<open>A selection that is enough, with at most one output for the change.\<close>

lemma selected_balanced:
  assumes mod: "moderate w outputs" and outs: "outputs \<noteq> []"
    and sel: "select testnet w (sum_list (map out_amount outputs)) minAmount (w_utxos w) (with_outputs testnet outputs) 0
      (txFee (w_feePerKb w) (LWTransactionSize (with_outputs testnet outputs) + TX_OUTPUT_SIZE)) = Selected tx b f"
    and enough: "\<not> b < sum_list (map out_amount outputs) + f"
    and tx': "tx_inputs tx' = tx_inputs tx" "mset (tx_outputs tx') = mset (tx_outputs tx @ change)" "length change \<le> 1"
    and change: "out_total change \<le> unat (b - (sum_list (map out_amount outputs) + f))"
  shows "balanced testnet w outputs tx'"
proof -
  let ?outs = "map (\<lambda>out. as_output testnet (out_amount out) (out_script out)) outputs"
  let ?in = "sum_list (map (\<lambda>i. unat (in_amount i)) (tx_inputs tx))"
  obtain ins where ins: "picked w ins (w_utxos w)" "tx_inputs tx = ins" "tx_outputs tx = ?outs" "b = sum_list (map in_amount ins)"
    and fee: "ins = [] \<and> f = txFee (w_feePerKb w) (LWTransactionSize (with_outputs testnet outputs) + TX_OUTPUT_SIZE) \<or> due w tx f"
    using select_spec [where testnet = testnet and w = w and amount = "sum_list (map out_amount outputs)" and minAmount = minAmount and
      us = "w_utxos w" and tx = "with_outputs testnet outputs" and balance = 0 and
      fee = "txFee (w_feePerKb w) (LWTransactionSize (with_outputs testnet outputs) + TX_OUTPUT_SIZE)"] unfolding sel selection.case
    by (auto simp: with_outputs_fields)
  have A: "unat (sum_list (map out_amount outputs)) = out_total outputs" using moderateD(2) [OF mod] by (intro out_total_sum) simp
  have f: "0 < unat f \<or> due w tx f" "unat f < 2 ^ 55"
    using fee first_fee [OF mod, of testnet] due_bounds(1) [OF _ moderateD(3) [OF mod]] by auto
  have Af: "unat (sum_list (map out_amount outputs) + f) = out_total outputs + unat f"
    using A f(2) moderateD(2) [OF mod] by (simp add: unat_word_ariths(1))
  then have le: "out_total outputs + unat f \<le> unat b" using enough by (simp add: word_less_nat_alt)
  have b: "unat b = ?in" using picked_sum(1) [OF ins(1) mod] ins(2,4) by simp
  have due: "due w tx f"
  proof (rule ccontr)
    assume "\<not> due w tx f"
    then have "ins = []" "0 < unat f" using fee f(1) by auto
    then show False using le b ins(2) by simp
  qed
  have c: "out_total change \<le> ?in - (out_total outputs + unat f)" using change le b Af enough by (simp add: unat_sub word_le_nat_alt)
  have t: "out_total (tx_outputs tx') = out_total outputs + out_total change"
    using out_total_mset [OF tx'(2)] by (simp add: out_total_append ins(3) out_total_as_output)
  have size: "LWTransactionSize (tx'\<lparr>tx_outputs := ?outs\<rparr>) = LWTransactionSize tx" using tx'(1) ins(3) by (simp add: LWTransactionSize_def)
  have "unat (txFee (w_feePerKb w) (LWTransactionSize tx + TX_OUTPUT_SIZE)) \<le> ?in - out_total (tx_outputs tx')"
    using due_bounds(2) [OF due moderateD(3) [OF mod]] t c le b by simp
  moreover have "?in = out_total (tx_outputs tx') + (?in - out_total (tx_outputs tx'))" using t c le b by simp
  ultimately show ?thesis unfolding balanced_def using serves_self [OF outs] tx' ins(1-3) size
    by (intro exI [of _ outputs] exI [of _ change] exI [of _ "?in - out_total (tx_outputs tx')"]) simp
qed

lemma moderate_butlast: "moderate w outputs \<Longrightarrow> moderate w (butlast outputs)"
proof -
  assume m: "moderate w outputs"
  have "out_total (butlast outputs) \<le> out_total outputs" "outs_size (butlast outputs) \<le> outs_size outputs"
    by (induction outputs) (auto simp: out_total_def outs_size_def)
  then show ?thesis using m by (simp add: moderate_def)
qed

lemma outs_size_scripts: "map out_script xs = map out_script ys \<Longrightarrow> outs_size xs = outs_size ys"
proof -
  assume "map out_script xs = map out_script ys"
  then have "map (\<lambda>s. 17 + length (the_bytes s)) (map out_script xs) = map (\<lambda>s. 17 + length (the_bytes s)) (map out_script ys)" by (simp only:)
  then show ?thesis by (simp add: outs_size_def comp_def)
qed

lemma same_scripts: "outputs \<noteq> [] \<Longrightarrow> map out_script (butlast outputs @ [(last outputs)\<lparr>out_amount := a\<rparr>]) = map out_script outputs"
  by (induction outputs) auto

text \<open>The amounts in hand when a transaction became too large.\<close>

lemma too_large_bounds:
  assumes "moderate w outputs"
    "select testnet w amount minAmount (w_utxos w) (with_outputs testnet outputs) 0
      (txFee (w_feePerKb w) (LWTransactionSize (with_outputs testnet outputs) + TX_OUTPUT_SIZE)) = TooLarge b f"
  shows "unat b < 2 ^ 61" "unat f < 2 ^ 55"
proof -
  obtain ins where ins: "picked w ins (w_utxos w)" "b = sum_list (map in_amount ins)"
    and f: "f = txFee (w_feePerKb w) (LWTransactionSize (with_outputs testnet outputs) + TX_OUTPUT_SIZE) \<or> (\<exists>tx'. due w tx' f)"
    using select_spec [where testnet = testnet and w = w and amount = amount and minAmount = minAmount and
      us = "w_utxos w" and tx = "with_outputs testnet outputs" and balance = 0 and
      fee = "txFee (w_feePerKb w) (LWTransactionSize (with_outputs testnet outputs) + TX_OUTPUT_SIZE)"] unfolding assms(2) selection.case
    by auto
  show "unat b < 2 ^ 61" using picked_sum(2) [OF ins(1) assms(1)] ins(2) by simp
  show "unat f < 2 ^ 55" using f first_fee(2) [OF assms(1), of testnet] due_bounds(1) [OF _ moderateD(3) [OF assms(1)]] by blast
qed

lemma adapted_moderate:
  assumes "moderate w outputs" "outputs \<noteq> []"
    "select testnet w (sum_list (map out_amount outputs)) minAmount (w_utxos w) (with_outputs testnet outputs) 0
      (txFee (w_feePerKb w) (LWTransactionSize (with_outputs testnet outputs) + TX_OUTPUT_SIZE)) = TooLarge b f"
    "minAmount = LWWalletMinOutputAmount w"
    "out_amount (last outputs) > sum_list (map out_amount outputs) + f + minAmount - b"
  shows "moderate w (butlast outputs @ [(last outputs)\<lparr>out_amount := out_amount (last outputs) - (sum_list (map out_amount outputs) + f - b)\<rparr>])"
  using adapted_total [OF assms(2) moderateD(2) [OF assms(1)] too_large_bounds [OF assms(1,3)] _ assms(5)]
    minAmount_bound [OF moderateD(3) [OF assms(1)]] moderateD [OF assms(1)] outs_size_scripts [OF same_scripts [OF assms(2)]] assms(4)
  by (simp add: moderate_def)

lemma length_outs_size: "length outputs \<le> outs_size outputs"
  by (induction outputs) (auto simp: outs_size_def)

lemma shuffled:
  assumes "LWTransactionShuffleOutputs rs (LWTransactionAddOutput testnet a s tx0) = Some (tx, rs')" "moderate w outputs"
    "select testnet w amount minAmount us (with_outputs testnet outputs) 0 fee = Selected tx0 b f"
  shows "tx_inputs tx = tx_inputs tx0" "mset (tx_outputs tx) = mset (tx_outputs tx0 @ [as_output testnet a s])"
proof -
  have "tx_outputs tx0 = map (\<lambda>out. as_output testnet (out_amount out) (out_script out)) outputs"
    using select_spec [where testnet = testnet and w = w and amount = amount and minAmount = minAmount and us = us and
      tx = "with_outputs testnet outputs" and balance = 0 and fee = fee] unfolding assms(3) selection.case
    by (auto simp: with_outputs_fields)
  then have len: "length (tx_outputs tx0 @ [as_output testnet a s]) < 2 ^ 31"
    using length_outs_size [of outputs] moderateD(4) [OF assms(2)] by simp
  obtain outs where "shuffle_loop (tx_outputs tx0 @ [as_output testnet a s]) 0 rs = Some (outs, rs')"
    "tx = (LWTransactionAddOutput testnet a s tx0)\<lparr>tx_outputs := outs\<rparr>"
    using assms(1) by (auto simp: LWTransactionShuffleOutputs_def AddOutput_fields split: Option.bind_splits)
  then show "tx_inputs tx = tx_inputs tx0" "mset (tx_outputs tx) = mset (tx_outputs tx0 @ [as_output testnet a s])"
    using shuffle_mset [OF _ len] by (auto simp: AddOutput_fields)
qed

lemma CreateTx_balanced:
  assumes "LWWalletCreateTxForOutputs env rs outputs w = Some res" "moderate w outputs" "fst res = Some tx"
  shows "balanced (env_testnet env) w outputs tx"
proof -
  let ?P = "\<lambda>(env :: ('a, 'b, 'c) env) (rs :: u32 list) outputs w (res :: LWTransaction option \<times> LWWallet \<times> u32 list).
    moderate w outputs \<longrightarrow> (\<forall>tx. fst res = Some tx \<longrightarrow> balanced (env_testnet env) w outputs tx)"
  have "?P env rs outputs w res"
    using assms(1)
  proof (rule LWWalletCreateTxForOutputs.raw_induct [of ?P, rotated], goal_cases)
    case (1 create env rs outputs w res)
    let ?amount = "sum_list (map out_amount outputs)"
    let ?sel = "select (env_testnet env) w ?amount (LWWalletMinOutputAmount w) (w_utxos w) (with_outputs (env_testnet env) outputs) 0
      (txFee (w_feePerKb w) (LWTransactionSize (with_outputs (env_testnet env) outputs) + TX_OUTPUT_SIZE))"
    have outs: "outputs \<noteq> []" "\<not> (outputs = [] \<or> list_ex (\<lambda>out. the_bytes (out_script out) = []) outputs)" using 1(2) by (auto split: if_splits)
    note body = 1(2) [unfolded if_not_P [OF outs(2)] Let_def]
    show ?case
    proof (intro impI allI)
      fix tx
      assume mod: "moderate w outputs" and tx: "fst res = Some tx"
      show "balanced (env_testnet env) w outputs tx"
      proof (cases ?sel)
        case (Selected tx0 b f)
        have enough: "\<not> b < ?amount + f" using body tx unfolding Selected selection.case by (auto split: if_splits)
        note balanced = selected_balanced [OF mod outs(1) Selected enough]
        show ?thesis
        proof (cases "b - (?amount + f) > LWWalletMinOutputAmount w")
          case True
          obtain as w1 rs1 where as: "LWWalletUnusedAddrs env True 1 True w = Some (as, w1)"
            "LWTransactionShuffleOutputs rs (LWTransactionAddOutput (env_testnet env) (b - (?amount + f))
               (Some (produced (LWAddressScriptPubKey (env_testnet env) (case as of [] \<Rightarrow> [] | a # _ \<Rightarrow> a)))) tx0) = Some (tx, rs1)"
            using body tx True unfolding Selected selection.case if_not_P [OF enough] by (auto split: Option.bind_splits prod.splits)
          note sh = shuffled [OF as(2) mod Selected]
          have "out_total [as_output (env_testnet env) a s] = unat a" for a s by (simp add: out_total_def as_output_fields)
          then show ?thesis
            by (intro balanced [OF sh]) simp_all
        next
          case False
          then have "tx = tx0" using body tx unfolding Selected selection.case if_not_P [OF enough] by auto
          then show ?thesis using balanced [of tx "[]"] by (simp add: out_total_def)
        qed
      next
        case (TooLarge b f)
        have "\<not> w_balance w < ?amount + txFee (w_feePerKb w) (10 + length (w_utxos w) * TX_INPUT_SIZE + (length outputs + 1) * TX_OUTPUT_SIZE)"
          using body tx unfolding TooLarge selection.case by (auto split: if_splits)
        note body' = body [unfolded TooLarge selection.case if_not_P [OF this]]
        show ?thesis
        proof (cases "out_amount (last outputs) > ?amount + f + LWWalletMinOutputAmount w - b")
          case True
          let ?out = "(last outputs)\<lparr>out_amount := out_amount (last outputs) - (?amount + f - b)\<rparr>"
          have "balanced (env_testnet env) w (butlast outputs @ [?out]) tx"
            using 1(1) [OF body' [unfolded if_P [OF True]]] adapted_moderate [OF mod outs(1) TooLarge refl True] tx by blast
          then show ?thesis using balanced_mono [OF serves_last [OF outs(1), where out = ?out]] by simp
        next
          case False
          have "balanced (env_testnet env) w (butlast outputs) tx"
            using 1(1) [OF body' [unfolded if_not_P [OF False]]] moderate_butlast [OF mod] tx by blast
          then show ?thesis using balanced_mono serves_butlast by blast
        qed
      qed
    qed
  qed
  then show ?thesis using assms(2,3) by simp
qed

subsection \<open>The fee of a transaction\<close>

lemma fee_inputs_known:
  "\<forall>i \<in> set ins. utxo_output w (outpoint i) \<noteq> None \<Longrightarrow> unat a + sum_list (map (utxo_value w \<circ> outpoint) ins) < 2 ^ 64 - 1 \<Longrightarrow>
   unat (fee_inputs w ins a) = unat a + sum_list (map (utxo_value w \<circ> outpoint) ins)"
proof (induction ins arbitrary: a)
  case (Cons i ins)
  obtain out where out: "utxo_output w (outpoint i) = Some out" using Cons.prems(1) by auto
  then obtain t where t: "w_allTx w (in_hash i) = Some t" "unat (in_index i) < length (tx_outputs t)" "out = tx_outputs t ! unat (in_index i)"
    by (auto simp: utxo_output_def outpoint_def split: option.splits if_splits)
  have v: "utxo_value w (outpoint i) = unat (out_amount out)" using out by (simp add: utxo_value_def)
  have "a \<noteq> UINT64_MAX" using Cons.prems(2) by (auto simp: UINT64_MAX_def)
  then have "fee_inputs w (i # ins) a = fee_inputs w ins (a + out_amount out)" using t by simp
  moreover have "unat (a + out_amount out) = unat a + unat (out_amount out)" using Cons.prems(2) v by (simp add: unat_word_ariths(1))
  ultimately show ?case using Cons.IH [of "a + out_amount out"] Cons.prems v by simp
qed simp

lemma fee_inputs_max: "fee_inputs w ins UINT64_MAX = UINT64_MAX"
  by (cases ins) simp_all

lemma fee_inputs_unknown: "i \<in> set ins \<Longrightarrow> utxo_output w (outpoint i) = None \<Longrightarrow> fee_inputs w ins a = UINT64_MAX"
proof (induction ins arbitrary: a)
  case (Cons j ins)
  show ?case
  proof (cases "j = i")
    case True
    then show ?thesis using Cons.prems(2) by (auto simp: utxo_output_def outpoint_def fee_inputs_max split: option.splits if_splits)
  qed (use Cons in simp)
qed simp

lemma fee_outputs_max: "fee_outputs outs UINT64_MAX = UINT64_MAX"
  by (cases outs) simp_all

lemma fee_outputs_total:
  "out_total outs \<le> unat a \<Longrightarrow> a \<noteq> UINT64_MAX \<Longrightarrow> unat (fee_outputs outs a) = unat a - out_total outs"
proof (induction outs arbitrary: a)
  case (Cons out outs)
  have s: "unat (a - out_amount out) = unat a - unat (out_amount out)" using Cons.prems(1) by (simp add: out_total_def unat_sub word_le_nat_alt)
  have "unat a \<noteq> unat UINT64_MAX" using Cons.prems(2) by (metis word_unat_eq_iff)
  then have "unat a < unat UINT64_MAX" using unat_u64_less [of a] by (simp add: UINT64_MAX_def)
  then have "a - out_amount out \<noteq> UINT64_MAX" using s by auto
  then show ?case using Cons.IH [of "a - out_amount out"] Cons.prems s by (simp add: out_total_def)
qed (simp add: out_total_def)

lemma subseq_keeps_distinct: "subseq xs ys \<Longrightarrow> distinct ys \<Longrightarrow> distinct xs"
  by (induction rule: list_emb.induct) (auto dest: list_emb_set)

lemma fee_known:
  assumes "\<forall>i \<in> set (tx_inputs tx). utxo_output w (outpoint i) \<noteq> None"
    "out_total (tx_outputs tx) \<le> sum_list (map (utxo_value w \<circ> outpoint) (tx_inputs tx))"
    "sum_list (map (utxo_value w \<circ> outpoint) (tx_inputs tx)) < 2 ^ 64 - 1"
  shows "unat (LWWalletFeeForTx tx w) = sum_list (map (utxo_value w \<circ> outpoint) (tx_inputs tx)) - out_total (tx_outputs tx)"
proof -
  have a: "unat (fee_inputs w (tx_inputs tx) 0) = sum_list (map (utxo_value w \<circ> outpoint) (tx_inputs tx))"
    using fee_inputs_known [OF assms(1), of 0] assms(3) by simp
  then have "fee_inputs w (tx_inputs tx) 0 \<noteq> UINT64_MAX" using assms(3) by (auto simp: UINT64_MAX_def)
  then show ?thesis using fee_outputs_total [of "tx_outputs tx" "fee_inputs w (tx_inputs tx) 0"] assms(2) a by (simp add: LWWalletFeeForTx_def)
qed

text \<open>
  The fee of a transaction is UINT64_MAX when one of its inputs is not an output of a
  transaction the wallet knows, and otherwise the sum of the amounts it spends less the sum of those it
  pays.
\<close>

theorem fee_for_tx:
  "((\<exists>i \<in> set (tx_inputs tx). utxo_output w (outpoint i) = None) \<longrightarrow> LWWalletFeeForTx tx w = UINT64_MAX) \<and>
   ((\<forall>i \<in> set (tx_inputs tx). utxo_output w (outpoint i) \<noteq> None) \<and>
    out_total (tx_outputs tx) \<le> sum_list (map (utxo_value w \<circ> outpoint) (tx_inputs tx)) \<and>
    sum_list (map (utxo_value w \<circ> outpoint) (tx_inputs tx)) < 2 ^ 64 - 1 \<longrightarrow>
    unat (LWWalletFeeForTx tx w) = sum_list (map (utxo_value w \<circ> outpoint) (tx_inputs tx)) - out_total (tx_outputs tx))"
  using fee_known [of tx w] fee_inputs_unknown by (auto simp: LWWalletFeeForTx_def fee_outputs_max)

text \<open>
  C2. As long as the amounts are far from the wrap-around of 64 bits (\<open>moderate\<close>: the outputs to spend, and the
  outputs requested, are worth less than 2^61 each in total, the fee rate is below 2^32, and the requested
  outputs take less than 2^29 bytes) and the wallet lists each output it can spend once, as computing the
  balance leaves it: a transaction the wallet creates spends distinct ones of these, with their amounts; it
  pays the requested outputs (or as many of the first of them as fit, with the amount of the last one
  adapted) and at most one more, the change; what it spends exceeds what it pays by a fee
  that is at least the one due for its size with a change output, and that is what the wallet
  reports as its fee.
\<close>

theorem create_balanced:
  assumes "LWWalletCreateTxForOutputs env rs outputs w = Some (Some tx, w', rs')" "moderate w outputs" "distinct (w_utxos w)"
  shows "balanced (env_testnet env) w outputs tx \<and> distinct (map outpoint (tx_inputs tx)) \<and>
    unat (LWWalletFeeForTx tx w) = sum_list (map (\<lambda>i. unat (in_amount i)) (tx_inputs tx)) - out_total (tx_outputs tx)"
proof -
  have b: "balanced (env_testnet env) w outputs tx" using CreateTx_balanced [OF assms(1,2)] by simp
  then obtain fee where p: "picked w (tx_inputs tx) (w_utxos w)"
    "sum_list (map (\<lambda>i. unat (in_amount i)) (tx_inputs tx)) = out_total (tx_outputs tx) + fee" unfolding balanced_def by blast
  have "subseq (map outpoint (tx_inputs tx)) (w_utxos w)" using p(1) by (simp add: picked_def)
  then have "distinct (map outpoint (tx_inputs tx))" using assms(3) by (rule subseq_keeps_distinct)
  moreover have v: "map (utxo_value w \<circ> outpoint) (tx_inputs tx) = map (\<lambda>i. unat (in_amount i)) (tx_inputs tx)"
    using p(1) by (auto simp: picked_def utxo_value_def)
  have "sum_list (map (\<lambda>i. unat (in_amount i)) (tx_inputs tx)) < 2 ^ 61" using picked_value [OF p(1)] moderateD(1) [OF assms(2)] by simp
  then have "unat (LWWalletFeeForTx tx w) = sum_list (map (\<lambda>i. unat (in_amount i)) (tx_inputs tx)) - out_total (tx_outputs tx)"
    using fee_known [of tx w] p unfolding v by (auto simp: picked_def)
  ultimately show ?thesis using b by simp
qed

text \<open>A wallet with one output of 6000 to spend.\<close>

definition purse :: LWWallet where
  "purse = (empty_wallet LW_MASTER_PUBKEY_NONE)\<lparr>w_utxos := [(replicate 32 1, 0)], w_feePerKb := 0,
     w_allTx := [replicate 32 1 \<mapsto> LWTransactionNew\<lparr>tx_hash := replicate 32 1,
       tx_outputs := [\<lparr>out_address = ''a'', out_amount = 6000, out_script = Some [1]\<rparr>]\<rparr>]\<rparr>"

definition payment :: LWTxOutput where
  "payment = \<lparr>out_address = [], out_amount = 5000, out_script = Some [1]\<rparr>"

definition plain_env :: "(u8, UInt256, unit) env" where
  "plain_env = \<lparr>env_ec = byte_ec, env_testnet = False, env_now = 0, env_moved = (\<lambda>c. False)\<rparr>"

lemma purse_created:
  "\<exists>tx i. LWWalletCreateTxForOutputs plain_env [] [payment] purse = Some (Some tx, purse, []) \<and>
    tx_inputs tx = [i] \<and> in_amount i = 6000 \<and> out_total (tx_outputs tx) = 5000"
proof -
  let ?out = "\<lparr>out_address = ''a'', out_amount = 6000, out_script = Some [1]\<rparr>"
  have u: "w_utxos purse = [(replicate 32 1, 0)]" "w_balance purse = 0" "w_feePerKb purse = 0"
    "utxo_output purse (replicate 32 1, 0) = Some ?out"
    by (simp_all add: purse_def empty_wallet_def utxo_output_def)
  let ?base = "with_outputs False [payment]"
  let ?tx = "add_input False (replicate 32 1, 0) ?out ?base"
  obtain i where i: "tx_inputs ?tx = [i]" "in_signature i = None" "in_amount i = 6000"
    using add_input_fields(1) [of False "(replicate 32 1, 0)" ?out ?base] by (auto simp: with_outputs_fields)
  have outs: "tx_outputs ?tx = [as_output False 5000 (Some [1])]" by (simp add: add_input_fields(2) with_outputs_fields payment_def)
  have "LWVarIntSize 1 = 1" by (simp add: LWVarIntSize_varint varint_def)
  then have size: "LWTransactionSize ?tx = 168"
    by (simp add: LWTransactionSize_def i outs as_output_fields the_bytes_def TX_INPUT_SIZE_def)
  have fee: "txFee 0 (168 + TX_OUTPUT_SIZE) = 1000" by (simp add: txFee_def TX_OUTPUT_SIZE_def TX_FEE_PER_KB_def)
  have sel: "select False purse 5000 m (w_utxos purse) ?base 0 f = Selected ?tx 6000 1000" for m f
    by (simp add: u Let_def size fee) (simp add: TX_MAX_SIZE_def TX_OUTPUT_SIZE_def)
  have "LWWalletCreateTxForOutputs plain_env [] [payment] purse = Some (Some ?tx, purse, [])"
    by (subst LWWalletCreateTxForOutputs.simps) (simp add: Let_def sel [unfolded payment_def] payment_def plain_env_def the_bytes_def)
  moreover have "out_total (tx_outputs ?tx) = 5000" by (simp add: outs out_total_def as_output_fields)
  ultimately show ?thesis using i by blast
qed

theorem create_balanced_witness:
  "\<exists>tx. LWWalletCreateTxForOutputs plain_env [] [payment] purse = Some (Some tx, purse, []) \<and> unat (LWWalletFeeForTx tx purse) = 1000"
proof -
  obtain tx i where tx: "LWWalletCreateTxForOutputs plain_env [] [payment] purse = Some (Some tx, purse, [])"
    "tx_inputs tx = [i]" "in_amount i = 6000" "out_total (tx_outputs tx) = 5000" using purse_created by blast
  have "moderate purse [payment]" "distinct (w_utxos purse)"
    by (simp_all add: moderate_def purse_def empty_wallet_def utxo_value_def utxo_output_def payment_def out_total_def outs_size_def the_bytes_def)
  from create_balanced [OF tx(1) this] show ?thesis using tx by simp
qed

theorem fee_for_tx_witness:
  "\<exists>tx. length (tx_inputs tx) = 1 \<and> LWWalletFeeForTx tx (empty_wallet LW_MASTER_PUBKEY_NONE) = UINT64_MAX"
proof -
  obtain tx i where tx: "tx_inputs (tx :: LWTransaction) = [i]" using purse_created by blast
  moreover have "utxo_output (empty_wallet LW_MASTER_PUBKEY_NONE) (outpoint i) = None" by (simp add: utxo_output_def empty_wallet_def)
  ultimately show ?thesis using fee_for_tx [of tx "empty_wallet LW_MASTER_PUBKEY_NONE"] by (intro exI [of _ tx]) simp
qed

text \<open>
  Without the bound on the amounts their sum wraps around: two outputs that are worth $2^{64} + 5000$ count
  as 5000, and a transaction is created that pays them from an output of 6000.
\<close>

lemma amounts_wrap:
  "\<exists>tx i. LWWalletCreateTxForOutputs plain_env [] [payment\<lparr>out_amount := 2 ^ 63\<rparr>, payment\<lparr>out_amount := 2 ^ 63 + 5000\<rparr>] purse =
      Some (Some tx, purse, []) \<and>
    tx_inputs tx = [i] \<and> in_amount i = 6000 \<and> out_total (tx_outputs tx) = 2 ^ 64 + 5000"
proof -
  let ?out = "\<lparr>out_address = ''a'', out_amount = 6000, out_script = Some [1]\<rparr>"
  let ?outs = "[\<lparr>out_address = [], out_amount = 9223372036854775808, out_script = Some [1]\<rparr>, \<lparr>out_address = [], out_amount = 9223372036854780808, out_script = Some [1]\<rparr>]"
  have u: "w_utxos purse = [(replicate 32 1, 0)]" "w_balance purse = 0" "w_feePerKb purse = 0"
    "utxo_output purse (replicate 32 1, 0) = Some ?out"
    by (simp_all add: purse_def empty_wallet_def utxo_output_def)
  let ?base = "with_outputs False ?outs"
  let ?tx = "add_input False (replicate 32 1, 0) ?out ?base"
  obtain i where i: "tx_inputs ?tx = [i]" "in_signature i = None" "in_amount i = 6000"
    using add_input_fields(1) [of False "(replicate 32 1, 0)" ?out ?base] by (auto simp: with_outputs_fields)
  have outs: "tx_outputs ?tx = [as_output False 9223372036854775808 (Some [1]), as_output False (9223372036854780808) (Some [1])]"
    by (simp add: add_input_fields(2) with_outputs_fields)
  have "LWVarIntSize 1 = 1" "LWVarIntSize 2 = 1" by (simp_all add: LWVarIntSize_varint varint_def)
  then have size: "LWTransactionSize ?tx = 178"
    by (simp add: LWTransactionSize_def i outs as_output_fields the_bytes_def TX_INPUT_SIZE_def)
  have fee: "txFee 0 (178 + TX_OUTPUT_SIZE) = 1000" by (simp add: txFee_def TX_OUTPUT_SIZE_def TX_FEE_PER_KB_def)
  have sel: "select False purse 5000 m (w_utxos purse) ?base 0 f = Selected ?tx 6000 1000" for m f
    by (simp add: u Let_def size fee) (simp add: TX_MAX_SIZE_def TX_OUTPUT_SIZE_def)
  have wrap: "(18446744073709556616 :: u64) = 5000" by simp
  have "LWWalletCreateTxForOutputs plain_env [] ?outs purse = Some (Some ?tx, purse, [])"
    by (subst LWWalletCreateTxForOutputs.simps) (simp add: Let_def sel wrap plain_env_def the_bytes_def)
  moreover have "out_total (tx_outputs ?tx) = 2 ^ 64 + 5000" by (simp add: outs out_total_def as_output_fields)
  ultimately show ?thesis using i by (simp add: payment_def)
qed

text \<open>
  When a transaction with a single requested output would become too large, the output is smaller
  than what is missing, and the wallet could pay for it, the output is dropped and the creation calls
  itself without outputs: an assertion fails.
\<close>

theorem single_output_dropped:
  assumes "select (env_testnet env) w (out_amount out) (LWWalletMinOutputAmount w) (w_utxos w) (with_outputs (env_testnet env) [out]) 0
      (txFee (w_feePerKb w) (LWTransactionSize (with_outputs (env_testnet env) [out]) + TX_OUTPUT_SIZE)) = TooLarge balance fee"
    "w_balance w \<ge> out_amount out + txFee (w_feePerKb w) (10 + length (w_utxos w) * TX_INPUT_SIZE + 2 * TX_OUTPUT_SIZE)"
    "out_amount out \<le> out_amount out + fee + LWWalletMinOutputAmount w - balance"
  shows "LWWalletCreateTxForOutputs env rs [out] w = None"
proof -
  have none: "LWWalletCreateTxForOutputs env rs [] w = None" by (subst LWWalletCreateTxForOutputs.simps) simp
  show ?thesis
  proof (cases "the_bytes (out_script out) = []")
    case False
    then show ?thesis using assms(1,2) leD [OF assms(3)] none by (subst LWWalletCreateTxForOutputs.simps) (auto simp: Let_def ac_simps dest: leD)
  qed (subst LWWalletCreateTxForOutputs.simps, simp)
qed

theorem single_output_dropped_witness:
  "LWWalletCreateTxForOutputs plain_env [] [payment\<lparr>out_script := Some (replicate 100000 1)\<rparr>] (purse\<lparr>w_balance := 10000000\<rparr>) = None"
proof (rule single_output_dropped)
  let ?w = "purse\<lparr>w_balance := 10000000\<rparr>" and ?o = "payment\<lparr>out_script := Some (replicate 100000 1)\<rparr>"
  let ?fee = "txFee (w_feePerKb ?w) (LWTransactionSize (with_outputs (env_testnet plain_env) [?o]) + TX_OUTPUT_SIZE)"
  have u: "w_utxos ?w = [(replicate 32 1, 0)]" "utxo_output ?w (replicate 32 1, 0) = Some \<lparr>out_address = ''a'', out_amount = 6000, out_script = Some [1]\<rparr>"
    "w_feePerKb ?w = 0" by (simp_all add: purse_def empty_wallet_def utxo_output_def)
  have big: "LWTransactionSize tx + TX_OUTPUT_SIZE > TX_MAX_SIZE" if "tx_outputs tx = [as_output t a (Some (replicate 100000 1))]" for tx t a
    using that by (simp add: LWTransactionSize_def as_output_fields the_bytes_def TX_MAX_SIZE_def)
  show "select (env_testnet plain_env) ?w (out_amount ?o) (LWWalletMinOutputAmount ?w) (w_utxos ?w) (with_outputs (env_testnet plain_env) [?o]) 0 ?fee =
      TooLarge 0 ?fee"
    by (simp add: u Let_def big [of _ False 5000] add_input_fields(2) with_outputs_fields payment_def plain_env_def)
  have "LWTransactionSize (with_outputs (env_testnet plain_env) [?o]) = 100023"
    by (simp add: LWTransactionSize_def with_outputs_fields as_output_fields the_bytes_def LWVarIntSize_varint varint_def)
  then have "?fee = 101000" by (simp only: u) (simp add: txFee_def TX_OUTPUT_SIZE_def TX_FEE_PER_KB_def)
  moreover have "LWWalletMinOutputAmount ?w = 546"
    by (simp add: LWWalletMinOutputAmount_def u TX_MIN_OUTPUT_AMOUNT_def MIN_FEE_PER_KB_def TX_FEE_PER_KB_def TX_OUTPUT_SIZE_def TX_INPUT_SIZE_def)
  ultimately show "out_amount ?o \<le> out_amount ?o + ?fee + LWWalletMinOutputAmount ?w - 0"
    by (simp only:) (simp add: payment_def)
  show "w_balance ?w \<ge> out_amount ?o + txFee (w_feePerKb ?w) (10 + length (w_utxos ?w) * TX_INPUT_SIZE + 2 * TX_OUTPUT_SIZE)"
    by (simp only: u) (simp add: txFee_def TX_OUTPUT_SIZE_def TX_INPUT_SIZE_def TX_FEE_PER_KB_def payment_def)
qed

end
