(* ===== verification/LW_WalletInv.thy ===== *)
theory LW_WalletInv
  imports LW_Spending
begin

text \<open>
  The wallet as a state machine: the order its transactions are kept in, the invariant of its state,
  the steps its operations make, and that they return.
\<close>

definition tx_height :: "LWWallet \<Rightarrow> UInt256 \<Rightarrow> u32" where
  "tx_height w h = (case w_allTx w h of None \<Rightarrow> 0 | Some t \<Rightarrow> tx_blockHeight t)"

subsection \<open>Where a transaction is inserted\<close>

lemma txIsAscending_height: "txIsAscending w (Some t1) (Some t2) = Some True \<Longrightarrow> tx_blockHeight t2 \<le> tx_blockHeight t1"
  by (subst (asm) txIsAscending.simps) (auto split: if_splits simp: not_less)

lemma txIsAscending_lower: "tx_blockHeight t2 < tx_blockHeight t1 \<Longrightarrow> txIsAscending w (Some t1) (Some t2) = Some True"
  by (subst txIsAscending.simps) simp

lemma txCompare_height:
  assumes "txCompare w t1 t2 = Some c"
  shows "if c > 0 then tx_blockHeight t2 \<le> tx_blockHeight t1 else tx_blockHeight t1 \<le> tx_blockHeight t2"
proof -
  obtain a where a: "txIsAscending w (Some t1) (Some t2) = Some a"
    using assms by (auto simp: txCompare_def split: Option.bind_splits)
  show ?thesis
  proof (cases a)
    case True
    then show ?thesis using a assms txIsAscending_height [of w t1 t2] by (auto simp: txCompare_def)
  next
    case False
    then have le: "tx_blockHeight t1 \<le> tx_blockHeight t2" using a txIsAscending_lower [of t2 t1 w] by force
    obtain d where d: "txIsAscending w (Some t2) (Some t1) = Some d"
      using assms a False by (auto simp: txCompare_def split: Option.bind_splits)
    show ?thesis
    proof (cases d)
      case True
      then show ?thesis using a d False assms le by (auto simp: txCompare_def)
    next
      case no: False
      then have "tx_blockHeight t2 \<le> tx_blockHeight t1" using d txIsAscending_lower [of t1 t2 w] by force
      then show ?thesis using le by simp
    qed
  qed
qed

text \<open>The insertion keeps the heights in order; the list is reversed, so they descend.\<close>

lemma insert_back_mset: "insert_back w tx hs = Some hs' \<Longrightarrow> mset hs' = add_mset (tx_hash tx) (mset hs)"
  by (induction hs arbitrary: hs') (auto split: Option.bind_splits if_splits)

lemma insert_back_sorted:
  "insert_back w tx hs = Some hs' \<Longrightarrow> sorted_wrt (\<lambda>a b. tx_height w b \<le> tx_height w a) hs \<Longrightarrow>
   tx_height w (tx_hash tx) = tx_blockHeight tx \<Longrightarrow> sorted_wrt (\<lambda>a b. tx_height w b \<le> tx_height w a) hs'"
proof (induction hs arbitrary: hs')
  case (Cons h hs)
  obtain t c where t: "w_allTx w h = Some t" and c: "txCompare w t tx = Some c"
    using Cons.prems(1) by (auto split: Option.bind_splits)
  have ht: "tx_height w h = tx_blockHeight t" using t by (simp add: tx_height_def)
  show ?case
  proof (cases "c > 0")
    case True
    then obtain hs2 where hs2: "insert_back w tx hs = Some hs2" "hs' = h # hs2"
      using Cons.prems(1) t c by (auto split: Option.bind_splits)
    have "set hs2 = insert (tx_hash tx) (set hs)" using insert_back_mset [OF hs2(1)] by (metis set_mset_add_mset_insert set_mset_mset)
    then show ?thesis using Cons hs2 txCompare_height [OF c] True ht by auto
  next
    case False
    then have "hs' = tx_hash tx # h # hs" using Cons.prems(1) t c by simp
    moreover have "tx_height w h \<le> tx_blockHeight tx" using txCompare_height [OF c] False ht by simp
    ultimately show ?thesis using Cons.prems by (auto intro: order_trans)
  qed
qed simp

definition height_sorted :: "LWWallet \<Rightarrow> bool" where
  "height_sorted w \<longleftrightarrow> sorted (map (tx_height w) (w_transactions w))"

lemma height_sorted_rev: "height_sorted w \<longleftrightarrow> sorted_wrt (\<lambda>a b. tx_height w b \<le> tx_height w a) (rev (w_transactions w))"
  by (simp add: height_sorted_def sorted_map sorted_wrt_rev)

lemma insertTx_sorted:
  assumes "insertTx tx w = Some w'" "height_sorted w" "w_allTx w (tx_hash tx) = Some tx"
  shows "height_sorted w'" "mset (w_transactions w') = add_mset (tx_hash tx) (mset (w_transactions w))"
    "w' = w\<lparr>w_transactions := w_transactions w'\<rparr>"
proof -
  obtain hs where hs: "insert_back w tx (rev (w_transactions w)) = Some hs" "w' = w\<lparr>w_transactions := rev hs\<rparr>"
    using assms(1) by (auto simp: insertTx_def split: Option.bind_splits)
  have "tx_height w' = tx_height w" "tx_height w (tx_hash tx) = tx_blockHeight tx"
    using hs(2) assms(3) by (auto simp: tx_height_def fun_eq_iff)
  then show "height_sorted w'" using insert_back_sorted [OF hs(1)] assms(2) hs(2) by (simp add: height_sorted_rev)
  show "mset (w_transactions w') = add_mset (tx_hash tx) (mset (w_transactions w))"
    using insert_back_mset [OF hs(1)] hs(2) by simp
  show "w' = w\<lparr>w_transactions := w_transactions w'\<rparr>" using hs(2) by simp
qed

subsection \<open>The order terminates\<close>

text \<open>
  A transaction names the ones it spends by their hashes, which it contains: a rank of hashes that
  falls along inputs exists as long as no hash function has been broken.
\<close>

definition ranked :: "(UInt256 \<Rightarrow> nat) \<Rightarrow> LWTransaction \<Rightarrow> bool" where
  "ranked r t \<longleftrightarrow> (\<forall>i \<in> set (tx_inputs t). r (in_hash i) < r (tx_hash t))"

definition all_ranked :: "(UInt256 \<Rightarrow> nat) \<Rightarrow> LWWallet \<Rightarrow> bool" where
  "all_ranked r w \<longleftrightarrow> (\<forall>h t. w_allTx w h = Some t \<longrightarrow> tx_hash t = h \<and> ranked r t)"

lemma any_m_returns: "(\<And>x. x \<in> set xs \<Longrightarrow> f x \<noteq> None) \<Longrightarrow> any_m f xs \<noteq> None"
  by (induction xs) (auto split: Option.bind_splits if_splits)

lemma txIsAscending_returns:
  assumes "all_ranked r w"
  shows "ranked r t1 \<Longrightarrow> txIsAscending w (Some t1) t2 \<noteq> None"
proof (induction "r (tx_hash t1)" arbitrary: t1 rule: less_induct)
  case less
  have "txIsAscending w (w_allTx w (in_hash i)) (Some t) \<noteq> None" if i: "i \<in> set (tx_inputs t1)" and t: "t2 = Some t" for i t
  proof (cases "w_allTx w (in_hash i)")
    case None
    then show ?thesis by (subst txIsAscending.simps) simp
  next
    case (Some q)
    then have "tx_hash q = in_hash i" "ranked r q" using assms by (auto simp: all_ranked_def)
    moreover have "r (in_hash i) < r (tx_hash t1)" using i less.prems by (auto simp: ranked_def)
    ultimately show ?thesis using less.hyps [of q] Some t by simp
  qed
  then have "any_m (\<lambda>i. txIsAscending w (w_allTx w (in_hash i)) (Some t)) (tx_inputs t1) \<noteq> None" if "t2 = Some t" for t
    using that by (intro any_m_returns)
  then show ?case by (cases t2; subst txIsAscending.simps) (simp_all del: not_None_eq)
qed

lemma txCompare_returns: "all_ranked r w \<Longrightarrow> ranked r t1 \<Longrightarrow> ranked r t2 \<Longrightarrow> txCompare w t1 t2 \<noteq> None"
  using txIsAscending_returns [of r w t1 "Some t2"] txIsAscending_returns [of r w t2 "Some t1"]
  by (auto simp: txCompare_def Let_def)

lemma insert_back_returns:
  "all_ranked r w \<Longrightarrow> ranked r tx \<Longrightarrow> set hs \<subseteq> dom (w_allTx w) \<Longrightarrow> insert_back w tx hs \<noteq> None"
proof (induction hs)
  case (Cons h hs)
  then obtain t where t: "w_allTx w h = Some t" by auto
  then obtain c where "txCompare w t tx = Some c" using txCompare_returns [of r w t tx] Cons.prems by (auto simp: all_ranked_def)
  then show ?case using Cons t by auto
qed simp

lemma insertTx_returns: "all_ranked r w \<Longrightarrow> ranked r tx \<Longrightarrow> set (w_transactions w) \<subseteq> dom (w_allTx w) \<Longrightarrow> insertTx tx w \<noteq> None"
  using insert_back_returns [of r w tx "rev (w_transactions w)"] by (auto simp: insertTx_def)

subsection \<open>The invariant\<close>

text \<open>A transaction as it may be registered, and the invariant of the wallet.\<close>

definition tx_ok :: "(UInt256 \<Rightarrow> nat) \<Rightarrow> LWTransaction \<Rightarrow> bool" where
  "tx_ok r t \<longleftrightarrow> LWTransactionIsSigned t \<and> length (tx_outputs t) < 2 ^ 32 \<and> tx_blockHeight t \<le> TX_UNCONFIRMED \<and>
     length (tx_hash t) = 32 \<and> tx_hash t \<noteq> UINT256_ZERO \<and> ranked r t \<and>
     (\<forall>i \<in> set (tx_inputs t). length (in_hash i) = 32 \<and> in_hash i \<noteq> UINT256_ZERO)"

definition wallet_inv :: "(UInt256 \<Rightarrow> nat) \<Rightarrow> LWWallet \<Rightarrow> bool" where
  "wallet_inv r w \<longleftrightarrow> distinct (w_transactions w) \<and> set (w_transactions w) \<subseteq> dom (w_allTx w) \<and>
     (\<forall>h t. w_allTx w h = Some t \<longrightarrow> tx_hash t = h \<and> tx_ok r t) \<and> height_sorted w \<and>
     w_allAddrs w = set (w_internalChain w) \<union> set (w_externalChain w)"

definition all_contained :: "LWWallet \<Rightarrow> bool" where
  "all_contained w \<longleftrightarrow> (\<forall>h \<in> set (w_transactions w). \<forall>t. w_allTx w h = Some t \<longrightarrow> containsTx w t)"

lemma wallet_invI:
  assumes "distinct (w_transactions w)" "set (w_transactions w) \<subseteq> dom (w_allTx w)"
    "\<And>h t. w_allTx w h = Some t \<Longrightarrow> tx_hash t = h \<and> tx_ok r t" "height_sorted w"
    "w_allAddrs w = set (w_internalChain w) \<union> set (w_externalChain w)"
  shows "wallet_inv r w"
  using assms unfolding wallet_inv_def by blast

lemma wallet_invD:
  assumes "wallet_inv r w"
  shows "distinct (w_transactions w)" "set (w_transactions w) \<subseteq> dom (w_allTx w)"
    "w_allTx w h = Some t \<Longrightarrow> tx_hash t = h" "w_allTx w h = Some t \<Longrightarrow> tx_ok r t" "height_sorted w"
    "w_allAddrs w = set (w_internalChain w) \<union> set (w_externalChain w)" "all_ranked r w" "wallet_ok w"
  using assms unfolding wallet_inv_def all_ranked_def wallet_ok_def tx_ok_def by blast+

text \<open>Both speak of the transactions and addresses only.\<close>

definition same_core :: "LWWallet \<Rightarrow> LWWallet \<Rightarrow> bool" where
  "same_core w w' \<longleftrightarrow> w_transactions w' = w_transactions w \<and> w_allTx w' = w_allTx w \<and> w_allAddrs w' = w_allAddrs w \<and>
     w_internalChain w' = w_internalChain w \<and> w_externalChain w' = w_externalChain w"

lemma same_txs_core: "same_txs w w' \<Longrightarrow> same_core w w'"
  by (simp add: same_txs_def same_core_def)

lemma tx_height_cong: "w_allTx w' = w_allTx w \<Longrightarrow> tx_height w' = tx_height w"
  by (simp add: tx_height_def fun_eq_iff)

lemma containsTx_mono:
  assumes "containsTx w t" "w_allTx w \<subseteq>\<^sub>m w_allTx w'" "w_allAddrs w \<subseteq> w_allAddrs w'"
  shows "containsTx w' t"
proof -
  have "wallet_output w' h n \<noteq> None" if "wallet_output w h n \<noteq> None" for h n
    using that assms(2,3) by (auto simp: wallet_output_def map_le_def dom_def split: option.splits if_splits)
  then show ?thesis using assms(1,3) by (fastforce simp: containsTx_def list_ex_iff)
qed

lemma core_inv: "same_core w w' \<Longrightarrow> wallet_inv r w \<Longrightarrow> wallet_inv r w'"
  unfolding same_core_def wallet_inv_def height_sorted_def using tx_height_cong [of w' w] by metis

lemma core_contained: "same_core w w' \<Longrightarrow> all_contained w \<Longrightarrow> all_contained w'"
  unfolding same_core_def all_contained_def using containsTx_mono [of w _ w'] by (metis map_le_refl order_refl)

lemma updateBalance_core: "wallet_inv r w \<Longrightarrow> \<exists>w'. updateBalance now w = Some w' \<and> same_core w w'"
  using updateBalance_spec [of w now] wallet_invD(8) same_txs_core by blast

lemma updateBalance_inv:
  "wallet_inv r w \<Longrightarrow> updateBalance now w = Some w' \<Longrightarrow> wallet_inv r w'"
  "wallet_inv r w \<Longrightarrow> all_contained w \<Longrightarrow> updateBalance now w = Some w' \<Longrightarrow> all_contained w'"
  using updateBalance_core [of r w now] core_inv core_contained by force+

subsection \<open>Address chains\<close>

lemma addr_loop_extends:
  assumes "addr_loop derive used gapLimit i chain = Some res"
  shows "\<exists>more. snd res = chain @ more"
  using assms
proof (rule addr_loop.raw_induct [of "\<lambda>derive used gapLimit i chain res. \<exists>more. snd res = chain @ more", rotated])
  fix loop :: "(nat \<Rightarrow> string option option) \<Rightarrow> string set \<Rightarrow> nat \<Rightarrow> nat \<Rightarrow> string list \<Rightarrow> (nat \<times> string list) option"
    and derive used gapLimit i chain res
  assume IH: "\<And>derive used gapLimit i chain res. loop derive used gapLimit i chain = Some res \<Longrightarrow> \<exists>more. snd res = chain @ more"
  assume "(if length chain < i + gapLimit
      then Option.bind (derive (length chain)) (\<lambda>a. case a of None \<Rightarrow> Some (i, chain)
        | Some address \<Rightarrow> loop derive used gapLimit (if address \<in> used then length chain + 1 else i) (chain @ [address]))
      else Some (i, chain)) = Some res"
  then show "\<exists>more. snd res = chain @ more"
    by (auto split: if_splits Option.bind_splits option.splits dest: IH)
qed

lemma UnusedAddrs_grows:
  assumes "LWWalletUnusedAddrs env addrs gapLimit internal w = Some (as, w')"
    "w_allAddrs w = set (w_internalChain w) \<union> set (w_externalChain w)"
  shows "w_allAddrs w' = set (w_internalChain w') \<union> set (w_externalChain w')" "w_allAddrs w \<subseteq> w_allAddrs w'"
    "w_transactions w' = w_transactions w" "w_allTx w' = w_allTx w"
proof -
  let ?chain = "if internal then w_internalChain w else w_externalChain w"
  obtain i chain' where loop: "addr_loop (derive_address env (w_masterPubKey w) (if internal then SEQUENCE_INTERNAL_CHAIN else SEQUENCE_EXTERNAL_CHAIN))
      (w_usedAddrs w) (unat gapLimit) (length (dropWhile (\<lambda>a. a \<notin> w_usedAddrs w) (rev ?chain))) ?chain = Some (i, chain')"
    using assms(1) by (auto simp: LWWalletUnusedAddrs_def Let_def split: if_splits Option.bind_splits)
  then obtain more where more: "chain' = ?chain @ more" using addr_loop_extends by fastforce
  let ?w = "if internal then w\<lparr>w_internalChain := chain'\<rparr> else w\<lparr>w_externalChain := chain'\<rparr>"
  have w': "w' = ?w\<lparr>w_allAddrs := if \<not> env_moved env chain' then w_allAddrs w \<union> set (drop (length ?chain) chain')
      else set (w_internalChain ?w) \<union> set (w_externalChain ?w)\<rparr>"
    using assms(1) loop by (auto simp: LWWalletUnusedAddrs_def Let_def split: if_splits)
  show "w_allAddrs w' = set (w_internalChain w') \<union> set (w_externalChain w')" "w_allAddrs w \<subseteq> w_allAddrs w'"
    "w_transactions w' = w_transactions w" "w_allTx w' = w_allTx w"
    unfolding w' using assms(2) more by (cases internal; auto)+
qed

lemma grown_inv:
  assumes "w_allAddrs w' = set (w_internalChain w') \<union> set (w_externalChain w')" "w_allAddrs w \<subseteq> w_allAddrs w'"
    "w_transactions w' = w_transactions w" "w_allTx w' = w_allTx w"
  shows "wallet_inv r w \<Longrightarrow> wallet_inv r w'" "all_contained w \<Longrightarrow> all_contained w'"
proof -
  assume "wallet_inv r w"
  note I = wallet_invD [OF this]
  show "wallet_inv r w'"
    using I(1-5) assms tx_height_cong [OF assms(4)] by (intro wallet_invI) (auto simp: height_sorted_def)
next
  assume "all_contained w"
  then show "all_contained w'" using assms containsTx_mono [of w _ w'] by (auto simp: all_contained_def)
qed

lemma UnusedAddrs_inv:
  assumes "LWWalletUnusedAddrs env addrs gapLimit internal w = Some (as, w')" "wallet_inv r w"
  shows "wallet_inv r w'" "all_contained w \<Longrightarrow> all_contained w'"
  using grown_inv [OF UnusedAddrs_grows [OF assms(1) wallet_invD(6) [OF assms(2)]]] assms(2) by blast+

subsection \<open>Registering\<close>

lemma inv_known:
  assumes "wallet_inv r w" "tx_ok r tx" "w_allTx w (tx_hash tx) = None"
  shows "wallet_inv r (w\<lparr>w_allTx := (w_allTx w)(tx_hash tx \<mapsto> tx)\<rparr>)"
    "all_contained w \<Longrightarrow> all_contained (w\<lparr>w_allTx := (w_allTx w)(tx_hash tx \<mapsto> tx)\<rparr>)"
proof -
  note I = wallet_invD [OF assms(1)]
  let ?w = "w\<lparr>w_allTx := (w_allTx w)(tx_hash tx \<mapsto> tx)\<rparr>"
  have new: "tx_hash tx \<notin> set (w_transactions w)" using I(2) assms(3) by auto
  then have "map (tx_height ?w) (w_transactions w) = map (tx_height w) (w_transactions w)" by (auto simp: tx_height_def)
  then have "height_sorted ?w" using I(5) by (simp add: height_sorted_def del: map_eq_conv)
  then show "wallet_inv r ?w" using I(1-4,6) assms(2) by (intro wallet_invI) (auto split: if_splits)
  have "w_allTx w \<subseteq>\<^sub>m w_allTx ?w" using assms(3) by (auto simp: map_le_def)
  then show "all_contained w \<Longrightarrow> all_contained ?w"
    using new containsTx_mono [of w _ ?w] by (auto simp: all_contained_def)
qed

lemma insertTx_inv:
  assumes "insertTx tx w = Some w'" "wallet_inv r w" "w_allTx w (tx_hash tx) = Some tx" "tx_hash tx \<notin> set (w_transactions w)"
  shows "wallet_inv r w'" "set (w_transactions w') = insert (tx_hash tx) (set (w_transactions w))"
    "all_contained w \<Longrightarrow> containsTx w tx \<Longrightarrow> all_contained w'" "w_allTx w' = w_allTx w"
proof -
  note I = wallet_invD [OF assms(2)] and ins = insertTx_sorted [OF assms(1) I(5) assms(3)]
  show s: "set (w_transactions w') = insert (tx_hash tx) (set (w_transactions w))"
    using ins(2) by (metis set_mset_add_mset_insert set_mset_mset)
  have "mset (w_transactions w') = mset (tx_hash tx # w_transactions w)" using ins(2) by simp
  then have "distinct (w_transactions w')" using I(1) assms(4) by (metis distinct.simps(2) mset_eq_imp_distinct_iff)
  moreover have same: "w_allTx w' = w_allTx w" "w_allAddrs w' = w_allAddrs w" "w_internalChain w' = w_internalChain w"
    "w_externalChain w' = w_externalChain w" using arg_cong [OF ins(3), of w_allTx] arg_cong [OF ins(3), of w_allAddrs]
    arg_cong [OF ins(3), of w_internalChain] arg_cong [OF ins(3), of w_externalChain] by simp_all
  moreover have "set (w_transactions w') \<subseteq> dom (w_allTx w')" using s same(1) I(2) assms(3) by auto
  ultimately show "wallet_inv r w'" using I(3,4,6) ins(1) by (intro wallet_invI) (simp_all only: same)
  show "all_contained w \<Longrightarrow> containsTx w tx \<Longrightarrow> all_contained w'"
    using s same containsTx_mono [of w _ w'] assms(3) by (auto simp: all_contained_def)
  show "w_allTx w' = w_allTx w" by fact
qed

lemma Register_inv:
  assumes "LWWalletRegisterTransaction env tx w = Some (b, w', ev)" "wallet_inv r w" "tx_ok r tx"
  shows "wallet_inv r w'" "all_contained w \<Longrightarrow> all_contained w'"
proof -
  let ?w = "w\<lparr>w_allTx := (w_allTx w)(tx_hash tx \<mapsto> tx)\<rparr>"
  consider "w' = w" | "w_allTx w (tx_hash tx) = None" "w' = ?w"
    | (added) w1 w2 w3 as as' where "w_allTx w (tx_hash tx) = None" "containsTx w tx" "insertTx tx ?w = Some w1"
        "updateBalance (env_now env) w1 = Some w2" "LWWalletUnusedAddrs env False SEQUENCE_GAP_LIMIT_EXTERNAL False w2 = Some (as, w3)"
        "LWWalletUnusedAddrs env False SEQUENCE_GAP_LIMIT_INTERNAL True w3 = Some (as', w')"
  proof (cases "w_allTx w (tx_hash tx) = None \<and> containsTx w tx")
    case True
    then show ?thesis using assms(1) added unfolding LWWalletRegisterTransaction_def
      by (auto simp: bind_eq_Some_conv split: if_splits prod.splits)
  next
    case False
    then show ?thesis using assms(1) that(1,2) unfolding LWWalletRegisterTransaction_def by (auto split: if_splits)
  qed
  then have "wallet_inv r w' \<and> (all_contained w \<longrightarrow> all_contained w')"
  proof cases
    case 2
    then show ?thesis using inv_known [OF assms(2,3)] by simp
  next
    case added
    note known = inv_known [OF assms(2,3) added(1)]
    have new: "tx_hash tx \<notin> set (w_transactions ?w)" using wallet_invD(2) [OF assms(2)] added(1) by auto
    have c: "containsTx ?w tx" using added(1,2) by (elim containsTx_mono) (auto simp: map_le_def)
    note ins = insertTx_inv [OF added(3) known(1) _ new, simplified]
    note bal = updateBalance_inv(1) [OF ins(1) added(4)] updateBalance_inv(2) [OF ins(1) _ added(4)]
    note as = UnusedAddrs_inv [OF added(5) bal(1)]
    note as' = UnusedAddrs_inv [OF added(6) as(1)]
    show ?thesis using as' as(2) bal(2) ins(3) c known(2) by blast
  qed (use assms(2) in simp)
  then show "wallet_inv r w'" "all_contained w \<Longrightarrow> all_contained w'" by simp_all
qed

subsection \<open>Removing\<close>

text \<open>
  No listed transaction is below one it spends an output of: what a block chain guarantees, but the
  wallet does not check.
\<close>

definition parents_first :: "LWWallet \<Rightarrow> bool" where
  "parents_first w \<longleftrightarrow> (\<forall>x \<in> set (w_transactions w). \<forall>p t q. w_allTx w x = Some t \<longrightarrow> w_allTx w p = Some q \<longrightarrow>
     spends t p \<longrightarrow> tx_blockHeight q \<le> tx_blockHeight t)"

text \<open>A transaction and the listed ones that spend its outputs, or theirs, and so on.\<close>

inductive descends :: "LWWallet \<Rightarrow> UInt256 \<Rightarrow> UInt256 \<Rightarrow> bool" for w h where
  self: "descends w h h"
| child: "descends w h p \<Longrightarrow> x \<in> set (w_transactions w) \<Longrightarrow> w_allTx w x = Some t \<Longrightarrow> spends t p \<Longrightarrow> descends w h x"

lemma descends_trans: "descends w p x \<Longrightarrow> descends w h p \<Longrightarrow> descends w h x"
  by (induction rule: descends.induct) (auto intro: descends.child)

lemma descends_listed: "descends w h x \<Longrightarrow> x = h \<or> x \<in> set (w_transactions w)"
  by (induction rule: descends.induct) auto

lemma finite_descends: "finite {x. descends w h x}"
  by (rule finite_subset [of _ "insert h (set (w_transactions w))"]) (auto dest: descends_listed)

lemma spends_iff: "wallet_inv r w \<Longrightarrow> w_allTx w x = Some t \<Longrightarrow> length p = 32 \<Longrightarrow> spends t p \<longleftrightarrow> (\<exists>i \<in> set (tx_inputs t). in_hash i = p)"
  using wallet_invD(4) [of r w x t] by (auto simp: spends_def list_ex_iff tx_ok_def)

lemma known_length: "wallet_inv r w \<Longrightarrow> w_allTx w x = Some t \<Longrightarrow> length x = 32 \<and> x \<noteq> UINT256_ZERO \<and> \<not> UInt256IsZero x"
  using wallet_invD(3,4) [of r w x t] by (auto simp: tx_ok_def UInt256IsZero_iff)

lemma spends_rank:
  assumes "wallet_inv r w" "w_allTx w x = Some t" "length p = 32" "spends t p"
  shows "r p < r x"
  using spends_iff [OF assms(1-3)] wallet_invD(3,4) [OF assms(1,2)] assms(4) by (auto simp: tx_ok_def ranked_def)

lemma descends_rank: "descends w h x \<Longrightarrow> wallet_inv r w \<Longrightarrow> w_allTx w h \<noteq> None \<Longrightarrow> w_allTx w x \<noteq> None \<and> r h \<le> r x \<and> (x \<noteq> h \<longrightarrow> r h < r x)"
proof (induction rule: descends.induct)
  case (child p x t)
  then have "r p < r x" using spends_rank [of r w x t p] known_length [of r w p] by auto
  then show ?case using child by auto
qed simp

text \<open>The wallet without the transactions of a set.\<close>

definition without :: "UInt256 set \<Rightarrow> LWWallet \<Rightarrow> LWWallet \<Rightarrow> bool" where
  "without X w w' \<longleftrightarrow> w_transactions w' = filter (\<lambda>x. x \<notin> X) (w_transactions w) \<and> w_allTx w' = w_allTx w |` (- X) \<and>
     w_allAddrs w' = w_allAddrs w \<and> w_internalChain w' = w_internalChain w \<and> w_externalChain w' = w_externalChain w"

lemma without_trans: "without X w w1 \<Longrightarrow> without Y w1 w2 \<Longrightarrow> without (X \<union> Y) w w2"
  by (simp add: without_def)

lemma without_core: "without X w w1 \<Longrightarrow> same_core w1 w2 \<Longrightarrow> without X w w2"
  by (simp add: without_def same_core_def)

lemma without_inv:
  assumes "without X w w'" "wallet_inv r w"
  shows "wallet_inv r w'" "parents_first w \<Longrightarrow> parents_first w'"
proof -
  note I = wallet_invD [OF assms(2)] and W = assms(1) [unfolded without_def]
  have eq: "tx_height w' x = tx_height w x" if "x \<notin> X" for x using W that by (simp add: tx_height_def)
  have "map (tx_height w') (w_transactions w') = map (tx_height w) (filter (\<lambda>x. x \<notin> X) (w_transactions w))"
    using W eq by simp
  then have "height_sorted w'" using I(5) by (simp only: height_sorted_def sorted_filter)
  moreover have "set (w_transactions w') \<subseteq> dom (w_allTx w')" using W I(2) by auto
  moreover have "tx_hash t = h \<and> tx_ok r t" if "w_allTx w' h = Some t" for h t
    using that W I(3,4) [of h t] by (simp add: restrict_map_def split: if_splits)
  ultimately show "wallet_inv r w'" using W I(1,6) by (intro wallet_invI) auto
  show "parents_first w \<Longrightarrow> parents_first w'" using W unfolding parents_first_def by (auto simp: restrict_map_def split: if_splits)
qed

text \<open>What remains is still the wallet's when the set holds all that depend on it.\<close>

lemma without_contained:
  assumes "without X w w'" "wallet_inv r w" "all_contained w"
    and closed: "\<And>p x t. p \<in> X \<Longrightarrow> x \<in> set (w_transactions w) \<Longrightarrow> w_allTx w x = Some t \<Longrightarrow> spends t p \<Longrightarrow> x \<in> X"
  shows "all_contained w'"
  unfolding all_contained_def
proof (intro ballI allI impI)
  fix x t
  note W = assms(1) [unfolded without_def]
  assume x: "x \<in> set (w_transactions w')" "w_allTx w' x = Some t"
  then have old: "x \<in> set (w_transactions w)" "x \<notin> X" "w_allTx w x = Some t" using W by (auto simp: restrict_map_def split: if_splits)
  have c: "containsTx w t" using assms(3) old by (auto simp: all_contained_def)
  have "in_hash i \<notin> X" if "i \<in> set (tx_inputs t)" "wallet_output w (in_hash i) n \<noteq> None" for i n
  proof
    assume "in_hash i \<in> X"
    moreover have "length (in_hash i) = 32" using that(1) wallet_invD(4) [OF assms(2) old(3)] by (auto simp: tx_ok_def)
    then have "spends t (in_hash i)" using spends_iff [OF assms(2) old(3)] that(1) by auto
    ultimately show False using closed old by blast
  qed
  moreover have "wallet_output w' p n = wallet_output w p n" if "p \<notin> X" for p n
    using that W by (simp add: wallet_output_def split: option.split)
  ultimately have "wallet_output w' (in_hash i) (in_index i) \<noteq> None" if "i \<in> set (tx_inputs t)" "wallet_output w (in_hash i) (in_index i) \<noteq> None" for i
    using that by metis
  then show "containsTx w' t" using c W unfolding containsTx_def list_ex_iff by metis
qed

lemma dependents_children:
  assumes "wallet_inv r w" "w_allTx w h = Some tx"
  shows "set hs \<subseteq> set (w_transactions w) \<Longrightarrow> sorted_wrt (\<lambda>a b. tx_height w b \<le> tx_height w a) hs \<Longrightarrow> parents_first w \<Longrightarrow>
    dependents w tx hs = Some (filter (\<lambda>x. \<exists>t. w_allTx w x = Some t \<and> spends t h) hs)"
proof (induction hs)
  case (Cons x hs)
  note I = wallet_invD [OF assms(1)]
  obtain t where t: "w_allTx w x = Some t" using Cons.prems(1) I(2) by auto
  have hash: "tx_hash tx = h" "tx_hash t = x" "length h = 32" "length x = 32"
    using I(3) t assms(2) known_length [OF assms(1)] by auto
  have above: "tx_blockHeight tx \<le> tx_height w y" if "y \<in> set (x # hs)" "w_allTx w y = Some s" "spends s h" for y s
  proof -
    have "y \<in> set (w_transactions w)" using that(1) Cons.prems(1) by auto
    then have "tx_blockHeight tx \<le> tx_blockHeight s" using that(2,3) assms(2) Cons.prems(3) unfolding parents_first_def by blast
    then show ?thesis using that(2) by (simp add: tx_height_def)
  qed
  show ?case
  proof (cases "tx_blockHeight t < tx_blockHeight tx")
    case True
    then have "tx_height w y < tx_blockHeight tx" if "y \<in> set (x # hs)" for y
      using that Cons.prems(2) t by (auto simp: tx_height_def [of w x])
    then have "filter (\<lambda>x. \<exists>t. w_allTx w x = Some t \<and> spends t h) (x # hs) = []"
      using above unfolding filter_empty_conv by (meson not_less)
    then show ?thesis using True t by simp
  next
    case False
    have "LWTransactionEq tx t \<longleftrightarrow> h = x" by (simp add: LWTransactionEq_def hash)
    moreover have "h \<noteq> x" if "spends t h" using spends_rank [OF assms(1) t hash(3) that] by auto
    ultimately have e: "spends t h \<Longrightarrow> \<not> LWTransactionEq tx t" by blast
    have "dependents w tx hs = Some (filter (\<lambda>x. \<exists>t. w_allTx w x = Some t \<and> spends t h) hs)"
      using Cons.prems by (intro Cons.IH) auto
    then show ?thesis using e by (cases "spends t h") (simp_all add: t False hash)
  qed
qed simp

lemma remove_back_remove1:
  assumes "length h = 32"
  shows "\<forall>x \<in> set hs. \<exists>t. w_allTx w x = Some t \<and> tx_hash t = x \<and> length x = 32 \<Longrightarrow> remove_back w h hs = Some (remove1 h hs)"
proof (induction hs)
  case (Cons x hs)
  then obtain t where t: "w_allTx w x = Some t" "tx_hash t = x" "length x = 32" by auto
  then show ?case using Cons assms by auto
qed simp

lemma removeTx_filter:
  assumes "distinct (w_transactions w)" "length h = 32"
    "\<forall>x \<in> set (w_transactions w). \<exists>t. w_allTx w x = Some t \<and> tx_hash t = x \<and> length x = 32"
  shows "removeTx h w = Some (w\<lparr>w_transactions := filter (\<lambda>x. x \<noteq> h) (w_transactions w)\<rparr>)"
proof -
  have "remove1 h (rev (w_transactions w)) = filter (\<lambda>x. x \<noteq> h) (rev (w_transactions w))"
    using assms(1) by (simp add: distinct_remove1_removeAll removeAll_filter_not_eq [of h] eq_commute [of h])
  then show ?thesis using remove_back_remove1 [OF assms(2), of "rev (w_transactions w)" w] assms(3) by (simp add: removeTx_def rev_filter)
qed

lemma listed_hashes: "wallet_inv r w \<Longrightarrow> \<forall>x \<in> set (w_transactions w). \<exists>t. w_allTx w x = Some t \<and> tx_hash t = x \<and> length x = 32"
  using wallet_invD(2,3) [of r w] known_length [of r w] by blast

subsection \<open>What the questions about a transaction answer\<close>

text \<open>The unconfirmed transaction itself, and the known ones its inputs lead to while they are unconfirmed.\<close>

inductive unconfirmed_ancestor :: "LWWallet \<Rightarrow> LWTransaction \<Rightarrow> LWTransaction \<Rightarrow> bool" for w where
  self: "tx_blockHeight t = TX_UNCONFIRMED \<Longrightarrow> unconfirmed_ancestor w t t"
| input: "tx_blockHeight t = TX_UNCONFIRMED \<Longrightarrow> i \<in> set (tx_inputs t) \<Longrightarrow> w_allTx w (in_hash i) = Some q \<Longrightarrow>
    unconfirmed_ancestor w q a \<Longrightarrow> unconfirmed_ancestor w t a"

inductive_cases unconfirmed_ancestorE: "unconfirmed_ancestor w t a"

definition all_ancestors :: "LWWallet \<Rightarrow> (LWTransaction \<Rightarrow> bool) \<Rightarrow> LWTransaction \<Rightarrow> bool" where
  "all_ancestors w P t \<longleftrightarrow> (\<forall>a. unconfirmed_ancestor w t a \<longrightarrow> P a)"

lemma all_ancestors_confirmed: "tx_blockHeight t \<noteq> TX_UNCONFIRMED \<Longrightarrow> all_ancestors w P t"
  by (auto simp: all_ancestors_def elim: unconfirmed_ancestorE)

lemma all_ancestors_rec:
  assumes "tx_blockHeight t = TX_UNCONFIRMED"
  shows "all_ancestors w P t \<longleftrightarrow> P t \<and>
    \<not> list_ex (\<lambda>i. case w_allTx w (in_hash i) of None \<Rightarrow> False | Some q \<Rightarrow> \<not> all_ancestors w P q) (tx_inputs t)" (is "_ \<longleftrightarrow> ?r")
proof
  assume "all_ancestors w P t"
  then show ?r using assms unconfirmed_ancestor.intros unfolding all_ancestors_def list_ex_iff
    by (auto split: option.splits)
next
  assume r: ?r
  show "all_ancestors w P t" unfolding all_ancestors_def
  proof (intro allI impI)
    fix a
    assume "unconfirmed_ancestor w t a"
    then show "P a" using r by (cases rule: unconfirmed_ancestor.cases) (auto simp: list_ex_iff all_ancestors_def split: option.splits)
  qed
qed

lemma forHash_input: "tx_ok r t \<Longrightarrow> i \<in> set (tx_inputs t) \<Longrightarrow> LWWalletTransactionForHash (in_hash i) w = Some (w_allTx w (in_hash i))"
  by (auto simp: tx_ok_def LWWalletTransactionForHash_def UInt256IsZero_iff)

text \<open>A question that is passed on along the inputs, of lower rank.\<close>

lemma input_below:
  assumes "wallet_inv r w" "tx_ok r t" "i \<in> set (tx_inputs t)" "w_allTx w (in_hash i) = Some q"
  shows "r (tx_hash q) < r (tx_hash t)" "tx_ok r q"
  using wallet_invD(3,4) [OF assms(1,4)] assms(2,3) by (auto simp: tx_ok_def ranked_def)

definition own_valid :: "LWWallet \<Rightarrow> LWTransaction \<Rightarrow> bool" where
  "own_valid w t \<longleftrightarrow> (if w_allTx w (tx_hash t) = None then \<not> list_ex (\<lambda>i. outpoint i \<in> w_spentOutputs w) (tx_inputs t)
     else tx_hash t \<notin> w_invalidTx w)"

definition own_pending :: "int \<Rightarrow> LWWallet \<Rightarrow> LWTransaction \<Rightarrow> bool" where
  "own_pending now w t \<longleftrightarrow> LWTransactionSize t > TX_MAX_SIZE \<or> list_ex (input_locked now (w_blockHeight w) t) (tx_inputs t) \<or> has_dust t"

lemma IsValid_spec:
  assumes "wallet_inv r w"
  shows "tx_ok r t \<Longrightarrow> LWWalletTransactionIsValid t w = Some (all_ancestors w (own_valid w) t)"
proof (induction "r (tx_hash t)" arbitrary: t rule: less_induct)
  case less
  have signed: "LWTransactionIsSigned t" using less.prems by (simp add: tx_ok_def)
  let ?bad = "\<lambda>i. case w_allTx w (in_hash i) of None \<Rightarrow> False | Some q \<Rightarrow> \<not> all_ancestors w (own_valid w) q"
  have "do { t \<leftarrow> LWWalletTransactionForHash (in_hash i) w;
      (case t of None \<Rightarrow> Some False | Some t \<Rightarrow> do { v \<leftarrow> LWWalletTransactionIsValid t w; Some (\<not> v) }) } = Some (?bad i)"
    if i: "i \<in> set (tx_inputs t)" for i
    using forHash_input [OF less.prems i] less.hyps input_below [OF assms less.prems i] by (cases "w_allTx w (in_hash i)") auto
  note any = any_m_total [OF this]
  show ?case
  proof (cases "tx_blockHeight t = TX_UNCONFIRMED")
    case True
    show ?thesis
      using True by (subst LWWalletTransactionIsValid.simps)
        (simp add: signed any all_ancestors_rec [OF True] own_valid_def)
  next
    case False
    then show ?thesis by (subst LWWalletTransactionIsValid.simps) (simp add: signed all_ancestors_confirmed)
  qed
qed

lemma IsPending_spec:
  assumes "wallet_inv r w"
  shows "tx_ok r t \<Longrightarrow> LWWalletTransactionIsPending now t w = Some (\<not> all_ancestors w (\<lambda>a. \<not> own_pending now w a) t)"
proof (induction "r (tx_hash t)" arbitrary: t rule: less_induct)
  case less
  have signed: "LWTransactionIsSigned t" using less.prems by (simp add: tx_ok_def)
  let ?bad = "\<lambda>i. case w_allTx w (in_hash i) of None \<Rightarrow> False | Some q \<Rightarrow> \<not> all_ancestors w (\<lambda>a. \<not> own_pending now w a) q"
  have "do { t \<leftarrow> LWWalletTransactionForHash (in_hash i) w;
      (case t of None \<Rightarrow> Some False | Some t \<Rightarrow> LWWalletTransactionIsPending now t w) } = Some (?bad i)"
    if i: "i \<in> set (tx_inputs t)" for i
    using forHash_input [OF less.prems i] less.hyps input_below [OF assms less.prems i] by (cases "w_allTx w (in_hash i)") auto
  note any = any_m_total [OF this]
  show ?case
  proof (cases "tx_blockHeight t = TX_UNCONFIRMED")
    case True
    show ?thesis
      using True by (subst LWWalletTransactionIsPending.simps)
        (auto simp: signed any all_ancestors_rec [OF True] own_pending_def [of now w t])
  next
    case False
    then show ?thesis by (subst LWWalletTransactionIsPending.simps) (simp add: signed all_ancestors_confirmed)
  qed
qed

lemma all_ancestors_conj: "all_ancestors w (\<lambda>a. P a \<and> Q a) t \<longleftrightarrow> all_ancestors w P t \<and> all_ancestors w Q t"
  by (auto simp: all_ancestors_def)

lemma IsVerified_spec:
  assumes "wallet_inv r w"
  shows "tx_ok r t \<Longrightarrow> LWWalletTransactionIsVerified now t w =
    Some (all_ancestors w (\<lambda>a. tx_timestamp a \<noteq> 0 \<and> own_valid w a \<and> \<not> own_pending now w a) t)"
proof (induction "r (tx_hash t)" arbitrary: t rule: less_induct)
  case less
  have signed: "LWTransactionIsSigned t" using less.prems by (simp add: tx_ok_def)
  let ?P = "\<lambda>a. tx_timestamp a \<noteq> 0 \<and> own_valid w a \<and> \<not> own_pending now w a"
  let ?bad = "\<lambda>i. case w_allTx w (in_hash i) of None \<Rightarrow> False | Some q \<Rightarrow> \<not> all_ancestors w ?P q"
  have "do { t \<leftarrow> LWWalletTransactionForHash (in_hash i) w;
      (case t of None \<Rightarrow> Some False | Some t \<Rightarrow> do { v \<leftarrow> LWWalletTransactionIsVerified now t w; Some (\<not> v) }) } = Some (?bad i)"
    if i: "i \<in> set (tx_inputs t)" for i
    using forHash_input [OF less.prems i] less.hyps input_below [OF assms less.prems i] by (cases "w_allTx w (in_hash i)") auto
  note any = any_m_total [OF this]
  note own = IsValid_spec [OF assms less.prems] IsPending_spec [OF assms less.prems]
  show ?case
  proof (cases "tx_blockHeight t = TX_UNCONFIRMED")
    case True
    have "all_ancestors w ?P t \<longleftrightarrow> tx_timestamp t \<noteq> 0 \<and> all_ancestors w (own_valid w) t \<and>
        all_ancestors w (\<lambda>a. \<not> own_pending now w a) t \<and> \<not> list_ex ?bad (tx_inputs t)"
      using all_ancestors_rec [OF True, of w ?P] all_ancestors_conj [of w "\<lambda>a. tx_timestamp a \<noteq> 0" "\<lambda>a. own_valid w a \<and> \<not> own_pending now w a" t]
        all_ancestors_conj [of w "own_valid w" "\<lambda>a. \<not> own_pending now w a" t]
        all_ancestors_rec [OF True, of w "own_valid w"] all_ancestors_rec [OF True, of w "\<lambda>a. \<not> own_pending now w a"] by blast
    then show ?thesis
      using True by (subst LWWalletTransactionIsVerified.simps) (simp add: signed own any)
  next
    case False
    then show ?thesis by (subst LWWalletTransactionIsVerified.simps) (simp add: signed all_ancestors_confirmed)
  qed
qed

lemma notify_returns: "wallet_inv r w \<Longrightarrow> tx_ok r tx \<Longrightarrow> notify tx w \<noteq> None"
proof -
  assume "wallet_inv r w" "tx_ok r tx"
  moreover have "any_m (\<lambda>i. do { t \<leftarrow> LWWalletTransactionForHash (in_hash i) w;
      Some (case t of None \<Rightarrow> True | Some t \<Rightarrow> tx_blockHeight t = TX_UNCONFIRMED) }) (tx_inputs tx) \<noteq> None"
    using \<open>tx_ok r tx\<close> by (intro any_m_returns) (auto simp: LWWalletTransactionForHash_def tx_ok_def UInt256IsZero_iff)
  ultimately show ?thesis using IsValid_spec [of r w tx] by (auto simp: notify_def)
qed

text \<open>Removing, as the specification has it: what depends on the transaction goes, the rest stays.\<close>

definition removed :: "int \<Rightarrow> UInt256 \<Rightarrow> LWWallet \<Rightarrow> bool" where
  "removed now h w \<longleftrightarrow> (\<forall>evs. \<exists>w' ev. LWWalletRemoveTransaction now h (w, evs) = Some (w', ev) \<and> without {x. descends w h x} w w')"

lemma remove_unknown: "w_allTx w h = None \<Longrightarrow> \<not> UInt256IsZero h \<Longrightarrow> LWWalletRemoveTransaction now h (w, evs) = Some (w, evs)"
  by (subst LWWalletRemoveTransaction.simps) simp

definition children :: "LWWallet \<Rightarrow> UInt256 \<Rightarrow> UInt256 list" where
  "children w h = filter (\<lambda>x. \<exists>t. w_allTx w x = Some t \<and> spends t h) (rev (w_transactions w))"

lemma dependents_eq:
  assumes "wallet_inv r w" "parents_first w" "w_allTx w h = Some tx"
  shows "dependents w tx (rev (w_transactions w)) = Some (children w h)"
  using dependents_children [OF assms(1,3) _ _ assms(2), of "rev (w_transactions w)"] wallet_invD(5) [OF assms(1)]
  by (simp add: children_def height_sorted_rev)

text \<open>The search for dependent transactions finds none when all of them are lower.\<close>

lemma dependents_none:
  "\<forall>x \<in> set hs. \<exists>t. w_allTx w x = Some t \<and> (spends t (tx_hash tx) \<longrightarrow> tx_blockHeight t < tx_blockHeight tx) \<Longrightarrow> dependents w tx hs = Some []"
  by (induction hs) auto

lemma remove_alone:
  assumes "wallet_inv r w" "w_allTx w h = Some tx" "dependents w tx (rev (w_transactions w)) = Some []"
  shows "\<exists>w' ev. LWWalletRemoveTransaction now h (w, evs) = Some (w', ev) \<and> without {h} w w'"
proof -
  note len = known_length [OF assms(1,2)]
  let ?w = "w\<lparr>w_transactions := filter (\<lambda>x. x \<noteq> h) (w_transactions w), w_allTx := (w_allTx w)(h := None)\<rparr>"
  have out: "without {h} w ?w" by (auto simp: without_def restrict_map_def fun_eq_iff)
  have inv: "wallet_inv r ?w" using without_inv(1) [OF out assms(1)] .
  obtain w2 where w2: "updateBalance now ?w = Some w2" "same_core ?w w2" using updateBalance_core [OF inv] by blast
  have "notify tx w2 \<noteq> None" using notify_returns [OF core_inv [OF w2(2) inv]] wallet_invD(4) [OF assms(1,2)] by blast
  then obtain a b where "notify tx w2 = Some (a, b)" by auto
  then have "LWWalletRemoveTransaction now h (w, evs) = Some (w2, evs @ [BalanceChanged (w_balance w2), TxDeleted h a b])"
    using removeTx_filter [OF wallet_invD(1) [OF assms(1)] _ listed_hashes [OF assms(1)], of h] len w2(1) assms(2,3)
    by (subst LWWalletRemoveTransaction.simps) simp
  then show ?thesis using without_core [OF out w2(2)] by blast
qed

text \<open>Computing the balance reads every listed transaction.\<close>

lemma add_outputs_allTx: "w_allTx (fst (fold (add_output h) outs (w, b))) = w_allTx w"
proof (induction outs arbitrary: w b)
  case (Cons out outs)
  have "w_allTx (fst (add_output h out (w, b))) = w_allTx w" by (cases out) (simp add: add_output_def Let_def)
  then show ?case using Cons.IH [of "fst (add_output h out (w, b))" "snd (add_output h out (w, b))"] by simp
qed simp

lemma balance_step_reads:
  assumes "balance_step now h (w, b, p) = Some (w', b', p')"
  shows "w_allTx w h \<noteq> None \<and> w_allTx w' = w_allTx w"
proof -
  obtain tx where tx: "w_allTx w h = Some tx" using assms by (auto simp: balance_step_def bind_eq_Some_conv)
  let ?w = "w\<lparr>w_spentOutputs := w_spentOutputs w \<union> set (map outpoint (tx_inputs tx))\<rparr>"
  obtain v c where v: "fold (add_output (tx_hash tx)) (enumerate 0 (tx_outputs tx)) (?w, b) = (v, c)" by fastforce
  then have "w_allTx v = w_allTx w" using add_outputs_allTx [of "tx_hash tx" "enumerate 0 (tx_outputs tx)" ?w b] by simp
  then show ?thesis using assms unfolding balance_step_def prod.case tx Option.bind.bind_lunit Let_def v
    by (auto simp: tx split: if_splits Option.bind_splits prod.splits)
qed

lemma balance_reads:
  assumes "updateBalance now w = Some w'"
  shows "set (w_transactions w) \<subseteq> dom (w_allTx w)"
proof -
  have "set hs \<subseteq> dom (w_allTx v)" if "fold_m (balance_step now) hs (v, b, p) = Some st" for hs v b p st
    using that
  proof (induction hs arbitrary: v b p)
    case (Cons h hs)
    then obtain v' b' p' where s: "balance_step now h (v, b, p) = Some (v', b', p')" "fold_m (balance_step now) hs (v', b', p') = Some st"
      by (auto simp: bind_eq_Some_conv)
    then show ?case using Cons.IH [OF s(2)] balance_step_reads [OF s(1)] by auto
  qed simp
  from this [of "w_transactions w"] show ?thesis using assms by (fastforce simp: updateBalance_def bind_eq_Some_conv)
qed

lemma remove_leaf:
  assumes "wallet_inv r w" "parents_first w" "w_allTx w h = Some tx" "children w h = []"
  shows "\<exists>w' ev. LWWalletRemoveTransaction now h (w, evs) = Some (w', ev) \<and> without {h} w w'"
  using dependents_eq [OF assms(1-3)] assms(4) by (intro remove_alone [OF assms(1,3)]) simp

text \<open>A set with everything that depends on it.\<close>

definition closed_set :: "LWWallet \<Rightarrow> UInt256 set \<Rightarrow> bool" where
  "closed_set w X \<longleftrightarrow> (\<forall>p x t. p \<in> X \<longrightarrow> x \<in> set (w_transactions w) \<longrightarrow> w_allTx w x = Some t \<longrightarrow> spends t p \<longrightarrow> x \<in> X)"

lemma closed_descends: "closed_set w {x. descends w h x}"
  by (auto simp: closed_set_def intro: descends.child)

lemma closed_UN: "(\<And>c. c \<in> C \<Longrightarrow> closed_set w (X c)) \<Longrightarrow> closed_set w (\<Union>c \<in> C. X c)"
  unfolding closed_set_def by blast

lemma descends_without:
  assumes "without X w w'" "closed_set w X" "c \<notin> X"
  shows "{x. descends w' c x} \<union> X = {x. descends w c x} \<union> X" "{x. descends w' c x} \<subseteq> {x. descends w c x}"
proof -
  note W = assms(1) [unfolded without_def]
  have "descends w c x" if "descends w' c x" for x
    using that by (induction rule: descends.induct) (use W in \<open>auto intro: descends.intros simp: restrict_map_def split: if_splits\<close>)
  moreover have "descends w' c x" if "descends w c x" "x \<notin> X" for x
    using that
  proof (induction rule: descends.induct)
    case (child p x t)
    then have "p \<notin> X" using assms(2) unfolding closed_set_def by blast
    then show ?case using child W by (intro descends.child [of w' c p x t]) auto
  qed (rule descends.self)
  ultimately show "{x. descends w' c x} \<union> X = {x. descends w c x} \<union> X" "{x. descends w' c x} \<subseteq> {x. descends w c x}" by blast+
qed

lemma without_Un_eq: "without X w w1 \<Longrightarrow> without Y w1 w2 \<Longrightarrow> X \<union> Y = Z \<Longrightarrow> without Z w w2"
  using without_trans by blast

lemma without_listed: "without X w w1 \<Longrightarrow> x \<in> set (w_transactions w1) \<Longrightarrow> x \<in> set (w_transactions w) \<and> x \<notin> X \<and> w_allTx w1 x = w_allTx w x"
  by (auto simp: without_def)

text \<open>Removing the elements of a list one after the other, when each removal is right.\<close>

lemma remove_list:
  assumes "wallet_inv r w" "parents_first w"
    and ok: "\<And>c w1 X. c \<in> set cs \<Longrightarrow> without X w w1 \<Longrightarrow> closed_set w X \<Longrightarrow> c \<notin> X \<Longrightarrow> removed now c w1"
    and known: "set cs \<subseteq> dom (w_allTx w)"
  shows "\<exists>w' ev. fold_m (LWWalletRemoveTransaction now) cs (w, evs) = Some (w', ev) \<and> without (\<Union>c \<in> set cs. {x. descends w c x}) w w'"
  using ok known
proof (induction cs rule: rev_induct)
  case Nil
  then show ?case by (auto simp: without_def)
next
  case (snoc c cs)
  let ?X = "\<Union>c \<in> set cs. {x. descends w c x}"
  obtain w1 ev1 where w1: "fold_m (LWWalletRemoveTransaction now) cs (w, evs) = Some (w1, ev1)" "without ?X w w1"
    using snoc.IH snoc.prems by (metis (no_types, lifting) Un_iff le_sup_iff set_append)
  have closed: "closed_set w ?X" by (rule closed_UN) (rule closed_descends)
  obtain q where q: "w_allTx w c = Some q" using snoc.prems(2) by auto
  show ?case
  proof (cases "c \<in> ?X")
    case True
    then obtain d where d: "d \<in> set cs" "descends w d c" by blast
    have "?X \<union> {x. descends w c x} = ?X" using d descends_trans [of w c _ d] by blast
    moreover have "w_allTx w1 c = None" using w1(2) True by (simp add: without_def)
    then have "LWWalletRemoveTransaction now c (w1, ev1) = Some (w1, ev1)"
      using known_length [OF assms(1) q] by (intro remove_unknown) auto
    ultimately show ?thesis using w1 by (simp add: fold_m_append Un_commute)
  next
    case False
    then have "removed now c w1" using snoc.prems(1) [of c ?X w1] w1(2) closed by simp
    then obtain w2 ev2 where w2: "LWWalletRemoveTransaction now c (w1, ev1) = Some (w2, ev2)" "without {x. descends w1 c x} w1 w2"
      unfolding removed_def by blast
    have "?X \<union> {x. descends w1 c x} = ?X \<union> {x. descends w c x}"
      using descends_without(1) [OF w1(2) closed False] by (simp add: Un_commute)
    then have "without (?X \<union> {x. descends w c x}) w w2" using without_Un_eq [OF w1(2) w2(2)] by blast
    then show ?thesis using w1(1) w2(1) by (simp add: fold_m_append Un_commute)
  qed
qed

lemma descends_children:
  "w_allTx w h \<noteq> None \<Longrightarrow> {x. descends w h x} = insert h (\<Union>c \<in> set (children w h). {x. descends w c x})"
proof (intro equalityI subsetI)
  fix x
  assume "x \<in> {x. descends w h x}"
  then have "descends w h x" by simp
  then show "x \<in> insert h (\<Union>c \<in> set (children w h). {x. descends w c x})"
  proof (induction rule: descends.induct)
    case (child p x t)
    show ?case
    proof (cases "p = h")
      case True
      then have "x \<in> set (children w h)" using child by (auto simp: children_def)
      then show ?thesis using descends.self by blast
    next
      case False
      then show ?thesis using child descends.child by fastforce
    qed
  qed simp
next
  fix x
  assume "x \<in> insert h (\<Union>c \<in> set (children w h). {x. descends w c x})"
  then show "x \<in> {x. descends w h x}"
  proof
    assume "x \<in> (\<Union>c \<in> set (children w h). {x. descends w c x})"
    then obtain c t where c: "descends w c x" "c \<in> set (w_transactions w)" "w_allTx w c = Some t" "spends t h"
      by (auto simp: children_def)
    then show "x \<in> {x. descends w h x}" using descends.child [OF descends.self c(2-4)] descends_trans [OF c(1)] by simp
  qed (simp add: descends.self)
qed

lemma child_fewer:
  assumes "wallet_inv r w" "c \<in> set (children w h)" "w_allTx w h = Some tx"
  shows "{x. descends w c x} \<subset> {x. descends w h x}"
proof -
  obtain t where t: "w_allTx w c = Some t" "spends t h" "c \<in> set (w_transactions w)" using assms(2) by (auto simp: children_def)
  then have "descends w h c" by (auto intro: descends.intros)
  moreover have "r h < r c" using spends_rank [OF assms(1) t(1) _ t(2)] known_length [OF assms(1,3)] by simp
  then have "\<not> descends w c h" using descends_rank [OF _ assms(1), of c h] t(1) by fastforce
  ultimately show ?thesis using descends_trans [of w c _ h] descends.self [of w h] by blast
qed

lemma Remove_removed:
  assumes "wallet_inv r w" "parents_first w" "w_allTx w h = Some tx"
  shows "removed now h w"
  using assms
proof (induction "card {x. descends w h x}" arbitrary: w h tx rule: less_induct)
  case less
  note I = less.prems
  show ?case unfolding removed_def
  proof
    fix evs
    show "\<exists>w' ev. LWWalletRemoveTransaction now h (w, evs) = Some (w', ev) \<and> without {x. descends w h x} w w'"
    proof (cases "children w h = []")
      case True
      then show ?thesis using remove_leaf [OF I True] descends_children [of w h] I(3) by simp
    next
      case False
      let ?X = "\<Union>c \<in> set (rev (children w h)). {x. descends w c x}"
      have ok: "removed now c w1" if c: "c \<in> set (rev (children w h))" and w1: "without X w w1" "closed_set w X" "c \<notin> X" for c w1 X
      proof -
        have "card {x. descends w1 c x} \<le> card {x. descends w c x}"
          using descends_without(2) [OF w1] by (intro card_mono finite_descends)
        also have "\<dots> < card {x. descends w h x}" using child_fewer [OF I(1) _ I(3)] c by (intro psubset_card_mono finite_descends) simp
        finally have "card {x. descends w1 c x} < card {x. descends w h x}" .
        moreover obtain t where "w_allTx w c = Some t" using c by (auto simp: children_def)
        then have "w_allTx w1 c = Some t" using w1 by (simp add: without_def)
        ultimately show ?thesis using less.hyps without_inv(1) [OF w1(1) I(1)] without_inv(2) [OF w1(1) I(1,2)] by blast
      qed
      have "set (rev (children w h)) \<subseteq> dom (w_allTx w)" by (auto simp: children_def)
      then obtain w1 ev1 where w1: "fold_m (LWWalletRemoveTransaction now) (rev (children w h)) (w, evs) = Some (w1, ev1)" "without ?X w w1"
        using remove_list [where now = now and evs = evs and cs = "rev (children w h)", OF I(1,2)] ok by blast
      have "h \<notin> {x. descends w c x}" if "c \<in> set (children w h)" for c
      proof -
        have "descends w h c" using child_fewer [OF I(1) that I(3)] descends.self [of w c] by blast
        then show ?thesis using child_fewer [OF I(1) that I(3)] descends_trans [of w h _ c] by blast
      qed
      then have h: "h \<notin> ?X" by auto
      then have known: "w_allTx w1 h = Some tx" using w1(2) I(3) by (simp add: without_def)
      have leaf: "children w1 h = []"
      proof -
        have "x \<in> ?X" if "x \<in> set (w_transactions w)" "w_allTx w x = Some t" "spends t h" for x t
          using that descends.self [of w x] by (auto simp: children_def)
        then have "\<not> spends t h" if "x \<in> set (w_transactions w1)" "w_allTx w1 x = Some t" for x t
          using without_listed [OF w1(2) that(1)] that(2) by metis
        then show ?thesis by (auto simp: children_def filter_empty_conv)
      qed
      obtain w2 ev2 where w2: "LWWalletRemoveTransaction now h (w1, ev1) = Some (w2, ev2)" "without {h} w1 w2"
        using remove_leaf [OF without_inv(1) [OF w1(2) I(1)] without_inv(2) [OF w1(2) I(1,2)] known leaf] by blast
      have "LWWalletRemoveTransaction now h (w, evs) = Some (w2, ev2)"
        using dependents_eq [OF I] False w1(1) w2(1) known_length [OF I(1,3)] I(3) by (subst LWWalletRemoveTransaction.simps) simp
      moreover have "?X \<union> {h} = {x. descends w h x}" using descends_children [of w h] I(3) by auto
      ultimately show ?thesis using without_Un_eq [OF w1(2) w2(2)] by blast
    qed
  qed
qed

lemma without_closed_contained:
  assumes "without {x. descends w h x} w w'" "wallet_inv r w" "all_contained w"
  shows "all_contained w'"
  using without_contained [OF assms] by (auto intro: descends.child)

subsection \<open>Updating\<close>

lemma containsTx_cong:
  "tx_outputs t = tx_outputs t' \<Longrightarrow> tx_inputs t = tx_inputs t' \<Longrightarrow> containsTx w t = containsTx w t'"
  by (simp add: containsTx_def)

text \<open>Changing the height and time of a transaction changes nothing the other ones see.\<close>

lemma wallet_output_retimed:
  assumes "w_allTx w h = Some t" "tx_outputs t' = tx_outputs t"
  shows "wallet_output (w\<lparr>w_allTx := (w_allTx w)(h \<mapsto> t')\<rparr>) p n = wallet_output w p n"
  using assms by (simp add: wallet_output_def split: option.split)

lemma retimed_contains:
  assumes "w_allTx w h = Some t" "tx_outputs t' = tx_outputs t"
  shows "containsTx (w\<lparr>w_allTx := (w_allTx w)(h \<mapsto> t')\<rparr>) s = containsTx w s"
  unfolding containsTx_def wallet_output_retimed [OF assms] by simp

lemma retimed_contained:
  assumes "w_allTx w h = Some t" "tx_outputs t' = tx_outputs t" "tx_inputs t' = tx_inputs t" "all_contained w"
  shows "all_contained (w\<lparr>w_allTx := (w_allTx w)(h \<mapsto> t')\<rparr>)"
  using assms(4) unfolding all_contained_def retimed_contains [OF assms(1,2)]
  using containsTx_cong [OF assms(2,3)] assms(1) by auto

lemma tx_ok_retimed: "tx_ok r t \<Longrightarrow> h \<le> TX_UNCONFIRMED \<Longrightarrow> tx_ok r (t\<lparr>tx_timestamp := ts, tx_blockHeight := h\<rparr>)"
  by (simp add: tx_ok_def LWTransactionIsSigned_def ranked_def)

text \<open>Without it in the list, the invariant holds again.\<close>

lemma retimed_inv:
  assumes inv: "wallet_inv r w" and t: "w_allTx w h = Some t" and ok: "tx_ok r t'" "tx_hash t' = h"
  shows "wallet_inv r (w\<lparr>w_transactions := filter (\<lambda>x. x \<noteq> h) (w_transactions w), w_allTx := (w_allTx w)(h \<mapsto> t')\<rparr>)"
    (is "wallet_inv r ?w")
proof -
  note I = wallet_invD [OF inv]
  have "map (tx_height ?w) (w_transactions ?w) = map (tx_height w) (filter (\<lambda>x. x \<noteq> h) (w_transactions w))"
    by (simp add: tx_height_def)
  then have "height_sorted ?w" using I(5) by (simp only: height_sorted_def sorted_filter)
  then show ?thesis using I(1-4,6) ok t by (intro wallet_invI) (auto split: if_splits)
qed

lemma filter_neq: "h \<notin> set xs \<Longrightarrow> filter (\<lambda>x. x \<noteq> h) xs = xs"
  by (auto simp: filter_id_conv)

lemma freed_contained:
  assumes "wallet_inv r w" "all_contained w" "w_allTx w h = Some t" "\<not> containsTx w t"
  shows "wallet_inv r (w\<lparr>w_allTx := (w_allTx w)(h := None)\<rparr>)" "all_contained (w\<lparr>w_allTx := (w_allTx w)(h := None)\<rparr>)"
proof -
  let ?w = "w\<lparr>w_allTx := (w_allTx w)(h := None)\<rparr>"
  note I = wallet_invD [OF assms(1)]
  have new: "h \<notin> set (w_transactions w)" using assms(2-4) by (auto simp: all_contained_def)
  then have "map (tx_height ?w) (w_transactions w) = map (tx_height w) (w_transactions w)" by (auto simp: tx_height_def)
  then have "height_sorted ?w" using I(5) by (simp add: height_sorted_def del: map_eq_conv)
  then show "wallet_inv r ?w" using I(1-4,6) new by (intro wallet_invI) (auto split: if_splits)
  have "wallet_output w h n = None" for n
    using assms(3,4) by (auto simp: wallet_output_def containsTx_def list_ex_length)
  then have "wallet_output ?w p n = wallet_output w p n" for p n
    by (cases "p = h") (simp_all add: wallet_output_def split: option.split)
  then have "containsTx ?w s = containsTx w s" for s unfolding containsTx_def by simp
  then show "all_contained ?w" using assms(2) by (auto simp: all_contained_def)
qed

lemma update_one_inv:
  assumes inv: "wallet_inv r w" "all_contained w" and bh: "blockHeight \<le> TX_UNCONFIRMED"
  shows "\<exists>w' hs' n'. update_one blockHeight timestamp h (w, hs, n) = Some (w', hs', n') \<and> wallet_inv r w' \<and> all_contained w'"
proof (cases "w_allTx w h")
  case (Some t)
  let ?t = "t\<lparr>tx_timestamp := timestamp, tx_blockHeight := blockHeight\<rparr>"
  let ?w1 = "w\<lparr>w_allTx := (w_allTx w)(h \<mapsto> ?t)\<rparr>"
  let ?v = "w\<lparr>w_transactions := filter (\<lambda>x. x \<noteq> h) (w_transactions w), w_allTx := (w_allTx w)(h \<mapsto> ?t)\<rparr>"
  have hash: "tx_hash ?t = h" "tx_ok r ?t" "length h = 32"
    using wallet_invD(3,4) [OF inv(1) Some] tx_ok_retimed [OF _ bh] known_length [OF inv(1) Some] by auto
  have v: "wallet_inv r ?v" using retimed_inv [OF inv(1) Some hash(2,1)] .
  have c: "containsTx ?w1 ?t = containsTx w t" "all_contained ?w1"
    using retimed_contains [OF Some] containsTx_cong [of ?t t] retimed_contained [OF Some _ _ inv(2)] by auto
  have vc: "all_contained ?v" using c(2) containsTx_mono [of ?w1 _ ?v] by (auto simp: all_contained_def)
  consider "tx_blockHeight t = blockHeight \<and> tx_timestamp t = timestamp"
    | (foreign) "\<not> (tx_blockHeight t = blockHeight \<and> tx_timestamp t = timestamp)" "\<not> containsTx w t"
    | (own) "\<not> (tx_blockHeight t = blockHeight \<and> tx_timestamp t = timestamp)" "containsTx w t" by blast
  then show ?thesis
  proof cases
    case 1
    then show ?thesis using Some inv by (simp add: update_one_def)
  next
    case foreign
    then have new: "h \<notin> set (w_transactions w)" using inv(2) Some by (auto simp: all_contained_def)
    then have same: "?v = ?w1" by (simp add: filter_neq)
    have up: "update_one blockHeight timestamp h (w, hs, n) =
        Some (if blockHeight \<noteq> TX_UNCONFIRMED then ?w1\<lparr>w_allTx := (w_allTx ?w1)(h := None)\<rparr> else ?w1, hs, n)"
      unfolding update_one_def Let_def prod.case Some option.case if_not_P [OF foreign(1)] using foreign(2) c(1) by simp
    have "wallet_inv r ?w1" using v same by simp
    then show ?thesis using up freed_contained [of r ?w1 h ?t] c foreign(2) by auto
  next
    case own
    have rm: "removeTx h ?w1 = Some ?v"
      using removeTx_filter [of ?w1 h] wallet_invD(1) [OF inv(1)] listed_hashes [OF inv(1)] hash(1,3) by (auto split: if_splits)
    show ?thesis
    proof (cases "h \<in> set (w_transactions w)")
      case True
      then have shorter: "length (w_transactions ?v) < length (w_transactions ?w1)" by (simp add: length_filter_less)
      have "insertTx ?t ?v \<noteq> None"
        using insertTx_returns [of r ?v ?t] wallet_invD(2,7) [OF v] hash(2) by (simp add: tx_ok_def)
      then obtain w2 where w2: "insertTx ?t ?v = Some w2" by auto
      have "\<exists>hs' n'. update_one blockHeight timestamp h (w, hs, n) = Some (w2, hs', n')"
        unfolding update_one_def Let_def prod.case Some option.case if_not_P [OF own(1)] using own(2) c(1) rm shorter w2 by simp
      moreover have "wallet_inv r w2" "all_contained w2"
        using insertTx_inv [OF w2 v] hash(1) vc c(1) own(2) containsTx_mono [of ?w1 ?t ?v] by auto
      ultimately show ?thesis by blast
    next
      case False
      then have same: "?v = ?w1" by (simp add: filter_neq)
      then have "\<exists>hs' n'. update_one blockHeight timestamp h (w, hs, n) = Some (?w1, hs', n')"
        unfolding update_one_def Let_def prod.case Some option.case if_not_P [OF own(1)] using own(2) c(1) rm by simp
      then show ?thesis using v vc same by auto
    qed
  qed
qed (use inv in \<open>simp add: update_one_def\<close>)

lemma Update_inv:
  assumes "wallet_inv r w" "all_contained w" "blockHeight \<le> TX_UNCONFIRMED"
  shows "\<exists>w' ev. LWWalletUpdateTransactions now txHashes blockHeight timestamp w = Some (w', ev) \<and> wallet_inv r w' \<and> all_contained w'"
proof -
  let ?w = "if blockHeight > w_blockHeight w then w\<lparr>w_blockHeight := blockHeight\<rparr> else w"
  let ?P = "\<lambda>(w, hs :: UInt256 list, n :: bool). wallet_inv r w \<and> all_contained w"
  have w: "wallet_inv r ?w" "all_contained ?w"
    using core_inv [of w ?w] core_contained [of w ?w] assms(1,2) by (auto simp: same_core_def)
  have "\<exists>st. fold_m (update_one blockHeight timestamp) txHashes (?w, [], False) = Some st \<and> ?P st"
  proof (rule fold_m_Some)
    show "?P (?w, [], False)" using w unfolding prod.case by blast
    fix h and st :: "LWWallet \<times> UInt256 list \<times> bool"
    assume "?P st"
    then obtain w1 hs n where st: "st = (w1, hs, n)" "wallet_inv r w1" "all_contained w1" by (cases st) auto
    show "\<exists>st'. update_one blockHeight timestamp h st = Some st' \<and> ?P st'"
      using update_one_inv [OF st(2,3) assms(3), of timestamp h hs n] unfolding st(1) by auto
  qed
  then obtain w1 hs n where w1: "fold_m (update_one blockHeight timestamp) txHashes (?w, [], False) = Some (w1, hs, n)"
    "wallet_inv r w1" "all_contained w1" by auto
  obtain w2 where w2: "updateBalance now w1 = Some w2" "same_core w1 w2" using updateBalance_core [OF w1(2)] by blast
  show ?thesis
  proof (cases n)
    case True
    then have "\<exists>ev. LWWalletUpdateTransactions now txHashes blockHeight timestamp w = Some (w2, ev)"
      using w1(1) w2(1) unfolding LWWalletUpdateTransactions_def Let_def by simp
    then show ?thesis using core_inv [OF w2(2) w1(2)] core_contained [OF w2(2) w1(3)] by blast
  next
    case False
    then have "\<exists>ev. LWWalletUpdateTransactions now txHashes blockHeight timestamp w = Some (w1, ev)"
      using w1(1) unfolding LWWalletUpdateTransactions_def Let_def by simp
    then show ?thesis using w1(2,3) by blast
  qed
qed

subsection \<open>Reorganising the chain\<close>

lemma trailing_takeWhile:
  "set hs \<subseteq> dom (w_allTx w) \<Longrightarrow> trailing w P hs = Some (length (takeWhile (\<lambda>h. P (tx_height w h)) hs))"
  by (induction hs) (auto simp: tx_height_def)

lemma drop_trailing: "drop (length xs - length (takeWhile P (rev xs))) xs = rev (takeWhile P (rev xs))"
proof -
  define k where "k = length (takeWhile P (rev xs))"
  have "takeWhile P (rev xs) = take k (rev xs)" unfolding k_def by (rule takeWhile_eq_take)
  then have "rev (takeWhile P (rev xs)) = rev (take k (rev xs))" by (rule arg_cong)
  then show ?thesis unfolding k_def [symmetric] by (simp only: rev_take length_rev rev_rev_ident)
qed

lemma takeWhile_filter:
  "sorted_wrt (\<lambda>a b. f b \<le> f a) xs \<Longrightarrow> takeWhile (\<lambda>x. (c :: 'a :: linorder) < f x) xs = filter (\<lambda>x. c < f x) xs"
proof (induction xs)
  case (Cons x xs)
  show ?case
  proof (cases "c < f x")
    case False
    then have "\<not> c < f y" if "y \<in> set xs" for y using Cons.prems that by (auto simp: not_less intro: order_trans)
    then show ?thesis using False by (simp add: filter_empty_conv)
  qed (use Cons in simp)
qed simp

lemma trailing_above:
  assumes "wallet_inv r w"
  shows "\<exists>n. trailing w (\<lambda>h. h > blockHeight) (rev (w_transactions w)) = Some n \<and>
    drop (length (w_transactions w) - n) (w_transactions w) = filter (\<lambda>h. tx_height w h > blockHeight) (w_transactions w) \<and>
    n = length (filter (\<lambda>h. tx_height w h > blockHeight) (w_transactions w))"
proof -
  let ?P = "\<lambda>h. tx_height w h > blockHeight"
  have "takeWhile ?P (rev (w_transactions w)) = filter ?P (rev (w_transactions w))"
    using wallet_invD(5) [OF assms] by (intro takeWhile_filter) (simp add: height_sorted_rev)
  then have e: "takeWhile ?P (rev (w_transactions w)) = rev (filter ?P (w_transactions w))" by (simp add: rev_filter)
  have "trailing w (\<lambda>h. h > blockHeight) (rev (w_transactions w)) = Some (length (takeWhile ?P (rev (w_transactions w))))"
    using wallet_invD(2) [OF assms] by (intro trailing_takeWhile) simp
  moreover have "drop (length (w_transactions w) - length (takeWhile ?P (rev (w_transactions w)))) (w_transactions w) = filter ?P (w_transactions w)"
    unfolding drop_trailing by (simp add: e)
  ultimately show ?thesis by (simp add: e)
qed

definition unconfirmed :: "LWTransaction \<Rightarrow> LWTransaction" where
  "unconfirmed t = t\<lparr>tx_blockHeight := TX_UNCONFIRMED\<rparr>"

lemma unconfirm_fold:
  "set hs \<subseteq> dom (w_allTx w) \<Longrightarrow> fold_m unconfirm hs w =
    Some (w\<lparr>w_allTx := (\<lambda>h. if h \<in> set hs then map_option unconfirmed (w_allTx w h) else w_allTx w h)\<rparr>)"
proof (induction hs arbitrary: w)
  case (Cons h hs)
  then obtain t where t: "w_allTx w h = Some t" by auto
  let ?w = "w\<lparr>w_allTx := (w_allTx w)(h \<mapsto> unconfirmed t)\<rparr>"
  have "(\<lambda>x. if x \<in> set hs then map_option unconfirmed (w_allTx ?w x) else w_allTx ?w x) =
      (\<lambda>x. if x \<in> set (h # hs) then map_option unconfirmed (w_allTx w x) else w_allTx w x)"
    using t by (auto simp: unconfirmed_def fun_eq_iff)
  moreover have "set hs \<subseteq> dom (w_allTx ?w)" using Cons.prems by auto
  note IH = Cons.IH [OF this]
  moreover have "unconfirm h w = Some ?w" using t by (simp add: unconfirm_def unconfirmed_def)
  ultimately show ?case using IH by simp
qed simp

lemma unconfirmed_ok: "tx_ok r t \<Longrightarrow> tx_ok r (unconfirmed t)"
  by (simp add: tx_ok_def unconfirmed_def LWTransactionIsSigned_def ranked_def)

text \<open>What lowers the heights to unconfirmed above a height keeps the invariant.\<close>

lemma unconfirmed_inv:
  assumes inv: "wallet_inv r w" "all_contained w"
    and hs: "hs = filter (\<lambda>h. tx_height w h > blockHeight) (w_transactions w)"
    and w': "w' = w\<lparr>w_allTx := (\<lambda>h. if h \<in> set hs then map_option unconfirmed (w_allTx w h) else w_allTx w h)\<rparr>"
  shows "wallet_inv r w'" "all_contained w'"
    "\<forall>h \<in> set (w_transactions w). tx_height w' h = (if tx_height w h > blockHeight then TX_UNCONFIRMED else tx_height w h)"
proof -
  note I = wallet_invD [OF inv(1)]
  show h: "\<forall>h \<in> set (w_transactions w). tx_height w' h = (if tx_height w h > blockHeight then TX_UNCONFIRMED else tx_height w h)"
    using I(2) by (auto simp: w' hs tx_height_def unconfirmed_def split: option.splits)
  have low: "tx_height w h \<le> TX_UNCONFIRMED" for h using I(4) by (auto simp: tx_height_def tx_ok_def split: option.split)
  let ?f = "\<lambda>x. if x > blockHeight then TX_UNCONFIRMED else x"
  have "map (tx_height w') (w_transactions w) = map (\<lambda>h. ?f (tx_height w h)) (w_transactions w)"
    by (intro map_cong refl) (use h in blast)
  moreover have "sorted_wrt (\<lambda>a b. ?f (tx_height w a) \<le> ?f (tx_height w b)) (w_transactions w)"
    using I(5) unfolding height_sorted_def sorted_map
    by (rule sorted_wrt_mono_rel [rotated]) (use low in \<open>auto intro: order_trans\<close>)
  ultimately have "height_sorted w'" using w' by (simp add: height_sorted_def sorted_map del: map_eq_conv)
  then show "wallet_inv r w'" using I(1-4,6) unconfirmed_ok unfolding w'
    by (intro wallet_invI) (auto simp: unconfirmed_def split: if_splits)
  have out: "wallet_output w' p n = wallet_output w p n" for p n
    by (simp add: wallet_output_def w' unconfirmed_def split: option.split)
  then have c: "containsTx w' t = containsTx w t" for t unfolding containsTx_def by (simp add: w')
  have "containsTx w (unconfirmed t) = containsTx w t" for t by (intro containsTx_cong) (simp_all add: unconfirmed_def)
  then show "all_contained w'" using inv(2) unfolding all_contained_def c by (auto simp: w' split: if_splits)
qed

text \<open>The wallet in which every listed transaction above a height has become unconfirmed.\<close>

definition after_reorg :: "u32 \<Rightarrow> LWWallet \<Rightarrow> LWWallet" where
  "after_reorg blockHeight w = w\<lparr>w_blockHeight := blockHeight, w_allTx := (\<lambda>h. if h \<in> set (w_transactions w) \<and> tx_height w h > blockHeight
     then map_option unconfirmed (w_allTx w h) else w_allTx w h)\<rparr>"

lemma Reorg_core:
  assumes inv: "wallet_inv r w" "all_contained w"
  shows "\<exists>w' ev. LWWalletSetTxUnconfirmedAfter now blockHeight w = Some (w', ev) \<and> same_core (after_reorg blockHeight w) w' \<and>
    w_blockHeight w' = blockHeight"
proof -
  let ?w = "w\<lparr>w_blockHeight := blockHeight\<rparr>"
  define hs where "hs = filter (\<lambda>h. tx_height ?w h > blockHeight) (w_transactions ?w)"
  define w1 where "w1 = ?w\<lparr>w_allTx := (\<lambda>h. if h \<in> set hs then map_option unconfirmed (w_allTx ?w h) else w_allTx ?w h)\<rparr>"
  have core: "wallet_inv r ?w" "all_contained ?w"
    using core_inv [of w ?w] core_contained [of w ?w] inv by (auto simp: same_core_def)
  have hh: "tx_height ?w = tx_height w" by (rule tx_height_cong) simp
  have e: "w1 = after_reorg blockHeight w" by (simp add: w1_def after_reorg_def hs_def hh cong: if_cong)
  obtain n where n: "trailing ?w (\<lambda>h. h > blockHeight) (rev (w_transactions ?w)) = Some n"
    "drop (length (w_transactions ?w) - n) (w_transactions ?w) = hs" "n = length hs"
    using trailing_above [OF core(1), of blockHeight] hs_def by metis
  have "set hs \<subseteq> dom (w_allTx ?w)" using wallet_invD(2) [OF core(1)] hs_def by auto
  then have f: "fold_m unconfirm hs ?w = Some w1" unfolding w1_def by (rule unconfirm_fold)
  have "wallet_ok w1" using unconfirmed_inv(1) [OF core hs_def w1_def] wallet_invD(8) by blast
  then obtain w2 where w2: "updateBalance now w1 = Some w2" "same_txs w1 w2" using updateBalance_spec by blast
  let ?w' = "if n > 0 then w2 else w1"
  have "\<exists>ev. LWWalletSetTxUnconfirmedAfter now blockHeight w = Some (?w', ev)"
    unfolding LWWalletSetTxUnconfirmedAfter_def Let_def n(1) Option.bind.bind_lunit n(2) f
    using w2(1) by (cases "n > 0") simp_all
  moreover have "same_core w1 ?w'" using same_txs_core [OF w2(2)] by (simp add: same_core_def)
  moreover have "w_blockHeight ?w' = blockHeight" using w2(2) by (simp add: same_txs_def w1_def)
  ultimately show ?thesis unfolding e by blast
qed

lemma after_reorg_inv:
  assumes "wallet_inv r w" "all_contained w"
  shows "wallet_inv r (after_reorg blockHeight w)" "all_contained (after_reorg blockHeight w)"
    "\<forall>h \<in> set (w_transactions w). tx_height (after_reorg blockHeight w) h =
      (if tx_height w h > blockHeight then TX_UNCONFIRMED else tx_height w h)"
proof -
  let ?w = "w\<lparr>w_blockHeight := blockHeight\<rparr>"
  have core: "wallet_inv r ?w" "all_contained ?w"
    using core_inv [of w ?w] core_contained [of w ?w] assms by (auto simp: same_core_def)
  have hh: "tx_height ?w = tx_height w" by (rule tx_height_cong) simp
  have e: "after_reorg blockHeight w = ?w\<lparr>w_allTx := (\<lambda>h. if h \<in> set (filter (\<lambda>h. tx_height ?w h > blockHeight) (w_transactions ?w))
      then map_option unconfirmed (w_allTx ?w h) else w_allTx ?w h)\<rparr>"
    by (simp add: after_reorg_def hh cong: if_cong)
  note u = unconfirmed_inv [OF core refl e]
  show "wallet_inv r (after_reorg blockHeight w)" "all_contained (after_reorg blockHeight w)" by (rule u(1), rule u(2))
  show "\<forall>h \<in> set (w_transactions w). tx_height (after_reorg blockHeight w) h =
      (if tx_height w h > blockHeight then TX_UNCONFIRMED else tx_height w h)" using u(3) by (simp add: hh)
qed

lemma Reorg_inv:
  assumes inv: "wallet_inv r w" "all_contained w"
  shows "\<exists>w' ev. LWWalletSetTxUnconfirmedAfter now blockHeight w = Some (w', ev) \<and> wallet_inv r w' \<and> all_contained w' \<and>
    w_transactions w' = w_transactions w \<and> w_blockHeight w' = blockHeight \<and>
    (\<forall>h \<in> set (w_transactions w). tx_height w' h = (if tx_height w h > blockHeight then TX_UNCONFIRMED else tx_height w h))"
proof -
  obtain w' ev where w': "LWWalletSetTxUnconfirmedAfter now blockHeight w = Some (w', ev)" "same_core (after_reorg blockHeight w) w'"
    "w_blockHeight w' = blockHeight" using Reorg_core [OF inv] by blast
  then have "wallet_inv r w'" "all_contained w'" "tx_height w' = tx_height (after_reorg blockHeight w)" "w_transactions w' = w_transactions w"
    using core_inv [OF w'(2) after_reorg_inv(1) [OF inv]] core_contained [OF w'(2) after_reorg_inv(2) [OF inv]]
      tx_height_cong [of w' "after_reorg blockHeight w"] by (simp_all add: same_core_def) (simp add: after_reorg_def)
  then show ?thesis using w'(1,3) after_reorg_inv(3) [OF inv] by simp
qed

subsection \<open>Creating a wallet, and creating a transaction\<close>

lemma new_tx_inv:
  assumes "new_tx tx w = Some w'" "wallet_inv r w" "tx_ok r tx"
  shows "wallet_inv r w'"
proof (cases "w_allTx w (tx_hash tx) = None")
  case True
  let ?w = "w\<lparr>w_allTx := (w_allTx w)(tx_hash tx \<mapsto> tx)\<rparr>"
  have "LWTransactionIsSigned tx" using assms(3) by (simp add: tx_ok_def)
  then obtain w1 where w1: "insertTx tx ?w = Some w1" "w' = w1\<lparr>w_usedAddrs := w_usedAddrs w1 \<union> (out_address ` set (tx_outputs tx) - {[]})\<rparr>"
    using assms(1) True by (auto simp: new_tx_def split: Option.bind_splits)
  have "tx_hash tx \<notin> set (w_transactions ?w)" using wallet_invD(2) [OF assms(2)] True by auto
  then have "wallet_inv r w1" using insertTx_inv(1) [OF w1(1) inv_known(1) [OF assms(2,3) True]] by simp
  then show ?thesis using core_inv [of w1 w'] w1(2) by (simp add: same_core_def)
qed (use assms in \<open>simp add: new_tx_def\<close>)

lemma empty_wallet_inv: "wallet_inv r (empty_wallet mpk)"
  by (simp add: wallet_inv_def empty_wallet_def height_sorted_def)

lemma New_inv:
  assumes "LWWalletNew env transactions mpk = Some (Some w)" "\<forall>t \<in> set transactions. tx_ok r t"
  shows "wallet_inv r w"
proof -
  obtain w1 w2 w3 as as' where w:
    "fold_m new_tx transactions (empty_wallet mpk) = Some w1"
    "LWWalletUnusedAddrs env False SEQUENCE_GAP_LIMIT_EXTERNAL False w1 = Some (as, w2)"
    "LWWalletUnusedAddrs env False SEQUENCE_GAP_LIMIT_INTERNAL True w2 = Some (as', w3)"
    "updateBalance (env_now env) w3 = Some w"
    using assms(1) by (auto simp: LWWalletNew_def split: Option.bind_splits if_splits prod.splits)
  have "wallet_inv r w1"
    by (rule fold_m_invariant [OF w(1)]) (use empty_wallet_inv new_tx_inv assms(2) in blast)+
  then show ?thesis using UnusedAddrs_inv(1) [OF w(2)] UnusedAddrs_inv(1) [OF w(3)] updateBalance_inv(1) [OF _ w(4)] by blast
qed

text \<open>Creating a transaction changes the wallet by asking it for a change address, at most.\<close>

definition only_addrs :: "('p, 's, 'r) env \<Rightarrow> LWWallet \<Rightarrow> LWWallet \<Rightarrow> bool" where
  "only_addrs env w w' \<longleftrightarrow> w' = w \<or> (\<exists>as. LWWalletUnusedAddrs env True 1 True w = Some (as, w'))"

lemma CreateTxForOutputs_wallet:
  assumes "LWWalletCreateTxForOutputs env rs outputs w = Some res"
  shows "only_addrs env w (fst (snd res))"
  using assms
proof (rule LWWalletCreateTxForOutputs.raw_induct [of "\<lambda>env rs outputs w res. only_addrs env w (fst (snd res))", rotated], goal_cases)
  case (1 create env rs outputs w res)
  show ?case using 1(2)
    by (auto simp: Let_def only_addrs_def split: if_splits selection.splits Option.bind_splits prod.splits dest: 1(1))
qed

lemma CreateTransaction_wallet:
  "LWWalletCreateTransaction env rs amount addr w = Some (tx, w', rs') \<Longrightarrow> only_addrs env w w'"
  using CreateTxForOutputs_wallet by (fastforce simp: LWWalletCreateTransaction_def Let_def split: if_splits)

lemma FeeForTxAmount_wallet:
  "LWWalletFeeForTxAmount env rs amount w = Some (fee, w', rs') \<Longrightarrow> only_addrs env w w'"
  using CreateTxForOutputs_wallet
  by (fastforce simp: LWWalletFeeForTxAmount_def Let_def split: if_splits Option.bind_splits prod.splits)

lemma only_addrs_inv: "only_addrs env w w' \<Longrightarrow> wallet_inv r w \<Longrightarrow> wallet_inv r w'"
  "only_addrs env w w' \<Longrightarrow> wallet_inv r w \<Longrightarrow> all_contained w \<Longrightarrow> all_contained w'"
  using UnusedAddrs_inv by (auto simp: only_addrs_def)

subsection \<open>Parents before their children\<close>

text \<open>
  What a block chain guarantees of heights: no transaction is below one it spends an output of. A
  transaction fits a wallet, heights given to transactions do, when that holds with them.
\<close>

definition fits_chain :: "LWTransaction \<Rightarrow> LWWallet \<Rightarrow> bool" where
  "fits_chain tx w \<longleftrightarrow> (\<forall>p q. w_allTx w p = Some q \<longrightarrow> spends tx p \<longrightarrow> tx_blockHeight q \<le> tx_blockHeight tx) \<and>
     (\<forall>x \<in> set (w_transactions w). \<forall>t. w_allTx w x = Some t \<longrightarrow> spends t (tx_hash tx) \<longrightarrow> tx_blockHeight tx \<le> tx_blockHeight t)"

definition list_fits :: "LWTransaction list \<Rightarrow> bool" where
  "list_fits txs \<longleftrightarrow> (\<forall>s \<in> set txs. \<forall>t \<in> set txs. spends t (tx_hash s) \<longrightarrow> tx_blockHeight s \<le> tx_blockHeight t)"

definition height_after :: "UInt256 list \<Rightarrow> u32 \<Rightarrow> LWWallet \<Rightarrow> UInt256 \<Rightarrow> u32" where
  "height_after txHashes blockHeight w h = (if h \<in> set txHashes then blockHeight else tx_height w h)"

definition heights_fit :: "UInt256 list \<Rightarrow> u32 \<Rightarrow> LWWallet \<Rightarrow> bool" where
  "heights_fit txHashes blockHeight w \<longleftrightarrow> (\<forall>x \<in> set (w_transactions w). \<forall>p t q. w_allTx w x = Some t \<longrightarrow> w_allTx w p = Some q \<longrightarrow>
     spends t p \<longrightarrow> height_after txHashes blockHeight w p \<le> height_after txHashes blockHeight w x)"

lemma core_parents: "same_core w w' \<Longrightarrow> parents_first w \<Longrightarrow> parents_first w'"
  by (simp add: same_core_def parents_first_def)

lemma UnusedAddrs_parents:
  "LWWalletUnusedAddrs env addrs gapLimit internal w = Some (as, w') \<Longrightarrow> wallet_inv r w \<Longrightarrow> parents_first w \<Longrightarrow> parents_first w'"
  using UnusedAddrs_grows(3,4) [of env addrs gapLimit internal w as w'] wallet_invD(6) [of r w] unfolding parents_first_def by simp

lemma spends_self:
  assumes "tx_ok r tx"
  shows "\<not> spends tx (tx_hash tx)"
proof -
  have "\<forall>i \<in> set (tx_inputs tx). r (in_hash i) < r (tx_hash tx)" "\<forall>i \<in> set (tx_inputs tx). length (in_hash i) = 32" "length (tx_hash tx) = 32"
    using assms by (auto simp: tx_ok_def ranked_def)
  then show ?thesis by (fastforce simp: spends_def list_ex_iff)
qed

lemma known_parents:
  assumes "parents_first w" "fits_chain tx w" "tx_ok r tx" "w_allTx w (tx_hash tx) = None"
    "w_allTx w' = (w_allTx w)(tx_hash tx \<mapsto> tx)" "set (w_transactions w') \<subseteq> insert (tx_hash tx) (set (w_transactions w))"
    "set (w_transactions w) \<subseteq> dom (w_allTx w)"
  shows "parents_first w'"
  unfolding parents_first_def
proof (intro ballI allI impI)
  fix x p t q
  assume x: "x \<in> set (w_transactions w')" "w_allTx w' x = Some t" "w_allTx w' p = Some q" "spends t p"
  show "tx_blockHeight q \<le> tx_blockHeight t"
  proof (cases "x = tx_hash tx")
    case True
    then have "p \<noteq> tx_hash tx" "t = tx" using x spends_self [OF assms(3)] assms(5) by auto
    then show ?thesis using x assms(2,5) by (auto simp: fits_chain_def)
  next
    case False
    then have old: "x \<in> set (w_transactions w)" "w_allTx w x = Some t" using x(1,2) assms(5,6) by auto
    then show ?thesis using x(3,4) assms(1,2,5) by (cases "p = tx_hash tx") (auto simp: fits_chain_def parents_first_def)
  qed
qed

lemma Register_parents:
  assumes "LWWalletRegisterTransaction env tx w = Some (b, w', ev)" "wallet_inv r w" "tx_ok r tx" "parents_first w" "fits_chain tx w"
  shows "parents_first w'"
proof -
  let ?w = "w\<lparr>w_allTx := (w_allTx w)(tx_hash tx \<mapsto> tx)\<rparr>"
  consider "w' = w" | "w_allTx w (tx_hash tx) = None" "w' = ?w"
    | (added) w1 w2 w3 as as' where "w_allTx w (tx_hash tx) = None" "insertTx tx ?w = Some w1"
        "updateBalance (env_now env) w1 = Some w2" "LWWalletUnusedAddrs env False SEQUENCE_GAP_LIMIT_EXTERNAL False w2 = Some (as, w3)"
        "LWWalletUnusedAddrs env False SEQUENCE_GAP_LIMIT_INTERNAL True w3 = Some (as', w')"
  proof (cases "w_allTx w (tx_hash tx) = None \<and> containsTx w tx")
    case True
    then show ?thesis using assms(1) added unfolding LWWalletRegisterTransaction_def
      by (auto simp: bind_eq_Some_conv split: if_splits prod.splits)
  next
    case False
    then show ?thesis using assms(1) that(1,2) unfolding LWWalletRegisterTransaction_def by (auto split: if_splits)
  qed
  then show ?thesis
  proof cases
    case 2
    then show ?thesis using assms(4,5) wallet_invD(2) [OF assms(2)] by (intro known_parents [OF assms(4,5,3)]) auto
  next
    case added
    have new: "tx_hash tx \<notin> set (w_transactions ?w)" using wallet_invD(2) [OF assms(2)] added(1) by auto
    note ins = insertTx_inv [OF added(2) inv_known(1) [OF assms(2,3) added(1)] _ new, simplified]
    have p1: "parents_first w1"
      using ins(2,4) wallet_invD(2) [OF assms(2)] by (intro known_parents [OF assms(4,5,3) added(1)]) auto
    obtain w2' where "updateBalance (env_now env) w1 = Some w2'" "same_core w1 w2'" using updateBalance_core [OF ins(1)] by blast
    then have c: "same_core w1 w2" using added(3) by simp
    have inv2: "wallet_inv r w2" using core_inv [OF c ins(1)] .
    show ?thesis
      using UnusedAddrs_parents [OF added(5) UnusedAddrs_inv(1) [OF added(4) inv2] UnusedAddrs_parents [OF added(4) inv2 core_parents [OF c p1]]] .
  qed (use assms(4) in simp)
qed

text \<open>An update changes heights and times only, frees foreign transactions, and lists the same ones.\<close>

definition retimed :: "UInt256 set \<Rightarrow> u32 \<Rightarrow> LWWallet \<Rightarrow> LWWallet \<Rightarrow> bool" where
  "retimed H blockHeight w w' \<longleftrightarrow> set (w_transactions w') \<subseteq> set (w_transactions w) \<and> (\<forall>x t'. w_allTx w' x = Some t' \<longrightarrow>
     (\<exists>t. w_allTx w x = Some t \<and> tx_inputs t' = tx_inputs t \<and> tx_blockHeight t' = (if x \<in> H then blockHeight else tx_blockHeight t)))"

lemma retimed_refl: "retimed {} blockHeight w w"
  by (simp add: retimed_def)

lemma retimed_trans: "retimed H bh w w1 \<Longrightarrow> retimed G bh w1 w2 \<Longrightarrow> retimed (H \<union> G) bh w w2"
  unfolding retimed_def by (smt (verit) Un_iff subset_trans)

lemma retimed_parents:
  assumes "retimed (set txHashes) bh w w'" "heights_fit txHashes bh w"
  shows "parents_first w'"
  unfolding parents_first_def
proof (intro ballI allI impI)
  fix x p t' q'
  assume x: "x \<in> set (w_transactions w')" "w_allTx w' x = Some t'" "w_allTx w' p = Some q'" "spends t' p"
  obtain t q where t: "w_allTx w x = Some t" "tx_inputs t' = tx_inputs t" "tx_blockHeight t' = (if x \<in> set txHashes then bh else tx_blockHeight t)"
    and q: "w_allTx w p = Some q" "tx_blockHeight q' = (if p \<in> set txHashes then bh else tx_blockHeight q)"
    using assms(1) x(2,3) unfolding retimed_def by blast
  have "x \<in> set (w_transactions w)" "spends t p" using assms(1) x(1,4) t(2) by (auto simp: retimed_def spends_def)
  then have "height_after txHashes bh w p \<le> height_after txHashes bh w x" using assms(2) t(1) q(1) unfolding heights_fit_def by blast
  moreover have "tx_height w x = tx_blockHeight t" "tx_height w p = tx_blockHeight q" using t(1) q(1) by (simp_all add: tx_height_def)
  ultimately show "tx_blockHeight q' \<le> tx_blockHeight t'"
    unfolding t(3) q(2) height_after_def by (cases "x \<in> set txHashes"; cases "p \<in> set txHashes") simp_all
qed

lemma update_one_retimed:
  assumes "update_one bh ts h (w, hs, n) = Some (w', hs', n')" "wallet_inv r w" "all_contained w" "bh \<le> TX_UNCONFIRMED"
  shows "retimed {h} bh w w'"
proof (cases "w_allTx w h")
  case (Some t)
  let ?t = "t\<lparr>tx_timestamp := ts, tx_blockHeight := bh\<rparr>"
  let ?w = "w\<lparr>w_allTx := (w_allTx w)(h \<mapsto> ?t)\<rparr>"
  have hash: "tx_hash ?t = h" "length h = 32" using wallet_invD(3) [OF assms(2) Some] known_length [OF assms(2) Some] by auto
  show ?thesis
  proof (cases "tx_blockHeight t = bh \<and> tx_timestamp t = ts")
    case True
    then show ?thesis using assms(1) Some by (auto simp: update_one_def retimed_def)
  next
    case False
    note up = assms(1) [unfolded update_one_def Let_def prod.case Some option.case if_not_P [OF False]]
    show ?thesis
    proof (cases "containsTx ?w ?t")
      case True
      let ?v = "w\<lparr>w_transactions := filter (\<lambda>x. x \<noteq> h) (w_transactions w), w_allTx := (w_allTx w)(h \<mapsto> ?t)\<rparr>"
      have rm: "removeTx h ?w = Some ?v"
        using removeTx_filter [of ?w h] wallet_invD(1) [OF assms(2)] listed_hashes [OF assms(2)] hash by (auto split: if_splits)
      have "w' = ?w \<or> insertTx ?t ?v = Some w' \<and> length (filter (\<lambda>x. x \<noteq> h) (w_transactions w)) < length (w_transactions w)"
        using up True rm by (auto split: Option.bind_splits if_splits)
      then have "w' = ?w \<or> insertTx ?t ?v = Some w' \<and> h \<in> set (w_transactions w)" by (metis filter_neq less_irrefl)
      then have "w_allTx w' = w_allTx ?w \<and> set (w_transactions w') \<subseteq> set (w_transactions w)"
      proof
        assume i: "insertTx ?t ?v = Some w' \<and> h \<in> set (w_transactions w)"
        have "tx_ok r ?t" using tx_ok_retimed [OF wallet_invD(4) [OF assms(2) Some] assms(4)] .
        then have "wallet_inv r ?v" using retimed_inv [OF assms(2) Some _ hash(1)] by simp
        then show ?thesis using insertTx_inv(2,4) [of ?t ?v w' r] i hash(1) by auto
      qed auto
      then show ?thesis using Some by (auto simp: retimed_def)
    qed (use up Some in \<open>auto simp: retimed_def split: if_splits\<close>)
  qed
qed (use assms(1) in \<open>auto simp: update_one_def retimed_def\<close>)

lemma Update_retimed:
  assumes "LWWalletUpdateTransactions now txHashes bh ts w = Some (w', ev)" "wallet_inv r w" "all_contained w" "bh \<le> TX_UNCONFIRMED"
  shows "retimed (set txHashes) bh w w'"
proof -
  let ?w = "if bh > w_blockHeight w then w\<lparr>w_blockHeight := bh\<rparr> else w"
  let ?P = "\<lambda>H (v, hs :: UInt256 list, n :: bool). wallet_inv r v \<and> all_contained v \<and> retimed H bh w v"
  obtain w1 hs n where f: "fold_m (update_one bh ts) txHashes (?w, [], False) = Some (w1, hs, n)"
    using assms(1) by (auto simp: LWWalletUpdateTransactions_def Let_def bind_eq_Some_conv)
  have "?P H st \<Longrightarrow> fold_m (update_one bh ts) xs st = Some st' \<Longrightarrow> ?P (H \<union> set xs) st'" for H xs st st'
  proof (induction xs arbitrary: H st)
    case (Cons x xs)
    obtain v hs n where st: "st = (v, hs, n)" by (cases st)
    then have v: "wallet_inv r v" "all_contained v" "retimed H bh w v" using Cons.prems(1) by auto
    obtain v1 hs1 n1 where v1: "update_one bh ts x (v, hs, n) = Some (v1, hs1, n1)" "wallet_inv r v1" "all_contained v1"
      using update_one_inv [OF v(1,2) assms(4), of ts x hs n] by blast
    have "?P (H \<union> {x}) (v1, hs1, n1)" using v1 retimed_trans [OF v(3) update_one_retimed [OF v1(1) v(1,2) assms(4)]] by simp
    moreover have "fold_m (update_one bh ts) xs (v1, hs1, n1) = Some st'" using Cons.prems(2) v1(1) by (simp add: st)
    ultimately show ?case using Cons.IH [of "H \<union> {x}" "(v1, hs1, n1)"] by (simp add: Un_commute Un_assoc)
  qed simp
  moreover have "?P {} (?w, [], False)"
    using core_inv [of w ?w] core_contained [of w ?w] assms(2,3) by (auto simp: same_core_def retimed_def)
  ultimately have "?P ({} \<union> set txHashes) (w1, hs, n)" using f by blast
  then have w1: "wallet_inv r w1" "retimed (set txHashes) bh w w1" by simp_all
  have "w' = w1 \<or> same_core w1 w'"
    using assms(1) f updateBalance_core [OF w1(1), of now]
    by (auto simp: LWWalletUpdateTransactions_def Let_def bind_eq_Some_conv split: if_splits)
  then have "w_transactions w' = w_transactions w1 \<and> w_allTx w' = w_allTx w1" by (auto simp: same_core_def)
  then show ?thesis using w1(2) unfolding retimed_def by simp
qed

lemma Reorg_parents:
  assumes "wallet_inv r w" "parents_first w"
  shows "parents_first (after_reorg blockHeight w)"
  unfolding parents_first_def
proof (intro ballI allI impI)
  fix x p t' q'
  let ?f = "\<lambda>h t. if h \<in> set (w_transactions w) \<and> tx_height w h > blockHeight then unconfirmed t else t"
  assume x: "x \<in> set (w_transactions (after_reorg blockHeight w))" "w_allTx (after_reorg blockHeight w) x = Some t'"
    "w_allTx (after_reorg blockHeight w) p = Some q'" "spends t' p"
  obtain t q where t: "w_allTx w x = Some t" "t' = ?f x t" and q: "w_allTx w p = Some q" "q' = ?f p q"
    using x(2,3) by (auto simp: after_reorg_def split: if_splits)
  have l: "x \<in> set (w_transactions w)" "spends t p" using x(1,4) t(2) by (auto simp: after_reorg_def spends_def unconfirmed_def split: if_splits)
  then have "tx_blockHeight q \<le> tx_blockHeight t" using assms(2) t(1) q(1) unfolding parents_first_def by blast
  moreover have "tx_blockHeight t \<le> TX_UNCONFIRMED" "tx_blockHeight q \<le> TX_UNCONFIRMED"
    using wallet_invD(4) [OF assms(1)] t(1) q(1) by (auto simp: tx_ok_def)
  moreover have "tx_height w x = tx_blockHeight t" "tx_height w p = tx_blockHeight q" using t(1) q(1) by (simp_all add: tx_height_def)
  ultimately show "tx_blockHeight q' \<le> tx_blockHeight t'" unfolding t(2) q(2) using l(1) by (auto simp: unconfirmed_def)
qed

text \<open>A new wallet knows the transactions it is given, and no other.\<close>

lemma new_tx_given:
  assumes "new_tx tx w = Some w'" "ran (w_allTx w) \<subseteq> T" "tx \<in> T"
  shows "ran (w_allTx w') \<subseteq> T"
proof -
  have "w_allTx w' = w_allTx w \<or> w_allTx w' = (w_allTx w)(tx_hash tx \<mapsto> tx)"
    using assms(1) by (auto simp: new_tx_def insertTx_def split: Option.bind_splits if_splits)
  then show ?thesis using assms(2,3) unfolding ran_def by (auto split: if_splits) blast+
qed

lemma New_given:
  assumes "LWWalletNew env transactions mpk = Some (Some w)" "\<forall>t \<in> set transactions. tx_ok r t" "w_allTx w h = Some t"
  shows "t \<in> set transactions"
proof -
  obtain w1 w2 w3 as as' where w:
    "fold_m new_tx transactions (empty_wallet mpk) = Some w1"
    "LWWalletUnusedAddrs env False SEQUENCE_GAP_LIMIT_EXTERNAL False w1 = Some (as, w2)"
    "LWWalletUnusedAddrs env False SEQUENCE_GAP_LIMIT_INTERNAL True w2 = Some (as', w3)"
    "updateBalance (env_now env) w3 = Some w"
    using assms(1) by (auto simp: LWWalletNew_def split: Option.bind_splits if_splits prod.splits)
  have "wallet_inv r w1 \<and> ran (w_allTx w1) \<subseteq> set transactions"
    by (rule fold_m_invariant [OF w(1)])
      (use empty_wallet_inv new_tx_inv new_tx_given assms(2) in \<open>blast | simp add: empty_wallet_def empty_wallet_inv\<close>)+
  moreover have "w_allTx w = w_allTx w3"
    using updateBalance_core [OF UnusedAddrs_inv(1) [OF w(3) UnusedAddrs_inv(1) [OF w(2)]], of r "env_now env"] calculation w(4)
    by (auto simp: same_core_def)
  moreover have "w_allTx w3 = w_allTx w1"
    using UnusedAddrs_grows(4) [OF w(2)] UnusedAddrs_grows(4) [OF w(3)] UnusedAddrs_inv(1) [OF w(2)] calculation(1) wallet_invD(6) by metis
  ultimately show ?thesis using assms(3) by (auto simp: ran_def)
qed


lemma New_placed:
  assumes "LWWalletNew env transactions mpk = Some (Some w)" "\<forall>t \<in> set transactions. tx_ok r t \<and> containsTx w t" "list_fits transactions"
  shows "wallet_inv r w" "all_contained w" "parents_first w"
proof -
  show inv: "wallet_inv r w" using New_inv [OF assms(1)] assms(2) by blast
  have g: "t \<in> set transactions \<and> tx_hash t = h" if "w_allTx w h = Some t" for h t
    using New_given [OF assms(1) _ that] wallet_invD(3) [OF inv that] assms(2) by blast
  show "all_contained w" using g assms(2) unfolding all_contained_def by blast
  show "parents_first w" using g assms(3) unfolding parents_first_def list_fits_def by metis
qed

subsection \<open>The steps of a wallet\<close>

text \<open>
  Every operation that changes the state, with what its caller has to ensure: transactions that
  are registered are well-formed, and the heights that are registered or given by an update are
  those of a chain. A new wallet is given transactions of its own only: \<open>LWWalletNew\<close> itself checks
  this of the first one.
\<close>

inductive wallet_step :: "(UInt256 \<Rightarrow> nat) \<Rightarrow> ('p, 's, 'r) ec \<Rightarrow> LWWallet \<Rightarrow> wallet_event list \<Rightarrow> LWWallet \<Rightarrow> bool" for r ec where
  register: "env_ec env = ec \<Longrightarrow> tx_ok r tx \<Longrightarrow> fits_chain tx w \<Longrightarrow>
    LWWalletRegisterTransaction env tx w = Some (b, w', ev) \<Longrightarrow> wallet_step r ec w ev w'"
| remove: "LWWalletRemoveTransaction now txHash (w, []) = Some (w', ev) \<Longrightarrow> wallet_step r ec w ev w'"
| update: "blockHeight \<le> TX_UNCONFIRMED \<Longrightarrow> heights_fit txHashes blockHeight w \<Longrightarrow>
    LWWalletUpdateTransactions now txHashes blockHeight timestamp w = Some (w', ev) \<Longrightarrow> wallet_step r ec w ev w'"
| reorganise: "LWWalletSetTxUnconfirmedAfter now blockHeight w = Some (w', ev) \<Longrightarrow> wallet_step r ec w ev w'"
| addresses: "env_ec env = ec \<Longrightarrow> LWWalletUnusedAddrs env addrs gapLimit internal w = Some (as, w') \<Longrightarrow> wallet_step r ec w [] w'"
| set_fee: "wallet_step r ec w [] (LWWalletSetFeePerKb fee w)"
| create: "env_ec env = ec \<Longrightarrow> LWWalletCreateTransaction env rs amount addr w = Some (tx, w', rs') \<Longrightarrow> wallet_step r ec w [] w'"
| ask_fee: "env_ec env = ec \<Longrightarrow> LWWalletFeeForTxAmount env rs amount w = Some (fee, w', rs') \<Longrightarrow> wallet_step r ec w [] w'"

inductive reachable :: "(UInt256 \<Rightarrow> nat) \<Rightarrow> ('p, 's, 'r) ec \<Rightarrow> LWWallet \<Rightarrow> bool" for r ec where
  start: "env_ec env = ec \<Longrightarrow> LWWalletNew env transactions mpk = Some (Some w) \<Longrightarrow>
    \<forall>t \<in> set transactions. tx_ok r t \<and> containsTx w t \<Longrightarrow> list_fits transactions \<Longrightarrow> reachable r ec w"
| step: "reachable r ec w \<Longrightarrow> wallet_step r ec w ev w' \<Longrightarrow> reachable r ec w'"

lemma Remove_keeps:
  assumes "LWWalletRemoveTransaction now txHash (w, evs) = Some (w', ev)" "parents_first w" "wallet_inv r w"
  shows "wallet_inv r w'" "all_contained w \<Longrightarrow> all_contained w'" "parents_first w'"
proof -
  have "w' = w \<or> without {x. descends w txHash x} w w'"
  proof (cases "w_allTx w txHash")
    case None
    then show ?thesis using assms(1) by (subst (asm) LWWalletRemoveTransaction.simps) (auto split: if_splits)
  next
    case (Some tx)
    obtain w2 ev2 where "LWWalletRemoveTransaction now txHash (w, evs) = Some (w2, ev2)" "without {x. descends w txHash x} w w2"
      using Remove_removed [OF assms(3,2) Some, of now] unfolding removed_def by blast
    then show ?thesis using assms(1) by simp
  qed
  then show "wallet_inv r w'" "all_contained w \<Longrightarrow> all_contained w'" "parents_first w'"
    using without_inv without_closed_contained assms(2,3) by blast+
qed

lemma only_addrs_parents: "only_addrs env w w' \<Longrightarrow> wallet_inv r w \<Longrightarrow> parents_first w \<Longrightarrow> parents_first w'"
  using UnusedAddrs_parents by (auto simp: only_addrs_def)

lemma step_inv:
  assumes "wallet_step r ec w ev w'" "wallet_inv r w" "all_contained w" "parents_first w"
  shows "wallet_inv r w' \<and> all_contained w' \<and> parents_first w'"
  using assms
proof (cases rule: wallet_step.cases)
  case (register env tx b)
  then show ?thesis using Register_inv [OF register(4) assms(2) register(2)] Register_parents [OF register(4) assms(2) register(2) assms(4)] assms(3) by blast
next
  case (remove now txHash)
  then show ?thesis using Remove_keeps [OF remove(1) assms(4,2)] assms(3) by blast
next
  case (update blockHeight txHashes now timestamp)
  then show ?thesis using Update_inv [OF assms(2,3) update(1), of now txHashes timestamp]
    retimed_parents [OF Update_retimed [OF update(3) assms(2,3) update(1)] update(2)] by auto
next
  case (reorganise now blockHeight)
  obtain v ev2 where "LWWalletSetTxUnconfirmedAfter now blockHeight w = Some (v, ev2)" "same_core (after_reorg blockHeight w) v"
    using Reorg_core [OF assms(2,3)] by blast
  then have c: "same_core (after_reorg blockHeight w) w'" using reorganise by simp
  show ?thesis using core_inv [OF c] core_contained [OF c] core_parents [OF c] after_reorg_inv [OF assms(2,3)] Reorg_parents [OF assms(2,4)] by blast
next
  case (addresses env addrs gapLimit internal as)
  then show ?thesis using UnusedAddrs_inv [OF addresses(3) assms(2)] UnusedAddrs_parents [OF addresses(3) assms(2,4)] assms(3) by blast
next
  case (set_fee fee)
  have "same_core w w'" using set_fee by (simp add: same_core_def LWWalletSetFeePerKb_def)
  then show ?thesis using core_inv core_contained core_parents assms by blast
next
  case (create env rs amount addr tx rs')
  note c = CreateTransaction_wallet [OF create(3)]
  show ?thesis using only_addrs_inv [OF c assms(2)] only_addrs_parents [OF c assms(2,4)] assms(3) by blast
next
  case (ask_fee env rs amount fee rs')
  note c = FeeForTxAmount_wallet [OF ask_fee(3)]
  show ?thesis using only_addrs_inv [OF c assms(2)] only_addrs_parents [OF c assms(2,4)] assms(3) by blast
qed

lemma reachable_keeps: "reachable r ec w \<Longrightarrow> wallet_inv r w \<and> all_contained w \<and> parents_first w"
  by (induction rule: reachable.induct) (use New_placed step_inv in blast)+

subsection \<open>Address chains grow by unused addresses\<close>

text \<open>A chain continues another when the addresses behind it are the ones derived at their positions.\<close>

definition continues :: "(nat \<Rightarrow> string option option) \<Rightarrow> string list \<Rightarrow> string list \<Rightarrow> bool" where
  "continues derive chain chain' \<longleftrightarrow> length chain \<le> length chain' \<and> take (length chain) chain' = chain \<and>
     (\<forall>j < length chain'. length chain \<le> j \<longrightarrow> derive j = Some (Some (chain' ! j)))"

lemma continues_refl: "continues derive chain chain"
  by (simp add: continues_def)

lemma continues_snoc: "continues derive chain chain' \<Longrightarrow> derive (length chain') = Some (Some a) \<Longrightarrow> continues derive chain (chain' @ [a])"
  by (auto simp: continues_def nth_append less_Suc_eq)

text \<open>\<open>i\<close> is the position behind the last used address of the chain.\<close>

definition behind_used :: "string set \<Rightarrow> nat \<Rightarrow> string list \<Rightarrow> bool" where
  "behind_used used i chain \<longleftrightarrow> i \<le> length chain \<and> set (drop i chain) \<inter> used = {} \<and> (i \<noteq> 0 \<longrightarrow> chain ! (i - 1) \<in> used)"

lemma behind_used_snoc:
  assumes "behind_used used i chain"
  shows "behind_used used (if a \<in> used then length chain + 1 else i) (chain @ [a])"
proof (cases "a \<in> used")
  case False
  have "chain ! (i - 1) = (chain @ [a]) ! (i - 1)" if "i \<noteq> 0"
    using that assms by (auto simp: behind_used_def nth_append)
  then show ?thesis using False assms by (auto simp: behind_used_def)
qed (simp add: behind_used_def)

lemma addr_loop_spec:
  assumes "addr_loop derive used gapLimit i chain = Some res" "behind_used used i chain" "continues derive chain0 chain"
  shows "behind_used used (fst res) (snd res) \<and> continues derive chain0 (snd res) \<and>
    (fst res + gapLimit \<le> length (snd res) \<or> derive (length (snd res)) = Some None)"
proof -
  let ?Q = "\<lambda>derive used gapLimit res. behind_used used (fst res) (snd res) \<and> continues derive chain0 (snd res) \<and>
    (fst res + gapLimit \<le> length (snd res) \<or> derive (length (snd res)) = Some None)"
  let ?P = "\<lambda>derive used gapLimit i chain res. behind_used used i chain \<longrightarrow> continues derive chain0 chain \<longrightarrow> ?Q derive used gapLimit res"
  have "?P derive used gapLimit i chain res"
    using assms(1)
  proof (rule addr_loop.raw_induct [of ?P, rotated], goal_cases)
    case (1 loop derive used gapLimit i chain res)
    show ?case
    proof (intro impI)
      assume pre: "behind_used used i chain" "continues derive chain0 chain"
      show "?Q derive used gapLimit res"
      proof (cases "i + gapLimit > length chain")
        case True
        show ?thesis
        proof (cases "derive (length chain)")
          case (Some o')
          show ?thesis
          proof (cases o')
            case (Some a)
            let ?i = "if a \<in> used then length chain + 1 else i"
            have loop: "loop derive used gapLimit ?i (chain @ [a]) = Some res"
              using 1(2) True \<open>derive (length chain) = Some o'\<close> Some by simp
            show ?thesis using 1(1) [OF loop] behind_used_snoc [OF pre(1), of a] continues_snoc [OF pre(2), of a]
              \<open>derive (length chain) = Some o'\<close> Some by blast
          qed (use 1(2) True pre Some in auto)
        qed (use 1(2) True in simp)
      qed (use 1(2) pre in auto)
    qed
  qed
  then show ?thesis using assms(2,3) by blast
qed

text \<open>The loop ends when a run of unused addresses lies ahead.\<close>

lemma addr_loop_returns:
  assumes total: "\<And>n. derive n \<noteq> None" and run: "\<And>k a. k < gapLimit \<Longrightarrow> derive (m + k) = Some (Some a) \<Longrightarrow> a \<notin> used"
  shows "i \<le> m \<Longrightarrow> length chain \<le> m + gapLimit \<Longrightarrow> addr_loop derive used gapLimit i chain \<noteq> None"
proof (induction "m + gapLimit - length chain" arbitrary: i chain rule: less_induct)
  case less
  show ?case
  proof (cases "i + gapLimit > length chain")
    case True
    obtain o' where o': "derive (length chain) = Some o'" using total by fastforce
    show ?thesis
    proof (cases o')
      case (Some a)
      let ?i = "if a \<in> used then length chain + 1 else i"
      have "length chain < m" if "a \<in> used"
      proof (rule ccontr)
        assume "\<not> length chain < m"
        then have "length chain - m < gapLimit" "derive (m + (length chain - m)) = Some (Some a)" using True less.prems o' Some by auto
        then show False using run that by blast
      qed
      then have "?i \<le> m" using less.prems by auto
      then have "addr_loop derive used gapLimit ?i (chain @ [a]) \<noteq> None"
        using less.hyps [of "chain @ [a]" ?i] True less.prems by (simp del: not_None_eq)
      then show ?thesis using True o' Some by (subst addr_loop.simps) simp
    qed (use True o' in \<open>subst addr_loop.simps, simp\<close>)
  qed (subst addr_loop.simps, simp)
qed

lemma last_used: "behind_used used (length (dropWhile (\<lambda>a. a \<notin> used) (rev chain))) chain"
proof -
  let ?P = "\<lambda>a. a \<notin> used"
  let ?i = "length (dropWhile ?P (rev chain))"
  have split: "rev (dropWhile ?P (rev chain)) @ rev (takeWhile ?P (rev chain)) = chain"
    by (metis rev_append rev_rev_ident takeWhile_dropWhile_id)
  have "?i \<le> length chain" using length_dropWhile_le [of ?P "rev chain"] by simp
  moreover have "drop ?i chain = rev (takeWhile ?P (rev chain))"
    using arg_cong [OF split, of "drop ?i"] by simp
  then have "set (drop ?i chain) \<inter> used = {}" by (auto dest: set_takeWhileD)
  moreover have "chain ! (?i - 1) \<in> used" if "?i \<noteq> 0"
  proof -
    have ne: "dropWhile ?P (rev chain) \<noteq> []" using that by auto
    have "chain ! (?i - 1) = rev (dropWhile ?P (rev chain)) ! (?i - 1)"
      using arg_cong [OF split, of "\<lambda>c. c ! (?i - 1)"] ne by (simp add: nth_append)
    also have "\<dots> = hd (dropWhile ?P (rev chain))" using ne by (simp add: rev_nth hd_conv_nth)
    finally show ?thesis using hd_dropWhile [OF ne] by simp
  qed
  ultimately show ?thesis by (auto simp: behind_used_def)
qed

definition chain_of :: "bool \<Rightarrow> LWWallet \<Rightarrow> string list" where
  "chain_of internal w = (if internal then w_internalChain w else w_externalChain w)"

definition derive_of :: "('p, 's, 'r) env \<Rightarrow> bool \<Rightarrow> LWWallet \<Rightarrow> nat \<Rightarrow> string option option" where
  "derive_of env internal w =
     derive_address env (w_masterPubKey w) (if internal then SEQUENCE_INTERNAL_CHAIN else SEQUENCE_EXTERNAL_CHAIN)"

lemma UnusedAddrs_loop:
  assumes "LWWalletUnusedAddrs env addrs gapLimit internal w = Some (as, w')"
  shows "\<exists>i. addr_loop (derive_of env internal w) (w_usedAddrs w) (unat gapLimit)
      (length (dropWhile (\<lambda>a. a \<notin> w_usedAddrs w) (rev (chain_of internal w)))) (chain_of internal w) = Some (i, chain_of internal w') \<and>
    as = (if addrs \<and> i + unat gapLimit \<le> length (chain_of internal w') then take (unat gapLimit) (drop i (chain_of internal w')) else []) \<and>
    w_usedAddrs w' = w_usedAddrs w \<and> w_masterPubKey w' = w_masterPubKey w \<and> chain_of (\<not> internal) w' = chain_of (\<not> internal) w"
  using assms
  by (auto simp: LWWalletUnusedAddrs_def Let_def chain_of_def derive_of_def split: if_splits Option.bind_splits)

lemma derive_total: "w_masterPubKey w \<noteq> LW_MASTER_PUBKEY_NONE \<Longrightarrow> derive_of env internal w n \<noteq> None"
  by (simp add: derive_of_def derive_address_def LWBIP32PubKey_def)

text \<open>Ahead in a chain lies a run of positions whose addresses, where there are any, nobody pays to.\<close>

definition fresh_run :: "('p, 's, 'r) env \<Rightarrow> bool \<Rightarrow> LWWallet \<Rightarrow> string set \<Rightarrow> nat \<Rightarrow> bool" where
  "fresh_run env internal w used gapLimit \<longleftrightarrow> (\<exists>m \<ge> length (chain_of internal w). \<forall>k < gapLimit. \<forall>a.
     derive_of env internal w (m + k) = Some (Some a) \<longrightarrow> a \<notin> used)"

lemma UnusedAddrs_returns:
  assumes "w_masterPubKey w \<noteq> LW_MASTER_PUBKEY_NONE" "gapLimit \<noteq> 0" "fresh_run env internal w used (unat gapLimit)" "w_usedAddrs w \<subseteq> used"
  shows "LWWalletUnusedAddrs env addrs gapLimit internal w \<noteq> None"
proof -
  obtain m where m: "m \<ge> length (chain_of internal w)"
    "\<And>k a. k < unat gapLimit \<Longrightarrow> derive_of env internal w (m + k) = Some (Some a) \<Longrightarrow> a \<notin> w_usedAddrs w"
    using assms(3,4) unfolding fresh_run_def by blast
  have "length (dropWhile (\<lambda>a. a \<notin> w_usedAddrs w) (rev (chain_of internal w))) \<le> m"
    using m(1) last_used [of "w_usedAddrs w" "chain_of internal w"] unfolding behind_used_def by (meson order_trans)
  then have "addr_loop (derive_of env internal w) (w_usedAddrs w) (unat gapLimit)
      (length (dropWhile (\<lambda>a. a \<notin> w_usedAddrs w) (rev (chain_of internal w)))) (chain_of internal w) \<noteq> None"
    using addr_loop_returns [of "derive_of env internal w" "unat gapLimit" m "w_usedAddrs w", OF derive_total [OF assms(1)] m(2)] m(1)
    by (meson le_add1 order_trans)
  then show ?thesis using assms(2) by (auto simp: LWWalletUnusedAddrs_def Let_def chain_of_def derive_of_def)
qed

text \<open>Computing the balance marks addresses as used only when a listed transaction pays to them.\<close>

definition paid_addrs :: "LWWallet \<Rightarrow> string set" where
  "paid_addrs w = (\<Union>h \<in> set (w_transactions w). case w_allTx w h of None \<Rightarrow> {} | Some t \<Rightarrow> out_address ` set (tx_outputs t))"

lemma add_output_used:
  "fold (add_output h) outs (w, b) = (w', b') \<Longrightarrow> w_allTx w' = w_allTx w \<and> w_usedAddrs w' \<subseteq> w_usedAddrs w \<union> out_address ` snd ` set outs"
proof (induction outs arbitrary: w b)
  case (Cons out outs)
  obtain w1 b1 where 1: "add_output h out (w, b) = (w1, b1)" by fastforce
  then have "w_allTx w1 = w_allTx w \<and> w_usedAddrs w1 \<subseteq> insert (out_address (snd out)) (w_usedAddrs w)"
    by (cases out) (auto simp: add_output_def Let_def split: if_splits)
  then show ?case using Cons.IH [of w1 b1] Cons.prems 1 by auto
qed simp

lemma balance_step_used:
  assumes "balance_step now h (w, b, p) = Some (w', b', p')"
  shows "w_allTx w' = w_allTx w \<and> w_usedAddrs w' \<subseteq> w_usedAddrs w \<union> (case w_allTx w h of None \<Rightarrow> {} | Some t \<Rightarrow> out_address ` set (tx_outputs t))"
proof -
  obtain tx where tx: "w_allTx w h = Some tx" using assms by (auto simp: balance_step_def split: Option.bind_splits)
  let ?w = "w\<lparr>w_spentOutputs := w_spentOutputs w \<union> set (map outpoint (tx_inputs tx))\<rparr>"
  obtain w1 b1 where 1: "fold (add_output (tx_hash tx)) (enumerate 0 (tx_outputs tx)) (?w, b) = (w1, b1)" by fastforce
  have "out_address ` snd ` set (enumerate 0 (tx_outputs tx)) = out_address ` set (tx_outputs tx)" by (metis list.set_map map_snd_enumerate)
  then have u: "w_allTx w1 = w_allTx w \<and> w_usedAddrs w1 \<subseteq> w_usedAddrs w \<union> out_address ` set (tx_outputs tx)" using add_output_used [OF 1] by simp
  show ?thesis
  proof (cases "tx_blockHeight tx = TX_UNCONFIRMED \<and> conflicts w tx")
    case no: False
    show ?thesis
    proof (cases "tx_blockHeight tx = TX_UNCONFIRMED \<and> postponed now ?w tx")
      case True
      then show ?thesis using assms tx no by (auto simp: balance_step_def Let_def)
    next
      case False
      have "\<exists>us bb. w_allTx w' = w_allTx w1 \<and> w_usedAddrs w' = w_usedAddrs w1"
        using assms unfolding balance_step_def prod.case tx Option.bind.bind_lunit Let_def if_not_P [OF no] if_not_P [OF False] 1
        by (auto split: Option.bind_splits if_splits)
      then show ?thesis using u tx by simp
    qed
  qed (use assms tx in \<open>auto simp: balance_step_def\<close>)
qed

lemma updateBalance_used:
  assumes "updateBalance now w = Some w'"
  shows "w_usedAddrs w' \<subseteq> paid_addrs w"
proof -
  let ?w0 = "w\<lparr>w_utxos := [], w_balanceHist := [], w_spentOutputs := {}, w_invalidTx := {}, w_pendingTx := {},
     w_usedAddrs := {}, w_totalSent := 0, w_totalReceived := 0\<rparr>"
  let ?P = "\<lambda>(w1, b :: u64, p :: u64). w_allTx w1 = w_allTx w \<and> w_usedAddrs w1 \<subseteq> paid_addrs w"
  obtain w1 b p where f: "fold_m (balance_step now) (w_transactions w) (?w0, 0, 0) = Some (w1, b, p)" "w' = w1\<lparr>w_balance := b\<rparr>"
    using assms by (auto simp: updateBalance_def split: Option.bind_splits)
  have "?P (w1, b, p)"
  proof (rule fold_m_invariant [OF f(1)])
    fix h and st st' :: "LWWallet \<times> u64 \<times> u64"
    assume h: "h \<in> set (w_transactions w)" "?P st" "balance_step now h st = Some st'"
    obtain w2 b2 p2 w3 b3 p3 where st: "st = (w2, b2, p2)" "st' = (w3, b3, p3)" by (cases st, cases st') blast
    have "(case w_allTx w h of None \<Rightarrow> {} | Some t \<Rightarrow> out_address ` set (tx_outputs t)) \<subseteq> paid_addrs w"
      using h(1) unfolding paid_addrs_def by blast
    then show "?P st'" using balance_step_used [of now h w2 b2 p2 w3 b3 p3] h(2,3) by (auto simp: st)
  qed simp
  then show ?thesis using f(2) by simp
qed

lemma fresh_run_cong:
  "chain_of internal w' = chain_of internal w \<Longrightarrow> w_masterPubKey w' = w_masterPubKey w \<Longrightarrow>
   fresh_run env internal w' used n = fresh_run env internal w used n"
  by (simp add: fresh_run_def derive_of_def)

definition listed_after :: "LWTransaction \<Rightarrow> LWWallet \<Rightarrow> LWWallet \<Rightarrow> bool" where
  "listed_after tx w w' \<longleftrightarrow> mset (w_transactions w') = add_mset (tx_hash tx) (mset (w_transactions w)) \<and>
     w_allTx w' = (w_allTx w)(tx_hash tx \<mapsto> tx)"

lemma Register_adds:
  assumes inv: "wallet_inv r w" "tx_ok r tx" and new: "w_allTx w (tx_hash tx) = None" "containsTx w tx"
    and mpk: "w_masterPubKey w \<noteq> LW_MASTER_PUBKEY_NONE"
    and run: "fresh_run env False w (paid_addrs w \<union> out_address ` set (tx_outputs tx)) (unat SEQUENCE_GAP_LIMIT_EXTERNAL)"
      "fresh_run env True w (paid_addrs w \<union> out_address ` set (tx_outputs tx)) (unat SEQUENCE_GAP_LIMIT_INTERNAL)"
  shows "\<exists>w'. LWWalletRegisterTransaction env tx w = Some (True, w', [BalanceChanged (w_balance w'), TxAdded (tx_hash tx)]) \<and> listed_after tx w w'"
proof -
  let ?w = "w\<lparr>w_allTx := (w_allTx w)(tx_hash tx \<mapsto> tx)\<rparr>"
  let ?used = "paid_addrs w \<union> out_address ` set (tx_outputs tx)"
  note K = inv_known(1) [OF inv new(1)]
  have "insertTx tx ?w \<noteq> None"
    using insertTx_returns [of r ?w tx] wallet_invD(2,7) [OF K] inv(2) by (simp add: tx_ok_def)
  then obtain w1 where w1: "insertTx tx ?w = Some w1" by auto
  have "tx_hash tx \<notin> set (w_transactions ?w)" using wallet_invD(2) [OF inv(1)] new(1) by auto
  note I1 = insertTx_inv [OF w1 K _ this, simplified] and S1 = insertTx_sorted [OF w1 wallet_invD(5) [OF K], simplified]
  obtain w2 where w2: "updateBalance (env_now env) w1 = Some w2" "same_txs w1 w2" using updateBalance_spec [OF wallet_invD(8) [OF I1(1)]] by blast
  have kept: "w_masterPubKey w2 = w_masterPubKey w" "chain_of internal w2 = chain_of internal w" for internal
    using arg_cong [OF S1(3), of w_masterPubKey] arg_cong [OF S1(3), of "chain_of internal"] w2(2) by (auto simp: same_txs_def chain_of_def)
  have "paid_addrs w1 \<subseteq> ?used"
    unfolding paid_addrs_def I1(2,4) by (auto split: if_splits)
  then have used: "w_usedAddrs w2 \<subseteq> ?used" using updateBalance_used [OF w2(1)] by blast
  have gap: "SEQUENCE_GAP_LIMIT_EXTERNAL \<noteq> 0" "SEQUENCE_GAP_LIMIT_INTERNAL \<noteq> 0"
    by (simp_all add: SEQUENCE_GAP_LIMIT_EXTERNAL_def SEQUENCE_GAP_LIMIT_INTERNAL_def)
  have "LWWalletUnusedAddrs env False SEQUENCE_GAP_LIMIT_EXTERNAL False w2 \<noteq> None"
    using UnusedAddrs_returns [of w2] mpk kept gap(1) used run(1) fresh_run_cong [of False w2 w] by metis
  then obtain as w3 where w3: "LWWalletUnusedAddrs env False SEQUENCE_GAP_LIMIT_EXTERNAL False w2 = Some (as, w3)" by auto
  have kept3: "w_masterPubKey w3 = w_masterPubKey w" "chain_of True w3 = chain_of True w" "w_usedAddrs w3 \<subseteq> ?used"
    using UnusedAddrs_loop [OF w3] kept used by auto
  have "LWWalletUnusedAddrs env False SEQUENCE_GAP_LIMIT_INTERNAL True w3 \<noteq> None"
    using UnusedAddrs_returns [of w3] mpk kept3 gap(2) run(2) fresh_run_cong [of True w3 w] by metis
  then obtain as' w4 where w4: "LWWalletUnusedAddrs env False SEQUENCE_GAP_LIMIT_INTERNAL True w3 = Some (as', w4)" by auto
  have inv2: "wallet_inv r w2" using updateBalance_inv(1) [OF I1(1) w2(1)] .
  note g3 = UnusedAddrs_grows(3,4) [OF w3 wallet_invD(6) [OF inv2]]
  note g4 = UnusedAddrs_grows(3,4) [OF w4 wallet_invD(6) [OF UnusedAddrs_inv(1) [OF w3 inv2]]]
  have "listed_after tx w w4" using S1(2) I1(4) w2(2) g3 g4 by (simp add: listed_after_def same_txs_def)
  moreover have "LWWalletRegisterTransaction env tx w = Some (True, w4, [BalanceChanged (w_balance w4), TxAdded (tx_hash tx)])"
    using inv(2) new w1 w2(1) w3 w4 by (simp add: LWWalletRegisterTransaction_def tx_ok_def)
  ultimately show ?thesis by blast
qed

end
