(* ===== verification/LW_WalletSpec.thy ===== *)
theory LW_WalletSpec
  imports LW_WalletInv
begin

text \<open>
  What the operations of the wallet guarantee, stated over \<open>LWWallet.c\<close> as it is modelled, each with
  an example on a concrete wallet; and the situations in which the code does not do what it means to.
\<close>

subsection \<open>The state machine\<close>

text \<open>
  C1. A wallet is created from transactions that are its own, and any sequence of operations is
  performed: transactions are registered, updated, removed and created, the chain is reorganised, addresses and fees are asked for.
  What its user has to ensure is that each transaction given or registered is well-formed (signed, with
  fewer than 2^32 outputs, a height of at most TX_UNCONFIRMED, no hash of zeros, its own or of an input,
  and no cycle of transactions that spend each other), and that the heights of those and of updates are those of a chain: none is below one it spends an output of.
  Then the wallet lists distinct transactions that it holds, in the order of their heights; each is
  well-formed and stored under its hash; its set of addresses is that of its two chains; every listed
  transaction is the wallet's, because it pays to one of its addresses or spends such an output;
  and no listed transaction is below one it spends from, which is what removing one relies on.
\<close>

theorem wallet_invariant:
  assumes "reachable r ec w"
  shows "wallet_inv r w \<and> all_contained w \<and> parents_first w"
  using assms by (rule reachable_keeps)

text \<open>An environment in which no public key can be parsed, so that no address can be derived.\<close>

definition dead_env :: "(u8, UInt256, unit) env" where
  "dead_env = \<lparr>env_ec = byte_ec\<lparr>pubkey_parse := (\<lambda>b. None)\<rparr>, env_testnet = False, env_now = 0, env_moved = (\<lambda>c. False)\<rparr>"

definition some_mpk :: LWMasterPubKey where
  "some_mpk = LW_MASTER_PUBKEY_NONE\<lparr>fingerPrint := 1\<rparr>"

definition first_byte :: "UInt256 \<Rightarrow> nat" where
  "first_byte h = unat (hd h)"

text \<open>A transaction without inputs and with one output, and one that spends output 0 of another.\<close>

definition pay_tx :: "u8 \<Rightarrow> u32 \<Rightarrow> string \<Rightarrow> LWTransaction" where
  "pay_tx n height addr = \<lparr>tx_hash = replicate 32 n, tx_version = 1, tx_inputs = [],
     tx_outputs = [\<lparr>out_address = addr, out_amount = 100000000, out_script = None\<rparr>], tx_lockTime = 0,
     tx_blockHeight = height, tx_timestamp = 1\<rparr>"

definition spend_tx :: "u8 \<Rightarrow> u32 \<Rightarrow> u8 \<Rightarrow> string \<Rightarrow> LWTransaction" where
  "spend_tx n height p addr = (pay_tx n height addr)\<lparr>tx_inputs := [\<lparr>in_hash = replicate 32 p, in_index = 0,
     in_address = ''x'', in_amount = 0, in_script = None, in_signature = Some [0], in_sequence = 0xffffffff\<rparr>]\<rparr>"

definition wallet_with :: "LWTransaction list \<Rightarrow> LWWallet" where
  "wallet_with txs = (empty_wallet some_mpk)\<lparr>w_transactions := map tx_hash txs,
     w_allTx := map_of (map (\<lambda>t. (tx_hash t, t)) txs), w_externalChain := [''a''], w_allAddrs := {''a''}\<rparr>"

lemmas example_defs = pay_tx_def spend_tx_def wallet_with_def empty_wallet_def replicate_eq_replicate

lemma some_mpk: "some_mpk \<noteq> LW_MASTER_PUBKEY_NONE"
  by (simp add: some_mpk_def LW_MASTER_PUBKEY_NONE_def)

lemma dead_derive: "w_masterPubKey w = some_mpk \<Longrightarrow> derive_of dead_env internal w n = Some None"
  by (simp add: derive_of_def derive_address_def LWBIP32PubKey_def some_mpk LWKeySetPubKey_def dead_env_def Let_def fits_in_def)

lemma dead_run: "w_masterPubKey w = some_mpk \<Longrightarrow> fresh_run dead_env internal w used n"
  by (auto simp: fresh_run_def dead_derive)

lemma tx_ok_examples:
  "n \<noteq> 0 \<Longrightarrow> height \<le> TX_UNCONFIRMED \<Longrightarrow> tx_ok first_byte (pay_tx n height addr)"
  "p \<noteq> 0 \<Longrightarrow> p < n \<Longrightarrow> height \<le> TX_UNCONFIRMED \<Longrightarrow> tx_ok first_byte (spend_tx n height p addr)"
  by (auto simp: tx_ok_def ranked_def first_byte_def example_defs LWTransactionIsSigned_def UINT256_ZERO_def word_less_nat_alt)

lemma dead_addrs:
  assumes "w_masterPubKey w = some_mpk" "g \<noteq> 0"
  shows "LWWalletUnusedAddrs dead_env False g internal w = Some ([], w)"
proof -
  have "addr_loop (derive_of dead_env internal w) used n i chain = Some (i, chain)" for used n i chain
    using dead_derive [OF assms(1)] by (subst addr_loop.simps) simp
  then show ?thesis using assms by (cases internal) (simp_all add: LWWalletUnusedAddrs_def derive_of_def Let_def dead_env_def)
qed

lemma dead_new: "LWWalletNew dead_env [] some_mpk = Some (Some (empty_wallet some_mpk))"
proof -
  have b: "updateBalance now (empty_wallet some_mpk) = Some (empty_wallet some_mpk)" for now by (simp add: updateBalance_def empty_wallet_def)
  have "LWWalletUnusedAddrs dead_env False g internal (empty_wallet some_mpk) = Some ([], empty_wallet some_mpk)" if "g \<noteq> 0" for g internal
    by (rule dead_addrs [OF _ that]) (simp add: empty_wallet_def)
  then show ?thesis using b by (simp add: LWWalletNew_def SEQUENCE_GAP_LIMIT_EXTERNAL_def SEQUENCE_GAP_LIMIT_INTERNAL_def)
qed

theorem wallet_invariant_witness:
  "\<exists>w. w_allTx w (replicate 32 3) \<noteq> None \<and> wallet_inv first_byte w \<and> all_contained w \<and> parents_first w"
proof -
  let ?tx = "pay_tx 3 TX_UNCONFIRMED ''b''"
  let ?w = "(empty_wallet some_mpk)\<lparr>w_allTx := (w_allTx (empty_wallet some_mpk))(tx_hash ?tx \<mapsto> ?tx)\<rparr>"
  have ok: "tx_ok first_byte ?tx" by (rule tx_ok_examples) simp_all
  have "reachable first_byte (env_ec dead_env) (empty_wallet some_mpk)"
    by (rule reachable.start [OF refl dead_new]) (simp_all add: list_fits_def)
  moreover have "fits_chain ?tx (empty_wallet some_mpk)" by (simp add: fits_chain_def empty_wallet_def)
  moreover have "\<not> containsTx (empty_wallet some_mpk) ?tx" by (simp add: containsTx_def empty_wallet_def pay_tx_def)
  then have "LWWalletRegisterTransaction dead_env ?tx (empty_wallet some_mpk) = Some (False, ?w, [])"
    using ok by (simp add: LWWalletRegisterTransaction_def tx_ok_def pay_tx_def [of 3] empty_wallet_def [of some_mpk])
  ultimately have "reachable first_byte (env_ec dead_env) ?w"
    using reachable.step [OF _ wallet_step.register [OF refl ok]] by metis
  from wallet_invariant [OF this] show ?thesis by (intro exI [of _ ?w]) (simp add: pay_tx_def)
qed

text \<open>
  C23. Asking a wallet for unused addresses keeps its chain and continues it by the addresses derived
  at their positions. The result is either none, and then either they were not asked for or no further
  address can be derived; or as many as asked for: the ones in the chain right behind the last address
  that is used (\<open>i\<close> is 0 when none is), where used means marked so by the last computation of the
  balance, which marks what the transactions pay to that are neither pending nor invalid. None of them is
  marked so, and they now belong to the wallet.
\<close>

theorem unused_addrs_fresh:
  assumes "LWWalletUnusedAddrs env addrs gapLimit internal w = Some (as, w')" "wallet_inv r w"
  shows "continues (derive_of env internal w) (chain_of internal w) (chain_of internal w') \<and> w_usedAddrs w' = w_usedAddrs w \<and>
    (as = [] \<and> (addrs \<longrightarrow> derive_of env internal w (length (chain_of internal w')) = Some None) \<or>
     addrs \<and> length as = unat gapLimit \<and> set as \<inter> w_usedAddrs w = {} \<and> set as \<subseteq> w_allAddrs w' \<and>
     (\<exists>i. as = take (unat gapLimit) (drop i (chain_of internal w')) \<and> behind_used (w_usedAddrs w) i (chain_of internal w')))"
proof -
  obtain i where loop: "addr_loop (derive_of env internal w) (w_usedAddrs w) (unat gapLimit)
      (length (dropWhile (\<lambda>a. a \<notin> w_usedAddrs w) (rev (chain_of internal w)))) (chain_of internal w) = Some (i, chain_of internal w')"
    and as: "as = (if addrs \<and> i + unat gapLimit \<le> length (chain_of internal w') then take (unat gapLimit) (drop i (chain_of internal w')) else [])"
    and keep: "w_usedAddrs w' = w_usedAddrs w"
    using UnusedAddrs_loop [OF assms(1)] by auto
  note S = addr_loop_spec [OF loop last_used continues_refl, simplified]
  have own: "set (chain_of internal w') \<subseteq> w_allAddrs w'"
    using UnusedAddrs_grows(1) [OF assms(1) wallet_invD(6) [OF assms(2)]] by (auto simp: chain_of_def)
  show ?thesis
  proof (cases "addrs \<and> i + unat gapLimit \<le> length (chain_of internal w')")
    case True
    then have e: "as = take (unat gapLimit) (drop i (chain_of internal w'))" "length as = unat gapLimit" using as by auto
    then have "set as \<subseteq> set (drop i (chain_of internal w'))" by (auto dest: in_set_takeD)
    then have "set as \<inter> w_usedAddrs w = {}" "set as \<subseteq> w_allAddrs w'"
      using S own by (auto simp: behind_used_def dest: in_set_dropD)
    then show ?thesis using e S True keep by blast
  next
    case False
    then show ?thesis using as S keep by auto
  qed
qed

text \<open>The first address of the chain is used, and the two asked for are the ones behind it.\<close>

definition queue_of_addrs :: LWWallet where
  "queue_of_addrs = (empty_wallet some_mpk)\<lparr>w_internalChain := [''x'', ''y'', ''z'', ''u''],
     w_allAddrs := {''x'', ''y'', ''z'', ''u''}, w_usedAddrs := {''x''}\<rparr>"

theorem unused_addrs_fresh_witness:
  "LWWalletUnusedAddrs plain_env True 2 True queue_of_addrs = Some ([''y'', ''z''], queue_of_addrs) \<and>
    set [''y'', ''z''] \<inter> w_usedAddrs queue_of_addrs = {} \<and> set [''y'', ''z''] \<subseteq> w_allAddrs queue_of_addrs"
proof -
  have run: "LWWalletUnusedAddrs plain_env True 2 True queue_of_addrs = Some ([''y'', ''z''], queue_of_addrs)"
    by (simp add: LWWalletUnusedAddrs_def addr_loop.simps queue_of_addrs_def empty_wallet_def plain_env_def)
  have "wallet_inv first_byte queue_of_addrs"
    by (auto simp: wallet_inv_def queue_of_addrs_def empty_wallet_def height_sorted_def)
  from unused_addrs_fresh [OF run this] run show ?thesis by simp
qed

text \<open>A wallet with a transaction that pays it and one that spends this and pays it again.\<close>

definition family :: LWWallet where
  "family = wallet_with [pay_tx 1 7 ''a'', spend_tx 2 TX_UNCONFIRMED 1 ''a'']"

lemma hash_of_examples [simp]: "tx_hash (pay_tx n h a) = replicate 32 n" "tx_hash (spend_tx n h p a) = replicate 32 n"
  by (simp_all add: pay_tx_def spend_tx_def)

lemma example_hashes [simp]: "replicate 32 m = replicate 32 n \<longleftrightarrow> m = (n :: u8)"
  by (simp add: replicate_eq_replicate)

lemma tx_height_with:
  "tx_height (wallet_with txs) h = (case map_of (map (\<lambda>t. (tx_hash t, t)) txs) h of None \<Rightarrow> 0 | Some t \<Rightarrow> tx_blockHeight t)"
  by (simp add: tx_height_def wallet_with_def)

lemma wallet_with_inv:
  assumes "\<forall>t \<in> set txs. tx_ok r t" "distinct (map tx_hash txs)" "sorted (map tx_blockHeight txs)"
  shows "wallet_inv r (wallet_with txs)"
proof -
  have m: "map_of (map (\<lambda>t. (tx_hash t, t)) txs) h = Some t \<longleftrightarrow> t \<in> set txs \<and> tx_hash t = h" for h t
    using assms(2) by (auto simp: map_of_eq_Some_iff comp_def)
  have "tx_height (wallet_with txs) (tx_hash t) = tx_blockHeight t" if "t \<in> set txs" for t
    using m [of "tx_hash t" t] that unfolding tx_height_with by simp
  then have "map (tx_height (wallet_with txs)) (map tx_hash txs) = map tx_blockHeight txs" by simp
  then have "height_sorted (wallet_with txs)" using assms(3) by (simp add: height_sorted_def wallet_with_def empty_wallet_def del: map_map)
  moreover have "set (map tx_hash txs) \<subseteq> dom (map_of (map (\<lambda>t. (tx_hash t, t)) txs))" by (simp add: dom_map_of_conv_image_fst image_image)
  ultimately show ?thesis using assms(1,2) m by (intro wallet_invI) (simp_all add: wallet_with_def empty_wallet_def)
qed

lemma family_ok: "wallet_inv first_byte family" "parents_first family" "all_contained family"
    "w_allTx family (replicate 32 1) = Some (pay_tx 1 7 ''a'')"
proof -
  show "wallet_inv first_byte family" unfolding family_def
    by (rule wallet_with_inv) (auto simp: tx_ok_examples TX_UNCONFIRMED_def, simp_all add: pay_tx_def spend_tx_def)
  show "parents_first family" "all_contained family" "w_allTx family (replicate 32 1) = Some (pay_tx 1 7 ''a'')"
    by (auto simp: family_def parents_first_def all_contained_def containsTx_def wallet_with_def pay_tx_def spend_tx_def spends_def TX_UNCONFIRMED_def split: if_splits)
qed

lemma family_descends: "descends family (replicate 32 1) (replicate 32 2)"
  by (rule descends.child [OF descends.self, of _ _ "spend_tx 2 TX_UNCONFIRMED 1 ''a''"])
    (simp_all add: family_def wallet_with_def spends_def, simp add: spend_tx_def)

text \<open>
  C20. As long as no listed transaction is below one it spends from, removing a transaction returns:
  it and the listed transactions that depend on it, directly or not, are gone, all others stay in
  their order, and those that were the wallet's still are.
\<close>

theorem remove_correct:
  assumes "wallet_inv r w" "parents_first w" "w_allTx w h = Some tx"
  shows "\<exists>w' ev. LWWalletRemoveTransaction now h (w, evs) = Some (w', ev) \<and>
    w_transactions w' = filter (\<lambda>x. \<not> descends w h x) (w_transactions w) \<and>
    w_allTx w' = w_allTx w |` {x. \<not> descends w h x} \<and>
    w_allAddrs w' = w_allAddrs w \<and> wallet_inv r w' \<and> parents_first w' \<and> (all_contained w \<longrightarrow> all_contained w')"
proof -
  obtain w' ev where w': "LWWalletRemoveTransaction now h (w, evs) = Some (w', ev)" "without {x. descends w h x} w w'"
    using Remove_removed [OF assms, of now] unfolding removed_def by blast
  have "- {x. descends w h x} = {x. \<not> descends w h x}" by auto
  then show ?thesis
    using w'(1) without_inv [OF w'(2) assms(1)] without_closed_contained [OF w'(2) assms(1)] assms(2)
      w'(2) [unfolded without_def] by simp
qed

theorem remove_correct_witness:
  "\<exists>w' ev. LWWalletRemoveTransaction 0 (replicate 32 1) (family, []) = Some (w', ev) \<and> w_transactions w' = []"
  using remove_correct [OF family_ok(1,2,4), of 0 "[]"] family_descends descends.self [of family "replicate 32 1"]
  by (auto simp: family_def wallet_with_def)

text \<open>
  C21. Registering a well-formed transaction returns as long as ahead in both chains lies a run of
  addresses nobody has paid to. One that is known is ignored; one that is the wallet's is added to it,
  in its place, and reported with the new balance; another is remembered while it is unconfirmed. The
  invariant holds again.
\<close>

theorem register_returns:
  assumes "wallet_inv r w" "tx_ok r tx" "w_masterPubKey w \<noteq> LW_MASTER_PUBKEY_NONE"
    "fresh_run env False w (paid_addrs w \<union> out_address ` set (tx_outputs tx)) (unat SEQUENCE_GAP_LIMIT_EXTERNAL)"
    "fresh_run env True w (paid_addrs w \<union> out_address ` set (tx_outputs tx)) (unat SEQUENCE_GAP_LIMIT_INTERNAL)"
  shows "\<exists>b w' ev. LWWalletRegisterTransaction env tx w = Some (b, w', ev) \<and> wallet_inv r w' \<and>
    (if w_allTx w (tx_hash tx) \<noteq> None then b \<and> w' = w \<and> ev = []
     else if containsTx w tx then b \<and> listed_after tx w w' \<and> ev = [BalanceChanged (w_balance w'), TxAdded (tx_hash tx)]
     else \<not> b \<and> ev = [] \<and> w_transactions w' = w_transactions w \<and>
       w_allTx w' = (if tx_blockHeight tx = TX_UNCONFIRMED then (w_allTx w)(tx_hash tx \<mapsto> tx) else w_allTx w))"
proof (cases "w_allTx w (tx_hash tx) = None")
  case new: True
  show ?thesis
  proof (cases "containsTx w tx")
    case True
    then obtain w' where w': "LWWalletRegisterTransaction env tx w = Some (True, w', [BalanceChanged (w_balance w'), TxAdded (tx_hash tx)])"
      "listed_after tx w w'" using Register_adds [OF assms(1,2) new _ assms(3-5)] by blast
    then show ?thesis using Register_inv(1) [OF w'(1) assms(1,2)] True new
      by (intro exI [of _ True] exI [of _ w'] exI [of _ "[BalanceChanged (w_balance w'), TxAdded (tx_hash tx)]"]) simp
  next
    case False
    moreover have "LWTransactionIsSigned tx" using assms(2) by (simp add: tx_ok_def)
    ultimately have "LWWalletRegisterTransaction env tx w =
        Some (False, if tx_blockHeight tx = TX_UNCONFIRMED then w\<lparr>w_allTx := (w_allTx w)(tx_hash tx \<mapsto> tx)\<rparr> else w, [])"
      using new by (simp add: LWWalletRegisterTransaction_def)
    then show ?thesis using False new assms(1) inv_known(1) [OF assms(1,2) new] by (intro exI [of _ False]) simp
  qed
next
  case False
  moreover have "LWTransactionIsSigned tx" using assms(2) by (simp add: tx_ok_def)
  ultimately have "LWWalletRegisterTransaction env tx w = Some (True, w, [])" by (simp add: LWWalletRegisterTransaction_def)
  then show ?thesis using False assms(1) by (intro exI [of _ True]) simp
qed

theorem register_returns_witness:
  "\<exists>w'. LWWalletRegisterTransaction dead_env (pay_tx 3 9 ''a'') family =
     Some (True, w', [BalanceChanged (w_balance w'), TxAdded (replicate 32 3)]) \<and> replicate 32 3 \<in> set (w_transactions w')"
proof -
  have ok: "tx_ok first_byte (pay_tx 3 9 ''a'')" by (rule tx_ok_examples) (simp_all add: TX_UNCONFIRMED_def)
  have mpk: "w_masterPubKey family = some_mpk" by (simp add: family_def wallet_with_def empty_wallet_def)
  have "w_allTx family (tx_hash (pay_tx 3 9 ''a'')) = None" "containsTx family (pay_tx 3 9 ''a'')"
    by (simp_all add: family_def wallet_with_def containsTx_def pay_tx_def)
  then show ?thesis
    using register_returns [OF family_ok(1) ok some_mpk [folded mpk] dead_run [OF mpk] dead_run [OF mpk]]
    by (auto simp: listed_after_def dest!: arg_cong [of "mset _" _ set_mset])
qed

text \<open>
  C24. A chain reorganisation, reported by the height at which the chains part, returns: exactly the
  listed transactions above that height become unconfirmed, the others keep their heights and all
  their places, the height of the wallet is that height, and the invariant holds again.
\<close>

theorem reorganisation_correct:
  assumes "wallet_inv r w" "all_contained w"
  shows "\<exists>w' ev. LWWalletSetTxUnconfirmedAfter now blockHeight w = Some (w', ev) \<and> wallet_inv r w' \<and> all_contained w' \<and>
    w_transactions w' = w_transactions w \<and> w_blockHeight w' = blockHeight \<and>
    (\<forall>h \<in> set (w_transactions w). tx_height w' h = (if tx_height w h > blockHeight then TX_UNCONFIRMED else tx_height w h))"
  using assms by (rule Reorg_inv)

theorem reorganisation_correct_witness:
  "\<exists>w' ev. LWWalletSetTxUnconfirmedAfter 0 5 family = Some (w', ev) \<and> tx_height w' (replicate 32 1) = TX_UNCONFIRMED"
proof -
  have h: "tx_height family (replicate 32 1) = 7" "replicate 32 1 \<in> set (w_transactions family)"
    by (simp_all add: family_def tx_height_with) (simp_all add: wallet_with_def pay_tx_def)
  obtain w' ev where w': "LWWalletSetTxUnconfirmedAfter 0 5 family = Some (w', ev)"
    "tx_height w' (replicate 32 1) = (if tx_height family (replicate 32 1) > 5 then TX_UNCONFIRMED else tx_height family (replicate 32 1))"
    using reorganisation_correct [OF family_ok(1,3), of 0 5] h(2) by blast
  then show ?thesis by (simp add: h(1))
qed

text \<open>
  Setting the height and time of any list of transactions, known or not, returns, and keeps the
  invariant: confirmed transactions move to their places in the order of heights.
\<close>

theorem update_returns:
  assumes "wallet_inv r w" "all_contained w" "blockHeight \<le> TX_UNCONFIRMED"
  shows "\<exists>w' ev. LWWalletUpdateTransactions now txHashes blockHeight timestamp w = Some (w', ev) \<and> wallet_inv r w' \<and> all_contained w'"
  using assms by (rule Update_inv)

theorem update_returns_witness:
  "\<exists>w' ev. LWWalletUpdateTransactions 0 [replicate 32 2, replicate 32 9] 8 1 family = Some (w', ev) \<and> height_sorted w'"
  using update_returns [OF family_ok(1,3), of 8 0 "[replicate 32 2, replicate 32 9]" 1] by (auto simp: TX_UNCONFIRMED_def dest: wallet_invD(5))

text \<open>
  C22. The three questions about a well-formed transaction return: \<open>tx_ok\<close> asks that it is signed, that
  neither its hash nor the hash of an input is zero, as the one of a coinbase is, and that
  transactions do not spend each other in a cycle; and so it is for those the wallet holds. (For an
  unconfirmed coinbase the answer is a failed assertion: \<open>unconfirmed_coinbase_aborts\<close>.) It is valid
  when no transaction among itself and its unconfirmed ancestors is marked invalid (or, not being
  known, spends an output that is spent); it is pending when one of them is too large, has a dust
  output, or an input that is locked or can be replaced; and it is verified when all of them have been
  seen by peers, are valid and not pending.
\<close>

theorem questions_answered:
  assumes "wallet_inv r w" "tx_ok r t"
  shows "LWWalletTransactionIsValid t w = Some (all_ancestors w (own_valid w) t) \<and>
    LWWalletTransactionIsPending now t w = Some (\<not> all_ancestors w (\<lambda>a. \<not> own_pending now w a) t) \<and>
    LWWalletTransactionIsVerified now t w =
      Some (all_ancestors w (\<lambda>a. tx_timestamp a \<noteq> 0 \<and> own_valid w a \<and> \<not> own_pending now w a) t)"
  using IsValid_spec [OF assms] IsPending_spec [OF assms] IsVerified_spec [OF assms] by simp

theorem questions_answered_witness:
  "\<exists>t. w_allTx family (replicate 32 2) = Some t \<and> LWWalletTransactionIsValid t family = Some True"
proof -
  let ?t = "spend_tx 2 TX_UNCONFIRMED 1 ''a''"
  have t: "w_allTx family (replicate 32 2) = Some ?t" "tx_ok first_byte ?t"
    by (simp add: family_def wallet_with_def) (rule tx_ok_examples, simp_all)
  have "all_ancestors family (own_valid family) ?t"
    unfolding all_ancestors_def
  proof (intro allI impI)
    fix a
    assume "unconfirmed_ancestor family ?t a"
    then have "a = ?t \<or> (\<exists>q. w_allTx family (replicate 32 1) = Some q \<and> unconfirmed_ancestor family q a)"
      by (cases rule: unconfirmed_ancestor.cases) (auto simp: spend_tx_def)
    then have "a = ?t" using family_ok(4) by (auto simp: pay_tx_def TX_UNCONFIRMED_def elim: unconfirmed_ancestorE)
    then show "own_valid family a" using t by (simp add: own_valid_def) (simp add: family_def wallet_with_def empty_wallet_def)
  qed
  then have "LWWalletTransactionIsValid ?t family = Some True"
    using questions_answered [OF family_ok(1) t(2), of 0, THEN conjunct1] by (simp only:)
  then show ?thesis using t(1) by (intro exI [of _ ?t] conjI)
qed

subsection \<open>Where the code goes wrong\<close>

text \<open>
  Looking up the transaction an input spends asserts that its hash is not zero: for a coinbase
  transaction that a reorganisation has made unconfirmed, the assertion fails.
\<close>

lemma unconfirmed_coinbase_aborts:
  assumes "LWTransactionIsSigned t" "tx_blockHeight t = TX_UNCONFIRMED" "own_valid w t" "tx_inputs t = i # is" "in_hash i = UINT256_ZERO"
  shows "LWWalletTransactionIsValid t w = None"
  using assms by (subst LWWalletTransactionIsValid.simps) (auto simp: own_valid_def LWWalletTransactionForHash_def UInt256IsZero_iff)

text \<open>Updating keeps the height of the wallet, apart from the one given.\<close>

lemma insertTx_blockHeight: "insertTx tx w = Some w' \<Longrightarrow> w_blockHeight w' = w_blockHeight w"
  by (auto simp: insertTx_def split: Option.bind_splits)

lemma removeTx_blockHeight: "removeTx h w = Some w' \<Longrightarrow> w_blockHeight w' = w_blockHeight w"
  by (auto simp: removeTx_def split: Option.bind_splits)

lemma update_one_blockHeight:
  assumes "update_one bh ts h (w, hs, n) = Some (w', hs', n')"
  shows "w_blockHeight w' = w_blockHeight w"
proof (cases "w_allTx w h")
  case (Some t)
  let ?t = "t\<lparr>tx_timestamp := ts, tx_blockHeight := bh\<rparr>"
  let ?w = "w\<lparr>w_allTx := (w_allTx w)(h \<mapsto> ?t)\<rparr>"
  show ?thesis
  proof (cases "tx_blockHeight t = bh \<and> tx_timestamp t = ts")
    case False
    note up = assms [unfolded update_one_def Let_def prod.case Some option.case if_not_P [OF False]]
    show ?thesis
    proof (cases "containsTx ?w ?t")
      case True
      obtain v where v: "removeTx h ?w = Some v" using up True by (auto split: Option.bind_splits)
      have "w_blockHeight v = w_blockHeight w" using removeTx_blockHeight [OF v] by simp
      then show ?thesis using up True v by (auto split: Option.bind_splits if_splits dest: insertTx_blockHeight)
    qed (use up in \<open>auto split: if_splits\<close>)
  qed (use assms Some in \<open>simp add: update_one_def\<close>)
qed (use assms in \<open>simp add: update_one_def\<close>)

lemma update_one_keeps:
  "update_one bh ts h (w, hs, n) = Some (w', hs', n') \<Longrightarrow> wallet_inv r w \<Longrightarrow> all_contained w \<Longrightarrow> bh \<le> TX_UNCONFIRMED \<Longrightarrow>
   wallet_inv r w' \<and> all_contained w'"
  using update_one_inv [of r w bh ts h hs n] by auto

text \<open>
  A transaction that is merely seen by peers is updated with the height TX_UNCONFIRMED, and the
  wallet takes it for the height of the chain. From then on no transaction that is locked until
  a block is pending for that reason, whatever its lock height.
\<close>

theorem unconfirmed_update_hides_locks:
  assumes "wallet_inv r w" "all_contained w" "w_blockHeight w < TX_UNCONFIRMED"
  shows "\<exists>w' ev. LWWalletUpdateTransactions now txHashes TX_UNCONFIRMED timestamp w = Some (w', ev) \<and>
    w_blockHeight w' = TX_UNCONFIRMED \<and>
    (\<forall>tx i. input_locked now (w_blockHeight w') tx i = (in_sequence i < UINT32_MAX - 1 \<or>
       in_sequence i < UINT32_MAX \<and> uint (tx_lockTime tx) > now))"
proof -
  let ?w = "w\<lparr>w_blockHeight := TX_UNCONFIRMED\<rparr>"
  obtain w' ev where w': "LWWalletUpdateTransactions now txHashes TX_UNCONFIRMED timestamp w = Some (w', ev)"
    using Update_inv [OF assms(1,2), of TX_UNCONFIRMED now txHashes timestamp] by auto
  then obtain w1 hs n where f: "fold_m (update_one TX_UNCONFIRMED timestamp) txHashes (?w, [], False) = Some (w1, hs, n)"
    using assms(3) by (auto simp: LWWalletUpdateTransactions_def split: Option.bind_splits)
  let ?P = "\<lambda>(v, hs :: UInt256 list, n :: bool). w_blockHeight v = TX_UNCONFIRMED \<and> wallet_inv r v \<and> all_contained v"
  have "?P (w1, hs, n)"
  proof (rule fold_m_invariant [OF f])
    show "?P (?w, [], False)" using core_inv [of w ?w] core_contained [of w ?w] assms(1,2) by (auto simp: same_core_def)
    fix h and st st' :: "LWWallet \<times> UInt256 list \<times> bool"
    assume st: "?P st" "update_one TX_UNCONFIRMED timestamp h st = Some st'"
    obtain v hs n v' hs' n' where e: "st = (v, hs, n)" "st' = (v', hs', n')" by (cases st, cases st') blast
    show "?P st'" using st update_one_blockHeight [of _ _ h v hs n v' hs' n'] update_one_keeps [of _ _ h v hs n v' hs' n' r] by (auto simp: e)
  qed
  then have w1: "w_blockHeight w1 = TX_UNCONFIRMED" "wallet_inv r w1" by simp_all
  then have "w_blockHeight w2 = w_blockHeight w1" if "updateBalance now w1 = Some w2" for w2
    using updateBalance_spec [OF wallet_invD(8) [OF w1(2)], of now] that by (auto simp: same_txs_def)
  then have "w_blockHeight w' = TX_UNCONFIRMED"
    using w' f w1(1) assms(3) by (auto simp: LWWalletUpdateTransactions_def split: Option.bind_splits if_splits)
  moreover have "\<not> (lock < TX_MAX_LOCK_HEIGHT \<and> lock > TX_UNCONFIRMED + 1)" for lock :: u32
    unfolding TX_MAX_LOCK_HEIGHT_def TX_UNCONFIRMED_def word_less_nat_alt by simp
  ultimately show ?thesis using w' unfolding input_locked_def by auto
qed

theorem unconfirmed_update_hides_locks_witness:
  "\<exists>w' ev. LWWalletUpdateTransactions 0 [replicate 32 2] TX_UNCONFIRMED 5 family = Some (w', ev) \<and> w_blockHeight w' = TX_UNCONFIRMED"
  using unconfirmed_update_hides_locks [OF family_ok(1,3), of 0 "[replicate 32 2]" 5]
  by (auto simp: family_def wallet_with_def empty_wallet_def TX_UNCONFIRMED_def)

text \<open>A child confirmed at height 100, and its parent, unconfirmed.\<close>

definition orphans :: LWWallet where
  "orphans = wallet_with [spend_tx 2 100 1 ''b'', pay_tx 1 TX_UNCONFIRMED ''a'']"

lemma orphans_ok: "wallet_inv first_byte orphans" "all_contained orphans"
proof -
  show "wallet_inv first_byte orphans" unfolding orphans_def
    by (rule wallet_with_inv) (auto simp: tx_ok_examples TX_UNCONFIRMED_def, simp_all add: pay_tx_def spend_tx_def)
  show "all_contained orphans"
    by (auto simp: orphans_def all_contained_def containsTx_def wallet_with_def wallet_output_def pay_tx_def spend_tx_def split: if_splits)
qed

lemma UInt256_examples [simp]: "UInt256Eq (replicate 32 m) (replicate 32 n) \<longleftrightarrow> m = n" "UInt256IsZero (replicate 32 n) \<longleftrightarrow> n = 0"
  by (simp_all add: UInt256IsZero_iff UINT256_ZERO_def)

text \<open>
  C25. The search for the transactions that depend on a removed one stops at the first lower height.
  When every listed transaction that spends from one is lower (confirmed, while that one is not), the
  one is removed alone. A child of it that spends nothing else and pays to no address of the wallet is then no
  longer recognised as the wallet's; an update that gives it another height as a confirmed one frees
  it, while it stays in the list: a pointer to freed memory, which computing the balance follows.
\<close>

theorem removed_parent_dangles:
  assumes "wallet_inv r w" "w_allTx w h = Some q" "w_allTx w x = Some t" "x \<in> set (w_transactions w)" "tx_blockHeight t < tx_blockHeight q"
    "\<forall>y \<in> set (w_transactions w). \<forall>s. w_allTx w y = Some s \<longrightarrow> spends s h \<longrightarrow> tx_blockHeight s < tx_blockHeight q"
    "\<forall>i \<in> set (tx_inputs t). in_hash i = h" "\<forall>out \<in> set (tx_outputs t). out_address out \<notin> w_allAddrs w"
    "blockHeight \<noteq> TX_UNCONFIRMED" "blockHeight \<noteq> tx_blockHeight t"
  shows "\<exists>w1 ev w2. LWWalletRemoveTransaction now h (w, []) = Some (w1, ev) \<and>
    w_transactions w1 = filter (\<lambda>y. y \<noteq> h) (w_transactions w) \<and> x \<in> set (w_transactions w1) \<and> \<not> containsTx w1 t \<and>
    LWWalletUpdateTransactions now [x] blockHeight timestamp w1 = Some (w2, []) \<and>
    x \<in> set (w_transactions w2) \<and> w_allTx w2 x = None \<and> updateBalance now w2 = None"
proof -
  have known: "\<exists>s. w_allTx w y = Some s" if "y \<in> set (w_transactions w)" for y using wallet_invD(2) [OF assms(1)] that by blast
  have hq: "tx_hash q = h" "h \<noteq> x" using wallet_invD(3) [OF assms(1,2)] assms(2,3,5) by auto
  have "dependents w q (rev (w_transactions w)) = Some []" using assms(6) known hq(1) by (intro dependents_none) fastforce
  then obtain w1 ev where w1: "LWWalletRemoveTransaction now h (w, []) = Some (w1, ev)" "without {h} w w1"
    using remove_alone [OF assms(1,2)] by blast
  have alone: "w_transactions w1 = filter (\<lambda>y. y \<noteq> h) (w_transactions w)" using w1(2) by (simp add: without_def)
  have x1: "x \<in> set (w_transactions w1)" "w_allTx w1 x = Some t" "w_allTx w1 h = None" "w_allAddrs w1 = w_allAddrs w"
    using w1(2) assms(3,4) hq(2) by (auto simp: without_def)
  let ?t = "t\<lparr>tx_timestamp := timestamp, tx_blockHeight := blockHeight\<rparr>"
  have foreign: "\<not> containsTx v s" if "w_allTx v h = None" "w_allAddrs v = w_allAddrs w" "tx_inputs s = tx_inputs t" "tx_outputs s = tx_outputs t" for v s
    using that assms(7,8) by (auto simp: containsTx_def wallet_output_def list_ex_iff)
  let ?w = "if blockHeight > w_blockHeight w1 then w1\<lparr>w_blockHeight := blockHeight\<rparr> else w1"
  let ?w2 = "?w\<lparr>w_allTx := (w_allTx w1)(x := None)\<rparr>"
  have new: "\<not> (tx_blockHeight t = blockHeight \<and> tx_timestamp t = timestamp)" using assms(10) by auto
  have wx: "w_allTx ?w x = Some t" "w_allTx ?w = w_allTx w1" using x1(2) by simp_all
  have "\<not> containsTx (?w\<lparr>w_allTx := (w_allTx ?w)(x \<mapsto> ?t)\<rparr>) ?t" using x1(3,4) hq(2) by (intro foreign) simp_all
  then have "update_one blockHeight timestamp x (?w, [], False) = Some (?w2, [], False)"
    unfolding update_one_def Let_def prod.case wx(1) option.case if_not_P [OF new] using assms(9) wx(2) by simp
  then have up: "LWWalletUpdateTransactions now [x] blockHeight timestamp w1 = Some (?w2, [])"
    unfolding LWWalletUpdateTransactions_def Let_def by simp
  have listed: "x \<in> set (w_transactions ?w2)" "w_allTx ?w2 x = None" using x1(1) by simp_all
  then have "updateBalance now ?w2 = None" using balance_reads [of now ?w2] by (cases "updateBalance now ?w2") blast+
  then show ?thesis using w1(1) alone x1(1) foreign [OF x1(3,4) refl refl] up listed by blast
qed

theorem removed_parent_dangles_witness:
  "\<exists>w1 ev w2. LWWalletRemoveTransaction 0 (replicate 32 1) (orphans, []) = Some (w1, ev) \<and>
    LWWalletUpdateTransactions 0 [replicate 32 2] 101 1 w1 = Some (w2, []) \<and> updateBalance 0 w2 = None"
proof -
  have "w_allTx orphans (replicate 32 1) = Some (pay_tx 1 TX_UNCONFIRMED ''a'')" "w_allTx orphans (replicate 32 2) = Some (spend_tx 2 100 1 ''b'')"
    "replicate 32 2 \<in> set (w_transactions orphans)" by (simp_all add: orphans_def wallet_with_def)
  from removed_parent_dangles [OF orphans_ok(1) this, of 101 0 1] show ?thesis
    by (auto simp: orphans_def wallet_with_def pay_tx_def spend_tx_def spends_def TX_UNCONFIRMED_def)
qed

text \<open>
  A payment, a transaction that spends its output, and one that spends an output of a transaction
  that is not known yet and pays the wallet. The unknown one, when it arrives, spends the payment too.
\<close>

definition siblings :: LWWallet where
  "siblings = wallet_with [pay_tx 1 5 ''a'', spend_tx 4 TX_UNCONFIRMED 3 ''a'', spend_tx 5 TX_UNCONFIRMED 1 ''b'']"

definition double_spend :: LWTransaction where
  "double_spend = spend_tx 3 TX_UNCONFIRMED 1 ''b''"

lemma siblings_ok: "wallet_inv first_byte siblings" "all_contained siblings" "tx_ok first_byte double_spend"
proof -
  show "wallet_inv first_byte siblings" unfolding siblings_def
    by (rule wallet_with_inv) (auto simp: tx_ok_examples TX_UNCONFIRMED_def, simp_all add: pay_tx_def spend_tx_def)
  show "all_contained siblings"
    by (auto simp: siblings_def all_contained_def containsTx_def wallet_with_def wallet_output_def pay_tx_def spend_tx_def split: if_splits)
  show "tx_ok first_byte double_spend" unfolding double_spend_def by (rule tx_ok_examples) simp_all
qed

lemma sibling_inserted:
  "insertTx double_spend (siblings\<lparr>w_allTx := (w_allTx siblings)(replicate 32 3 \<mapsto> double_spend)\<rparr>) =
   Some (wallet_with [pay_tx 1 5 ''a'', spend_tx 4 TX_UNCONFIRMED 3 ''a'', spend_tx 5 TX_UNCONFIRMED 1 ''b'', double_spend])"
proof -
  let ?w = "siblings\<lparr>w_allTx := (w_allTx siblings)(replicate 32 3 \<mapsto> double_spend)\<rparr>"
  have below: "txIsAscending ?w (Some (pay_tx 1 5 ''a'')) (Some (spend_tx n TX_UNCONFIRMED 1 ''b'')) = Some False" for n
    by (subst txIsAscending.simps) (simp add: pay_tx_def spend_tx_def TX_UNCONFIRMED_def)
  have known: "w_allTx ?w (replicate 32 1) = Some (pay_tx 1 5 ''a'')" "w_allTx ?w (replicate 32 5) = Some (spend_tx 5 TX_UNCONFIRMED 1 ''b'')"
    by (simp_all add: siblings_def wallet_with_def)
  have asc: "txIsAscending ?w (Some (spend_tx m TX_UNCONFIRMED 1 ''b'')) (Some (spend_tx n TX_UNCONFIRMED 1 ''b'')) = Some False"
    if "m \<noteq> 1" "n \<noteq> 1" for m n
    using that below [of n] known(1) by (subst txIsAscending.simps) (simp add: spend_tx_def [of m] spend_tx_def [of n] spends_def pay_tx_def [of m] pay_tx_def [of n])
  have "txCompare ?w (spend_tx 5 TX_UNCONFIRMED 1 ''b'') double_spend = Some 0"
    using asc [of 5 3] asc [of 3 5] by (simp add: txCompare_def double_spend_def txChainIndex_def)
      (simp add: siblings_def wallet_with_def empty_wallet_def spend_tx_def pay_tx_def LWAddressEq_def)
  then have "insertTx double_spend ?w = Some (?w\<lparr>w_transactions := w_transactions siblings @ [replicate 32 3]\<rparr>)"
    using known(2) by (simp add: insertTx_def siblings_def wallet_with_def double_spend_def)
  then show ?thesis by (simp add: siblings_def wallet_with_def double_spend_def fun_eq_iff)
qed

lemma not_postponed: "w_pendingTx w = {} \<Longrightarrow> \<not> postponed 0 w (spend_tx n TX_UNCONFIRMED p addr)"
  by (simp add: postponed_def LWTransactionSize_def has_dust_def input_locked_def spend_tx_def pay_tx_def TX_MAX_SIZE_def
      UINT32_MAX_def TX_MIN_OUTPUT_AMOUNT_def TX_FEE_PER_KB_def TX_OUTPUT_SIZE_def TX_INPUT_SIZE_def LWVarIntSize_def LWVarIntSet_def
      the_bytes_def finish_def put_def)

text \<open>The state while the balance is computed.\<close>

definition family_txs :: "UInt256 \<rightharpoonup> LWTransaction" where
  "family_txs = [replicate 32 1 \<mapsto> pay_tx 1 5 ''a'', replicate 32 4 \<mapsto> spend_tx 4 TX_UNCONFIRMED 3 ''a'',
     replicate 32 5 \<mapsto> spend_tx 5 TX_UNCONFIRMED 1 ''b'', replicate 32 3 \<mapsto> double_spend]"

definition counting :: "u64 \<Rightarrow> LWUTXO list \<Rightarrow> UInt256 set \<Rightarrow> LWUTXO set \<Rightarrow> string set \<Rightarrow> u64 list \<Rightarrow> u64 \<Rightarrow> u64 \<Rightarrow> LWWallet" where
  "counting balance utxos invalid spent used hist out got = \<lparr>w_balance = balance, w_totalSent = out, w_totalReceived = got, w_feePerKb = DEFAULT_FEE_PER_KB,
     w_balanceHist = hist, w_blockHeight = 0, w_utxos = utxos,
     w_transactions = [replicate 32 1, replicate 32 4, replicate 32 5, replicate 32 3], w_masterPubKey = some_mpk,
     w_internalChain = [], w_externalChain = [''a''], w_allTx = family_txs, w_invalidTx = invalid, w_pendingTx = {},
     w_spentOutputs = spent, w_usedAddrs = used, w_allAddrs = {''a''}\<rparr>"

lemma family_txs [simp]:
  "family_txs (replicate 32 1) = Some (pay_tx 1 5 ''a'')" "family_txs (replicate 32 4) = Some (spend_tx 4 TX_UNCONFIRMED 3 ''a'')"
  "family_txs (replicate 32 5) = Some (spend_tx 5 TX_UNCONFIRMED 1 ''b'')" "family_txs (replicate 32 3) = Some (spend_tx 3 TX_UNCONFIRMED 1 ''b'')"
  by (simp_all add: family_txs_def double_spend_def)

lemma example_fields [simp]:
  "tx_blockHeight (pay_tx n h a) = h" "tx_blockHeight (spend_tx n h p a) = h" "tx_inputs (pay_tx n h a) = []"
  "map outpoint (tx_inputs (spend_tx n h p a)) = [(replicate 32 p, 0)]"
  "tx_outputs (pay_tx n h a) = [\<lparr>out_address = a, out_amount = 100000000, out_script = None\<rparr>]"
  "tx_outputs (spend_tx n h p a) = tx_outputs (pay_tx n h a)"
  "conflicts w (spend_tx n h p a) \<longleftrightarrow> (replicate 32 p, 0) \<in> w_spentOutputs w \<or> replicate 32 p \<in> w_invalidTx w"
  by (simp_all add: pay_tx_def spend_tx_def outpoint_def conflicts_def)

lemma counting_start:
  "wallet_with [pay_tx 1 5 ''a'', spend_tx 4 TX_UNCONFIRMED 3 ''a'', spend_tx 5 TX_UNCONFIRMED 1 ''b'', double_spend] = counting 0 [] {} {} {} [] 0 0"
  by (simp add: wallet_with_def counting_def empty_wallet_def family_txs_def double_spend_def fun_eq_iff)

lemma height_five: "5 \<noteq> TX_UNCONFIRMED"
  by (simp add: TX_UNCONFIRMED_def)

lemma counting_steps:
  "balance_step 0 (replicate 32 1) (counting 0 [] {} {} {} [] 0 0, 0, 0) =
   Some (counting 0 [(replicate 32 1, 0)] {} {} {''a''} [100000000] 0 100000000, 100000000, 100000000)"
  "balance_step 0 (replicate 32 4) (counting 0 [(replicate 32 1, 0)] {} {} {''a''} [100000000] 0 100000000, 100000000, 100000000) =
   Some (counting 0 [(replicate 32 1, 0), (replicate 32 4, 0)] {} {(replicate 32 3, 0)} {''a''} [100000000, 200000000] 0 200000000,
     200000000, 200000000)"
  "balance_step 0 (replicate 32 5) (counting 0 [(replicate 32 1, 0), (replicate 32 4, 0)] {} {(replicate 32 3, 0)} {''a''}
     [100000000, 200000000] 0 200000000, 200000000, 200000000) =
   Some (counting 0 [(replicate 32 4, 0)] {} {(replicate 32 1, 0), (replicate 32 3, 0)} {''b'', ''a''}
     [100000000, 200000000, 100000000] 100000000 200000000, 100000000, 100000000)"
  "balance_step 0 (replicate 32 3) (counting 0 [(replicate 32 4, 0)] {} {(replicate 32 1, 0), (replicate 32 3, 0)} {''b'', ''a''}
     [100000000, 200000000, 100000000] 100000000 200000000, 100000000, 100000000) =
   Some (counting 0 [(replicate 32 4, 0)] {replicate 32 3} {(replicate 32 1, 0), (replicate 32 3, 0)} {''b'', ''a''}
     [100000000, 200000000, 100000000, 100000000] 100000000 200000000, 100000000, 100000000)"
  by (simp_all add: balance_step_def counting_def not_postponed add_output_def Let_def height_five)

lemma counted_balance:
  "updateBalance 0 (counting 0 [] {} {} {} [] 0 0) =
   Some (counting 100000000 [(replicate 32 4, 0)] {replicate 32 3} {(replicate 32 1, 0), (replicate 32 3, 0)} {''b'', ''a''}
     [100000000, 200000000, 100000000, 100000000] 100000000 200000000)"
proof -
  let ?w0 = "counting 0 [] {} {} {} [] 0 0"
  have start: "?w0\<lparr>w_utxos := [], w_balanceHist := [], w_spentOutputs := {}, w_invalidTx := {}, w_pendingTx := {},
     w_usedAddrs := {}, w_totalSent := 0, w_totalReceived := 0\<rparr> = ?w0" by (simp add: counting_def)
  have txs: "w_transactions ?w0 = [replicate 32 1, replicate 32 4, replicate 32 5, replicate 32 3]" by (simp add: counting_def)
  show ?thesis unfolding updateBalance_def start txs
    by (simp add: counting_steps) (simp add: counting_def)
qed

text \<open>
  C26. A transaction is inserted after the last one that does not descend from it, even when others
  before that one do: a child can stay before its parent. Computing the balance then meets the child
  first, and when the parent turns out to be invalid, the wallet counts the output of the child
  in its balance and offers it for spending, though asked, it answers that the child is not valid.
\<close>

theorem invalid_parent_missed:
  "wallet_inv first_byte siblings \<and> all_contained siblings \<and> tx_ok first_byte double_spend \<and>
   (case LWWalletRegisterTransaction dead_env double_spend siblings of None \<Rightarrow> False
    | Some (b, w, ev) \<Rightarrow> w_transactions w = [replicate 32 1, replicate 32 4, replicate 32 5, replicate 32 3] \<and>
        w_invalidTx w = {replicate 32 3} \<and> w_utxos w = [(replicate 32 4, 0)] \<and> w_balance w = 100000000 \<and>
        (case w_allTx w (replicate 32 4) of None \<Rightarrow> False
         | Some t \<Rightarrow> spends t (replicate 32 3) \<and> LWWalletTransactionIsValid t w = Some False))"
proof -
  let ?w1 = "counting 0 [] {} {} {} [] 0 0"
  let ?w2 = "counting 100000000 [(replicate 32 4, 0)] {replicate 32 3} {(replicate 32 1, 0), (replicate 32 3, 0)} {''b'', ''a''}
     [100000000, 200000000, 100000000, 100000000] 100000000 200000000"
  have fields: "tx_hash double_spend = replicate 32 3" "LWTransactionIsSigned double_spend" "w_masterPubKey ?w2 = some_mpk"
    using siblings_ok(3) by (simp_all add: double_spend_def tx_ok_def counting_def)
  have new: "w_allTx siblings (replicate 32 3) = None" "containsTx siblings double_spend"
    by (simp_all add: siblings_def wallet_with_def double_spend_def containsTx_def wallet_output_def)
      (simp add: spend_tx_def pay_tx_def)
  have "updateBalance (env_now dead_env) ?w1 = Some ?w2" using counted_balance by (simp add: dead_env_def)
  then have reg: "LWWalletRegisterTransaction dead_env double_spend siblings =
      Some (True, ?w2, [BalanceChanged (w_balance ?w2), TxAdded (replicate 32 3)])"
    using new sibling_inserted fields dead_addrs [OF fields(3)] by (simp add: LWWalletRegisterTransaction_def counting_start
      SEQUENCE_GAP_LIMIT_EXTERNAL_def SEQUENCE_GAP_LIMIT_INTERNAL_def)
  have inputs: "tx_inputs (spend_tx n h p a) = [\<lparr>in_hash = replicate 32 p, in_index = 0, in_address = ''x'', in_amount = 0,
      in_script = None, in_signature = Some [0], in_sequence = 0xffffffff\<rparr>]" for n h p a by (simp add: spend_tx_def)
  have known: "w_allTx ?w2 = family_txs" "w_invalidTx ?w2 = {replicate 32 3}" by (simp_all add: counting_def)
  have p: "LWWalletTransactionIsValid (spend_tx 3 TX_UNCONFIRMED 1 ''b'') ?w2 = Some False"
    by (subst LWWalletTransactionIsValid.simps) (simp add: known LWTransactionIsSigned_def inputs)
  have c: "LWWalletTransactionIsValid (spend_tx 4 TX_UNCONFIRMED 3 ''a'') ?w2 = Some False"
    by (subst LWWalletTransactionIsValid.simps) (simp add: known LWTransactionIsSigned_def inputs LWWalletTransactionForHash_def p)
  have s: "spends (spend_tx 4 TX_UNCONFIRMED 3 ''a'') (replicate 32 3)" by (simp add: spends_def inputs)
  show ?thesis unfolding reg option.case prod.case known(1) family_txs
    using siblings_ok s c known(2) by (simp add: counting_def)
qed

end
