(* ===== verification/LW_Merkle.thy ===== *)
theory LW_Merkle
  imports LW_Address
begin

text \<open>
  Model of \<^verbatim>\<open>LWMerkleBlock.c\<close> and of the chain parameters of \<^verbatim>\<open>LWChainParams.h\<close>. A block keeps
  its counts beside the memory they count (\<open>None\<close> for NULL), since the parser does not keep them
  equal; a read outside the memory, a write outside a variable and a loop that does not end are
  \<open>None\<close>. The recursion over the tree is on the height that is left.
\<close>

definition MAX_PROOF_OF_WORK :: u32 where "MAX_PROOF_OF_WORK = 0x1e0fffff"
definition BLOCK_DIFFICULTY_INTERVAL :: u32 where "BLOCK_DIFFICULTY_INTERVAL = 2016"
definition BLOCK_UNKNOWN_HEIGHT :: u32 where "BLOCK_UNKNOWN_HEIGHT = 0x7fffffff"
definition BLOCK_MAX_TIME_DRIFT :: u32 where "BLOCK_MAX_TIME_DRIFT = 2 * 60 * 60"

text \<open>The argument is a C \<open>int\<close>; the shift of a negative one never reaches zero.\<close>

partial_function (option) log2_loop :: "int \<Rightarrow> nat \<Rightarrow> nat option" where
  "log2_loop x r = (let x = x div 2 in if x \<noteq> 0 then log2_loop x (r + 1) else Some r)"

definition ceil_log2 :: "u32 \<Rightarrow> nat option" where
  "ceil_log2 n = (let x = sint n in log2_loop x (if x AND (x - 1) \<noteq> 0 then 1 else 0))"

record LWMerkleBlock =
  mb_blockHash :: UInt256
  mb_powHash :: UInt256
  mb_version :: u32
  mb_prevBlock :: UInt256
  mb_merkleRoot :: UInt256
  mb_timestamp :: u32
  mb_target :: u32
  mb_nonce :: u32
  mb_totalTx :: u32
  mb_hashes :: "UInt256 list option"
  mb_hashesCount :: nat
  mb_flags :: "bytes option"
  mb_flagsLen :: nat
  mb_height :: u32

definition LWMerkleBlockNew :: LWMerkleBlock where
  "LWMerkleBlockNew = \<lparr>mb_blockHash = UINT256_ZERO, mb_powHash = UINT256_ZERO, mb_version = 0,
     mb_prevBlock = UINT256_ZERO, mb_merkleRoot = UINT256_ZERO, mb_timestamp = 0, mb_target = 0, mb_nonce = 0,
     mb_totalTx = 0, mb_hashes = None, mb_hashesCount = 0, mb_flags = None, mb_flagsLen = 0,
     mb_height = BLOCK_UNKNOWN_HEIGHT\<rparr>"

text \<open>The counts are left as they are.\<close>

definition LWMerkleBlockSetTxHashes :: "UInt256 list \<Rightarrow> bytes \<Rightarrow> LWMerkleBlock \<Rightarrow> LWMerkleBlock" where
  "LWMerkleBlockSetTxHashes hashes flags block =
     block\<lparr>mb_hashes := (if length hashes > 0 then Some hashes else None),
           mb_flags := (if length flags > 0 then Some flags else None)\<rparr>"

text \<open>Reading \<open>n\<close> items behind a pointer, none at all when \<open>n\<close> is 0.\<close>

definition read_items :: "'a list option \<Rightarrow> nat \<Rightarrow> 'a list option" where
  "read_items xs n =
     (if n = 0 then Some [] else case xs of None \<Rightarrow> None | Some ys \<Rightarrow> if n \<le> length ys then Some (take n ys) else None)"

definition LWMerkleBlockCopy :: "LWMerkleBlock \<Rightarrow> LWMerkleBlock option" where
  "LWMerkleBlockCopy block = do {
     hashes \<leftarrow> read_items (mb_hashes block) (mb_hashesCount block);
     flags \<leftarrow> read_items (mb_flags block) (mb_flagsLen block);
     Some (LWMerkleBlockSetTxHashes hashes flags (block\<lparr>mb_hashes := None, mb_flags := None\<rparr>)) }"

subsection \<open>Parsing and serialising\<close>

definition hashes_of :: "nat \<Rightarrow> bytes \<Rightarrow> UInt256 list" where
  "hashes_of n bs = map (\<lambda>i. take 32 (drop (32 * i) bs)) [0..<n]"

text \<open>\<^verbatim>\<open>malloc\<close> of more than half the address space fails.\<close>

definition malloc_ok :: "nat \<Rightarrow> bool" where
  "malloc_ok n \<longleftrightarrow> n < 2 ^ 63"

definition LWMerkleBlockParse :: "bytes \<Rightarrow> LWMerkleBlock option" where
  "LWMerkleBlockParse buf =
     (if 80 \<le> length buf then
       (let block = LWMerkleBlockNew\<lparr>mb_version := UInt32GetLE buf, mb_prevBlock := UInt256Get (drop 4 buf),
              mb_merkleRoot := UInt256Get (drop 36 buf), mb_timestamp := UInt32GetLE (drop 68 buf),
              mb_target := UInt32GetLE (drop 72 buf), mb_nonce := UInt32GetLE (drop 76 buf)\<rparr>;
            off = 80;
            block =
              (if off + 4 \<le> length buf then
                (let totalTx = UInt32GetLE (drop off buf); off = off + 4;
                     (count, len) = LWVarInt (drop off buf); hashesCount = unat count; off = off + len;
                     len = size_mul hashesCount 32;
                     hashes = (if size_add off len \<le> length buf \<and> malloc_ok len
                               then Some (hashes_of (len div 32) (drop off buf)) else None);
                     off = size_add off len;
                     (count, len) = LWVarInt (drop off buf); flagsLen = unat count; off = off + len;
                     flags = (if size_add off flagsLen \<le> length buf \<and> malloc_ok flagsLen
                              then Some (take flagsLen (drop off buf)) else None)
                 in block\<lparr>mb_totalTx := totalTx, mb_hashes := hashes, mb_hashesCount := hashesCount,
                          mb_flags := flags, mb_flagsLen := flagsLen\<rparr>)
               else block)
        in do {
          pow \<leftarrow> LWScrypt 32 (take 80 buf) (take 80 buf) 1024 1 1;
          Some (block\<lparr>mb_blockHash := LWSHA256_2 (take 80 buf), mb_powHash := pow\<rparr>) })
      else None)"

text \<open>A \<^verbatim>\<open>memcpy\<close> of \<open>n\<close> bytes that is skipped for NULL.\<close>

definition put_opt :: "bytes option \<Rightarrow> nat \<Rightarrow> wstate \<Rightarrow> wstate" where
  "put_opt bs n st = (case bs of None \<Rightarrow> (fst st + n, snd st) | Some bs \<Rightarrow> put (take n bs) st)"

definition LWMerkleBlockSerialize :: "LWMerkleBlock \<Rightarrow> cbuf \<Rightarrow> (nat \<times> cbuf) option" where
  "LWMerkleBlockSerialize block cb =
     (let hashesLen = size_mul (mb_hashesCount block) 32; flagsLen = mb_flagsLen block;
          len = (if mb_totalTx block > 0 then
                   (80 + 4 + LWVarIntSize (of_nat (mb_hashesCount block)) + hashesLen +
                    LWVarIntSize (of_nat flagsLen) + flagsLen) mod 2 ^ 64 else 80) in
      case cb of None \<Rightarrow> Some (len, None)
      | Some b \<Rightarrow>
          if len \<le> length b then
            (let header = [put (UInt32SetLE (mb_version block)), put (UInt256Set (mb_prevBlock block)),
                   put (UInt256Set (mb_merkleRoot block)), put (UInt32SetLE (mb_timestamp block)),
                   put (UInt32SetLE (mb_target block)), put (UInt32SetLE (mb_nonce block))] in
             if mb_totalTx block > 0 then
               (let hs = map_option concat (mb_hashes block) in
                if (case hs of None \<Rightarrow> False | Some h \<Rightarrow> length h < hashesLen) \<or>
                   (case mb_flags block of None \<Rightarrow> False | Some f \<Rightarrow> length f < flagsLen) then None
                else Some (len, snd (steps (header @
                  [put (UInt32SetLE (mb_totalTx block)), call (LWVarIntSet (of_nat (mb_hashesCount block))),
                   put_opt hs hashesLen, call (LWVarIntSet (of_nat flagsLen)), put_opt (mb_flags block) flagsLen])
                  (0, cb))))
             else Some (len, snd (steps header (0, cb))))
          else Some (0, cb))"

subsection \<open>The partial Merkle tree\<close>

text \<open>
  The state is the hash index and the flag index. \<open>next_flag\<close> is the flag read, \<open>Some None\<close> when
  the flags or hashes are used up.
\<close>

definition next_flag :: "LWMerkleBlock \<Rightarrow> nat \<times> nat \<Rightarrow> bool option option" where
  "next_flag block = (\<lambda>(hashIdx, flagIdx).
     if flagIdx div 8 < mb_flagsLen block \<and> hashIdx < mb_hashesCount block then do {
       flags \<leftarrow> mb_flags block; f \<leftarrow> deref flags (flagIdx div 8); Some (Some (bit f (flagIdx mod 8))) }
     else Some None)"

definition next_hash :: "LWMerkleBlock \<Rightarrow> nat \<Rightarrow> UInt256 option" where
  "next_hash block hashIdx = do { hashes \<leftarrow> mb_hashes block; deref hashes hashIdx }"

text \<open>
  The hashes written so far are \<open>out\<close>; with \<open>txHashes\<close> NULL (\<open>cap = None\<close>) they are only counted.
  The comparison of the depth with \<open>ceil_log2\<close> is height 0.
\<close>

fun tx_hashes_r :: "LWMerkleBlock \<Rightarrow> nat option \<Rightarrow> nat \<Rightarrow> UInt256 list \<times> nat \<times> nat \<Rightarrow>
    (UInt256 list \<times> nat \<times> nat) option" where
  "tx_hashes_r block cap height (out, hashIdx, flagIdx) = do {
     flag \<leftarrow> next_flag block (hashIdx, flagIdx);
     (case flag of None \<Rightarrow> Some (out, hashIdx, flagIdx)
      | Some flag \<Rightarrow>
          (case height of
             Suc h \<Rightarrow>
               if \<not> flag then Some (out, hashIdx + 1, flagIdx + 1)
               else do {
                 st \<leftarrow> tx_hashes_r block cap h (out, hashIdx, flagIdx + 1);
                 tx_hashes_r block cap h st }
           | 0 \<Rightarrow>
               if flag \<and> length out < (case cap of None \<Rightarrow> SIZE_MAX | Some n \<Rightarrow> n) then do {
                 x \<leftarrow> (case cap of None \<Rightarrow> Some UINT256_ZERO | Some n \<Rightarrow> next_hash block hashIdx);
                 Some (out @ [x], hashIdx + 1, flagIdx + 1) }
               else Some (out, hashIdx + 1, flagIdx + 1))) }"

text \<open>The height of the root; when \<open>ceil_log2\<close> does not return, only an unset flag avoids calling it.\<close>

definition tree_height :: "LWMerkleBlock \<Rightarrow> nat option" where
  "tree_height block =
     (case ceil_log2 (mb_totalTx block) of Some h \<Rightarrow> Some h
      | None \<Rightarrow> (case next_flag block (0, 0) of Some (Some True) \<Rightarrow> None | _ \<Rightarrow> Some 0))"

definition LWMerkleBlockTxHashes :: "LWMerkleBlock \<Rightarrow> nat option \<Rightarrow> UInt256 list option" where
  "LWMerkleBlockTxHashes block cap = do {
     h \<leftarrow> tree_height block; (out, st) \<leftarrow> tx_hashes_r block cap h ([], 0, 0); Some out }"

fun root_r :: "LWMerkleBlock \<Rightarrow> nat \<Rightarrow> nat \<times> nat \<Rightarrow> (UInt256 \<times> nat \<times> nat) option" where
  "root_r block height (hashIdx, flagIdx) = do {
     flag \<leftarrow> next_flag block (hashIdx, flagIdx);
     (case flag of None \<Rightarrow> Some (UINT256_ZERO, hashIdx, flagIdx)
      | Some flag \<Rightarrow>
          (case (height, flag) of
             (Suc h, True) \<Rightarrow> do {
               (left, st) \<leftarrow> root_r block h (hashIdx, flagIdx + 1);
               (right, st) \<leftarrow> root_r block h st;
               Some (if \<not> UInt256IsZero left \<and> \<not> UInt256Eq left right then
                       (LWSHA256_2 (left @ (if UInt256IsZero right then left else right)), st)
                     else (UINT256_ZERO, SIZE_MAX, snd st)) }
           | _ \<Rightarrow> do { x \<leftarrow> next_hash block hashIdx; Some (x, hashIdx + 1, flagIdx + 1) })) }"

definition LWMerkleBlockRoot :: "LWMerkleBlock \<Rightarrow> UInt256 option" where
  "LWMerkleBlockRoot block = do {
     h \<leftarrow> tree_height block; (md, st) \<leftarrow> root_r block h (0, 0); Some md }"

subsection \<open>Validity\<close>

text \<open>The 256-bit target; writing its four bytes past the 32 of the variable is \<open>None\<close>.\<close>

definition target_bytes :: "u32 \<Rightarrow> UInt256 option" where
  "target_bytes compact =
     (let size = drop_bit 24 compact; target = compact AND 0x00ffffff in
      if size > 3 then
        (let i = unat size - 3 in
         if i + 4 \<le> 32 then Some (take i UINT256_ZERO @ UInt32SetLE target @ drop (i + 4) UINT256_ZERO) else None)
      else Some (UInt32SetLE (drop_bit (unat (3 - size) * 8) target) @ drop 4 UINT256_ZERO))"

text \<open>The comparison from the most significant byte down, over the reversed bytes.\<close>

fun pow_loop :: "bytes \<Rightarrow> bytes \<Rightarrow> bool" where
  "pow_loop (p # ps) (t # ts) = (if p < t then True else if p > t then False else pow_loop ps ts)"
| "pow_loop _ _ = True"

definition LWMerkleBlockIsValid :: "LWMerkleBlock \<Rightarrow> u32 \<Rightarrow> bool option" where
  "LWMerkleBlockIsValid block currentTime = do {
     merkleRoot \<leftarrow> LWMerkleBlockRoot block;
     let maxsize = drop_bit 24 MAX_PROOF_OF_WORK; maxtarget = MAX_PROOF_OF_WORK AND 0x00ffffff;
         size = drop_bit 24 (mb_target block); target = mb_target block AND 0x00ffffff;
         r = (mb_totalTx block > 0 \<longrightarrow> UInt256Eq merkleRoot (mb_merkleRoot block));
         r = (r \<and> \<not> mb_timestamp block > currentTime + BLOCK_MAX_TIME_DRIFT);
         r = (r \<and> \<not> (target = 0 \<or> target AND 0x00800000 \<noteq> 0 \<or> size > maxsize \<or> (size = maxsize \<and> target > maxtarget)))
     in do {
       t \<leftarrow> target_bytes (mb_target block);
       Some (r \<and> pow_loop (rev (mb_powHash block)) (rev t)) } }"

text \<open>A failed assertion is \<open>None\<close>: the hash must not be zero, and the previous block not NULL.\<close>

definition LWMerkleBlockContainsTxHash :: "LWMerkleBlock \<Rightarrow> UInt256 \<Rightarrow> bool option" where
  "LWMerkleBlockContainsTxHash block txHash =
     (let hs = (case mb_hashes block of None \<Rightarrow> [] | Some hs \<Rightarrow> hs);
          found = list_ex (\<lambda>h. UInt256Eq h txHash) (take (mb_hashesCount block) hs)
      in if UInt256IsZero txHash \<or> \<not> found \<and> length hs < mb_hashesCount block then None else Some found)"

definition LWMerkleBlockVerifyDifficulty :: "LWMerkleBlock \<Rightarrow> LWMerkleBlock option \<Rightarrow> u32 \<Rightarrow> bool option" where
  "LWMerkleBlockVerifyDifficulty block previous transitionTime =
     (case previous of None \<Rightarrow> None
      | Some p \<Rightarrow>
          let r = (UInt256Eq (mb_prevBlock block) (mb_blockHash p) \<and> mb_height block = mb_height p + 1)
          in Some (r \<and> \<not> (mb_height block mod BLOCK_DIFFICULTY_INTERVAL = 0 \<and> transitionTime = 0)))"

definition LWMerkleBlockHash :: "LWMerkleBlock \<Rightarrow> u32" where
  "LWMerkleBlockHash block = union_u32 (mb_blockHash block) 0"

definition LWMerkleBlockEq :: "LWMerkleBlock \<Rightarrow> LWMerkleBlock \<Rightarrow> bool" where
  "LWMerkleBlockEq block other = UInt256Eq (mb_blockHash block) (mb_blockHash other)"

subsection \<open>The depth of the tree\<close>

lemma log2_loop_half: "1 \<le> x \<Longrightarrow> \<exists>k. log2_loop x r = Some (r + k) \<and> 2 ^ k \<le> x \<and> x < 2 ^ (k + 1)" for x :: int
proof (induction "nat x" arbitrary: x r rule: less_induct)
  case less
  show ?case
  proof (cases "x div 2 = 0")
    case True
    then have "x = 1" using less.prems by presburger
    then show ?thesis by (subst log2_loop.simps) (auto intro: exI [of _ 0])
  next
    case False
    then have half: "1 \<le> x div 2" "nat (x div 2) < nat x" using less.prems by (auto simp: nat_less_eq_zless)
    from less.hyps [OF half(2,1), of "r + 1"] obtain k where
      k: "log2_loop (x div 2) (r + 1) = Some (r + 1 + k)" "2 ^ k \<le> x div 2" "x div 2 < 2 ^ (k + 1)" by blast
    have "2 ^ Suc k \<le> x" "x < 2 ^ (Suc k + 1)" using k(2,3) by (auto simp: power_add)
    then show ?thesis using k(1) False by (subst log2_loop.simps) (auto intro: exI [of _ "Suc k"])
  qed
qed

text \<open>\<open>x AND (x - 1)\<close> clears the lowest bit, so it is zero just for the powers of two.\<close>

lemma and_pred: "1 \<le> x \<Longrightarrow> x AND (x - 1) = 0 \<longleftrightarrow> (\<exists>k. x = 2 ^ k)" for x :: int
proof (induction "nat x" arbitrary: x rule: less_induct)
  case less
  show ?case
  proof (cases "even x")
    case True
    then obtain y where y: "x = 2 * y" by (auto elim: evenE)
    then have ih: "1 \<le> y" "nat y < nat x" using less.prems by auto
    have "(x - 1) div 2 = y - 1" using y by presburger
    then have "x AND (x - 1) = 2 * (y AND (y - 1))"
      using y by (subst and_int.rec) simp
    moreover have "(\<exists>k. x = 2 ^ k) \<longleftrightarrow> (\<exists>k. y = 2 ^ k)"
    proof
      assume "\<exists>k. x = 2 ^ k"
      then obtain k where "2 * y = 2 ^ k" using y by auto
      moreover from this have "k \<noteq> 0" by (metis dvd_triv_left odd_one power_0)
      ultimately show "\<exists>k. y = 2 ^ k" by (cases k) auto
    next
      assume "\<exists>k. y = 2 ^ k"
      then show "\<exists>k. x = 2 ^ k" using y by (metis power_Suc)
    qed
    ultimately show ?thesis using less.hyps [OF ih(2,1)] by simp
  next
    case False
    then obtain y where y: "x = 2 * y + 1" by (auto elim: oddE)
    have "x AND (x - 1) = 2 * y" using y by (subst and_int.rec) simp
    moreover have "(\<exists>k. x = 2 ^ k) \<longleftrightarrow> y = 0"
    proof
      assume "\<exists>k. x = 2 ^ k"
      then obtain k where "2 * y + 1 = 2 ^ k" using y by auto
      then show "y = 0" by (cases k) (auto, presburger)
    qed (auto simp: y intro: exI [of _ 0])
    ultimately show ?thesis by simp
  qed
qed

text \<open>
  The height computed for a block of \<open>n\<close> transactions is the rounded-up binary logarithm of
  \<open>n\<close>; for a count that is negative as a C \<open>int\<close>, which a message may claim, the loop never ends.
\<close>

theorem ceil_log2_spec:
  "if n = 0 then ceil_log2 n = Some 0
   else if n < 0x80000000 then \<exists>h. ceil_log2 n = Some h \<and> unat n \<le> 2 ^ h \<and> 2 ^ h < 2 * unat n
   else ceil_log2 n = None"
proof -
  have "\<not> x < 0" if "log2_loop x r = Some y" for x r y
  proof -
    have step: "\<not> x < 0" if ih: "\<And>x r y. f x r = Some y \<Longrightarrow> \<not> x < 0"
        and eq: "(let x = x div 2 in if x \<noteq> 0 then f x (r + 1) else Some r) = Some y"
        for f :: "int \<Rightarrow> nat \<Rightarrow> nat option" and x r y
    proof (cases "x div 2 = 0")
      case True
      then show ?thesis by presburger
    next
      case False
      then have "f (x div 2) (r + 1) = Some y" using eq by (simp add: Let_def)
      then have "\<not> x div 2 < 0" by (rule ih)
      then show ?thesis by presburger
    qed
    have "(case (x, r) of (x, r) \<Rightarrow> \<lambda>y :: nat. \<not> x < 0) y"
    proof (rule log2_loop.raw_induct)
      show "(case (x, r) of (x, r) \<Rightarrow> log2_loop x r) = Some y" using that by simp
    qed (rule step)
    then show ?thesis by simp
  qed
  then have "log2_loop x r = None" if "x < 0" for x r using that by (metis not_None_eq)
  then have neg: "ceil_log2 n = None" if "sint n < 0" using that by (simp add: ceil_log2_def Let_def)
  show ?thesis
  proof (cases "n < 0x80000000")
    case True
    then have "uint n < 2 ^ 31" by (simp add: word_less_def)
    moreover have "0 \<le> uint n" by simp
    ultimately have "sint n = uint n" unfolding sint_uint
      by (intro signed_take_bit_int_eq_self) (auto intro: order_trans [of _ 0])
    moreover define m where "m = unat n"
    ultimately have s: "sint n = int m" by (simp only: uint_nat)
    show ?thesis
    proof (cases "n = 0")
      case False
      then have "0 < m" by (simp add: unat_gt_0 m_def)
      then have x: "1 \<le> int m" by linarith
      define r where "r = (if int m AND (int m - 1) \<noteq> 0 then 1 else 0 :: nat)"
      obtain k where k: "log2_loop (int m) r = Some (r + k)" "2 ^ k \<le> int m" "int m < 2 ^ (k + 1)"
        using log2_loop_half [OF x] by blast
      have cast: "int m = 2 ^ i \<longleftrightarrow> m = 2 ^ i" for i
        using numeral_power_eq_of_nat_cancel_iff [of "num.Bit0 num.One" i m, where ?'a = int] by (metis numeral_One)
      have k': "2 ^ k \<le> m" "m < 2 ^ (k + 1)"
        using k(2,3) by (simp_all only: numeral_power_le_of_nat_cancel_iff of_nat_less_numeral_power_cancel_iff)
      have "m \<le> 2 ^ (r + k) \<and> 2 ^ (r + k) < 2 * m"
      proof (cases "int m AND (int m - 1) = 0")
        case True
        then obtain j where j: "int m = 2 ^ j" using and_pred [OF x] by blast
        have "(2 :: int) ^ k \<le> 2 ^ j" "(2 :: int) ^ j < 2 ^ (k + 1)" using k(2,3) unfolding j .
        then have "k \<le> j" "j < k + 1" by (simp_all only: power_increasing_iff power_strict_increasing_iff one_less_numeral_iff semiring_norm)
        then have "k = j" by simp
        then have "m = 2 ^ k" using j unfolding cast by simp
        then show ?thesis using True by (simp add: r_def)
      next
        case False
        then have "int m \<noteq> 2 ^ k" using and_pred [OF x] by blast
        then have "m \<noteq> 2 ^ k" unfolding cast .
        then show ?thesis using k' False by (simp add: r_def)
      qed
      moreover have "ceil_log2 n = Some (r + k)" using k(1) s by (simp add: ceil_log2_def r_def Let_def)
      ultimately show ?thesis using True False by (auto simp: m_def)
    qed (simp add: ceil_log2_def log2_loop.simps)
  next
    case False
    then have "2 ^ 31 \<le> uint n" by (simp add: word_less_def)
    moreover have "uint n < 2 ^ 32" using uint_lt2p [of n] by simp
    ultimately have "uint n div 2 ^ 31 = 1" by (intro int_div_pos_eq [of _ _ 1 "uint n - 2 ^ 31"]) auto
    then have "bit (uint n) 31" by (simp add: bit_iff_odd)
    then have "sint n < 0" by (simp add: sint_uint signed_take_bit_negative_iff)
    then show ?thesis using False neg by auto
  qed
qed

subsection \<open>The tree a block is built from\<close>

text \<open>
  The Merkle root of at most \<open>2 ^ h\<close> transactions, a missing right branch being the left one again,
  and the partial tree of BIP37 for the marked ones: its flag bits and its hashes.
\<close>

fun merkle_root :: "nat \<Rightarrow> UInt256 list \<Rightarrow> UInt256" where
  "merkle_root 0 xs = hd xs"
| "merkle_root (Suc h) xs =
     (let left = merkle_root h (take (2 ^ h) xs)
      in LWSHA256_2 (left @ (if length xs \<le> 2 ^ h then left else merkle_root h (drop (2 ^ h) xs))))"

fun partial_tree :: "nat \<Rightarrow> (UInt256 \<times> bool) list \<Rightarrow> bool list \<times> UInt256 list" where
  "partial_tree 0 xs = ([snd (hd xs)], [fst (hd xs)])"
| "partial_tree (Suc h) xs =
     (if \<not> list_ex snd xs then ([False], [merkle_root (Suc h) (map fst xs)])
      else
        (let (bits, hashes) = partial_tree h (take (2 ^ h) xs) in
         if length xs \<le> 2 ^ h then (True # bits, hashes)
         else (let (bits', hashes') = partial_tree h (drop (2 ^ h) xs) in (True # bits @ bits', hashes @ hashes'))))"

text \<open>No two sibling roots agree, and no root is the zero hash.\<close>

fun distinct_siblings :: "nat \<Rightarrow> UInt256 list \<Rightarrow> bool" where
  "distinct_siblings 0 xs \<longleftrightarrow> length xs = 1 \<and> length (hd xs) = 32 \<and> hd xs \<noteq> UINT256_ZERO"
| "distinct_siblings (Suc h) xs \<longleftrightarrow>
     distinct_siblings h (take (2 ^ h) xs) \<and> merkle_root (Suc h) xs \<noteq> UINT256_ZERO \<and>
     (length xs \<le> 2 ^ h \<or> distinct_siblings h (drop (2 ^ h) xs) \<and>
        merkle_root h (take (2 ^ h) xs) \<noteq> merkle_root h (drop (2 ^ h) xs))"

lemma merkle_root_ok: "distinct_siblings h xs \<Longrightarrow> length (merkle_root h xs) = 32 \<and> merkle_root h xs \<noteq> UINT256_ZERO"
  by (cases h) (auto simp: Let_def)

lemma distinct_siblings_length: "distinct_siblings h xs \<Longrightarrow> 0 < length xs \<and> length xs \<le> 2 ^ h"
proof (induction h arbitrary: xs)
  case (Suc h)
  from Suc.prems consider "length xs \<le> 2 ^ h" | "distinct_siblings h (drop (2 ^ h) xs)" by auto
  then show ?case
  proof cases
    case 1
    then show ?thesis using Suc.IH [of "take (2 ^ h) xs"] Suc.prems by simp
  next
    case 2
    then show ?thesis using Suc.IH [of "take (2 ^ h) xs"] Suc.IH [of "drop (2 ^ h) xs"] Suc.prems by (simp, linarith)
  qed
qed simp

text \<open>What is still to be read of a block: flag bits and hashes.\<close>

definition flag_bits :: "bytes \<Rightarrow> bool list" where
  "flag_bits flags = concat (map (\<lambda>b. map (bit b) [0..<8]) flags)"

definition to_read :: "LWMerkleBlock \<Rightarrow> nat \<times> nat \<Rightarrow> bool list \<Rightarrow> UInt256 list \<Rightarrow> bool" where
  "to_read block st bits hashes \<longleftrightarrow> (\<exists>flags hs. mb_flags block = Some flags \<and> mb_hashes block = Some hs \<and>
     mb_flagsLen block = length flags \<and> mb_hashesCount block = length hs \<and>
     fst st \<le> length hs \<and> drop (fst st) hs = hashes \<and> snd st \<le> 8 * length flags \<and>
     drop (snd st) (flag_bits flags) = bits)"

lemma length_flag_bits: "length (flag_bits flags) = 8 * length flags"
  by (induction flags) (simp_all add: flag_bits_def)

lemma flag_bits_nth: "i < 8 * length flags \<Longrightarrow> flag_bits flags ! i = bit (flags ! (i div 8)) (i mod 8)"
proof (induction flags arbitrary: i)
  case (Cons f flags)
  have split: "flag_bits (f # flags) = map (bit f) [0..<8] @ flag_bits flags" by (simp add: flag_bits_def)
  show ?case
  proof (cases "i < 8")
    case False
    then have "flag_bits (f # flags) ! i = flag_bits flags ! (i - 8)" by (simp add: split nth_append)
    moreover have "i div 8 = Suc ((i - 8) div 8)" "i mod 8 = (i - 8) mod 8"
      using False by (simp_all add: le_div_geq le_mod_geq)
    ultimately show ?thesis using Cons False by simp
  qed (simp add: split nth_append del: upt_rec_numeral)
qed simp

lemma next_flag_read:
  assumes "to_read block (i, j) (b # bits) (x # hashes)"
  shows "next_flag block (i, j) = Some (Some b)" "next_hash block i = Some x"
    "to_read block (i + 1, j + 1) bits hashes" "to_read block (i, j + 1) bits (x # hashes)"
proof -
  obtain flags hs where r: "mb_flags block = Some flags" "mb_hashes block = Some hs" "mb_flagsLen block = length flags"
    "mb_hashesCount block = length hs" "i \<le> length hs" "drop i hs = x # hashes" "j \<le> 8 * length flags"
    "drop j (flag_bits flags) = b # bits"
    using assms by (auto simp: to_read_def)
  have i: "i < length hs" "hs ! i = x" "drop (Suc i) hs = hashes"
    using r(6) by (metis drop_all not_le list.discI, metis Cons_nth_drop_Suc drop_all list.discI list.inject not_le,
        metis Cons_nth_drop_Suc drop_all list.discI list.inject not_le)
  have j: "j < length (flag_bits flags)" "flag_bits flags ! j = b" "drop (Suc j) (flag_bits flags) = bits"
    using r(8) by (metis drop_all not_le list.discI, metis Cons_nth_drop_Suc drop_all list.discI list.inject not_le,
        metis Cons_nth_drop_Suc drop_all list.discI list.inject not_le)
  have j': "j < 8 * length flags" using j(1) by (simp add: length_flag_bits)
  then have "j div 8 < length flags" by (simp add: less_mult_imp_div_less)
  moreover have "bit (flags ! (j div 8)) (j mod 8) = b" using flag_bits_nth [OF j'] j(2) by simp
  ultimately show "next_flag block (i, j) = Some (Some b)" "next_hash block i = Some x"
    using r i by (simp_all add: next_flag_def next_hash_def)
  show "to_read block (i + 1, j + 1) bits hashes" "to_read block (i, j + 1) bits (x # hashes)"
    using r i j j' by (auto simp: to_read_def)
qed

lemma next_flag_end: "to_read block (i, j) bits [] \<Longrightarrow> next_flag block (i, j) = Some None"
  by (auto simp: to_read_def next_flag_def)

declare root_r.simps [simp del] tx_hashes_r.simps [simp del]

lemma root_r_cases:
  "next_flag block st = Some None \<Longrightarrow> root_r block h st = Some (UINT256_ZERO, st)"
  "next_flag block st = Some (Some False) \<Longrightarrow> next_hash block (fst st) = Some x \<Longrightarrow>
     root_r block h st = Some (x, fst st + 1, snd st + 1)"
  "next_flag block st = Some (Some b) \<Longrightarrow> next_hash block (fst st) = Some x \<Longrightarrow>
     root_r block 0 st = Some (x, fst st + 1, snd st + 1)"
  by (cases st; cases h; simp add: root_r.simps)+

lemma root_r_Suc:
  "next_flag block (i, j) = Some (Some True) \<Longrightarrow> root_r block (Suc h) (i, j) = do {
     (left, st) \<leftarrow> root_r block h (i, j + 1); (right, st) \<leftarrow> root_r block h st;
     Some (if \<not> UInt256IsZero left \<and> \<not> UInt256Eq left right then
             (LWSHA256_2 (left @ (if UInt256IsZero right then left else right)), st)
           else (UINT256_ZERO, SIZE_MAX, snd st)) }"
  by (simp add: root_r.simps)

lemma zero_facts: "UInt256IsZero UINT256_ZERO" "length u = 32 \<Longrightarrow> UInt256Eq u UINT256_ZERO = (u = UINT256_ZERO)"
  using UInt256IsZero_iff [of UINT256_ZERO] by simp_all

lemma partial_tree_hashes: "partial_tree h xs = (bits, hashes) \<Longrightarrow> hashes \<noteq> []"
  by (induction h arbitrary: xs bits hashes) (auto split: prod.splits if_splits)

lemma next_flag_skip:
  "to_read block (i, j) (b # bits) (hs @ rest) \<Longrightarrow> hs \<noteq> [] \<Longrightarrow>
   next_flag block (i, j) = Some (Some b) \<and> to_read block (i, j + 1) bits (hs @ rest)"
  by (cases hs) (auto dest: next_flag_read)

lemma root_honest:
  "distinct_siblings h (map fst xs) \<Longrightarrow> partial_tree h xs = (bits, hashes) \<Longrightarrow>
   to_read block st (bits @ bs) (hashes @ rest) \<Longrightarrow> length xs = 2 ^ h \<or> rest = [] \<Longrightarrow>
   \<exists>st'. root_r block h st = Some (merkle_root h (map fst xs), st') \<and> to_read block st' bs rest"
proof (induction h arbitrary: xs bits hashes bs rest st)
  case 0
  then obtain x m where xs: "xs = [(x, m)]" by (auto simp: length_Suc_conv)
  obtain i j where st: "st = (i, j)" by fastforce
  have "to_read block (i, j) (m # bs) (x # rest)" using 0 by (auto simp: xs st)
  from next_flag_read [OF this] show ?case by (auto simp: st xs root_r_cases(3))
next
  case (Suc h)
  let ?xs1 = "take (2 ^ h) xs" and ?xs2 = "drop (2 ^ h) xs"
  obtain i j where st: "st = (i, j)" by fastforce
  show ?case
  proof (cases "list_ex snd xs")
    case False
    then have "bits = [False]" "hashes = [merkle_root (Suc h) (map fst xs)]" using Suc.prems(2) by simp_all
    then have "to_read block (i, j) (False # bs) (merkle_root (Suc h) (map fst xs) # rest)"
      using Suc.prems(3) by (simp add: st)
    from next_flag_read [OF this] show ?thesis by (auto simp: st root_r_cases(2) simp del: merkle_root.simps)
  next
    case True
    obtain b1 h1 where t1: "partial_tree h ?xs1 = (b1, h1)" by fastforce
    let ?l = "merkle_root h (map fst ?xs1)"
    have d: "distinct_siblings h (map fst ?xs1)" using Suc.prems(1) by (simp add: take_map)
    have l: "length ?l = 32" "?l \<noteq> UINT256_ZERO" using merkle_root_ok [OF d] by simp_all
    show ?thesis
    proof (cases "length xs \<le> 2 ^ h")
      case short: True
      then have eq: "bits = True # b1" "hashes = h1" using Suc.prems(2) True t1 by simp_all
      have rest: "rest = []" using Suc.prems(4) short by auto
      have r: "to_read block (i, j) (True # b1 @ bs) (h1 @ [])" using Suc.prems(3) by (simp add: st eq rest)
      then have fl: "next_flag block (i, j) = Some (Some True) \<and> to_read block (i, j + 1) (b1 @ bs) (h1 @ [])"
        using next_flag_skip partial_tree_hashes [OF t1] by blast
      obtain st1 where st1: "root_r block h (i, j + 1) = Some (?l, st1)" "to_read block st1 bs []"
        using Suc.IH [OF d t1, of "(i, j + 1)" bs "[]"] fl by auto
      have "next_flag block st1 = Some None" using st1(2) next_flag_end by (cases st1) blast
      then have "root_r block (Suc h) (i, j) = Some (LWSHA256_2 (?l @ ?l), st1)"
        using fl st1 l by (simp add: root_r_Suc root_r_cases(1) UInt256IsZero_iff zero_facts)
      then show ?thesis using short st1 rest by (auto simp: st take_map Let_def)
    next
      case long: False
      obtain b2 h2 where t2: "partial_tree h ?xs2 = (b2, h2)" by fastforce
      let ?r = "merkle_root h (map fst ?xs2)"
      have eq: "bits = True # b1 @ b2" "hashes = h1 @ h2" using Suc.prems(2) True t1 t2 long by simp_all
      have d2: "distinct_siblings h (map fst ?xs2)" "?l \<noteq> ?r" using Suc.prems(1) long by (simp_all add: take_map drop_map)
      have rr: "length ?r = 32" "?r \<noteq> UINT256_ZERO" using merkle_root_ok [OF d2(1)] by simp_all
      have fl: "next_flag block (i, j) = Some (Some True) \<and> to_read block (i, j + 1) (b1 @ b2 @ bs) (h1 @ h2 @ rest)"
        using next_flag_skip [of block i j True "b1 @ b2 @ bs" h1 "h2 @ rest"] partial_tree_hashes [OF t1] Suc.prems(3)
        by (simp add: st eq)
      have len: "length ?xs1 = 2 ^ h" "length ?xs2 = 2 ^ h \<or> rest = []"
        using long Suc.prems(4) by auto
      obtain st1 where st1: "root_r block h (i, j + 1) = Some (?l, st1)" "to_read block st1 (b2 @ bs) (h2 @ rest)"
        using Suc.IH [OF d t1, of "(i, j + 1)" "b2 @ bs" "h2 @ rest"] fl len by auto
      obtain st2 where st2: "root_r block h st1 = Some (?r, st2)" "to_read block st2 bs rest"
        using Suc.IH [OF d2(1) t2 st1(2) len(2)] by auto
      have "root_r block (Suc h) (i, j) = Some (LWSHA256_2 (?l @ ?r), st2)"
        using fl st1 st2 l rr d2(2) by (simp add: root_r_Suc UInt256IsZero_iff)
      then show ?thesis using long st2 by (auto simp: st take_map drop_map Let_def)
    qed
  qed
qed

lemma tx_hashes_cases:
  "next_flag block st = Some None \<Longrightarrow> tx_hashes_r block cap h (out, st) = Some (out, st)"
  "next_flag block st = Some (Some False) \<Longrightarrow> tx_hashes_r block cap h (out, st) = Some (out, fst st + 1, snd st + 1)"
  "next_flag block st = Some (Some True) \<Longrightarrow> length out < n \<Longrightarrow> next_hash block (fst st) = Some x \<Longrightarrow>
     tx_hashes_r block (Some n) 0 (out, st) = Some (out @ [x], fst st + 1, snd st + 1)"
  "next_flag block st = Some (Some True) \<Longrightarrow> \<not> length out < n \<Longrightarrow>
     tx_hashes_r block (Some n) 0 (out, st) = Some (out, fst st + 1, snd st + 1)"
  "next_flag block st = Some (Some True) \<Longrightarrow> tx_hashes_r block cap (Suc h) (out, st) = do {
     st \<leftarrow> tx_hashes_r block cap h (out, fst st, snd st + 1); tx_hashes_r block cap h st }"
  by (cases st; cases h; simp add: tx_hashes_r.simps)+

lemma tx_hashes_honest:
  "distinct_siblings h (map fst xs) \<Longrightarrow> partial_tree h xs = (bits, hashes) \<Longrightarrow>
   to_read block st (bits @ bs) (hashes @ rest) \<Longrightarrow> length xs = 2 ^ h \<or> rest = [] \<Longrightarrow>
   length out + length (filter snd xs) \<le> n \<Longrightarrow>
   \<exists>st'. tx_hashes_r block (Some n) h (out, st) = Some (out @ map fst (filter snd xs), st') \<and> to_read block st' bs rest"
proof (induction h arbitrary: xs bits hashes bs rest st out)
  case 0
  then obtain x m where xs: "xs = [(x, m)]" by (auto simp: length_Suc_conv)
  obtain i j where st: "st = (i, j)" by fastforce
  have "to_read block (i, j) (m # bs) (x # rest)" using 0 by (auto simp: xs st)
  from next_flag_read [OF this] 0(5) show ?case
    by (cases m) (auto simp: st xs tx_hashes_cases)
next
  case (Suc h)
  let ?xs1 = "take (2 ^ h) xs" and ?xs2 = "drop (2 ^ h) xs"
  obtain i j where st: "st = (i, j)" by fastforce
  show ?case
  proof (cases "list_ex snd xs")
    case False
    then have "bits = [False]" "hashes = [merkle_root (Suc h) (map fst xs)]" "filter snd xs = []"
      using Suc.prems(2) by (auto simp: list_ex_iff filter_empty_conv)
    then have "to_read block (i, j) (False # bs) (merkle_root (Suc h) (map fst xs) # rest)"
      using Suc.prems(3) by (simp add: st)
    from next_flag_read [OF this] show ?thesis
      using \<open>filter snd xs = []\<close> by (auto simp: st tx_hashes_cases(2) simp del: merkle_root.simps)
  next
    case True
    obtain b1 h1 where t1: "partial_tree h ?xs1 = (b1, h1)" by fastforce
    have d: "distinct_siblings h (map fst ?xs1)" using Suc.prems(1) by (simp add: take_map)
    have all: "filter snd xs = filter snd ?xs1 @ filter snd ?xs2" by (metis append_take_drop_id filter_append)
    show ?thesis
    proof (cases "length xs \<le> 2 ^ h")
      case short: True
      then have eq: "bits = True # b1" "hashes = h1" using Suc.prems(2) True t1 by simp_all
      have rest: "rest = []" using Suc.prems(4) short by auto
      have "to_read block (i, j) (True # b1 @ bs) (h1 @ [])" using Suc.prems(3) by (simp add: st eq rest)
      then have fl: "next_flag block (i, j) = Some (Some True) \<and> to_read block (i, j + 1) (b1 @ bs) (h1 @ [])"
        using next_flag_skip partial_tree_hashes [OF t1] by blast
      obtain st1 where st1: "tx_hashes_r block (Some n) h (out, i, j + 1) = Some (out @ map fst (filter snd ?xs1), st1)"
          "to_read block st1 bs []"
        using Suc.IH [OF d t1, of "(i, j + 1)" bs "[]" out] fl Suc.prems(5) by (auto simp: all)
      have "next_flag block st1 = Some None" using st1(2) next_flag_end by (cases st1) blast
      then show ?thesis using fl st1 short rest by (auto simp: st tx_hashes_cases)
    next
      case long: False
      obtain b2 h2 where t2: "partial_tree h ?xs2 = (b2, h2)" by fastforce
      have eq: "bits = True # b1 @ b2" "hashes = h1 @ h2" using Suc.prems(2) True t1 t2 long by simp_all
      have d2: "distinct_siblings h (map fst ?xs2)" using Suc.prems(1) long by (simp add: drop_map)
      have fl: "next_flag block (i, j) = Some (Some True) \<and> to_read block (i, j + 1) (b1 @ b2 @ bs) (h1 @ h2 @ rest)"
        using next_flag_skip [of block i j True "b1 @ b2 @ bs" h1 "h2 @ rest"] partial_tree_hashes [OF t1] Suc.prems(3)
        by (simp add: st eq)
      have len: "length ?xs1 = 2 ^ h" "length ?xs2 = 2 ^ h \<or> rest = []"
        using long Suc.prems(4) by auto
      obtain st1 where st1: "tx_hashes_r block (Some n) h (out, i, j + 1) = Some (out @ map fst (filter snd ?xs1), st1)"
          "to_read block st1 (b2 @ bs) (h2 @ rest)"
        using Suc.IH [OF d t1, of "(i, j + 1)" "b2 @ bs" "h2 @ rest" out] fl len Suc.prems(5) by (auto simp: all)
      obtain st2 where "tx_hashes_r block (Some n) h (out @ map fst (filter snd ?xs1), st1) =
          Some (out @ map fst (filter snd ?xs1) @ map fst (filter snd ?xs2), st2)" "to_read block st2 bs rest"
        using Suc.IH [OF d2(1) t2 st1(2) len(2), of "out @ map fst (filter snd ?xs1)"] Suc.prems(5) by (auto simp: all)
      then show ?thesis using fl st1 by (auto simp: st tx_hashes_cases all)
    qed
  qed
qed

text \<open>
  C35. For the partial Merkle tree that BIP37 builds from a block's transactions and a choice of
  them, the root that is computed is the Merkle root of all the transactions, and the transaction
  hashes that are extracted are exactly the chosen ones, in order. The tree may have any shape up
  to height \<open>h\<close>, and padding bits may follow the flags; no two sibling roots may be equal.
\<close>

theorem merkle_block_complete:
  assumes "ceil_log2 (mb_totalTx block) = Some h" "distinct_siblings h (map fst xs)"
    and "partial_tree h xs = (bits, hashes)" "to_read block (0, 0) (bits @ padding) hashes"
  shows "LWMerkleBlockRoot block = Some (merkle_root h (map fst xs)) \<and>
    LWMerkleBlockTxHashes block (Some (length xs)) = Some (map fst (filter snd xs))"
  using assms root_honest [OF assms(2,3), of block "(0, 0)" padding "[]"]
    tx_hashes_honest [OF assms(2,3), of block "(0, 0)" padding "[]" "[]" "length xs"]
  by (auto simp: LWMerkleBlockRoot_def LWMerkleBlockTxHashes_def tree_height_def)

lemma merkle_block_complete_witness:
  "LWMerkleBlockRoot (LWMerkleBlockNew\<lparr>mb_totalTx := 1, mb_hashes := Some [replicate 32 1], mb_hashesCount := 1,
      mb_flags := Some [1], mb_flagsLen := 1\<rparr>) = Some (merkle_root 0 (map fst [(replicate 32 1, True)]))"
proof -
  have c: "ceil_log2 1 = Some 0" by (simp add: ceil_log2_def log2_loop.simps)
  have r: "to_read (LWMerkleBlockNew\<lparr>mb_totalTx := 1, mb_hashes := Some [replicate 32 1], mb_hashesCount := 1,
      mb_flags := Some [1], mb_flagsLen := 1\<rparr>) (0, 0) ([True] @ replicate 7 False) [replicate 32 1]"
    by (simp add: to_read_def flag_bits_def numeral_eq_Suc)
  show ?thesis
    using merkle_block_complete [OF _ _ _ r, of 0 "[(replicate 32 1, True)]"]
    by (simp add: c UINT256_ZERO_def numeral_eq_Suc)
qed

subsection \<open>What a computed root says of the extracted hashes\<close>

inductive in_tree :: "UInt256 \<Rightarrow> UInt256 \<Rightarrow> bool" where
  here: "in_tree x x"
| left: "in_tree x l \<Longrightarrow> length l = 32 \<Longrightarrow> length r = 32 \<Longrightarrow> in_tree x (LWSHA256_2 (l @ r))"
| right: "in_tree x r \<Longrightarrow> length l = 32 \<Longrightarrow> length r = 32 \<Longrightarrow> in_tree x (LWSHA256_2 (l @ r))"

lemma next_flag_past: "mb_hashesCount block \<le> i \<Longrightarrow> next_flag block (i, j) = Some None"
  by (simp add: next_flag_def)

lemma root_r_length:
  "root_r block h st = Some (md, st') \<Longrightarrow> mb_hashes block = Some hs \<Longrightarrow> \<forall>x\<in>set hs. length x = 32 \<Longrightarrow> length md = 32"
  by (cases st; cases h)
    (auto simp: root_r.simps next_hash_def deref_def UINT256_ZERO_def split: option.splits bool.splits if_splits Option.bind_splits prod.splits)

lemma root_r_tx_hashes:
  assumes hs: "mb_hashes block = Some hs" "\<forall>x\<in>set hs. length x = 32" "mb_hashesCount block \<le> SIZE_MAX"
  shows "root_r block h (i, j) = Some (md, i', j') \<Longrightarrow> i' \<noteq> SIZE_MAX \<Longrightarrow>
    \<exists>out'. tx_hashes_r block (Some n) h (out, i, j) = Some (out @ out', i', j') \<and>
      (\<forall>y\<in>set out'. in_tree y md \<or> in_tree y UINT256_ZERO)"
proof (induction h arbitrary: i j md i' j' out)
  case 0
  then show ?case
    by (auto simp: root_r.simps tx_hashes_r.simps intro: in_tree.here split: option.splits bool.splits Option.bind_splits)
next
  case (Suc h)
  obtain f where f: "next_flag block (i, j) = Some f" using Suc.prems by (auto simp: root_r.simps split: Option.bind_splits)
  show ?case
  proof (cases "f = Some True")
    case False
    then show ?thesis using Suc.prems f
      by (auto simp: root_r.simps tx_hashes_r.simps split: option.splits bool.splits Option.bind_splits)
  next
    case True
    then have fl: "next_flag block (i, j) = Some (Some True)" using f by simp
    obtain l i1 j1 r i2 j2 where l: "root_r block h (i, j + 1) = Some (l, i1, j1)"
      and r: "root_r block h (i1, j1) = Some (r, i2, j2)"
      and md: "if \<not> UInt256IsZero l \<and> \<not> UInt256Eq l r
        then md = LWSHA256_2 (l @ (if UInt256IsZero r then l else r)) \<and> i' = i2 \<and> j' = j2 else i' = SIZE_MAX"
      using Suc.prems(1) unfolding root_r_Suc [OF fl] by (auto split: Option.bind_splits prod.splits if_splits)
    then have md': "md = LWSHA256_2 (l @ (if UInt256IsZero r then l else r))" "i2 = i'" "j2 = j'"
      using Suc.prems(2) by (auto split: if_splits)
    have i1: "i1 \<noteq> SIZE_MAX"
    proof
      assume "i1 = SIZE_MAX"
      then have "next_flag block (i1, j1) = Some None" using hs(3) by (simp add: next_flag_past)
      then show False using r \<open>i1 = SIZE_MAX\<close> md'(2) Suc.prems(2) by (simp add: root_r_cases(1))
    qed
    have len: "length l = 32" "length r = 32" using root_r_length [OF l hs(1,2)] root_r_length [OF r hs(1,2)] by simp_all
    obtain o1 where o1: "tx_hashes_r block (Some n) h (out, i, j + 1) = Some (out @ o1, i1, j1)"
      "\<forall>y\<in>set o1. in_tree y l \<or> in_tree y UINT256_ZERO" using Suc.IH [OF l i1] by blast
    obtain o2 where o2: "tx_hashes_r block (Some n) h (out @ o1, i1, j1) = Some ((out @ o1) @ o2, i2, j2)"
      "\<forall>y\<in>set o2. in_tree y r \<or> in_tree y UINT256_ZERO" using Suc.IH [OF r, of "out @ o1"] md'(2) Suc.prems(2) by blast
    have "in_tree y md \<or> in_tree y UINT256_ZERO" if "y \<in> set (o1 @ o2)" for y
      using that o1(2) o2(2) len by (auto simp: md'(1) UInt256IsZero_iff intro: in_tree.left in_tree.right)
    moreover have "tx_hashes_r block (Some n) (Suc h) (out, i, j) = Some (out @ (o1 @ o2), i', j')"
      using fl o1(1) o2(1) md' by (simp add: tx_hashes_cases(5))
    ultimately show ?thesis by blast
  qed
qed

text \<open>
  Whatever a peer sends as a partial Merkle tree: if the walk that computes the root has not
  set the hash index to \<open>SIZE_MAX\<close>, then every transaction hash that is extracted is a node of
  the tree under that root (or of one under the zero hash, which would be a preimage of it). The
  index at the end of the walk is what the validity check would have to look at.
\<close>

theorem extracted_in_tree:
  assumes "tree_height block = Some h" "root_r block h (0, 0) = Some (root, hashIdx, flagIdx)" "hashIdx \<noteq> SIZE_MAX"
    and "mb_hashes block = Some hs" "\<forall>x\<in>set hs. length x = 32" "mb_hashesCount block \<le> SIZE_MAX"
    and "LWMerkleBlockTxHashes block (Some n) = Some out" "y \<in> set out"
  shows "in_tree y root \<or> in_tree y UINT256_ZERO"
  using root_r_tx_hashes [OF assms(4-6,2,3), of n "[]"] assms(1,7,8)
  by (auto simp: LWMerkleBlockTxHashes_def)

lemma extracted_in_tree_witness:
  "in_tree (replicate 32 1) (replicate 32 1) \<or> in_tree (replicate 32 1) UINT256_ZERO"
  by (rule extracted_in_tree [of "LWMerkleBlockNew\<lparr>mb_totalTx := 1, mb_hashes := Some [replicate 32 1], mb_hashesCount := 1,
      mb_flags := Some [1], mb_flagsLen := 1\<rparr>" 0 _ 1 1 "[replicate 32 1]" 1 "[replicate 32 1]"])
    (simp_all add: LWMerkleBlockTxHashes_def tree_height_def ceil_log2_def log2_loop.simps root_r.simps tx_hashes_r.simps
      next_flag_def next_hash_def deref_def SIZE_MAX_def)

text \<open>
  C39. The guard against repeated hashes does not guard: a peer may take an honest block of five
  transactions, with the hashes \<open>L\<close> and \<open>E\<close>, and append any hash \<open>x\<close> twice below the missing
  right branch. The equal siblings make that branch zero and set the hash index to \<open>SIZE_MAX\<close>, but
  zero is read as a missing branch one level up, so the root is the honest one, and the block
  delivers the transaction \<open>x\<close>, which is not in it.
\<close>

theorem forged_transaction:
  "let honest = block\<lparr>mb_totalTx := 5, mb_hashes := Some [L, E], mb_hashesCount := 2,
                      mb_flags := Some [0x05], mb_flagsLen := 1\<rparr>;
       forged = block\<lparr>mb_totalTx := 5, mb_hashes := Some [L, E, x, x], mb_hashesCount := 4,
                      mb_flags := Some [0x75], mb_flagsLen := 1\<rparr>
   in LWMerkleBlockRoot forged = LWMerkleBlockRoot honest \<and>
      LWMerkleBlockIsValid forged now = LWMerkleBlockIsValid honest now \<and>
      LWMerkleBlockTxHashes honest (Some 2) = Some [] \<and> LWMerkleBlockTxHashes forged (Some 2) = Some [x, x]"
proof -
  have h: "ceil_log2 5 = Some 3" by (simp add: ceil_log2_def log2_loop.simps)
  define honest where "honest = block\<lparr>mb_totalTx := 5, mb_hashes := Some [L, E], mb_hashesCount := 2,
                      mb_flags := Some [0x05], mb_flagsLen := 1\<rparr>"
  define forged where "forged = block\<lparr>mb_totalTx := 5, mb_hashes := Some [L, E, x, x], mb_hashesCount := 4,
                      mb_flags := Some [0x75], mb_flagsLen := 1\<rparr>"
  have "next_flag forged (0, 0) = Some (Some True)" "next_flag forged (0, 1) = Some (Some False)"
    "next_flag forged (1, 2) = Some (Some True)" "next_flag forged (1, 3) = Some (Some False)"
    "next_flag forged (2, 4) = Some (Some True)" "next_flag forged (2, 5) = Some (Some True)"
    "next_flag forged (3, 6) = Some (Some True)"
    "next_flag honest (0, 0) = Some (Some True)" "next_flag honest (0, 1) = Some (Some False)"
    "next_flag honest (1, 2) = Some (Some True)" "next_flag honest (1, 3) = Some (Some False)"
    "next_flag honest (2, 4) = Some None"
    by (simp_all add: next_flag_def honest_def forged_def deref_def)
  note f = this
  have n: "next_hash forged 0 = Some L" "next_hash forged 1 = Some E" "next_hash forged 2 = Some x" "next_hash forged 3 = Some x"
    "next_hash honest 0 = Some L" "next_hash honest 1 = Some E"
    by (simp_all add: next_hash_def honest_def forged_def deref_def)
  have t: "mb_totalTx forged = 5" "mb_totalTx honest = 5" by (simp_all add: honest_def forged_def)
  have rf: "root_r forged 0 (2, 5) = Some (x, 3, 6)" "root_r forged 0 (3, 6) = Some (x, 4, 7)"
    "root_r forged 1 (1, 3) = Some (E, 2, 4)" "root_r forged 2 (0, 1) = Some (L, 1, 2)"
    using f n by (simp_all add: root_r_cases)
  have rf': "root_r forged 1 (2, 4) = Some (UINT256_ZERO, SIZE_MAX, 7)"
    unfolding One_nat_def by (subst root_r_Suc) (simp_all add: f rf UInt256Eq_def)
  have rh: "root_r honest 1 (1, 3) = Some (E, 2, 4)" "root_r honest 2 (0, 1) = Some (L, 1, 2)"
    "root_r honest 1 (2, 4) = Some (UINT256_ZERO, 2, 4)"
    using f n by (simp_all add: root_r_cases)
  define md where "md = (if \<not> UInt256IsZero E \<and> \<not> UInt256Eq E UINT256_ZERO
    then LWSHA256_2 (E @ (if UInt256IsZero UINT256_ZERO then E else UINT256_ZERO)) else UINT256_ZERO)"
  have two: "fst (the (root_r forged 2 (1, 2))) = md" "root_r forged 2 (1, 2) \<noteq> None"
    "fst (the (root_r honest 2 (1, 2))) = md" "root_r honest 2 (1, 2) \<noteq> None"
    using root_r_Suc [OF f(3), of 1, unfolded Suc_1] root_r_Suc [OF f(10), of 1, unfolded Suc_1] rf rf' rh
    by (simp_all add: md_def)
  have root: "LWMerkleBlockRoot forged = LWMerkleBlockRoot honest"
    using two root_r_Suc [OF f(1), of 2] root_r_Suc [OF f(8), of 2] rf(4) rh(2)
    by (auto simp: LWMerkleBlockRoot_def tree_height_def h t)
  have out: "LWMerkleBlockTxHashes honest (Some 2) = Some []" "LWMerkleBlockTxHashes forged (Some 2) = Some [x, x]"
    using f n tx_hashes_cases(5) [OF f(1), of _ 2] tx_hashes_cases(5) [OF f(8), of _ 2]
      tx_hashes_cases(5) [OF f(3), of _ 1, unfolded Suc_1] tx_hashes_cases(5) [OF f(10), of _ 1, unfolded Suc_1]
      tx_hashes_cases(5) [OF f(5), of _ 0]
    by (simp_all add: LWMerkleBlockTxHashes_def tree_height_def h t tx_hashes_cases(1-4) numeral_2_eq_2 [symmetric])
  have "LWMerkleBlockIsValid forged now = LWMerkleBlockIsValid honest now"
    unfolding LWMerkleBlockIsValid_def root by (simp add: honest_def forged_def)
  then show ?thesis using root out unfolding honest_def forged_def Let_def by blast
qed

subsection \<open>Proof of work\<close>

lemma pow_loop_val: "length ps = length ts \<Longrightarrow> pow_loop ps ts \<longleftrightarrow> val8 256 ps \<le> val8 256 ts"
proof (induction ps ts rule: list_induct2)
  case (Cons p ps t ts)
  have "val8 256 ps < 256 ^ length ps" "val8 256 ts < 256 ^ length ts"
    using val_less [of "map unat ps" 256] val_less [of "map unat ts" 256] by (simp_all add: val8_def)
  moreover have "p < t \<Longrightarrow> unat p * 256 ^ length ts + 256 ^ length ts \<le> unat t * 256 ^ length ts"
    "t < p \<Longrightarrow> unat t * 256 ^ length ts + 256 ^ length ts \<le> unat p * 256 ^ length ts"
    using mult_le_mono1 [of "unat p + 1" "unat t" "256 ^ length ts"] mult_le_mono1 [of "unat t + 1" "unat p" "256 ^ length ts"]
    by (simp_all add: word_less_nat_alt)
  ultimately have "p < t \<Longrightarrow> val8 256 (p # ps) \<le> val8 256 (t # ts)" "t < p \<Longrightarrow> \<not> val8 256 (p # ps) \<le> val8 256 (t # ts)"
    using Cons(1) by (simp_all add: val8_def)
  then show ?case using Cons by (auto simp: val8_def)
qed (simp add: val8_def)

lemma unat_shift: "unat (drop_bit (k * 8) w) = unat w div 256 ^ k" for w :: "'w::len word"
proof -
  have "(256 :: nat) ^ k = 2 ^ (k * 8)" by (simp add: power_mult mult.commute [of k])
  then show ?thesis by (simp only: unat_drop_bit)
qed

lemma val8_le_set: "val8 256 (rev (le_set n u)) = unat u mod 2 ^ (8 * n)" for u :: "'w::len word"
proof (induction n arbitrary: u)
  case (Suc n)
  have "unat (ucast u :: u8) = unat u mod 256" by (simp add: unsigned_ucast_eq unsigned_take_bit_eq take_bit_eq_mod)
  moreover have "unat (drop_bit 8 u) = unat u div 256" using unat_drop_bit [of 8 u] by simp
  moreover have "unat u mod (256 * 2 ^ (8 * n)) = 256 * (unat u div 256 mod 2 ^ (8 * n)) + unat u mod 256"
    by (rule mod_mult2_eq)
  ultimately show ?case using Suc.IH [of "drop_bit 8 u"] by (simp add: val8_def power_add mult.commute)
qed (simp add: val8_def)

text \<open>The number a compact target stands for.\<close>

definition target_value :: "u32 \<Rightarrow> nat" where
  "target_value compact =
     (let size = unat (drop_bit 24 compact); m = unat (compact AND 0x00ffffff)
      in if size > 3 then m * 256 ^ (size - 3) else m div 256 ^ (3 - size))"

lemma UInt32SetLE_value: "val8 256 (rev (UInt32SetLE w)) = unat w"
  using unsigned_less [of w, where ?'a = nat] by (simp add: UIntSetLE_le_set val8_le_set)

lemma val8_append: "val8 B (xs @ ys) = val8 B xs * B ^ length ys + val8 B ys"
  by (simp add: val8_def)

lemma val8_zeros: "val8 B (replicate n 0) = 0" by (simp add: val8_def)

lemma target_bytes_value:
  "case target_bytes c of None \<Rightarrow> 31 < unat (drop_bit 24 c)
   | Some t \<Rightarrow> unat (drop_bit 24 c) \<le> 31 \<and> length t = 32 \<and> val8 256 (rev t) = target_value c"
proof (cases "drop_bit 24 c > 3")
  case True
  then have s: "3 < unat (drop_bit 24 c)" by (simp add: word_less_nat_alt)
  show ?thesis
  proof (cases "unat (drop_bit 24 c) \<le> 31")
    case le: True
    define i where "i = unat (drop_bit 24 c) - 3"
    have i: "i + 4 \<le> 32" using le by (simp add: i_def)
    have "target_bytes c = Some (take i UINT256_ZERO @ UInt32SetLE (c AND 0x00ffffff) @ drop (i + 4) UINT256_ZERO)"
      using True i by (simp add: target_bytes_def i_def Let_def)
    moreover have "val8 256 (rev (take i UINT256_ZERO @ UInt32SetLE (c AND 0x00ffffff) @ drop (i + 4) UINT256_ZERO)) =
        unat (c AND 0x00ffffff) * 256 ^ i"
      using i by (simp add: UINT256_ZERO_def val8_append val8_zeros UInt32SetLE_value del: rev_append)
        (simp add: val8_append val8_zeros UInt32SetLE_value)
    ultimately show ?thesis using le s i by (simp add: target_value_def i_def [symmetric] Let_def UINT256_ZERO_def)
  qed (use True in \<open>simp add: target_bytes_def Let_def\<close>)
next
  case False
  then have s: "unat (drop_bit 24 c) \<le> 3" by (simp add: word_less_nat_alt not_less)
  define k where "k = 3 - unat (drop_bit 24 c)"
  have "unat (3 - drop_bit 24 c) = k" using False by (simp add: k_def unat_sub not_less word_le_nat_alt)
  then have "target_bytes c = Some (UInt32SetLE (drop_bit (k * 8) (c AND 0x00ffffff)) @ drop 4 UINT256_ZERO)"
    using False by (simp add: target_bytes_def Let_def)
  moreover have "val8 256 (rev (UInt32SetLE (drop_bit (k * 8) (c AND 0x00ffffff)) @ drop 4 UINT256_ZERO)) =
      unat (c AND 0x00ffffff) div 256 ^ k"
    by (simp add: UINT256_ZERO_def val8_append val8_zeros UInt32SetLE_value unat_shift del: drop_bit_and)
  ultimately show ?thesis using s by (simp add: target_value_def k_def [symmetric] Let_def UINT256_ZERO_def)
qed

text \<open>
  C40. A block passes the validity check exactly when the computed root is the one in its header
  (if it names transactions at all), its time is at most two hours ahead, its compact target is a
  positive number within the proof-of-work limit, and its proof-of-work hash, as a 256-bit
  number, does not exceed the target. The check has no result when the root has none or when the
  size byte of the target is above 31: then four bytes are written behind the variable.
\<close>

theorem block_valid_iff:
  assumes "length (mb_powHash block) = 32"
  shows "LWMerkleBlockIsValid block now =
     (case LWMerkleBlockRoot block of None \<Rightarrow> None
      | Some root \<Rightarrow>
          let size = drop_bit 24 (mb_target block); m = mb_target block AND 0x00ffffff in
          if 31 < unat size then None
          else Some ((0 < mb_totalTx block \<longrightarrow> UInt256Eq root (mb_merkleRoot block)) \<and>
            mb_timestamp block \<le> now + 7200 \<and> m \<noteq> 0 \<and> m AND 0x00800000 = 0 \<and>
            (size < 30 \<or> size = 30 \<and> m \<le> 0x0fffff) \<and>
            val8 256 (rev (mb_powHash block)) \<le> target_value (mb_target block)))"
proof (cases "LWMerkleBlockRoot block")
  case (Some root)
  have range: "size \<le> 0x1e \<and> \<not> (size = 0x1e \<and> m > 0x0fffff) \<longleftrightarrow> size < 30 \<or> size = 30 \<and> m \<le> 0x0fffff" for size m :: u32
    by (auto simp: le_less)
  note tb = target_bytes_value [of "mb_target block"]
  show ?thesis
  proof (cases "target_bytes (mb_target block)")
    case None
    then show ?thesis using Some tb by (simp add: LWMerkleBlockIsValid_def Let_def)
  next
    case t: (Some t)
    then have "pow_loop (rev (mb_powHash block)) (rev t) \<longleftrightarrow>
        val8 256 (rev (mb_powHash block)) \<le> target_value (mb_target block)"
      using tb assms by (simp add: pow_loop_val)
    moreover have "\<not> 31 < unat (drop_bit 24 (mb_target block))" using tb t by simp
    ultimately show ?thesis
      using Some t range [of "drop_bit 24 (mb_target block)" "mb_target block AND 0x00ffffff"]
      by (simp add: LWMerkleBlockIsValid_def Let_def MAX_PROOF_OF_WORK_def BLOCK_MAX_TIME_DRIFT_def not_less) blast
  qed
qed (simp add: LWMerkleBlockIsValid_def)

subsection \<open>Round trip and what a malformed message does\<close>

text \<open>A block as a peer may send it: a header alone, or with its partial tree.\<close>

definition sendable_block :: "LWMerkleBlock \<Rightarrow> bool" where
  "sendable_block block \<longleftrightarrow> length (mb_prevBlock block) = 32 \<and> length (mb_merkleRoot block) = 32 \<and>
     (case (mb_hashes block, mb_flags block) of
        (Some hs, Some fl) \<Rightarrow> 0 < mb_totalTx block \<and> mb_hashesCount block = length hs \<and> mb_flagsLen block = length fl \<and>
          (\<forall>h \<in> set hs. length h = 32) \<and> length hs < 2 ^ 32 \<and> length fl < 2 ^ 32
      | (None, None) \<Rightarrow> mb_totalTx block = 0 \<and> mb_hashesCount block = 0 \<and> mb_flagsLen block = 0
      | _ \<Rightarrow> False)"

definition header_bytes :: "LWMerkleBlock \<Rightarrow> bytes" where
  "header_bytes block = UInt32SetLE (mb_version block) @ mb_prevBlock block @ mb_merkleRoot block @
     UInt32SetLE (mb_timestamp block) @ UInt32SetLE (mb_target block) @ UInt32SetLE (mb_nonce block)"

definition block_bytes :: "LWMerkleBlock \<Rightarrow> bytes" where
  "block_bytes block = header_bytes block @
     (if mb_totalTx block > 0 then UInt32SetLE (mb_totalTx block) @ varint (of_nat (mb_hashesCount block)) @
        concat (the (mb_hashes block)) @ varint (of_nat (mb_flagsLen block)) @ the (mb_flags block) else [])"

lemma length_concat32: "\<forall>h \<in> set hs. length h = 32 \<Longrightarrow> length (concat hs) = 32 * length hs"
  by (induction hs) auto

lemma hashes_of_concat: "\<forall>h \<in> set hs. length h = 32 \<Longrightarrow> hashes_of (length hs) (concat hs @ t) = hs"
proof (induction hs)
  case (Cons h hs)
  have "hashes_of (length (h # hs)) (concat (h # hs) @ t) =
      map (\<lambda>i. take 32 (drop (32 * i) (h @ concat hs @ t))) (0 # map Suc [0..<length hs])"
    unfolding hashes_of_def by (simp only: list.size concat.simps append.assoc map_Suc_upt upt_conv_Cons add_Suc_right add_0_right zero_less_Suc)
  also have "\<dots> = h # hashes_of (length hs) (concat hs @ t)"
    using Cons.prems by (simp add: hashes_of_def o_def)
  finally show ?case using Cons by simp
qed (simp add: hashes_of_def)

lemma varint_bound: "length (varint i) \<le> 9"
  using length_varint [of i] by auto

lemma put_opt_Some: "put_opt (Some bs) (length bs) = put bs"
  by (simp add: put_opt_def fun_eq_iff)

lemma serialize_writes:
  assumes "sendable_block block"
  shows "LWMerkleBlockSerialize block cb =
    (if fits (length (block_bytes block)) cb then Some (length (block_bytes block), overwrite 0 (block_bytes block) cb)
     else Some (0, cb))"
proof -
  have p: "length (mb_prevBlock block) = 32" "length (mb_merkleRoot block) = 32" using assms by (simp_all add: sendable_block_def)
  let ?hdr = "[put (UInt32SetLE (mb_version block)), put (UInt256Set (mb_prevBlock block)),
     put (UInt256Set (mb_merkleRoot block)), put (UInt32SetLE (mb_timestamp block)),
     put (UInt32SetLE (mb_target block)), put (UInt32SetLE (mb_nonce block))]"
  have "wstep (steps ?hdr) (UInt32SetLE (mb_version block) @ UInt256Set (mb_prevBlock block) @ UInt256Set (mb_merkleRoot block) @
     UInt32SetLE (mb_timestamp block) @ UInt32SetLE (mb_target block) @ UInt32SetLE (mb_nonce block) @ [])"
    by (intro wsteps)
  then have hdr: "wstep (steps ?hdr) (header_bytes block)" "length (header_bytes block) = 80"
    using p by (simp_all add: header_bytes_def UInt256Set_def)
  consider (header) "mb_totalTx block = 0" "block_bytes block = header_bytes block"
    | (tree) hs fl where "mb_hashes block = Some hs" "mb_flags block = Some fl" "0 < mb_totalTx block"
      "mb_hashesCount block = length hs" "mb_flagsLen block = length fl" "\<forall>h \<in> set hs. length h = 32"
      "length hs < 2 ^ 32" "length fl < 2 ^ 32"
    using assms by (auto simp: sendable_block_def block_bytes_def split: option.splits)
  then show ?thesis
  proof cases
    case header
    then show ?thesis using wstepD [OF hdr(1), of 0] hdr(2)
      by (auto simp: LWMerkleBlockSerialize_def Let_def fits_def overwrite_def simp del: steps_simps split: option.splits)
  next
    case tree
    let ?n = "UInt32SetLE (mb_totalTx block) @ varint (of_nat (length hs)) @ concat hs @ varint (of_nat (length fl)) @ fl"
    have c: "length (concat hs) = 32 * length hs" using tree(6) by (rule length_concat32)
    have bytes: "block_bytes block = header_bytes block @ ?n" using tree by (simp add: block_bytes_def)
    have "wstep (steps (?hdr @ [put (UInt32SetLE (mb_totalTx block)), call (LWVarIntSet (of_nat (length hs))),
        put (concat hs), call (LWVarIntSet (of_nat (length fl))), put fl]))
        (header_bytes block @ (UInt32SetLE (mb_totalTx block) @ varint (of_nat (length hs)) @ concat hs @
          varint (of_nat (length fl)) @ fl @ []))"
      by (intro wstep_steps_append hdr(1) wsteps LWVarIntSet_writes)
    then have "wstep (steps (?hdr @ [put (UInt32SetLE (mb_totalTx block)), call (LWVarIntSet (of_nat (length hs))),
        put (concat hs), call (LWVarIntSet (of_nat (length fl))), put fl])) (block_bytes block)" by (simp only: bytes append_Nil2)
    note st = wstepD [OF this, of 0, unfolded add_0]
    have sm: "size_mul (length hs) 32 = length (concat hs)" using tree(7) c by (simp add: size_mul_def)
    have len: "(84 + LWVarIntSize (of_nat (length hs)) + length (concat hs) + LWVarIntSize (of_nat (length fl)) + length fl) mod
        18446744073709551616
        = length (block_bytes block)"
    proof -
      have "length (varint (of_nat (length hs))) \<le> 9" "length (varint (of_nat (length fl))) \<le> 9" by (rule varint_bound)+
      then show ?thesis using tree(7,8) c hdr(2) by (simp add: bytes LWVarIntSize_varint)
    qed
    show ?thesis
      using st [of cb]
      by (cases cb) (auto simp: LWMerkleBlockSerialize_def Let_def tree(1-5) sm len put_opt_Some
          fits_def overwrite_def simp del: steps_simps steps_append)
  qed
qed


text \<open>
  A block that is sent serialises to its header followed by the number of transactions, the
  hashes and the flags; parsing those bytes gives every field back, the block hash is the double
  SHA-256 of the 80 header bytes, and the height is unknown. Bytes behind the message do not
  matter unless the message is a header alone.
\<close>

theorem merkle_block_roundtrip:
  assumes "sendable_block block" "mb_totalTx block = 0 \<longrightarrow> t = []" "length t < 2 ^ 32"
  shows "LWMerkleBlockSerialize block None = Some (length (block_bytes block), None) \<and>
    LWMerkleBlockSerialize block (Some (replicate (length (block_bytes block)) 0)) =
      Some (length (block_bytes block), Some (block_bytes block)) \<and>
    (\<exists>pow. LWScrypt 32 (header_bytes block) (header_bytes block) 1024 1 1 = Some pow \<and>
      LWMerkleBlockParse (block_bytes block @ t) = Some (block\<lparr>mb_blockHash := LWSHA256_2 (header_bytes block),
        mb_powHash := pow, mb_height := BLOCK_UNKNOWN_HEIGHT\<rparr>))"
proof -
  have p: "length (mb_prevBlock block) = 32" "length (mb_merkleRoot block) = 32" using assms by (simp_all add: sendable_block_def)
  then have h80: "length (header_bytes block) = 80" by (simp add: header_bytes_def)
  obtain pow where pow: "LWScrypt 32 (header_bytes block) (header_bytes block) 1024 1 1 = Some pow"
    by (simp add: LWScrypt_def)
  have hdr: "UInt32GetLE (header_bytes block @ r) = mb_version block" "UInt256Get (drop 4 (header_bytes block @ r)) = mb_prevBlock block"
    "UInt256Get (drop 36 (header_bytes block @ r)) = mb_merkleRoot block" "UInt32GetLE (drop 68 (header_bytes block @ r)) = mb_timestamp block"
    "UInt32GetLE (drop 72 (header_bytes block @ r)) = mb_target block" "UInt32GetLE (drop 76 (header_bytes block @ r)) = mb_nonce block" for r
    using p by (simp_all add: header_bytes_def UInt256Get_def)
  have "LWMerkleBlockParse (block_bytes block @ t) = Some (block\<lparr>mb_blockHash := LWSHA256_2 (header_bytes block),
        mb_powHash := pow, mb_height := BLOCK_UNKNOWN_HEIGHT\<rparr>)"
  proof (cases "mb_totalTx block = 0")
    case True
    moreover from this have "mb_hashes block = None" "mb_flags block = None" "mb_hashesCount block = 0" "mb_flagsLen block = 0"
      using assms(1) by (auto simp: sendable_block_def split: option.splits)
    ultimately show ?thesis using h80 pow hdr [of "[]"] assms(2)
      by (simp add: LWMerkleBlockParse_def block_bytes_def LWMerkleBlockNew_def)
  next
    case False
    then obtain hs fl where tree: "mb_hashes block = Some hs" "mb_flags block = Some fl"
      "mb_hashesCount block = length hs" "mb_flagsLen block = length fl" "\<forall>h \<in> set hs. length h = 32"
      "length hs < 2 ^ 32" "length fl < 2 ^ 32"
      using assms(1) by (auto simp: sendable_block_def split: option.splits)
    let ?vh = "varint (of_nat (length hs))" and ?vf = "varint (of_nat (length fl))"
    have v: "length ?vh \<le> 9" "length ?vf \<le> 9" by (rule varint_bound)+
    define buf where "buf = block_bytes block @ t"
    have buf: "buf = header_bytes block @ UInt32SetLE (mb_totalTx block) @ ?vh @ concat hs @ ?vf @ fl @ t"
      using False tree by (simp add: buf_def block_bytes_def word_neq_0_conv)
    have c: "length (concat hs) = 32 * length hs" using tree(5) by (rule length_concat32)
    have d: "drop 80 buf = UInt32SetLE (mb_totalTx block) @ ?vh @ concat hs @ ?vf @ fl @ t"
      "drop 84 buf = ?vh @ concat hs @ ?vf @ fl @ t"
      "drop (84 + length ?vh) buf = concat hs @ ?vf @ fl @ t"
      "drop (84 + length ?vh + 32 * length hs) buf = ?vf @ fl @ t"
      "drop (84 + length ?vh + 32 * length hs + length ?vf) buf = fl @ t"
      using c by (simp_all add: buf h80)
    have len: "length buf = 84 + length ?vh + 32 * length hs + length ?vf + length fl + length t"
      using c by (simp add: buf h80)
    have sz: "size_mul (length hs) 32 = 32 * length hs" "malloc_ok (32 * length hs)" "malloc_ok (length fl)"
      "size_add (84 + length ?vh) (32 * length hs) = 84 + length ?vh + 32 * length hs"
      "size_add (84 + length ?vh + 32 * length hs + length ?vf) (length fl) = 84 + length ?vh + 32 * length hs + length ?vf + length fl"
      using tree(6,7) v by (simp_all add: size_mul_def size_add_def malloc_ok_def)
    have b: "LWMerkleBlockParse buf = Some (LWMerkleBlockNew\<lparr>mb_version := mb_version block, mb_prevBlock := mb_prevBlock block,
       mb_merkleRoot := mb_merkleRoot block, mb_timestamp := mb_timestamp block, mb_target := mb_target block,
       mb_nonce := mb_nonce block, mb_totalTx := mb_totalTx block, mb_hashes := Some hs, mb_hashesCount := length hs,
       mb_flags := Some fl, mb_flagsLen := length fl, mb_blockHash := LWSHA256_2 (header_bytes block), mb_powHash := pow\<rparr>)"
      using hdr [of "UInt32SetLE (mb_totalTx block) @ ?vh @ concat hs @ ?vf @ fl @ t"] pow
      unfolding buf [symmetric] LWMerkleBlockParse_def
      by (simp add: d LWVarInt_varint unat_length [OF tree(6)] unat_length [OF tree(7)] sz hashes_of_concat tree(5) len Let_def)
        (simp add: buf h80)
    show ?thesis unfolding buf_def [symmetric] b using tree by (simp add: LWMerkleBlockNew_def)
  qed
  moreover have "LWMerkleBlockSerialize block None = Some (length (block_bytes block), None)"
    "LWMerkleBlockSerialize block (Some (replicate (length (block_bytes block)) 0)) =
      Some (length (block_bytes block), Some (block_bytes block))"
    by (simp_all add: serialize_writes [OF assms(1)] fits_def overwrite_def)
  ultimately show ?thesis using pow by blast
qed

lemma merkle_block_roundtrip_witness:
  "\<exists>pow. LWMerkleBlockParse (block_bytes (LWMerkleBlockNew\<lparr>mb_totalTx := 1, mb_hashes := Some [replicate 32 1], mb_hashesCount := 1,
      mb_flags := Some [1], mb_flagsLen := 1\<rparr>) @ [7]) = Some pow"
  using merkle_block_roundtrip [of "LWMerkleBlockNew\<lparr>mb_totalTx := 1, mb_hashes := Some [replicate 32 1], mb_hashesCount := 1,
      mb_flags := Some [1], mb_flagsLen := 1\<rparr>" "[7]"]
  by (auto simp: sendable_block_def LWMerkleBlockNew_def UINT256_ZERO_def)

lemma block_valid_iff_witness:
  "LWMerkleBlockIsValid (LWMerkleBlockNew\<lparr>mb_target := 0x20000001\<rparr>) 0 = None"
  using block_valid_iff [of "LWMerkleBlockNew\<lparr>mb_target := 0x20000001\<rparr>" 0]
  by (simp add: LWMerkleBlockNew_def UINT256_ZERO_def Let_def split: option.splits)

text \<open>
  Two messages that the parser accepts and whose validation has no result: one whose flags are
  announced but cut off, so that they are NULL and are read all the same, and one that claims
  \<open>2 ^ 31\<close> transactions, for which the depth of the tree is computed by shifting a negative number
  until it is zero.
\<close>

theorem malformed_blocks:
  assumes "length hdr = 80" "length h = 32"
    and "msg \<in> {hdr @ [1, 0, 0, 0, 1] @ h @ [1], hdr @ [0, 0, 0, 0x80, 1] @ h @ [1, 1]}"
  shows "\<exists>block. LWMerkleBlockParse msg = Some block \<and> LWMerkleBlockIsValid block now = None"
proof -
  obtain pow where pow: "LWScrypt 32 hdr hdr 1024 1 1 = Some pow" by (simp add: LWScrypt_def)
  have one: "LWVarInt (1 # r) = (1, 1)" for r by (simp add: LWVarInt_def)
  have tx: "UInt32GetLE (1 # 0 # 0 # 0 # r) = 1" "UInt32GetLE (0 # 0 # 0 # 0x80 # r) = 0x80000000" for r
    by (simp_all add: UInt32GetLE_def)
  have sz: "size_mul 1 32 = 32" "size_add 85 32 = 117" "size_add 118 1 = 119" "malloc_ok 32" "malloc_ok 1" "unat (1 :: u64) = 1"
    by (simp_all add: size_mul_def size_add_def malloc_ok_def)
  have parse: "\<exists>block. LWMerkleBlockParse (hdr @ n @ 1 # h @ 1 # fl) = Some block \<and> mb_totalTx block = UInt32GetLE (n @ 1 # h @ 1 # fl) \<and>
      mb_hashesCount block = 1 \<and> mb_flagsLen block = 1 \<and> mb_flags block = (if fl = [] then None else Some (take 1 fl))"
    if n: "length n = 4" for n fl
  proof -
    define buf where "buf = hdr @ n @ 1 # h @ 1 # fl"
    have d: "drop 80 buf = n @ 1 # h @ 1 # fl" "drop 84 buf = 1 # h @ 1 # fl" "drop 117 buf = 1 # fl" "drop 118 buf = fl"
      "take 80 buf = hdr" "length buf = 118 + length fl"
      using assms(1,2) n by (simp_all add: buf_def)
    show ?thesis unfolding buf_def [symmetric] LWMerkleBlockParse_def
      by (simp add: d one sz pow Let_def del: One_nat_def) (auto simp: LWMerkleBlockNew_def Suc_le_eq)
  qed
  consider "msg = hdr @ [1, 0, 0, 0] @ 1 # h @ [1]" | "msg = hdr @ [0, 0, 0, 0x80] @ 1 # h @ 1 # [1]" using assms(3) by auto
  then show ?thesis
  proof cases
    case 1
    obtain block where b: "LWMerkleBlockParse msg = Some block" and f: "mb_flags block = None" "mb_flagsLen block = 1"
      "mb_hashesCount block = 1" "mb_totalTx block = 1"
      using parse [of "[1, 0, 0, 0]" "[]"] by (auto simp: 1 tx)
    have "LWMerkleBlockRoot block = None"
      using f by (simp add: LWMerkleBlockRoot_def tree_height_def ceil_log2_def log2_loop.simps root_r.simps next_flag_def)
    then show ?thesis using b by (simp add: LWMerkleBlockIsValid_def)
  next
    case 2
    obtain block where b: "LWMerkleBlockParse msg = Some block" and f: "mb_flags block = Some [1]" "mb_flagsLen block = 1"
      "mb_hashesCount block = 1" "mb_totalTx block = 0x80000000"
      using parse [of "[0, 0, 0, 0x80]" "[1]"] by (auto simp: 2 tx)
    have "ceil_log2 0x80000000 = None" using ceil_log2_spec [of "0x80000000"] by simp
    then have "LWMerkleBlockRoot block = None"
      using f by (simp add: LWMerkleBlockRoot_def tree_height_def next_flag_def deref_def)
    then show ?thesis using b by (simp add: LWMerkleBlockIsValid_def)
  qed
qed

lemma malformed_blocks_witness:
  "\<exists>block. LWMerkleBlockParse (replicate 80 0 @ [1, 0, 0, 0, 1] @ replicate 32 0 @ [1]) = Some block \<and>
     LWMerkleBlockIsValid block 0 = None"
  by (rule malformed_blocks [of "replicate 80 0" "replicate 32 0"]) simp_all

end
