(* ===== verification/LW_ChainParams.thy ===== *)
theory LW_ChainParams
  imports LW_Merkle
begin

text \<open>
  Model of \<^verbatim>\<open>LWChainParams.h\<close>: the parameters of the two networks with their checkpoints, from
  which a chain download starts. The hashes are read from the hexadecimal strings of the source.
\<close>

record LWCheckPoint =
  cp_height :: u32
  cp_hash :: UInt256
  cp_timestamp :: u32
  cp_target :: u32

record LWChainParams =
  dnsSeeds :: "string list"
  standardPort :: u16
  magicNumber :: u32
  services :: u64
  verifyDifficulty :: "LWMerkleBlock \<Rightarrow> (UInt256 \<Rightarrow> LWMerkleBlock option) \<Rightarrow> bool"
  checkpoints :: "LWCheckPoint list"

definition checkpoint :: "u32 \<Rightarrow> string \<Rightarrow> u32 \<Rightarrow> u32 \<Rightarrow> LWCheckPoint" where
  "checkpoint height hash timestamp target =
     \<lparr>cp_height = height, cp_hash = uint256 (map of_char hash), cp_timestamp = timestamp, cp_target = target\<rparr>"

definition LWMainNetDNSSeeds :: "string list" where
  "LWMainNetDNSSeeds =
     [''dnsseed.litecoinpool.org.'', ''seed-a.litecoin.loshan.co.uk.'', ''dnsseed.thrasher.io.'',
      ''dnsseed.koin-project.com.'', ''dnsseed.litecointools.com.'']"

definition LWTestNetDNSSeeds :: "string list" where
  "LWTestNetDNSSeeds =
     [''testnet-seed.ltc.xurious.com.'', ''seed-b.litecoin.loshan.co.uk.'', ''dnsseed-testnet.thrasher.io.'']"

definition LWMainNetCheckpoints :: "LWCheckPoint list" where
  "LWMainNetCheckpoints =
     [checkpoint 0 ''12a765e31ffd4059bada1e25190f6e98c99d9714d334efa41a195a7e7e04bfe2'' 1317972665 0x1e0ffff0,
      checkpoint 20160 ''633036c8df655531c2449b2d09b264cc0b49d945a89be23fd3c1a97361ca198c'' 1319798300 0x1d055262,
      checkpoint 40320 ''d148cdd2cf44069cef4b63f0feaf30a8d291ca9ea9ba7e83f226b9738c1d5e9c'' 1322522019 0x1d018053,
      checkpoint 60480 ''3250f0a560d55f039c34bfaee1b71297aa5104ac6641778f9a87d73232d12c6c'' 1325540574 0x1d00e848,
      checkpoint 80640 ''bedc0a090b740b1902d870aeb6caa89040a24e7d670d46f8ef035fd9d2e9ce80'' 1328779944 0x1d00ab92,
      checkpoint 100800 ''7b0b620d15f781faaaa73b43607a49d5becb2b803ef19b4010014646cc177a61'' 1331873688 0x1d00ae9f,
      checkpoint 120960 ''dbd6249f30e5690890bc03dabcc0a526c46adcde572be06af4075b6ea28aa251'' 1334881566 0x1d009e48,
      checkpoint 141120 ''5d5e15a45cecf2b9528e36e63c407167423a2f9963a96bbce3b67b75fd10be2a'' 1338009318 0x1d00d6a6,
      checkpoint 161280 ''f595c754d0abcfe3616573bfabee01b230ec0ea6b2f2894c40214ea23d772b6c'' 1340918301 0x1d008881,
      checkpoint 181440 ''d7fa3152959f3c25e33edf825f7cbef75ee651d5f9183cc4ed8d19d57b8f35a4'' 1343534530 0x1c1cd430,
      checkpoint 201600 ''d481df8e8ce144fca9ae6b3157cc706e903c6ea161a13d2c421270354a02d6d0'' 1346567025 0x1c1c89e8,
      checkpoint 282240 ''8932095fba44bd6860fd71745c0dca908769221a47166ab1fb442b6cefcd53fb'' 1358801720 0x1c0ced21,
      checkpoint 342720 ''33f62e026a202be550e8a9df37d638d38991553544e279cb264123378bf46042'' 1367113967 0x1c0095a5,
      checkpoint 383040 ''5c0a443361c1356796a7db472c69433b6ce6108d61e4403fd9a9d91e01009ce3'' 1372971948 0x1b481262,
      checkpoint 443520 ''37d668803ed1efc24ffab4a2a90da9ac92679acf68370d7570f042c2bd6d651b'' 1382034998 0x1b3f864f,
      checkpoint 504000 ''97db0624d3d5137bc085f0d731607314972bb4124b85b73420ef9aa5fc10d640'' 1390892377 0x1b1aa868,
      checkpoint 564480 ''c876276bf12754c2b265787d9e7ab83d429e59761dc63057f728529018db7834'' 1399724592 0x1b099dce,
      checkpoint 624960 ''ccac71fafe98107b81ac3e0eed41190e4d47600962c93c49db8843b53f760bda'' 1408389228 0x1b02552d,
      checkpoint 685440 ''29d2328990dda4c4870846d4e3d573785452bed68e6013930a83fc8d5fe89b09'' 1417289378 0x1b01473b,
      checkpoint 745920 ''04809a35ff6e5054e21d14582072605b812b7d4ae11d3450e7c03a7237e1d35d'' 1426441593 0x1b019b8c,
      checkpoint 806400 ''e2363e8b3e8f237b9b1bfc1c72ede80fef2c7bd1aabcd78afed82065a194b960'' 1435516150 0x1b019268,
      checkpoint 846720 ''6f5d94d7cfd01f1dbf4aa631b987f8e2ec9d0c57720604787b816bafe34192a8'' 1441561050 0x1b0187a3,
      checkpoint 901152 ''cfccdf8e3830ae4879e910051ac3dc583b4fb45b83be3a38019e5d9326dfa223'' 1449698771 0x1b015b0e,
      checkpoint 953568 ''e46e01cf1239cffa69408ac162d517bac5a4899972e0328fd0ba4d93e8ad3764'' 1457542869 0x1b013c91,
      checkpoint 1058400 ''76ce37c66d449a4ffbfc35674cf932da701066a001dc223754f9250dd2bdbc62'' 1473296285 0x1b013ca7,
      checkpoint 1260000 ''85a22b528d805bf7a641d1d7c6d96ef5054beda3dcab6be7b83f2e3df24b33a8'' 1502976600 0x1a25a0d3,
      checkpoint 1411200 ''92c85b76f3d4bffca76b23717e4eb1b667c77c96fd52d4dd5dd843bbee64cd73'' 1524838967 0x1a0203a7,
      checkpoint 2036160 ''97ab7a0bf3cd7d694c1b369090aea9449e93f92763808de2a073cc8ab0657292'' 1618643881 0x1a01ab48]"

definition LWTestNetCheckpoints :: "LWCheckPoint list" where
  "LWTestNetCheckpoints =
     [checkpoint 0 ''4966625a4b2851d9fdee139e56211a0d88575f59ed816ff5e6a63deb4e3e29a0'' 1486949366 0x1e0ffff0,
      checkpoint 2282112 ''b64455a7630d72d982d7e00966e04e3c148a482d2f2b52e20bd7acc3aadbcd69'' 1649496420 0x1e03ffff]"

text \<open>Both checks are switched off in the source.\<close>

definition LWMainNetVerifyDifficulty :: "LWMerkleBlock \<Rightarrow> (UInt256 \<Rightarrow> LWMerkleBlock option) \<Rightarrow> bool" where
  "LWMainNetVerifyDifficulty block blockSet = True"

definition LWTestNetVerifyDifficulty :: "LWMerkleBlock \<Rightarrow> (UInt256 \<Rightarrow> LWMerkleBlock option) \<Rightarrow> bool" where
  "LWTestNetVerifyDifficulty block blockSet = True"

definition LWMainNetParams :: LWChainParams where
  "LWMainNetParams = \<lparr>dnsSeeds = LWMainNetDNSSeeds, standardPort = 9333, magicNumber = 0xdbb6c0fb, services = 0,
     verifyDifficulty = LWMainNetVerifyDifficulty, checkpoints = LWMainNetCheckpoints\<rparr>"

definition LWTestNetParams :: LWChainParams where
  "LWTestNetParams = \<lparr>dnsSeeds = LWTestNetDNSSeeds, standardPort = 19335, magicNumber = 0xf1c8d2fd, services = 0,
     verifyDifficulty = LWTestNetVerifyDifficulty, checkpoints = LWTestNetCheckpoints\<rparr>"

text \<open>
  The checkpoints of both networks are in strictly ascending order of height, from the genesis
  block on, and each lies on a boundary between difficulty adjustments, as starting a chain
  download from one of them requires.
\<close>

theorem checkpoints_on_boundaries:
  "list_all (\<lambda>params. sorted_wrt (<) (map cp_height (checkpoints params)) \<and> cp_height (hd (checkpoints params)) = 0 \<and>
     list_all (\<lambda>c. cp_height c mod BLOCK_DIFFICULTY_INTERVAL = 0) (checkpoints params))
   [LWMainNetParams, LWTestNetParams]"
  by (simp add: LWMainNetParams_def LWTestNetParams_def LWMainNetCheckpoints_def LWTestNetCheckpoints_def
      checkpoint_def BLOCK_DIFFICULTY_INTERVAL_def)

end
