(* ===== verification/LW_Peer.thy ===== *)
theory LW_Peer
  imports Complex_Main LW_Merkle LW_Wallet
begin

text \<open>
  Model of \<^verbatim>\<open>LWPeer.c\<close>: the connection to one node of the network. The context of a peer holds the state of
  the handshake and of the requests made. Every operation appends what it does to the outside to
  \<open>ctx_events\<close>: messages put on the socket and calls of the callbacks, which are all set. The callbacks run
  in the peer manager; none of the code behind a callback reads what the callback can change. Times in
  \<^verbatim>\<open>double\<close> are exact numbers of seconds, and \<open>None\<close> for \<^verbatim>\<open>DBL_MAX\<close>. A read outside a message is \<open>None\<close>.
\<close>

subsection \<open>The state of a peer\<close>

datatype LWPeerStatus = PeerDisconnected | PeerConnecting | PeerConnected

record LWPeer =
  peer_address :: bytes
  peer_port :: u16
  peer_services :: u64
  peer_timestamp :: u64
  peer_flags :: u8

datatype errno = ECONNRESET | ETIMEDOUT | EPROTO | ENOTCONN | EINVAL | ENETUNREACH | Errno int

datatype 'k peer_event =
  Sent string bytes
| Connected
| Disconnected "errno option"
| RelayedPeers "LWPeer list"
| RelayedTx LWTransaction
| HasTx UInt256
| RejectedTx UInt256 u8
| RelayedBlock LWMerkleBlock
| Notfound "UInt256 list" "UInt256 list"
| SetFeePerKb u64
| RequestedTx UInt256
| Completed 'k bool

text \<open>
  \<open>ctx_pongs\<close> are the two arrays of the callbacks for pongs and their arguments, which are changed together;
  a callback and its argument are a value of type \<open>'k\<close>. \<open>ctx_socket\<close> says that the socket is open.
\<close>

record 'k LWPeerContext = LWPeer +
  ctx_magicNumber :: u32
  ctx_status :: LWPeerStatus
  ctx_waitingForNetwork :: bool
  ctx_needsFilterUpdate :: bool
  ctx_nonce :: u64
  ctx_feePerKb :: u64
  ctx_useragent :: bytes
  ctx_version :: u32
  ctx_lastblock :: u32
  ctx_earliestKeyTime :: u32
  ctx_currentBlockHeight :: u32
  ctx_startTime :: rat
  ctx_pingTime :: "rat option"
  ctx_disconnectTime :: "rat option"
  ctx_mempoolTime :: "rat option"
  ctx_sentVerack :: bool
  ctx_gotVerack :: bool
  ctx_sentGetaddr :: bool
  ctx_sentFilter :: bool
  ctx_sentGetdata :: bool
  ctx_sentMempool :: bool
  ctx_sentGetblocks :: bool
  ctx_lastBlockHash :: UInt256
  ctx_currentBlock :: "LWMerkleBlock option"
  ctx_currentBlockTxHashes :: "UInt256 list"
  ctx_knownBlockHashes :: "UInt256 list"
  ctx_knownTxHashes :: "UInt256 list"
  ctx_knownTxHashSet :: "UInt256 set"
  ctx_socket :: bool
  ctx_pongs :: "'k option list"
  ctx_mempoolCallback :: "'k option"
  ctx_events :: "'k peer_event list"

text \<open>
  What an operation takes from outside: the time in seconds and by the clock, whether growing an array of
  that length moves it, whether a message gets out on the socket before an error or the disconnect time,
  the nonce drawn for the handshake, whether the network is reachable and a thread can be created, and
  the network for addresses.
\<close>

record peer_env =
  pe_time :: int
  pe_clock :: rat
  pe_moved :: "nat \<Rightarrow> bool"
  pe_send :: "bytes \<Rightarrow> bool"
  pe_nonce :: u64
  pe_reachable :: bool
  pe_thread :: bool
  pe_testnet :: bool

definition HEADER_LENGTH :: nat where "HEADER_LENGTH = 24"
definition MAX_MSG_LENGTH :: nat where "MAX_MSG_LENGTH = 0x02000000"
definition MAX_GETDATA_HASHES :: nat where "MAX_GETDATA_HASHES = 50000"
definition ENABLED_SERVICES :: u64 where "ENABLED_SERVICES = 0"
definition PROTOCOL_VERSION :: u32 where "PROTOCOL_VERSION = 70015"
definition MIN_PROTO_VERSION :: u32 where "MIN_PROTO_VERSION = 70002"
definition LOCAL_HOST :: bytes where "LOCAL_HOST = [0, 0, 0, 0, 0, 0, 0, 0, 0, 0, 0xff, 0xff, 0x7f, 0x00, 0x00, 0x01]"
definition CONNECT_TIMEOUT :: rat where "CONNECT_TIMEOUT = 3"
definition MESSAGE_TIMEOUT :: rat where "MESSAGE_TIMEOUT = 10"
definition SERVICES_NODE_NETWORK :: u64 where "SERVICES_NODE_NETWORK = 0x01"
definition SERVICES_NODE_BLOOM :: u64 where "SERVICES_NODE_BLOOM = 0x04"
definition USER_AGENT :: string where "USER_AGENT = ''/litewallet:0.1/''"
definition inv_tx :: u32 where "inv_tx = 1"
definition inv_block :: u32 where "inv_block = 2"
definition inv_filtered_block :: u32 where "inv_filtered_block = 3"

definition emit :: "'k peer_event \<Rightarrow> 'k LWPeerContext \<Rightarrow> 'k LWPeerContext" where
  "emit e ctx = ctx\<lparr>ctx_events := ctx_events ctx @ [e]\<rparr>"

definition LWPeerNew :: "u32 \<Rightarrow> 'k LWPeerContext" where
  "LWPeerNew magicNumber =
     \<lparr>peer_address = replicate 16 0, peer_port = 0, peer_services = 0, peer_timestamp = 0, peer_flags = 0,
      ctx_magicNumber = magicNumber, ctx_status = PeerDisconnected, ctx_waitingForNetwork = False,
      ctx_needsFilterUpdate = False, ctx_nonce = 0, ctx_feePerKb = 0, ctx_useragent = [], ctx_version = 0,
      ctx_lastblock = 0, ctx_earliestKeyTime = 0, ctx_currentBlockHeight = 0, ctx_startTime = 0,
      ctx_pingTime = None, ctx_disconnectTime = None, ctx_mempoolTime = None, ctx_sentVerack = False,
      ctx_gotVerack = False, ctx_sentGetaddr = False, ctx_sentFilter = False, ctx_sentGetdata = False,
      ctx_sentMempool = False, ctx_sentGetblocks = False, ctx_lastBlockHash = UINT256_ZERO,
      ctx_currentBlock = None, ctx_currentBlockTxHashes = [], ctx_knownBlockHashes = [], ctx_knownTxHashes = [],
      ctx_knownTxHashSet = {}, ctx_socket = False, ctx_pongs = [], ctx_mempoolCallback = None, ctx_events = []\<rparr>"

definition LWPeerIsIPv4 :: "bytes \<Rightarrow> bool" where
  "LWPeerIsIPv4 address \<longleftrightarrow> union_u64 address 0 = 0 \<and> UInt16GetLE (drop 8 address) = 0 \<and> UInt16GetLE (drop 10 address) = 0xffff"

text \<open>
  When the array is moved, the set of pointers into it is cleared and filled again.
\<close>

definition add_known :: "peer_env \<Rightarrow> UInt256 \<Rightarrow> 'k LWPeerContext \<Rightarrow> 'k LWPeerContext" where
  "add_known env h ctx =
     (if h \<in> ctx_knownTxHashSet ctx then ctx
      else
        (let known = ctx_knownTxHashes ctx @ [h] in
         ctx\<lparr>ctx_knownTxHashes := known,
             ctx_knownTxHashSet := (if pe_moved env (length known) then set known else insert h (ctx_knownTxHashSet ctx))\<rparr>))"

definition LWPeerAddKnownTxHashes :: "peer_env \<Rightarrow> UInt256 list \<Rightarrow> 'k LWPeerContext \<Rightarrow> 'k LWPeerContext" where
  "LWPeerAddKnownTxHashes env txHashes ctx = fold (add_known env) txHashes ctx"

subsection \<open>Sending\<close>

definition LWPeerDisconnect :: "'k LWPeerContext \<Rightarrow> 'k LWPeerContext" where
  "LWPeerDisconnect ctx = ctx\<lparr>ctx_socket := False\<rparr>"

definition LWPeerScheduleDisconnect :: "peer_env \<Rightarrow> rat \<Rightarrow> 'k LWPeerContext \<Rightarrow> 'k LWPeerContext" where
  "LWPeerScheduleDisconnect env seconds ctx =
     ctx\<lparr>ctx_disconnectTime := (if seconds < 0 then None else Some (pe_clock env + seconds))\<rparr>"

text \<open>The bytes of a message on the wire; the type is cut or padded to twelve bytes.\<close>

definition msg_type :: "string \<Rightarrow> bytes" where
  "msg_type type = take 12 (map of_char type @ replicate 12 0)"

definition frame :: "u32 \<Rightarrow> string \<Rightarrow> bytes \<Rightarrow> bytes" where
  "frame magicNumber type msg =
     UInt32SetLE magicNumber @ msg_type type @ UInt32SetLE (of_nat (length msg)) @ take 4 (LWSHA256_2 msg) @ msg"

definition LWPeerSendMessage :: "peer_env \<Rightarrow> bytes \<Rightarrow> string \<Rightarrow> 'k LWPeerContext \<Rightarrow> 'k LWPeerContext" where
  "LWPeerSendMessage env msg type ctx =
     (if length msg > MAX_MSG_LENGTH then ctx
      else if \<not> ctx_socket ctx then LWPeerDisconnect ctx
      else if pe_send env (frame (ctx_magicNumber ctx) type msg) then emit (Sent type msg) ctx
      else LWPeerDisconnect ctx)"

definition varint_bytes :: "nat \<Rightarrow> bytes" where
  "varint_bytes n = produced (LWVarIntSet (of_nat n))"

definition LWPeerSendVersionMessage :: "peer_env \<Rightarrow> 'k LWPeerContext \<Rightarrow> 'k LWPeerContext" where
  "LWPeerSendVersionMessage env ctx =
     (let ctx = ctx\<lparr>ctx_nonce := pe_nonce env\<rparr>;
          msg = UInt32SetLE PROTOCOL_VERSION @ UInt64SetLE ENABLED_SERVICES @ UInt64SetLE (of_int (pe_time env)) @
            UInt64SetLE (peer_services ctx) @ UInt128Set (peer_address ctx) @ UInt16SetBE (peer_port ctx) @
            UInt64SetLE ENABLED_SERVICES @ UInt128Set LOCAL_HOST @ UInt16SetBE (peer_port ctx) @
            UInt64SetLE (ctx_nonce ctx) @ varint_bytes (length USER_AGENT) @ map of_char USER_AGENT @
            UInt32SetLE 0 @ [0]
      in LWPeerSendMessage env msg ''version'' ctx)"

definition LWPeerSendVerackMessage :: "peer_env \<Rightarrow> 'k LWPeerContext \<Rightarrow> 'k LWPeerContext" where
  "LWPeerSendVerackMessage env ctx = (LWPeerSendMessage env [] ''verack'' ctx)\<lparr>ctx_sentVerack := True\<rparr>"

definition LWPeerSendAddr :: "peer_env \<Rightarrow> 'k LWPeerContext \<Rightarrow> 'k LWPeerContext" where
  "LWPeerSendAddr env ctx = LWPeerSendMessage env (varint_bytes 0) ''addr'' ctx"

definition LWPeerSendFilterload :: "peer_env \<Rightarrow> bytes \<Rightarrow> 'k LWPeerContext \<Rightarrow> 'k LWPeerContext" where
  "LWPeerSendFilterload env data ctx =
     LWPeerSendMessage env data ''filterload'' (ctx\<lparr>ctx_sentFilter := True, ctx_sentMempool := False\<rparr>)"

definition LWPeerSendMempool :: "peer_env \<Rightarrow> UInt256 list \<Rightarrow> 'k option \<Rightarrow> 'k LWPeerContext \<Rightarrow> 'k LWPeerContext" where
  "LWPeerSendMempool env knownTxHashes completion ctx =
     (let sentMempool = ctx_sentMempool ctx; ctx = ctx\<lparr>ctx_sentMempool := True\<rparr> in
      if \<not> sentMempool \<and> ctx_mempoolCallback ctx = None then
        (let ctx = LWPeerAddKnownTxHashes env knownTxHashes ctx;
             ctx = (if completion \<noteq> None
                    then ctx\<lparr>ctx_mempoolTime := Some (pe_clock env + 10), ctx_mempoolCallback := completion\<rparr> else ctx)
         in LWPeerSendMessage env [] ''mempool'' ctx)
      else case completion of None \<Rightarrow> ctx | Some k \<Rightarrow> emit (Completed k False) ctx)"

definition locator_message :: "UInt256 list \<Rightarrow> UInt256 \<Rightarrow> bytes" where
  "locator_message locators hashStop =
     UInt32SetLE PROTOCOL_VERSION @ varint_bytes (length locators) @ concat (map UInt256Set locators) @ UInt256Set hashStop"

definition LWPeerSendGetheaders :: "peer_env \<Rightarrow> UInt256 list \<Rightarrow> UInt256 \<Rightarrow> 'k LWPeerContext \<Rightarrow> 'k LWPeerContext" where
  "LWPeerSendGetheaders env locators hashStop ctx =
     (if length locators > 0 then LWPeerSendMessage env (locator_message locators hashStop) ''getheaders'' ctx else ctx)"

definition LWPeerSendGetblocks :: "peer_env \<Rightarrow> UInt256 list \<Rightarrow> UInt256 \<Rightarrow> 'k LWPeerContext \<Rightarrow> 'k LWPeerContext" where
  "LWPeerSendGetblocks env locators hashStop ctx =
     (if length locators > 0 then LWPeerSendMessage env (locator_message locators hashStop) ''getblocks'' ctx else ctx)"

definition inv_items :: "u32 \<Rightarrow> UInt256 list \<Rightarrow> bytes" where
  "inv_items type hashes = concat (map (\<lambda>h. UInt32SetLE type @ UInt256Set h) hashes)"

definition LWPeerSendInv :: "peer_env \<Rightarrow> UInt256 list \<Rightarrow> 'k LWPeerContext \<Rightarrow> 'k LWPeerContext" where
  "LWPeerSendInv env txHashes ctx =
     (let knownCount = length (ctx_knownTxHashes ctx);
          ctx = LWPeerAddKnownTxHashes env txHashes ctx;
          txCount = length (ctx_knownTxHashes ctx) - knownCount
      in if txCount > 0
         then LWPeerSendMessage env (varint_bytes txCount @ inv_items inv_tx (drop knownCount (ctx_knownTxHashes ctx))) ''inv'' ctx
         else ctx)"

definition LWPeerSendGetdata :: "peer_env \<Rightarrow> UInt256 list \<Rightarrow> UInt256 list \<Rightarrow> 'k LWPeerContext \<Rightarrow> 'k LWPeerContext" where
  "LWPeerSendGetdata env txHashes blockHashes ctx =
     (let count = length txHashes + length blockHashes in
      if count > MAX_GETDATA_HASHES then ctx
      else if count > 0 then
        LWPeerSendMessage env (varint_bytes count @ inv_items inv_tx txHashes @ inv_items inv_filtered_block blockHashes)
          ''getdata'' (ctx\<lparr>ctx_sentGetdata := True\<rparr>)
      else ctx)"

definition LWPeerSendGetaddr :: "peer_env \<Rightarrow> 'k LWPeerContext \<Rightarrow> 'k LWPeerContext" where
  "LWPeerSendGetaddr env ctx = LWPeerSendMessage env [] ''getaddr'' (ctx\<lparr>ctx_sentGetaddr := True\<rparr>)"

definition LWPeerSendPing :: "peer_env \<Rightarrow> 'k option \<Rightarrow> 'k LWPeerContext \<Rightarrow> 'k LWPeerContext" where
  "LWPeerSendPing env pongCallback ctx =
     (let ctx = ctx\<lparr>ctx_startTime := pe_clock env, ctx_pongs := ctx_pongs ctx @ [pongCallback]\<rparr>
      in LWPeerSendMessage env (UInt64SetLE (ctx_nonce ctx)) ''ping'' ctx)"

text \<open>The blocks known from the last occurrence of \<open>fromBlock\<close> on are requested again.\<close>

definition LWPeerRerequestBlocks :: "peer_env \<Rightarrow> UInt256 \<Rightarrow> 'k LWPeerContext \<Rightarrow> 'k LWPeerContext" where
  "LWPeerRerequestBlocks env fromBlock ctx =
     (case find (\<lambda>i. UInt256Eq (ctx_knownBlockHashes ctx ! i) fromBlock) (rev [0..<length (ctx_knownBlockHashes ctx)]) of
        None \<Rightarrow> ctx
      | Some i \<Rightarrow>
          (let ctx = ctx\<lparr>ctx_knownBlockHashes := drop i (ctx_knownBlockHashes ctx)\<rparr>
           in LWPeerSendGetdata env [] (ctx_knownBlockHashes ctx) ctx))"

definition LWPeerSetEarliestKeyTime :: "u32 \<Rightarrow> 'k LWPeerContext \<Rightarrow> 'k LWPeerContext" where
  "LWPeerSetEarliestKeyTime t ctx = ctx\<lparr>ctx_earliestKeyTime := t\<rparr>"

definition LWPeerSetCurrentBlockHeight :: "u32 \<Rightarrow> 'k LWPeerContext \<Rightarrow> 'k LWPeerContext" where
  "LWPeerSetCurrentBlockHeight h ctx = ctx\<lparr>ctx_currentBlockHeight := h\<rparr>"

definition LWPeerSetNeedsFilterUpdate :: "bool \<Rightarrow> 'k LWPeerContext \<Rightarrow> 'k LWPeerContext" where
  "LWPeerSetNeedsFilterUpdate b ctx = ctx\<lparr>ctx_needsFilterUpdate := b\<rparr>"

text \<open>
  Opening the connection, up to the start of its thread, of which it is told whether it was started.
\<close>

definition LWPeerConnect :: "peer_env \<Rightarrow> 'k LWPeerContext \<Rightarrow> bool \<times> 'k LWPeerContext" where
  "LWPeerConnect env ctx =
     (if ctx_status ctx = PeerDisconnected \<or> ctx_waitingForNetwork ctx then
        (let ctx = ctx\<lparr>ctx_status := PeerConnecting\<rparr> in
         if \<not> pe_reachable env then (False, ctx\<lparr>ctx_waitingForNetwork := True\<rparr>)
         else
           (let ctx = ctx\<lparr>ctx_waitingForNetwork := False, ctx_disconnectTime := Some (pe_clock env + CONNECT_TIMEOUT)\<rparr> in
            if pe_thread env then (True, ctx) else (False, ctx\<lparr>ctx_status := PeerDisconnected\<rparr>)))
      else (False, ctx))"


subsection \<open>Reading messages\<close>

text \<open>The \<open>n\<close> bytes at an offset, which must be inside the message.\<close>

definition bytes_at :: "bytes \<Rightarrow> nat \<Rightarrow> nat \<Rightarrow> bytes option" where
  "bytes_at msg i n = (if i + n \<le> length msg then Some (take n (drop i msg)) else None)"

text \<open>At most \<open>n\<close> characters of a string: reading stops at a NUL.\<close>

definition chars_at :: "bytes \<Rightarrow> nat \<Rightarrow> nat \<Rightarrow> bytes option" where
  "chars_at msg i n =
     (let s = take n (drop i msg) in
      if i \<le> length msg \<and> (length s = n \<or> 0 \<in> set s) then Some (takeWhile (\<lambda>b. b \<noteq> 0) s) else None)"

text \<open>A handler returns whether the message is accepted; the connection ends when it is not.\<close>

type_synonym 'k handler = "bytes \<Rightarrow> 'k LWPeerContext \<Rightarrow> (bool \<times> 'k LWPeerContext) option"

definition LWPeerDidConnect :: "'k LWPeerContext \<Rightarrow> 'k LWPeerContext" where
  "LWPeerDidConnect ctx =
     (if ctx_status ctx = PeerConnecting \<and> ctx_sentVerack ctx \<and> ctx_gotVerack ctx
      then emit Connected (ctx\<lparr>ctx_disconnectTime := None, ctx_status := PeerConnected\<rparr>) else ctx)"

definition LWPeerAcceptVersionMessage :: "peer_env \<Rightarrow> 'k handler" where
  "LWPeerAcceptVersionMessage env msg ctx =
     (if 85 > length msg then Some (False, ctx)
      else
        (let ctx = ctx\<lparr>ctx_version := UInt32GetLE msg, peer_services := UInt64GetLE (drop 4 msg),
               peer_timestamp := UInt64GetLE (drop 12 msg)\<rparr>;
             off = 80; (strLen, len) = LWVarInt (drop off msg); strLen = unat strLen; off = off + len in
         if size_add (size_add off strLen) 4 > length msg then Some (False, ctx)
         else if ctx_version ctx < MIN_PROTO_VERSION then Some (False, ctx)
         else do {
           agent \<leftarrow> bytes_at msg off strLen;
           let ctx = ctx\<lparr>ctx_useragent := agent @ [0]\<rparr>; off = off + strLen in do {
           lastblock \<leftarrow> bytes_at msg off 4;
           Some (True, LWPeerSendVerackMessage env (ctx\<lparr>ctx_lastblock := UInt32GetLE lastblock\<rparr>)) } }))"

definition LWPeerAcceptVerackMessage :: "peer_env \<Rightarrow> 'k handler" where
  "LWPeerAcceptVerackMessage env msg ctx =
     Some (True,
       if ctx_gotVerack ctx then ctx
       else LWPeerDidConnect (ctx\<lparr>ctx_pingTime := Some (pe_clock env - ctx_startTime ctx), ctx_startTime := 0,
              ctx_gotVerack := True\<rparr>))"

text \<open>One address of an \<^verbatim>\<open>addr\<close> message, when it is of use.\<close>

definition parse_addr :: "int \<Rightarrow> bytes \<Rightarrow> LWPeer option" where
  "parse_addr now item =
     (let timestamp = ucast (UInt32GetLE item) :: u64;
          p = \<lparr>peer_address = UInt128Get (drop 12 item), peer_port = UInt16GetBE (drop 28 item),
               peer_services = UInt64GetLE (drop 4 item), peer_timestamp = timestamp, peer_flags = 0\<rparr> in
      if peer_services p AND SERVICES_NODE_NETWORK = 0 then None
      else if \<not> LWPeerIsIPv4 (peer_address p) then None
      else
        (let timestamp = (if timestamp > of_int (now + 10 * 60) \<or> timestamp = 0 then of_int (now - 5 * 24 * 60 * 60) else timestamp)
         in Some (p\<lparr>peer_timestamp := timestamp - 2 * 60 * 60\<rparr>)))"

definition LWPeerAcceptAddrMessage :: "peer_env \<Rightarrow> 'k handler" where
  "LWPeerAcceptAddrMessage env msg ctx =
     (let (count, off) = LWVarInt msg; count = unat count in
      if size_add off (size_mul count 30) > length msg then Some (False, ctx)
      else if count > 1000 then Some (True, ctx)
      else if ctx_sentGetaddr ctx then
        (let peers = List.map_filter (\<lambda>i. parse_addr (pe_time env) (take 30 (drop (off + 30 * i) msg))) [0..<count]
         in Some (True, if length peers > 0 then emit (RelayedPeers peers) ctx else ctx))
      else Some (True, ctx))"

text \<open>The types and hashes of the items of a message, which are inside it.\<close>

definition message_items :: "bytes \<Rightarrow> nat \<Rightarrow> nat \<Rightarrow> (u32 \<times> UInt256) list" where
  "message_items msg off n =
     map (\<lambda>i. (UInt32GetLE (drop (off + 36 * i) msg), UInt256Get (drop (off + 36 * i + 4) msg))) [0..<n]"

definition items_of :: "u32 \<Rightarrow> (u32 \<times> UInt256) list \<Rightarrow> UInt256 list" where
  "items_of type items = map snd (filter (\<lambda>it. fst it = type) items)"

function trim_known :: "UInt256 list \<Rightarrow> UInt256 list" where
  "trim_known hashes =
     (if length hashes > MAX_GETDATA_HASHES then trim_known (drop (length hashes div 3) hashes) else hashes)"
  by auto
termination by (relation "measure length") (auto simp: MAX_GETDATA_HASHES_def)

declare trim_known.simps [simp del]

text \<open>What is done for the hashes of an accepted \<^verbatim>\<open>inv\<close> message.\<close>

definition new_blocks :: "UInt256 list \<Rightarrow> 'k LWPeerContext \<Rightarrow> UInt256 list" where
  "new_blocks blocks ctx =
     (let blocks = (if \<not> ctx_sentFilter ctx \<and> \<not> ctx_sentGetblocks ctx then [] else blocks)
      in if length blocks = 1 \<and> UInt256Eq (ctx_lastBlockHash ctx) (blocks ! 0) then [] else blocks)"

definition inv_blocks :: "UInt256 list \<Rightarrow> 'k LWPeerContext \<Rightarrow> 'k LWPeerContext" where
  "inv_blocks blocks ctx =
     (let ctx = (if length blocks = 1 then ctx\<lparr>ctx_lastBlockHash := blocks ! 0\<rparr> else ctx)
      in ctx\<lparr>ctx_knownBlockHashes := trim_known (ctx_knownBlockHashes ctx @ blocks)\<rparr>)"

definition inv_requests :: "peer_env \<Rightarrow> UInt256 list \<Rightarrow> UInt256 list \<Rightarrow> 'k LWPeerContext \<Rightarrow> 'k LWPeerContext" where
  "inv_requests env transactions blocks ctx =
     (let known = filter (\<lambda>h. h \<in> ctx_knownTxHashSet ctx) transactions;
          txHashes = filter (\<lambda>h. h \<notin> ctx_knownTxHashSet ctx) transactions;
          ctx = fold (\<lambda>h. emit (HasTx h)) known ctx;
          ctx = LWPeerAddKnownTxHashes env txHashes ctx;
          ctx = (if length txHashes > 0 \<or> length blocks > 0 then LWPeerSendGetdata env txHashes blocks ctx else ctx)
      in if length blocks \<ge> 500 then LWPeerSendGetblocks env [last blocks, hd blocks] UINT256_ZERO ctx else ctx)"

definition mempool_response :: "peer_env \<Rightarrow> 'k LWPeerContext \<Rightarrow> 'k LWPeerContext" where
  "mempool_response env ctx =
     (if ctx_mempoolCallback ctx \<noteq> None
      then (LWPeerSendPing env (ctx_mempoolCallback ctx) ctx)\<lparr>ctx_mempoolCallback := None, ctx_mempoolTime := None\<rparr>
      else ctx)"

definition LWPeerAcceptInvMessage :: "peer_env \<Rightarrow> 'k handler" where
  "LWPeerAcceptInvMessage env msg ctx =
     (let (count, off) = LWVarInt msg; count = unat count in
      if size_add off (size_mul count 36) > length msg then Some (False, ctx)
      else if count > MAX_GETDATA_HASHES then Some (True, ctx)
      else
        (let items = message_items msg off count; transactions = items_of inv_tx items; blocks = items_of inv_block items in
         if length transactions > 0 \<and> \<not> ctx_sentFilter ctx \<and> \<not> ctx_sentMempool ctx \<and> \<not> ctx_sentGetblocks ctx
         then Some (False, ctx)
         else if length transactions > 10000 then Some (False, ctx)
         else if ctx_currentBlockHeight ctx > 0 \<and> length blocks > 2 \<and> length blocks < 500 \<and>
                 unat (ctx_currentBlockHeight ctx) + length (ctx_knownBlockHashes ctx) + length blocks < unat (ctx_lastblock ctx)
         then Some (False, ctx)
         else
           (let blocks = new_blocks blocks ctx; ctx = inv_blocks blocks ctx;
                blocks = (if ctx_needsFilterUpdate ctx then [] else blocks);
                ctx = inv_requests env transactions blocks ctx
            in Some (True, if length transactions > 0 then mempool_response env ctx else ctx))))"

text \<open>One of the transactions awaited for a block has come; with the last of them the block is complete.\<close>

definition tx_arrived :: "UInt256 \<Rightarrow> 'k LWPeerContext \<Rightarrow> 'k LWPeerContext" where
  "tx_arrived txHash ctx =
     (case ctx_currentBlock ctx of None \<Rightarrow> ctx
      | Some block \<Rightarrow>
          (let hashes = ctx_currentBlockTxHashes ctx;
               hashes = (case find (\<lambda>i. UInt256Eq txHash (hashes ! i)) (rev [0..<length hashes]) of
                           None \<Rightarrow> hashes | Some i \<Rightarrow> take i hashes @ drop (i + 1) hashes)
           in if hashes = [] then emit (RelayedBlock block) (ctx\<lparr>ctx_currentBlockTxHashes := [], ctx_currentBlock := None\<rparr>)
              else ctx\<lparr>ctx_currentBlockTxHashes := hashes\<rparr>))"

definition LWPeerAcceptTxMessage :: "peer_env \<Rightarrow> 'k handler" where
  "LWPeerAcceptTxMessage env msg ctx = do {
     tx \<leftarrow> LWTransactionParse (pe_testnet env) msg;
     Some (case tx of None \<Rightarrow> (False, ctx)
           | Some tx \<Rightarrow>
               if \<not> ctx_sentFilter ctx \<and> \<not> ctx_sentGetdata ctx then (False, ctx)
               else (True, tx_arrived (tx_hash tx) (emit (RelayedTx tx) ctx))) }"

text \<open>Behind the first of \<open>n\<close> more headers that is recent, or has no time; \<open>k\<close> headers are passed already.\<close>

definition recent :: "'k LWPeerContext \<Rightarrow> u32 \<Rightarrow> bool" where
  "recent ctx timestamp \<longleftrightarrow> timestamp + 7 * 24 * 60 * 60 + BLOCK_MAX_TIME_DRIFT \<ge> ctx_earliestKeyTime ctx"

fun skip_old :: "'k LWPeerContext \<Rightarrow> bytes \<Rightarrow> nat \<Rightarrow> nat \<Rightarrow> nat \<Rightarrow> nat option" where
  "skip_old ctx msg off k 0 = Some k"
| "skip_old ctx msg off k (Suc n) = do {
     t \<leftarrow> bytes_at msg (off + 81 * k + 68) 4;
     if UInt32GetLE t > 0 \<and> \<not> recent ctx (UInt32GetLE t) then skip_old ctx msg off (k + 1) n else Some k }"

fun relay_headers :: "peer_env \<Rightarrow> bytes \<Rightarrow> nat \<Rightarrow> nat \<Rightarrow> 'k LWPeerContext \<Rightarrow> (bool \<times> 'k LWPeerContext) option" where
  "relay_headers env msg off 0 ctx = Some (True, ctx)"
| "relay_headers env msg off (Suc n) ctx = do {
     header \<leftarrow> bytes_at msg off 81;
     block \<leftarrow> LWMerkleBlockParse header;
     valid \<leftarrow> LWMerkleBlockIsValid block (of_int (pe_time env));
     if \<not> valid then Some (False, ctx)
     else relay_headers env msg (off + 81) n (emit (RelayedBlock block) ctx) }"

text \<open>The number of headers is not bounded: their size and the offset of the last one wrap around.\<close>

definition LWPeerAcceptHeadersMessage :: "peer_env \<Rightarrow> 'k handler" where
  "LWPeerAcceptHeadersMessage env msg ctx =
     (let (count, off) = LWVarInt msg; count = unat count in
      if size_add off (size_mul 81 count) > length msg then Some (False, ctx)
      else do {
        let last_at = size_add off (size_mul 81 (count - 1));
        timestamp \<leftarrow> (if count > 0 then map_option UInt32GetLE (bytes_at msg (size_add last_at 68) 4) else Some 0);
        if count \<ge> 2000 \<or> (timestamp > 0 \<and> recent ctx timestamp) then do {
          h0 \<leftarrow> bytes_at msg last_at 80;
          h1 \<leftarrow> bytes_at msg off 80;
          ctx \<leftarrow> (if timestamp > 0 \<and> recent ctx timestamp then do {
              k \<leftarrow> skip_old ctx msg off 1 (count - 1);
              h0 \<leftarrow> bytes_at msg (off + 81 * (k - 1)) 80;
              Some (LWPeerSendGetblocks env [LWSHA256_2 h0, LWSHA256_2 h1] UINT256_ZERO ctx) }
            else Some (LWPeerSendGetheaders env [LWSHA256_2 h0, LWSHA256_2 h1] UINT256_ZERO ctx));
          relay_headers env msg off count ctx }
        else Some (False, ctx) })"

definition LWPeerAcceptGetaddrMessage :: "peer_env \<Rightarrow> 'k handler" where
  "LWPeerAcceptGetaddrMessage env msg ctx = Some (True, LWPeerSendAddr env ctx)"

text \<open>
  An item asks for a transaction, which \<open>requested\<close> is the answer of the callback to; the result are the items
  that were not found, in their bytes.
\<close>

fun serve_items :: "peer_env \<Rightarrow> (UInt256 \<Rightarrow> LWTransaction option) \<Rightarrow> bytes \<Rightarrow> nat \<Rightarrow> nat \<Rightarrow> bytes list \<times> 'k LWPeerContext
    \<Rightarrow> bytes list \<times> 'k LWPeerContext" where
  "serve_items env requested msg off 0 (notfound, ctx) = (notfound, ctx)"
| "serve_items env requested msg off (Suc n) (notfound, ctx) =
     (let item = take 36 (drop off msg); hash = UInt256Get (drop 4 item) in
      serve_items env requested msg (off + 36) n
        (if UInt32GetLE item = inv_tx then
           (let ctx = emit (RequestedTx hash) ctx in
            case requested hash of
              Some tx \<Rightarrow> if LWTransactionSize tx < TX_MAX_SIZE
                         then (notfound, LWPeerSendMessage env (produced (LWTransactionSerialize tx)) ''tx'' ctx)
                         else (notfound @ [item], ctx)
            | None \<Rightarrow> (notfound @ [item], ctx))
         else (notfound @ [item], ctx)))"

definition LWPeerAcceptGetdataMessage :: "peer_env \<Rightarrow> (UInt256 \<Rightarrow> LWTransaction option) \<Rightarrow> 'k handler" where
  "LWPeerAcceptGetdataMessage env requested msg ctx =
     (let (count, off) = LWVarInt msg; count = unat count in
      if size_add off (size_mul 36 count) > length msg then Some (False, ctx)
      else if count > MAX_GETDATA_HASHES then Some (True, ctx)
      else
        (let (notfound, ctx) = serve_items env requested msg off count ([], ctx)
         in Some (True, if notfound \<noteq> []
              then LWPeerSendMessage env (varint_bytes (length notfound) @ concat notfound) ''notfound'' ctx else ctx)))"

definition LWPeerAcceptNotfoundMessage :: "peer_env \<Rightarrow> 'k handler" where
  "LWPeerAcceptNotfoundMessage env msg ctx =
     (let (count, off) = LWVarInt msg; count = unat count in
      if size_add off (size_mul 36 count) > length msg then Some (False, ctx)
      else if count > MAX_GETDATA_HASHES then Some (True, ctx)
      else
        (let items = message_items msg off count
         in Some (True, emit (Notfound (items_of inv_tx items)
              (map snd (filter (\<lambda>it. fst it = inv_filtered_block \<or> fst it = inv_block) items))) ctx)))"

definition LWPeerAcceptPingMessage :: "peer_env \<Rightarrow> 'k handler" where
  "LWPeerAcceptPingMessage env msg ctx =
     Some (if 8 > length msg then (False, ctx) else (True, LWPeerSendMessage env msg ''pong'' ctx))"

definition LWPeerAcceptPongMessage :: "peer_env \<Rightarrow> 'k handler" where
  "LWPeerAcceptPongMessage env msg ctx =
     Some (if 8 > length msg then (False, ctx)
       else if UInt64GetLE msg \<noteq> ctx_nonce ctx then (False, ctx)
       else
         (case ctx_pongs ctx of [] \<Rightarrow> (False, ctx)
          | pongCallback # rest \<Rightarrow>
              (let ctx = (if ctx_startTime ctx > 1
                     then ctx\<lparr>ctx_pingTime := map_option (\<lambda>t. t * (1 / 2) + (pe_clock env - ctx_startTime ctx) * (1 / 2)) (ctx_pingTime ctx),
                              ctx_startTime := 0\<rparr> else ctx);
                   ctx = ctx\<lparr>ctx_pongs := rest\<rparr>
               in (True, case pongCallback of None \<Rightarrow> ctx | Some k \<Rightarrow> emit (Completed k True) ctx))))"

definition LWPeerAcceptMerkleblockMessage :: "peer_env \<Rightarrow> 'k handler" where
  "LWPeerAcceptMerkleblockMessage env msg ctx =
     (if length msg < 80 then Some (False, ctx)
      else do {
        block \<leftarrow> LWMerkleBlockParse msg;
        valid \<leftarrow> LWMerkleBlockIsValid block (of_int (pe_time env));
        if \<not> valid then Some (False, ctx)
        else if \<not> ctx_sentFilter ctx \<and> \<not> ctx_sentGetdata ctx then Some (False, ctx)
        else do {
          counted \<leftarrow> LWMerkleBlockTxHashes block None;
          hashes \<leftarrow> LWMerkleBlockTxHashes block (Some (length counted));
          let ctx = ctx\<lparr>ctx_currentBlockTxHashes := ctx_currentBlockTxHashes ctx @
                        filter (\<lambda>h. h \<notin> ctx_knownTxHashSet ctx) (rev hashes)\<rparr>;
          Some (True, if ctx_currentBlockTxHashes ctx \<noteq> [] then ctx\<lparr>ctx_currentBlock := Some block\<rparr>
                      else emit (RelayedBlock block) ctx) } })"

definition LWPeerAcceptRejectMessage :: "peer_env \<Rightarrow> 'k handler" where
  "LWPeerAcceptRejectMessage env msg ctx =
     (let (strLen, off) = LWVarInt msg; strLen = unat strLen in
      if size_add (size_add off strLen) 1 > length msg then Some (False, ctx)
      else do {
        type \<leftarrow> chars_at msg off (if strLen < 0x1000 then strLen else 0xfff);
        let off = size_add off strLen;
        code \<leftarrow> deref msg off;
        let off = size_add off 1;
        let (strLen, len) = LWVarInt (drop off msg);
        let strLen = unat strLen;
        let off = size_add off len;
        let hashLen = (if type = map of_char ''tx'' then 32 else 0);
        if size_add (size_add off strLen) hashLen > length msg then Some (False, ctx)
        else do {
          reason \<leftarrow> chars_at msg off (if strLen < 0x1000 then strLen else 0xfff);
          let off = size_add off strLen;
          txHash \<leftarrow> (if hashLen = 32 then bytes_at msg off 32 else Some UINT256_ZERO);
          Some (True, if \<not> UInt256IsZero txHash then emit (RejectedTx txHash code) ctx else ctx) } })"

definition LWPeerAcceptFeeFilterMessage :: "peer_env \<Rightarrow> 'k handler" where
  "LWPeerAcceptFeeFilterMessage env msg ctx =
     Some (if 8 > length msg then (False, ctx)
           else (True, emit (SetFeePerKb (UInt64GetLE msg)) (ctx\<lparr>ctx_feePerKb := UInt64GetLE msg\<rparr>)))"

text \<open>A message other than \<^verbatim>\<open>tx\<close> while transactions of a block are awaited ends the connection.\<close>

definition LWPeerAcceptMessage :: "peer_env \<Rightarrow> (UInt256 \<Rightarrow> LWTransaction option) \<Rightarrow> string \<Rightarrow> 'k handler" where
  "LWPeerAcceptMessage env requested type msg ctx =
     (if ctx_currentBlock ctx \<noteq> None \<and> type \<noteq> ''tx''
      then Some (False, ctx\<lparr>ctx_currentBlockTxHashes := [], ctx_currentBlock := None\<rparr>)
      else if type = ''version'' then LWPeerAcceptVersionMessage env msg ctx
      else if type = ''verack'' then LWPeerAcceptVerackMessage env msg ctx
      else if type = ''addr'' then LWPeerAcceptAddrMessage env msg ctx
      else if type = ''inv'' then LWPeerAcceptInvMessage env msg ctx
      else if type = ''tx'' then LWPeerAcceptTxMessage env msg ctx
      else if type = ''headers'' then LWPeerAcceptHeadersMessage env msg ctx
      else if type = ''getaddr'' then LWPeerAcceptGetaddrMessage env msg ctx
      else if type = ''getdata'' then LWPeerAcceptGetdataMessage env requested msg ctx
      else if type = ''notfound'' then LWPeerAcceptNotfoundMessage env msg ctx
      else if type = ''ping'' then LWPeerAcceptPingMessage env msg ctx
      else if type = ''pong'' then LWPeerAcceptPongMessage env msg ctx
      else if type = ''merkleblock'' then LWPeerAcceptMerkleblockMessage env msg ctx
      else if type = ''reject'' then LWPeerAcceptRejectMessage env msg ctx
      else if type = ''feefilter'' then LWPeerAcceptFeeFilterMessage env msg ctx
      else Some (True, ctx))"

end
