(* ===== verification/LW_Manager.thy ===== *)
theory LW_Manager
  imports LW_Peer LW_Registry LW_Bloom LW_ChainParams
begin

text \<open>
  Model of \<^verbatim>\<open>LWPeerManager.c\<close>, first part: the state of the peer manager and what its handlers share: lists of
  the peers that have a transaction, the list of transactions to publish, block locators, and the bloom filter
  of the wallet with its updates. A handler holds the lock from its start to its end, and is one step.
  Peers and blocks are objects behind pointers: following a pointer to one that was freed is \<open>None\<close>. The sets of
  blocks are maps from the key the table compares (\<open>LW_Set\<close> implements them) to pointers. The two rates in
  floating point are exact rational numbers.
\<close>

subsection \<open>State\<close>

type_synonym ptr = nat

text \<open>The callbacks given to a peer with a ping or a \<^verbatim>\<open>mempool\<close> message, with the peer of their argument.\<close>

datatype peer_callback =
  UpdateFilterRerequestDone ptr
| UpdateFilterLoadDone ptr
| UpdateFilterPingDone ptr
| RequestUnrelayedTxGetdataDone ptr
| MempoolDone ptr
| LoadBloomFilterDone ptr
| PublishTxInvDone ptr

type_synonym peer_context = "peer_callback LWPeerContext"

text \<open>A transaction to publish is an object of the wallet, found by its hash, or one of the manager's own.\<close>

datatype tx_ref = WalletTx UInt256 | OwnTx LWTransaction

record 'c LWPublishedTx =
  pub_tx :: tx_ref
  pub_callback :: "'c option"

text \<open>The calls of the manager's callbacks and of the wallet's, in their order; \<open>'c\<close> is a callback of a publisher with its argument.\<close>

datatype 'c manager_event =
  SyncStarted
| SyncStopped "errno option"
| TxStatusUpdate
| SaveBlocks bool "LWMerkleBlock list"
| SavePeers bool "LWPeer list"
| PublishDone 'c "errno option"
| WalletEvent wallet_event

record 'c LWPeerManager =
  m_params :: LWChainParams
  m_wallet :: LWWallet
  m_isConnected :: bool
  m_connectFailureCount :: nat
  m_misbehavinCount :: nat
  m_dnsThreadCount :: nat
  m_maxConnectCount :: nat
  m_peers :: "LWPeer list"
  m_downloadPeer :: "ptr option"
  m_fixedPeer :: LWPeer
  m_connectedPeers :: "(ptr \<times> peer_context) list"
  m_earliestKeyTime :: u32
  m_syncStartHeight :: u32
  m_filterUpdateHeight :: u32
  m_estimatedHeight :: u32
  m_bloomFilter :: "LWBloomFilter option"
  m_fpRate :: rat
  m_averageTxPerBlock :: rat
  m_memory :: "ptr \<rightharpoonup> LWMerkleBlock"
  m_blocks :: "UInt256 \<rightharpoonup> ptr"
  m_orphans :: "UInt256 \<rightharpoonup> ptr"
  m_checkpoints :: "u32 \<rightharpoonup> ptr"
  m_lastBlock :: ptr
  m_lastOrphan :: "ptr option"
  m_txRelays :: "(UInt256 \<times> LWPeer list) list"
  m_txRequests :: "(UInt256 \<times> LWPeer list) list"
  m_publishedTx :: "'c LWPublishedTx list"
  m_publishedTxHashes :: "UInt256 list"
  m_next :: ptr
  m_events :: "'c manager_event list"

text \<open>
  From outside come what peers and wallet take, the sizes a bloom filter is given for a rate and a number of
  elements, the addresses of a host, the hosts whose threads end while the code waits for them, and what
  \<^verbatim>\<open>qsort\<close> makes of a list of peers, since it may place peers with the same time in any order.
\<close>

record ('p, 's, 'r) manager_env =
  me_peer :: peer_env
  me_wallet :: "('p, 's, 'r) env"
  me_bloom :: "rat \<Rightarrow> nat \<Rightarrow> nat \<times> (nat \<Rightarrow> u32)"
  me_lookup :: "string \<Rightarrow> bytes list"
  me_finished :: "string list"
  me_qsort :: "LWPeer list \<Rightarrow> LWPeer list"

definition PROTOCOL_TIMEOUT :: rat where "PROTOCOL_TIMEOUT = 20"
definition MAX_CONNECT_FAILURES :: nat where "MAX_CONNECT_FAILURES = 20"
definition PEER_FLAG_SYNCED :: u8 where "PEER_FLAG_SYNCED = 0x01"
definition PEER_FLAG_NEEDSUPDATE :: u8 where "PEER_FLAG_NEEDSUPDATE = 0x02"
definition PEER_MAX_CONNECTIONS :: nat where "PEER_MAX_CONNECTIONS = 3"
definition BLOOM_DEFAULT_FALSEPOSITIVE_RATE :: rat where "BLOOM_DEFAULT_FALSEPOSITIVE_RATE = 5 / 10000"
definition BLOOM_REDUCED_FALSEPOSITIVE_RATE :: rat where "BLOOM_REDUCED_FALSEPOSITIVE_RATE = 5 / 100000"
definition BLOOM_UPDATE_ALL :: u8 where "BLOOM_UPDATE_ALL = 1"
definition REJECT_SPENT :: u8 where "REJECT_SPENT = 0x12"
definition MAX_FEE_PER_KB :: u64 where "MAX_FEE_PER_KB = (1000100 * 1000 + 190) div 191"

definition genesis_block_hash :: "LWChainParams \<Rightarrow> UInt256" where
  "genesis_block_hash params = UInt256Reverse (cp_hash (checkpoints params ! 0))"

definition LWPeerEq :: "LWPeer \<Rightarrow> LWPeer \<Rightarrow> bool" where
  "LWPeerEq a b \<longleftrightarrow> UInt128Eq (peer_address a) (peer_address b) \<and> peer_port a = peer_port b"

definition LWPeerHash :: "LWPeer \<Rightarrow> u32" where
  "LWPeerHash peer = ((((0x811C9dc5 XOR union_u32 (peer_address peer) 3) * 0x01000193) XOR ucast (peer_port peer)) * 0x01000193)"

subsection \<open>Peers and callbacks\<close>

definition tell :: "'c manager_event list \<Rightarrow> 'c LWPeerManager \<Rightarrow> 'c LWPeerManager" where
  "tell es m = m\<lparr>m_events := m_events m @ es\<rparr>"

definition peer_at :: "'c LWPeerManager \<Rightarrow> ptr \<Rightarrow> peer_context option" where
  "peer_at m p = map_of (m_connectedPeers m) p"

definition on_peer :: "ptr \<Rightarrow> (peer_context \<Rightarrow> peer_context) \<Rightarrow> 'c LWPeerManager \<Rightarrow> 'c LWPeerManager option" where
  "on_peer p f m =
     (if peer_at m p = None then None
      else Some (m\<lparr>m_connectedPeers := map (\<lambda>(q, ctx). (q, if q = p then f ctx else ctx)) (m_connectedPeers m)\<rparr>))"

abbreviation as_peer :: "peer_context \<Rightarrow> LWPeer" where "as_peer ctx \<equiv> LWPeer.truncate ctx"

text \<open>A wallet operation that calls back.\<close>

definition on_wallet :: "(LWWallet \<Rightarrow> (LWWallet \<times> wallet_event list) option) \<Rightarrow> 'c LWPeerManager \<Rightarrow> 'c LWPeerManager option" where
  "on_wallet f m = do { (w, es) \<leftarrow> f (m_wallet m); Some (tell (map WalletEvent es) (m\<lparr>m_wallet := w\<rparr>)) }"

subsection \<open>Blocks\<close>

definition block_at :: "'c LWPeerManager \<Rightarrow> ptr \<Rightarrow> LWMerkleBlock option" where
  "block_at m p = m_memory m p"

text \<open>The block of a set, or NULL (\<open>Some None\<close>).\<close>

definition get_block :: "'c LWPeerManager \<Rightarrow> UInt256 \<Rightarrow> (ptr \<times> LWMerkleBlock) option option" where
  "get_block m h = (case m_blocks m h of None \<Rightarrow> Some None | Some p \<Rightarrow> map_option (\<lambda>b. Some (p, b)) (block_at m p))"

definition last_block :: "'c LWPeerManager \<Rightarrow> LWMerkleBlock option" where
  "last_block m = block_at m (m_lastBlock m)"

definition free_block :: "ptr \<Rightarrow> 'c LWPeerManager \<Rightarrow> 'c LWPeerManager option" where
  "free_block p m = (if block_at m p = None then None else Some (m\<lparr>m_memory := (m_memory m)(p := None)\<rparr>))"

subsection \<open>The peers of a transaction\<close>

text \<open>The last entry of a list for a hash.\<close>

definition tx_peers_index :: "(UInt256 \<times> LWPeer list) list \<Rightarrow> UInt256 \<Rightarrow> nat option" where
  "tx_peers_index xs txHash = find (\<lambda>i. UInt256Eq (fst (xs ! i)) txHash) (rev [0..<length xs])"

definition LWTxPeerListHasPeer :: "(UInt256 \<times> LWPeer list) list \<Rightarrow> UInt256 \<Rightarrow> LWPeer \<Rightarrow> bool" where
  "LWTxPeerListHasPeer xs txHash peer =
     (case tx_peers_index xs txHash of None \<Rightarrow> False | Some i \<Rightarrow> list_ex (\<lambda>p. LWPeerEq p peer) (snd (xs ! i)))"

definition LWTxPeerListCount :: "(UInt256 \<times> LWPeer list) list \<Rightarrow> UInt256 \<Rightarrow> nat" where
  "LWTxPeerListCount xs txHash = (case tx_peers_index xs txHash of None \<Rightarrow> 0 | Some i \<Rightarrow> length (snd (xs ! i)))"

definition LWTxPeerListAddPeer :: "(UInt256 \<times> LWPeer list) list \<Rightarrow> UInt256 \<Rightarrow> LWPeer \<Rightarrow> nat \<times> (UInt256 \<times> LWPeer list) list" where
  "LWTxPeerListAddPeer xs txHash peer =
     (case tx_peers_index xs txHash of
        None \<Rightarrow> (1, xs @ [(txHash, [peer])])
      | Some i \<Rightarrow>
          (let ps = snd (xs ! i) in
           if list_ex (\<lambda>p. LWPeerEq p peer) ps then (length ps, xs)
           else (length ps + 1, xs[i := (fst (xs ! i), ps @ [peer])])))"

text \<open>The last peer of the list that is equal is removed.\<close>

definition remove_last :: "('a \<Rightarrow> bool) \<Rightarrow> 'a list \<Rightarrow> 'a list option" where
  "remove_last P xs =
     map_option (\<lambda>i. take i xs @ drop (i + 1) xs) (find (\<lambda>i. P (xs ! i)) (rev [0..<length xs]))"

definition LWTxPeerListRemovePeer :: "(UInt256 \<times> LWPeer list) list \<Rightarrow> UInt256 \<Rightarrow> LWPeer \<Rightarrow> bool \<times> (UInt256 \<times> LWPeer list) list" where
  "LWTxPeerListRemovePeer xs txHash peer =
     (case tx_peers_index xs txHash of None \<Rightarrow> (False, xs)
      | Some i \<Rightarrow>
          (case remove_last (\<lambda>p. LWPeerEq p peer) (snd (xs ! i)) of
             None \<Rightarrow> (False, xs) | Some ps \<Rightarrow> (True, xs[i := (fst (xs ! i), ps)])))"

subsection \<open>Misbehaviour and the end of a synchronisation\<close>

definition without_peer :: "LWPeer \<Rightarrow> LWPeer list \<Rightarrow> LWPeer list" where
  "without_peer peer ps = filter (\<lambda>p. \<not> LWPeerEq p peer) ps"

definition LWPeerManagerPeerMisbehavin :: "ptr \<Rightarrow> 'c LWPeerManager \<Rightarrow> 'c LWPeerManager option" where
  "LWPeerManagerPeerMisbehavin p m = do {
     ctx \<leftarrow> peer_at m p;
     let m = m\<lparr>m_peers := without_peer (as_peer ctx) (m_peers m), m_misbehavinCount := m_misbehavinCount m + 1\<rparr>;
     let m = (if m_misbehavinCount m \<ge> 10 then m\<lparr>m_misbehavinCount := 0, m_peers := []\<rparr> else m);
     on_peer p LWPeerDisconnect m }"

definition LWPeerManagerSyncStopped :: "peer_env \<Rightarrow> 'c LWPeerManager \<Rightarrow> 'c LWPeerManager option" where
  "LWPeerManagerSyncStopped env m =
     (let m = m\<lparr>m_syncStartHeight := 0\<rparr> in
      case m_downloadPeer m of None \<Rightarrow> Some m
      | Some p \<Rightarrow> if list_ex (\<lambda>t. pub_callback t \<noteq> None) (m_publishedTx m) then Some m
                  else on_peer p (LWPeerScheduleDisconnect env (- 1)) m)"

subsection \<open>Transactions to publish\<close>

definition deref_tx :: "'c LWPeerManager \<Rightarrow> tx_ref \<Rightarrow> LWTransaction option" where
  "deref_tx m r = (case r of WalletTx h \<Rightarrow> w_allTx (m_wallet m) h | OwnTx tx \<Rightarrow> Some tx)"

definition wallet_tx :: "'c LWPeerManager \<Rightarrow> UInt256 \<Rightarrow> tx_ref option option" where
  "wallet_tx m h = map_option (map_option (\<lambda>tx. WalletTx h)) (LWWalletTransactionForHash h (m_wallet m))"

partial_function (option) LWPeerManagerAddTxToPublishList ::
    "tx_ref option \<Rightarrow> 'c option \<Rightarrow> 'c LWPeerManager \<Rightarrow> 'c LWPeerManager option" where
  "LWPeerManagerAddTxToPublishList ref callback m =
     (case ref of None \<Rightarrow> Some m
      | Some r \<Rightarrow> Option.bind (deref_tx m r) (\<lambda>tx.
          if tx_blockHeight tx \<noteq> TX_UNCONFIRMED then Some m
          else Option.bind (any_m (\<lambda>p. map_option (\<lambda>t. LWTransactionEq t tx) (deref_tx m (pub_tx p))) (rev (m_publishedTx m))) (\<lambda>listed.
            if listed then Some m
            else fold_m (\<lambda>i m. Option.bind (wallet_tx m (in_hash i)) (\<lambda>ref. LWPeerManagerAddTxToPublishList ref None m)) (tx_inputs tx)
              (m\<lparr>m_publishedTx := m_publishedTx m @ [\<lparr>pub_tx = r, pub_callback = callback\<rparr>],
                 m_publishedTxHashes := m_publishedTxHashes m @ [tx_hash tx]\<rparr>))))"

subsection \<open>Block locators\<close>

text \<open>The \<open>n\<close>th block before a block, or NULL.\<close>

fun step_back :: "'c LWPeerManager \<Rightarrow> nat \<Rightarrow> LWMerkleBlock option \<Rightarrow> LWMerkleBlock option option" where
  "step_back m 0 b = Some b"
| "step_back m (Suc n) b =
     (case b of None \<Rightarrow> Some None
      | Some b \<Rightarrow> do { r \<leftarrow> get_block m (mb_prevBlock b); step_back m n (map_option snd r) })"

text \<open>\<open>i\<close> locators are there already; a loop that does not end is \<open>None\<close>.\<close>

partial_function (option) locators_from :: "'c LWPeerManager \<Rightarrow> nat \<Rightarrow> nat \<Rightarrow> LWMerkleBlock option \<Rightarrow> UInt256 list option" where
  "locators_from m i step b =
     (case b of None \<Rightarrow> Some []
      | Some block \<Rightarrow>
          if mb_height block = 0 then Some []
          else
            (let i = i + 1; step = (if i \<ge> 10 then step * 2 else step) in
             Option.bind (step_back m step b) (\<lambda>b'.
             Option.bind (locators_from m i step b') (\<lambda>rest. Some (mb_blockHash block # rest)))))"

definition LWPeerManagerBlockLocators :: "'c LWPeerManager \<Rightarrow> UInt256 list option" where
  "LWPeerManagerBlockLocators m = do {
     b \<leftarrow> last_block m;
     ls \<leftarrow> locators_from m 0 1 (Some b);
     Some (ls @ [genesis_block_hash (m_params m)]) }"

subsection \<open>The bloom filter\<close>

definition insert_new :: "bytes \<Rightarrow> LWBloomFilter \<Rightarrow> LWBloomFilter option" where
  "insert_new data filter' = do {
     c \<leftarrow> LWBloomFilterContainsData filter' (Some data);
     if c then Some filter' else LWBloomFilterInsertData filter' (Some data) }"

definition watch_address :: "string \<Rightarrow> LWBloomFilter \<Rightarrow> LWBloomFilter option" where
  "watch_address a filter' =
     (case LWAddressHash160 a of None \<Rightarrow> Some filter'
      | Some h \<Rightarrow> if UInt160IsZero h then Some filter' else insert_new h filter')"

definition outpoint_bytes :: "LWUTXO \<Rightarrow> bytes" where
  "outpoint_bytes o' = UInt256Set (fst o') @ UInt32SetLE (snd o')"

definition watch_spent :: "LWWallet \<Rightarrow> LWTxInput \<Rightarrow> LWBloomFilter \<Rightarrow> LWBloomFilter option" where
  "watch_spent w i filter' = do {
     t \<leftarrow> LWWalletTransactionForHash (in_hash i) w;
     case t of None \<Rightarrow> Some filter'
     | Some tx \<Rightarrow>
         if unat (in_index i) < length (tx_outputs tx) \<and>
            LWWalletContainsAddress w (out_address (tx_outputs tx ! unat (in_index i)))
         then insert_new (outpoint_bytes (outpoint i)) filter' else Some filter' }"

text \<open>
  The filter matches the addresses of the wallet, its unspent outputs, and its outputs spent by transactions
  of the last 100 blocks.
\<close>

definition wallet_filter :: "('p, 's, 'r) manager_env \<Rightarrow> rat \<Rightarrow> u32 \<Rightarrow> u32 \<Rightarrow> LWWallet \<Rightarrow> LWBloomFilter option" where
  "wallet_filter env fpRate tweak height w = do {
     let addrs = LWWalletAllAddrs None w; utxos = LWWalletUTXOs None w;
         blockHeight = (if height > 100 then height - 100 else 0) in do {
     hashes \<leftarrow> LWWalletTxUnconfirmedBefore None blockHeight w;
     let (wanted, funcs) = me_bloom env fpRate (length addrs + length utxos + length hashes + 100) in do {
     f \<leftarrow> fold_m watch_address addrs (LWBloomFilterNew wanted funcs tweak BLOOM_UPDATE_ALL);
     f \<leftarrow> fold_m (\<lambda>o'. insert_new (outpoint_bytes o')) utxos f;
     fold_m (\<lambda>h f. do { tx \<leftarrow> w_allTx w h; fold_m (watch_spent w) (tx_inputs tx) f }) hashes f } } }"

text \<open>All orphans are freed.\<close>

definition clear_orphans :: "'c LWPeerManager \<Rightarrow> 'c LWPeerManager option" where
  "clear_orphans m =
     (if \<not> ran (m_orphans m) \<subseteq> dom (m_memory m) then None
      else Some (m\<lparr>m_memory := m_memory m |` (- ran (m_orphans m)), m_orphans := Map.empty, m_lastOrphan := None\<rparr>))"

definition LWPeerManagerLoadBloomFilter :: "('p, 's, 'r) manager_env \<Rightarrow> ptr \<Rightarrow> 'c LWPeerManager \<Rightarrow> 'c LWPeerManager option" where
  "LWPeerManagerLoadBloomFilter env p m = do {
     (as, w) \<leftarrow> LWWalletUnusedAddrs (me_wallet env) False (SEQUENCE_GAP_LIMIT_EXTERNAL + 100) False (m_wallet m);
     (as, w) \<leftarrow> LWWalletUnusedAddrs (me_wallet env) False (SEQUENCE_GAP_LIMIT_INTERNAL + 100) True w;
     m \<leftarrow> clear_orphans (m\<lparr>m_wallet := w\<rparr>);
     last \<leftarrow> last_block m;
     ctx \<leftarrow> peer_at m p;
     f \<leftarrow> wallet_filter env BLOOM_REDUCED_FALSEPOSITIVE_RATE (LWPeerHash (as_peer ctx)) (mb_height last) w;
     on_peer p (LWPeerSendFilterload (me_peer env) (produced (LWBloomFilterSerialize f)))
       (m\<lparr>m_filterUpdateHeight := mb_height last, m_fpRate := BLOOM_REDUCED_FALSEPOSITIVE_RATE, m_bloomFilter := Some f\<rparr>) }"

text \<open>Whether the chain is behind the height the peers report.\<close>

definition syncing :: "'c LWPeerManager \<Rightarrow> bool option" where
  "syncing m = do { last \<leftarrow> last_block m; Some (mb_height last < m_estimatedHeight m) }"

definition request_blocks :: "('p, 's, 'r) manager_env \<Rightarrow> ptr \<Rightarrow> 'c LWPeerManager \<Rightarrow> 'c LWPeerManager option" where
  "request_blocks env p m = do {
     locators \<leftarrow> LWPeerManagerBlockLocators m;
     on_peer p (LWPeerSendGetblocks (me_peer env) locators UINT256_ZERO) m }"

definition updateFilterRerequestDone :: "('p, 's, 'r) manager_env \<Rightarrow> ptr \<Rightarrow> bool \<Rightarrow> 'c LWPeerManager \<Rightarrow> 'c LWPeerManager option" where
  "updateFilterRerequestDone env p success m =
     (if \<not> success then Some m
      else do {
        ctx \<leftarrow> peer_at m p;
        if peer_flags ctx AND PEER_FLAG_NEEDSUPDATE = 0 then request_blocks env p m else Some m })"

definition updateFilterLoadDone :: "('p, 's, 'r) manager_env \<Rightarrow> ptr \<Rightarrow> bool \<Rightarrow> 'c LWPeerManager \<Rightarrow> 'c LWPeerManager option" where
  "updateFilterLoadDone env p success m =
     (if \<not> success then Some m
      else do {
        m \<leftarrow> on_peer p (\<lambda>ctx. (LWPeerSetNeedsFilterUpdate False ctx)\<lparr>peer_flags := peer_flags ctx AND NOT PEER_FLAG_NEEDSUPDATE\<rparr>) m;
        behind \<leftarrow> syncing m;
        if behind then do {
          d \<leftarrow> m_downloadPeer m;
          last \<leftarrow> last_block m;
          m \<leftarrow> on_peer d (LWPeerRerequestBlocks (me_peer env) (mb_blockHash last)) m;
          on_peer d (LWPeerSendPing (me_peer env) (Some (UpdateFilterRerequestDone p))) m }
        else on_peer p (LWPeerSendMempool (me_peer env) [] None) m })"

definition connected :: "'c LWPeerManager \<Rightarrow> ptr list" where
  "connected m = map fst (filter (\<lambda>(p, ctx). ctx_status ctx = PeerConnected) (m_connectedPeers m))"

definition updateFilterPingDone :: "('p, 's, 'r) manager_env \<Rightarrow> ptr \<Rightarrow> bool \<Rightarrow> 'c LWPeerManager \<Rightarrow> 'c LWPeerManager option" where
  "updateFilterPingDone env p success m =
     (if \<not> success then Some m
      else do {
        let m = m\<lparr>m_bloomFilter := None\<rparr>;
        behind \<leftarrow> syncing m;
        if behind then
          (case m_downloadPeer m of None \<Rightarrow> Some m
           | Some d \<Rightarrow> do {
               m \<leftarrow> LWPeerManagerLoadBloomFilter env d m;
               on_peer d (LWPeerSendPing (me_peer env) (Some (UpdateFilterLoadDone p))) m })
        else
          fold_m (\<lambda>q m. do {
            m \<leftarrow> LWPeerManagerLoadBloomFilter env q m;
            on_peer q (LWPeerSendPing (me_peer env) (Some (UpdateFilterLoadDone q))) m }) (rev (connected m)) m })"

definition LWPeerManagerUpdateFilter :: "('p, 's, 'r) manager_env \<Rightarrow> 'c LWPeerManager \<Rightarrow> 'c LWPeerManager option" where
  "LWPeerManagerUpdateFilter env m =
     (case m_downloadPeer m of None \<Rightarrow> Some m
      | Some d \<Rightarrow> do {
          ctx \<leftarrow> peer_at m d;
          if peer_flags ctx AND PEER_FLAG_NEEDSUPDATE = 0
          then on_peer d (\<lambda>ctx. LWPeerSendPing (me_peer env) (Some (UpdateFilterPingDone d))
                 ((LWPeerSetNeedsFilterUpdate True ctx)\<lparr>peer_flags := peer_flags ctx OR PEER_FLAG_NEEDSUPDATE\<rparr>)) m
          else Some m })"

subsection \<open>Transactions and mempools\<close>

definition rm_at :: "nat \<Rightarrow> 'a list \<Rightarrow> 'a list option" where
  "rm_at j xs = (if j < length xs then Some (take j xs @ drop (j + 1) xs) else None)"

text \<open>The \<open>j\<close>th transaction to publish goes from both arrays.\<close>

definition unpublish :: "nat \<Rightarrow> 'c LWPeerManager \<Rightarrow> 'c LWPeerManager option" where
  "unpublish j m = do {
     txs \<leftarrow> rm_at j (m_publishedTx m); hashes \<leftarrow> rm_at j (m_publishedTxHashes m);
     Some (m\<lparr>m_publishedTx := txs, m_publishedTxHashes := hashes\<rparr>) }"

definition confirmed :: "UInt256 \<Rightarrow> 'c LWPeerManager \<Rightarrow> 'c LWPeerManager option" where
  "confirmed h m = do {
     m \<leftarrow> fold_m (\<lambda>j m. do {
        t \<leftarrow> deref (m_publishedTx m) j;
        tx \<leftarrow> deref_tx m (pub_tx t);
        if UInt256Eq h (tx_hash tx) then unpublish j m else Some m }) (rev [0..<length (m_publishedTx m)]) m;
     Some (m\<lparr>m_txRelays := filter (\<lambda>x. \<not> UInt256Eq h (fst x)) (m_txRelays m)\<rparr>) }"

definition LWPeerManagerUpdateTx :: "('p, 's, 'r) manager_env \<Rightarrow> UInt256 list \<Rightarrow> u32 \<Rightarrow> u32 \<Rightarrow> 'c LWPeerManager \<Rightarrow> 'c LWPeerManager option" where
  "LWPeerManagerUpdateTx env txHashes blockHeight timestamp m = do {
     m \<leftarrow> (if blockHeight \<noteq> TX_UNCONFIRMED then fold_m confirmed txHashes m else Some m);
     on_wallet (LWWalletUpdateTransactions (env_now (me_wallet env)) txHashes blockHeight timestamp) m }"

definition is_publishing :: "LWTransaction \<Rightarrow> 'c LWPeerManager \<Rightarrow> bool option" where
  "is_publishing tx m =
     any_m (\<lambda>p. do { t \<leftarrow> deref_tx m (pub_tx p); Some (LWTransactionEq t tx \<and> pub_callback p \<noteq> None) }) (rev (m_publishedTx m))"

text \<open>The number of connected peers, once all peers have sent what they have.\<close>

definition synced_count :: "'c LWPeerManager \<Rightarrow> nat" where
  "synced_count m =
     (if list_all (\<lambda>(p, ctx). peer_flags ctx AND PEER_FLAG_SYNCED \<noteq> 0) (m_connectedPeers m) then length (connected m) else 0)"

definition unrelayed_tx :: "('p, 's, 'r) manager_env \<Rightarrow> UInt256 \<Rightarrow> 'c LWPeerManager \<Rightarrow> 'c LWPeerManager option" where
  "unrelayed_tx env h m = do {
     tx \<leftarrow> w_allTx (m_wallet m) h;
     publishing \<leftarrow> is_publishing tx m;
     if \<not> publishing \<and> LWTxPeerListCount (m_txRelays m) h = 0 \<and> LWTxPeerListCount (m_txRequests m) h = 0 then
       (if tx_blockHeight tx = TX_UNCONFIRMED
        then on_wallet (\<lambda>w. LWWalletRemoveTransaction (env_now (me_wallet env)) h (w, [])) m else None)
     else if \<not> publishing \<and> LWTxPeerListCount (m_txRelays m) h < m_maxConnectCount m
     then LWPeerManagerUpdateTx env [h] TX_UNCONFIRMED 0 m
     else Some m }"

definition requestUnrelayedTxGetdataDone :: "('p, 's, 'r) manager_env \<Rightarrow> ptr \<Rightarrow> bool \<Rightarrow> 'c LWPeerManager \<Rightarrow> 'c LWPeerManager option" where
  "requestUnrelayedTxGetdataDone env p success m = do {
     m \<leftarrow> (if success then on_peer p (\<lambda>ctx. ctx\<lparr>peer_flags := peer_flags ctx OR PEER_FLAG_SYNCED\<rparr>) m else Some m);
     if synced_count m \<ge> m_maxConnectCount m then do {
       hashes \<leftarrow> LWWalletTxUnconfirmedBefore None TX_UNCONFIRMED (m_wallet m);
       fold_m (unrelayed_tx env) (rev (take 512 hashes)) m }
     else Some m }"

definition LWPeerManagerRequestUnrelayedTx :: "('p, 's, 'r) manager_env \<Rightarrow> ptr \<Rightarrow> 'c LWPeerManager \<Rightarrow> 'c LWPeerManager option" where
  "LWPeerManagerRequestUnrelayedTx env p m = do {
     ctx \<leftarrow> peer_at m p;
     hashes \<leftarrow> LWWalletTxUnconfirmedBefore None TX_UNCONFIRMED (m_wallet m);
     let (txHashes, requests) = fold (\<lambda>h (hs, requests).
           if LWTxPeerListHasPeer (m_txRelays m) h (as_peer ctx) \<or> LWTxPeerListHasPeer requests h (as_peer ctx) then (hs, requests)
           else (hs @ [h], snd (LWTxPeerListAddPeer requests h (as_peer ctx)))) hashes ([], m_txRequests m);
         m = m\<lparr>m_txRequests := requests\<rparr>
     in if txHashes \<noteq> [] then do {
          m \<leftarrow> on_peer p (LWPeerSendGetdata (me_peer env) txHashes []) m;
          if peer_flags ctx AND PEER_FLAG_SYNCED = 0
          then on_peer p (LWPeerSendPing (me_peer env) (Some (RequestUnrelayedTxGetdataDone p))) m else Some m }
        else on_peer p (\<lambda>ctx. ctx\<lparr>peer_flags := peer_flags ctx OR PEER_FLAG_SYNCED\<rparr>) m }"

definition LWPeerManagerPublishPendingTx :: "('p, 's, 'r) manager_env \<Rightarrow> ptr \<Rightarrow> 'c LWPeerManager \<Rightarrow> 'c LWPeerManager option" where
  "LWPeerManagerPublishPendingTx env p m =
     on_peer p (\<lambda>ctx. LWPeerSendInv (me_peer env) (m_publishedTxHashes m)
       (if list_ex (\<lambda>t. pub_callback t \<noteq> None) (m_publishedTx m) then LWPeerScheduleDisconnect (me_peer env) PROTOCOL_TIMEOUT ctx else ctx)) m"

definition mempoolDone :: "('p, 's, 'r) manager_env \<Rightarrow> ptr \<Rightarrow> bool \<Rightarrow> 'c LWPeerManager \<Rightarrow> 'c LWPeerManager option" where
  "mempoolDone env p success m =
     (if \<not> success then Some m
      else do {
        let syncFinished = m_syncStartHeight m > 0;
        m \<leftarrow> (if syncFinished then LWPeerManagerSyncStopped (me_peer env) m else Some m);
        m \<leftarrow> LWPeerManagerRequestUnrelayedTx env p m;
        m \<leftarrow> on_peer p (LWPeerSendGetaddr (me_peer env)) m;
        Some (tell (TxStatusUpdate # (if syncFinished then [SyncStopped None] else [])) m) })"

definition loadBloomFilterDone :: "('p, 's, 'r) manager_env \<Rightarrow> ptr \<Rightarrow> bool \<Rightarrow> 'c LWPeerManager \<Rightarrow> 'c LWPeerManager option" where
  "loadBloomFilterDone env p success m =
     (if success then on_peer p (LWPeerSendMempool (me_peer env) (m_publishedTxHashes m) (Some (MempoolDone p))) m
      else if m_downloadPeer m = Some p then map_option (tell [SyncStopped None]) (LWPeerManagerSyncStopped (me_peer env) m)
      else Some m)"

definition load_mempool :: "('p, 's, 'r) manager_env \<Rightarrow> ptr \<Rightarrow> 'c LWPeerManager \<Rightarrow> 'c LWPeerManager option" where
  "load_mempool env p m =
     (if m_downloadPeer m \<noteq> Some p \<or> m_fpRate m > BLOOM_REDUCED_FALSEPOSITIVE_RATE * 5 then do {
        m \<leftarrow> LWPeerManagerLoadBloomFilter env p m;
        m \<leftarrow> LWPeerManagerPublishPendingTx env p m;
        on_peer p (LWPeerSendPing (me_peer env) (Some (LoadBloomFilterDone p))) m }
      else on_peer p (LWPeerSendMempool (me_peer env) (m_publishedTxHashes m) (Some (MempoolDone p))) m)"

definition LWPeerManagerLoadMempools :: "('p, 's, 'r) manager_env \<Rightarrow> 'c LWPeerManager \<Rightarrow> 'c LWPeerManager option" where
  "LWPeerManagerLoadMempools env m = fold_m (load_mempool env) (rev (connected m)) m"

definition publishTxInvDone :: "('p, 's, 'r) manager_env \<Rightarrow> ptr \<Rightarrow> bool \<Rightarrow> 'c LWPeerManager \<Rightarrow> 'c LWPeerManager option" where
  "publishTxInvDone env p success m = LWPeerManagerRequestUnrelayedTx env p m"

definition run_callback :: "('p, 's, 'r) manager_env \<Rightarrow> peer_callback \<Rightarrow> bool \<Rightarrow> 'c LWPeerManager \<Rightarrow> 'c LWPeerManager option" where
  "run_callback env k success =
     (case k of
        UpdateFilterRerequestDone p \<Rightarrow> updateFilterRerequestDone env p success
      | UpdateFilterLoadDone p \<Rightarrow> updateFilterLoadDone env p success
      | UpdateFilterPingDone p \<Rightarrow> updateFilterPingDone env p success
      | RequestUnrelayedTxGetdataDone p \<Rightarrow> requestUnrelayedTxGetdataDone env p success
      | MempoolDone p \<Rightarrow> mempoolDone env p success
      | LoadBloomFilterDone p \<Rightarrow> loadBloomFilterDone env p success
      | PublishTxInvDone p \<Rightarrow> publishTxInvDone env p success)"

end
