(* ===== verification/LW_Tables.thy ===== *)
theory LW_Tables
  imports LW_Manager LW_Set
begin

text \<open>
  The hash tables of the program: the pairs of functions that \<^verbatim>\<open>LWWallet.c\<close>, \<^verbatim>\<open>LWPeer.c\<close> and \<^verbatim>\<open>LWPeerManager.c\<close>
  hand to \<open>LWSetNew\<close>. Each pair is an interpretation of \<open>set_keys\<close>, the contract of a table, so that the
  tables are the sets and maps the states of the wallet, of a peer and of the manager hold.
\<close>

subsection \<open>The functions of each table\<close>

definition LWUTXOHash :: "LWUTXO \<Rightarrow> u32" where
  "LWUTXOHash utxo = (union_u32 (fst utxo) 0 XOR snd utxo) * 0x01000193"

definition LWUTXOEq :: "LWUTXO \<Rightarrow> LWUTXO \<Rightarrow> bool" where
  "LWUTXOEq utxo otherUtxo \<longleftrightarrow> utxo = otherUtxo \<or> UInt256Eq (fst utxo) (fst otherUtxo) \<and> snd utxo = snd otherUtxo"

definition LWPrevBlockHash :: "LWMerkleBlock \<Rightarrow> u32" where
  "LWPrevBlockHash block = union_u32 (mb_prevBlock block) 0"

definition LWPrevBlockEq :: "LWMerkleBlock \<Rightarrow> LWMerkleBlock \<Rightarrow> bool" where
  "LWPrevBlockEq block otherBlock = UInt256Eq (mb_prevBlock block) (mb_prevBlock otherBlock)"

definition LWBlockHeightHash :: "LWMerkleBlock \<Rightarrow> u32" where
  "LWBlockHeightHash block = (0x811C9dc5 XOR mb_height block) * 0x01000193"

definition LWBlockHeightEq :: "LWMerkleBlock \<Rightarrow> LWMerkleBlock \<Rightarrow> bool" where
  "LWBlockHeightEq block otherBlock = (mb_height block = mb_height otherBlock)"

subsection \<open>A table as a map\<close>

text \<open>
  Where two items are equal when they have the same key, the table is a map from keys to items: it holds the
  items of the map, each under its key.
\<close>

locale keyed_table = set_keys hash eq for hash :: "'a \<Rightarrow> nat" and eq :: "'a \<Rightarrow> 'a \<Rightarrow> bool" +
  fixes key :: "'a \<Rightarrow> 'k" and good :: "'k \<Rightarrow> bool"
  assumes eq_key: "good (key x) \<Longrightarrow> good (key y) \<Longrightarrow> eq x y \<longleftrightarrow> key x = key y"
begin

definition holds :: "'a lwset \<Rightarrow> ('k \<rightharpoonup> 'a) \<Rightarrow> bool" where
  "holds s m \<longleftrightarrow> set_inv s \<and> hashf s = hash \<and> eqf s = eq \<and> members s = ran m \<and> (\<forall>k x. m k = Some x \<longrightarrow> key x = k \<and> good k)"

lemma holdsD:
  assumes "holds s m"
  shows "set_inv s" "hashf s = hash" "eqf s = eq" "members s = ran m" "m k = Some x \<Longrightarrow> key x = k \<and> good k"
  using assms by (auto simp: holds_def)

text \<open>What is equal to an item is what the map has for its key.\<close>

lemma equal_in:
  assumes "holds s m" "good (key x)"
  shows "y \<in> ran m \<and> eq y x \<longleftrightarrow> m (key x) = Some y"
proof
  assume y: "y \<in> ran m \<and> eq y x"
  then have "m (key y) = Some y" "good (key y)" using holdsD(5) [OF assms(1)] by (auto simp: ran_def)
  then show "m (key x) = Some y" using y eq_key [of y x] assms(2) by simp
next
  assume y: "m (key x) = Some y"
  then have "key y = key x" using holdsD(5) [OF assms(1)] by blast
  then show "y \<in> ran m \<and> eq y x" using y eq_key [of y x] assms(2) by (auto simp: ran_def)
qed

lemma others_in:
  assumes "holds s m" "good (key x)"
  shows "{y \<in> ran m. \<not> eq y x} = ran (m(key x := None))"
proof -
  have k: "key y = k" if "m k = Some y" for k y using holdsD(5) [OF assms(1) that] by blast
  have "y \<in> ran (m(key x := None)) \<longleftrightarrow> y \<in> ran m \<and> m (key x) \<noteq> Some y" for y
  proof
    assume "y \<in> ran (m(key x := None))"
    then obtain j where "m j = Some y" "j \<noteq> key x" by (auto simp: ran_def split: if_splits)
    then show "y \<in> ran m \<and> m (key x) \<noteq> Some y" using k by (auto simp: ran_def)
  next
    assume y: "y \<in> ran m \<and> m (key x) \<noteq> Some y"
    then obtain j where "m j = Some y" by (auto simp: ran_def)
    then have "(m(key x := None)) j = Some y" using y by auto
    then show "y \<in> ran (m(key x := None))" by (rule ranI)
  qed
  then show ?thesis using equal_in [OF assms] by blast
qed

lemma found_key:
  assumes "holds s m" "good (key x)" "found eq (ran m) x r"
  shows "r = m (key x)"
  using assms(3) equal_in [OF assms(1,2)] by (cases r; cases "m (key x)") (auto simp: found_def)

lemma map_empty_table: "cap \<le> 2609407319 \<Longrightarrow> holds (LWSetNew hash eq cap) Map.empty"
  using LWSetNew_ok [of cap] by (simp add: holds_def)

lemma map_get_table: "holds s m \<Longrightarrow> good (key x) \<Longrightarrow> LWSetGet s x = Some (m (key x))"
  using LWSetGet_ok [of s x] holdsD(1-4) [of s m] found_key [of s m x] by auto

lemma map_add_table:
  assumes "holds s m" "good (key x)" "LWSetCount s < 2609407362"
  shows "\<exists>s'. LWSetAdd s x = Some (s', m (key x)) \<and> holds s' (m(key x \<mapsto> x))"
proof -
  have "has_room s" using assms(3) by (simp add: has_room_def last_load LWSetCount_def)
  then obtain s' r where s': "LWSetAdd s x = Some (s', r)" "set_inv s'" "hashf s' = hash" "eqf s' = eq"
    "members s' = ins eq x (members s)" "found eq (members s) x r"
    using LWSetAdd_ok [of s x] holdsD(1-3) [OF assms(1)] by blast
  have "members s' = ran (m(key x \<mapsto> x))"
    using s'(5) others_in [OF assms(1,2)] holdsD(4) [OF assms(1)] by (auto simp: ins_def ran_def)
  then have "holds s' (m(key x \<mapsto> x))"
    using s'(2-4) holdsD(5) [OF assms(1)] assms(2) by (auto simp: holds_def)
  then show ?thesis using s'(1,6) found_key [OF assms(1,2), of r] holdsD(4) [OF assms(1)] by auto
qed

lemma map_remove_table:
  assumes "holds s m" "good (key x)"
  shows "\<exists>s'. LWSetRemove s x = Some (s', m (key x)) \<and> holds s' (m(key x := None))"
proof -
  obtain s' r where s': "LWSetRemove s x = Some (s', r)" "set_inv s'" "hashf s' = hash" "eqf s' = eq"
    "members s' = {y \<in> members s. \<not> eq y x}" "found eq (members s) x r"
    using LWSetRemove_ok [of s x] holdsD(1-3) [OF assms(1)] by blast
  have "holds s' (m(key x := None))"
    using s'(2-5) others_in [OF assms] holdsD(4,5) [OF assms(1)] by (auto simp: holds_def)
  then show ?thesis using s'(1,6) found_key [OF assms, of r] holdsD(4) [OF assms(1)] by auto
qed

end

subsection \<open>The tables meet the contract\<close>

text \<open>Equal 256-bit values have the same first word.\<close>

lemma low_half: "union_u32 v 0 = ucast (union_u64 v 0)"
  by (rule bit_word_eqI) (auto simp: union_u32_def union_u64_def UInt32GetLE_def UInt64GetLE_def bit_simps)

lemma eq_low: "UInt256Eq a b \<Longrightarrow> union_u32 a 0 = union_u32 b 0"
  by (simp add: low_half UInt256Eq_def)

lemma eq256_equiv: "UInt256Eq a a" "UInt256Eq a b \<Longrightarrow> UInt256Eq b a" "UInt256Eq a b \<Longrightarrow> UInt256Eq b c \<Longrightarrow> UInt256Eq a c"
  by (simp_all add: UInt256Eq_def)

definition hash_ok :: "UInt256 \<Rightarrow> bool" where
  "hash_ok h \<longleftrightarrow> length h = 32"

lemma hash_ok_eq: "hash_ok a \<Longrightarrow> hash_ok b \<Longrightarrow> UInt256Eq a b \<longleftrightarrow> a = b"
  by (simp add: hash_ok_def)

interpretation txs: keyed_table "unat \<circ> LWTransactionHash" LWTransactionEq tx_hash hash_ok
  by unfold_locales (auto simp: LWTransactionHash_def LWTransactionEq_def hash_ok_eq dest: eq_low intro: eq256_equiv)

interpretation spent: keyed_table "unat \<circ> LWUTXOHash" LWUTXOEq id "\<lambda>u. hash_ok (fst u)"
  by unfold_locales (auto simp: LWUTXOHash_def LWUTXOEq_def hash_ok_eq prod_eq_iff dest: eq_low intro: eq256_equiv)

interpretation blocks: keyed_table "unat \<circ> LWMerkleBlockHash" LWMerkleBlockEq mb_blockHash hash_ok
  by unfold_locales (auto simp: LWMerkleBlockHash_def LWMerkleBlockEq_def hash_ok_eq dest: eq_low intro: eq256_equiv)

interpretation orphan_blocks: keyed_table "unat \<circ> LWPrevBlockHash" LWPrevBlockEq mb_prevBlock hash_ok
  by unfold_locales (auto simp: LWPrevBlockHash_def LWPrevBlockEq_def hash_ok_eq dest: eq_low intro: eq256_equiv)

interpretation checkpoints: keyed_table "unat \<circ> LWBlockHeightHash" LWBlockHeightEq mb_height "\<lambda>_. True"
  by unfold_locales (auto simp: LWBlockHeightHash_def LWBlockHeightEq_def)

text \<open>
  The maps of the model are what the tables hold: a new table is the empty map, and adding, removing and
  looking up are the map's operations, for the transactions of the wallet,
\<close>

lemmas tx_table = txs.map_empty_table txs.map_add_table txs.map_remove_table txs.map_get_table

text \<open>the blocks of the manager, its orphans by their predecessor, and its checkpoints by their height.\<close>

lemmas block_table = blocks.map_empty_table blocks.map_add_table blocks.map_remove_table blocks.map_get_table
lemmas orphan_table = orphan_blocks.map_empty_table orphan_blocks.map_add_table orphan_blocks.map_remove_table orphan_blocks.map_get_table
lemmas checkpoint_table = checkpoints.map_empty_table checkpoints.map_add_table checkpoints.map_remove_table checkpoints.map_get_table

text \<open>
  Addresses that fit an \<open>LWAddress\<close> are equal when their texts are: \<open>LWAddressEq\<close> compares 75 characters.
  (\<open>LWAddressHash\<close> hashes all there are, so for longer texts the contract would not hold.)
\<close>

lemma address_keys:
  assumes "length a \<le> 75" "length b \<le> 75" "LWAddressEq a b"
  shows "a = b \<and> LWAddressHash a = LWAddressHash b"
  using assms by (simp add: LWAddressEq_def)

end
