(* ===== verification/LW_PeerThread.thy ===== *)
theory LW_PeerThread
  imports LW_Peer
begin

text \<open>
  Model of the thread of a peer in \<^verbatim>\<open>LWPeer.c\<close>: it reads a header of 24 bytes, dropping bytes until the magic
  number stands first, then the payload, and hands the message to its handler. One step is one call of
  \<^verbatim>\<open>read\<close>, which returns at most as many bytes as are wanted, and what the code does up to the next one;
  the clock of the environment is the time behind the call. Between the steps other threads may act.
\<close>

datatype read_result = Data bytes | Eof | Would_block | Read_error errno

text \<open>Of the header \<open>len\<close> bytes are read; or \<open>msgLen\<close> bytes of payload are wanted until the timeout.\<close>

datatype phase = Header nat | Payload nat bytes rat | Ended "errno option"

record 'k thread =
  th_header :: bytes
  th_phase :: phase
  th_ctx :: "'k LWPeerContext"

definition read_error :: "read_result \<Rightarrow> errno option" where
  "read_error r = (case r of Data d \<Rightarrow> None | Eof \<Rightarrow> Some ECONNRESET | Would_block \<Rightarrow> None | Read_error e \<Rightarrow> Some e)"

definition read_data :: "read_result \<Rightarrow> bytes" where
  "read_data r = (case r of Data d \<Rightarrow> d | _ \<Rightarrow> [])"

definition past :: "rat option \<Rightarrow> peer_env \<Rightarrow> bool" where
  "past t env \<longleftrightarrow> (case t of None \<Rightarrow> False | Some t \<Rightarrow> pe_clock env \<ge> t)"

text \<open>The end of the thread: callbacks that are still waiting are told.\<close>

definition thread_end :: "errno option \<Rightarrow> 'k thread \<Rightarrow> 'k thread" where
  "thread_end error th =
     (let ctx = (th_ctx th)\<lparr>ctx_socket := False, ctx_status := PeerDisconnected\<rparr>;
          failed = List.map_filter id (ctx_pongs ctx @ [ctx_mempoolCallback ctx]);
          ctx = fold (\<lambda>k. emit (Completed k False)) failed (ctx\<lparr>ctx_pongs := [], ctx_mempoolCallback := None\<rparr>)
      in th\<lparr>th_phase := Ended error, th_ctx := emit (Disconnected error) ctx\<rparr>)"

text \<open>
  The start, once the socket is connected; the header buffer is not initialised.
\<close>

definition next_message :: "'k thread \<Rightarrow> 'k thread" where
  "next_message th = (if ctx_socket (th_ctx th) then th\<lparr>th_phase := Header 0\<rparr> else thread_end None th)"

definition thread_start :: "peer_env \<Rightarrow> bytes \<Rightarrow> 'k LWPeerContext \<Rightarrow> 'k thread" where
  "thread_start env header ctx =
     next_message \<lparr>th_header = header, th_phase = Header 0,
       th_ctx = LWPeerSendVersionMessage env (ctx\<lparr>ctx_socket := True, ctx_startTime := pe_clock env\<rparr>)\<rparr>"

text \<open>Bytes in front of the magic number are dropped; \<open>len\<close> bytes of the buffer count.\<close>

fun resync :: "u32 \<Rightarrow> bytes \<Rightarrow> nat \<Rightarrow> bytes \<times> nat" where
  "resync magicNumber header 0 = (header, 0)"
| "resync magicNumber header (Suc len) =
     (if 4 \<le> Suc len \<and> UInt32GetLE header \<noteq> magicNumber
      then resync magicNumber (take len (drop 1 header) @ drop len header) len
      else (header, Suc len))"

text \<open>The type stands at byte 4 of the header, the length of the payload at 16 and its checksum at 20.\<close>

definition header_type :: "bytes \<Rightarrow> string" where
  "header_type header = map (\<lambda>b. char_of (unat b)) (takeWhile (\<lambda>b. b \<noteq> 0) (take 12 (drop 4 header)))"

definition finish_message :: "peer_env \<Rightarrow> (UInt256 \<Rightarrow> LWTransaction option) \<Rightarrow> bytes \<Rightarrow> 'k thread \<Rightarrow> 'k thread option" where
  "finish_message env requested payload th =
     (if UInt32GetLE (LWSHA256_2 payload) \<noteq> UInt32GetLE (drop 20 (th_header th)) then Some (thread_end (Some EPROTO) th)
      else do {
        (r, ctx) \<leftarrow> LWPeerAcceptMessage env requested (header_type (th_header th)) payload (th_ctx th);
        let th = th\<lparr>th_ctx := ctx\<rparr>;
        Some (if r then next_message th else thread_end (Some EPROTO) th) })"

text \<open>The step of the loop that reads a header.\<close>

definition mempool_timeout :: "peer_env \<Rightarrow> 'k LWPeerContext \<Rightarrow> 'k LWPeerContext" where
  "mempool_timeout env ctx =
     (if past (ctx_mempoolTime ctx) env
      then (LWPeerSendPing env (ctx_mempoolCallback ctx) ctx)\<lparr>ctx_mempoolCallback := None, ctx_mempoolTime := None\<rparr>
      else ctx)"

definition header_step :: "peer_env \<Rightarrow> (UInt256 \<Rightarrow> LWTransaction option) \<Rightarrow> read_result \<Rightarrow> nat \<Rightarrow> 'k thread \<Rightarrow> 'k thread option" where
  "header_step env requested r len th =
     (let d = read_data r; header = take len (th_header th) @ d @ drop (len + length d) (th_header th);
          error = (case read_error r of Some e \<Rightarrow> Some e
                   | None \<Rightarrow> if past (ctx_disconnectTime (th_ctx th)) env then Some ETIMEDOUT else None);
          ctx = (if error = None then mempool_timeout env (th_ctx th) else th_ctx th);
          (header, len) = resync (ctx_magicNumber ctx) header (len + length d);
          th = th\<lparr>th_header := header, th_ctx := ctx\<rparr>
      in if error \<noteq> None then Some (thread_end error th)
         else if ctx_socket ctx \<and> len < HEADER_LENGTH then Some (th\<lparr>th_phase := Header len\<rparr>)
         else if header ! 15 \<noteq> 0 then Some (thread_end (Some EPROTO) th)
         else if len = HEADER_LENGTH then
           (let msgLen = unat (UInt32GetLE (drop 16 header)) in
            if msgLen > MAX_MSG_LENGTH then Some (thread_end (Some EPROTO) th)
            else if msgLen = 0 then finish_message env requested [] th
            else if ctx_socket ctx then Some (th\<lparr>th_phase := Payload msgLen [] (pe_clock env + MESSAGE_TIMEOUT)\<rparr>)
            else Some (thread_end None th))
         else Some (thread_end None th))"

text \<open>The step of the loop that reads the payload; every piece of it extends the time.\<close>

definition payload_step :: "peer_env \<Rightarrow> (UInt256 \<Rightarrow> LWTransaction option) \<Rightarrow> read_result \<Rightarrow> nat \<Rightarrow> bytes \<Rightarrow> rat \<Rightarrow> 'k thread \<Rightarrow> 'k thread option" where
  "payload_step env requested r msgLen payload msgTimeout th =
     (let d = read_data r; payload = payload @ d;
          msgTimeout = (if d \<noteq> [] then pe_clock env + MESSAGE_TIMEOUT else msgTimeout);
          error = (case read_error r of Some e \<Rightarrow> Some e
                   | None \<Rightarrow> if pe_clock env \<ge> msgTimeout then Some ETIMEDOUT else None)
      in if error \<noteq> None then Some (thread_end error th)
         else if length payload = msgLen then finish_message env requested payload th
         else if ctx_socket (th_ctx th) then Some (th\<lparr>th_phase := Payload msgLen payload msgTimeout\<rparr>)
         else Some (thread_end None th))"

definition thread_step :: "peer_env \<Rightarrow> (UInt256 \<Rightarrow> LWTransaction option) \<Rightarrow> read_result \<Rightarrow> 'k thread \<Rightarrow> 'k thread option" where
  "thread_step env requested r th =
     (case th_phase th of
        Header len \<Rightarrow> header_step env requested r len th
      | Payload msgLen payload msgTimeout \<Rightarrow> payload_step env requested r msgLen payload msgTimeout th
      | Ended e \<Rightarrow> Some th)"

end
