(* ===== verification/LW_PeerInv.thy ===== *)
theory LW_PeerInv
  imports LW_PeerThread
begin

text \<open>
  What every operation, handler and step of the thread of a peer keeps: once for any property that the
  changes of single fields keep, in the locale \<open>kept\<close>, and with it for the invariant of a peer and for the
  state of one whose acknowledgement came too early.
\<close>

subsection \<open>The invariant of a peer\<close>

text \<open>
  The set of known transactions contains the hashes of the array; a peer is connected only when both sides
  have acknowledged; while a block is awaited, so are some of its transactions, and only then; and the
  known block hashes are limited.
\<close>

definition peer_inv :: "'k LWPeerContext \<Rightarrow> bool" where
  "peer_inv ctx \<longleftrightarrow> ctx_knownTxHashSet ctx = set (ctx_knownTxHashes ctx) \<and> distinct (ctx_knownTxHashes ctx) \<and>
     (ctx_status ctx = PeerConnected \<longrightarrow> ctx_sentVerack ctx \<and> ctx_gotVerack ctx) \<and>
     (ctx_currentBlock ctx = None \<longleftrightarrow> ctx_currentBlockTxHashes ctx = []) \<and>
     length (ctx_knownBlockHashes ctx) \<le> MAX_GETDATA_HASHES"

subsection \<open>The operations other threads call\<close>

text \<open>What other threads do with a peer.\<close>

inductive peer_call :: "'k LWPeerContext \<Rightarrow> 'k LWPeerContext \<Rightarrow> bool" where
  "peer_call ctx (LWPeerDisconnect ctx)"
| "peer_call ctx (LWPeerScheduleDisconnect env t ctx)"
| "peer_call ctx (LWPeerSetNeedsFilterUpdate b ctx)"
| "peer_call ctx (LWPeerSetEarliestKeyTime u ctx)"
| "peer_call ctx (LWPeerSetCurrentBlockHeight u ctx)"
| "peer_call ctx (LWPeerSendFilterload env bs ctx)"
| "peer_call ctx (LWPeerSendMempool env hs k ctx)"
| "peer_call ctx (LWPeerSendGetheaders env ls h ctx)"
| "peer_call ctx (LWPeerSendGetblocks env ls h ctx)"
| "peer_call ctx (LWPeerSendInv env hs ctx)"
| "peer_call ctx (LWPeerSendGetdata env hs bhs ctx)"
| "peer_call ctx (LWPeerSendGetaddr env ctx)"
| "peer_call ctx (LWPeerSendPing env k ctx)"
| "peer_call ctx (LWPeerRerequestBlocks env h ctx)"

text \<open>
  A step of a peer with its thread: a call of \<^verbatim>\<open>LWPeerConnect\<close> starts the thread or does not, opening the
  socket may fail, and then the thread reads while others call operations.
\<close>

inductive peer_step :: "'k thread \<Rightarrow> 'k thread \<Rightarrow> bool" where
  connect: "th_phase th = Ended e \<Longrightarrow> LWPeerConnect env (th_ctx th) = (True, ctx) \<Longrightarrow> peer_step th (thread_start env header ctx)"
| refused: "th_phase th = Ended e \<Longrightarrow> LWPeerConnect env (th_ctx th) = (True, ctx) \<Longrightarrow> peer_step th (thread_end e' (th\<lparr>th_ctx := ctx\<rparr>))"
| not_started: "LWPeerConnect env (th_ctx th) = (False, ctx) \<Longrightarrow> peer_step th (th\<lparr>th_ctx := ctx\<rparr>)"
| read: "thread_step env requested r th = Some th' \<Longrightarrow> peer_step th th'"
| other: "peer_call (th_ctx th) ctx \<Longrightarrow> peer_step th (th\<lparr>th_ctx := ctx\<rparr>)"

subsection \<open>Properties that every step keeps\<close>

named_theorems peer_invs \<open>operations of a peer that keep its invariant\<close>

text \<open>
  A property of a peer that is kept by changes of the fields it does not speak of, by those of the status
  other than to connected, and by what the handlers do to the other fields. Every operation, handler and step
  of the thread keeps it then.
\<close>

locale kept =
  fixes P :: "'k LWPeerContext \<Rightarrow> bool"
  assumes inv_emit: "P ctx \<Longrightarrow> P (emit e ctx)"
    and inv_add_known: "P ctx \<Longrightarrow> P (LWPeerAddKnownTxHashes env hs ctx)"
    and inv_disconnect: "P ctx \<Longrightarrow> P (LWPeerDisconnect ctx)"
    and inv_sent_verack: "P ctx \<Longrightarrow> P (ctx\<lparr>ctx_sentVerack := True\<rparr>)"
    and inv_status: "P ctx \<Longrightarrow> s \<noteq> PeerConnected \<Longrightarrow> P (ctx\<lparr>ctx_status := s\<rparr>)"
    and inv_verack: "P ctx \<Longrightarrow> LWPeerAcceptVerackMessage env msg ctx = Some (r, ctx') \<Longrightarrow> P ctx'"
    and inv_drop_blocks: "P ctx \<Longrightarrow> P (ctx\<lparr>ctx_knownBlockHashes := drop i (ctx_knownBlockHashes ctx)\<rparr>)"
    and inv_trim: "P ctx \<Longrightarrow> P (ctx\<lparr>ctx_knownBlockHashes := trim_known hs\<rparr>)"
    and inv_tx_arrived: "P ctx \<Longrightarrow> P (tx_arrived h ctx)"
    and inv_merkleblock: "P ctx \<Longrightarrow> ctx_currentBlock ctx = None \<Longrightarrow> LWPeerAcceptMerkleblockMessage env msg ctx = Some (r, ctx') \<Longrightarrow> P ctx'"
    and inv_drop_block: "P ctx \<Longrightarrow> P (ctx\<lparr>ctx_currentBlockTxHashes := [], ctx_currentBlock := None\<rparr>)"
    and inv_update:
      "P (ctx\<lparr>ctx_nonce := a\<rparr>) = P ctx"
      "P (ctx\<lparr>ctx_sentFilter := b\<rparr>) = P ctx"
      "P (ctx\<lparr>ctx_sentMempool := b\<rparr>) = P ctx"
      "P (ctx\<lparr>ctx_mempoolTime := t\<rparr>) = P ctx"
      "P (ctx\<lparr>ctx_mempoolCallback := k\<rparr>) = P ctx"
      "P (ctx\<lparr>ctx_sentGetdata := b\<rparr>) = P ctx"
      "P (ctx\<lparr>ctx_sentGetaddr := b\<rparr>) = P ctx"
      "P (ctx\<lparr>ctx_startTime := x\<rparr>) = P ctx"
      "P (ctx\<lparr>ctx_pongs := ks\<rparr>) = P ctx"
      "P (ctx\<lparr>ctx_disconnectTime := t\<rparr>) = P ctx"
      "P (ctx\<lparr>ctx_earliestKeyTime := u\<rparr>) = P ctx"
      "P (ctx\<lparr>ctx_currentBlockHeight := u\<rparr>) = P ctx"
      "P (ctx\<lparr>ctx_needsFilterUpdate := b\<rparr>) = P ctx"
      "P (ctx\<lparr>ctx_waitingForNetwork := b\<rparr>) = P ctx"
      "P (ctx\<lparr>ctx_version := u\<rparr>) = P ctx"
      "P (ctx\<lparr>peer_services := v\<rparr>) = P ctx"
      "P (ctx\<lparr>peer_timestamp := v\<rparr>) = P ctx"
      "P (ctx\<lparr>ctx_useragent := bs\<rparr>) = P ctx"
      "P (ctx\<lparr>ctx_lastblock := u\<rparr>) = P ctx"
      "P (ctx\<lparr>ctx_pingTime := t\<rparr>) = P ctx"
      "P (ctx\<lparr>ctx_lastBlockHash := h\<rparr>) = P ctx"
      "P (ctx\<lparr>ctx_feePerKb := v\<rparr>) = P ctx"
      "P (ctx\<lparr>ctx_socket := b\<rparr>) = P ctx"
begin

lemmas [simp] = inv_update

lemmas [peer_invs] = inv_emit inv_add_known inv_disconnect

lemma inv_fold [peer_invs]: "(\<And>x ctx. P ctx \<Longrightarrow> P (f x ctx)) \<Longrightarrow> P ctx \<Longrightarrow> P (fold f xs ctx)"
  by (induction xs arbitrary: ctx) auto

lemma inv_send [peer_invs]: "P ctx \<Longrightarrow> P (LWPeerSendMessage env msg type ctx)"
  by (simp add: LWPeerSendMessage_def peer_invs)

lemma inv_sends [peer_invs]:
  assumes "P ctx"
  shows "P (LWPeerSendVersionMessage env ctx)" "P (LWPeerSendVerackMessage env ctx)"
    "P (LWPeerSendAddr env ctx)" "P (LWPeerSendFilterload env bs ctx)"
    "P (LWPeerSendMempool env hs k ctx)" "P (LWPeerSendGetheaders env ls h ctx)"
    "P (LWPeerSendGetblocks env ls h ctx)" "P (LWPeerSendInv env hs ctx)"
    "P (LWPeerSendGetdata env hs bhs ctx)" "P (LWPeerSendGetaddr env ctx)"
    "P (LWPeerSendPing env k ctx)"
  using assms
  by (auto simp: LWPeerSendVersionMessage_def LWPeerSendVerackMessage_def LWPeerSendAddr_def LWPeerSendFilterload_def
      LWPeerSendMempool_def LWPeerSendGetheaders_def LWPeerSendGetblocks_def LWPeerSendInv_def LWPeerSendGetdata_def
      LWPeerSendGetaddr_def LWPeerSendPing_def Let_def intro!: peer_invs inv_sent_verack split: option.split)

lemma inv_schedules [peer_invs]:
  assumes "P ctx"
  shows "P (LWPeerRerequestBlocks env h ctx)" "P (snd (LWPeerConnect env ctx))"
    "P (LWPeerScheduleDisconnect env t ctx)" "P (LWPeerSetEarliestKeyTime u ctx)"
    "P (LWPeerSetCurrentBlockHeight u ctx)" "P (LWPeerSetNeedsFilterUpdate b ctx)"
proof -
  show "P (LWPeerRerequestBlocks env h ctx)"
    using inv_drop_blocks [OF assms] by (auto simp: LWPeerRerequestBlocks_def Let_def intro!: inv_sends assms split: option.split)
  show "P (snd (LWPeerConnect env ctx))" using assms inv_status by (simp add: LWPeerConnect_def Let_def)
qed (use assms in \<open>simp_all add: LWPeerScheduleDisconnect_def LWPeerSetEarliestKeyTime_def
    LWPeerSetCurrentBlockHeight_def LWPeerSetNeedsFilterUpdate_def\<close>)

lemma inv_version: "P ctx \<Longrightarrow> LWPeerAcceptVersionMessage env msg ctx = Some (r, ctx') \<Longrightarrow> P ctx'"
  by (auto simp: LWPeerAcceptVersionMessage_def Let_def split: if_splits prod.splits bind_splits intro!: inv_sends)

lemma inv_addr: "P ctx \<Longrightarrow> LWPeerAcceptAddrMessage env msg ctx = Some (r, ctx') \<Longrightarrow> P ctx'"
  by (auto simp: LWPeerAcceptAddrMessage_def Let_def split: if_splits prod.splits intro!: inv_emit)

lemma inv_inv_blocks: "P ctx \<Longrightarrow> P (inv_blocks blocks ctx)"
  unfolding inv_blocks_def Let_def by (intro inv_trim) simp

lemma inv_inv_requests: "P ctx \<Longrightarrow> P (inv_requests env ts bs ctx)"
  unfolding inv_requests_def Let_def by (simp add: inv_sends inv_add_known inv_fold inv_emit)

lemma inv_mempool_response: "P ctx \<Longrightarrow> P (mempool_response env ctx)"
  by (simp add: mempool_response_def inv_sends)

lemma inv_inv:
  assumes "P ctx" "LWPeerAcceptInvMessage env msg ctx = Some (r, ctx')"
  shows "P ctx'"
  using assms unfolding LWPeerAcceptInvMessage_def Let_def
  by (auto split: if_splits prod.splits simp: inv_inv_blocks inv_inv_requests inv_mempool_response)

lemma inv_tx:
  assumes "P ctx" "LWPeerAcceptTxMessage env msg ctx = Some (r, ctx')"
  shows "P ctx'"
  using assms by (auto simp: LWPeerAcceptTxMessage_def split: bind_splits option.splits if_splits intro!: inv_tx_arrived inv_emit)

lemma inv_relay_headers: "P ctx \<Longrightarrow> relay_headers env msg off n ctx = Some (r, ctx') \<Longrightarrow> P ctx'"
  by (induction env msg off n ctx rule: relay_headers.induct) (auto split: bind_splits if_splits intro: inv_emit)

lemma inv_headers:
  assumes "P ctx" "LWPeerAcceptHeadersMessage env msg ctx = Some (r, ctx')"
  shows "P ctx'"
  using assms unfolding LWPeerAcceptHeadersMessage_def Let_def
  by (auto split: if_splits prod.splits bind_splits intro: inv_relay_headers [rotated] inv_sends)

lemma inv_serve: "P ctx \<Longrightarrow> serve_items env req msg off n (nf, ctx) = (nf', ctx') \<Longrightarrow> P ctx'"
proof (induction n arbitrary: off nf ctx)
  case (Suc n)
  have "P (emit e ctx)" "P (LWPeerSendMessage env m t (emit e ctx))" for e m t using Suc.prems(1) by (simp_all add: peer_invs)
  with Suc.prems show ?case by (auto simp: Let_def split: if_splits option.splits dest!: Suc.IH [rotated])
qed simp

lemma inv_getdata:
  assumes "P ctx" "LWPeerAcceptGetdataMessage env req msg ctx = Some (r, ctx')"
  shows "P ctx'"
  using assms unfolding LWPeerAcceptGetdataMessage_def Let_def
  by (auto split: if_splits prod.splits dest!: inv_serve [OF assms(1)] intro: inv_send)

lemma inv_small:
  assumes "P ctx"
  shows "LWPeerAcceptGetaddrMessage env msg ctx = Some (r, ctx') \<Longrightarrow> P ctx'"
    "LWPeerAcceptNotfoundMessage env msg ctx = Some (r, ctx') \<Longrightarrow> P ctx'"
    "LWPeerAcceptPingMessage env msg ctx = Some (r, ctx') \<Longrightarrow> P ctx'"
    "LWPeerAcceptFeeFilterMessage env msg ctx = Some (r, ctx') \<Longrightarrow> P ctx'"
  using assms unfolding LWPeerAcceptGetaddrMessage_def LWPeerAcceptNotfoundMessage_def LWPeerAcceptPingMessage_def
    LWPeerAcceptFeeFilterMessage_def Let_def
  by (auto split: if_splits prod.splits intro!: peer_invs)

lemma inv_pong: "P ctx \<Longrightarrow> LWPeerAcceptPongMessage env msg ctx = Some (r, ctx') \<Longrightarrow> P ctx'"
  unfolding LWPeerAcceptPongMessage_def Let_def by (auto split: if_splits list.splits option.splits intro!: inv_emit)

lemma inv_reject: "P ctx \<Longrightarrow> LWPeerAcceptRejectMessage env msg ctx = Some (r, ctx') \<Longrightarrow> P ctx'"
  unfolding LWPeerAcceptRejectMessage_def Let_def by (auto split: if_splits prod.splits bind_splits intro!: inv_emit)

lemma inv_message:
  assumes "P ctx" "LWPeerAcceptMessage env req type msg ctx = Some (r, ctx')"
  shows "P ctx'"
proof (cases "ctx_currentBlock ctx \<noteq> None \<and> type \<noteq> ''tx''")
  case True
  then show ?thesis using assms inv_drop_block by (auto simp: LWPeerAcceptMessage_def)
next
  case False
  note f = if_not_P [OF False]
  show ?thesis
    using assms False unfolding LWPeerAcceptMessage_def f
    by (auto split: if_splits intro: inv_version [OF assms(1)] inv_verack [OF assms(1)] inv_addr [OF assms(1)] inv_inv [OF assms(1)]
        inv_tx [OF assms(1)] inv_headers [OF assms(1)] inv_getdata [OF assms(1)] inv_small [OF assms(1)] inv_pong [OF assms(1)]
        inv_merkleblock [OF assms(1)] inv_reject [OF assms(1)])
qed

lemma inv_thread_end: "P (th_ctx th) \<Longrightarrow> P (th_ctx (thread_end e th))"
proof -
  assume i: "P (th_ctx th)"
  have "P ((th_ctx th)\<lparr>ctx_socket := False, ctx_status := PeerDisconnected, ctx_pongs := [], ctx_mempoolCallback := None\<rparr>)"
    using inv_status [of "(th_ctx th)\<lparr>ctx_socket := False\<rparr>" PeerDisconnected] i by simp
  then show ?thesis by (simp add: thread_end_def Let_def inv_emit inv_fold)
qed

lemma inv_next: "P (th_ctx th) \<Longrightarrow> P (th_ctx (next_message th))"
  by (simp add: next_message_def inv_thread_end)

lemma inv_start: "P ctx \<Longrightarrow> P (th_ctx (thread_start env header ctx))"
  unfolding thread_start_def by (intro inv_next) (simp add: inv_sends)

lemma inv_finish:
  assumes "P (th_ctx th)" "finish_message env req payload th = Some th'"
  shows "P (th_ctx th')"
proof (cases "UInt32GetLE (LWSHA256_2 payload) = UInt32GetLE (drop 20 (th_header th))")
  case True
  then obtain r ctx where m: "LWPeerAcceptMessage env req (header_type (th_header th)) payload (th_ctx th) = Some (r, ctx)"
    "th' = (if r then next_message (th\<lparr>th_ctx := ctx\<rparr>) else thread_end (Some EPROTO) (th\<lparr>th_ctx := ctx\<rparr>))"
    using assms(2) by (auto simp: finish_message_def Let_def split: bind_splits)
  then have "P ctx" using inv_message assms(1) by blast
  then show ?thesis using m(2) by (simp add: inv_next inv_thread_end)
next
  case False
  then show ?thesis using assms by (auto simp: finish_message_def inv_thread_end)
qed

lemma inv_mempool_timeout: "P ctx \<Longrightarrow> P (mempool_timeout env ctx)"
  by (simp add: mempool_timeout_def inv_sends)

lemma inv_thread_step:
  assumes "P (th_ctx th)" "thread_step env req r th = Some th'"
  shows "P (th_ctx th')"
proof (cases "th_phase th")
  case (Header len)
  define ctx where "ctx = (if (case read_error r of Some e \<Rightarrow> Some e | None \<Rightarrow> if past (ctx_disconnectTime (th_ctx th)) env then Some ETIMEDOUT else None) = None
    then mempool_timeout env (th_ctx th) else th_ctx th)"
  have "P ctx" using assms(1) by (simp add: ctx_def inv_mempool_timeout)
  then have "P (th_ctx (th\<lparr>th_header := h, th_ctx := ctx, th_phase := p\<rparr>))" "P (th_ctx (th\<lparr>th_header := h, th_ctx := ctx\<rparr>))" for h p
    by simp_all
  then show ?thesis
    using assms(2) unfolding thread_step_def Header phase.case header_step_def Let_def ctx_def [symmetric]
    by (auto split: if_splits prod.splits intro: inv_thread_end inv_finish [rotated])
next
  case (Payload msgLen payload t)
  then show ?thesis
    using assms unfolding thread_step_def Payload phase.case payload_step_def Let_def
    by (auto split: if_splits intro: inv_thread_end inv_finish [rotated])
next
  case (Ended e)
  then show ?thesis using assms by (simp add: thread_step_def)
qed

lemma inv_call: "peer_call ctx ctx' \<Longrightarrow> P ctx \<Longrightarrow> P ctx'"
  by (induction rule: peer_call.induct) (simp_all add: peer_invs)

lemma inv_step: "peer_step th th' \<Longrightarrow> P (th_ctx th) \<Longrightarrow> P (th_ctx th')"
proof (induction rule: peer_step.induct)
  case (connect th e env ctx header)
  then show ?case using inv_schedules(2) [of "th_ctx th" env] by (auto intro: inv_start)
next
  case (refused th e env ctx e')
  then show ?case using inv_schedules(2) [of "th_ctx th" env] by (auto intro: inv_thread_end)
next
  case (not_started env th ctx)
  then show ?case using inv_schedules(2) [of "th_ctx th" env] by simp
qed (auto intro: inv_thread_step inv_call)

lemma inv_steps: "peer_step\<^sup>*\<^sup>* th th' \<Longrightarrow> P (th_ctx th) \<Longrightarrow> P (th_ctx th')"
  by (induction rule: rtranclp_induct) (auto intro: inv_step)

end

subsection \<open>The two properties\<close>

lemma length_trim_known: "length (trim_known hs) \<le> MAX_GETDATA_HASHES"
proof (induction hs rule: trim_known.induct)
  case (1 hashes)
  then show ?case by (subst trim_known.simps) simp
qed

interpretation peer: kept peer_inv
proof (unfold_locales, goal_cases)
  case (2 ctx env hs)
  have "peer_inv (fold f hs ctx)" if "\<And>h c. peer_inv c \<Longrightarrow> peer_inv (f h c)" for f using 2 that by (induction hs arbitrary: ctx) auto
  then show ?case unfolding LWPeerAddKnownTxHashes_def by (auto simp: peer_inv_def add_known_def Let_def)
next
  case (6 ctx env msg r ctx')
  then show ?case by (auto simp: LWPeerAcceptVerackMessage_def LWPeerDidConnect_def emit_def peer_inv_def split: if_splits)
next
  case (9 ctx h)
  then show ?case by (auto simp: tx_arrived_def Let_def peer_inv_def emit_def split: option.split)
next
  case (10 ctx env msg r ctx')
  then show ?case unfolding LWPeerAcceptMerkleblockMessage_def Let_def by (auto split: if_splits bind_splits simp: peer_inv_def emit_def)
qed (auto simp: peer_inv_def emit_def LWPeerDisconnect_def length_trim_known)

text \<open>
  An acknowledgement has been received, and the peer is not connected. The flag of the acknowledgement is never
  cleared, and a second one is ignored.
\<close>

definition passed_over :: "'k LWPeerContext \<Rightarrow> bool" where
  "passed_over ctx \<longleftrightarrow> ctx_gotVerack ctx \<and> ctx_status ctx \<noteq> PeerConnected"

interpretation passed: kept passed_over
proof (unfold_locales, goal_cases)
  case (2 ctx env hs)
  have "passed_over (fold f hs ctx)" if "\<And>h c. passed_over c \<Longrightarrow> passed_over (f h c)" for f using 2 that by (induction hs arbitrary: ctx) auto
  then show ?case unfolding LWPeerAddKnownTxHashes_def by (auto simp: passed_over_def add_known_def Let_def)
next
  case (9 ctx h)
  then show ?case by (auto simp: tx_arrived_def Let_def passed_over_def emit_def split: option.split)
next
  case (10 ctx env msg r ctx')
  then show ?case unfolding LWPeerAcceptMerkleblockMessage_def Let_def by (auto split: if_splits bind_splits simp: passed_over_def emit_def)
qed (auto simp: passed_over_def emit_def LWPeerDisconnect_def LWPeerAcceptVerackMessage_def)



subsection \<open>The states a peer reaches\<close>

text \<open>A peer and its thread from when it is made.\<close>

inductive peer_state :: "'k thread \<Rightarrow> bool" where
  new: "peer_state \<lparr>th_header = header, th_phase = Ended None, th_ctx = LWPeerNew magicNumber\<rparr>"
| step: "peer_state th \<Longrightarrow> peer_step th th' \<Longrightarrow> peer_state th'"

end
