(* ===== verification/LW_PeerSpec.thy ===== *)
theory LW_PeerSpec
  imports LW_PeerInv
begin

text \<open>
  What a peer does with the bytes it reads: messages are received as they were sent, pongs answer pings in
  their order, a block waits for its transactions; and what goes wrong with lengths that are not limited.
\<close>

subsection \<open>Messages on the wire\<close>

text \<open>Dropping bytes in front of the magic number, on the bytes read so far.\<close>

fun sync :: "u32 \<Rightarrow> bytes \<Rightarrow> bytes" where
  "sync m [] = []"
| "sync m (b # bs) = (if 4 \<le> length (b # bs) \<and> UInt32GetLE (b # bs) \<noteq> m then sync m bs else b # bs)"

lemma UInt32GetLE_append: "4 \<le> length bs \<Longrightarrow> UInt32GetLE (bs @ cs) = UInt32GetLE bs"
  by (auto simp: UInt32GetLE_def nth_append)

lemma UInt32GetLE_take: "4 \<le> n \<Longrightarrow> UInt32GetLE (take n bs) = UInt32GetLE bs"
  by (simp add: UInt32GetLE_def)

lemma resync_sync:
  assumes "len \<le> length header"
  shows "resync m header len = (let s = sync m (take len header) in (s @ drop (length s) (fst (resync m header len)), length s)) \<and>
    length (fst (resync m header len)) = length header"
  using assms
proof (induction m header len rule: resync.induct)
  case (2 m header len)
  define h where "h = take len (drop 1 header) @ drop len header"
  obtain b bs where hd: "header = b # bs" using 2(2) by (cases header) auto
  have t: "take (Suc len) header = b # take len bs" "take len h = take len bs" "length h = length header" "len \<le> length h"
    using 2(2) by (auto simp: hd h_def)
  have g: "4 \<le> Suc len \<Longrightarrow> UInt32GetLE (b # take len bs) = UInt32GetLE header"
    using UInt32GetLE_take [of "Suc len" header] by (simp add: hd)
  show ?case
  proof (cases "4 \<le> Suc len \<and> UInt32GetLE header \<noteq> m")
    case True
    then have r: "resync m header (Suc len) = resync m h len" by (simp add: h_def)
    have l: "4 \<le> length (b # take len bs)" using True 2(2) by (simp add: hd)
    have "sync m (take (Suc len) header) = sync m (take len h)" using True g l by (simp add: t)
    then show ?thesis using 2(1) [OF True] t r unfolding h_def [symmetric] by simp
  next
    case False
    have "sync m (b # take len bs) = b # take len bs" using False g 2(2) by (auto simp: hd)
    then show ?thesis using False 2(2) by (auto simp: hd)
  qed
qed simp

lemma sync_short: "length (sync m bs) \<le> length bs"
  by (induction m bs rule: sync.induct) auto

text \<open>Reading on and dropping again is the same as reading everything first.\<close>

lemma sync_append: "sync m (sync m as @ bs) = sync m (as @ bs)"
proof (induction m as rule: sync.induct)
  case (2 m b as)
  show ?case
  proof (cases "4 \<le> length (b # as) \<and> UInt32GetLE (b # as) \<noteq> m")
    case True
    then have "UInt32GetLE (b # as @ bs) \<noteq> m" using UInt32GetLE_append [of "b # as" bs] by simp
    then have "sync m ((b # as) @ bs) = sync m (as @ bs)" using True by simp
    then show ?thesis using True 2 by simp
  qed (auto simp del: sync.simps simp: sync.simps(2))
qed simp

lemma sync_magic: "4 \<le> length bs \<Longrightarrow> UInt32GetLE bs = m \<Longrightarrow> sync m bs = bs"
  by (cases bs) auto

text \<open>The header of a message as it is sent, and what it says.\<close>

definition head :: "u32 \<Rightarrow> string \<Rightarrow> bytes \<Rightarrow> bytes" where
  "head m type msg = UInt32SetLE m @ msg_type type @ UInt32SetLE (of_nat (length msg)) @ take 4 (LWSHA256_2 msg)"

definition type_ok :: "string \<Rightarrow> bool" where
  "type_ok type \<longleftrightarrow> length type < 12 \<and> char_of (0 :: nat) \<notin> set type"

lemma frame_head: "frame m type msg = head m type msg @ msg"
  by (simp add: frame_def head_def)

lemma char_byte: "unat (of_char c :: u8) = (of_char c :: nat)"
proof -
  have "(of_char c :: u8) = of_nat (of_char c)" by (simp add: of_nat_of_char)
  then show ?thesis by (simp only: unat_of_nat) simp
qed

lemma length_msg_type [simp]: "length (msg_type type) = 12"
  by (simp add: msg_type_def)

lemma length_head [simp]: "length (head m type msg) = 24"
  by (simp add: head_def lens)

lemma head_fields:
  assumes "type_ok type" "length msg < 2 ^ 32"
  shows "header_type (head m type msg) = type" "head m type msg ! 15 = 0"
    "unat (UInt32GetLE (drop 16 (head m type msg))) = length msg"
    "UInt32GetLE (drop 20 (head m type msg)) = UInt32GetLE (LWSHA256_2 msg)" "UInt32GetLE (head m type msg) = m"
proof -
  have len: "length type < 12" using assms(1) by (simp add: type_ok_def)
  then have t: "msg_type type = map of_char type @ replicate (12 - length type) 0" by (simp add: msg_type_def)
  have nz: "(of_char c :: u8) \<noteq> 0" if "c \<in> set type" for c
  proof
    assume "(of_char c :: u8) = 0"
    then have "(of_char c :: nat) = 0" using char_byte [of c] by simp
    then have "c = char_of (0 :: nat)" by (metis char_of_char)
    then show False using that assms(1) by (simp add: type_ok_def)
  qed
  have "takeWhile (\<lambda>b. b \<noteq> 0) (map of_char type @ replicate k 0) = (map of_char type :: bytes)" for k
    using nz by (subst takeWhile_append2) (auto simp: takeWhile_replicate)
  then have "takeWhile (\<lambda>b. b \<noteq> 0) (msg_type type) = map of_char type" by (simp add: t)
  moreover have "take 12 (drop 4 (head m type msg)) = msg_type type" by (simp add: head_def lens)
  ultimately show "header_type (head m type msg) = type" by (simp add: header_type_def comp_def char_byte)
  have "head m type msg ! 15 = msg_type type ! 11" by (simp add: head_def nth_append lens)
  also have "\<dots> = 0" using len by (simp add: t nth_append)
  finally show "head m type msg ! 15 = 0" .
  have "drop 16 (head m type msg) = UInt32SetLE (of_nat (length msg)) @ take 4 (LWSHA256_2 msg)" by (simp add: head_def lens)
  then show "unat (UInt32GetLE (drop 16 (head m type msg))) = length msg"
    using assms(2) by (simp add: roundtrip unsigned_of_nat take_bit_nat_eq_self)
  have "drop 20 (head m type msg) = take 4 (LWSHA256_2 msg)" by (simp add: head_def lens)
  then show "UInt32GetLE (drop 20 (head m type msg)) = UInt32GetLE (LWSHA256_2 msg)" by (simp add: UInt32GetLE_take)
  show "UInt32GetLE (head m type msg) = m" by (simp add: head_def roundtrip)
qed

subsection \<open>Receiving\<close>

text \<open>Steps with the bytes that the calls of \<^verbatim>\<open>read\<close> return, each in an environment of its own.\<close>

definition receive :: "(UInt256 \<Rightarrow> LWTransaction option) \<Rightarrow> (peer_env \<times> bytes) list \<Rightarrow> 'k thread \<Rightarrow> 'k thread option" where
  "receive req = fold_m (\<lambda>(env, d). thread_step env req (Data d))"

definition calm :: "'k thread \<Rightarrow> peer_env \<Rightarrow> bool" where
  "calm th env \<longleftrightarrow> \<not> past (ctx_disconnectTime (th_ctx th)) env \<and> \<not> past (ctx_mempoolTime (th_ctx th)) env"

text \<open>Chunks that a header is read in: none is empty, and none exceeds what is wanted.\<close>

fun header_chunks :: "u32 \<Rightarrow> bytes \<Rightarrow> bytes list \<Rightarrow> bool" where
  "header_chunks m S [] \<longleftrightarrow> True"
| "header_chunks m S (d # ds) \<longleftrightarrow>
     d \<noteq> [] \<and> length (sync m S) < HEADER_LENGTH \<and> length (sync m S) + length d \<le> HEADER_LENGTH \<and> header_chunks m (S @ d) ds"

lemma header_resync:
  assumes "length (th_header th) = HEADER_LENGTH" "take len (th_header th) = sync m S" "len = length (sync m S)"
    "len + length d \<le> HEADER_LENGTH"
  shows "\<exists>h. resync m (take len (th_header th) @ d @ drop (len + length d) (th_header th)) (len + length d) = (h, length (sync m (S @ d))) \<and>
    length h = HEADER_LENGTH \<and> take (length (sync m (S @ d))) h = sync m (S @ d)"
proof -
  let ?h = "take len (th_header th) @ d @ drop (len + length d) (th_header th)"
  have l: "length ?h = HEADER_LENGTH" "len + length d \<le> length ?h" using assms(1,4) by simp_all
  have t: "take (len + length d) ?h = sync m S @ d" using assms by simp
  have "sync m (take (len + length d) ?h) = sync m (S @ d)" unfolding t by (rule sync_append)
  then show ?thesis using resync_sync [OF l(2), of m] l(1) by (metis (no_types, lifting) append_eq_conv_conj fst_conv)
qed

lemma receive_header:
  assumes "header_chunks m S (map snd rs)" "th_phase th = Header len" "length (th_header th) = HEADER_LENGTH"
    "take len (th_header th) = sync m S" "len = length (sync m S)" "ctx_socket (th_ctx th)" "ctx_magicNumber (th_ctx th) = m"
    "\<forall>(env, d) \<in> set rs. calm th env" "length (sync m (S @ concat (map snd rs))) < HEADER_LENGTH"
  shows "\<exists>h. receive req rs th = Some (th\<lparr>th_header := h, th_phase := Header (length (sync m (S @ concat (map snd rs))))\<rparr>) \<and>
    length h = HEADER_LENGTH \<and> take (length (sync m (S @ concat (map snd rs)))) h = sync m (S @ concat (map snd rs))"
  using assms
proof (induction rs arbitrary: S th len)
  case Nil
  have "th\<lparr>th_header := th_header th, th_phase := Header len\<rparr> = th" using Nil(2) by simp
  then show ?case using Nil by (intro exI [of _ "th_header th"]) (simp add: receive_def)
next
  case (Cons r rs)
  obtain env d where r: "r = (env, d)" by (cases r)
  obtain h where h: "resync m (take len (th_header th) @ d @ drop (len + length d) (th_header th)) (len + length d) = (h, length (sync m (S @ d)))"
    "length h = HEADER_LENGTH" "take (length (sync m (S @ d))) h = sync m (S @ d)"
    using header_resync [OF Cons.prems(3,4,5), of d] Cons.prems(1,5) by (auto simp: r)
  have "length (sync m (S @ d)) < HEADER_LENGTH"
  proof (cases "map snd rs")
    case Nil
    then show ?thesis using Cons.prems(9) by (simp add: r)
  next
    case (Cons d' ds)
    then show ?thesis using Cons.prems(1) by (simp add: r)
  qed
  then have s: "thread_step env req (Data d) th = Some (th\<lparr>th_header := h, th_phase := Header (length (sync m (S @ d)))\<rparr>)"
    using Cons.prems(2,6,7,8) h(1)
    by (simp add: thread_step_def header_step_def read_data_def read_error_def calm_def r mempool_timeout_def Let_def)
  let ?th = "th\<lparr>th_header := h, th_phase := Header (length (sync m (S @ d)))\<rparr>"
  have "\<exists>h'. receive req rs ?th = Some (?th\<lparr>th_header := h', th_phase := Header (length (sync m ((S @ d) @ concat (map snd rs))))\<rparr>) \<and>
    length h' = HEADER_LENGTH \<and> take (length (sync m ((S @ d) @ concat (map snd rs)))) h' = sync m ((S @ d) @ concat (map snd rs))"
    using Cons.prems h(2,3) by (intro Cons.IH [of "S @ d" ?th]) (auto simp: r calm_def)
  then show ?case using s by (simp add: receive_def r)
qed

text \<open>The message handed over, and what follows from the answer of its handler.\<close>

definition accepted :: "peer_env \<Rightarrow> (UInt256 \<Rightarrow> LWTransaction option) \<Rightarrow> string \<Rightarrow> bytes \<Rightarrow> 'k thread \<Rightarrow> 'k thread option" where
  "accepted env req type msg th =
     map_option (\<lambda>(r, ctx). if r then next_message (th\<lparr>th_ctx := ctx\<rparr>) else thread_end (Some EPROTO) (th\<lparr>th_ctx := ctx\<rparr>))
       (LWPeerAcceptMessage env req type msg (th_ctx th))"

lemma finish_accepted:
  assumes "th_header th = head m type msg" "type_ok type" "length msg < 2 ^ 32"
  shows "finish_message env req msg th = accepted env req type msg th"
  using head_fields [OF assms(2,3), of m] assms(1)
  by (cases "LWPeerAcceptMessage env req type msg (th_ctx th)") (auto simp: finish_message_def accepted_def Let_def)

lemma accepted_phase [simp]: "accepted env req type msg (th\<lparr>th_phase := p\<rparr>) = accepted env req type msg th"
  by (cases "LWPeerAcceptMessage env req type msg (th_ctx th)") (auto simp: accepted_def next_message_def thread_end_def Let_def)

lemma accepted_phase_header [simp]:
  "accepted env req type msg (th\<lparr>th_phase := p, th_header := h\<rparr>) = accepted env req type msg (th\<lparr>th_header := h\<rparr>)"
  by (cases "LWPeerAcceptMessage env req type msg (th_ctx th)") (auto simp: accepted_def next_message_def thread_end_def Let_def)

lemma fold_m_Nil [simp]: "fold_m f [] = Some"
  by (simp add: fun_eq_iff)

lemma receive_payload:
  assumes "th_phase th = Payload (length msg) got t" "got @ concat (map snd rs) = msg" "rs \<noteq> []" "\<forall>(env, d) \<in> set rs. d \<noteq> []"
    "ctx_socket (th_ctx th)" "th_header th = head m type msg" "type_ok type" "length msg < 2 ^ 32"
  shows "receive req rs th = accepted (fst (last rs)) req type msg th"
  using assms
proof (induction rs arbitrary: got th t)
  case (Cons r rs)
  obtain env d where r: "r = (env, d)" by (cases r)
  have d: "d \<noteq> []" using Cons.prems(4) by (simp add: r)
  have late: "\<not> pe_clock env \<ge> pe_clock env + MESSAGE_TIMEOUT" by (simp add: MESSAGE_TIMEOUT_def)
  show ?case
  proof (cases "rs = []")
    case True
    then have g: "got @ d = msg" "length got + length d = length msg" using Cons.prems(2) by (auto simp: r)
    then have "thread_step env req (Data d) th = finish_message env req msg th"
      using Cons.prems(1) d late by (simp add: thread_step_def payload_step_def read_data_def read_error_def Let_def)
    then show ?thesis using True finish_accepted [OF Cons.prems(6,7,8)] by (simp add: receive_def r)
  next
    case False
    obtain r' rs' where rs: "rs = r' # rs'" using False by (cases rs) auto
    have "snd r' \<noteq> []" using Cons.prems(4) by (auto simp: rs)
    then have "length (got @ d) < length msg" using Cons.prems(2) by (auto simp: r rs)
    then have s: "thread_step env req (Data d) th = Some (th\<lparr>th_phase := Payload (length msg) (got @ d) (pe_clock env + MESSAGE_TIMEOUT)\<rparr>)"
      using Cons.prems(1,5) d late by (simp add: thread_step_def payload_step_def read_data_def read_error_def Let_def)
    let ?th = "th\<lparr>th_phase := Payload (length msg) (got @ d) (pe_clock env + MESSAGE_TIMEOUT)\<rparr>"
    have "receive req rs ?th = accepted (fst (last rs)) req type msg ?th"
      using Cons.prems False by (intro Cons.IH [of ?th "got @ d"]) (auto simp: r)
    then show ?thesis using s False by (simp add: receive_def r)
  qed
qed simp

lemma receive_append: "receive req (rs @ rs') th = Option.bind (receive req rs th) (receive req rs')"
  by (simp add: receive_def fold_m_append)

text \<open>The last piece of a header.\<close>

lemma header_complete:
  assumes "th_phase th = Header len" "length (th_header th) = HEADER_LENGTH" "take len (th_header th) = sync m S"
    "len = length (sync m S)" "ctx_socket (th_ctx th)" "ctx_magicNumber (th_ctx th) = m" "calm th env"
    "len + length d \<le> HEADER_LENGTH" "sync m (S @ d) = head m type msg" "type_ok type" "length msg \<le> MAX_MSG_LENGTH"
  shows "thread_step env req (Data d) th =
    (if msg = [] then accepted env req type msg (th\<lparr>th_header := head m type msg\<rparr>)
     else Some (th\<lparr>th_header := head m type msg, th_phase := Payload (length msg) [] (pe_clock env + MESSAGE_TIMEOUT)\<rparr>))"
proof -
  have big: "length msg < 2 ^ 32" using assms(11) by (simp add: MAX_MSG_LENGTH_def)
  note f = head_fields [OF assms(10) big, of m]
  obtain h where h: "resync m (take len (th_header th) @ d @ drop (len + length d) (th_header th)) (len + length d) = (h, HEADER_LENGTH)"
    "length h = HEADER_LENGTH" "take HEADER_LENGTH h = head m type msg"
    using header_resync [OF assms(2-4,8)] assms(9) by (auto simp: HEADER_LENGTH_def)
  then have "h = head m type msg" by simp
  then have "thread_step env req (Data d) th =
    (if length msg = 0 then finish_message env req [] (th\<lparr>th_header := head m type msg\<rparr>)
     else Some (th\<lparr>th_header := head m type msg, th_phase := Payload (length msg) [] (pe_clock env + MESSAGE_TIMEOUT)\<rparr>))"
    using assms(1,5-7,11) h(1) f
    by (simp add: thread_step_def header_step_def read_data_def read_error_def calm_def mempool_timeout_def Let_def)
  then show ?thesis using finish_accepted [of "th\<lparr>th_header := head m type msg\<rparr>" m type msg env req] assms(10) big by auto
qed

text \<open>
  C7. A message is received as it was sent: when its frame arrives behind any bytes that do not contain the
  magic number, in pieces of any size, and neither timeout passes while the header is read, exactly
  its type and payload are handed to the handlers, and then the thread waits for the next header or ends
  with a protocol error.
\<close>

theorem frame_received:
  assumes "type_ok type" "length msg \<le> MAX_MSG_LENGTH" "th_phase th = Header 0" "length (th_header th) = HEADER_LENGTH"
    "ctx_socket (th_ctx th)" "ctx_magicNumber (th_ctx th) = m" "\<forall>(env, d) \<in> set hs. calm th env"
    "sync m (junk @ take 24 (frame m type msg)) = take 24 (frame m type msg)" "hs \<noteq> []"
    "concat (map snd hs) @ concat (map snd ps) = junk @ frame m type msg" "concat (map snd ps) = msg"
    "header_chunks m [] (map snd hs)" "\<forall>(env, d) \<in> set ps. d \<noteq> []"
  shows "\<exists>env h. receive req (hs @ ps) th = accepted env req type msg (th\<lparr>th_header := h\<rparr>)"
proof -
  have tk: "take 24 (frame m type msg) = head m type msg" by (simp add: frame_head)
  have whole: "concat (map snd hs) = junk @ head m type msg" using assms(10,11) by (simp add: frame_head)
  obtain hs0 env d where hs: "hs = hs0 @ [(env, d)]" using assms(9) by (metis rev_exhaust surj_pair)
  let ?S = "concat (map snd hs0)"
  have S: "sync m (?S @ d) = head m type msg" using whole assms(8) tk by (simp add: hs)
  have chunks: "header_chunks m [] (map snd hs0)" "length (sync m ?S) < HEADER_LENGTH" "length (sync m ?S) + length d \<le> HEADER_LENGTH"
  proof -
    have "header_chunks m T (ds @ [e]) \<Longrightarrow> header_chunks m T ds \<and> length (sync m (T @ concat ds)) < HEADER_LENGTH \<and>
      length (sync m (T @ concat ds)) + length e \<le> HEADER_LENGTH" for T ds e
      by (induction m T ds rule: header_chunks.induct) auto
    from this [of "[]" "map snd hs0" d] show "header_chunks m [] (map snd hs0)" "length (sync m ?S) < HEADER_LENGTH"
      "length (sync m ?S) + length d \<le> HEADER_LENGTH" using assms(12) by (simp_all add: hs)
  qed
  have calm: "\<forall>(env, d) \<in> set hs0. calm th env" "calm th env" using assms(7) by (auto simp: hs)
  obtain h where h: "receive req hs0 th = Some (th\<lparr>th_header := h, th_phase := Header (length (sync m ?S))\<rparr>)"
    "length h = HEADER_LENGTH" "take (length (sync m ?S)) h = sync m ?S"
    using receive_header [of m "[]" hs0 th 0 req] assms(3-6) calm(1) chunks(1,2) by auto
  let ?th = "th\<lparr>th_header := h, th_phase := Header (length (sync m ?S))\<rparr>"
  have c: "calm ?th env" using calm(2) by (simp add: calm_def)
  have step: "thread_step env req (Data d) ?th =
    (if msg = [] then accepted env req type msg (th\<lparr>th_header := head m type msg\<rparr>)
     else Some (th\<lparr>th_header := head m type msg, th_phase := Payload (length msg) [] (pe_clock env + MESSAGE_TIMEOUT)\<rparr>))"
    using header_complete [of ?th "length (sync m ?S)" m ?S env d type msg req] h(2,3) assms(1,2,5,6) c chunks(3) S
    by simp
  have rcv: "receive req hs th = thread_step env req (Data d) ?th" using h(1) by (simp add: hs receive_append) (simp add: receive_def)
  show ?thesis
  proof (cases "msg = []")
    case True
    have "ps = []" using True assms(11,13) by (cases ps) auto
    then show ?thesis using True step rcv by auto
  next
    case False
    let ?p = "th\<lparr>th_header := head m type msg, th_phase := Payload (length msg) [] (pe_clock env + MESSAGE_TIMEOUT)\<rparr>"
    have "ps \<noteq> []" using False assms(11) by auto
    then have "receive req ps ?p = accepted (fst (last ps)) req type msg ?p"
      using assms by (intro receive_payload) (auto simp: MAX_MSG_LENGTH_def)
    then show ?thesis using step rcv False by (auto simp: receive_append)
  qed
qed

text \<open>An environment and a thread to try things on.\<close>

definition example_env :: peer_env where
  "example_env = \<lparr>pe_time = 1600000000, pe_clock = 1600000000, pe_moved = (\<lambda>_. False), pe_send = (\<lambda>_. True), pe_nonce = 7,
     pe_reachable = True, pe_thread = True, pe_testnet = False\<rparr>"

definition example_thread :: "nat thread" where
  "example_thread = \<lparr>th_header = replicate 24 0, th_phase = Header 0, th_ctx = (LWPeerNew 0xdbb6c0fb)\<lparr>ctx_socket := True\<rparr>\<rparr>"

theorem frame_received_witness:
  "\<exists>env h. receive (\<lambda>_. None) [(example_env, frame 0xdbb6c0fb ''verack'' [])] example_thread =
    accepted env (\<lambda>_. None) ''verack'' [] (example_thread\<lparr>th_header := h\<rparr>)"
proof -
  let ?m = "0xdbb6c0fb :: u32" and ?f = "frame 0xdbb6c0fb ''verack'' []"
  have t: "type_ok ''verack''" unfolding type_ok_def by code_simp
  have h: "?f = head ?m ''verack'' []" by (simp add: frame_head)
  have s: "sync ?m ?f = ?f" using head_fields(5) [OF t, of "[]"] h by (simp add: sync_magic)
  have l: "length ?f = 24" "take 24 ?f = ?f" by (simp_all add: h)
  then have "header_chunks ?m [] [?f]" by (auto simp: HEADER_LENGTH_def)
  moreover have "th_phase example_thread = Header 0" "length (th_header example_thread) = HEADER_LENGTH" "ctx_socket (th_ctx example_thread)"
    "ctx_magicNumber (th_ctx example_thread) = ?m" "calm example_thread example_env"
    by (simp_all add: example_thread_def HEADER_LENGTH_def LWPeerNew_def calm_def past_def)
  ultimately show ?thesis
    using frame_received [OF t, of "[]" example_thread ?m "[(example_env, ?f)]" "[]" "[]" "\<lambda>_. None"] s l by simp
qed

text \<open>
  C6. Whatever a node sends and however its bytes are split, and whatever other threads call, the state of a
  peer stays well-formed: the set of known transactions is that of the array without duplicates, the peer
  is connected only when both sides have acknowledged, a block is kept exactly while transactions of it are
  awaited, and at most 50000 block hashes are remembered.
\<close>

theorem peer_invariant: "peer_state th \<Longrightarrow> peer_inv (th_ctx th)"
proof (induction rule: peer_state.induct)
  case (new header magicNumber)
  show ?case by (simp add: peer_inv_def LWPeerNew_def)
qed (rule peer.inv_step)

theorem peer_invariant_witness:
  "peer_inv (th_ctx (thread_start example_env (replicate 24 0) (snd (LWPeerConnect example_env (LWPeerNew 5 :: nat LWPeerContext)))))"
proof -
  define th :: "nat thread" where "th = \<lparr>th_header = replicate 24 0, th_phase = Ended None, th_ctx = LWPeerNew 5\<rparr>"
  have th: "peer_state th" "th_phase th = Ended None" by (simp_all add: th_def peer_state.new)
  have "LWPeerConnect example_env (th_ctx th) = (True, snd (LWPeerConnect example_env (th_ctx th)))"
    by (simp add: LWPeerConnect_def th_def LWPeerNew_def example_env_def Let_def)
  from peer_invariant [OF peer_state.step [OF th(1) peer_step.connect [OF th(2) this]]] show ?thesis by (simp add: th_def)
qed

subsection \<open>Pings\<close>

text \<open>
  Pings are answered in their order: when the answers carry the nonce, the callback of each ping is called
  once, first come first served, and one answer more is a protocol error.
\<close>

theorem pongs_in_order:
  fixes ctx :: "'k LWPeerContext"
  assumes "ctx_pongs ctx = []" "8 \<le> length msg" "UInt64GetLE msg = ctx_nonce ctx"
  shows "\<exists>ctx' sends. fold_m (\<lambda>m c. map_option snd (LWPeerAcceptPongMessage env m c)) (replicate (length ks) msg)
      (fold (\<lambda>k. LWPeerSendPing env (Some k)) ks ctx) = Some ctx' \<and>
    ctx_events ctx' = ctx_events ctx @ sends @ map (\<lambda>k. Completed k True) ks \<and>
    (\<forall>e \<in> set sends. e = Sent ''ping'' (UInt64SetLE (ctx_nonce ctx))) \<and>
    LWPeerAcceptPongMessage env msg ctx' = Some (False, ctx')"
proof -
  let ?P = "\<lambda>c. LWPeerAcceptPongMessage env msg c"
  have send: "\<exists>sends. ctx_events (fold (\<lambda>k. LWPeerSendPing env (Some k)) ks c) = ctx_events c @ sends \<and>
      (\<forall>e \<in> set sends. e = Sent ''ping'' (UInt64SetLE (ctx_nonce c))) \<and>
      ctx_pongs (fold (\<lambda>k. LWPeerSendPing env (Some k)) ks c) = ctx_pongs c @ map Some ks \<and>
      ctx_nonce (fold (\<lambda>k. LWPeerSendPing env (Some k)) ks c) = ctx_nonce c" for c :: "'k LWPeerContext"
  proof (induction ks arbitrary: c)
    case (Cons k ks)
    let ?c = "LWPeerSendPing env (Some k) c"
    have "\<exists>s. ctx_events ?c = ctx_events c @ s \<and> (\<forall>e \<in> set s. e = Sent ''ping'' (UInt64SetLE (ctx_nonce c))) \<and>
      ctx_pongs ?c = ctx_pongs c @ [Some k] \<and> ctx_nonce ?c = ctx_nonce c"
      by (simp add: LWPeerSendPing_def LWPeerSendMessage_def LWPeerDisconnect_def emit_def Let_def) 
    then show ?case using Cons.IH [of ?c] by fastforce
  qed simp
  have pong: "ctx_pongs c = map Some ks \<Longrightarrow> ctx_nonce c = UInt64GetLE msg \<Longrightarrow>
      \<exists>c'. fold_m (\<lambda>m c. map_option snd (LWPeerAcceptPongMessage env m c)) (replicate (length ks) msg) c = Some c' \<and>
        ctx_events c' = ctx_events c @ map (\<lambda>k. Completed k True) ks \<and> ctx_pongs c' = [] \<and> ctx_nonce c' = UInt64GetLE msg" for c :: "'k LWPeerContext"
  proof (induction ks arbitrary: c)
    case (Cons k ks)
    obtain c1 where c1: "?P c = Some (True, c1)" "ctx_pongs c1 = map Some ks" "ctx_nonce c1 = UInt64GetLE msg"
      "ctx_events c1 = ctx_events c @ [Completed k True]"
      using Cons.prems assms(2) by (auto simp: LWPeerAcceptPongMessage_def Let_def emit_def)
    then show ?case using Cons.IH [of c1] by auto
  qed simp
  obtain sends where s: "ctx_events (fold (\<lambda>k. LWPeerSendPing env (Some k)) ks ctx) = ctx_events ctx @ sends"
    "\<forall>e \<in> set sends. e = Sent ''ping'' (UInt64SetLE (ctx_nonce ctx))"
    "ctx_pongs (fold (\<lambda>k. LWPeerSendPing env (Some k)) ks ctx) = map Some ks"
    "ctx_nonce (fold (\<lambda>k. LWPeerSendPing env (Some k)) ks ctx) = ctx_nonce ctx" using send [of ctx] assms(1) by auto
  obtain c' where c': "fold_m (\<lambda>m c. map_option snd (LWPeerAcceptPongMessage env m c)) (replicate (length ks) msg)
      (fold (\<lambda>k. LWPeerSendPing env (Some k)) ks ctx) = Some c'"
    "ctx_events c' = ctx_events ctx @ sends @ map (\<lambda>k. Completed k True) ks" "ctx_pongs c' = []" "ctx_nonce c' = UInt64GetLE msg"
    using pong [OF s(3)] s(1,4) assms(3) by auto
  have "?P c' = Some (False, c')" using c'(3,4) assms(2) by (simp add: LWPeerAcceptPongMessage_def)
  then show ?thesis using c'(1,2) s(2) by blast
qed

subsection \<open>Blocks and their transactions\<close>

text \<open>
  C17. A block that waits for transactions is relayed exactly once, when the last of them has come, in whatever
  order they come; before that nothing is relayed.
\<close>

theorem block_after_transactions:
  assumes "ctx_currentBlock ctx = Some block" "ctx_currentBlockTxHashes ctx \<noteq> []" "mset hs = mset (ctx_currentBlockTxHashes ctx)"
    "\<forall>h \<in> set hs. length h = 32"
  shows "fold tx_arrived hs ctx = emit (RelayedBlock block) (ctx\<lparr>ctx_currentBlockTxHashes := [], ctx_currentBlock := None\<rparr>) \<and>
    (\<forall>n < length hs. ctx_events (fold tx_arrived (take n hs) ctx) = ctx_events ctx \<and> ctx_currentBlock (fold tx_arrived (take n hs) ctx) = Some block)"
  using assms
proof (induction hs arbitrary: ctx)
  case (Cons h hs)
  let ?H = "ctx_currentBlockTxHashes ctx"
  have mem: "h \<in> set ?H" using Cons.prems(3) by (metis list.set_intros(1) set_mset_mset)
  have len: "\<forall>x \<in> set ?H. length x = 32" using Cons.prems(3,4) by (metis set_mset_mset)
  have eq: "UInt256Eq h (?H ! i) \<longleftrightarrow> h = ?H ! i" if "i < length ?H" for i
    using UInt256Eq_iff [of h "?H ! i"] len that Cons.prems(4) by simp
  obtain i where i: "find (\<lambda>i. UInt256Eq h (?H ! i)) (rev [0..<length ?H]) = Some i"
    using mem eq by (cases "find (\<lambda>i. UInt256Eq h (?H ! i)) (rev [0..<length ?H])") (auto simp: find_None_iff in_set_conv_nth)
  then have i': "i < length ?H" "?H ! i = h" using eq by (auto simp: find_Some_iff rev_nth)
  define H where "H = take i ?H @ drop (i + 1) ?H"
  have m: "mset hs = mset H"
  proof -
    have "?H = take i ?H @ h # drop (i + 1) ?H" using id_take_nth_drop [OF i'(1)] i'(2) by simp
    then have "mset ?H = add_mset h (mset H)" by (metis H_def mset.simps(2) mset_append union_mset_add_mset_right)
    then show ?thesis using Cons.prems(3) by simp
  qed
  show ?case
  proof (cases "H = []")
    case True
    then have "hs = []" using m by simp
    then show ?thesis using True Cons.prems(1) i by (simp add: tx_arrived_def H_def Let_def)
  next
    case False
    let ?c = "ctx\<lparr>ctx_currentBlockTxHashes := H\<rparr>"
    have t: "tx_arrived h ctx = ?c" using False Cons.prems(1) i unfolding tx_arrived_def by (auto simp: H_def Let_def)
    have "fold tx_arrived hs ?c = emit (RelayedBlock block) (?c\<lparr>ctx_currentBlockTxHashes := [], ctx_currentBlock := None\<rparr>) \<and>
      (\<forall>n < length hs. ctx_events (fold tx_arrived (take n hs) ?c) = ctx_events ?c \<and> ctx_currentBlock (fold tx_arrived (take n hs) ?c) = Some block)"
      using Cons.prems m False by (intro Cons.IH) auto
    then show ?thesis using t Cons.prems(1) by (auto simp: emit_def take_Cons split: nat.split)
  qed
qed simp


text \<open>A block that waits for two transactions.\<close>

theorem block_after_transactions_witness:
  "let a = replicate 32 1; b = replicate 32 2;
       ctx = (LWPeerNew 0 :: nat LWPeerContext)\<lparr>ctx_currentBlock := Some LWMerkleBlockNew, ctx_currentBlockTxHashes := [a, b]\<rparr>
   in fold tx_arrived [a, b] ctx = emit (RelayedBlock LWMerkleBlockNew) (ctx\<lparr>ctx_currentBlockTxHashes := [], ctx_currentBlock := None\<rparr>)"
  unfolding Let_def
  by (rule block_after_transactions [THEN conjunct1]) (simp_all add: LWPeerNew_def)

theorem pongs_in_order_witness:
  "\<exists>ctx' sends. fold_m (\<lambda>m c. map_option snd (LWPeerAcceptPongMessage example_env m c)) (replicate 2 (replicate 8 0))
      (fold (\<lambda>k. LWPeerSendPing example_env (Some k)) [10, 20 :: nat] (LWPeerNew 0)) = Some ctx' \<and>
    ctx_events ctx' = sends @ [Completed 10 True, Completed 20 True]"
proof -
  have "UInt64GetLE (replicate 8 0) = ctx_nonce (LWPeerNew 0 :: nat LWPeerContext)"
    by (simp add: UInt64GetLE_def LWPeerNew_def)
  from pongs_in_order [of "LWPeerNew 0" "replicate 8 0" example_env "[10, 20]", OF _ _ this]
  show ?thesis by (auto simp: LWPeerNew_def numeral_2_eq_2)
qed

subsection \<open>The handshake\<close>

text \<open>
  C18. A peer that is connecting and has sent nothing yet becomes connected, and says so once, with the
  acknowledgement of the other side when that comes right behind a version message that was accepted. When
  the acknowledgement comes first it is accepted as well, but the peer is never connected afterwards,
  whatever the other side sends and however its bytes are split, whatever other threads call, and also
  when it is connected to again.
\<close>

theorem handshake_order:
  assumes "ctx_status ctx = PeerConnecting" "\<not> ctx_sentVerack ctx" "\<not> ctx_gotVerack ctx"
  shows "(LWPeerAcceptVersionMessage env msg ctx = Some (True, ctx1) \<longrightarrow>
      (\<exists>ctx'. LWPeerAcceptVerackMessage env' [] ctx1 = Some (True, ctx') \<and> ctx_status ctx' = PeerConnected \<and>
        ctx_events ctx' = ctx_events ctx1 @ [Connected])) \<and>
    (\<exists>early. LWPeerAcceptVerackMessage env' [] ctx = Some (True, early) \<and>
      (\<forall>th th'. th_ctx th = early \<and> peer_step\<^sup>*\<^sup>* th th' \<longrightarrow> ctx_status (th_ctx th') \<noteq> PeerConnected))"
proof -
  have send: "ctx_status (LWPeerSendVerackMessage env c) = ctx_status c" "ctx_sentVerack (LWPeerSendVerackMessage env c)"
    "ctx_gotVerack (LWPeerSendVerackMessage env c) = ctx_gotVerack c" for c :: "'a LWPeerContext"
    by (simp_all add: LWPeerSendVerackMessage_def LWPeerSendMessage_def LWPeerDisconnect_def emit_def)
  have v: "ctx_status c' = ctx_status c \<and> ctx_sentVerack c' \<and> ctx_gotVerack c' = ctx_gotVerack c"
    if "LWPeerAcceptVersionMessage env msg c = Some (True, c')" for c c' :: "'a LWPeerContext"
    using that by (auto simp: LWPeerAcceptVersionMessage_def Let_def send split: if_splits prod.splits bind_splits)
  obtain early where early: "LWPeerAcceptVerackMessage env' [] ctx = Some (True, early)" "passed_over early"
    using assms by (simp add: LWPeerAcceptVerackMessage_def LWPeerDidConnect_def passed_over_def)
  then have "ctx_status (th_ctx th') \<noteq> PeerConnected" if "th_ctx th = early" "peer_step\<^sup>*\<^sup>* th th'" for th th'
    using passed.inv_steps [OF that(2)] that(1) by (simp add: passed_over_def)
  moreover have "\<exists>ctx'. LWPeerAcceptVerackMessage env' [] ctx1 = Some (True, ctx') \<and> ctx_status ctx' = PeerConnected \<and>
      ctx_events ctx' = ctx_events ctx1 @ [Connected]" if "LWPeerAcceptVersionMessage env msg ctx = Some (True, ctx1)"
    using v [OF that] assms(1,3) by (simp add: LWPeerAcceptVerackMessage_def LWPeerDidConnect_def emit_def)
  ultimately show ?thesis using early(1) by blast
qed

subsection \<open>Lengths in messages\<close>

text \<open>
  A message that is not turned down holds every item it announces: neither sum nor product has wrapped
  around, since the number of items is limited; a message that announces more items is dropped.
\<close>

theorem items_in_bounds:
  assumes "LWVarInt msg = (n, off)" "\<not> size_add off (size_mul (unat n) k) > length msg" "unat n \<le> MAX_GETDATA_HASHES"
    "k \<le> 36" "i < unat n"
  shows "off + k * i + k \<le> length msg"
proof -
  have "off \<le> 9" using assms(1) by (auto simp: LWVarInt_def Let_def split: if_splits)
  moreover have "unat n * k \<le> 50000 * 36" using assms(3,4) by (intro mult_le_mono) (simp_all add: MAX_GETDATA_HASHES_def)
  ultimately have "size_add off (size_mul (unat n) k) = off + unat n * k" by (simp add: size_add_def size_mul_def)
  moreover have "k * i + k \<le> unat n * k" using assms(5) by (metis Suc_leI mult.commute mult_Suc_right mult_le_mono2 add.commute)
  ultimately show ?thesis using assms(2) by simp
qed

text \<open>A message of 92 bytes whose user agent is announced with \<open>2 ^ 64 - 1\<close> bytes.\<close>

definition long_agent :: bytes where
  "long_agent = [0x7f, 0x11, 0x01, 0x00] @ replicate 76 0 @ replicate 9 0xff @ [0, 0, 0]"

text \<open>The inverse of 81 modulo \<open>2 ^ 64\<close>: so many headers take one byte.\<close>

definition one_byte_of_headers :: u64 where "one_byte_of_headers = 0x2c3f35ba781948b1"

lemma LWVarInt_max: "LWVarInt (replicate 9 0xff @ bs) = (0xffffffffffffffff, 9)"
proof -
  have "UInt64GetLE (replicate 8 0xff @ bs) = 0xffffffffffffffff"
    by (simp add: UInt64GetLE_def nth_append push_bit_eq_mult)
  then show ?thesis by (simp add: LWVarInt_def nth_append)
qed

text \<open>
  C19. Lengths that are not limited wrap around: each of three short messages passes the check of its length,
  and then memory outside it is read. They are a version message with an endless user agent, a
  rejection of an endless type, and headers whose sizes add up to one byte.
\<close>

theorem unbounded_lengths:
  "LWPeerAcceptVersionMessage env long_agent ctx = None \<and>
   LWPeerAcceptRejectMessage env (replicate 9 0xff) ctx = None \<and>
   LWPeerAcceptHeadersMessage env (varint one_byte_of_headers @ [0]) ctx = None"
proof (intro conjI)
  have d: "drop 80 long_agent = replicate 9 0xff @ [0, 0, 0]" "length long_agent = 92" by (simp_all add: long_agent_def)
  have v: "UInt32GetLE long_agent = 70015" by (simp add: long_agent_def UInt32GetLE_def push_bit_eq_mult)
  show "LWPeerAcceptVersionMessage env long_agent ctx = None"
    by (simp add: LWPeerAcceptVersionMessage_def d v LWVarInt_max size_add_def MIN_PROTO_VERSION_def bytes_at_def)
  show "LWPeerAcceptRejectMessage env (replicate 9 0xff) ctx = None"
    using LWVarInt_max [of "[]"] by (simp add: LWPeerAcceptRejectMessage_def size_add_def chars_at_def)
  have l: "length (varint one_byte_of_headers) = 9" by (simp add: varint_def one_byte_of_headers_def lens)
  show "LWPeerAcceptHeadersMessage env (varint one_byte_of_headers @ [0]) ctx = None"
    by (simp add: LWPeerAcceptHeadersMessage_def LWVarInt_varint l)
      (simp add: one_byte_of_headers_def size_add_def size_mul_def bytes_at_def l [unfolded one_byte_of_headers_def])
qed

text \<open>
  The first order; and the thread of a peer whose acknowledgement has come, when the last byte of the
  version message is read: both sides have acknowledged, and the peer is not connected.
\<close>

definition plain_version :: bytes where
  "plain_version = [0x7f, 0x11, 0x01, 0x00] @ replicate 81 0"

lemma plain_version_accepted:
  "\<exists>c'. LWPeerAcceptVersionMessage example_env plain_version c = Some (True, c') \<and> ctx_sentVerack c' \<and> ctx_gotVerack c' = ctx_gotVerack c"
proof -
  have d: "LWVarInt (drop 80 plain_version) = (0, 1)" "length plain_version = 85" by (simp_all add: plain_version_def LWVarInt_def)
  have v: "UInt32GetLE plain_version = 70015" by (simp add: plain_version_def UInt32GetLE_def push_bit_eq_mult)
  show ?thesis by (simp add: LWPeerAcceptVersionMessage_def d v size_add_def MIN_PROTO_VERSION_def bytes_at_def)
    (simp add: LWPeerSendVerackMessage_def LWPeerSendMessage_def LWPeerDisconnect_def emit_def)
qed

lemma told_flags [simp]:
  "ctx_sentVerack (fold (\<lambda>k. emit (f k)) ks c) = ctx_sentVerack c" "ctx_gotVerack (fold (\<lambda>k. emit (f k)) ks c) = ctx_gotVerack c"
  "ctx_sentVerack (emit e c) = ctx_sentVerack c" "ctx_gotVerack (emit e c) = ctx_gotVerack c"
  by (induction ks arbitrary: c) (simp_all add: emit_def)

theorem handshake_order_witness:
  "let ctx = (LWPeerNew 0 :: nat LWPeerContext)\<lparr>ctx_status := PeerConnecting\<rparr> in
   (\<exists>ctx1 ctx'. LWPeerAcceptVersionMessage example_env plain_version ctx = Some (True, ctx1) \<and>
      LWPeerAcceptVerackMessage example_env [] ctx1 = Some (True, ctx') \<and> ctx_status ctx' = PeerConnected) \<and>
   (\<exists>early th th'. LWPeerAcceptVerackMessage example_env [] ctx = Some (True, early) \<and> th_ctx th = early \<and> peer_step th th' \<and>
      ctx_sentVerack (th_ctx th') \<and> ctx_gotVerack (th_ctx th') \<and> ctx_status (th_ctx th') \<noteq> PeerConnected)"
proof -
  define ctx where "ctx = (LWPeerNew 0 :: nat LWPeerContext)\<lparr>ctx_status := PeerConnecting\<rparr>"
  have ctx: "ctx_status ctx = PeerConnecting" "\<not> ctx_sentVerack ctx" "\<not> ctx_gotVerack ctx" "ctx_currentBlock ctx = None"
    by (simp_all add: ctx_def LWPeerNew_def)
  obtain c1 where c1: "LWPeerAcceptVersionMessage example_env plain_version ctx = Some (True, c1)" using plain_version_accepted by blast
  note order = handshake_order [OF ctx(1-3), of example_env plain_version c1 example_env]
  obtain early where early: "LWPeerAcceptVerackMessage example_env [] ctx = Some (True, early)"
    "\<And>th th'. th_ctx th = early \<Longrightarrow> peer_step\<^sup>*\<^sup>* th th' \<Longrightarrow> ctx_status (th_ctx th') \<noteq> PeerConnected" using order by blast
  have got: "ctx_gotVerack early" "ctx_currentBlock early = None"
    using early(1) ctx by (auto simp: LWPeerAcceptVerackMessage_def LWPeerDidConnect_def)
  obtain c2 where c2: "LWPeerAcceptVersionMessage example_env plain_version early = Some (True, c2)" "ctx_sentVerack c2" "ctx_gotVerack c2"
    using plain_version_accepted [of early] got(1) by blast
  define header where "header = replicate 4 0 @ msg_type ''version'' @ replicate 4 0 @ take 4 (LWSHA256_2 plain_version)"
  define th where "th = \<lparr>th_header = header, th_phase = Payload 85 (take 84 plain_version) 1000, th_ctx = early\<rparr>"
  have sum: "UInt32GetLE (LWSHA256_2 plain_version) = UInt32GetLE (drop 20 header)"
    by (simp add: header_def msg_type_def UInt32GetLE_def)
  have type: "header_type header = ''version''" by (simp add: header_def header_type_def msg_type_def) code_simp
  have whole: "take 84 plain_version @ [0] = plain_version" "length plain_version = 85"
    by (simp_all add: plain_version_def replicate_append_same flip: replicate_Suc)
  have "thread_step example_env (\<lambda>_. None) (Data [0]) th = finish_message example_env (\<lambda>_. None) plain_version th"
    by (simp add: thread_step_def payload_step_def th_def read_data_def read_error_def whole MESSAGE_TIMEOUT_def)
  moreover have "\<exists>th'. finish_message example_env (\<lambda>_. None) plain_version th = Some th' \<and> ctx_sentVerack (th_ctx th') \<and> ctx_gotVerack (th_ctx th')"
    using c2 got(2) by (auto simp: finish_message_def th_def sum type LWPeerAcceptMessage_def next_message_def thread_end_def Let_def)
  ultimately obtain th' where th': "peer_step th th'" "ctx_sentVerack (th_ctx th')" "ctx_gotVerack (th_ctx th')"
    by (metis peer_step.read)
  then have "ctx_status (th_ctx th') \<noteq> PeerConnected" using early(2) [OF _ r_into_rtranclp [of peer_step, OF th'(1)]] by (simp add: th_def)
  then show ?thesis using order c1 early(1) th' unfolding Let_def ctx_def [symmetric] by (metis th_def thread.select_convs(3))
qed

theorem items_in_bounds_witness: "1 + 36 * 0 + 36 \<le> length (1 # replicate 36 (0 :: u8))"
  by (rule items_in_bounds [of "1 # replicate 36 0" 1]) (simp_all add: LWVarInt_def size_add_def size_mul_def MAX_GETDATA_HASHES_def)

end
