(* ===== verification/LW_ManagerChain.thy ===== *)
theory LW_ManagerChain
  imports LW_Manager
begin

text \<open>
  Model of \<^verbatim>\<open>LWPeerManager.c\<close>, second part: the chain of blocks. A block from a peer extends the chain, is on a
  fork that may become the longer chain, is kept as an orphan until its predecessor comes, or is turned down.
\<close>

subsection \<open>Checking a block\<close>

text \<open>The blocks before the previous transition are freed, all but those at a transition.\<close>

partial_function (option) free_old :: "UInt256 \<Rightarrow> 'c LWPeerManager \<Rightarrow> 'c LWPeerManager option" where
  "free_old prevBlock m = Option.bind (get_block m prevBlock) (\<lambda>r.
     case r of None \<Rightarrow> Some m
     | Some (p, b) \<Rightarrow>
         Option.bind
           (if mb_height b mod BLOCK_DIFFICULTY_INTERVAL \<noteq> 0
            then free_block p (m\<lparr>m_blocks := (m_blocks m)(mb_blockHash b := None)\<rparr>) else Some m)
           (\<lambda>m. free_old (mb_prevBlock b) m))"

text \<open>At a transition the one before has to be there; what is older is freed.\<close>

definition check_transition :: "LWMerkleBlock \<Rightarrow> 'c LWPeerManager \<Rightarrow> (bool \<times> 'c LWPeerManager) option" where
  "check_transition block m = do {
     b \<leftarrow> step_back m (unat BLOCK_DIFFICULTY_INTERVAL) (Some block);
     case b of None \<Rightarrow> Some (False, m)
     | Some b \<Rightarrow> do { m \<leftarrow> free_old (mb_prevBlock b) m; Some (True, m) } }"

definition matches_checkpoint :: "LWMerkleBlock \<Rightarrow> 'c LWPeerManager \<Rightarrow> bool option" where
  "matches_checkpoint block m =
     (case m_checkpoints m (mb_height block) of None \<Rightarrow> Some True
      | Some p \<Rightarrow> map_option (\<lambda>checkpoint. UInt256Eq (mb_blockHash block) (mb_blockHash checkpoint)) (block_at m p))"

definition follows :: "LWMerkleBlock \<Rightarrow> LWMerkleBlock option \<Rightarrow> bool" where
  "follows block prev \<longleftrightarrow>
     (case prev of None \<Rightarrow> False
      | Some prev \<Rightarrow> UInt256Eq (mb_prevBlock block) (mb_blockHash prev) \<and> mb_height block = mb_height prev + 1)"

definition LWPeerManagerVerifyBlock :: "LWMerkleBlock \<Rightarrow> LWMerkleBlock option \<Rightarrow> 'c LWPeerManager \<Rightarrow> (bool \<times> 'c LWPeerManager) option" where
  "LWPeerManagerVerifyBlock block prev m =
     (if \<not> follows block prev then Some (False, m)
      else do {
        (r, m) \<leftarrow> (if mb_height block mod BLOCK_DIFFICULTY_INTERVAL = 0 then check_transition block m else Some (True, m));
        if r \<and> verifyDifficulty (m_params m) block (\<lambda>h. Option.bind (m_blocks m h) (block_at m))
        then do { ok \<leftarrow> matches_checkpoint block m; Some (ok, m) }
        else Some (False, m) })"

subsection \<open>A block from a peer\<close>

text \<open>The observed rate of false positives; \<open>unknown\<close> transactions of the block are not the wallet's.\<close>

definition track_rate :: "('p, 's, 'r) manager_env \<Rightarrow> ptr \<Rightarrow> LWMerkleBlock \<Rightarrow> UInt256 list \<Rightarrow> 'c LWPeerManager \<Rightarrow> 'c LWPeerManager option" where
  "track_rate env p block txHashes m =
     (if m_downloadPeer m = Some p \<and> mb_totalTx block > 0 then do {
        fpCount \<leftarrow> fold_m (\<lambda>h n. do { t \<leftarrow> LWWalletTransactionForHash h (m_wallet m); Some (if t = None then n + 1 else n) }) txHashes (0 :: nat);
        let average = m_averageTxPerBlock m * (999 / 1000) + of_nat (unat (mb_totalTx block)) * (1 / 1000);
            rate = m_fpRate m * (1 - 1 / 100 * of_nat (unat (mb_totalTx block)) / average) + 1 / 100 * of_nat fpCount / average;
            m = m\<lparr>m_averageTxPerBlock := average, m_fpRate := rate\<rparr> in do {
        ctx \<leftarrow> peer_at m p;
        if ctx_status ctx = PeerConnected \<and> rate > BLOOM_DEFAULT_FALSEPOSITIVE_RATE * 10 then on_peer p LWPeerDisconnect m
        else do {
          last \<leftarrow> last_block m;
          if mb_height last + 500 < ctx_lastblock ctx \<and> rate > BLOOM_REDUCED_FALSEPOSITIVE_RATE * 10
          then LWPeerManagerUpdateFilter env m else Some m } } }
      else Some m)"

text \<open>
  The cases below tell whether the block is kept, and how many blocks are to be saved. In each of them \<open>b\<close> is
  the block in memory, and \<open>block\<close> its contents.
\<close>

type_synonym 'c outcome = "(bool \<times> nat \<times> 'c LWPeerManager) option"

definition drop_block :: "ptr \<Rightarrow> 'c LWPeerManager \<Rightarrow> 'c outcome" where
  "drop_block b m = do { m \<leftarrow> free_block b m; Some (False, 0, m) }"

definition reschedule :: "('p, 's, 'r) manager_env \<Rightarrow> ptr \<Rightarrow> 'c LWPeerManager \<Rightarrow> 'c LWPeerManager option" where
  "reschedule env p m =
     on_peer p (LWPeerScheduleDisconnect (me_peer env) PROTOCOL_TIMEOUT) (m\<lparr>m_connectFailureCount := 0\<rparr>)"

definition filter_pending :: "('p, 's, 'r) manager_env \<Rightarrow> ptr \<Rightarrow> ptr \<Rightarrow> 'c LWPeerManager \<Rightarrow> 'c outcome" where
  "filter_pending env p b m = do {
     m \<leftarrow> free_block b m;
     behind \<leftarrow> syncing m;
     m \<leftarrow> (if m_downloadPeer m = Some p \<and> behind then reschedule env p m else Some m);
     Some (False, 0, m) }"

definition add_orphan :: "ptr \<Rightarrow> LWMerkleBlock \<Rightarrow> 'c LWPeerManager \<Rightarrow> 'c LWPeerManager" where
  "add_orphan b block m = m\<lparr>m_orphans := (m_orphans m)(mb_prevBlock block \<mapsto> b), m_lastOrphan := Some b\<rparr>"

definition orphan_block :: "('p, 's, 'r) manager_env \<Rightarrow> ptr \<Rightarrow> ptr \<Rightarrow> LWMerkleBlock \<Rightarrow> 'c LWPeerManager \<Rightarrow> 'c outcome" where
  "orphan_block env p b block m =
     (if int (unat (mb_timestamp block + 7 * 24 * 60 * 60)) < pe_time (me_peer env) then drop_block b m
      else do {
        last \<leftarrow> last_block m;
        ctx \<leftarrow> peer_at m p;
        m \<leftarrow> (if mb_height last \<ge> ctx_lastblock ctx then
               (case m_lastOrphan m of None \<Rightarrow> request_blocks env p m
                | Some o' \<Rightarrow> do {
                    orphan \<leftarrow> block_at m o';
                    if \<not> UInt256Eq (mb_blockHash orphan) (mb_prevBlock block) then request_blocks env p m else Some m })
             else Some m);
        Some (True, 0, add_orphan b block m) })"

definition extend_chain :: "('p, 's, 'r) manager_env \<Rightarrow> ptr \<Rightarrow> ptr \<Rightarrow> LWMerkleBlock \<Rightarrow> UInt256 list \<Rightarrow> u32 \<Rightarrow> 'c LWPeerManager \<Rightarrow> 'c outcome" where
  "extend_chain env p b block txHashes txTime m = do {
     let m = m\<lparr>m_blocks := (m_blocks m)(mb_blockHash block \<mapsto> b), m_lastBlock := b\<rparr>;
     m \<leftarrow> (if txHashes \<noteq> [] then LWPeerManagerUpdateTx env txHashes (mb_height block) txTime m else Some m);
     m \<leftarrow> (case m_downloadPeer m of None \<Rightarrow> Some m | Some d \<Rightarrow> on_peer d (LWPeerSetCurrentBlockHeight (mb_height block)) m);
     m \<leftarrow> (if mb_height block < m_estimatedHeight m \<and> m_downloadPeer m = Some p then reschedule env p m else Some m);
     let saveCount = (if mb_height block mod BLOCK_DIFFICULTY_INTERVAL = 0 then 1 else 0);
     if mb_height block = m_estimatedHeight m then do {
       m \<leftarrow> LWPeerManagerLoadMempools env m;
       Some (True, unat (mb_height block mod BLOCK_DIFFICULTY_INTERVAL + BLOCK_DIFFICULTY_INTERVAL + 1), m) }
     else Some (True, saveCount, m) }"

text \<open>From a block down to the first at or below a height, or NULL.\<close>

partial_function (option) descend :: "'c LWPeerManager \<Rightarrow> u32 \<Rightarrow> (ptr \<times> LWMerkleBlock) option \<Rightarrow> (ptr \<times> LWMerkleBlock) option option" where
  "descend m height r =
     (case r of None \<Rightarrow> Some None
      | Some (p, b) \<Rightarrow> if mb_height b > height then Option.bind (get_block m (mb_prevBlock b)) (descend m height) else Some (Some (p, b)))"

text \<open>
  For a block that is there already, or at least its header: its transactions get their height when it is on the
  chain, and the block takes the place of the other copy, which is freed.
\<close>

definition refresh_block :: "('p, 's, 'r) manager_env \<Rightarrow> ptr \<Rightarrow> LWMerkleBlock \<Rightarrow> UInt256 list \<Rightarrow> u32 \<Rightarrow> 'c LWPeerManager \<Rightarrow> 'c LWPeerManager option" where
  "refresh_block env b block txHashes txTime m = do {
     last \<leftarrow> last_block m;
     r \<leftarrow> descend m (mb_height block) (Some (m_lastBlock m, last));
     there \<leftarrow> map_option snd r;
     if UInt256Eq (mb_blockHash there) (mb_blockHash block) then do {
       m \<leftarrow> (if txHashes \<noteq> [] then LWPeerManagerUpdateTx env txHashes (mb_height block) txTime m else Some m);
       Some (if mb_height block = mb_height last then m\<lparr>m_lastBlock := b\<rparr> else m) }
     else Some m }"

definition replace_block :: "ptr \<Rightarrow> LWMerkleBlock \<Rightarrow> 'c LWPeerManager \<Rightarrow> 'c LWPeerManager option" where
  "replace_block b block m = do {
     old \<leftarrow> m_blocks m (mb_blockHash block);
     let m = m\<lparr>m_blocks := (m_blocks m)(mb_blockHash block \<mapsto> b)\<rparr>;
     if old = b then Some m
     else do {
       oldBlock \<leftarrow> block_at m old;
       let m = (if m_orphans m (mb_prevBlock oldBlock) = Some old
                then m\<lparr>m_orphans := (m_orphans m)(mb_prevBlock oldBlock := None)\<rparr> else m);
       free_block old (if m_lastOrphan m = Some old then m\<lparr>m_lastOrphan := None\<rparr> else m) } }"

definition existing_block :: "('p, 's, 'r) manager_env \<Rightarrow> ptr \<Rightarrow> LWMerkleBlock \<Rightarrow> UInt256 list \<Rightarrow> u32 \<Rightarrow> 'c LWPeerManager \<Rightarrow> 'c outcome" where
  "existing_block env b block txHashes txTime m = do {
     m \<leftarrow> refresh_block env b block txHashes txTime m;
     m \<leftarrow> replace_block b block m;
     Some (True, 0, m) }"

text \<open>Where two chains join: the block on each side.\<close>

partial_function (option) join ::
    "'c LWPeerManager \<Rightarrow> LWMerkleBlock option \<Rightarrow> LWMerkleBlock option \<Rightarrow> (LWMerkleBlock option \<times> LWMerkleBlock option) option" where
  "join m b b2 =
     (case (b, b2) of
        (Some x, Some y) \<Rightarrow>
          if UInt256Eq (mb_blockHash x) (mb_blockHash y) then Some (b, b2)
          else Option.bind (get_block m (mb_prevBlock x)) (\<lambda>r. let b = map_option snd r in
            case b of None \<Rightarrow> join m b b2
            | Some x' \<Rightarrow>
                if mb_height x' < mb_height y
                then Option.bind (get_block m (mb_prevBlock y)) (\<lambda>r2. join m b (map_option snd r2))
                else join m b b2)
      | _ \<Rightarrow> Some (b, b2))"

text \<open>The transactions of the blocks above a height get their new heights, from the last block down.\<close>

partial_function (option) set_heights :: "('p, 's, 'r) manager_env \<Rightarrow> u32 \<Rightarrow> LWMerkleBlock option \<Rightarrow> 'c LWPeerManager \<Rightarrow> 'c LWPeerManager option" where
  "set_heights env stop b m =
     (case b of None \<Rightarrow> Some m
      | Some x \<Rightarrow>
          if mb_height x > stop then
            Option.bind (LWMerkleBlockTxHashes x None) (\<lambda>counted.
            Option.bind (LWMerkleBlockTxHashes x (Some (length counted))) (\<lambda>txHashes.
            Option.bind (get_block m (mb_prevBlock x)) (\<lambda>r. let b = map_option snd r;
                timestamp = (case b of None \<Rightarrow> mb_timestamp x | Some y \<Rightarrow> mb_timestamp x div 2 + mb_timestamp y div 2) in
            Option.bind (if txHashes \<noteq> []
                 then on_wallet (LWWalletUpdateTransactions (env_now (me_wallet env)) txHashes (mb_height x) timestamp) m else Some m)
              (set_heights env stop b))))
          else Some m)"

text \<open>The longer chain becomes the main one.\<close>

definition switch_chain :: "('p, 's, 'r) manager_env \<Rightarrow> ptr \<Rightarrow> LWMerkleBlock \<Rightarrow> LWMerkleBlock \<Rightarrow> 'c LWPeerManager \<Rightarrow> 'c LWPeerManager option" where
  "switch_chain env b block tip m = do {
     (x, y) \<leftarrow> join m (Some block) (Some tip);
     x \<leftarrow> x;
     m \<leftarrow> on_wallet (LWWalletSetTxUnconfirmedAfter (env_now (me_wallet env)) (mb_height x)) m;
     m \<leftarrow> (case y of None \<Rightarrow> Some m | Some y \<Rightarrow> set_heights env (mb_height y) (Some block) m);
     Some (m\<lparr>m_lastBlock := b\<rparr>) }"

definition fork_block :: "('p, 's, 'r) manager_env \<Rightarrow> ptr \<Rightarrow> LWMerkleBlock \<Rightarrow> 'c LWPeerManager \<Rightarrow> 'c outcome" where
  "fork_block env b block m = do {
     let m = m\<lparr>m_blocks := (m_blocks m)(mb_blockHash block \<mapsto> b)\<rparr>;
     last \<leftarrow> last_block m;
     if mb_height block > mb_height last then do {
       m \<leftarrow> switch_chain env b block last m;
       if mb_height block = m_estimatedHeight m then do {
         m \<leftarrow> LWPeerManagerLoadMempools env m;
         Some (True, unat (mb_height block mod BLOCK_DIFFICULTY_INTERVAL + BLOCK_DIFFICULTY_INTERVAL + 1), m) }
       else Some (True, 0, m) }
     else Some (True, 0, m) }"

text \<open>Where a valid block belongs.\<close>

definition accept_block :: "('p, 's, 'r) manager_env \<Rightarrow> ptr \<Rightarrow> ptr \<Rightarrow> LWMerkleBlock \<Rightarrow> UInt256 list \<Rightarrow> u32 \<Rightarrow> 'c LWPeerManager \<Rightarrow> 'c outcome" where
  "accept_block env p b block txHashes txTime m = do {
     last \<leftarrow> last_block m;
     ctx \<leftarrow> peer_at m p;
     if UInt256Eq (mb_prevBlock block) (mb_blockHash last) then extend_chain env p b block txHashes txTime m
     else if m_blocks m (mb_blockHash block) \<noteq> None then existing_block env b block txHashes txTime m
     else if mb_height last < ctx_lastblock ctx \<and> mb_height block > mb_height last + 1
     then Some (True, 0, add_orphan b block m)
     else do {
       c \<leftarrow> deref (checkpoints (m_params m)) (length (checkpoints (m_params m)) - 1);
       if mb_height block \<le> cp_height c then drop_block b m else fork_block env b block m } }"

definition place_block :: "('p, 's, 'r) manager_env \<Rightarrow> ptr \<Rightarrow> ptr \<Rightarrow> LWMerkleBlock \<Rightarrow> LWMerkleBlock option \<Rightarrow> UInt256 list \<Rightarrow> u32 \<Rightarrow>
    'c LWPeerManager \<Rightarrow> 'c outcome" where
  "place_block env p b block prev txHashes txTime m =
     (if mb_totalTx block = 0 \<and> mb_timestamp block + 7 * 24 * 60 * 60 > m_earliestKeyTime m + 2 * 60 * 60 then drop_block b m
      else if m_bloomFilter m = None then filter_pending env p b m
      else if prev = None then orphan_block env p b block m
      else do {
        (ok, m) \<leftarrow> LWPeerManagerVerifyBlock block prev m;
        if ok then accept_block env p b block txHashes txTime m
        else do {
          (kept, n, m) \<leftarrow> drop_block b m;
          m \<leftarrow> LWPeerManagerPeerMisbehavin p m;
          Some (kept, n, m) } })"

text \<open>At most \<open>n\<close> blocks from a block down are saved, the last of them at a transition.\<close>

fun save_chain :: "'c LWPeerManager \<Rightarrow> nat \<Rightarrow> LWMerkleBlock option \<Rightarrow> LWMerkleBlock list option" where
  "save_chain m 0 b = Some []"
| "save_chain m (Suc n) b =
     (case b of None \<Rightarrow> Some []
      | Some x \<Rightarrow>
          if mb_height x = BLOCK_UNKNOWN_HEIGHT then None
          else do { r \<leftarrow> get_block m (mb_prevBlock x); rest \<leftarrow> save_chain m n (map_option snd r); Some (x # rest) })"

definition cut_saved :: "LWMerkleBlock list \<Rightarrow> LWMerkleBlock list option" where
  "cut_saved bs =
     (let i = length bs; I = unat BLOCK_DIFFICULTY_INTERVAL;
          j = (if i > 0 then unat (mb_height (bs ! (i - 1)) mod BLOCK_DIFFICULTY_INTERVAL) else 0);
          i = (if j > 0 then i - (if i > I - j then I - j else i) else i)
      in if i = 0 \<or> mb_height (bs ! (i - 1)) mod BLOCK_DIFFICULTY_INTERVAL = 0 then Some (take i bs) else None)"

text \<open>What follows for a block that has its place: the orphan that comes next is taken from the set and returned.\<close>

definition finish_block :: "ptr \<Rightarrow> LWMerkleBlock \<Rightarrow> bool \<Rightarrow> nat \<Rightarrow> 'c LWPeerManager \<Rightarrow> (ptr option \<times> 'c LWPeerManager) option" where
  "finish_block p block kept saveCount m =
     (let known = kept \<and> mb_height block \<noteq> BLOCK_UNKNOWN_HEIGHT;
          m = (if known \<and> mb_height block > m_estimatedHeight m then m\<lparr>m_estimatedHeight := mb_height block\<rparr> else m);
          next = (if known then m_orphans m (mb_blockHash block) else None);
          m = (if known then m\<lparr>m_orphans := (m_orphans m)(mb_blockHash block := None)\<rparr> else m) in do {
        bs \<leftarrow> save_chain m saveCount (if kept then Some block else None);
        saved \<leftarrow> cut_saved bs;
        ctx \<leftarrow> peer_at m p;
        Some (next, tell ((if saved \<noteq> [] then [SaveBlocks (length saved > 1) saved] else []) @
                          (if known \<and> mb_height block \<ge> ctx_lastblock ctx then [TxStatusUpdate] else [])) m) })"

definition with_height :: "LWMerkleBlock option \<Rightarrow> LWMerkleBlock \<Rightarrow> LWMerkleBlock" where
  "with_height prev block = (case prev of None \<Rightarrow> block | Some pr \<Rightarrow> block\<lparr>mb_height := mb_height pr + 1\<rparr>)"

partial_function (option) relayed_block :: "('p, 's, 'r) manager_env \<Rightarrow> ptr \<Rightarrow> ptr \<Rightarrow> 'c LWPeerManager \<Rightarrow> 'c LWPeerManager option" where
  "relayed_block env p b m =
     Option.bind (block_at m b) (\<lambda>old.
     Option.bind (LWMerkleBlockTxHashes old None) (\<lambda>counted.
     Option.bind (LWMerkleBlockTxHashes old (Some (length counted))) (\<lambda>txHashes.
     Option.bind (get_block m (mb_prevBlock old)) (\<lambda>r.
     let prev = map_option snd r; block = with_height prev old;
         txTime = (case prev of None \<Rightarrow> 0 | Some pr \<Rightarrow> mb_timestamp block div 2 + mb_timestamp pr div 2) in
     Option.bind (track_rate env p block txHashes (m\<lparr>m_memory := (m_memory m)(b \<mapsto> block)\<rparr>)) (\<lambda>m.
     Option.bind (place_block env p b block prev txHashes txTime m) (\<lambda>(kept, saveCount, m).
     Option.bind (finish_block p block kept saveCount m) (\<lambda>(next, m).
     case next of None \<Rightarrow> Some m | Some n \<Rightarrow> relayed_block env p n m)))))))"

text \<open>A new object.\<close>

definition new_block :: "LWMerkleBlock \<Rightarrow> 'c LWPeerManager \<Rightarrow> ptr \<times> 'c LWPeerManager" where
  "new_block block m = (m_next m, m\<lparr>m_memory := (m_memory m)(m_next m \<mapsto> block), m_next := m_next m + 1\<rparr>)"

definition peerRelayedBlock :: "('p, 's, 'r) manager_env \<Rightarrow> ptr \<Rightarrow> LWMerkleBlock \<Rightarrow> 'c LWPeerManager \<Rightarrow> 'c LWPeerManager option" where
  "peerRelayedBlock env p block m = (let (b, m) = new_block block m in relayed_block env p b m)"

end
