(* ===== verification/LW_ManagerPeers.thy ===== *)
theory LW_ManagerPeers
  imports LW_ManagerChain
begin

text \<open>
  Model of \<^verbatim>\<open>LWPeerManager.c\<close>, third part: connecting to peers, what is done when a peer is connected, disconnected
  or relays something, and the operations of the user of the manager.
\<close>

subsection \<open>Connecting\<close>

definition initial_manager :: "LWChainParams \<Rightarrow> LWWallet \<Rightarrow> u32 \<Rightarrow> (LWPeer list \<Rightarrow> LWPeer list) \<Rightarrow> LWPeer list \<Rightarrow> 'c LWPeerManager" where
  "initial_manager params wallet earliestKeyTime qsort peers =
     \<lparr>m_params = params, m_wallet = wallet, m_isConnected = False, m_connectFailureCount = 0, m_misbehavinCount = 0,
      m_dnsThreadCount = 0, m_maxConnectCount = PEER_MAX_CONNECTIONS, m_peers = qsort peers, m_downloadPeer = None,
      m_fixedPeer = \<lparr>peer_address = replicate 16 0, peer_port = 0, peer_services = 0, peer_timestamp = 0, peer_flags = 0\<rparr>,
      m_connectedPeers = [], m_earliestKeyTime = earliestKeyTime, m_syncStartHeight = 0, m_filterUpdateHeight = 0,
      m_estimatedHeight = 0, m_bloomFilter = None, m_fpRate = 0, m_averageTxPerBlock = 1400, m_memory = Map.empty,
      m_blocks = Map.empty, m_orphans = Map.empty, m_checkpoints = Map.empty, m_lastBlock = 0, m_lastOrphan = None,
      m_txRelays = [], m_txRequests = [], m_publishedTx = [], m_publishedTxHashes = [], m_next = 1, m_events = []\<rparr>"

definition checkpoint_block :: "LWCheckPoint \<Rightarrow> LWMerkleBlock" where
  "checkpoint_block c = LWMerkleBlockNew\<lparr>mb_height := cp_height c, mb_blockHash := UInt256Reverse (cp_hash c),
     mb_timestamp := cp_timestamp c, mb_target := cp_target c\<rparr>"

text \<open>A checkpoint more than a week before the first key is where the chain starts; the first one always is.\<close>

definition add_checkpoint :: "nat \<times> LWCheckPoint \<Rightarrow> 'c LWPeerManager \<Rightarrow> 'c LWPeerManager" where
  "add_checkpoint = (\<lambda>(i, c) m.
     let block = checkpoint_block c; (b, m) = new_block block m;
         m = m\<lparr>m_checkpoints := (m_checkpoints m)(cp_height c \<mapsto> b), m_blocks := (m_blocks m)(mb_blockHash block \<mapsto> b)\<rparr>
     in if i = 0 \<or> cp_timestamp c + 7 * 24 * 60 * 60 < m_earliestKeyTime m then m\<lparr>m_lastBlock := b\<rparr> else m)"

text \<open>A stored block; \<open>best\<close> is the last transition block so far.\<close>

definition add_stored :: "LWMerkleBlock \<Rightarrow> (ptr \<times> LWMerkleBlock) option \<times> 'c LWPeerManager \<Rightarrow> ((ptr \<times> LWMerkleBlock) option \<times> 'c LWPeerManager) option" where
  "add_stored block = (\<lambda>(best, m).
     if mb_height block = BLOCK_UNKNOWN_HEIGHT then None
     else
       (let (b, m) = new_block block m; m = m\<lparr>m_orphans := (m_orphans m)(mb_prevBlock block \<mapsto> b)\<rparr> in
        Some (if mb_height block mod BLOCK_DIFFICULTY_INTERVAL = 0 \<and>
                 (case best of None \<Rightarrow> True | Some (q, x) \<Rightarrow> mb_height block > mb_height x)
              then Some (b, block) else best, m)))"

definition get_orphan :: "'c LWPeerManager \<Rightarrow> UInt256 \<Rightarrow> (ptr \<times> LWMerkleBlock) option option" where
  "get_orphan m h = (case m_orphans m h of None \<Rightarrow> Some None | Some p \<Rightarrow> map_option (\<lambda>b. Some (p, b)) (block_at m p))"

text \<open>The stored blocks from the last transition on become the chain.\<close>

partial_function (option) link_stored :: "(ptr \<times> LWMerkleBlock) option \<Rightarrow> 'c LWPeerManager \<Rightarrow> 'c LWPeerManager option" where
  "link_stored r m =
     (case r of None \<Rightarrow> Some m
      | Some (b, block) \<Rightarrow>
          (let m = m\<lparr>m_blocks := (m_blocks m)(mb_blockHash block \<mapsto> b), m_lastBlock := b,
                     m_orphans := (m_orphans m)(mb_prevBlock block := None)\<rparr> in
           Option.bind (get_orphan m (mb_blockHash block)) (\<lambda>r. link_stored r m)))"

definition LWPeerManagerNew :: "LWChainParams \<Rightarrow> LWWallet \<Rightarrow> u32 \<Rightarrow> LWMerkleBlock list \<Rightarrow> (LWPeer list \<Rightarrow> LWPeer list) \<Rightarrow> LWPeer list \<Rightarrow>
    'c LWPeerManager option" where
  "LWPeerManagerNew params wallet earliestKeyTime blocks qsort peers =
     (if standardPort params = 0 then None
      else do {
        let m = fold add_checkpoint (enumerate 0 (checkpoints params)) (initial_manager params wallet earliestKeyTime qsort peers);
        (best, m) \<leftarrow> fold_m add_stored blocks (None, m);
        link_stored best m })"

text \<open>The thread that looks up one host: addresses up to the first zero, with ages of one to three days.\<close>

definition all_services :: "'c LWPeerManager \<Rightarrow> u64" where
  "all_services m = SERVICES_NODE_NETWORK OR SERVICES_NODE_BLOOM OR services (m_params m)"

definition dns_peer :: "'c LWPeerManager \<Rightarrow> u64 \<Rightarrow> bytes \<Rightarrow> LWPeer" where
  "dns_peer m timestamp addr = \<lparr>peer_address = addr, peer_port = standardPort (m_params m), peer_services = all_services m,
     peer_timestamp = timestamp, peer_flags = 0\<rparr>"

definition findPeersThreadRoutine :: "('p, 's, 'r) manager_env \<Rightarrow> string \<Rightarrow> u32 list \<times> 'c LWPeerManager \<Rightarrow> (u32 list \<times> 'c LWPeerManager) option" where
  "findPeersThreadRoutine env host = (\<lambda>(rs, m). do {
     (rs, m) \<leftarrow> fold_m (\<lambda>addr (rs, m). do {
        (r, rs) \<leftarrow> LWRand (2 * 24 * 60 * 60) rs;
        Some (rs, m\<lparr>m_peers := m_peers m @
          [dns_peer m (of_int (pe_time (me_peer env) - (24 * 60 * 60 + int (unat r)))) addr]\<rparr>) })
       (takeWhile (\<lambda>a. \<not> UInt128IsZero a) (me_lookup env host)) (rs, m);
     Some (rs, m\<lparr>m_dnsThreadCount := m_dnsThreadCount m - 1\<rparr>) })"

definition LWPeerManagerFindPeers :: "('p, 's, 'r) manager_env \<Rightarrow> u32 list \<Rightarrow> 'c LWPeerManager \<Rightarrow> (u32 list \<times> 'c LWPeerManager) option" where
  "LWPeerManagerFindPeers env rs m =
     (let now = of_int (pe_time (me_peer env)) in
      if \<not> UInt128IsZero (peer_address (m_fixedPeer m))
      then Some (rs, m\<lparr>m_peers := [(m_fixedPeer m)\<lparr>peer_services := all_services m, peer_timestamp := now\<rparr>]\<rparr>)
      else do {
        host \<leftarrow> deref (dnsSeeds (m_params m)) 0;
        let m = m\<lparr>m_dnsThreadCount := m_dnsThreadCount m + (length (dnsSeeds (m_params m)) - 1)\<rparr>;
        let m = m\<lparr>m_peers := m_peers m @ map (dns_peer m now) (takeWhile (\<lambda>a. \<not> UInt128IsZero a) (me_lookup env host))\<rparr>;
        (rs, m) \<leftarrow> fold_m (findPeersThreadRoutine env) (me_finished env) (rs, m);
        if m_dnsThreadCount m > 0 \<and> length (m_peers m) < PEER_MAX_CONNECTIONS then None
        else Some (rs, m\<lparr>m_peers := me_qsort env (m_peers m)\<rparr>) })"

text \<open>A peer is drawn from the candidates, the first ones being favoured, unless it is connected already.\<close>

definition new_peer :: "('p, 's, 'r) manager_env \<Rightarrow> LWPeer \<Rightarrow> 'c LWPeerManager \<Rightarrow> 'c LWPeerManager" where
  "new_peer env peer m =
     (let ctx = LWPeerNew (magicNumber (m_params m));
          ctx = ctx\<lparr>peer_address := peer_address peer, peer_port := peer_port peer, peer_services := peer_services peer,
                    peer_timestamp := peer_timestamp peer, peer_flags := peer_flags peer\<rparr>;
          ctx = LWPeerSetEarliestKeyTime (m_earliestKeyTime m) ctx
      in m\<lparr>m_connectedPeers := m_connectedPeers m @ [(m_next m, snd (LWPeerConnect (me_peer env) ctx))], m_next := m_next m + 1\<rparr>)"

function choose_peers :: "('p, 's, 'r) manager_env \<Rightarrow> LWPeer list \<Rightarrow> u32 list \<Rightarrow> 'c LWPeerManager \<Rightarrow> (u32 list \<times> 'c LWPeerManager) option" where
  "choose_peers env peers rs m =
     (if length peers > 0 \<and> length (m_connectedPeers m) < m_maxConnectCount m then
        (case LWRand (of_nat (length peers)) rs of None \<Rightarrow> None
         | Some (r, rs) \<Rightarrow>
             (let i = unat r * unat r div length peers; peer = peers ! i; rest = take i peers @ drop (i + 1) peers in
              if i \<ge> length peers then None
              else choose_peers env rest rs
                (if list_ex (\<lambda>(p, ctx). LWPeerEq peer (as_peer ctx)) (m_connectedPeers m) then m else new_peer env peer m)))
      else Some (rs, m))"
  by pat_completeness auto
termination by (relation "measure (\<lambda>(env, peers, rs, m). length peers)") (auto simp: min_def)

declare choose_peers.simps [simp del]

text \<open>A synchronisation starts; peers that are to connect are connected; more peers are looked for.\<close>

definition begin_sync :: "'c LWPeerManager \<Rightarrow> 'c LWPeerManager option" where
  "begin_sync m = do {
     last \<leftarrow> last_block m;
     Some (if (m_downloadPeer m = None \<or> mb_height last < m_estimatedHeight m) \<and> m_syncStartHeight m = 0
           then tell [SyncStarted] (m\<lparr>m_syncStartHeight := mb_height last + 1\<rparr>) else m) }"

definition reconnect :: "('p, 's, 'r) manager_env \<Rightarrow> 'c LWPeerManager \<Rightarrow> 'c LWPeerManager" where
  "reconnect env m = m\<lparr>m_connectedPeers := map (\<lambda>(p, ctx). (p, if ctx_status ctx = PeerConnecting
     then snd (LWPeerConnect (me_peer env) ctx) else ctx)) (m_connectedPeers m)\<rparr>"

definition more_peers :: "('p, 's, 'r) manager_env \<Rightarrow> u32 list \<Rightarrow> 'c LWPeerManager \<Rightarrow> (u32 list \<times> 'c LWPeerManager) option" where
  "more_peers env rs m =
     (if length (m_connectedPeers m) < m_maxConnectCount m then do {
        old \<leftarrow> (if length (m_peers m) < m_maxConnectCount m then Some True
               else do { peer \<leftarrow> deref (m_peers m) (m_maxConnectCount m - 1);
                         Some (peer_timestamp peer + 3 * 24 * 60 * 60 < of_int (pe_time (me_peer env))) });
        (rs, m) \<leftarrow> (if old then LWPeerManagerFindPeers env rs m else Some (rs, m));
        choose_peers env (take 100 (m_peers m)) rs m }
      else Some (rs, m))"

definition LWPeerManagerConnect :: "('p, 's, 'r) manager_env \<Rightarrow> u32 list \<Rightarrow> 'c LWPeerManager \<Rightarrow> (u32 list \<times> 'c LWPeerManager) option" where
  "LWPeerManagerConnect env rs m = do {
     m \<leftarrow> begin_sync (if m_connectFailureCount m \<ge> MAX_CONNECT_FAILURES then m\<lparr>m_connectFailureCount := 0\<rparr> else m);
     (rs, m) \<leftarrow> more_peers env rs (reconnect env m);
     if m_connectedPeers m = [] then do {
       m \<leftarrow> LWPeerManagerSyncStopped (me_peer env) m;
       Some (rs, tell [SyncStopped (Some ENETUNREACH)] m) }
     else Some (rs, m) }"

text \<open>After this the call waits until no peer and no thread is left.\<close>

definition LWPeerManagerDisconnect :: "'c LWPeerManager \<Rightarrow> 'c LWPeerManager" where
  "LWPeerManagerDisconnect m =
     m\<lparr>m_connectFailureCount := (if m_connectedPeers m \<noteq> [] then MAX_CONNECT_FAILURES else m_connectFailureCount m),
       m_connectedPeers := map (\<lambda>(p, ctx). (p, LWPeerDisconnect ctx)) (m_connectedPeers m)\<rparr>"

definition all_disconnected :: "'c LWPeerManager \<Rightarrow> bool" where
  "all_disconnected m \<longleftrightarrow> m_connectedPeers m = [] \<and> m_dnsThreadCount m = 0"

text \<open>What is done once all are disconnected.\<close>

definition LWPeerManagerSetFixedPeer :: "bytes \<Rightarrow> u16 \<Rightarrow> 'c LWPeerManager \<Rightarrow> 'c LWPeerManager option" where
  "LWPeerManagerSetFixedPeer address port m =
     (if \<not> all_disconnected m then None
      else Some (m\<lparr>m_maxConnectCount := (if UInt128IsZero address then PEER_MAX_CONNECTIONS else 1),
             m_fixedPeer := \<lparr>peer_address = address, peer_port = port, peer_services = 0, peer_timestamp = 0, peer_flags = 0\<rparr>,
             m_peers := []\<rparr>))"

definition LWPeerManagerRescan :: "('p, 's, 'r) manager_env \<Rightarrow> u32 list \<Rightarrow> 'c LWPeerManager \<Rightarrow> (u32 list \<times> 'c LWPeerManager) option" where
  "LWPeerManagerRescan env rs m =
     (if \<not> m_isConnected m then Some (rs, m)
      else do {
        let cs = checkpoints (m_params m);
        m \<leftarrow> (case find (\<lambda>i. i = 0 \<or> cp_timestamp (cs ! i) + 7 * 24 * 60 * 60 < m_earliestKeyTime m) (rev [0..<length cs]) of
               None \<Rightarrow> Some m
             | Some i \<Rightarrow> map_option (\<lambda>b. m\<lparr>m_lastBlock := b\<rparr>) (m_blocks m (UInt256Reverse (cp_hash (cs ! i)))));
        m \<leftarrow> (case m_downloadPeer m of None \<Rightarrow> Some m
             | Some d \<Rightarrow> do {
                 ctx \<leftarrow> peer_at m d;
                 on_peer d LWPeerDisconnect (m\<lparr>m_peers := without_peer (as_peer ctx) (m_peers m)\<rparr>) });
        LWPeerManagerConnect env rs (m\<lparr>m_syncStartHeight := 0\<rparr>) })"


subsection \<open>Handlers\<close>

text \<open>The peer with the lowest ping time, or with a higher chain, becomes the one to download from.\<close>

definition ping_less :: "rat option \<Rightarrow> rat option \<Rightarrow> bool" where
  "ping_less s t = (case s of None \<Rightarrow> False | Some s \<Rightarrow> (case t of None \<Rightarrow> True | Some t \<Rightarrow> s < t))"

definition better_peer :: "ptr \<times> peer_context \<Rightarrow> ptr \<times> peer_context \<Rightarrow> ptr \<times> peer_context" where
  "better_peer = (\<lambda>(q, c) (p, ctx).
     if ctx_status c = PeerConnected \<and>
        (ping_less (ctx_pingTime c) (ctx_pingTime ctx) \<and> ctx_lastblock c \<ge> ctx_lastblock ctx \<or> ctx_lastblock c > ctx_lastblock ctx)
     then (q, c) else (p, ctx))"

definition start_download :: "('p, 's, 'r) manager_env \<Rightarrow> ptr \<Rightarrow> peer_context \<Rightarrow> 'c LWPeerManager \<Rightarrow> 'c LWPeerManager option" where
  "start_download env p ctx m = do {
     last \<leftarrow> last_block m;
     if mb_height last < ctx_lastblock ctx then do {
       locators \<leftarrow> LWPeerManagerBlockLocators m;
       m \<leftarrow> on_peer p (LWPeerScheduleDisconnect (me_peer env) PROTOCOL_TIMEOUT) m;
       if mb_timestamp last + 7 * 24 * 60 * 60 \<ge> m_earliestKeyTime m
       then on_peer p (LWPeerSendGetblocks (me_peer env) locators UINT256_ZERO) m
       else on_peer p (LWPeerSendGetheaders (me_peer env) locators UINT256_ZERO) m }
     else LWPeerManagerLoadMempools env (m\<lparr>m_connectFailureCount := 0\<rparr>) }"

definition select_download :: "('p, 's, 'r) manager_env \<Rightarrow> ptr \<Rightarrow> peer_context \<Rightarrow> 'c LWPeerManager \<Rightarrow> 'c LWPeerManager option" where
  "select_download env p ctx m = do {
     let (p, ctx) = fold better_peer (rev (m_connectedPeers m)) (p, ctx);
     m \<leftarrow> (case m_downloadPeer m of None \<Rightarrow> Some m | Some d \<Rightarrow> on_peer d LWPeerDisconnect m);
     m \<leftarrow> LWPeerManagerLoadBloomFilter env p (m\<lparr>m_downloadPeer := Some p, m_isConnected := True, m_estimatedHeight := ctx_lastblock ctx\<rparr>);
     last \<leftarrow> last_block m;
     m \<leftarrow> on_peer p (LWPeerSetCurrentBlockHeight (mb_height last)) m;
     m \<leftarrow> LWPeerManagerPublishPendingTx env p m;
     start_download env p ctx m }"

text \<open>A peer without the services that are needed, or with a chain that is behind, is left.\<close>

definition unwanted_peer :: "'c LWPeerManager \<Rightarrow> peer_context \<Rightarrow> LWMerkleBlock \<Rightarrow> bool" where
  "unwanted_peer m ctx tip \<longleftrightarrow>
     peer_services ctx AND services (m_params m) \<noteq> services (m_params m) \<or>
     peer_services ctx AND SERVICES_NODE_NETWORK \<noteq> SERVICES_NODE_NETWORK \<or>
     ctx_lastblock ctx + 10 < mb_height tip \<or>
     ctx_version ctx \<ge> 70011 \<and> peer_services ctx AND SERVICES_NODE_BLOOM \<noteq> SERVICES_NODE_BLOOM"

definition start_second :: "('p, 's, 'r) manager_env \<Rightarrow> ptr \<Rightarrow> 'c LWPeerManager \<Rightarrow> 'c LWPeerManager option" where
  "start_second env p m = do {
     m \<leftarrow> LWPeerManagerLoadBloomFilter env p (m\<lparr>m_connectFailureCount := 0\<rparr>);
     m \<leftarrow> LWPeerManagerPublishPendingTx env p m;
     on_peer p (LWPeerSendPing (me_peer env) (Some (LoadBloomFilterDone p))) m }"

definition peerConnected :: "('p, 's, 'r) manager_env \<Rightarrow> ptr \<Rightarrow> 'c LWPeerManager \<Rightarrow> 'c LWPeerManager option" where
  "peerConnected env p m = do {
     let now = of_int (pe_time (me_peer env));
     m \<leftarrow> on_peer p (\<lambda>ctx. if peer_timestamp ctx > now + 2 * 60 * 60 \<or> peer_timestamp ctx < now - 2 * 60 * 60
           then ctx\<lparr>peer_timestamp := now\<rparr> else ctx) m;
     ctx \<leftarrow> peer_at m p;
     last \<leftarrow> last_block m;
     download \<leftarrow> (case m_downloadPeer m of None \<Rightarrow> Some None | Some d \<Rightarrow> map_option Some (peer_at m d));
     if unwanted_peer m ctx last then on_peer p LWPeerDisconnect m
     else if (case download of None \<Rightarrow> False
              | Some d \<Rightarrow> ctx_lastblock d \<ge> ctx_lastblock ctx \<or> mb_height last \<ge> ctx_lastblock ctx)
     then (if mb_height last \<ge> ctx_lastblock ctx then start_second env p m else Some m)
     else select_download env p ctx m }"


text \<open>An object that is freed although the wallet still has it is gone from the wallet's table.\<close>

definition free_tx :: "tx_ref \<Rightarrow> 'c LWPeerManager \<Rightarrow> 'c LWPeerManager option" where
  "free_tx r m =
     (case r of OwnTx tx \<Rightarrow> Some m
      | WalletTx h \<Rightarrow> if w_allTx (m_wallet m) h = None then None
          else Some (m\<lparr>m_wallet := (m_wallet m)\<lparr>w_allTx := (w_allTx (m_wallet m))(h := None)\<rparr>\<rparr>))"

text \<open>The transactions with a callback are given up, from the last one; the callbacks are returned.\<close>

definition cancel_published :: "'c LWPeerManager \<Rightarrow> ('c list \<times> 'c LWPeerManager) option" where
  "cancel_published m =
     fold_m (\<lambda>i (ks, m). do {
        t \<leftarrow> deref (m_publishedTx m) i;
        case pub_callback t of None \<Rightarrow> Some (ks, m)
        | Some k \<Rightarrow> do { m \<leftarrow> free_tx (pub_tx t) m; m \<leftarrow> unpublish i m; Some (ks @ [k], m) } })
       (rev [0..<length (m_publishedTx m)]) ([], m)"

text \<open>What an error says of the peer, and the error the publishers are told.\<close>

definition blame :: "ptr \<Rightarrow> errno option \<Rightarrow> LWPeer \<Rightarrow> 'c LWPeerManager \<Rightarrow> (errno option \<times> 'c LWPeerManager) option" where
  "blame p error peer m =
     (case error of
        None \<Rightarrow> Some (None, m)
      | Some e \<Rightarrow>
          if e = EPROTO then do { m \<leftarrow> LWPeerManagerPeerMisbehavin p m; Some (None, m) }
          else Some (if e = ETIMEDOUT \<and> (m_downloadPeer m \<noteq> Some p \<or> m_syncStartHeight m = 0 \<or> length (m_connectedPeers m) = 1)
                     then Some ETIMEDOUT else None,
                     m\<lparr>m_peers := without_peer peer (m_peers m), m_connectFailureCount := m_connectFailureCount m + 1\<rparr>))"

definition leave_peer :: "ptr \<Rightarrow> LWPeer \<Rightarrow> 'c LWPeerManager \<Rightarrow> 'c LWPeerManager" where
  "leave_peer p peer m =
     (let m = m\<lparr>m_txRelays := map (\<lambda>(h, ps). (h, without_peer peer ps)) (m_txRelays m)\<rparr> in
      if m_downloadPeer m = Some p
      then m\<lparr>m_isConnected := False, m_downloadPeer := None,
             m_connectFailureCount := min (m_connectFailureCount m) MAX_CONNECT_FAILURES\<rparr> else m)"

text \<open>The order of the calls behind the lock: publishers, then peers and the end of the synchronisation, a new connection, and the status.\<close>

definition peerDisconnected :: "('p, 's, 'r) manager_env \<Rightarrow> ptr \<Rightarrow> errno option \<Rightarrow> u32 list \<Rightarrow> 'c LWPeerManager \<Rightarrow> (u32 list \<times> 'c LWPeerManager) option" where
  "peerDisconnected env p error rs m = do {
     ctx \<leftarrow> peer_at m p;
     (txError, m) \<leftarrow> blame p error (as_peer ctx) m;
     let m = leave_peer p (as_peer ctx) m;
     let failed = (\<not> m_isConnected m \<and> m_connectFailureCount m = MAX_CONNECT_FAILURES);
     let willReconnect = (\<not> failed \<and> m_connectFailureCount m < MAX_CONNECT_FAILURES);
     (txError, m) \<leftarrow> (if failed then do { m \<leftarrow> LWPeerManagerSyncStopped (me_peer env) m; Some (Some ENOTCONN, m\<lparr>m_peers := []\<rparr>) }
                      else Some (txError, m));
     (ks, m) \<leftarrow> (if txError \<noteq> None then cancel_published m else Some ([], m));
     let m = m\<lparr>m_connectedPeers := filter (\<lambda>(q, ctx). q \<noteq> p) (m_connectedPeers m)\<rparr>;
     let m = tell (map (\<lambda>k. PublishDone k txError) ks @ (if failed then [SavePeers True [], SyncStopped error] else [])) m;
     (rs, m) \<leftarrow> (if willReconnect then LWPeerManagerConnect env rs m else Some (rs, m));
     Some (rs, tell [TxStatusUpdate] m) }"

fun trim_peers :: "u64 \<Rightarrow> LWPeer list \<Rightarrow> LWPeer list" where
  "trim_peers now [] = []"
| "trim_peers now (p # ps) =
     (if length (p # ps) > 1000 \<and> peer_timestamp p + 3 * 60 * 60 < now then trim_peers now ps else p # ps)"

text \<open>The peers are kept in the order of their times, the latest first; old ones at the end go.\<close>

definition peerRelayedPeers :: "('p, 's, 'r) manager_env \<Rightarrow> ptr \<Rightarrow> LWPeer list \<Rightarrow> 'c LWPeerManager \<Rightarrow> 'c LWPeerManager" where
  "peerRelayedPeers env p peers m =
     (let ps = take 2500 (me_qsort env (m_peers m @ peers));
          ps = rev (trim_peers (of_int (pe_time (me_peer env))) (rev ps))
      in tell (if length ps > 1 \<and> length ps < 1000 then [SavePeers True ps] else []) (m\<lparr>m_peers := ps\<rparr>))"

subsection \<open>Transactions from peers\<close>

text \<open>
  The published transactions with a hash are claimed from the last one on: their callbacks are taken, and the
  peer is noted to have them. \<open>pending\<close> says that other callbacks wait.
\<close>

definition claim_step :: "UInt256 \<Rightarrow> LWPeer \<Rightarrow> nat \<Rightarrow> tx_ref option \<times> 'c option \<times> bool \<times> nat \<times> 'c LWPeerManager \<Rightarrow>
    (tx_ref option \<times> 'c option \<times> bool \<times> nat \<times> 'c LWPeerManager) option" where
  "claim_step txHash peer i = (\<lambda>(ref, callback, pending, relayCount, m). do {
     h \<leftarrow> deref (m_publishedTxHashes m) i;
     t \<leftarrow> deref (m_publishedTx m) i;
     if UInt256Eq h txHash then
       (let (n, relays) = LWTxPeerListAddPeer (m_txRelays m) txHash peer in
        Some (if ref = None then Some (pub_tx t) else ref, pub_callback t, pending, n,
              m\<lparr>m_publishedTx := (m_publishedTx m)[i := t\<lparr>pub_callback := None\<rparr>], m_txRelays := relays\<rparr>))
     else Some (ref, callback, pending \<or> pub_callback t \<noteq> None, relayCount, m) })"

definition claim_published :: "UInt256 \<Rightarrow> LWPeer \<Rightarrow> tx_ref option \<Rightarrow> 'c LWPeerManager \<Rightarrow>
    (tx_ref option \<times> 'c option \<times> bool \<times> nat \<times> 'c LWPeerManager) option" where
  "claim_published txHash peer ref m =
     fold_m (claim_step txHash peer) (rev [0..<length (m_publishedTx m)]) (ref, None, False, 0, m)"

definition cancel_timeout :: "('p, 's, 'r) manager_env \<Rightarrow> ptr \<Rightarrow> bool \<Rightarrow> 'c LWPeerManager \<Rightarrow> 'c LWPeerManager option" where
  "cancel_timeout env p pending m =
     (if \<not> pending \<and> (m_syncStartHeight m = 0 \<or> m_downloadPeer m \<noteq> Some p)
      then on_peer p (LWPeerScheduleDisconnect (me_peer env) (- 1)) m else Some m)"

text \<open>A published object of its own becomes the wallet's when the wallet keeps it.\<close>

definition register_tx :: "('p, 's, 'r) manager_env \<Rightarrow> tx_ref \<Rightarrow> 'c LWPeerManager \<Rightarrow> (bool \<times> tx_ref \<times> 'c LWPeerManager) option" where
  "register_tx env r m = do {
     tx \<leftarrow> deref_tx m r;
     (isWalletTx, w, es) \<leftarrow> LWWalletRegisterTransaction (me_wallet env) tx (m_wallet m);
     let h = tx_hash tx;
         kept = (w_allTx (m_wallet m) h = None \<and> w_allTx w h \<noteq> None);
         m = tell (map WalletEvent es) (m\<lparr>m_wallet := w, m_publishedTx :=
               (if kept then map (\<lambda>t. if pub_tx t = r then t\<lparr>pub_tx := WalletTx h\<rparr> else t) (m_publishedTx m) else m_publishedTx m)\<rparr>)
     in Some (isWalletTx, if kept \<or> isWalletTx then WalletTx h else r, m) }"

definition note_relay :: "ptr \<Rightarrow> UInt256 \<Rightarrow> nat \<Rightarrow> 'c LWPeerManager \<Rightarrow> (nat \<times> 'c LWPeerManager) option" where
  "note_relay p txHash relayCount m =
     (if m_syncStartHeight m = 0 then do {
        ctx \<leftarrow> peer_at m p;
        let (n, relays) = LWTxPeerListAddPeer (m_txRelays m) txHash (as_peer ctx)
        in Some (n, m\<lparr>m_txRelays := relays\<rparr>) }
      else Some (relayCount, m))"

definition forget_request :: "ptr \<Rightarrow> UInt256 \<Rightarrow> 'c LWPeerManager \<Rightarrow> 'c LWPeerManager option" where
  "forget_request p txHash m = do {
     ctx \<leftarrow> peer_at m p;
     Some (m\<lparr>m_txRequests := snd (LWTxPeerListRemovePeer (m_txRequests m) txHash (as_peer ctx))\<rparr>) }"

definition mark_verified :: "('p, 's, 'r) manager_env \<Rightarrow> tx_ref \<Rightarrow> UInt256 \<Rightarrow> nat \<Rightarrow> 'c LWPeerManager \<Rightarrow> 'c LWPeerManager option" where
  "mark_verified env r txHash relayCount m = do {
     tx \<leftarrow> deref_tx m r;
     if relayCount \<ge> m_maxConnectCount m \<and> tx_blockHeight tx = TX_UNCONFIRMED \<and> tx_timestamp tx = 0
     then LWPeerManagerUpdateTx env [txHash] TX_UNCONFIRMED (of_int (pe_time (me_peer env))) m else Some m }"

text \<open>The next unused addresses have to be matched by the filter, or it is made anew.\<close>

fun check_filter :: "('p, 's, 'r) manager_env \<Rightarrow> LWBloomFilter \<Rightarrow> string list \<Rightarrow> 'c LWPeerManager \<Rightarrow> 'c LWPeerManager option" where
  "check_filter env f [] m = Some m"
| "check_filter env f (a # as) m =
     (case LWAddressHash160 a of None \<Rightarrow> check_filter env f as m
      | Some h \<Rightarrow> do {
          c \<leftarrow> LWBloomFilterContainsData f (Some h);
          if c then check_filter env f as m
          else LWPeerManagerUpdateFilter env (m\<lparr>m_bloomFilter := None\<rparr>) })"

definition watch_new_addresses :: "('p, 's, 'r) manager_env \<Rightarrow> 'c LWPeerManager \<Rightarrow> 'c LWPeerManager option" where
  "watch_new_addresses env m =
     (case m_bloomFilter m of None \<Rightarrow> Some m
      | Some f \<Rightarrow> do {
          (external, w) \<leftarrow> LWWalletUnusedAddrs (me_wallet env) True SEQUENCE_GAP_LIMIT_EXTERNAL False (m_wallet m);
          (internal, w) \<leftarrow> LWWalletUnusedAddrs (me_wallet env) True SEQUENCE_GAP_LIMIT_INTERNAL True w;
          if length external < unat SEQUENCE_GAP_LIMIT_EXTERNAL \<or> length internal < unat SEQUENCE_GAP_LIMIT_INTERNAL then None
          else check_filter env f (external @ internal) (m\<lparr>m_wallet := w\<rparr>) })"

definition publish_sent :: "tx_ref \<Rightarrow> 'c LWPeerManager \<Rightarrow> 'c LWPeerManager option" where
  "publish_sent r m = do {
     tx \<leftarrow> deref_tx m r;
     if LWWalletAmountSentByTx tx (m_wallet m) > 0 then do {
       valid \<leftarrow> LWWalletTransactionIsValid tx (m_wallet m);
       if valid then LWPeerManagerAddTxToPublishList (Some r) None m else Some m }
     else Some m }"

definition done_events :: "'c option \<Rightarrow> errno option \<Rightarrow> 'c manager_event list" where
  "done_events callback error = (case callback of None \<Rightarrow> [] | Some k \<Rightarrow> [PublishDone k error])"

text \<open>What is done for a transaction of the wallet.\<close>

definition wallet_relayed :: "('p, 's, 'r) manager_env \<Rightarrow> ptr \<Rightarrow> tx_ref \<Rightarrow> UInt256 \<Rightarrow> nat \<Rightarrow> 'c LWPeerManager \<Rightarrow> (nat \<times> 'c LWPeerManager) option" where
  "wallet_relayed env p r txHash relayCount m = do {
     m \<leftarrow> (if m_syncStartHeight m > 0 \<and> m_downloadPeer m = Some p
           then on_peer p (LWPeerScheduleDisconnect (me_peer env) PROTOCOL_TIMEOUT) m else Some m);
     m \<leftarrow> publish_sent r m;
     (relayCount, m) \<leftarrow> note_relay p txHash relayCount m;
     m \<leftarrow> forget_request p txHash m;
     m \<leftarrow> watch_new_addresses env m;
     Some (relayCount, m) }"

definition tx_relayed :: "('p, 's, 'r) manager_env \<Rightarrow> ptr \<Rightarrow> LWTransaction \<Rightarrow> nat \<Rightarrow> 'c LWPeerManager \<Rightarrow> 'c LWPeerManager option" where
  "tx_relayed env p tx relayCount m =
     (if m_syncStartHeight m = 0 \<or> LWWalletContainsTransaction tx (m_wallet m) then do {
        (isWalletTx, r, m) \<leftarrow> register_tx env (OwnTx tx) m;
        (relayCount, m) \<leftarrow> (if isWalletTx then wallet_relayed env p r (tx_hash tx) relayCount m else Some (relayCount, m));
        mark_verified env r (tx_hash tx) relayCount m }
      else Some m)"

definition peerRelayedTx :: "('p, 's, 'r) manager_env \<Rightarrow> ptr \<Rightarrow> LWTransaction \<Rightarrow> 'c LWPeerManager \<Rightarrow> 'c LWPeerManager option" where
  "peerRelayedTx env p tx m = do {
     ctx \<leftarrow> peer_at m p;
     (ref, callback, pending, relayCount, m) \<leftarrow> claim_published (tx_hash tx) (as_peer ctx) None m;
     m \<leftarrow> cancel_timeout env p pending m;
     m \<leftarrow> tx_relayed env p tx relayCount m;
     Some (tell (done_events callback None) m) }"

definition tx_seen :: "('p, 's, 'r) manager_env \<Rightarrow> ptr \<Rightarrow> tx_ref \<Rightarrow> UInt256 \<Rightarrow> nat \<Rightarrow> 'c LWPeerManager \<Rightarrow> 'c LWPeerManager option" where
  "tx_seen env p r txHash relayCount m = do {
     (isWalletTx, r, m) \<leftarrow> register_tx env r m;
     m \<leftarrow> (if m_syncStartHeight m > 0 \<and> m_downloadPeer m = Some p \<and> isWalletTx
           then on_peer p (LWPeerScheduleDisconnect (me_peer env) PROTOCOL_TIMEOUT) m else Some m);
     (relayCount, m) \<leftarrow> note_relay p txHash relayCount m;
     m \<leftarrow> mark_verified env r txHash relayCount m;
     forget_request p txHash m }"

definition peerHasTx :: "('p, 's, 'r) manager_env \<Rightarrow> ptr \<Rightarrow> UInt256 \<Rightarrow> 'c LWPeerManager \<Rightarrow> 'c LWPeerManager option" where
  "peerHasTx env p txHash m = do {
     ref \<leftarrow> wallet_tx m txHash;
     ctx \<leftarrow> peer_at m p;
     (ref, callback, pending, relayCount, m) \<leftarrow> claim_published txHash (as_peer ctx) ref m;
     m \<leftarrow> cancel_timeout env p pending m;
     m \<leftarrow> (case ref of None \<Rightarrow> Some m | Some r \<Rightarrow> tx_seen env p r txHash relayCount m);
     Some (tell (done_events callback None) m) }"

text \<open>A peer that rejects a transaction whose inputs are all confirmed misbehaves, unless it knows of a double spend.\<close>

definition drop_rejecting :: "ptr \<Rightarrow> LWTransaction \<Rightarrow> u8 \<Rightarrow> 'c LWPeerManager \<Rightarrow> 'c LWPeerManager option" where
  "drop_rejecting p tx code m =
     (if code \<noteq> REJECT_SPENT \<and> LWWalletAmountSentByTx tx (m_wallet m) > 0 then do {
        unconfirmed \<leftarrow> any_m (\<lambda>i. do {
          t \<leftarrow> LWWalletTransactionForHash (in_hash i) (m_wallet m);
          Some (case t of None \<Rightarrow> False | Some t \<Rightarrow> tx_blockHeight t = TX_UNCONFIRMED) }) (tx_inputs tx);
        if unconfirmed then Some m else LWPeerManagerPeerMisbehavin p m }
      else Some m)"

definition tx_rejected :: "('p, 's, 'r) manager_env \<Rightarrow> ptr \<Rightarrow> tx_ref \<Rightarrow> UInt256 \<Rightarrow> u8 \<Rightarrow> 'c LWPeerManager \<Rightarrow> 'c LWPeerManager option" where
  "tx_rejected env p r txHash code m = do {
     ctx \<leftarrow> peer_at m p;
     let (found, relays) = LWTxPeerListRemovePeer (m_txRelays m) txHash (as_peer ctx);
         m = m\<lparr>m_txRelays := relays\<rparr> in do {
     tx \<leftarrow> deref_tx m r;
     m \<leftarrow> (if found \<and> tx_blockHeight tx = TX_UNCONFIRMED then LWPeerManagerUpdateTx env [txHash] TX_UNCONFIRMED 0 m else Some m);
     tx \<leftarrow> deref_tx m r;
     drop_rejecting p tx code m } }"

definition peerRejectedTx :: "('p, 's, 'r) manager_env \<Rightarrow> ptr \<Rightarrow> UInt256 \<Rightarrow> u8 \<Rightarrow> 'c LWPeerManager \<Rightarrow> 'c LWPeerManager option" where
  "peerRejectedTx env p txHash code m = do {
     ref \<leftarrow> wallet_tx m txHash;
     m \<leftarrow> forget_request p txHash m;
     m \<leftarrow> (case ref of None \<Rightarrow> Some m | Some r \<Rightarrow> tx_rejected env p r txHash code m);
     Some (tell [TxStatusUpdate] m) }"

definition peerDataNotfound :: "ptr \<Rightarrow> UInt256 list \<Rightarrow> 'c LWPeerManager \<Rightarrow> 'c LWPeerManager option" where
  "peerDataNotfound p txHashes m = do {
     ctx \<leftarrow> peer_at m p;
     Some (fold (\<lambda>h m. m\<lparr>m_txRelays := snd (LWTxPeerListRemovePeer (m_txRelays m) h (as_peer ctx)),
                          m_txRequests := snd (LWTxPeerListRemovePeer (m_txRequests m) h (as_peer ctx))\<rparr>) txHashes m) }"

text \<open>The largest fee rate, and the one that was the largest before it was seen.\<close>

definition fee_rates :: "'c LWPeerManager \<Rightarrow> u64 \<times> u64" where
  "fee_rates m =
     fold (\<lambda>(p, ctx) (maxFeePerKb, secondFeePerKb).
         if ctx_status ctx = PeerConnected \<and> ctx_feePerKb ctx > maxFeePerKb then (ctx_feePerKb ctx, maxFeePerKb)
         else (maxFeePerKb, secondFeePerKb)) (rev (m_connectedPeers m)) (0, 0)"

definition peerSetFeePerKb :: "'c LWPeerManager \<Rightarrow> 'c LWPeerManager" where
  "peerSetFeePerKb m =
     (let fee = snd (fee_rates m) * 3 div 2 in
      if fee > DEFAULT_FEE_PER_KB \<and> fee \<le> MAX_FEE_PER_KB \<and> fee > LWWalletFeePerKb (m_wallet m)
      then m\<lparr>m_wallet := LWWalletSetFeePerKb fee (m_wallet m)\<rparr> else m)"

definition request_step :: "UInt256 \<Rightarrow> nat \<Rightarrow> tx_ref option \<times> 'c option \<times> bool \<times> errno option \<times> 'c LWPeerManager \<Rightarrow>
    (tx_ref option \<times> 'c option \<times> bool \<times> errno option \<times> 'c LWPeerManager) option" where
  "request_step txHash i = (\<lambda>(ref, callback, pending, error, m). do {
     h \<leftarrow> deref (m_publishedTxHashes m) i;
     t \<leftarrow> deref (m_publishedTx m) i;
     if UInt256Eq h txHash then do {
       tx \<leftarrow> deref_tx m (pub_tx t);
       let m = m\<lparr>m_publishedTx := (m_publishedTx m)[i := t\<lparr>pub_callback := None\<rparr>]\<rparr>;
       valid \<leftarrow> LWWalletTransactionIsValid tx (m_wallet m);
       if valid then Some (Some (pub_tx t), pub_callback t, pending, error, m)
       else do {
         m \<leftarrow> unpublish i m;
         there \<leftarrow> LWWalletTransactionForHash txHash (m_wallet m);
         Some (if there = None then None else Some (pub_tx t), pub_callback t, pending, Some EINVAL, m) } }
     else Some (ref, callback, pending \<or> pub_callback t \<noteq> None, error, m) })"

definition tx_requested :: "('p, 's, 'r) manager_env \<Rightarrow> ptr \<Rightarrow> UInt256 \<Rightarrow> tx_ref option \<Rightarrow> errno option \<Rightarrow> 'c LWPeerManager \<Rightarrow>
    (tx_ref option \<times> 'c LWPeerManager) option" where
  "tx_requested env p txHash ref error m =
     (case ref of None \<Rightarrow> Some (None, m)
      | Some r \<Rightarrow>
          if error \<noteq> None then Some (Some r, m)
          else do {
            ctx \<leftarrow> peer_at m p;
            (isWalletTx, r, m) \<leftarrow> register_tx env r (m\<lparr>m_txRelays := snd (LWTxPeerListAddPeer (m_txRelays m) txHash (as_peer ctx))\<rparr>);
            Some (Some r, m) })"

definition peerRequestedTx :: "('p, 's, 'r) manager_env \<Rightarrow> ptr \<Rightarrow> UInt256 \<Rightarrow> 'c LWPeerManager \<Rightarrow> (tx_ref option \<times> 'c LWPeerManager) option" where
  "peerRequestedTx env p txHash m = do {
     (ref, callback, pending, error, m) \<leftarrow>
       fold_m (request_step txHash) (rev [0..<length (m_publishedTx m)]) (None, None, False, None, m);
     m \<leftarrow> cancel_timeout env p pending m;
     (ref, m) \<leftarrow> tx_requested env p txHash ref error m;
     Some (ref, tell (done_events callback error) m) }"

subsection \<open>The user of the manager\<close>

definition LWPeerManagerConnectStatus :: "'c LWPeerManager \<Rightarrow> LWPeerStatus" where
  "LWPeerManagerConnectStatus m =
     (if m_isConnected m then PeerConnected
      else if list_ex (\<lambda>(p, ctx). ctx_status ctx \<noteq> PeerDisconnected) (m_connectedPeers m) then PeerConnecting
      else PeerDisconnected)"

definition LWPeerManagerEstimatedBlockHeight :: "'c LWPeerManager \<Rightarrow> u32 option" where
  "LWPeerManagerEstimatedBlockHeight m =
     map_option (\<lambda>b. if mb_height b < m_estimatedHeight m then m_estimatedHeight m else mb_height b) (last_block m)"

definition LWPeerManagerLastBlockHeight :: "'c LWPeerManager \<Rightarrow> u32 option" where
  "LWPeerManagerLastBlockHeight m = map_option mb_height (last_block m)"

definition LWPeerManagerLastBlockTimestamp :: "'c LWPeerManager \<Rightarrow> u32 option" where
  "LWPeerManagerLastBlockTimestamp m = map_option mb_timestamp (last_block m)"

definition LWPeerManagerSyncProgress :: "u32 \<Rightarrow> 'c LWPeerManager \<Rightarrow> rat option" where
  "LWPeerManagerSyncProgress startHeight m = do {
     let start = (if startHeight = 0 then m_syncStartHeight m else startHeight);
     last \<leftarrow> last_block m;
     Some (if m_downloadPeer m = None \<and> m_syncStartHeight m = 0 then 0
       else if m_downloadPeer m = None \<or> mb_height last < m_estimatedHeight m then
         (if mb_height last > start \<and> m_estimatedHeight m > start
          then 1 / 10 + 9 / 10 * of_nat (unat (mb_height last - start)) / of_nat (unat (m_estimatedHeight m - start))
          else 5 / 100)
       else 1) }"

definition LWPeerManagerPeerCount :: "'c LWPeerManager \<Rightarrow> nat" where
  "LWPeerManagerPeerCount m = length (filter (\<lambda>(p, ctx). ctx_status ctx \<noteq> PeerDisconnected) (m_connectedPeers m))"

definition LWPeerManagerRelayCount :: "UInt256 \<Rightarrow> 'c LWPeerManager \<Rightarrow> nat option" where
  "LWPeerManagerRelayCount txHash m = (if UInt256IsZero txHash then None else Some (LWTxPeerListCount (m_txRelays m) txHash))"

definition publish_to :: "('p, 's, 'r) manager_env \<Rightarrow> ptr \<Rightarrow> 'c LWPeerManager \<Rightarrow> 'c LWPeerManager option" where
  "publish_to env p m = do {
     m \<leftarrow> LWPeerManagerPublishPendingTx env p m;
     on_peer p (LWPeerSendPing (me_peer env) (Some (PublishTxInvDone p))) m }"

text \<open>The object gets the time of its publication.\<close>

definition stamp_tx :: "u32 \<Rightarrow> tx_ref \<Rightarrow> 'c LWPeerManager \<Rightarrow> (tx_ref \<times> 'c LWPeerManager) option" where
  "stamp_tx now r m = do {
     tx \<leftarrow> deref_tx m r;
     Some (case r of OwnTx t \<Rightarrow> (OwnTx (tx\<lparr>tx_timestamp := now\<rparr>), m)
       | WalletTx h \<Rightarrow> (WalletTx h, m\<lparr>m_wallet := (m_wallet m)\<lparr>w_allTx := (w_allTx (m_wallet m))(h \<mapsto> tx\<lparr>tx_timestamp := now\<rparr>)\<rparr>\<rparr>)) }"

text \<open>The transaction has to be signed. It is not sent to the peer the chain comes from, unless there is no other.\<close>

definition LWPeerManagerPublishTx :: "('p, 's, 'r) manager_env \<Rightarrow> tx_ref \<Rightarrow> 'c option \<Rightarrow> 'c LWPeerManager \<Rightarrow> 'c LWPeerManager option" where
  "LWPeerManagerPublishTx env r callback m = do {
     tx \<leftarrow> deref_tx m r;
     if \<not> LWTransactionIsSigned tx then None
     else if \<not> m_isConnected m \<and> (m_connectFailureCount m \<ge> MAX_CONNECT_FAILURES \<or> \<not> pe_reachable (me_peer env)) then do {
       m \<leftarrow> free_tx r m;
       Some (tell (done_events callback (Some ENOTCONN)) m) }
     else do {
       (r, m) \<leftarrow> stamp_tx (of_int (pe_time (me_peer env))) r m;
       m \<leftarrow> LWPeerManagerAddTxToPublishList (Some r) callback m;
       fold_m (publish_to env)
         (filter (\<lambda>p. m_downloadPeer m \<noteq> Some p \<or> length (connected m) = 1) (rev (connected m))) m } }"

text \<open>What a peer reports to the manager.\<close>

definition handle_event :: "('p, 's, 'r) manager_env \<Rightarrow> ptr \<Rightarrow> peer_callback peer_event \<Rightarrow> u32 list \<times> 'c LWPeerManager \<Rightarrow>
    (u32 list \<times> 'c LWPeerManager) option" where
  "handle_event env p e = (\<lambda>(rs, m).
     case e of
       Sent type msg \<Rightarrow> Some (rs, m)
     | Connected \<Rightarrow> map_option (Pair rs) (peerConnected env p m)
     | Disconnected error \<Rightarrow> peerDisconnected env p error rs m
     | RelayedPeers peers \<Rightarrow> Some (rs, peerRelayedPeers env p peers m)
     | RelayedTx tx \<Rightarrow> map_option (Pair rs) (peerRelayedTx env p tx m)
     | HasTx h \<Rightarrow> map_option (Pair rs) (peerHasTx env p h m)
     | RejectedTx h code \<Rightarrow> map_option (Pair rs) (peerRejectedTx env p h code m)
     | RelayedBlock block \<Rightarrow> map_option (Pair rs) (peerRelayedBlock env p block m)
     | Notfound txHashes blockHashes \<Rightarrow> map_option (Pair rs) (peerDataNotfound p txHashes m)
     | SetFeePerKb fee \<Rightarrow> Some (rs, peerSetFeePerKb m)
     | RequestedTx h \<Rightarrow> map_option (\<lambda>r. (rs, snd r)) (peerRequestedTx env p h m)
     | Completed k success \<Rightarrow> map_option (Pair rs) (run_callback env k success m))"

end
