(* ===== verification/LW_ManagerInv.thy ===== *)
theory LW_ManagerInv
  imports LW_ManagerPeers
begin

text \<open>
  The invariant of the peer manager. Most operations are \<open>calm\<close>: they leave the chain and the list of peers as they
  are, and may at most drop the orphans. The blocks in the sets are alive, which excludes reading freed memory
  through them; that the callbacks of publishers are called at most once is accounted for by a ledger.
\<close>

named_theorems calms \<open>operations that leave chain and peers alone\<close>

subsection \<open>Calm operations\<close>

definition callback_of :: "'c manager_event \<Rightarrow> 'c option" where
  "callback_of e = (case e of PublishDone k error \<Rightarrow> Some k | _ \<Rightarrow> None)"

definition called :: "'c manager_event list \<Rightarrow> 'c multiset" where
  "called es = mset (List.map_filter callback_of es)"

definition waiting :: "'c LWPublishedTx list \<Rightarrow> 'c multiset" where
  "waiting ts = mset (List.map_filter pub_callback ts)"

text \<open>The callbacks of publishers that wait or were called.\<close>

definition ledger :: "'c LWPeerManager \<Rightarrow> 'c multiset" where
  "ledger m = waiting (m_publishedTx m) + called (m_events m)"

definition parallel :: "'c LWPeerManager \<Rightarrow> bool" where
  "parallel m \<longleftrightarrow> length (m_publishedTx m) = length (m_publishedTxHashes m)"

definition same_orphans :: "'c LWPeerManager \<Rightarrow> 'c LWPeerManager \<Rightarrow> bool" where
  "same_orphans m m' \<longleftrightarrow>
     m_orphans m' = m_orphans m \<and> m_memory m' = m_memory m \<and> m_lastOrphan m' = m_lastOrphan m \<or>
     m_orphans m' = Map.empty \<and> m_memory m' = m_memory m |` (- ran (m_orphans m)) \<and> m_lastOrphan m' = None"

definition calm :: "'c LWPeerManager \<Rightarrow> 'c LWPeerManager \<Rightarrow> bool" where
  "calm m m' \<longleftrightarrow>
     m_params m' = m_params m \<and> m_blocks m' = m_blocks m \<and> m_checkpoints m' = m_checkpoints m \<and>
     m_lastBlock m' = m_lastBlock m \<and> m_next m' = m_next m \<and> same_orphans m m' \<and>
     map fst (m_connectedPeers m') = map fst (m_connectedPeers m) \<and> m_downloadPeer m' = m_downloadPeer m \<and>
     m_isConnected m' = m_isConnected m \<and> m_maxConnectCount m' = m_maxConnectCount m \<and>
     (parallel m \<longrightarrow> parallel m') \<and> ledger m' \<subseteq># ledger m"

lemma calm_refl [simp]: "calm m m"
  by (simp add: calm_def same_orphans_def)

lemma same_orphans_trans: "same_orphans m m' \<Longrightarrow> same_orphans m' m'' \<Longrightarrow> same_orphans m m''"
  unfolding same_orphans_def by (elim disjE) (auto simp: restrict_map_def ran_def fun_eq_iff)

lemma calm_trans: "calm m m' \<Longrightarrow> calm m' m'' \<Longrightarrow> calm m m''"
  unfolding calm_def by (auto intro: same_orphans_trans subset_mset.order_trans)

lemma calm_fold:
  assumes "\<And>x m m'. f x m = Some m' \<Longrightarrow> calm m m'" "fold_m f xs m = Some m'"
  shows "calm m m'"
  using assms(2)
proof (induction xs arbitrary: m)
  case (Cons x xs)
  then obtain m1 where "f x m = Some m1" "fold_m f xs m1 = Some m'" by (auto split: bind_splits)
  then show ?case using assms(1) Cons.IH calm_trans by blast
qed simp

text \<open>Fields that no part of the invariant is about.\<close>

lemma calm_updates [simp]:
  "calm (m\<lparr>m_wallet := a\<rparr>) m' = calm m m'" "calm m (m'\<lparr>m_wallet := a\<rparr>) = calm m m'"
  "calm (m\<lparr>m_peers := b\<rparr>) m' = calm m m'" "calm m (m'\<lparr>m_peers := b\<rparr>) = calm m m'"
  "calm (m\<lparr>m_misbehavinCount := c\<rparr>) m' = calm m m'" "calm m (m'\<lparr>m_misbehavinCount := c\<rparr>) = calm m m'"
  "calm (m\<lparr>m_connectFailureCount := c\<rparr>) m' = calm m m'" "calm m (m'\<lparr>m_connectFailureCount := c\<rparr>) = calm m m'"
  "calm (m\<lparr>m_syncStartHeight := d\<rparr>) m' = calm m m'" "calm m (m'\<lparr>m_syncStartHeight := d\<rparr>) = calm m m'"
  "calm (m\<lparr>m_estimatedHeight := d\<rparr>) m' = calm m m'" "calm m (m'\<lparr>m_estimatedHeight := d\<rparr>) = calm m m'"
  "calm (m\<lparr>m_filterUpdateHeight := d\<rparr>) m' = calm m m'" "calm m (m'\<lparr>m_filterUpdateHeight := d\<rparr>) = calm m m'"
  "calm (m\<lparr>m_bloomFilter := e\<rparr>) m' = calm m m'" "calm m (m'\<lparr>m_bloomFilter := e\<rparr>) = calm m m'"
  "calm (m\<lparr>m_fpRate := r\<rparr>) m' = calm m m'" "calm m (m'\<lparr>m_fpRate := r\<rparr>) = calm m m'"
  "calm (m\<lparr>m_averageTxPerBlock := r\<rparr>) m' = calm m m'" "calm m (m'\<lparr>m_averageTxPerBlock := r\<rparr>) = calm m m'"
  "calm (m\<lparr>m_dnsThreadCount := c\<rparr>) m' = calm m m'" "calm m (m'\<lparr>m_dnsThreadCount := c\<rparr>) = calm m m'"
  "calm (m\<lparr>m_txRelays := l\<rparr>) m' = calm m m'" "calm m (m'\<lparr>m_txRelays := l\<rparr>) = calm m m'"
  "calm (m\<lparr>m_txRequests := l\<rparr>) m' = calm m m'" "calm m (m'\<lparr>m_txRequests := l\<rparr>) = calm m m'"
  by (simp_all add: calm_def same_orphans_def ledger_def parallel_def)

lemma called_simps [simp]:
  "called [] = {#}" "called (es @ fs) = called es + called fs"
  "called (SyncStarted # es) = called es" "called (SyncStopped e # es) = called es" "called (TxStatusUpdate # es) = called es"
  "called (SaveBlocks b bs # es) = called es" "called (SavePeers b ps # es) = called es" "called (WalletEvent v # es) = called es"
  "called (map WalletEvent vs) = {#}" "called (PublishDone k error # es) = add_mset k (called es)"
  "called (map (\<lambda>k. PublishDone k error) ks) = mset ks"
  by (simp_all add: called_def callback_of_def map_filter_def comp_def filter_empty_conv)

lemma waiting_simps [simp]:
  "waiting [] = {#}" "waiting (ts @ us) = waiting ts + waiting us"
  "waiting (t # ts) = (case pub_callback t of None \<Rightarrow> {#} | Some k \<Rightarrow> {#k#}) + waiting ts"
  by (simp_all add: waiting_def map_filter_def split: option.splits)

lemma calm_tell: "called es = {#} \<Longrightarrow> calm m (tell es m') = calm m m'"
  by (simp add: calm_def tell_def ledger_def parallel_def same_orphans_def)

lemma calm_on_peer [calms]: "on_peer p f m = Some m' \<Longrightarrow> calm m m'"
  by (auto simp: on_peer_def calm_def same_orphans_def ledger_def parallel_def split: if_splits)

lemma calm_on_wallet [calms]: "on_wallet f m = Some m' \<Longrightarrow> calm m m'"
  by (auto simp: on_wallet_def calm_tell split: bind_splits)

lemma calm_clear [calms]: "clear_orphans m = Some m' \<Longrightarrow> calm m m'"
  by (auto simp: clear_orphans_def calm_def same_orphans_def ledger_def parallel_def split: if_splits)

text \<open>A proof that an operation is calm: its steps are, and the fields it sets do not matter.\<close>

lemma calm_misbehavin [calms]: "LWPeerManagerPeerMisbehavin p m = Some m' \<Longrightarrow> calm m m'"
  unfolding LWPeerManagerPeerMisbehavin_def Let_def by (auto dest!: calms split: bind_splits if_splits)

lemma calm_sync_stopped [calms]: "LWPeerManagerSyncStopped env m = Some m' \<Longrightarrow> calm m m'"
  unfolding LWPeerManagerSyncStopped_def Let_def by (auto dest!: calms split: if_splits option.splits)

lemma calm_load_filter [calms]: "LWPeerManagerLoadBloomFilter env p m = Some m' \<Longrightarrow> calm m m'"
  unfolding LWPeerManagerLoadBloomFilter_def Let_def by (auto dest!: calms split: bind_splits; blast intro: calm_trans)

lemma calm_request_blocks [calms]: "request_blocks env p m = Some m' \<Longrightarrow> calm m m'"
  unfolding request_blocks_def by (auto dest!: calms split: bind_splits)

lemma calm_rerequest_done [calms]: "updateFilterRerequestDone env p s m = Some m' \<Longrightarrow> calm m m'"
  unfolding updateFilterRerequestDone_def by (auto dest!: calms split: bind_splits if_splits)

lemma calm_load_done [calms]: "updateFilterLoadDone env p s m = Some m' \<Longrightarrow> calm m m'"
  unfolding updateFilterLoadDone_def by (auto dest!: calms split: bind_splits if_splits; blast intro: calm_trans)

lemma calm_ping_done [calms]: "updateFilterPingDone env p s m = Some m' \<Longrightarrow> calm m m'"
  unfolding updateFilterPingDone_def Let_def
  by (auto dest!: calms calm_fold [rotated] split: bind_splits if_splits option.splits; blast intro: calm_trans)

lemma calm_update_filter [calms]: "LWPeerManagerUpdateFilter env m = Some m' \<Longrightarrow> calm m m'"
  unfolding LWPeerManagerUpdateFilter_def by (auto dest!: calms split: bind_splits if_splits option.splits)


lemma waiting_remove: "waiting (take j ts @ drop (Suc j) ts) \<subseteq># waiting ts"
proof (cases "j < length ts")
  case True
  have "waiting ts = waiting (take j ts @ ts ! j # drop (Suc j) ts)" using id_take_nth_drop [OF True] by metis
  then show ?thesis by (simp add: mset_subset_eq_add_left subset_mset.add_left_mono)
qed simp

lemma calm_unpublish [calms]: "unpublish j m = Some m' \<Longrightarrow> calm m m'"
  using waiting_remove [of j "m_publishedTx m"]
  by (auto simp: unpublish_def rm_at_def calm_def same_orphans_def parallel_def ledger_def split: bind_splits if_splits)

lemma calm_confirmed [calms]: "confirmed h m = Some m' \<Longrightarrow> calm m m'"
  unfolding confirmed_def
  by (auto split: bind_splits dest!: calm_fold [rotated]) (auto dest!: calms split: bind_splits if_splits)

lemma calm_confirmed_all [calms]: "fold_m confirmed hs m = Some m' \<Longrightarrow> calm m m'"
  by (rule calm_fold [OF calm_confirmed])

lemma calm_update_tx [calms]: "LWPeerManagerUpdateTx env hs h t m = Some m' \<Longrightarrow> calm m m'"
  unfolding LWPeerManagerUpdateTx_def
  by (auto simp: bind_eq_Some_conv split: if_splits dest!: calms; blast intro: calm_trans)

lemma calm_unrelayed [calms]: "unrelayed_tx env h m = Some m' \<Longrightarrow> calm m m'"
  unfolding unrelayed_tx_def by (auto dest!: calms split: bind_splits if_splits)

lemma calm_unrelayed_all [calms]: "fold_m (unrelayed_tx env) hs m = Some m' \<Longrightarrow> calm m m'"
  by (rule calm_fold [OF calm_unrelayed])

lemma calm_unrelayed_done [calms]: "requestUnrelayedTxGetdataDone env p s m = Some m' \<Longrightarrow> calm m m'"
  unfolding requestUnrelayedTxGetdataDone_def
  by (auto simp: bind_eq_Some_conv dest!: calms split: if_splits; blast intro: calm_trans)

lemma calm_request_unrelayed [calms]: "LWPeerManagerRequestUnrelayedTx env p m = Some m' \<Longrightarrow> calm m m'"
  unfolding LWPeerManagerRequestUnrelayedTx_def Let_def
  by (auto dest!: calms split: bind_splits if_splits prod.splits; blast intro: calm_trans)

lemma calm_publish_pending [calms]: "LWPeerManagerPublishPendingTx env p m = Some m' \<Longrightarrow> calm m m'"
  unfolding LWPeerManagerPublishPendingTx_def by (rule calm_on_peer)

lemma calm_mempool_done [calms]: "mempoolDone env p s m = Some m' \<Longrightarrow> calm m m'"
  unfolding mempoolDone_def Let_def
  by (auto dest!: calms simp: calm_tell bind_eq_Some_conv split: if_splits; blast intro: calm_trans)

lemma calm_load_bloom_done [calms]: "loadBloomFilterDone env p s m = Some m' \<Longrightarrow> calm m m'"
  unfolding loadBloomFilterDone_def by (auto dest!: calms simp: calm_tell split: if_splits)

lemma calm_load_mempool [calms]: "load_mempool env p m = Some m' \<Longrightarrow> calm m m'"
  unfolding load_mempool_def by (auto dest!: calms split: bind_splits if_splits; blast intro: calm_trans)

lemma calm_load_mempools [calms]: "LWPeerManagerLoadMempools env m = Some m' \<Longrightarrow> calm m m'"
  unfolding LWPeerManagerLoadMempools_def by (rule calm_fold [OF calm_load_mempool])

lemma calm_callback: "run_callback env k s m = Some m' \<Longrightarrow> calm m m'"
  unfolding run_callback_def publishTxInvDone_def by (auto dest: calms split: peer_callback.splits)

subsection \<open>Callbacks of publishers\<close>

text \<open>
  An operation that is given the callbacks \<open>G\<close> and returns the callbacks \<open>T\<close>: no callback waits or is called more often
  than it was given. It may lose one.
\<close>

definition owed :: "'c option \<Rightarrow> 'c multiset" where
  "owed k = (case k of None \<Rightarrow> {#} | Some k \<Rightarrow> {#k#})"

definition gives :: "'c multiset \<Rightarrow> 'c multiset \<Rightarrow> 'c LWPeerManager \<Rightarrow> 'c LWPeerManager \<Rightarrow> bool" where
  "gives G T m m' \<longleftrightarrow> ledger m' + T \<subseteq># ledger m + G \<and>
     m_params m' = m_params m \<and> m_blocks m' = m_blocks m \<and> m_checkpoints m' = m_checkpoints m \<and>
     m_lastBlock m' = m_lastBlock m \<and> m_next m' = m_next m \<and> same_orphans m m' \<and>
     map fst (m_connectedPeers m') = map fst (m_connectedPeers m) \<and> m_downloadPeer m' = m_downloadPeer m \<and>
     m_isConnected m' = m_isConnected m \<and> m_maxConnectCount m' = m_maxConnectCount m \<and> (parallel m \<longrightarrow> parallel m')"

lemma owed_simps [simp]: "owed None = {#}" "owed (Some k) = {#k#}"
  by (simp_all add: owed_def)

lemma calm_gives: "calm m m' \<longleftrightarrow> gives {#} {#} m m'"
  by (auto simp: calm_def gives_def)

lemma gives_trans: "gives G T m m' \<Longrightarrow> gives G' T' m' m'' \<Longrightarrow> gives (G + G') (T + T') m m''"
proof -
  assume a: "gives G T m m'" "gives G' T' m' m''"
  then have "ledger m' + T \<subseteq># ledger m + G" "ledger m'' + T' \<subseteq># ledger m' + G'" by (simp_all add: gives_def)
  then have "ledger m'' + T' + T \<subseteq># ledger m + G + G'"
    by (smt (verit) subset_mset.add_right_mono subset_mset.order_trans add.assoc add.commute)
  then show ?thesis using a by (auto simp: gives_def ac_simps intro: same_orphans_trans)
qed

lemma gives_calm: "gives G T m m' \<Longrightarrow> calm m' m'' \<Longrightarrow> gives G T m m''"
  using gives_trans [of G T m m' "{#}" "{#}"] by (simp add: calm_gives)

lemma calm_then_gives: "calm m m' \<Longrightarrow> gives G T m' m'' \<Longrightarrow> gives G T m m''"
  using gives_trans [of "{#}" "{#}" m m' G T] by (simp add: calm_gives)

lemma gives_tell:
  assumes "gives G T m m'" "called es \<subseteq># T"
  shows "gives G (T - called es) m (tell es m')"
proof -
  have "ledger (tell es m') + (T - called es) = ledger m' + T"
    using assms(2) by (simp add: ledger_def tell_def add.assoc)
  then show ?thesis using assms(1) by (simp add: gives_def tell_def parallel_def same_orphans_def)
qed

lemma gives_done: "gives G (owed k) m m' \<Longrightarrow> gives G {#} m (tell (done_events k e) m')"
  using gives_tell [of G "owed k" m m' "done_events k e"] by (cases k) (simp_all add: done_events_def)

lemma gives_more: "gives G T m m' \<Longrightarrow> G \<subseteq># G' \<Longrightarrow> T' \<subseteq># T \<Longrightarrow> gives G' T' m m'"
  unfolding gives_def
  by (meson subset_mset.add_left_mono subset_mset.order_trans)

lemma gives_publish: "LWPeerManagerAddTxToPublishList r k m = Some m' \<Longrightarrow> gives (owed k) {#} m m'"
proof (rule LWPeerManagerAddTxToPublishList.raw_induct [of "\<lambda>r k m m'. gives (owed k) {#} m m'", rotated])
  fix F :: "tx_ref option \<Rightarrow> 'a option \<Rightarrow> 'a LWPeerManager \<Rightarrow> 'a LWPeerManager option" and r k m m'
  assume 1: "\<And>r k m m'. F r k m = Some m' \<Longrightarrow> gives (owed k) {#} m m'"
    "(case r of None \<Rightarrow> Some m
      | Some r \<Rightarrow> Option.bind (deref_tx m r) (\<lambda>tx.
          if tx_blockHeight tx \<noteq> TX_UNCONFIRMED then Some m
          else Option.bind (any_m (\<lambda>p. map_option (\<lambda>t. LWTransactionEq t tx) (deref_tx m (pub_tx p))) (rev (m_publishedTx m))) (\<lambda>listed.
            if listed then Some m
            else fold_m (\<lambda>i m. Option.bind (wallet_tx m (in_hash i)) (\<lambda>ref. F ref None m)) (tx_inputs tx)
              (m\<lparr>m_publishedTx := m_publishedTx m @ [\<lparr>pub_tx = r, pub_callback = k\<rparr>],
                 m_publishedTxHashes := m_publishedTxHashes m @ [tx_hash tx]\<rparr>)))) = Some m'"
  have none: "gives (owed k) {#} m m" by (rule gives_more [of "{#}" "{#}"]) (simp_all add: calm_gives [symmetric])
  have rest: "fold_m (\<lambda>i m. Option.bind (wallet_tx m (in_hash i)) (\<lambda>ref. F ref None m)) is m1 = Some m2 \<Longrightarrow> calm m1 m2" for "is" m1 m2
    using 1(1) [of _ None] by (elim calm_fold [rotated]) (auto simp: bind_eq_Some_conv calm_gives)
  show "gives (owed k) {#} m m'"
  proof (cases r)
    case None
    then show ?thesis using 1(2) none by simp
  next
    case (Some x)
    have add: "gives (owed k) {#} m (m\<lparr>m_publishedTx := m_publishedTx m @ [\<lparr>pub_tx = x, pub_callback = k\<rparr>],
        m_publishedTxHashes := m_publishedTxHashes m @ [h]\<rparr>)" for h
      by (auto simp: gives_def ledger_def parallel_def same_orphans_def owed_def split: option.splits)
    show ?thesis
      using 1(2) Some none by (auto simp: bind_eq_Some_conv split: if_splits dest!: rest intro: gives_calm [OF add])
  qed
qed

lemma calm_publish [calms]: "LWPeerManagerAddTxToPublishList r None m = Some m' \<Longrightarrow> calm m m'"
  using gives_publish by (fastforce simp: calm_gives)

lemma waiting_take: "i < length ts \<Longrightarrow> waiting (ts[i := (ts ! i)\<lparr>pub_callback := None\<rparr>]) + owed (pub_callback (ts ! i)) = waiting ts"
proof -
  assume i: "i < length ts"
  have "waiting ts = waiting (take i ts @ ts ! i # drop (Suc i) ts)" using id_take_nth_drop [OF i] by metis
  then show ?thesis using i by (simp add: upd_conv_take_nth_drop owed_def split: option.splits)
qed

lemma gives_taken:
  assumes "m_publishedTx m ! i = t" "i < length (m_publishedTx m)" "gives {#} {#} m0 m"
  shows "gives {#} (owed (pub_callback t)) m0 (m\<lparr>m_publishedTx := (m_publishedTx m)[i := t\<lparr>pub_callback := None\<rparr>], m_txRelays := l\<rparr>)"
    and "gives {#} (owed (pub_callback t)) m0 (m\<lparr>m_publishedTx := (m_publishedTx m)[i := t\<lparr>pub_callback := None\<rparr>]\<rparr>)"
proof -
  have "gives {#} (owed (pub_callback t)) m (m\<lparr>m_publishedTx := (m_publishedTx m)[i := t\<lparr>pub_callback := None\<rparr>], m_txRelays := l\<rparr>)"
    "gives {#} (owed (pub_callback t)) m (m\<lparr>m_publishedTx := (m_publishedTx m)[i := t\<lparr>pub_callback := None\<rparr>]\<rparr>)"
    using waiting_take [OF assms(2)] assms(1)
    by (simp_all add: gives_def ledger_def parallel_def same_orphans_def add.assoc add.left_commute [of "called _"] add.commute [of "called _"])
  then show "gives {#} (owed (pub_callback t)) m0 (m\<lparr>m_publishedTx := (m_publishedTx m)[i := t\<lparr>pub_callback := None\<rparr>], m_txRelays := l\<rparr>)"
    "gives {#} (owed (pub_callback t)) m0 (m\<lparr>m_publishedTx := (m_publishedTx m)[i := t\<lparr>pub_callback := None\<rparr>]\<rparr>)"
    using gives_trans [OF assms(3)] by simp_all
qed

lemma drop_owed: "gives {#} (owed k) m m' \<Longrightarrow> gives {#} {#} m m'"
  by (rule gives_more) simp_all

lemma gives_claim_loop:
  "fold_m (claim_step h peer) is (ref, k, pending, n, m) = Some (ref', k', pending', n', m') \<Longrightarrow>
   gives {#} (owed k) m0 m \<Longrightarrow> gives {#} (owed k') m0 m'"
proof (induction "is" arbitrary: ref k pending n m)
  case (Cons i "is")
  obtain ref1 k1 pending1 n1 m1 where s: "claim_step h peer i (ref, k, pending, n, m) = Some (ref1, k1, pending1, n1, m1)"
    "fold_m (claim_step h peer) is (ref1, k1, pending1, n1, m1) = Some (ref', k', pending', n', m')"
    using Cons.prems(1) by (auto simp: bind_eq_Some_conv)
  have "gives {#} (owed k1) m0 m1"
    using s(1) Cons.prems(2) gives_taken(1) [OF _ _ drop_owed [OF Cons.prems(2)]]
    by (auto simp: claim_step_def deref_def bind_eq_Some_conv Let_def split: if_splits prod.splits)
  then show ?case using s(2) Cons.IH by blast
qed simp

lemma gives_claim: "claim_published h peer ref m = Some (ref', k, pending, n, m') \<Longrightarrow> gives {#} (owed k) m m'"
  unfolding claim_published_def by (erule gives_claim_loop) (simp add: calm_gives [symmetric])

lemma gives_request_loop:
  "fold_m (request_step h) is (ref, k, pending, e, m) = Some (ref', k', pending', e', m') \<Longrightarrow>
   gives {#} (owed k) m0 m \<Longrightarrow> gives {#} (owed k') m0 m'"
proof (induction "is" arbitrary: ref k pending e m)
  case (Cons i "is")
  obtain ref1 k1 pending1 e1 m1 where s: "request_step h i (ref, k, pending, e, m) = Some (ref1, k1, pending1, e1, m1)"
    "fold_m (request_step h) is (ref1, k1, pending1, e1, m1) = Some (ref', k', pending', e', m')"
    using Cons.prems(1) by (auto simp: bind_eq_Some_conv)
  have "gives {#} (owed k1) m0 m1"
    using s(1) Cons.prems(2) gives_taken(2) [OF _ _ drop_owed [OF Cons.prems(2)]]
    by (auto simp: request_step_def deref_def bind_eq_Some_conv Let_def split: if_splits dest!: calm_unpublish intro: gives_calm)
  then show ?case using s(2) Cons.IH by blast
qed simp

lemma calm_cancel_timeout [calms]: "cancel_timeout env p pending m = Some m' \<Longrightarrow> calm m m'"
  unfolding cancel_timeout_def by (auto dest: calms split: if_splits)

lemma waiting_map: "(\<And>t. pub_callback (f t) = pub_callback t) \<Longrightarrow> waiting (map f ts) = waiting ts"
  by (induction ts) simp_all

lemma calm_register [calms]:
  fixes m :: "'c LWPeerManager"
  assumes "register_tx env r m = Some (b, r', m')"
  shows "calm m m'"
proof -
  have set: "calm m (tell (map WalletEvent es) (m\<lparr>m_wallet := w, m_publishedTx := ts\<rparr>))"
    if "waiting ts = waiting (m_publishedTx m)" "length ts = length (m_publishedTx m)" for es w and ts :: "'c LWPublishedTx list"
    using that by (simp add: calm_tell) (simp add: calm_def ledger_def parallel_def same_orphans_def)
  show ?thesis
    using assms by (auto simp: register_tx_def bind_eq_Some_conv Let_def waiting_map calm_tell split: if_splits intro!: set)
qed

lemma calm_note_relay [calms]: "note_relay p h n m = Some (n', m') \<Longrightarrow> calm m m'"
  unfolding note_relay_def by (auto split: bind_splits if_splits prod.splits)

lemma calm_forget [calms]: "forget_request p h m = Some m' \<Longrightarrow> calm m m'"
  unfolding forget_request_def by (auto simp: bind_eq_Some_conv)

lemma calm_mark_verified [calms]: "mark_verified env r h n m = Some m' \<Longrightarrow> calm m m'"
  unfolding mark_verified_def by (auto simp: bind_eq_Some_conv dest: calms split: if_splits)

lemma calm_check_filter [calms]: "check_filter env f as m = Some m' \<Longrightarrow> calm m m'"
  by (induction as) (auto simp: bind_eq_Some_conv dest!: calms split: option.splits if_splits)

lemma calm_watch_new [calms]: "watch_new_addresses env m = Some m' \<Longrightarrow> calm m m'"
  unfolding watch_new_addresses_def by (auto simp: bind_eq_Some_conv dest!: calms split: option.splits if_splits)

lemma calm_publish_sent [calms]: "publish_sent r m = Some m' \<Longrightarrow> calm m m'"
  unfolding publish_sent_def by (auto simp: bind_eq_Some_conv dest!: calms split: if_splits)

lemma calm_wallet_relayed [calms]: "wallet_relayed env p r h n m = Some (n', m') \<Longrightarrow> calm m m'"
  unfolding wallet_relayed_def
  by (auto simp: bind_eq_Some_conv dest!: calms split: if_splits; blast intro: calm_trans)

lemma calm_tx_relayed [calms]: "tx_relayed env p tx n m = Some m' \<Longrightarrow> calm m m'"
  unfolding tx_relayed_def
  by (auto simp: bind_eq_Some_conv dest!: calms split: if_splits; blast intro: calm_trans)

lemma calm_tx_seen [calms]: "tx_seen env p r h n m = Some m' \<Longrightarrow> calm m m'"
  unfolding tx_seen_def
  by (auto simp: bind_eq_Some_conv dest!: calms split: if_splits; blast intro: calm_trans)

lemma calm_drop_rejecting [calms]: "drop_rejecting p tx c m = Some m' \<Longrightarrow> calm m m'"
  unfolding drop_rejecting_def by (auto simp: bind_eq_Some_conv dest!: calms split: if_splits)

lemma calm_tx_rejected [calms]: "tx_rejected env p r h c m = Some m' \<Longrightarrow> calm m m'"
  unfolding tx_rejected_def Let_def case_prod_beta
  by (auto simp: bind_eq_Some_conv dest!: calms split: if_splits; blast intro: calm_trans)

lemma calm_tx_requested [calms]: "tx_requested env p h ref e m = Some (ref', m') \<Longrightarrow> calm m m'"
  unfolding tx_requested_def by (auto simp: bind_eq_Some_conv dest!: calms split: option.splits if_splits)

lemma calm_relayed_tx: "peerRelayedTx env p tx m = Some m' \<Longrightarrow> calm m m'"
  unfolding peerRelayedTx_def
  by (auto simp: bind_eq_Some_conv calm_gives dest!: gives_claim intro!: gives_done;
      blast intro: gives_calm calm_cancel_timeout calm_tx_relayed)

lemma calm_has_tx: "peerHasTx env p h m = Some m' \<Longrightarrow> calm m m'"
  unfolding peerHasTx_def
  by (auto simp: bind_eq_Some_conv calm_gives dest!: gives_claim intro!: gives_done split: option.splits;
      blast intro: gives_calm calm_cancel_timeout calm_tx_seen)

lemma calm_rejected_tx: "peerRejectedTx env p h c m = Some m' \<Longrightarrow> calm m m'"
  unfolding peerRejectedTx_def
  by (auto simp: bind_eq_Some_conv calm_tell dest!: calms split: option.splits; blast intro: calm_trans)

lemma calm_requested_tx: "peerRequestedTx env p h m = Some (r, m') \<Longrightarrow> calm m m'"
  unfolding peerRequestedTx_def
  by (auto simp: bind_eq_Some_conv calm_gives dest!: gives_request_loop [where ?m0.0 = m] intro!: gives_done;
      (simp add: calm_gives [symmetric])?; blast intro: gives_calm calm_cancel_timeout calm_tx_requested)

lemma calm_notfound: "peerDataNotfound p hs m = Some m' \<Longrightarrow> calm m m'"
proof -
  have "calm m (fold (\<lambda>h m. m\<lparr>m_txRelays := f h m, m_txRequests := g h m\<rparr>) hs m1) = calm m m1" for f g and m1 :: "'a LWPeerManager"
    by (induction hs arbitrary: m1) simp_all
  then show "peerDataNotfound p hs m = Some m' \<Longrightarrow> calm m m'" unfolding peerDataNotfound_def by (auto simp: bind_eq_Some_conv)
qed

lemma calm_fee: "calm m (peerSetFeePerKb m)"
  by (simp add: peerSetFeePerKb_def Let_def)

lemma calm_relayed_peers: "calm m (peerRelayedPeers env p ps m)"
  by (simp add: peerRelayedPeers_def Let_def calm_tell)

subsection \<open>The chain\<close>

definition live :: "('k \<rightharpoonup> ptr) \<Rightarrow> (LWMerkleBlock \<Rightarrow> 'k) \<Rightarrow> (ptr \<rightharpoonup> LWMerkleBlock) \<Rightarrow> bool" where
  "live S key mem \<longleftrightarrow> (\<forall>k p. S k = Some p \<longrightarrow> (\<exists>b. mem p = Some b \<and> key b = k))"

definition sound_block :: "LWMerkleBlock \<Rightarrow> bool" where
  "sound_block b \<longleftrightarrow> length (mb_blockHash b) = 32 \<and> length (mb_prevBlock b) = 32"

text \<open>
  The blocks of both sets are alive and stand under their keys; no block is in both; the last block, if it is
  alive, is the one of its hash in the set.
\<close>

definition chain_inv :: "'c LWPeerManager \<Rightarrow> bool" where
  "chain_inv m \<longleftrightarrow> live (m_blocks m) mb_blockHash (m_memory m) \<and> live (m_orphans m) mb_prevBlock (m_memory m) \<and>
     (\<forall>k k' p. m_blocks m k = Some p \<longrightarrow> m_orphans m k' \<noteq> Some p) \<and> (\<forall>p b. m_memory m p = Some b \<longrightarrow> p < m_next m \<and> sound_block b) \<and>
     m_lastBlock m < m_next m \<and> (\<forall>l. last_block m = Some l \<longrightarrow> m_blocks m (mb_blockHash l) = Some (m_lastBlock m))"

text \<open>A block that is in no set.\<close>

definition loose :: "ptr \<Rightarrow> 'c LWPeerManager \<Rightarrow> bool" where
  "loose b m \<longleftrightarrow> block_at m b \<noteq> None \<and> (\<forall>k. m_blocks m k \<noteq> Some b \<and> m_orphans m k \<noteq> Some b)"

text \<open>How the last block moves on: to its successor, to another copy of it, or to a higher block.\<close>

definition advance :: "LWMerkleBlock \<Rightarrow> LWMerkleBlock \<Rightarrow> bool" where
  "advance l l' \<longleftrightarrow> mb_prevBlock l' = mb_blockHash l \<and> mb_height l' = mb_height l + 1 \<or>
     mb_blockHash l' = mb_blockHash l \<and> mb_height l' = mb_height l \<or> mb_height l < mb_height l'"

definition settled :: "'c LWPeerManager \<Rightarrow> 'c LWPeerManager \<Rightarrow> bool" where
  "settled m m' \<longleftrightarrow> ledger m' \<subseteq># ledger m \<and> (parallel m \<longrightarrow> parallel m') \<and> m_params m' = m_params m \<and> m_next m' = m_next m \<and>
     map fst (m_connectedPeers m') = map fst (m_connectedPeers m) \<and> m_downloadPeer m' = m_downloadPeer m \<and>
     m_isConnected m' = m_isConnected m \<and> m_maxConnectCount m' = m_maxConnectCount m \<and>
     (\<forall>l'. last_block m' = Some l' \<longrightarrow> (\<exists>l. last_block m = Some l \<and> advance\<^sup>*\<^sup>* l l'))"

lemma settled_refl [simp]: "settled m m"
  by (simp add: settled_def)

lemma settled_trans: "settled m m' \<Longrightarrow> settled m' m'' \<Longrightarrow> settled m m''"
  unfolding settled_def by (auto 4 4 intro: subset_mset.order_trans rtranclp_trans)

lemma calm_block_at: "calm m m' \<Longrightarrow> block_at m' p = (if p \<in> ran (m_orphans m) \<and> m_orphans m' = Map.empty then None else block_at m p) \<or>
    block_at m' p = block_at m p"
  by (auto simp: calm_def same_orphans_def block_at_def)

lemma calm_memory: "calm m m' \<Longrightarrow> block_at m' p = Some b \<Longrightarrow> block_at m p = Some b"
  by (auto simp: calm_def same_orphans_def block_at_def restrict_map_def split: if_splits)

lemma calm_settled: "calm m m' \<Longrightarrow> settled m m'"
  using calm_memory [of m m' "m_lastBlock m'"] by (auto simp: settled_def last_block_def calm_def)

lemma calm_blocks: "calm m m' \<Longrightarrow> m_blocks m' = m_blocks m"
  by (simp add: calm_def)

lemma chain_calm: "calm m m' \<Longrightarrow> chain_inv m \<Longrightarrow> chain_inv m'"
  unfolding calm_def same_orphans_def chain_inv_def live_def last_block_def block_at_def
  by (elim conjE disjE) (auto simp: ran_def restrict_map_def split: if_splits)

lemma loose_calm: "calm m m' \<Longrightarrow> loose b m \<Longrightarrow> loose b m' \<and> block_at m' b = block_at m b"
  unfolding calm_def same_orphans_def loose_def block_at_def
  by (elim conjE disjE) (auto simp: restrict_map_def ran_def)

lemma calm_kept: "calm m m' \<Longrightarrow> \<forall>k. m_orphans m k \<noteq> Some p \<Longrightarrow> block_at m' p = block_at m p"
  unfolding calm_def same_orphans_def block_at_def
  by (elim conjE disjE) (auto simp: restrict_map_def ran_def)

lemma loose_not_last: "chain_inv m \<Longrightarrow> loose b m \<Longrightarrow> m_lastBlock m \<noteq> b"
  by (auto simp: chain_inv_def loose_def last_block_def)

lemma settled_updates [simp]:
  "settled m (m'\<lparr>m_blocks := x\<rparr>) = settled m m'" "settled m (m'\<lparr>m_orphans := y\<rparr>) = settled m m'"
  "settled m (m'\<lparr>m_lastOrphan := z\<rparr>) = settled m m'" "settled m (m'\<lparr>m_estimatedHeight := h\<rparr>) = settled m m'"
  "settled m (m'\<lparr>m_connectFailureCount := n\<rparr>) = settled m m'"
  by (simp_all add: settled_def ledger_def parallel_def last_block_def block_at_def)

lemma chain_updates [simp]:
  "chain_inv (m\<lparr>m_lastOrphan := z\<rparr>) = chain_inv m" "chain_inv (m\<lparr>m_estimatedHeight := h\<rparr>) = chain_inv m"
  "chain_inv (m\<lparr>m_connectFailureCount := n\<rparr>) = chain_inv m" "chain_inv (tell es m) = chain_inv m"
  by (simp_all add: chain_inv_def last_block_def block_at_def tell_def)

lemma loose_updates [simp]:
  "loose b (m\<lparr>m_lastOrphan := z\<rparr>) = loose b m" "loose b (m\<lparr>m_estimatedHeight := h\<rparr>) = loose b m"
  "loose b (m\<lparr>m_connectFailureCount := n\<rparr>) = loose b m" "loose b (tell es m) = loose b m"
  by (simp_all add: loose_def block_at_def tell_def)

lemma settled_tell [simp]: "called es = {#} \<Longrightarrow> settled m (tell es m') = settled m m'"
  by (simp add: settled_def tell_def ledger_def parallel_def last_block_def block_at_def)

lemma free_loose:
  assumes "chain_inv m" "loose b m" "free_block b m = Some m'"
  shows "chain_inv m'" "settled m m'"
  using assms loose_not_last [OF assms(1,2)]
  by (auto simp: free_block_def chain_inv_def loose_def live_def last_block_def block_at_def settled_def ledger_def parallel_def split: if_splits)

text \<open>What blocks remain and in which sets they are, for a block that is in none.\<close>

definition keeps :: "ptr \<Rightarrow> 'c LWPeerManager \<Rightarrow> 'c LWPeerManager \<Rightarrow> bool" where
  "keeps b m m' \<longleftrightarrow> settled m m' \<and> m_blocks m' \<subseteq>\<^sub>m m_blocks m \<and> m_memory m' \<subseteq>\<^sub>m m_memory m \<and> (chain_inv m \<longrightarrow> chain_inv m') \<and>
     (chain_inv m \<longrightarrow> loose b m \<longrightarrow> loose b m' \<and> block_at m' b = block_at m b)"

lemma keeps_trans: "keeps b m m' \<Longrightarrow> keeps b m' m'' \<Longrightarrow> keeps b m m''"
  unfolding keeps_def by (auto intro: settled_trans map_le_trans)

lemma keeps_calm:
  assumes "calm m m'"
  shows "keeps b m m'"
proof -
  have "m_memory m' \<subseteq>\<^sub>m m_memory m" using calm_memory [OF assms] by (auto simp: map_le_def block_at_def)
  then show ?thesis using assms unfolding keeps_def by (auto intro: calm_settled chain_calm dest: loose_calm calm_blocks)
qed

lemma keeps_refl [simp]: "keeps b m m"
  by (simp add: keeps_def)

lemma keeps_free_old:
  assumes "free_old h m = Some m'"
  shows "chain_inv m \<longrightarrow> keeps b m m'"
proof -
  let ?P = "\<lambda>(h :: UInt256) (m :: 'a LWPeerManager) m'. chain_inv m \<longrightarrow> keeps b m m'"
  have step: "keeps b m (m\<lparr>m_blocks := (m_blocks m)(mb_blockHash x := None), m_memory := (m_memory m)(p := None)\<rparr>)"
    if "chain_inv m" "m_blocks m k = Some p" "block_at m p = Some x" for m :: "'a LWPeerManager" and k p x
  proof -
    have k: "m_blocks m k' = Some p \<Longrightarrow> k' = mb_blockHash x" for k'
      using that unfolding chain_inv_def live_def block_at_def by fastforce
    have u: "m_blocks m k' = Some p \<Longrightarrow> k' = k" for k' using k that(2) by blast
    have o': "m_orphans m k' \<noteq> Some p" for k' using that(1,2) unfolding chain_inv_def by blast
    show ?thesis using that k [OF that(2)] u o'
      unfolding keeps_def settled_def chain_inv_def loose_def live_def last_block_def block_at_def ledger_def parallel_def map_le_def
      by auto
  qed
  show ?thesis
  proof (rule free_old.raw_induct [of ?P, OF _ assms])
    fix F :: "UInt256 \<Rightarrow> 'a LWPeerManager \<Rightarrow> 'a LWPeerManager option" and h m m'
    assume 1: "\<And>h m m'. F h m = Some m' \<Longrightarrow> ?P h m m'"
      "Option.bind (get_block m h) (\<lambda>r. case r of None \<Rightarrow> Some m
        | Some (p, b) \<Rightarrow> Option.bind
           (if mb_height b mod BLOCK_DIFFICULTY_INTERVAL \<noteq> 0
            then free_block p (m\<lparr>m_blocks := (m_blocks m)(mb_blockHash b := None)\<rparr>) else Some m)
           (F (mb_prevBlock b))) = Some m'"
    show "?P h m m'"
    proof
      assume c: "chain_inv m"
      obtain r where r: "get_block m h = Some r" using 1(2) by (auto simp: bind_eq_Some_conv)
      show "keeps b m m'"
      proof (cases r)
        case None
        then show ?thesis using 1(2) r by simp
      next
        case (Some s)
        obtain p x where s: "s = (p, x)" by fastforce
        have px: "m_blocks m h = Some p" "block_at m p = Some x" using r Some s by (auto simp: get_block_def split: option.splits)
        define freed where "freed = m\<lparr>m_blocks := (m_blocks m)(mb_blockHash x := None), m_memory := (m_memory m)(p := None)\<rparr>"
        have "(if mb_height x mod BLOCK_DIFFICULTY_INTERVAL \<noteq> 0 then free_block p (m\<lparr>m_blocks := (m_blocks m)(mb_blockHash x := None)\<rparr>)
            else Some m) = Some (if mb_height x mod BLOCK_DIFFICULTY_INTERVAL \<noteq> 0 then freed else m)"
          using px(2) by (simp add: free_block_def block_at_def freed_def)
        then have "F (mb_prevBlock x) (if mb_height x mod BLOCK_DIFFICULTY_INTERVAL \<noteq> 0 then freed else m) = Some m'"
          using 1(2) r Some s by simp
        moreover have "keeps b m (if mb_height x mod BLOCK_DIFFICULTY_INTERVAL \<noteq> 0 then freed else m)"
          using step [OF c px] by (simp add: freed_def)
        ultimately obtain m1 where m1: "keeps b m m1" "F (mb_prevBlock x) m1 = Some m'" by blast
        then show ?thesis using 1(1) [OF m1(2)] c keeps_trans by (auto simp: keeps_def)
      qed
    qed
  qed
qed

lemma keeps_transition:
  assumes "check_transition block m = Some (ok, m')" "chain_inv m"
  shows "keeps b m m'"
proof -
  have "m' = m \<or> (\<exists>h. free_old h m = Some m')"
    using assms(1) unfolding check_transition_def by (cases "step_back m (unat BLOCK_DIFFICULTY_INTERVAL) (Some block)")
      (auto simp: bind_eq_Some_conv split: option.splits)
  then show ?thesis using keeps_free_old assms(2) by fastforce
qed

lemma keeps_verify:
  assumes "LWPeerManagerVerifyBlock block prev m = Some (ok, m')" "chain_inv m"
  shows "keeps b m m'"
  using assms unfolding LWPeerManagerVerifyBlock_def
  by (auto simp: bind_eq_Some_conv split: if_splits dest!: keeps_transition [where b = b])

lemma verified_height:
  "LWPeerManagerVerifyBlock block (Some prev) m = Some (True, m') \<Longrightarrow> mb_height block = mb_height prev + 1"
  unfolding LWPeerManagerVerifyBlock_def by (auto simp: follows_def split: if_splits)

lemma calm_track [calms]: "track_rate env p block hs m = Some m' \<Longrightarrow> calm m m'"
  unfolding track_rate_def Let_def by (auto simp: bind_eq_Some_conv dest!: calms split: if_splits)

lemma calm_reschedule [calms]: "reschedule env p m = Some m' \<Longrightarrow> calm m m'"
  unfolding reschedule_def by (auto dest!: calms)

text \<open>The outcome for a block that is in no set: the invariant holds, and the last block has moved on.\<close>

definition placed :: "'c LWPeerManager \<Rightarrow> 'c LWPeerManager \<Rightarrow> bool" where
  "placed m m' \<longleftrightarrow> settled m m' \<and> chain_inv m'"

lemma placed_calm: "placed m m' \<Longrightarrow> calm m' m'' \<Longrightarrow> placed m m''"
  unfolding placed_def by (auto intro: settled_trans calm_settled chain_calm)

lemma placed_keeps: "keeps b m m' \<Longrightarrow> chain_inv m \<Longrightarrow> placed m' m'' \<Longrightarrow> placed m m''"
  unfolding placed_def keeps_def by (auto intro: settled_trans)

lemma placed_drop: "chain_inv m \<Longrightarrow> loose b m \<Longrightarrow> drop_block b m = Some (k, n, m') \<Longrightarrow> placed m m'"
  unfolding drop_block_def placed_def by (auto simp: bind_eq_Some_conv dest: free_loose)

lemma placed_filter_pending: "chain_inv m \<Longrightarrow> loose b m \<Longrightarrow> filter_pending env p b m = Some (k, n, m') \<Longrightarrow> placed m m'"
proof -
  assume a: "chain_inv m" "loose b m" "filter_pending env p b m = Some (k, n, m')"
  obtain m1 where "free_block b m = Some m1" "calm m1 m'"
    using a(3) unfolding filter_pending_def by (auto simp: bind_eq_Some_conv dest!: calms split: if_splits)
  then show ?thesis using free_loose [OF a(1,2)] placed_calm by (auto simp: placed_def)
qed

lemma placed_add_orphan:
  assumes "chain_inv m" "loose b m" "block_at m b = Some block"
  shows "placed m (add_orphan b block m)"
proof -
  have "m_blocks m k \<noteq> Some b" for k using assms(2) by (simp add: loose_def)
  then show ?thesis using assms unfolding placed_def add_orphan_def
    by (auto simp: chain_inv_def live_def last_block_def block_at_def)
qed

lemma placed_orphan:
  assumes "chain_inv m" "loose b m" "block_at m b = Some block" "orphan_block env p b block m = Some (k, n, m')"
  shows "placed m m'"
proof (cases "int (unat (mb_timestamp block + 7 * 24 * 60 * 60)) < pe_time (me_peer env)")
  case True
  then show ?thesis using assms placed_drop [of m b] by (simp add: orphan_block_def)
next
  case False
  then have "\<exists>m1. calm m m1 \<and> m' = add_orphan b block m1"
    using assms(4) unfolding orphan_block_def
    by (clarsimp simp: bind_eq_Some_conv split: if_splits option.splits) (auto dest!: calms intro: exI [of _ m])
  then obtain m1 where m1: "calm m m1" "m' = add_orphan b block m1" by blast
  have "loose b m1" "block_at m1 b = Some block" "chain_inv m1" using loose_calm [OF m1(1)] assms chain_calm [OF m1(1)] by auto
  then show ?thesis using placed_add_orphan [of m1 b block] m1 calm_settled [OF m1(1)] by (auto simp: placed_def intro: settled_trans)
qed

lemma eq_hash: "sound_block a \<Longrightarrow> sound_block b \<Longrightarrow> UInt256Eq (mb_blockHash a) (mb_blockHash b) \<longleftrightarrow> mb_blockHash a = mb_blockHash b"
  "sound_block a \<Longrightarrow> sound_block b \<Longrightarrow> UInt256Eq (mb_prevBlock a) (mb_blockHash b) \<longleftrightarrow> mb_prevBlock a = mb_blockHash b"
  by (simp_all add: sound_block_def UInt256Eq_iff)

text \<open>A block becomes the last one.\<close>

lemma placed_last:
  assumes "chain_inv m" "loose b m" "block_at m b = Some block" "last_block m = Some l" "advance l block"
  shows "placed m (m\<lparr>m_blocks := (m_blocks m)(mb_blockHash block \<mapsto> b), m_lastBlock := b\<rparr>)"
  using assms unfolding placed_def settled_def chain_inv_def loose_def live_def last_block_def block_at_def ledger_def parallel_def
  by auto

lemma placed_extend:
  assumes "chain_inv m" "loose b m" "block_at m b = Some block" "last_block m = Some l" "advance l block"
    "extend_chain env p b block hs t m = Some (k, n, m')"
  shows "placed m m'"
proof -
  let ?m = "m\<lparr>m_blocks := (m_blocks m)(mb_blockHash block \<mapsto> b), m_lastBlock := b\<rparr>"
  have "calm ?m m'"
    using assms(6) unfolding extend_chain_def Let_def
    by (auto dest!: calms simp: bind_eq_Some_conv split: if_splits option.splits; blast intro: calm_trans)
  then show ?thesis using placed_last [OF assms(1-5)] placed_calm by blast
qed

lemma calm_set_heights [calms]: "set_heights env h b m = Some m' \<Longrightarrow> calm m m'"
proof (rule set_heights.raw_induct [of "\<lambda>env h b m m'. calm m m'", rotated], assumption)
  fix F :: "('p, 's, 'r) manager_env \<Rightarrow> u32 \<Rightarrow> LWMerkleBlock option \<Rightarrow> 'a LWPeerManager \<Rightarrow> 'a LWPeerManager option"
    and env :: "('p, 's, 'r) manager_env" and stop b and m m' :: "'a LWPeerManager"
  assume 1: "\<And>env stop b m m'. F env stop b m = Some m' \<Longrightarrow> calm m m'"
    "(case b of None \<Rightarrow> Some m
      | Some x \<Rightarrow>
          if mb_height x > stop then
            Option.bind (LWMerkleBlockTxHashes x None) (\<lambda>counted.
            Option.bind (LWMerkleBlockTxHashes x (Some (length counted))) (\<lambda>txHashes.
            Option.bind (get_block m (mb_prevBlock x)) (\<lambda>r. let b = map_option snd r;
                timestamp = (case b of None \<Rightarrow> mb_timestamp x | Some y \<Rightarrow> mb_timestamp x div 2 + mb_timestamp y div 2) in
            Option.bind (if txHashes \<noteq> []
                 then on_wallet (LWWalletUpdateTransactions (env_now (me_wallet env)) txHashes (mb_height x) timestamp) m else Some m)
              (F env stop b))))
          else Some m) = Some m'"
  have "F e s b m1 = Some m' \<Longrightarrow> calm m m1 \<Longrightarrow> calm m m'" for e s b m1 using 1(1) calm_trans by blast
  then show "calm m m'"
    using 1(2) by (auto simp: bind_eq_Some_conv Let_def split: option.splits if_splits dest!: calm_on_wallet)
qed


text \<open>The search from the last block down ends at it when its height is right.\<close>

lemma descend_here: "\<not> mb_height l > h \<Longrightarrow> descend m h (Some (p, l)) = Some (Some (p, l))"
  by (subst descend.simps) simp

lemma chain_block: "chain_inv m \<Longrightarrow> m_blocks m k = Some p \<Longrightarrow> \<exists>x. block_at m p = Some x \<and> mb_blockHash x = k \<and> sound_block x"
  unfolding chain_inv_def live_def block_at_def by blast

lemma chain_orphan: "chain_inv m \<Longrightarrow> m_orphans m k = Some p \<Longrightarrow> \<exists>x. block_at m p = Some x \<and> mb_prevBlock x = k \<and> sound_block x"
  unfolding chain_inv_def live_def block_at_def by blast

lemma sound_at: "chain_inv m \<Longrightarrow> block_at m p = Some x \<Longrightarrow> sound_block x"
  by (simp add: chain_inv_def block_at_def)

lemma same_blocks_calm: "calm m m' \<Longrightarrow> loose b m \<Longrightarrow> block_at m b = Some block \<Longrightarrow> chain_inv m \<Longrightarrow>
    loose b m' \<and> block_at m' b = Some block \<and> chain_inv m' \<and> m_blocks m' = m_blocks m \<and> m_lastBlock m' = m_lastBlock m"
  using loose_calm [of m m' b] chain_calm [of m m'] by (auto simp: calm_def)

lemma refreshed:
  assumes "refresh_block env b block hs t m = Some m'"
  shows "\<exists>m1. calm m m1 \<and> (m' = m1 \<or> m' = m1\<lparr>m_lastBlock := b\<rparr> \<and>
    (\<exists>l. last_block m = Some l \<and> mb_height block = mb_height l \<and> UInt256Eq (mb_blockHash l) (mb_blockHash block)))"
proof -
  obtain l r there where s: "last_block m = Some l" "descend m (mb_height block) (Some (m_lastBlock m, l)) = Some r" "map_option snd r = Some there"
    "(if UInt256Eq (mb_blockHash there) (mb_blockHash block) then do {
        m \<leftarrow> (if hs \<noteq> [] then LWPeerManagerUpdateTx env hs (mb_height block) t m else Some m);
        Some (if mb_height block = mb_height l then m\<lparr>m_lastBlock := b\<rparr> else m) }
      else Some m) = Some m'"
    using assms unfolding refresh_block_def bind_eq_Some_conv by blast
  show ?thesis
  proof (cases "UInt256Eq (mb_blockHash there) (mb_blockHash block)")
    case False
    then show ?thesis using s(4) by (intro exI [of _ m]) auto
  next
    case True
    then obtain m1 where m1: "(if hs \<noteq> [] then LWPeerManagerUpdateTx env hs (mb_height block) t m else Some m) = Some m1"
        "m' = (if mb_height block = mb_height l then m1\<lparr>m_lastBlock := b\<rparr> else m1)"
      using s(4) by (auto simp: bind_eq_Some_conv)
    have "calm m m1" using m1(1) by (auto dest: calms split: if_splits)
    have "there = l" if "mb_height block = mb_height l"
      using that s(2,3) descend_here [of "mb_height block" l m "m_lastBlock m"] by auto
    then show ?thesis using m1(2) \<open>calm m m1\<close> s(1) True by (intro exI [of _ m1]) auto
  qed
qed

lemma replaced:
  assumes c: "chain_inv m" and b: "loose b m" "block_at m b = Some block" and r: "replace_block b block m' = Some m''"
    and m': "m' = m \<or> m' = m\<lparr>m_lastBlock := b\<rparr> \<and> (\<exists>l. last_block m = Some l \<and> mb_height block = mb_height l \<and> mb_blockHash l = mb_blockHash block)"
  shows "placed m m''"
proof -
  have s: "m_blocks m' = m_blocks m" "m_orphans m' = m_orphans m" "block_at m' = block_at m" using m' by (auto simp: block_at_def fun_eq_iff)
  obtain old where old: "m_blocks m (mb_blockHash block) = Some old" using r s by (auto simp: replace_block_def bind_eq_Some_conv)
  then have "old \<noteq> b" using b(1) by (auto simp: loose_def)
  moreover obtain x where x: "block_at m old = Some x" "mb_blockHash x = mb_blockHash block"
    using chain_block [OF c old] by blast
  moreover have no_orphan: "m_orphans m k \<noteq> Some old" for k using c old by (auto simp: chain_inv_def)
  ultimately have m'': "m'' = (if m_lastOrphan m' = Some old then m'\<lparr>m_lastOrphan := None\<rparr> else m')
      \<lparr>m_blocks := (m_blocks m)(mb_blockHash block \<mapsto> b), m_memory := (m_memory m')(old := None)\<rparr>"
    using r s old unfolding replace_block_def
    by (auto simp: bind_eq_Some_conv Let_def free_block_def block_at_def split: if_splits)
  have u: "m_blocks m k = Some old \<Longrightarrow> k = mb_blockHash block" for k
    using chain_block [OF c] x by fastforce
  have f: "m_memory m'' = (m_memory m)(old := None)" "m_blocks m'' = (m_blocks m)(mb_blockHash block \<mapsto> b)" "m_orphans m'' = m_orphans m"
    "m_next m'' = m_next m" "m_lastBlock m'' = m_lastBlock m'" "ledger m'' = ledger m" "parallel m'' = parallel m"
    using m' unfolding m'' by (auto simp: ledger_def parallel_def)
  have tip: "last_block m'' = Some l' \<Longrightarrow> m_lastBlock m'' = b \<and> l' = block \<or>
      m_lastBlock m'' = m_lastBlock m \<and> last_block m = Some l' \<and> m_lastBlock m \<noteq> old" for l'
    using m' b(2) \<open>old \<noteq> b\<close> by (auto simp: last_block_def block_at_def f split: if_splits)
  have lives: "live (m_blocks m'') mb_blockHash (m_memory m'')"
    using chain_block [OF c] u b(2) \<open>old \<noteq> b\<close> by (fastforce simp: live_def f block_at_def)
  have orphans: "live (m_orphans m'') mb_prevBlock (m_memory m'')"
    using chain_orphan [OF c] no_orphan by (fastforce simp: live_def f block_at_def)
  have disjoint: "m_blocks m'' k = Some p \<Longrightarrow> m_orphans m'' k' \<noteq> Some p" for k k' p
    using c b(1) by (auto simp: f chain_inv_def loose_def split: if_splits)
  have below: "m_memory m'' p = Some y \<Longrightarrow> p < m_next m'' \<and> sound_block y" for p y
    using c by (auto simp: f chain_inv_def split: if_splits)
  have bn: "b < m_next m" using b(2) c by (auto simp: chain_inv_def block_at_def)
  then have next': "m_lastBlock m'' < m_next m''" using m' c by (auto simp: f chain_inv_def)
  have here: "m_blocks m'' (mb_blockHash l') = Some (m_lastBlock m'')" if "last_block m'' = Some l'" for l'
  proof -
    have "last_block m = Some l' \<Longrightarrow> m_blocks m (mb_blockHash l') = Some (m_lastBlock m)" using c by (simp add: chain_inv_def)
    then show ?thesis using tip [OF that] old by (auto simp: f(2))
  qed
  have moved: "\<exists>l. last_block m = Some l \<and> advance\<^sup>*\<^sup>* l l'" if "last_block m'' = Some l'" for l'
  proof (cases "m_lastBlock m'' = b \<and> l' = block")
    case True
    then obtain l where "last_block m = Some l" "mb_height block = mb_height l" "mb_blockHash l = mb_blockHash block"
      using m' loose_not_last [OF c b(1)] by (auto simp: f)
    then show ?thesis using True by (auto simp: advance_def)
  next
    case False
    then show ?thesis using tip [OF that] by auto
  qed
  have "settled m m''" using m' moved f(6,7) unfolding m'' settled_def by auto
  moreover have "chain_inv m''" using lives orphans disjoint below next' here unfolding chain_inv_def by blast
  ultimately show ?thesis by (simp add: placed_def)
qed

lemma calm_placed: "calm m m1 \<Longrightarrow> placed m1 m' \<Longrightarrow> placed m m'"
  unfolding placed_def by (auto intro: settled_trans calm_settled)

lemma placed_existing:
  assumes "chain_inv m" "loose b m" "block_at m b = Some block" "existing_block env b block hs t m = Some (k, n, m')"
  shows "placed m m'"
proof -
  obtain m2 where s: "refresh_block env b block hs t m = Some m2" "replace_block b block m2 = Some m'"
    using assms(4) by (auto simp: existing_block_def bind_eq_Some_conv)
  obtain m1 where m1: "calm m m1" "m2 = m1 \<or> m2 = m1\<lparr>m_lastBlock := b\<rparr> \<and>
      (\<exists>l. last_block m = Some l \<and> mb_height block = mb_height l \<and> UInt256Eq (mb_blockHash l) (mb_blockHash block))"
    using refreshed [OF s(1)] by blast
  note b = same_blocks_calm [OF m1(1) assms(2,3,1)]
  have sound: "sound_block block" using assms(1,3) by (rule sound_at)
  show ?thesis
  proof (cases "m2 = m1")
    case True
    then show ?thesis using replaced [of m1 b block m2 m'] b s(2) calm_placed [OF m1(1)] by blast
  next
    case False
    then obtain l where l: "m2 = m1\<lparr>m_lastBlock := b\<rparr>" "last_block m = Some l" "mb_height block = mb_height l"
      "UInt256Eq (mb_blockHash l) (mb_blockHash block)" using m1(2) by blast
    then have l': "mb_blockHash l = mb_blockHash block"
      using eq_hash(1) [OF sound_at [OF assms(1)] sound] by (simp add: last_block_def)
    have "\<forall>j. m_orphans m j \<noteq> Some (m_lastBlock m)"
      using assms(1) l(2) unfolding chain_inv_def by blast
    then have "last_block m1 = Some l" using calm_kept [OF m1(1)] l(2) b by (simp add: last_block_def)
    then show ?thesis using replaced [of m1 b block m2 m'] b s(2) l(1,3) l' calm_placed [OF m1(1)] by blast
  qed
qed

lemma placed_fork:
  assumes c: "chain_inv m" and b: "loose b m" "block_at m b = Some block" and new: "m_blocks m (mb_blockHash block) = None"
    and f: "fork_block env b block m = Some (k, n, m')"
  shows "placed m m'"
proof -
  let ?m = "m\<lparr>m_blocks := (m_blocks m)(mb_blockHash block \<mapsto> b)\<rparr>"
  have inv: "placed m ?m"
    using assms(1-4) unfolding placed_def settled_def chain_inv_def loose_def live_def last_block_def block_at_def ledger_def parallel_def
    by auto
  obtain l where l: "last_block ?m = Some l" using f by (auto simp: fork_block_def bind_eq_Some_conv Let_def)
  show ?thesis
  proof (cases "mb_height block > mb_height l")
    case False
    then show ?thesis using f l inv by (auto simp: fork_block_def)
  next
    case True
    obtain m1 where m1: "switch_chain env b block l ?m = Some m1" "calm m1 m'"
      using f l True by (auto simp: fork_block_def bind_eq_Some_conv split: if_splits dest: calms)
    have "\<exists>h (y :: LWMerkleBlock option) m3 m2. on_wallet h ?m = Some m3 \<and>
        (case y of None \<Rightarrow> Some m3 | Some y \<Rightarrow> set_heights env (mb_height y) (Some block) m3) = Some m2 \<and> m1 = m2\<lparr>m_lastBlock := b\<rparr>"
    proof -
      obtain x y x' m3 m2 where "join ?m (Some block) (Some l) = Some (x, y)" "x = Some x'"
        "on_wallet (LWWalletSetTxUnconfirmedAfter (env_now (me_wallet env)) (mb_height x')) ?m = Some m3"
        "(case y of None \<Rightarrow> Some m3 | Some y \<Rightarrow> set_heights env (mb_height y) (Some block) m3) = Some m2" "m1 = m2\<lparr>m_lastBlock := b\<rparr>"
        using m1(1) unfolding switch_chain_def by (auto simp: bind_eq_Some_conv simp del: fun_upd_apply)
      then show ?thesis by blast
    qed
    then obtain h and y :: "LWMerkleBlock option" and m3 m2 where m3: "on_wallet h ?m = Some m3"
        "(case y of None \<Rightarrow> Some m3 | Some y \<Rightarrow> set_heights env (mb_height y) (Some block) m3) = Some m2"
        and m1': "m1 = m2\<lparr>m_lastBlock := b\<rparr>" by blast
    have "calm m3 m2" using m3(2) by (cases y) (auto dest: calms)
    then have m2: "calm ?m m2" "m1 = m2\<lparr>m_lastBlock := b\<rparr>" using calm_on_wallet [OF m3(1)] m1' calm_trans by blast+
    have "\<forall>j. m_orphans ?m j \<noteq> Some b" using b by (simp add: loose_def)
    then have b2: "block_at m2 b = Some block" using calm_kept [OF m2(1)] b(2) by (simp add: block_at_def)
    have c2: "chain_inv m2" using chain_calm [OF m2(1)] inv by (simp add: placed_def)
    have "m_blocks m2 (mb_blockHash block) = Some b" using calm_blocks [OF m2(1)] by simp
    then have "chain_inv m1" using c2 b2 unfolding m2(2) by (auto simp: chain_inv_def last_block_def block_at_def)
    moreover have "settled ?m m1"
      using calm_settled [OF m2(1)] l True b2 unfolding m2(2)
      by (auto simp: settled_def last_block_def block_at_def advance_def ledger_def parallel_def)
    ultimately have "placed m m1" using inv settled_trans unfolding placed_def by blast
    then show ?thesis using m1(2) placed_calm by blast
  qed
qed

lemma placed_accept:
  assumes m: "chain_inv m" "loose b m" "block_at m b = Some block"
    and l: "\<And>l. last_block m = Some l \<Longrightarrow> mb_prevBlock block = mb_blockHash l \<Longrightarrow> mb_height block = mb_height l + 1"
    and a: "accept_block env p b block hs t m = Some (k, n, m')"
  shows "placed m m'"
proof -
  obtain tip ctx where tip: "last_block m = Some tip" "peer_at m p = Some ctx" using a by (auto simp: accept_block_def bind_eq_Some_conv)
  have eq: "UInt256Eq (mb_prevBlock block) (mb_blockHash tip) \<longleftrightarrow> mb_prevBlock block = mb_blockHash tip"
    using eq_hash(2) [OF sound_at [OF m(1,3)] sound_at [OF m(1)]] tip(1) by (simp add: last_block_def)
  consider (extend) "mb_prevBlock block = mb_blockHash tip" "extend_chain env p b block hs t m = Some (k, n, m')"
    | (existing) "existing_block env b block hs t m = Some (k, n, m')"
    | (orphan) "m' = add_orphan b block m" | (old) "drop_block b m = Some (k, n, m')"
    | (fork) "m_blocks m (mb_blockHash block) = None" "fork_block env b block m = Some (k, n, m')"
    using a tip unfolding accept_block_def by (auto simp: bind_eq_Some_conv eq split: if_splits)
  then show ?thesis
  proof cases
    case extend
    then have "advance tip block" using l [OF tip(1)] by (simp add: advance_def)
    then show ?thesis using placed_extend [OF m tip(1)] extend by blast
  qed (use placed_existing [OF m] placed_add_orphan [OF m] placed_drop [OF m(1,2)] placed_fork [OF m] in blast)+
qed

text \<open>The block is in no set; if there is a predecessor its height is one more.\<close>

lemma placed_place:
  assumes c: "chain_inv m" and b: "loose b m" "block_at m b = Some block"
    and prev: "get_block m (mb_prevBlock block) = Some r" "prev = map_option snd r"
    and p: "place_block env p b block prev hs t m = Some (k, n, m')"
  shows "placed m m'"
proof -
  consider (new) "drop_block b m = Some (k, n, m')" | (pending) "filter_pending env p b m = Some (k, n, m')"
    | (orphan) "orphan_block env p b block m = Some (k, n, m')"
    | (verified) pr ok m1 where "prev = Some pr" "LWPeerManagerVerifyBlock block (Some pr) m = Some (ok, m1)"
      "(if ok then accept_block env p b block hs t m1
        else do { (kept, n, m) \<leftarrow> drop_block b m1; m \<leftarrow> LWPeerManagerPeerMisbehavin p m; Some (kept, n, m) }) = Some (k, n, m')"
    using p unfolding place_block_def by (auto simp: bind_eq_Some_conv split: if_splits)
  then show ?thesis
  proof cases
    case verified
    have k: "keeps b m m1" by (rule keeps_verify [OF verified(2) c])
    then have m1: "chain_inv m1" "loose b m1" "block_at m1 b = Some block" using c b by (auto simp: keeps_def)
    have "placed m1 m'"
    proof (cases ok)
      case False
      then obtain k' n' m2 where d: "drop_block b m1 = Some (k', n', m2)" "calm m2 m'"
        using verified(3) by (auto simp: bind_eq_Some_conv dest!: calm_misbehavin)
      show ?thesis using placed_calm [OF placed_drop [OF m1(1,2) d(1)] d(2)] .
    next
      case True
      have "mb_height block = mb_height l + 1" if l: "last_block m1 = Some l" "mb_prevBlock block = mb_blockHash l" for l
      proof -
        have "m_blocks m1 (mb_blockHash l) = Some (m_lastBlock m1)" using m1(1) l(1) by (simp add: chain_inv_def)
        then have "m_blocks m (mb_prevBlock block) = Some (m_lastBlock m1)" "block_at m (m_lastBlock m1) = Some l"
          using k l by (auto simp: keeps_def map_le_def last_block_def block_at_def dom_def)
        then have "pr = l" using prev verified(1) by (auto simp: get_block_def)
        then show ?thesis using verified_height verified(2) True by auto
      qed
      then show ?thesis using placed_accept [OF m1] verified(3) True by auto
    qed
    then show ?thesis by (rule placed_keeps [OF k c])
  qed (use placed_filter_pending [OF c b(1)] placed_orphan [OF c b] placed_drop [OF c b(1)] in blast)+
qed

text \<open>A copy of the block with its height takes its place in memory.\<close>

lemma placed_height:
  assumes "chain_inv m" "loose b m" "sound_block block"
  shows "placed m (m\<lparr>m_memory := (m_memory m)(b \<mapsto> block)\<rparr>) \<and> loose b (m\<lparr>m_memory := (m_memory m)(b \<mapsto> block)\<rparr>)"
  using assms loose_not_last [OF assms(1,2)]
  unfolding placed_def settled_def chain_inv_def loose_def live_def last_block_def block_at_def ledger_def parallel_def
  by auto

lemma placed_take:
  assumes "chain_inv m"
  shows "placed m (m\<lparr>m_orphans := (m_orphans m)(h := None)\<rparr>)"
    and "m_orphans m h = Some n \<Longrightarrow> loose n (m\<lparr>m_orphans := (m_orphans m)(h := None)\<rparr>)"
proof -
  show "placed m (m\<lparr>m_orphans := (m_orphans m)(h := None)\<rparr>)"
    using assms unfolding placed_def settled_def chain_inv_def live_def last_block_def block_at_def ledger_def parallel_def by auto
  assume n: "m_orphans m h = Some n"
  have "m_orphans m k = Some n \<Longrightarrow> k = h" for k using chain_orphan [OF assms] n by (metis option.inject)
  moreover have "m_blocks m k \<noteq> Some n" for k using assms n unfolding chain_inv_def by blast
  ultimately show "loose n (m\<lparr>m_orphans := (m_orphans m)(h := None)\<rparr>)"
    using chain_orphan [OF assms n] by (auto simp: loose_def block_at_def)
qed

lemma placed_trans: "placed m m' \<Longrightarrow> placed m' m'' \<Longrightarrow> placed m m''"
  unfolding placed_def by (auto intro: settled_trans)

lemma placed_updates [simp]:
  "placed m (m'\<lparr>m_estimatedHeight := h\<rparr>) = placed m m'"
  "called es = {#} \<Longrightarrow> placed m (tell es m') = placed m m'"
  by (simp_all add: placed_def)

lemma placed_finish:
  assumes "chain_inv m" "finish_block p block k n m = Some (next', m')"
  shows "placed m m' \<and> (\<forall>b. next' = Some b \<longrightarrow> loose b m')"
proof -
  let ?h = "mb_blockHash block" and ?known = "k \<and> mb_height block \<noteq> BLOCK_UNKNOWN_HEIGHT"
  let ?m = "if ?known \<and> mb_height block > m_estimatedHeight m then m\<lparr>m_estimatedHeight := mb_height block\<rparr> else m"
  have m: "placed m ?m" "chain_inv ?m" using assms(1) by (auto simp: placed_def)
  obtain saved b where e: "next' = (if ?known then m_orphans ?m ?h else None)"
      "m' = tell ((if saved \<noteq> [] then [SaveBlocks (length saved > 1) saved] else []) @ (if b then [TxStatusUpdate] else []))
         (if ?known then ?m\<lparr>m_orphans := (m_orphans ?m)(?h := None)\<rparr> else ?m)"
    using assms(2) unfolding finish_block_def Let_def bind_eq_Some_conv option.inject prod.inject by blast
  have e': "placed m m' = placed m (if ?known then ?m\<lparr>m_orphans := (m_orphans ?m)(?h := None)\<rparr> else ?m)"
    "\<And>b. loose b m' = loose b (if ?known then ?m\<lparr>m_orphans := (m_orphans ?m)(?h := None)\<rparr> else ?m)" unfolding e by simp_all
  obtain m0 where m0: "?m = m0" by blast
  show ?thesis
    using e' e(1) m(1) placed_trans [OF m(1) placed_take(1) [OF m(2)]] placed_take(2) [OF m(2)] unfolding m0
    by (cases ?known) auto
qed

lemma placed_relayed:
  assumes "relayed_block env p b m = Some m'"
  shows "chain_inv m \<longrightarrow> loose b m \<longrightarrow> placed m m'"
proof (rule relayed_block.raw_induct [of "\<lambda>env p b m m'. chain_inv m \<longrightarrow> loose b m \<longrightarrow> placed m m'", OF _ assms], intro impI)
  fix F :: "('p, 's, 'r) manager_env \<Rightarrow> ptr \<Rightarrow> ptr \<Rightarrow> 'a LWPeerManager \<Rightarrow> 'a LWPeerManager option"
    and env :: "('p, 's, 'r) manager_env" and p b and m m' :: "'a LWPeerManager"
  assume IH: "\<And>env p b m m'. F env p b m = Some m' \<Longrightarrow> chain_inv m \<longrightarrow> loose b m \<longrightarrow> placed m m'"
    and c: "chain_inv m" "loose b m"
    and run: "Option.bind (block_at m b) (\<lambda>old.
     Option.bind (LWMerkleBlockTxHashes old None) (\<lambda>counted.
     Option.bind (LWMerkleBlockTxHashes old (Some (length counted))) (\<lambda>txHashes.
     Option.bind (get_block m (mb_prevBlock old)) (\<lambda>r.
     let prev = map_option snd r; block = with_height prev old;
         txTime = (case prev of None \<Rightarrow> 0 | Some pr \<Rightarrow> mb_timestamp block div 2 + mb_timestamp pr div 2) in
     Option.bind (track_rate env p block txHashes (m\<lparr>m_memory := (m_memory m)(b \<mapsto> block)\<rparr>)) (\<lambda>m.
     Option.bind (place_block env p b block prev txHashes txTime m) (\<lambda>(kept, saveCount, m).
     Option.bind (finish_block p block kept saveCount m) (\<lambda>(next, m).
     case next of None \<Rightarrow> Some m | Some n \<Rightarrow> F env p n m))))))) = Some m'"
  obtain old r hs t m1 k n m2 nx m3 where old: "block_at m b = Some old" "get_block m (mb_prevBlock old) = Some r"
    and m1: "track_rate env p (with_height (map_option snd r) old) hs (m\<lparr>m_memory := (m_memory m)(b \<mapsto> with_height (map_option snd r) old)\<rparr>) = Some m1"
    and m2: "place_block env p b (with_height (map_option snd r) old) (map_option snd r) hs t m1 = Some (k, n, m2)"
    and m3: "finish_block p (with_height (map_option snd r) old) k n m2 = Some (nx, m3)"
    and end': "(case nx of None \<Rightarrow> Some m3 | Some n \<Rightarrow> F env p n m3) = Some m'"
    using run by (clarsimp simp: bind_eq_Some_conv Let_def)
  let ?block = "with_height (map_option snd r) old"
  let ?m = "m\<lparr>m_memory := (m_memory m)(b \<mapsto> ?block)\<rparr>"
  have sound: "sound_block ?block" using sound_at [OF c(1) old(1)] by (auto simp: sound_block_def with_height_def split: option.splits)
  have h: "placed m ?m" "loose b ?m" using placed_height [OF c sound] by auto
  have "block_at ?m b = Some ?block" by (simp add: block_at_def)
  with same_blocks_calm [OF calm_track [OF m1] h(2)] h(1)
  have b1: "chain_inv m1" "loose b m1" "block_at m1 b = Some ?block" "m_blocks m1 = m_blocks ?m" by (auto simp: placed_def)
  have prev: "mb_prevBlock ?block = mb_prevBlock old" by (simp add: with_height_def split: option.splits)
  have "get_block m1 (mb_prevBlock old) = Some r"
  proof (cases "m_blocks m (mb_prevBlock old)")
    case (Some q)
    then have "q \<noteq> b" "\<forall>j. m_orphans ?m j \<noteq> Some q" using c by (auto simp: loose_def chain_inv_def)
    then show ?thesis using Some old(2) calm_kept [OF calm_track [OF m1]] b1(4) by (simp add: get_block_def block_at_def)
  qed (use old(2) b1(4) in \<open>simp add: get_block_def\<close>)
  then have "get_block m1 (mb_prevBlock ?block) = Some r" unfolding prev .
  then have "placed m1 m2" using placed_place [OF b1(1-3) _ refl m2] by blast
  moreover have "placed m m1" using placed_calm [OF h(1) calm_track [OF m1]] .
  ultimately have p2: "placed m m2" using placed_trans by blast
  then have p3: "placed m m3" "\<And>b. nx = Some b \<Longrightarrow> loose b m3"
    using placed_finish [OF _ m3] placed_trans by (auto simp: placed_def intro: settled_trans)
  show "placed m m'"
  proof (cases nx)
    case None
    then show ?thesis using end' p3 by simp
  next
    case (Some q)
    then have "placed m3 m'" using end' IH p3 by (auto simp: placed_def)
    then show ?thesis using p3(1) placed_trans by blast
  qed
qed

end
