(* ===== verification/LW_ManagerSteps.thy ===== *)
theory LW_ManagerSteps
  imports LW_ManagerInv
begin

text \<open>
  The manager as a state machine: its handlers, the calls of its user and the threads of the peers are the steps;
  what holds of every state that is reached.
\<close>

named_theorems steadys \<open>operations that keep the invariant\<close>

subsection \<open>The list of peers\<close>

text \<open>The peers are distinct objects, at most as many as wanted; the one to download from is one of them.\<close>

definition peers_inv :: "'c LWPeerManager \<Rightarrow> bool" where
  "peers_inv m \<longleftrightarrow> distinct (map fst (m_connectedPeers m)) \<and> (\<forall>p \<in> set (map fst (m_connectedPeers m)). p < m_next m) \<and>
     length (map fst (m_connectedPeers m)) \<le> m_maxConnectCount m \<and>
     (\<forall>p. m_downloadPeer m = Some p \<longrightarrow> p \<in> set (map fst (m_connectedPeers m))) \<and>
     (m_isConnected m \<longleftrightarrow> m_downloadPeer m \<noteq> None)"

definition manager_inv :: "'c LWPeerManager \<Rightarrow> bool" where
  "manager_inv m \<longleftrightarrow> chain_inv m \<and> peers_inv m \<and> parallel m"

text \<open>An operation that is given callbacks of publishers and keeps the invariant.\<close>

definition steady :: "'c multiset \<Rightarrow> 'c LWPeerManager \<Rightarrow> 'c LWPeerManager \<Rightarrow> bool" where
  "steady G m m' \<longleftrightarrow> (manager_inv m \<longrightarrow> manager_inv m') \<and> ledger m' \<subseteq># ledger m + G"

lemma steady_refl [simp]: "steady {#} m m"
  by (simp add: steady_def)

lemma steady_trans: "steady G m m' \<Longrightarrow> steady G' m' m'' \<Longrightarrow> steady (G + G') m m''"
  unfolding steady_def
  by (metis add.assoc subset_mset.add_right_mono subset_mset.order_trans)

lemma steady_then: "steady {#} m m' \<Longrightarrow> steady G m' m'' \<Longrightarrow> steady G m m''"
  using steady_trans [of "{#}"] by simp

lemma peers_calm: "calm m m' \<Longrightarrow> peers_inv m \<Longrightarrow> peers_inv m'"
  unfolding calm_def peers_inv_def by simp

lemma calm_steady: "calm m m' \<Longrightarrow> steady {#} m m'"
  using chain_calm peers_calm unfolding steady_def manager_inv_def by (fastforce simp: calm_def)

lemma gives_steady: "gives G {#} m m' \<Longrightarrow> steady G m m'"
proof -
  assume g: "gives G {#} m m'"
  have c: "chain_inv m \<Longrightarrow> chain_inv m'"
    using g unfolding gives_def same_orphans_def chain_inv_def live_def last_block_def block_at_def
    by (elim conjE disjE) (auto simp: ran_def restrict_map_def split: if_splits)
  show ?thesis using g c by (auto simp: steady_def manager_inv_def gives_def peers_inv_def)
qed

text \<open>Fields of no part of the invariant, and events of no publisher.\<close>

lemma inv_updates [simp]:
  "manager_inv (m\<lparr>m_peers := ps\<rparr>) = manager_inv m" "manager_inv (m\<lparr>m_syncStartHeight := h\<rparr>) = manager_inv m"
  "manager_inv (m\<lparr>m_connectFailureCount := n\<rparr>) = manager_inv m" "manager_inv (m\<lparr>m_dnsThreadCount := n\<rparr>) = manager_inv m"
  "manager_inv (m\<lparr>m_fixedPeer := q\<rparr>) = manager_inv m" "manager_inv (m\<lparr>m_wallet := w\<rparr>) = manager_inv m"
  "manager_inv (m\<lparr>m_txRelays := l\<rparr>) = manager_inv m" "manager_inv (tell es m) = manager_inv m"
  "manager_inv (m\<lparr>m_estimatedHeight := h\<rparr>) = manager_inv m"
  by (simp_all add: manager_inv_def chain_inv_def peers_inv_def parallel_def last_block_def block_at_def tell_def)

lemma ledger_updates [simp]:
  "ledger (m\<lparr>m_peers := ps\<rparr>) = ledger m" "ledger (m\<lparr>m_syncStartHeight := h\<rparr>) = ledger m"
  "ledger (m\<lparr>m_connectFailureCount := n\<rparr>) = ledger m" "ledger (m\<lparr>m_dnsThreadCount := n\<rparr>) = ledger m"
  "ledger (m\<lparr>m_fixedPeer := q\<rparr>) = ledger m" "ledger (m\<lparr>m_wallet := w\<rparr>) = ledger m"
  "ledger (m\<lparr>m_txRelays := l\<rparr>) = ledger m" "ledger (m\<lparr>m_connectedPeers := cs\<rparr>) = ledger m"
  "ledger (m\<lparr>m_maxConnectCount := n\<rparr>) = ledger m" "ledger (m\<lparr>m_next := n\<rparr>) = ledger m" "ledger (m\<lparr>m_memory := mem\<rparr>) = ledger m"
  "ledger (m\<lparr>m_downloadPeer := d\<rparr>) = ledger m" "ledger (m\<lparr>m_isConnected := b\<rparr>) = ledger m"
  "ledger (m\<lparr>m_lastBlock := l'\<rparr>) = ledger m" "ledger (m\<lparr>m_estimatedHeight := h\<rparr>) = ledger m"
  "ledger (tell es m) = ledger m + called es"
  by (simp_all add: ledger_def tell_def)

lemma steady_updates [simp]:
  "steady G (m\<lparr>m_peers := ps\<rparr>) m' = steady G m m'" "steady G m (m'\<lparr>m_peers := ps\<rparr>) = steady G m m'"
  "steady G (m\<lparr>m_syncStartHeight := h\<rparr>) m' = steady G m m'" "steady G m (m'\<lparr>m_syncStartHeight := h\<rparr>) = steady G m m'"
  "steady G (m\<lparr>m_connectFailureCount := n\<rparr>) m' = steady G m m'" "steady G m (m'\<lparr>m_connectFailureCount := n\<rparr>) = steady G m m'"
  "steady G (m\<lparr>m_dnsThreadCount := n\<rparr>) m' = steady G m m'" "steady G m (m'\<lparr>m_dnsThreadCount := n\<rparr>) = steady G m m'"
  "steady G (m\<lparr>m_fixedPeer := q\<rparr>) m' = steady G m m'" "steady G m (m'\<lparr>m_fixedPeer := q\<rparr>) = steady G m m'"
  "steady G (m\<lparr>m_wallet := w\<rparr>) m' = steady G m m'" "steady G m (m'\<lparr>m_wallet := w\<rparr>) = steady G m m'"
  "steady G (m\<lparr>m_txRelays := l\<rparr>) m' = steady G m m'" "steady G m (m'\<lparr>m_txRelays := l\<rparr>) = steady G m m'"
  "steady G (m\<lparr>m_estimatedHeight := h\<rparr>) m' = steady G m m'" "steady G m (m'\<lparr>m_estimatedHeight := h\<rparr>) = steady G m m'"
  by (simp_all add: steady_def)

lemma steady_tell: "called es = {#} \<Longrightarrow> steady G m (tell es m') = steady G m m'"
  by (simp add: steady_def)

text \<open>What the threads of the peers do to their own contexts does not matter here.\<close>

lemma steady_contexts: "map fst cs = map fst (m_connectedPeers m) \<Longrightarrow> steady {#} m (m\<lparr>m_connectedPeers := cs\<rparr>)"
  unfolding steady_def manager_inv_def chain_inv_def peers_inv_def parallel_def last_block_def block_at_def by simp

lemma steady_new_peer: "length (m_connectedPeers m) < m_maxConnectCount m \<Longrightarrow> steady {#} m (new_peer env peer m)"
  unfolding steady_def manager_inv_def chain_inv_def peers_inv_def parallel_def last_block_def block_at_def new_peer_def Let_def
  by (auto simp: less_Suc_eq)

lemma steady_choose: "choose_peers env peers rs m = Some (rs', m') \<Longrightarrow> steady {#} m m'"
proof (induction env peers rs m arbitrary: rs' m' rule: choose_peers.induct)
  case (1 env peers rs m)
  show ?case
  proof (cases "length peers > 0 \<and> length (m_connectedPeers m) < m_maxConnectCount m")
    case True
    then obtain r rs1 where r: "LWRand (of_nat (length peers)) rs = Some (r, rs1)"
      using "1.prems" by (subst (asm) choose_peers.simps) (auto split: option.splits)
    let ?i = "unat r * unat r div length peers"
    let ?m = "if list_ex (\<lambda>(p, ctx). LWPeerEq (peers ! ?i) (as_peer ctx)) (m_connectedPeers m) then m else new_peer env (peers ! ?i) m"
    have "choose_peers env peers rs m = (if ?i \<ge> length peers then None else choose_peers env (take ?i peers @ drop (?i + 1) peers) rs1 ?m)"
      using True r by (subst choose_peers.simps) (simp add: Let_def)
    then have c: "\<not> ?i \<ge> length peers" "choose_peers env (take ?i peers @ drop (?i + 1) peers) rs1 ?m = Some (rs', m')"
      using "1.prems" by (simp_all split: if_splits)
    have "steady {#} ?m m'" using "1.IH" [OF True r refl refl refl refl c(1) c(2)] by simp
    moreover have "steady {#} m ?m" using True steady_new_peer by auto
    ultimately show ?thesis using steady_then by blast
  qed (use "1.prems" in \<open>subst (asm) choose_peers.simps, auto\<close>)
qed

lemma steady_fold:
  assumes "\<And>x rs m rs' m'. f x (rs, m) = Some (rs', m') \<Longrightarrow> steady {#} m m'"
  shows "fold_m f xs (rs, m) = Some (rs', m') \<Longrightarrow> steady {#} m m'"
proof (induction xs arbitrary: rs m)
  case (Cons x xs)
  then obtain rs1 m1 where "f x (rs, m) = Some (rs1, m1)" "fold_m f xs (rs1, m1) = Some (rs', m')"
    by (auto simp: bind_eq_Some_conv)
  then show ?case using Cons.IH assms steady_then by blast
qed simp

lemma steady_thread: "findPeersThreadRoutine env host (rs, m) = Some (rs', m') \<Longrightarrow> steady {#} m m'"
proof -
  assume a: "findPeersThreadRoutine env host (rs, m) = Some (rs', m')"
  obtain m1 where m1: "fold_m (\<lambda>addr (rs, m). do {
        (r, rs) \<leftarrow> LWRand (2 * 24 * 60 * 60) rs;
        Some (rs, m\<lparr>m_peers := m_peers m @
          [dns_peer m (of_int (pe_time (me_peer env) - (24 * 60 * 60 + int (unat r)))) addr]\<rparr>) })
       (takeWhile (\<lambda>a. \<not> UInt128IsZero a) (me_lookup env host)) (rs, m) = Some (rs', m1)"
    "m' = m1\<lparr>m_dnsThreadCount := m_dnsThreadCount m1 - 1\<rparr>"
    using a unfolding findPeersThreadRoutine_def prod.case bind_eq_Some_conv by (auto split: prod.splits)
  have "steady {#} m m1" by (rule steady_fold [OF _ m1(1)]) (auto simp: bind_eq_Some_conv)
  then show ?thesis using m1(2) by (simp add: steady_def)
qed

lemma steady_threads: "fold_m (findPeersThreadRoutine env) hs (rs, m) = Some (rs', m') \<Longrightarrow> steady {#} m m'"
  by (rule steady_fold [OF steady_thread])

lemma steady_find_peers: "LWPeerManagerFindPeers env rs m = Some (rs', m') \<Longrightarrow> steady {#} m m'"
  unfolding LWPeerManagerFindPeers_def Let_def
  by (auto simp: bind_eq_Some_conv split: if_splits dest!: steady_threads)

text \<open>The steps of connecting, and of what is done when a peer is connected.\<close>

lemma steady_begin: "begin_sync m = Some m' \<Longrightarrow> steady {#} m m'"
  by (auto simp: begin_sync_def bind_eq_Some_conv steady_tell split: if_splits)

lemma steady_reconnect: "steady {#} m (reconnect env m)"
  unfolding reconnect_def by (rule steady_contexts) auto

lemma steady_more: "more_peers env rs m = Some (rs', m') \<Longrightarrow> steady {#} m m'"
  by (auto simp: more_peers_def bind_eq_Some_conv split: if_splits dest!: steady_choose steady_find_peers intro: steady_then)

lemma steady_connect: "LWPeerManagerConnect env rs m = Some (rs', m') \<Longrightarrow> steady {#} m m'"
proof -
  assume "LWPeerManagerConnect env rs m = Some (rs', m')"
  then obtain m1 rs2 m2 where "begin_sync (if m_connectFailureCount m \<ge> MAX_CONNECT_FAILURES then m\<lparr>m_connectFailureCount := 0\<rparr> else m) = Some m1"
    and "more_peers env rs (reconnect env m1) = Some (rs2, m2)"
    and "m' = m2 \<or> (\<exists>m3. LWPeerManagerSyncStopped (me_peer env) m2 = Some m3 \<and> m' = tell [SyncStopped (Some ENETUNREACH)] m3)"
    unfolding LWPeerManagerConnect_def by (auto simp: bind_eq_Some_conv split: if_splits)
  then have "steady {#} m m1" "steady {#} (reconnect env m1) m2" "steady {#} m2 m'"
    by (auto simp: steady_tell split: if_splits dest!: steady_begin steady_more calm_sync_stopped calm_steady)
  moreover have "steady {#} m1 (reconnect env m1)" by (rule steady_reconnect)
  ultimately show ?thesis using steady_then by blast
qed

text \<open>The peer with the best chain is one of the connected ones.\<close>

lemma best_peer:
  assumes "peer_at m p = Some ctx"
  shows "fst (fold better_peer cs (p, ctx)) \<in> insert p (set (map fst cs))"
proof (induction cs arbitrary: p ctx)
  case (Cons c cs)
  then show ?case by (cases c) (auto simp: better_peer_def)
qed simp

lemma steady_download:
  assumes "p \<in> set (map fst (m_connectedPeers m))"
  shows "steady {#} m (m\<lparr>m_downloadPeer := Some p, m_isConnected := True, m_estimatedHeight := h\<rparr>)"
  using assms unfolding steady_def manager_inv_def chain_inv_def peers_inv_def parallel_def last_block_def block_at_def by auto

lemma calm_start [calms]: "start_download env p ctx m = Some m' \<Longrightarrow> calm m m'"
  unfolding start_download_def by (auto simp: bind_eq_Some_conv split: if_splits dest!: calms; blast intro: calm_trans)

lemma steady_select:
  assumes "peer_at m p = Some ctx" "select_download env p ctx m = Some m'"
  shows "steady {#} m m'"
proof -
  obtain q d where q: "fold better_peer (rev (m_connectedPeers m)) (p, ctx) = (q, d)" by fastforce
  have "p \<in> set (map fst (m_connectedPeers m))" using assms(1) map_of_SomeD [of "m_connectedPeers m" p ctx] by (force simp: peer_at_def)
  then have member: "q \<in> set (map fst (m_connectedPeers m))" using best_peer [OF assms(1), of "rev (m_connectedPeers m)"] q by auto
  obtain m1 m2 m3 m4 and l :: LWMerkleBlock where s: "(case m_downloadPeer m of None \<Rightarrow> Some m | Some d \<Rightarrow> on_peer d LWPeerDisconnect m) = Some m1"
    "LWPeerManagerLoadBloomFilter env q (m1\<lparr>m_downloadPeer := Some q, m_isConnected := True, m_estimatedHeight := ctx_lastblock d\<rparr>) = Some m2"
    "on_peer q (LWPeerSetCurrentBlockHeight (mb_height l)) m2 = Some m3" "LWPeerManagerPublishPendingTx env q m3 = Some m4"
    "start_download env q d m4 = Some m'"
    using assms(2) q unfolding select_download_def by (auto simp: bind_eq_Some_conv)
  have m1: "calm m m1" "calm (m1\<lparr>m_downloadPeer := Some q, m_isConnected := True, m_estimatedHeight := ctx_lastblock d\<rparr>) m'"
    using s(1) calm_load_filter [OF s(2)] calm_on_peer [OF s(3)] calm_publish_pending [OF s(4)] calm_start [OF s(5)]
    by (auto split: option.splits dest: calms intro: calm_trans)
  then have "q \<in> set (map fst (m_connectedPeers m1))" using member by (simp add: calm_def)
  then show ?thesis using m1 calm_steady steady_download steady_then by blast
qed

lemma calm_second [calms]: "start_second env p m = Some m' \<Longrightarrow> calm m m'"
  unfolding start_second_def by (auto simp: bind_eq_Some_conv dest!: calms; blast intro: calm_trans)

lemma steady_connected:
  assumes "peerConnected env p m = Some m'"
  shows "steady {#} m m'"
proof -
  obtain f m1 ctx where s: "on_peer p f m = Some m1" "peer_at m1 p = Some ctx"
    and c: "calm m1 m' \<or> select_download env p ctx m1 = Some m'"
    using assms unfolding peerConnected_def Let_def
    by (auto simp: bind_eq_Some_conv split: if_splits dest: calms)
  show ?thesis using calm_steady [OF calm_on_peer [OF s(1)]] c calm_steady steady_select [OF s(2)] steady_then by blast
qed

subsection \<open>A peer is gone\<close>

lemma calm_free_tx [calms]: "free_tx r m = Some m' \<Longrightarrow> calm m m'"
  unfolding free_tx_def by (auto split: tx_ref.splits if_splits)

text \<open>Every callback that waits is returned, and its transaction with it.\<close>

lemma unpublish_ledger:
  assumes "unpublish i m = Some m'" "i < length (m_publishedTx m)"
  shows "gives {#} (owed (pub_callback (m_publishedTx m ! i))) m m'"
proof -
  have "waiting (m_publishedTx m) = waiting (take i (m_publishedTx m) @ m_publishedTx m ! i # drop (Suc i) (m_publishedTx m))"
    using id_take_nth_drop [OF assms(2)] by metis
  then have "waiting (take i (m_publishedTx m) @ drop (Suc i) (m_publishedTx m)) + owed (pub_callback (m_publishedTx m ! i)) = waiting (m_publishedTx m)"
    by (simp add: owed_def split: option.splits)
  then show ?thesis
    using assms by (auto simp: unpublish_def rm_at_def bind_eq_Some_conv gives_def ledger_def parallel_def same_orphans_def ac_simps split: if_splits)
qed

lemma gives_cancel_loop:
  "fold_m (\<lambda>i (ks, m). do {
        t \<leftarrow> deref (m_publishedTx m) i;
        case pub_callback t of None \<Rightarrow> Some (ks, m)
        | Some k \<Rightarrow> do { m \<leftarrow> free_tx (pub_tx t) m; m \<leftarrow> unpublish i m; Some (ks @ [k], m) } }) is (ks, m) = Some (ks', m') \<Longrightarrow>
   gives {#} (mset ks) m0 m \<Longrightarrow> gives {#} (mset ks') m0 m'"
proof (induction "is" arbitrary: ks m)
  case (Cons i "is")
  obtain ks1 m1 where s: "do { t \<leftarrow> deref (m_publishedTx m) i;
        case pub_callback t of None \<Rightarrow> Some (ks, m)
        | Some k \<Rightarrow> do { m \<leftarrow> free_tx (pub_tx t) m; m \<leftarrow> unpublish i m; Some (ks @ [k], m) } } = Some (ks1, m1)"
    and rest: "fold_m (\<lambda>i (ks, m). do {
        t \<leftarrow> deref (m_publishedTx m) i;
        case pub_callback t of None \<Rightarrow> Some (ks, m)
        | Some k \<Rightarrow> do { m \<leftarrow> free_tx (pub_tx t) m; m \<leftarrow> unpublish i m; Some (ks @ [k], m) } }) is (ks1, m1) = Some (ks', m')"
    using Cons.prems(1) by (auto simp: bind_eq_Some_conv)
  obtain t where t: "deref (m_publishedTx m) i = Some t" using s by (auto simp: bind_eq_Some_conv)
  have "gives {#} (mset ks1) m0 m1"
  proof (cases "pub_callback t")
    case None
    then show ?thesis using s t Cons.prems(2) by simp
  next
    case (Some k)
    then obtain m2 where m2: "free_tx (pub_tx t) m = Some m2" "unpublish i m2 = Some m1" "ks1 = ks @ [k]"
      using s t by (auto simp: bind_eq_Some_conv)
    have "m_publishedTx m2 = m_publishedTx m" using m2(1) by (auto simp: free_tx_def split: tx_ref.splits if_splits)
    then have "gives {#} {#k#} m2 m1" using unpublish_ledger [OF m2(2)] t Some by (auto simp: deref_def split: if_splits)
    then show ?thesis using gives_trans [OF gives_calm [OF Cons.prems(2) calm_free_tx [OF m2(1)]]] m2(3) by fastforce
  qed
  then show ?case using rest Cons.IH by blast
qed simp

lemma gives_cancel: "cancel_published m = Some (ks, m') \<Longrightarrow> gives {#} (mset ks) m m'"
  unfolding cancel_published_def by (erule gives_cancel_loop) (simp add: calm_gives [symmetric])

lemma steady_leave: "steady {#} m (leave_peer p peer m)"
  unfolding steady_def leave_peer_def Let_def manager_inv_def chain_inv_def peers_inv_def parallel_def last_block_def block_at_def
  by (auto simp: ledger_def)

lemma left_peer: "m_downloadPeer (leave_peer p peer m) \<noteq> Some p"
  by (simp add: leave_peer_def Let_def)

lemma calm_blame [calms]: "blame p error peer m = Some (e, m') \<Longrightarrow> calm m m'"
  unfolding blame_def by (auto simp: bind_eq_Some_conv dest: calms split: option.splits if_splits)

text \<open>The context is removed, and then the publishers are told.\<close>

lemma steady_remove:
  assumes "gives {#} (mset ks) m m'" "m_downloadPeer m \<noteq> Some p" "called es = mset ks"
  shows "steady {#} m (tell es (m'\<lparr>m_connectedPeers := filter (\<lambda>(q, ctx). q \<noteq> p) (m_connectedPeers m')\<rparr>))"
proof -
  have "gives {#} {#} m m'" by (rule gives_more [OF assms(1)]) simp_all
  then have inv: "manager_inv m \<Longrightarrow> manager_inv m'" using gives_steady by (auto simp: steady_def)
  have d: "m_downloadPeer m' \<noteq> Some p" using assms(1,2) by (simp add: gives_def)
  have sub: "length (filter f cs) \<le> n" if "length cs \<le> n" for f and cs :: "(ptr \<times> peer_context) list" and n
    using that length_filter_le le_trans by blast
  have "manager_inv m' \<Longrightarrow> manager_inv (m'\<lparr>m_connectedPeers := filter (\<lambda>(q, ctx). q \<noteq> p) (m_connectedPeers m')\<rparr>)"
    using d unfolding manager_inv_def chain_inv_def peers_inv_def parallel_def last_block_def block_at_def
    by (auto simp: distinct_map_filter sub image_iff Bex_def)
  moreover have "ledger m' + mset ks \<subseteq># ledger m" using assms(1) by (simp add: gives_def)
  ultimately show ?thesis using inv assms(3) by (simp add: steady_def)
qed

lemma steady_disconnected:
  assumes "peerDisconnected env p error rs m = Some (rs', m')"
  shows "steady {#} m m'"
proof -
  obtain ctx e1 m1 where m1: "blame p error (as_peer ctx) m = Some (e1, m1)"
    and rest: "(let m = leave_peer p (as_peer ctx) m1; failed = (\<not> m_isConnected m \<and> m_connectFailureCount m = MAX_CONNECT_FAILURES);
       willReconnect = (\<not> failed \<and> m_connectFailureCount m < MAX_CONNECT_FAILURES) in do {
     (txError, m) \<leftarrow> (if failed then do { m \<leftarrow> LWPeerManagerSyncStopped (me_peer env) m; Some (Some ENOTCONN, m\<lparr>m_peers := []\<rparr>) }
                      else Some (e1, m));
     (ks, m) \<leftarrow> (if txError \<noteq> None then cancel_published m else Some ([], m));
     let m = m\<lparr>m_connectedPeers := filter (\<lambda>(q, ctx). q \<noteq> p) (m_connectedPeers m)\<rparr>;
     let m = tell (map (\<lambda>k. PublishDone k txError) ks @ (if failed then [SavePeers True [], SyncStopped error] else [])) m;
     (rs, m) \<leftarrow> (if willReconnect then LWPeerManagerConnect env rs m else Some (rs, m));
     Some (rs, tell [TxStatusUpdate] m) }) = Some (rs', m')"
    using assms unfolding peerDisconnected_def by (auto simp: bind_eq_Some_conv)
  let ?m = "leave_peer p (as_peer ctx) m1"
  obtain failed again e2 m2 ks m3 rs4 m4 where
    s: "(if failed then do { m \<leftarrow> LWPeerManagerSyncStopped (me_peer env) ?m; Some (Some ENOTCONN, m\<lparr>m_peers := []\<rparr>) } else Some (e1, ?m)) = Some (e2, m2)"
      "(if e2 \<noteq> None then cancel_published m2 else Some ([], m2)) = Some (ks, m3)"
      "(if again then LWPeerManagerConnect env rs (tell (map (\<lambda>k. PublishDone k e2) ks @ (if failed then [SavePeers True [], SyncStopped error] else []))
          (m3\<lparr>m_connectedPeers := filter (\<lambda>(q, ctx). q \<noteq> p) (m_connectedPeers m3)\<rparr>))
        else Some (rs, tell (map (\<lambda>k. PublishDone k e2) ks @ (if failed then [SavePeers True [], SyncStopped error] else []))
          (m3\<lparr>m_connectedPeers := filter (\<lambda>(q, ctx). q \<noteq> p) (m_connectedPeers m3)\<rparr>))) = Some (rs4, m4)"
      "m' = tell [TxStatusUpdate] m4"
    using rest unfolding Let_def by (simp add: bind_eq_Some_conv) blast
  have "calm ?m m2" using s(1) by (auto simp: bind_eq_Some_conv split: if_splits dest: calms)
  moreover have "gives {#} (mset ks) m2 m3" using s(2) gives_cancel by (auto simp: calm_gives [symmetric] split: if_splits)
  ultimately have "gives {#} (mset ks) ?m m3" by (rule calm_then_gives)
  then have "steady {#} ?m (tell (map (\<lambda>k. PublishDone k e2) ks @ (if failed then [SavePeers True [], SyncStopped error] else []))
          (m3\<lparr>m_connectedPeers := filter (\<lambda>(q, ctx). q \<noteq> p) (m_connectedPeers m3)\<rparr>))"
    by (rule steady_remove) (simp_all add: left_peer)
  then have "steady {#} ?m m4" using s(3) by (cases again) (auto dest!: steady_connect intro: steady_then)
  then have "steady {#} ?m m'" using s(4) by (simp add: steady_tell)
  moreover have "steady {#} m ?m" using calm_steady [OF calm_blame [OF m1]] steady_leave steady_then by blast
  ultimately show ?thesis using steady_then by blast
qed

subsection \<open>The other steps\<close>

lemma steady_placed:
  assumes "chain_inv m \<Longrightarrow> placed m m'" "chain_inv m"
  shows "steady {#} m m'"
proof -
  have p: "chain_inv m'" "settled m m'" using assms by (auto simp: placed_def)
  then have "peers_inv m \<Longrightarrow> peers_inv m'" by (simp add: peers_inv_def settled_def)
  then show ?thesis using p unfolding steady_def manager_inv_def settled_def by simp
qed

text \<open>A new object in memory is in no set.\<close>

lemma new_loose:
  assumes "chain_inv m" "sound_block block" "new_block block m = (b, m')"
  shows "chain_inv m'" "loose b m'" "last_block m' = last_block m"
proof -
  have b: "b = m_next m" "m' = m\<lparr>m_memory := (m_memory m)(m_next m \<mapsto> block), m_next := m_next m + 1\<rparr>"
    using assms(3) by (auto simp: new_block_def)
  have lt: "m_memory m q = Some x \<Longrightarrow> q < m_next m" for q x using assms(1) by (simp add: chain_inv_def)
  have "m_blocks m k \<noteq> Some (m_next m)" "m_orphans m k \<noteq> Some (m_next m)" "m_lastBlock m \<noteq> m_next m" for k
    using chain_block [OF assms(1)] chain_orphan [OF assms(1)] lt assms(1) unfolding block_at_def
    by (metis less_irrefl, metis less_irrefl, simp add: chain_inv_def)
  then show "chain_inv m'" "loose b m'" "last_block m' = last_block m"
    using assms(1,2) unfolding b chain_inv_def live_def loose_def last_block_def block_at_def by (auto simp: less_Suc_eq)
qed

lemma relayed_advances:
  assumes "chain_inv m" "sound_block block" "peerRelayedBlock env p block m = Some m'" "last_block m' = Some l'"
  shows "\<exists>l. last_block m = Some l \<and> advance\<^sup>*\<^sup>* l l'"
proof -
  obtain b m1 where n: "new_block block m = (b, m1)" by fastforce
  then have "placed m1 m'" using assms(3) new_loose [OF assms(1,2) n] by (auto simp: peerRelayedBlock_def dest!: placed_relayed)
  then show ?thesis using assms(4) new_loose(3) [OF assms(1,2) n] by (auto simp: placed_def settled_def)
qed

lemma steady_relayed:
  assumes "sound_block block" "peerRelayedBlock env p block m = Some m'"
  shows "manager_inv m \<longrightarrow> manager_inv m' \<and> ledger m' \<subseteq># ledger m"
proof
  assume m: "manager_inv m"
  obtain b m1 where n: "new_block block m = (b, m1)" by fastforce
  have c: "chain_inv m" using m by (simp add: manager_inv_def)
  note n' = new_loose [OF c assms(1) n]
  have "placed m1 m'" using assms(2) n n' by (auto simp: peerRelayedBlock_def dest!: placed_relayed)
  then have "steady {#} m1 m'" using steady_placed n'(1) by blast
  moreover have "peers_inv m1" "parallel m1" "ledger m1 = ledger m"
    using m n unfolding manager_inv_def new_block_def peers_inv_def parallel_def ledger_def by (auto, fastforce+)
  ultimately show "manager_inv m' \<and> ledger m' \<subseteq># ledger m" using n'(1) by (simp add: steady_def manager_inv_def)
qed

lemma steady_disconnect: "steady {#} m (LWPeerManagerDisconnect m)"
  using steady_contexts [of "map (\<lambda>(p, ctx). (p, LWPeerDisconnect ctx)) (m_connectedPeers m)"
      "m\<lparr>m_connectFailureCount := (if m_connectedPeers m \<noteq> [] then MAX_CONNECT_FAILURES else m_connectFailureCount m)\<rparr>"]
  by (simp add: LWPeerManagerDisconnect_def case_prod_beta comp_def)

lemma steady_set_fixed: "LWPeerManagerSetFixedPeer a port m = Some m' \<Longrightarrow> steady {#} m m'"
  by (auto simp: LWPeerManagerSetFixedPeer_def all_disconnected_def steady_def manager_inv_def chain_inv_def peers_inv_def parallel_def
      last_block_def block_at_def ledger_def split: if_splits)

lemma steady_last:
  assumes "m_blocks m h = Some b"
  shows "steady {#} m (m\<lparr>m_lastBlock := b\<rparr>)"
proof -
  have "chain_inv m \<Longrightarrow> chain_inv (m\<lparr>m_lastBlock := b\<rparr>)"
    using chain_block [OF _ assms] assms by (auto simp: chain_inv_def last_block_def block_at_def)
  then show ?thesis by (auto simp: steady_def manager_inv_def peers_inv_def parallel_def)
qed

lemma steady_rescan: 
  assumes "LWPeerManagerRescan env rs m = Some (rs', m')"
  shows "steady {#} m m'"
proof (cases "m_isConnected m")
  case True
  then obtain m1 m2 where m1: "m1 = m \<or> (\<exists>h b. m_blocks m h = Some b \<and> m1 = m\<lparr>m_lastBlock := b\<rparr>)" and
    m2: "m2 = m1 \<or> (\<exists>d ctx f ps. on_peer d f (m1\<lparr>m_peers := ps\<rparr>) = Some m2)" and
    m': "LWPeerManagerConnect env rs (m2\<lparr>m_syncStartHeight := 0\<rparr>) = Some (rs', m')"
    using assms unfolding LWPeerManagerRescan_def Let_def
    by (auto simp: bind_eq_Some_conv split: option.splits) blast+
  have "steady {#} m m1" using m1 steady_last by auto
  moreover have "steady {#} m1 m2" using m2 by (auto dest!: calm_on_peer calm_steady)
  moreover have "steady {#} m2 m'" using steady_connect [OF m'] by simp
  ultimately show ?thesis using steady_then by blast
qed (use assms in \<open>simp add: LWPeerManagerRescan_def\<close>)

lemma steady_events: "called es \<subseteq># G \<Longrightarrow> steady {#} m m' \<Longrightarrow> steady G m (tell es m')"
  by (simp add: steady_def) (meson subset_mset.add_mono)

lemma calm_publish_to [calms]: "publish_to env p m = Some m' \<Longrightarrow> calm m m'"
  unfolding publish_to_def by (auto simp: bind_eq_Some_conv dest!: calms; blast intro: calm_trans)

lemma calm_stamp [calms]: "stamp_tx now r m = Some (r', m') \<Longrightarrow> calm m m'"
  unfolding stamp_tx_def by (cases r) (auto simp: bind_eq_Some_conv)

lemma steady_publish:
  assumes "LWPeerManagerPublishTx env r k m = Some m'"
  shows "steady (owed k) m m'"
proof -
  consider (offline) m1 e where "free_tx r m = Some m1" "m' = tell (done_events k e) m1"
    | (online) now r1 m1 m2 ps where "stamp_tx now r m = Some (r1, m1)" "LWPeerManagerAddTxToPublishList (Some r1) k m1 = Some m2"
      "fold_m (publish_to env) ps m2 = Some m'"
    using assms unfolding LWPeerManagerPublishTx_def by (auto simp: bind_eq_Some_conv split: if_splits)
  then show ?thesis
  proof cases
    case offline
    then show ?thesis
      using steady_events [of "done_events k e" "owed k" m m1] calm_steady [OF calm_free_tx] by (cases k) (auto simp: done_events_def)
  next
    case online
    have "gives (owed k) {#} m1 m'"
      using gives_calm [OF gives_publish [OF online(2)] calm_fold [OF calm_publish_to online(3)]] .
    then show ?thesis using gives_steady calm_steady [OF calm_stamp [OF online(1)]] steady_then by blast
  qed
qed

subsection \<open>The steps\<close>

text \<open>
  A step is the handling of what a peer reports, a change of the contexts by the threads of the peers, the end of
  the lookup of a host, or a call of the user; \<open>E\<close> are the environments the steps may see. The callbacks that were
  given to the manager so far are counted.
\<close>

inductive manager_step :: "('p, 's, 'r) manager_env set \<Rightarrow> 'c multiset \<times> 'c LWPeerManager \<Rightarrow> 'c multiset \<times> 'c LWPeerManager \<Rightarrow> bool"
  for E where
  event: "env \<in> E \<Longrightarrow> handle_event env p e (rs, m) = Some (rs', m') \<Longrightarrow> (\<And>block. e = RelayedBlock block \<Longrightarrow> sound_block block) \<Longrightarrow>
    manager_step E (G, m) (G, m')"
| threads: "map fst cs = map fst (m_connectedPeers m) \<Longrightarrow> manager_step E (G, m) (G, m\<lparr>m_connectedPeers := cs\<rparr>)"
| looked_up: "env \<in> E \<Longrightarrow> findPeersThreadRoutine env host (rs, m) = Some (rs', m') \<Longrightarrow> manager_step E (G, m) (G, m')"
| connect: "env \<in> E \<Longrightarrow> LWPeerManagerConnect env rs m = Some (rs', m') \<Longrightarrow> manager_step E (G, m) (G, m')"
| disconnect: "manager_step E (G, m) (G, LWPeerManagerDisconnect m)"
| set_fixed: "LWPeerManagerSetFixedPeer a port m = Some m' \<Longrightarrow> manager_step E (G, m) (G, m')"
| rescan: "env \<in> E \<Longrightarrow> LWPeerManagerRescan env rs m = Some (rs', m') \<Longrightarrow> manager_step E (G, m) (G, m')"
| publish: "env \<in> E \<Longrightarrow> LWPeerManagerPublishTx env r k m = Some m' \<Longrightarrow> manager_step E (G, m) (G + owed k, m')"

inductive_cases manager_stepE: "manager_step E (G, m) (G', m')"

lemma handled:
  assumes "handle_event env p e (rs, m) = Some (rs', m')" "\<And>block. e = RelayedBlock block \<Longrightarrow> sound_block block"
  shows "manager_inv m \<longrightarrow> manager_inv m' \<and> ledger m' \<subseteq># ledger m"
proof (cases "\<exists>block. e = RelayedBlock block")
  case True
  then obtain block where "e = RelayedBlock block" "sound_block block" using assms(2) by blast
  moreover then have "peerRelayedBlock env p block m = Some m'" using assms(1) by (auto simp: handle_event_def)
  ultimately show ?thesis using steady_relayed by blast
next
  case False
  then have "steady {#} m m'"
    using assms(1) unfolding handle_event_def
    by (auto split: peer_event.splits dest!: calm_relayed_tx calm_has_tx calm_rejected_tx calm_requested_tx calm_notfound calm_callback
        steady_connected steady_disconnected intro: calm_steady [OF calm_fee] calm_steady [OF calm_relayed_peers] dest: calm_steady)
  then show ?thesis by (simp add: steady_def)
qed

lemma step_keeps:
  assumes "manager_step E (G, m) (G', m')" "manager_inv m" "ledger m \<subseteq># G"
  shows "manager_inv m' \<and> ledger m' \<subseteq># G'"
proof -
  consider (event) env p e rs rs' where "env \<in> E" "G' = G" "handle_event env p e (rs, m) = Some (rs', m')" "\<And>block. e = RelayedBlock block \<Longrightarrow> sound_block block"
    | (steady) D where "G' = G + D" "steady D m m'"
    using assms(1)
    by (cases rule: manager_stepE)
      (auto dest: steady_contexts steady_thread steady_connect steady_set_fixed steady_rescan steady_publish simp: steady_disconnect)
  then show ?thesis
  proof cases
    case event
    then show ?thesis using handled [OF event(3,4)] assms(2,3) subset_mset.order_trans by blast
  next
    case steady
    then have "ledger m' \<subseteq># ledger m + D" "ledger m + D \<subseteq># G'" using assms(3) by (auto simp: steady_def)
    then have "ledger m' \<subseteq># G'" by (rule subset_mset.order_trans)
    then show ?thesis using steady assms(2) by (simp add: steady_def)
  qed
qed

lemma reached_keeps:
  assumes "(manager_step E)\<^sup>*\<^sup>* (G, m) (G', m')" "manager_inv m" "ledger m \<subseteq># G"
  shows "manager_inv m' \<and> ledger m' \<subseteq># G'"
  using assms
  by (induction "(G', m')" arbitrary: G' m' rule: rtranclp_induct) (simp, metis prod.collapse step_keeps)

subsection \<open>A new manager\<close>

lemma sound_checkpoint: "sound_block (checkpoint_block c)"
  by (simp add: sound_block_def checkpoint_block_def LWMerkleBlockNew_def)

text \<open>A block that is in no set is added to the chain.\<close>

lemma link_block:
  assumes "chain_inv m" "loose b m" "block_at m b = Some block"
  shows "chain_inv (m\<lparr>m_blocks := (m_blocks m)(mb_blockHash block \<mapsto> b), m_lastBlock := b\<rparr>)"
    and "m_blocks m (mb_blockHash block) = None \<Longrightarrow> chain_inv (m\<lparr>m_blocks := (m_blocks m)(mb_blockHash block \<mapsto> b)\<rparr>)"
  using assms unfolding chain_inv_def loose_def live_def last_block_def block_at_def by auto

lemma new_checkpoint:
  assumes "chain_inv m" "m_blocks m (UInt256Reverse (cp_hash c)) = None"
  shows "chain_inv (add_checkpoint (i, c) m)"
    and "m_blocks (add_checkpoint (i, c) m) h = (if h = UInt256Reverse (cp_hash c) then Some (m_next m) else m_blocks m h)"
proof -
  let ?block = "checkpoint_block c"
  obtain b m1 where n: "new_block ?block m = (b, m1)" by fastforce
  note n' = new_loose [OF assms(1) sound_checkpoint n]
  have b: "block_at m1 b = Some ?block" "m_blocks m1 = m_blocks m" "mb_blockHash ?block = UInt256Reverse (cp_hash c)" "b = m_next m"
    using n by (auto simp: new_block_def block_at_def checkpoint_block_def)
  have cp: "chain_inv (x\<lparr>m_checkpoints := y\<rparr>) = chain_inv x" "loose q (x\<lparr>m_checkpoints := y\<rparr>) = loose q x"
    "block_at (x\<lparr>m_checkpoints := y\<rparr>) = block_at x" for x :: "'a LWPeerManager" and y q
    by (simp_all add: chain_inv_def last_block_def block_at_def fun_eq_iff loose_def)
  let ?m = "m1\<lparr>m_checkpoints := (m_checkpoints m1)(cp_height c \<mapsto> b)\<rparr>"
  have "chain_inv ?m" "loose b ?m" "block_at ?m b = Some ?block" using n' b by (simp_all add: cp)
  note l = link_block [OF this]
  show "chain_inv (add_checkpoint (i, c) m)" using l assms(2) n b by (simp add: add_checkpoint_def Let_def)
  show "m_blocks (add_checkpoint (i, c) m) h = (if h = UInt256Reverse (cp_hash c) then Some (m_next m) else m_blocks m h)"
    using n b by (simp add: add_checkpoint_def Let_def)
qed

lemma new_checkpoints:
  "chain_inv m \<Longrightarrow> distinct (map (\<lambda>c. UInt256Reverse (cp_hash c)) (map snd cs)) \<Longrightarrow>
   \<forall>c \<in> set (map snd cs). m_blocks m (UInt256Reverse (cp_hash c)) = None \<Longrightarrow> chain_inv (fold add_checkpoint cs m)"
proof (induction cs arbitrary: m)
  case (Cons c cs)
  obtain i d where c: "c = (i, d)" by fastforce
  have "m_blocks m (UInt256Reverse (cp_hash d)) = None" using Cons.prems(3) c by simp
  note n = new_checkpoint [OF Cons.prems(1) this]
  have "\<forall>x \<in> set (map snd cs). m_blocks (add_checkpoint (i, d) m) (UInt256Reverse (cp_hash x)) = None"
    using Cons.prems(2,3) n(2) c by (auto simp: image_iff)
  then show ?case using Cons.IH [OF n(1)] Cons.prems(2) c by simp
qed simp

text \<open>A stored block waits with the orphans.\<close>

definition found :: "(ptr \<times> LWMerkleBlock) option \<Rightarrow> 'c LWPeerManager \<Rightarrow> bool" where
  "found r m \<longleftrightarrow> (\<forall>b x. r = Some (b, x) \<longrightarrow> block_at m b = Some x \<and> (\<forall>k. m_blocks m k \<noteq> Some b))"

lemma new_stored:
  assumes "chain_inv m" "found best m" "sound_block block" "add_stored block (best, m) = Some (best', m')"
  shows "chain_inv m' \<and> found best' m'"
proof -
  obtain b m1 where n: "new_block block m = (b, m1)" by fastforce
  note n' = new_loose [OF assms(1,3) n]
  have b: "block_at m1 b = Some block" "m_blocks m1 = m_blocks m" "\<And>q. q \<noteq> b \<Longrightarrow> block_at m1 q = block_at m q" "b = m_next m"
    using n by (auto simp: new_block_def block_at_def)
  have m': "m' = m1\<lparr>m_orphans := (m_orphans m1)(mb_prevBlock block \<mapsto> b)\<rparr>" "best' = best \<or> best' = Some (b, block)"
    using assms(4) n by (auto simp: add_stored_def Let_def split: if_splits option.splits)
  have c: "chain_inv m'" using n' b(1) unfolding m'(1) chain_inv_def live_def loose_def last_block_def block_at_def by auto
  have "found best m'"
    unfolding found_def
  proof (intro allI impI)
    fix q x
    assume "best = Some (q, x)"
    then have q: "block_at m q = Some x" "\<forall>k. m_blocks m k \<noteq> Some q" using assms(2) by (auto simp: found_def)
    then have "q \<noteq> b" using assms(1) b(4) by (auto simp: chain_inv_def block_at_def)
    then show "block_at m' q = Some x \<and> (\<forall>k. m_blocks m' k \<noteq> Some q)" using q b(2,3) m'(1) by (simp add: block_at_def)
  qed
  moreover have "found (Some (b, block)) m'" using n'(2) b(1) m'(1) by (simp add: found_def loose_def block_at_def)
  ultimately show ?thesis using c m'(2) by auto
qed

lemma new_stored_all:
  "fold_m add_stored blocks (best, m) = Some (best', m') \<Longrightarrow> chain_inv m \<Longrightarrow> found best m \<Longrightarrow> \<forall>b \<in> set blocks. sound_block b \<Longrightarrow>
   chain_inv m' \<and> found best' m'"
proof (induction blocks arbitrary: best m)
  case (Cons b bs)
  obtain best1 m1 where "add_stored b (best, m) = Some (best1, m1)" "fold_m add_stored bs (best1, m1) = Some (best', m')"
    using Cons.prems(1) by (auto simp: bind_eq_Some_conv)
  then show ?case using Cons.IH Cons.prems(2-4) new_stored [of m best b best1 m1] by simp
qed simp

lemma linked:
  assumes "link_stored r m = Some m'"
  shows "chain_inv m \<longrightarrow> found r m \<longrightarrow> chain_inv m'"
proof (rule link_stored.raw_induct [of "\<lambda>r m m'. chain_inv m \<longrightarrow> found r m \<longrightarrow> chain_inv m'", OF _ assms], intro impI)
  fix F :: "(ptr \<times> LWMerkleBlock) option \<Rightarrow> 'a LWPeerManager \<Rightarrow> 'a LWPeerManager option" and r and m m' :: "'a LWPeerManager"
  assume IH: "\<And>r m m'. F r m = Some m' \<Longrightarrow> chain_inv m \<longrightarrow> found r m \<longrightarrow> chain_inv m'"
    and c: "chain_inv m" "found r m"
    and run: "(case r of None \<Rightarrow> Some m
      | Some (b, block) \<Rightarrow>
          (let m = m\<lparr>m_blocks := (m_blocks m)(mb_blockHash block \<mapsto> b), m_lastBlock := b,
                     m_orphans := (m_orphans m)(mb_prevBlock block := None)\<rparr> in
           Option.bind (get_orphan m (mb_blockHash block)) (\<lambda>r. F r m))) = Some m'"
  show "chain_inv m'"
  proof (cases r)
    case (Some s)
    obtain b block where s: "s = (b, block)" by fastforce
    then have b: "block_at m b = Some block" "\<And>k. m_blocks m k \<noteq> Some b" using c(2) Some by (auto simp: found_def)
    let ?m = "m\<lparr>m_orphans := (m_orphans m)(mb_prevBlock block := None)\<rparr>"
    let ?n = "m\<lparr>m_blocks := (m_blocks m)(mb_blockHash block \<mapsto> b), m_lastBlock := b, m_orphans := (m_orphans m)(mb_prevBlock block := None)\<rparr>"
    have "chain_inv ?m" using placed_take(1) [OF c(1)] by (simp add: placed_def)
    moreover have no: "m_orphans ?m k \<noteq> Some b" for k using chain_orphan [OF c(1), of k b] b(1) by auto
    ultimately have "chain_inv (?m\<lparr>m_blocks := (m_blocks ?m)(mb_blockHash block \<mapsto> b), m_lastBlock := b\<rparr>)"
      using b by (intro link_block) (simp_all add: loose_def block_at_def)
    moreover have "?m\<lparr>m_blocks := (m_blocks ?m)(mb_blockHash block \<mapsto> b), m_lastBlock := b\<rparr> = ?n" by simp
    ultimately have n: "chain_inv ?n" by (simp only:)
    obtain q where q: "get_orphan ?n (mb_blockHash block) = Some q" "F q ?n = Some m'"
      using run Some s by (auto simp: Let_def bind_eq_Some_conv)
    have "found q ?n"
      unfolding found_def
    proof (intro allI impI)
      fix p x
      assume "q = Some (p, x)"
      then have p: "m_orphans ?n (mb_blockHash block) = Some p" "block_at ?n p = Some x"
        using q(1) by (auto simp: get_orphan_def split: option.splits if_splits)
      then show "block_at ?n p = Some x \<and> (\<forall>k. m_blocks ?n k \<noteq> Some p)" using n unfolding chain_inv_def by blast
    qed
    then show ?thesis using IH [OF q(2)] n by blast
  qed (use run c in simp)
qed

text \<open>A new manager has no peers, nothing to publish and has called nobody.\<close>

definition blank :: "'c LWPeerManager \<Rightarrow> bool" where
  "blank m \<longleftrightarrow> m_connectedPeers m = [] \<and> m_downloadPeer m = None \<and> \<not> m_isConnected m \<and> m_publishedTx m = [] \<and>
     m_publishedTxHashes m = [] \<and> m_events m = []"

lemma blank_inv: "chain_inv m \<Longrightarrow> blank m \<Longrightarrow> manager_inv m \<and> ledger m = {#}"
  by (simp add: manager_inv_def blank_def peers_inv_def parallel_def ledger_def)

lemma blank_checkpoints: "blank m \<Longrightarrow> blank (fold add_checkpoint cs m)"
proof (induction cs arbitrary: m)
  case (Cons c cs)
  have "blank (add_checkpoint c m)" using Cons.prems by (cases c) (simp add: add_checkpoint_def new_block_def blank_def Let_def)
  then show ?case using Cons.IH by simp
qed simp

lemma blank_stored: "fold_m add_stored bs (r, m) = Some (r', m') \<Longrightarrow> blank m \<Longrightarrow> blank m'"
proof (induction bs arbitrary: r m)
  case (Cons b bs)
  obtain r1 m1 where s: "add_stored b (r, m) = Some (r1, m1)" "fold_m add_stored bs (r1, m1) = Some (r', m')"
    using Cons.prems(1) by (auto simp: bind_eq_Some_conv)
  have "blank m1" using s(1) Cons.prems(2) by (auto simp: add_stored_def new_block_def blank_def Let_def split: if_splits)
  then show ?case using Cons.IH s(2) by blast
qed simp

lemma blank_linked:
  assumes "link_stored r m = Some m'"
  shows "blank m \<longrightarrow> blank m'"
proof (rule link_stored.raw_induct [of "\<lambda>r m m'. blank m \<longrightarrow> blank m'", OF _ assms])
  fix F :: "(ptr \<times> LWMerkleBlock) option \<Rightarrow> 'a LWPeerManager \<Rightarrow> 'a LWPeerManager option" and r and m m' :: "'a LWPeerManager"
  assume IH: "\<And>r m m'. F r m = Some m' \<Longrightarrow> blank m \<longrightarrow> blank m'"
    and run: "(case r of None \<Rightarrow> Some m
      | Some (b, block) \<Rightarrow>
          (let m = m\<lparr>m_blocks := (m_blocks m)(mb_blockHash block \<mapsto> b), m_lastBlock := b,
                     m_orphans := (m_orphans m)(mb_prevBlock block := None)\<rparr> in
           Option.bind (get_orphan m (mb_blockHash block)) (\<lambda>r. F r m))) = Some m'"
  show "blank m \<longrightarrow> blank m'"
    using run by (auto simp: bind_eq_Some_conv Let_def blank_def split: option.splits dest!: IH [rule_format])
qed

lemma new_manager:
  assumes "LWPeerManagerNew params w t blocks qs peers = Some m"
    and "distinct (map (\<lambda>c. UInt256Reverse (cp_hash c)) (checkpoints params))" "\<forall>b \<in> set blocks. sound_block b"
  shows "manager_inv m \<and> ledger m = {#}"
proof -
  let ?m = "initial_manager params w t qs peers"
  obtain best m1 where s: "fold_m add_stored blocks (None, fold add_checkpoint (enumerate 0 (checkpoints params)) ?m) = Some (best, m1)"
    "link_stored best m1 = Some m"
    using assms(1) by (auto simp: LWPeerManagerNew_def bind_eq_Some_conv split: if_splits)
  have i: "chain_inv ?m" "blank ?m" by (simp_all add: initial_manager_def chain_inv_def live_def last_block_def block_at_def blank_def)
  have "chain_inv (fold add_checkpoint (enumerate 0 (checkpoints params)) ?m)"
    using assms(2) by (intro new_checkpoints i) (simp_all add: initial_manager_def)
  then have "chain_inv m1 \<and> found best m1" using assms(3) by (intro new_stored_all [OF s(1)]) (simp_all add: found_def)
  then have "chain_inv m" using linked [OF s(2)] by blast
  moreover have "blank m" using blank_linked [OF s(2)] blank_stored [OF s(1)] blank_checkpoints i(2) by blast
  ultimately show ?thesis by (rule blank_inv)
qed

end
