(* ===== verification/LW_ManagerSpec.thy ===== *)
theory LW_ManagerSpec
  imports LW_ManagerSteps LW_WalletSpec
begin

text \<open>
  What the manager guarantees, stated over \<open>LWPeerManager.c\<close> as it is modelled: the invariant of its states, the calls of
  publishers, the chain, block locators, saving, the choice of the peer to download from; and a rate that is missed.
\<close>

subsection \<open>An example\<close>

definition offline_env :: "(u8, UInt256, unit) manager_env" where
  "offline_env = \<lparr>me_peer = \<lparr>pe_time = 1600000000, pe_clock = 1600000000, pe_moved = (\<lambda>_. False), pe_send = (\<lambda>_. True), pe_nonce = 7,
       pe_reachable = False, pe_thread = True, pe_testnet = False\<rparr>,
     me_wallet = dead_env,
     me_bloom = (\<lambda>_ _. (1, \<lambda>_. 1)), me_lookup = (\<lambda>_. []), me_finished = [], me_qsort = id\<rparr>"

definition example_params :: LWChainParams where
  "example_params = \<lparr>dnsSeeds = [''localhost''], standardPort = 9333, magicNumber = 0xdbb6c0fb, services = 0,
     verifyDifficulty = (\<lambda>_ _. True), checkpoints = [checkpoint 0 (replicate 64 (CHR ''0'')) 1317972665 0x1e0ffff0]\<rparr>"

definition example_manager :: "nat LWPeerManager" where
  "example_manager = add_checkpoint (0, checkpoint 0 (replicate 64 (CHR ''0'')) 1317972665 0x1e0ffff0)
     (initial_manager example_params (empty_wallet some_mpk) 0 id [])"

lemma example_new: "LWPeerManagerNew example_params (empty_wallet some_mpk) 0 [] id [] = Some example_manager"
  by (subst LWPeerManagerNew_def) (simp add: example_manager_def example_params_def link_stored.simps)

lemma example_publish:
  "manager_step {offline_env} ({#}, example_manager) ({#7#}, tell [PublishDone 7 (Some ENOTCONN)] example_manager)"
proof -
  have "LWPeerManagerPublishTx offline_env (OwnTx LWTransactionNew) (Some 7) example_manager =
      Some (tell [PublishDone 7 (Some ENOTCONN)] example_manager)"
    by (simp add: LWPeerManagerPublishTx_def deref_tx_def LWTransactionNew_def LWTransactionIsSigned_def free_tx_def offline_env_def
        done_events_def example_manager_def add_checkpoint_def initial_manager_def new_block_def Let_def)
  from manager_step.publish [OF _ this, of "{offline_env}" "{#}"] show ?thesis by simp
qed

lemmas example_manager_defs = example_manager_def add_checkpoint_def initial_manager_def new_block_def Let_def

lemma start_block:
  "mb_blockHash (checkpoint_block (checkpoint 0 (replicate 64 (CHR ''0'')) t b)) = replicate 32 0"
  "mb_height (checkpoint_block (checkpoint 0 (replicate 64 (CHR ''0'')) t b)) = 0" "cp_height (checkpoint 0 h t b) = 0"
proof -
  have "UInt256Reverse (cp_hash (checkpoint 0 (replicate 64 (CHR ''0'')) 0 0)) = replicate 32 0" by code_simp
  then show "mb_blockHash (checkpoint_block (checkpoint 0 (replicate 64 (CHR ''0'')) t b)) = replicate 32 0"
    by (simp add: checkpoint_block_def checkpoint_def)
qed (simp_all add: checkpoint_block_def checkpoint_def)

subsection \<open>The invariant\<close>

text \<open>
  C8. Whatever sequence of steps follows the creation of a manager (from checkpoints with distinct hashes and saved
  blocks with hashes of 32 bytes), the blocks of its two sets are alive and stand under their keys, no block is in both
  sets, the peers are distinct, at most as many as wanted, and the one to download from is one of them, and the two
  arrays of published transactions are parallel. The last block, as long as it is alive, is the one of its hash in the
  set; it may have been freed: a rescan moves it back, and the transition after that frees the blocks below it
  without looking whether it is one of them.
\<close>

theorem manager_invariant:
  assumes "LWPeerManagerNew params w t blocks qs peers = Some m0"
    and "distinct (map (\<lambda>c. UInt256Reverse (cp_hash c)) (checkpoints params))" "\<forall>b \<in> set blocks. sound_block b"
    and "(manager_step E)\<^sup>*\<^sup>* ({#}, m0) (G, m)"
  shows "manager_inv m"
  using reached_keeps [OF assms(4)] new_manager [OF assms(1-3)] by simp

lemma example_hyps:
  "distinct (map (\<lambda>c. UInt256Reverse (cp_hash c)) (checkpoints example_params))" "\<forall>b \<in> set []. sound_block b"
  "(manager_step {offline_env})\<^sup>*\<^sup>* ({#}, example_manager) ({#7#}, tell [PublishDone 7 (Some ENOTCONN)] example_manager)"
  using example_publish by (auto simp: example_params_def)

theorem manager_invariant_witness: "manager_inv (tell [PublishDone 7 (Some ENOTCONN)] example_manager)"
  by (rule manager_invariant [OF example_new example_hyps])

text \<open>
  C9. The callback of a publisher is called at most as often as it was given to the manager, whatever happens in between.
\<close>

theorem publishers_called_once:
  assumes "LWPeerManagerNew params w t blocks qs peers = Some m0"
    and "distinct (map (\<lambda>c. UInt256Reverse (cp_hash c)) (checkpoints params))" "\<forall>b \<in> set blocks. sound_block b"
    and "(manager_step E)\<^sup>*\<^sup>* ({#}, m0) (G, m)"
  shows "called (m_events m) + waiting (m_publishedTx m) \<subseteq># G"
  using reached_keeps [OF assms(4)] new_manager [OF assms(1-3)] by (simp add: ledger_def add.commute)

theorem publishers_called_once_witness:
  "called (m_events (tell [PublishDone 7 (Some ENOTCONN)] example_manager)) +
   waiting (m_publishedTx (tell [PublishDone 7 (Some ENOTCONN)] example_manager)) \<subseteq># {#7#}"
  by (rule publishers_called_once [OF example_new example_hyps])

subsection \<open>Publishers and the last failure\<close>

lemma waiting_split: "i < length ts \<Longrightarrow> waiting (take (Suc i) ts) = waiting (take i ts) + owed (pub_callback (ts ! i))"
  by (simp add: take_Suc_conv_app_nth owed_def split: option.splits)

lemma cancel_loop:
  "fold_m (\<lambda>i (ks, m). do {
        t \<leftarrow> deref (m_publishedTx m) i;
        case pub_callback t of None \<Rightarrow> Some (ks, m)
        | Some k \<Rightarrow> do { m \<leftarrow> free_tx (pub_tx t) m; m \<leftarrow> unpublish i m; Some (ks @ [k], m) } }) (rev [0..<n]) (ks, m) = Some (ks', m') \<Longrightarrow>
   n \<le> length (m_publishedTx m) \<Longrightarrow> waiting (drop n (m_publishedTx m)) = {#} \<Longrightarrow>
   mset ks' = mset ks + waiting (m_publishedTx m) \<and> waiting (m_publishedTx m') = {#} \<and> m_events m' = m_events m"
proof (induction n arbitrary: ks m)
  case 0
  then show ?case by simp
next
  case (Suc n)
  let ?ts = "m_publishedTx m"
  obtain ks1 m1 where s: "do { t \<leftarrow> deref ?ts n;
        case pub_callback t of None \<Rightarrow> Some (ks, m)
        | Some k \<Rightarrow> do { m \<leftarrow> free_tx (pub_tx t) m; m \<leftarrow> unpublish n m; Some (ks @ [k], m) } } = Some (ks1, m1)"
    and rest: "fold_m (\<lambda>i (ks, m). do {
        t \<leftarrow> deref (m_publishedTx m) i;
        case pub_callback t of None \<Rightarrow> Some (ks, m)
        | Some k \<Rightarrow> do { m \<leftarrow> free_tx (pub_tx t) m; m \<leftarrow> unpublish i m; Some (ks @ [k], m) } }) (rev [0..<n]) (ks1, m1) = Some (ks', m')"
    using Suc.prems(1) by (auto simp: bind_eq_Some_conv)
  have n: "n < length ?ts" using Suc.prems(2) by simp
  have all: "waiting ?ts = waiting (take n ?ts) + owed (pub_callback (?ts ! n))"
    using waiting_simps(2) [of "take (Suc n) ?ts" "drop (Suc n) ?ts"] Suc.prems(3) waiting_split [OF n] by (simp del: waiting_simps)
  show ?case
  proof (cases "pub_callback (?ts ! n)")
    case None
    have "waiting (drop n ?ts) = {#}" using Suc.prems(3) None n by (simp add: Cons_nth_drop_Suc [symmetric])
    then show ?thesis using Suc.IH [OF rest] s None n by (simp add: deref_def)
  next
    case (Some k)
    then obtain m2 where m2: "free_tx (pub_tx (?ts ! n)) m = Some m2" "unpublish n m2 = Some m1" "ks1 = ks @ [k]"
      using s n by (auto simp: bind_eq_Some_conv deref_def)
    have same: "m_publishedTx m2 = ?ts" "m_events m2 = m_events m"
      using m2(1) by (auto simp: free_tx_def split: tx_ref.splits if_splits)
    then have m1: "m_publishedTx m1 = take n ?ts @ drop (Suc n) ?ts" "m_events m1 = m_events m"
      using m2(2) by (auto simp: unpublish_def rm_at_def bind_eq_Some_conv split: if_splits)
    have "mset ks' = mset ks1 + waiting (m_publishedTx m1) \<and> waiting (m_publishedTx m') = {#} \<and> m_events m' = m_events m1"
      using n Suc.prems(3) by (intro Suc.IH [OF rest]) (simp_all add: m1)
    then show ?thesis using all Some m1 m2(3) Suc.prems(3) by simp
  qed
qed

lemma cancelled:
  "cancel_published m = Some (ks, m') \<Longrightarrow> mset ks = waiting (m_publishedTx m) \<and> waiting (m_publishedTx m') = {#} \<and> m_events m' = m_events m"
  unfolding cancel_published_def using cancel_loop [of "length (m_publishedTx m)" "[]" m ks m'] by simp

text \<open>
  C12. When the peer to download from fails for the last time, every publisher that still waits is called, and none waits any more.
\<close>

theorem publishers_told:
  assumes "peerDisconnected env p (Some e) rs m = Some (rs', m')" "e \<noteq> EPROTO"
    and "m_downloadPeer m = Some p" "m_connectFailureCount m + 1 \<ge> MAX_CONNECT_FAILURES"
  shows "called (m_events m') = called (m_events m) + waiting (m_publishedTx m) \<and> waiting (m_publishedTx m') = {#}"
proof -
  obtain ctx where ctx: "peer_at m p = Some ctx" using assms(1) by (auto simp: peerDisconnected_def bind_eq_Some_conv)
  obtain e' m1 where m1: "blame p (Some e) (as_peer ctx) m = Some (e', m1)" "m_downloadPeer m1 = Some p"
    "m_connectFailureCount m1 \<ge> MAX_CONNECT_FAILURES" "m_publishedTx m1 = m_publishedTx m" "m_events m1 = m_events m"
    using assms(2-4) by (auto simp: blame_def)
  let ?m = "leave_peer p (as_peer ctx) m1"
  have l: "\<not> m_isConnected ?m" "m_downloadPeer ?m = None" "m_connectFailureCount ?m = MAX_CONNECT_FAILURES"
    "m_publishedTx ?m = m_publishedTx m" "m_events ?m = m_events m"
    using m1 by (simp_all add: leave_peer_def Let_def)
  obtain ks m2 where k: "cancel_published (?m\<lparr>m_syncStartHeight := 0, m_peers := []\<rparr>) = Some (ks, m2)"
    "m_publishedTx m' = m_publishedTx m2" "m_events m' = m_events m2 @ map (\<lambda>k. PublishDone k (Some ENOTCONN)) ks @
      [SavePeers True [], SyncStopped (Some e)] @ [TxStatusUpdate]"
    using assms(1) ctx m1(1) l(1-3)
    by (auto simp: peerDisconnected_def bind_eq_Some_conv Let_def LWPeerManagerSyncStopped_def tell_def)
  then show ?thesis using cancelled [OF k(1)] l(4,5) by simp
qed

definition losing :: "nat LWPeerManager" where
  "losing = example_manager\<lparr>m_connectedPeers := [(5, LWPeerNew 0xdbb6c0fb)], m_downloadPeer := Some 5, m_isConnected := True,
     m_connectFailureCount := 19, m_publishedTx := [\<lparr>pub_tx = OwnTx LWTransactionNew, pub_callback = Some 7\<rparr>],
     m_publishedTxHashes := [UINT256_ZERO]\<rparr>"

theorem publishers_told_witness:
  "\<exists>rs m. peerDisconnected offline_env 5 (Some ETIMEDOUT) [] losing = Some (rs, m) \<and> called (m_events m) = {#7#} \<and> waiting (m_publishedTx m) = {#}"
proof -
  have l: "m_downloadPeer losing = Some 5" "m_connectFailureCount losing + 1 \<ge> MAX_CONNECT_FAILURES" "called (m_events losing) = {#}"
    "waiting (m_publishedTx losing) = {#7#}"
    by (simp_all add: losing_def MAX_CONNECT_FAILURES_def example_manager_def add_checkpoint_def initial_manager_def new_block_def Let_def)
  have "\<exists>r. peerDisconnected offline_env 5 (Some ETIMEDOUT) [] losing = Some r"
    by (simp add: peerDisconnected_def losing_def peer_at_def blame_def leave_peer_def MAX_CONNECT_FAILURES_def LWPeerManagerSyncStopped_def
        cancel_published_def unpublish_def rm_at_def deref_def free_tx_def Let_def)
  then obtain rs m where m: "peerDisconnected offline_env 5 (Some ETIMEDOUT) [] losing = Some (rs, m)" by auto
  have "called (m_events m) = {#7#} \<and> waiting (m_publishedTx m) = {#}"
    using publishers_told [OF m _ l(1,2)] l(3,4) by simp
  then show ?thesis using m by blast
qed

subsection \<open>Block locators\<close>

text \<open>The distance of a locator from the last block.\<close>

definition locator_offset :: "nat \<Rightarrow> nat" where
  "locator_offset i = (if i < 10 then i else 2 ^ (i - 8) + 7)"

text \<open>The blocks from \<open>b\<close> on down, to the one before the first block or to a block that is missing.\<close>

fun leads_down :: "'c LWPeerManager \<Rightarrow> LWMerkleBlock list \<Rightarrow> LWMerkleBlock option \<Rightarrow> bool" where
  "leads_down m [] b = (case b of None \<Rightarrow> True | Some x \<Rightarrow> mb_height x = 0 \<and> get_block m (mb_prevBlock x) = Some None)"
| "leads_down m (c # cs) b \<longleftrightarrow> b = Some c \<and> mb_height c \<noteq> 0 \<and>
     (case get_block m (mb_prevBlock c) of None \<Rightarrow> False | Some r \<Rightarrow> leads_down m cs (map_option snd r))"

lemma step_leads: "leads_down m cs b \<Longrightarrow> \<exists>b'. step_back m n b = Some b' \<and> leads_down m (drop n cs) b'"
proof (induction n arbitrary: cs b)
  case (Suc n)
  show ?case
  proof (cases b)
    case (Some x)
    obtain r where "get_block m (mb_prevBlock x) = Some r" "leads_down m (drop 1 cs) (map_option snd r)"
      using Suc.prems Some by (cases cs) (auto split: option.splits)
    then show ?thesis using Suc.IH [of "drop 1 cs" "map_option snd r"] Some by (simp add: drop_drop)
  qed (use Suc.prems in \<open>cases cs; simp\<close>)
qed simp

lemma offset_step: "locator_offset (Suc i) = locator_offset i + (if Suc i \<ge> 10 then 2 ^ (i - 8) else 1)"
proof (cases "i \<ge> 10")
  case True
  then have "Suc i - 8 = Suc (i - 8)" by simp
  then show ?thesis using True by (simp add: locator_offset_def)
next
  case False
  then have "i \<in> {0, 1, 2, 3, 4, 5, 6, 7, 8, 9}" by auto
  then show ?thesis by (auto simp: locator_offset_def)
qed

lemma offset_le: "i \<le> j \<Longrightarrow> locator_offset i \<le> locator_offset j"
  by (induction rule: dec_induct) (auto simp: offset_step)

lemma offset_ge: "i \<le> locator_offset i"
  by (induction i) (auto simp: offset_step intro: order_trans)

lemma locators_lead:
  assumes "leads_down m (drop (locator_offset i) cs) b" "step = (if i \<ge> 10 then 2 ^ (i - 9) else 1)"
  shows "locators_from m i step b =
    Some (map (\<lambda>j. mb_blockHash (cs ! locator_offset j)) (filter (\<lambda>j. locator_offset j < length cs) [i..<length cs]))"
  using assms
proof (induction "length cs - locator_offset i" arbitrary: i b step rule: less_induct)
  case less
  show ?case
  proof (cases "locator_offset i < length cs")
    case False
    then have "drop (locator_offset i) cs = []" by simp
    then have "locators_from m i step b = Some []"
      using less.prems(1) by (subst locators_from.simps) (auto split: option.splits)
    moreover have "\<not> locator_offset j < length cs" if "i \<le> j" for j using False offset_le [OF that] by simp
    ultimately show ?thesis by (simp add: filter_empty_conv)
  next
    case True
    then obtain c where c: "cs ! locator_offset i = c" "drop (locator_offset i) cs = c # drop (Suc (locator_offset i)) cs"
      by (simp add: Cons_nth_drop_Suc)
    let ?step = "if i + 1 \<ge> 10 then step * 2 else step"
    have b: "b = Some c" "mb_height c \<noteq> 0" using less.prems(1) c(2) by auto
    obtain b' where b': "step_back m ?step b = Some b'" "leads_down m (drop ?step (drop (locator_offset i) cs)) b'"
      using step_leads [OF less.prems(1)] by blast
    have step: "?step = (if Suc i \<ge> 10 then 2 ^ (i - 8) else 1)"
    proof (cases "i \<ge> 10")
      case True
      then have "i - 8 = Suc (i - 9)" by simp
      then show ?thesis using True less.prems(2) by simp
    next
      case False
      then have "i = 9 \<or> i < 9" by auto
      then show ?thesis using less.prems(2) by auto
    qed
    then have next': "leads_down m (drop (locator_offset (Suc i)) cs) b'" "?step = (if Suc i \<ge> 10 then 2 ^ (Suc i - 9) else 1)"
      using b'(2) by (simp_all add: offset_step drop_drop add.commute)
    have "locator_offset i < locator_offset (Suc i)" by (simp add: offset_step)
    then have "length cs - locator_offset (Suc i) < length cs - locator_offset i" using True by (intro diff_less_mono2)
    note IH = less.hyps [OF this next']
    have "i < length cs" using True offset_ge [of i] by simp
    then have i: "[i..<length cs] = i # [Suc i..<length cs]" by (simp add: upt_conv_Cons)
    show ?thesis using IH b'(1) b True c(1) by (subst locators_from.simps) (simp add: i Let_def)
  qed
qed

text \<open>
  C11. The locators are the last ten blocks and then blocks at distances that double, up to the first block or the first
  missing one; the hash of the first block ends them. The loop ends.
\<close>

theorem block_locators:
  assumes "last_block m = Some b" "leads_down m cs (Some b)"
  shows "LWPeerManagerBlockLocators m =
    Some (map (\<lambda>j. mb_blockHash (cs ! locator_offset j)) (filter (\<lambda>j. locator_offset j < length cs) [0..<length cs]) @ [genesis_block_hash (m_params m)])"
  using locators_lead [of m 0 cs "Some b" 1] assms by (simp add: LWPeerManagerBlockLocators_def locator_offset_def)

text \<open>Thirteen blocks in a row: the locators skip one of them and the first.\<close>

definition numbered :: "nat \<Rightarrow> LWMerkleBlock" where
  "numbered n = LWMerkleBlockNew\<lparr>mb_height := of_nat n, mb_blockHash := replicate 32 (of_nat (n + 1)), mb_prevBlock := replicate 32 (of_nat n)\<rparr>"

definition row_manager :: "nat LWPeerManager" where
  "row_manager = example_manager\<lparr>m_blocks := (\<lambda>h. if hd h \<noteq> 0 \<and> hd h \<le> 14 then Some (unat (hd h) - 1) else None),
     m_memory := (\<lambda>p. if p < 14 then Some (numbered p) else None), m_lastBlock := 13\<rparr>"

theorem block_locators_witness:
  "LWPeerManagerBlockLocators row_manager =
     Some (map (\<lambda>n. mb_blockHash (numbered n)) [13, 12, 11, 10, 9, 8, 7, 6, 5, 4, 2] @ [genesis_block_hash example_params])"
proof -
  have l: "last_block row_manager = Some (numbered 13)" by (simp add: row_manager_def last_block_def block_at_def)
  have g: "get_block row_manager (replicate 32 (of_nat n)) = Some (if n = 0 then None else Some (n - 1, numbered (n - 1)))" if "n \<le> 14" for n
  proof -
    have "unat (of_nat n :: u8) = n" using that by (simp add: unat_of_nat take_bit_eq_mod)
    then show ?thesis using that by (auto simp: row_manager_def get_block_def block_at_def word_le_nat_alt unat_eq_zero [symmetric])
  qed
  have "leads_down row_manager (map numbered (rev [1..<Suc n])) (Some (numbered n))" if "n \<le> 13" for n
    using that
  proof (induction n)
    case 0
    then show ?case using g [of 0] by (simp add: numbered_def)
  next
    case (Suc n)
    have "mb_prevBlock (numbered (Suc n)) = replicate 32 (of_nat (Suc n))" "mb_height (numbered (Suc n)) \<noteq> 0"
      using Suc.prems unfolding numbered_def by (simp_all add: word_of_nat_eq_0_iff del: of_nat_Suc) (use nat_dvd_not_less in force)
    then show ?case using Suc g [of "Suc n"] by (simp del: of_nat_Suc)
  qed
  from this [of 13] have c: "leads_down row_manager (map numbered [13, 12, 11, 10, 9, 8, 7, 6, 5, 4, 3, 2, 1]) (Some (numbered 13))"
    by (rule back_subst [where P = "\<lambda>ns. leads_down row_manager (map numbered ns) (Some (numbered 13))"]) (simp_all add: upt_rec)
  show ?thesis using block_locators [OF l c]
    by (simp add: locator_offset_def upt_rec row_manager_def example_manager_def add_checkpoint_def initial_manager_def new_block_def Let_def)
qed

subsection \<open>The chain\<close>

text \<open>
  C10. When a peer has relayed a block, with the orphans that follow it, the last block has moved only to a successor,
  to another copy of itself or to a higher block, however many times.
\<close>

theorem last_block_advances:
  assumes "manager_inv m" "sound_block block" "peerRelayedBlock env p block m = Some m'" "last_block m' = Some l'"
  shows "\<exists>l. last_block m = Some l \<and> advance\<^sup>*\<^sup>* l l'"
  using assms relayed_advances by (auto simp: manager_inv_def)

text \<open>A block after the first one extends the chain.\<close>

definition second_block :: LWMerkleBlock where
  "second_block = LWMerkleBlockNew\<lparr>mb_blockHash := replicate 32 1\<rparr>"

definition watching :: "nat LWPeerManager" where
  "watching = example_manager\<lparr>m_earliestKeyTime := 1600000000, m_bloomFilter := Some (LWBloomFilterNew 1 (\<lambda>_. 1) 0 0),
     m_connectedPeers := [(0, LWPeerNew 0xdbb6c0fb)]\<rparr>"

theorem last_block_advances_witness:
  "\<exists>m l l'. peerRelayedBlock offline_env 0 second_block watching = Some m \<and> last_block watching = Some l \<and> last_block m = Some l' \<and>
     mb_height l' = 1 \<and> advance\<^sup>*\<^sup>* l l'"
proof -
  have hashes: "LWMerkleBlockTxHashes second_block None = Some []" "LWMerkleBlockTxHashes second_block (Some 0) = Some []"
    by (simp_all add: LWMerkleBlockTxHashes_def tree_height_def next_flag_def tx_hashes_r.simps second_block_def LWMerkleBlockNew_def split: option.split)
  have second: "mb_blockHash second_block = replicate 32 1" "mb_prevBlock second_block = replicate 32 0" "mb_timestamp second_block = 0"
    by (simp_all add: second_block_def LWMerkleBlockNew_def UINT256_ZERO_def)
  let ?b = "second_block\<lparr>mb_height := 1\<rparr>"
  have differ: "replicate 32 (1 :: u8) \<noteq> replicate 32 0" by (simp add: replicate_eq_replicate)
  have "\<exists>m. peerRelayedBlock offline_env 0 second_block watching = Some m \<and> block_at m (m_lastBlock m) = Some ?b"
    by (simp add: peerRelayedBlock_def watching_def example_manager_defs, subst relayed_block.simps,
        simp add: block_at_def hashes get_block_def start_block second track_rate_def with_height_def place_block_def LWPeerManagerVerifyBlock_def
          follows_def matches_checkpoint_def accept_block_def extend_chain_def finish_block_def cut_saved_def BLOCK_DIFFICULTY_INTERVAL_def
          last_block_def peer_at_def UInt256Eq_iff example_params_def BLOCK_UNKNOWN_HEIGHT_def tell_def)
  then obtain m where m: "peerRelayedBlock offline_env 0 second_block watching = Some m" "last_block m = Some ?b"
    by (auto simp: last_block_def)
  have "manager_inv example_manager" using new_manager [OF example_new example_hyps(1)] by simp
  moreover have "m_maxConnectCount example_manager = 3" "m_next example_manager = 2" "m_downloadPeer example_manager = None" "\<not> m_isConnected example_manager"
    by (simp_all add: example_manager_defs PEER_MAX_CONNECTIONS_def)
  ultimately have inv: "manager_inv watching"
    by (simp add: watching_def manager_inv_def chain_inv_def peers_inv_def LW_ManagerInv.parallel_def last_block_def block_at_def)
  have sound: "sound_block second_block" by (simp add: sound_block_def second UINT256_ZERO_def)
  show ?thesis using last_block_advances [OF inv sound m] m by auto
qed

text \<open>
  C14. Of consecutive blocks from the last one down, those are saved that do not come after the lowest transition among
  them; that is, the assertion does not fail.
\<close>

theorem saved_at_transition:
  assumes "\<And>i. Suc i < length bs \<Longrightarrow> unat (mb_height (bs ! i)) = unat (mb_height (bs ! Suc i)) + 1"
  shows "\<exists>k \<le> length bs. cut_saved bs = Some (take k bs) \<and> (k > 0 \<longrightarrow> unat (mb_height (bs ! (k - 1))) mod 2016 = 0) \<and>
    (\<forall>i. k \<le> i \<longrightarrow> i < length bs \<longrightarrow> unat (mb_height (bs ! i)) mod 2016 \<noteq> 0)"
proof -
  let ?h = "\<lambda>i. unat (mb_height (bs ! i))" and ?n = "length bs"
  have up: "?h (?n - 1 - d) = ?h (?n - 1) + d" if "d < ?n" for d
    using that
  proof (induction d)
    case (Suc d)
    then show ?case using assms [of "?n - 1 - Suc d"] by (simp add: Suc_diff_Suc)
  qed simp
  have w: "unat (w mod BLOCK_DIFFICULTY_INTERVAL) = unat w mod 2016" "w mod BLOCK_DIFFICULTY_INTERVAL = 0 \<longleftrightarrow> unat w mod 2016 = 0" for w :: u32
    by (simp_all add: BLOCK_DIFFICULTY_INTERVAL_def unat_mod word_unat_eq_iff [of "w mod 2016" 0])
  have I: "unat BLOCK_DIFFICULTY_INTERVAL = 2016" by (simp add: BLOCK_DIFFICULTY_INTERVAL_def)
  define j where "j = (if ?n > 0 then ?h (?n - 1) mod 2016 else 0)"
  define k where "k = (if j > 0 then ?n - min (2016 - j) ?n else ?n)"
  have k: "k \<le> ?n" by (simp add: k_def)
  have j: "j < 2016" by (simp add: j_def)
  have low: "?h i mod 2016 = (j + (?n - 1 - i)) mod 2016" if "i < ?n" for i
  proof -
    have "?h i = ?h (?n - 1) + (?n - 1 - i)" using up [of "?n - 1 - i"] that by simp
    moreover have "j = ?h (?n - 1) mod 2016" using that by (auto simp: j_def)
    ultimately show ?thesis by (simp only: mod_add_left_eq)
  qed
  have top: "?h (k - 1) mod 2016 = 0" if "k > 0"
  proof (cases "j > 0")
    case True
    then have "k = ?n - (2016 - j)" "2016 - j < ?n" using that by (auto simp: k_def min_def split: if_splits)
    then have "j + (?n - 1 - (k - 1)) = 2016" using j that by simp
    then show ?thesis using low [of "k - 1"] k that by simp
  next
    case False
    then show ?thesis using low [of "k - 1"] that by (simp add: k_def)
  qed
  have dropped: "?h i mod 2016 \<noteq> 0" if "k \<le> i" "i < ?n" for i
  proof -
    have "j > 0" using that by (auto simp: k_def split: if_splits)
    moreover then have "?n - 1 - i < 2016 - j" using that by (auto simp: k_def min_def split: if_splits)
    ultimately show ?thesis using low [OF that(2)] by simp
  qed
  have "cut_saved bs = (if k = 0 \<or> ?h (k - 1) mod 2016 = 0 then Some (take k bs) else None)"
  proof -
    have m: "(if j > 0 then ?n - (if ?n > 2016 - j then 2016 - j else ?n) else ?n) = k" by (auto simp: k_def min_def)
    have j': "(if ?n > 0 then unat (mb_height (bs ! (?n - 1)) mod BLOCK_DIFFICULTY_INTERVAL) else 0) = j" by (simp add: j_def w)
    show ?thesis unfolding cut_saved_def Let_def I w(2) j' m by (rule refl)
  qed
  then have "cut_saved bs = Some (take k bs)" using top by (metis neq0_conv)
  then show ?thesis using top dropped k by (intro exI [of _ k] conjI allI impI) simp_all
qed

definition around_transition :: "LWMerkleBlock list" where
  "around_transition = map (\<lambda>h. LWMerkleBlockNew\<lparr>mb_height := h\<rparr>) [4033, 4032, 4031]"

theorem saved_at_transition_witness: "cut_saved around_transition = Some (take 2 around_transition)"
proof -
  have n: "length around_transition = 3" by (simp add: around_transition_def)
  have h: "unat (mb_height (around_transition ! 0)) = 4033" "unat (mb_height (around_transition ! 1)) = 4032"
    "unat (mb_height (around_transition ! 2)) = 4031" by (simp_all add: around_transition_def)
  have "unat (mb_height (around_transition ! i)) = unat (mb_height (around_transition ! Suc i)) + 1" if "Suc i < length around_transition" for i
  proof -
    have "i = 0 \<or> i = 1" using that n by linarith
    then show ?thesis using h by (elim disjE) (simp_all add: numeral_2_eq_2)
  qed
  then obtain k where k: "k \<le> 3" "cut_saved around_transition = Some (take k around_transition)"
    "k > 0 \<longrightarrow> unat (mb_height (around_transition ! (k - 1))) mod 2016 = 0"
    "\<forall>i. k \<le> i \<longrightarrow> i < 3 \<longrightarrow> unat (mb_height (around_transition ! i)) mod 2016 \<noteq> 0"
    using saved_at_transition [of around_transition] n by metis
  have "\<not> k \<le> 1"
  proof
    assume "k \<le> 1"
    from k(4) [rule_format, OF this] h show False by simp
  qed
  moreover have "k \<noteq> 3" using k(3) h by auto
  ultimately have "k = 2" using k(1) by linarith
  then show ?thesis using k(2) by simp
qed

text \<open>The blocks down from \<open>b\<close> are all above a height, and then one is missing.\<close>

fun ends_above :: "'c LWPeerManager \<Rightarrow> u32 \<Rightarrow> LWMerkleBlock list \<Rightarrow> LWMerkleBlock option \<Rightarrow> bool" where
  "ends_above m h [] b \<longleftrightarrow> b = None"
| "ends_above m h (c # cs) b \<longleftrightarrow> b = Some c \<and> mb_height c > h \<and>
     (case get_block m (mb_prevBlock c) of None \<Rightarrow> False | Some r \<Rightarrow> ends_above m h cs (map_option snd r))"

lemma descend_off: "ends_above m h cs (map_option snd r) \<Longrightarrow> descend m h r = Some None"
proof (induction cs arbitrary: r)
  case Nil
  then show ?case by (subst descend.simps) simp
next
  case (Cons c cs)
  then obtain p r' where "r = Some (p, c)" "mb_height c > h" "get_block m (mb_prevBlock c) = Some r'" "ends_above m h cs (map_option snd r')"
    by (cases r) (auto split: option.splits)
  then show ?case using Cons.IH [of r'] by (subst descend.simps) simp
qed

text \<open>
  C15. A block on a fork that the manager still has, below the blocks of the chain that it has kept, makes the search for it run off
  the chain when it is relayed again: NULL is followed.
\<close>

theorem old_fork_crashes:
  assumes "m_blocks m (mb_blockHash block) \<noteq> None" "last_block m = Some l" "\<not> UInt256Eq (mb_prevBlock block) (mb_blockHash l)"
    and "ends_above m (mb_height block) cs (Some l)"
  shows "accept_block env p b block hs t m = None"
proof -
  have "descend m (mb_height block) (Some (m_lastBlock m, l)) = Some None" using descend_off [of m "mb_height block" cs "Some (m_lastBlock m, l)"] assms(4) by simp
  then have "existing_block env b block hs t m = None" using assms(2) by (simp add: existing_block_def refresh_block_def)
  then show ?thesis using assms(1-3) by (cases "peer_at m p") (simp_all add: accept_block_def)
qed

definition forked :: "nat LWPeerManager" where
  "forked = watching\<lparr>m_blocks := [replicate 32 9 \<mapsto> 1, replicate 32 7 \<mapsto> 0], m_memory := [1 \<mapsto> numbered 8, 0 \<mapsto> numbered 6], m_lastBlock := 1\<rparr>"

theorem old_fork_crashes_witness: "accept_block offline_env 0 5 (numbered 6) [] 0 forked = None"
proof (rule old_fork_crashes [of _ _ "numbered 8" "[numbered 8]"])
  show "m_blocks forked (mb_blockHash (numbered 6)) \<noteq> None" by (simp add: forked_def numbered_def)
  show "last_block forked = Some (numbered 8)" by (simp add: forked_def last_block_def block_at_def)
  show "\<not> UInt256Eq (mb_prevBlock (numbered 6)) (mb_blockHash (numbered 8))" by (simp add: numbered_def UInt256Eq_iff)
  show "ends_above forked (mb_height (numbered 6)) [numbered 8] (Some (numbered 8))" by (simp add: forked_def numbered_def get_block_def)
qed

subsection \<open>The peer to download from\<close>

definition better_than :: "peer_context \<Rightarrow> peer_context \<Rightarrow> bool" where
  "better_than c d \<longleftrightarrow> ctx_lastblock c > ctx_lastblock d \<or> ctx_lastblock c = ctx_lastblock d \<and> ping_less (ctx_pingTime c) (ctx_pingTime d)"

lemma better_cases: "better_peer (q, c) (p, d) = (if ctx_status c = PeerConnected \<and> better_than c d then (q, c) else (p, d))"
  by (auto simp: better_peer_def better_than_def)

lemma better_trans:
  "better_than c d \<Longrightarrow> \<not> better_than c e \<Longrightarrow> \<not> better_than d e"
  "\<not> better_than c d \<Longrightarrow> \<not> better_than d e \<Longrightarrow> \<not> better_than c e"
  by (auto simp: better_than_def ping_less_def split: option.splits)

lemma best_loop:
  "fold better_peer cs (p, d) = (q, e) \<Longrightarrow>
   (q, e) \<in> insert (p, d) (set cs) \<and> (\<forall>r c. (r, c) \<in> set cs \<longrightarrow> ctx_status c = PeerConnected \<longrightarrow> \<not> better_than c e) \<and> \<not> better_than d e"
proof (induction cs arbitrary: p d)
  case Nil
  then show ?case by (auto simp: better_than_def ping_less_def split: option.splits)
next
  case (Cons x cs)
  obtain r c where x: "x = (r, c)" by fastforce
  then show ?case
  proof (cases "ctx_status c = PeerConnected \<and> better_than c d")
    case True
    then have "fold better_peer cs (r, c) = (q, e)" using Cons.prems x by (simp add: better_cases)
    note IH = Cons.IH [OF this]
    have "\<not> better_than d e" using IH True better_trans(1) by blast
    then show ?thesis using IH x by auto
  next
    case False
    then have "better_peer x (p, d) = (p, d)" using x by (auto simp: better_cases)
    then have "fold better_peer cs (p, d) = (q, e)" using Cons.prems by simp
    note IH = Cons.IH [OF this]
    have "ctx_status c = PeerConnected \<longrightarrow> \<not> better_than c e" using IH False better_trans(2) by blast
    then show ?thesis using IH x by auto
  qed
qed

text \<open>
  C13. The peer that is chosen to download from is the new one or one of the others, and no connected peer has a higher
  chain, or the same height and a shorter ping time.
\<close>

theorem best_peer_chosen:
  assumes "select_download env p d m = Some m'"
  shows "\<exists>q e. m_downloadPeer m' = Some q \<and> (q, e) \<in> insert (p, d) (set (m_connectedPeers m)) \<and>
    (\<forall>(r, c) \<in> insert (p, d) (set (m_connectedPeers m)). ctx_status c = PeerConnected \<longrightarrow>
       ctx_lastblock c \<le> ctx_lastblock e \<and> (ctx_lastblock c = ctx_lastblock e \<longrightarrow> \<not> ping_less (ctx_pingTime c) (ctx_pingTime e)))"
proof -
  obtain q e where q: "fold better_peer (rev (m_connectedPeers m)) (p, d) = (q, e)" by fastforce
  obtain m1 m2 m3 m4 and l :: LWMerkleBlock where s:
    "LWPeerManagerLoadBloomFilter env q (m1\<lparr>m_downloadPeer := Some q, m_isConnected := True, m_estimatedHeight := ctx_lastblock e\<rparr>) = Some m2"
    "on_peer q (LWPeerSetCurrentBlockHeight (mb_height l)) m2 = Some m3" "LWPeerManagerPublishPendingTx env q m3 = Some m4"
    "start_download env q e m4 = Some m'"
    using assms q unfolding select_download_def by (auto simp: bind_eq_Some_conv)
  have "m_downloadPeer m' = Some q"
    using calm_load_filter [OF s(1)] calm_on_peer [OF s(2)] calm_publish_pending [OF s(3)] calm_start [OF s(4)] by (simp add: calm_def)
  then show ?thesis using best_loop [OF q] by (force simp: better_than_def)
qed

definition choosing :: "nat LWPeerManager" where
  "choosing = example_manager\<lparr>m_connectedPeers := [(5, (LWPeerNew 0xdbb6c0fb)\<lparr>ctx_status := PeerConnected, ctx_lastblock := 3\<rparr>),
     (6, (LWPeerNew 0xdbb6c0fb)\<lparr>ctx_status := PeerConnected, ctx_lastblock := 2\<rparr>)]\<rparr>"

theorem best_peer_chosen_witness:
  "\<exists>m. select_download offline_env 6 ((LWPeerNew 0xdbb6c0fb)\<lparr>ctx_status := PeerConnected, ctx_lastblock := 2\<rparr>) choosing = Some m \<and> m_downloadPeer m = Some 5"
proof -
  let ?d = "(LWPeerNew 0xdbb6c0fb :: peer_context)\<lparr>ctx_status := PeerConnected, ctx_lastblock := 2\<rparr>"
  have "\<exists>m. select_download offline_env 6 ?d choosing = Some m"
  proof -
    have w: "LWWalletUnusedAddrs dead_env False g internal (empty_wallet some_mpk) = Some ([], empty_wallet some_mpk)" if "g \<noteq> 0" for g internal
      by (rule dead_addrs [OF _ that]) (simp add: empty_wallet_def)
    have f: "\<exists>f. wallet_filter offline_env r t h (empty_wallet some_mpk) = Some f" for r t h
      by (simp add: wallet_filter_def offline_env_def empty_wallet_def LWWalletAllAddrs_def LWWalletUTXOs_def LWWalletTxUnconfirmedBefore_def at_most_def Let_def)
    have e: "me_wallet offline_env = dead_env" by (simp add: offline_env_def)
    have g: "SEQUENCE_GAP_LIMIT_EXTERNAL + 100 \<noteq> 0" "SEQUENCE_GAP_LIMIT_INTERNAL + 100 \<noteq> 0"
      by (simp_all add: SEQUENCE_GAP_LIMIT_EXTERNAL_def SEQUENCE_GAP_LIMIT_INTERNAL_def)
    obtain f where f: "wallet_filter offline_env BLOOM_REDUCED_FALSEPOSITIVE_RATE
        (LWPeerHash (as_peer ((LWPeerNew 0xdbb6c0fb :: peer_context)\<lparr>ctx_status := PeerConnected, ctx_lastblock := 3\<rparr>))) 0 (empty_wallet some_mpk) = Some f"
      using f by blast
    show ?thesis
      by (simp add: select_download_def choosing_def better_peer_def ping_less_def LWPeerManagerLoadBloomFilter_def e w g f
          example_manager_defs clear_orphans_def last_block_def block_at_def peer_at_def on_peer_def start_block
          LWPeerManagerPublishPendingTx_def start_download_def LWPeerManagerBlockLocators_def locators_from.simps)
  qed
  then obtain m where m: "select_download offline_env 6 ?d choosing = Some m" by blast
  from best_peer_chosen [OF m] obtain q e where q: "m_downloadPeer m = Some q" "(q, e) \<in> insert (6, ?d) (set (m_connectedPeers choosing))"
    "ctx_lastblock e \<ge> 3" by (force simp: choosing_def)
  then have "q = 5" by (auto simp: choosing_def)
  then show ?thesis using m q(1) by blast
qed

subsection \<open>Fee rates\<close>

text \<open>
  C16. The rate taken as the second highest is the one that was the highest before: of two peers whose rates come in the order
  the loop visits them from the higher to the lower, the second is missed, and the wallet's rate stays as it is.
\<close>

theorem second_fee_missed:
  assumes "m_connectedPeers m = [(p, c), (q, d)]" "ctx_status c = PeerConnected" "ctx_status d = PeerConnected"
    and "ctx_feePerKb c < ctx_feePerKb d"
  shows "fee_rates m = (ctx_feePerKb d, 0) \<and> peerSetFeePerKb m = m"
  using assms by (auto simp: fee_rates_def peerSetFeePerKb_def word_less_nat_alt DEFAULT_FEE_PER_KB_def)

definition bidding :: "nat LWPeerManager" where
  "bidding = example_manager\<lparr>m_connectedPeers := [(5, (LWPeerNew 0xdbb6c0fb)\<lparr>ctx_status := PeerConnected, ctx_feePerKb := 50000\<rparr>),
     (6, (LWPeerNew 0xdbb6c0fb)\<lparr>ctx_status := PeerConnected, ctx_feePerKb := 60000\<rparr>)]\<rparr>"

theorem second_fee_missed_witness: "fee_rates bidding = (60000, 0) \<and> peerSetFeePerKb bidding = bidding"
  using second_fee_missed [of bidding 5 "(LWPeerNew 0xdbb6c0fb)\<lparr>ctx_status := PeerConnected, ctx_feePerKb := 50000\<rparr>"
      6 "(LWPeerNew 0xdbb6c0fb)\<lparr>ctx_status := PeerConnected, ctx_feePerKb := 60000\<rparr>"]
  by (simp add: bidding_def)

end
