(* ===== verification/Spec2Isabelle.thy ===== *)
theory Spec2Isabelle
  imports LW_Int LW_Array LW_Set LW_Hash LW_Crypto LW_Base58 LW_Bech32 LW_Address LW_Key LW_BIP32 LW_BIP38 LW_BIP39 LW_BIP39Words LW_Bloom LW_Tx LW_WalletSpec LW_Merkle LW_ChainParams LW_Tables LW_PeerSpec LW_ManagerSpec
begin

text \<open>
  A model of litewallet-core, the library of a Litecoin wallet that verifies payments by block headers and
  partial Merkle trees (\<^verbatim>\<open>src/*.c\<close>, \<^verbatim>\<open>src/*.h\<close>), and what makes it correct.

  \<^bold>\<open>The program.\<close> The wallet (\<^verbatim>\<open>LWWallet.c\<close>) derives addresses from a master public key (\<^verbatim>\<open>LWBIP32Sequence.c\<close>),
  keeps the transactions that concern them ordered by height, computes from them the balance and the unspent
  outputs, and creates and signs transactions (\<^verbatim>\<open>LWTransaction.c\<close>, \<^verbatim>\<open>LWKey.c\<close>). A peer (\<^verbatim>\<open>LWPeer.c\<close>) is the connection
  to one node: a thread reads messages from its socket and hands them to handlers, which answer and call back.
  The manager (\<^verbatim>\<open>LWPeerManager.c\<close>) owns the peers and the wallet: it is what the peers call back. It loads the
  wallet's bloom filter (\<^verbatim>\<open>LWBloomFilter.c\<close>) into them, keeps the chain of blocks (\<^verbatim>\<open>LWMerkleBlock.c\<close>,
  \<^verbatim>\<open>LWChainParams.h\<close>) with its forks and orphans, registers, confirms and removes the wallet's transactions as
  blocks, transactions and rejections come, and publishes new ones. Below them are hash tables and arrays
  (\<^verbatim>\<open>LWSet.c\<close>, \<^verbatim>\<open>LWArray.h\<close>), integers and bytes (\<^verbatim>\<open>LWInt.h\<close>), cryptography (\<^verbatim>\<open>LWCrypto.c\<close>) and the text forms of
  addresses, keys and seeds (\<^verbatim>\<open>LWBase58.c\<close>, \<^verbatim>\<open>LWBech32.c\<close>, \<^verbatim>\<open>LWAddress.c\<close>, \<^verbatim>\<open>LWBIP38Key.c\<close>, \<^verbatim>\<open>LWBIP39Mnemonic.c\<close>).

  \<^bold>\<open>How the code is translated.\<close> Definitions have the names of the C functions; a leading underscore is dropped
  (\<open>updateBalance\<close> is \<^verbatim>\<open>_LWWalletUpdateBalance\<close>), and a part of a long function has a name of its own. A struct is a
  record with a prefix to its fields (\<open>w_\<close>, \<open>tx_\<close>, \<open>mb_\<close>, \<open>ctx_\<close>, \<open>m_\<close>), an integer a word of its width, a
  \<^verbatim>\<open>size_t\<close> a number with its wrap-around written out where it matters. The result \<open>None\<close> is what C leaves undefined
  or does not come back from: a failed assertion, an access outside an object or through a freed pointer, an endless loop.
  An expected failure (NULL, 0) is a value inside the \<open>Some\<close>. A loop that may run forever is a
  \<^verbatim>\<open>partial_function (option)\<close>; there is no fuel anywhere, so that a theorem that a result is \<open>Some\<close> is one that the
  code returns. An operation that holds a lock from start to end is one step; where the wallet releases its lock
  in between, the steps are written out. What happens outside (the clock, the random numbers, what is read from the
  socket, the order \<^verbatim>\<open>qsort\<close> gives equal items) is an argument.

  \<^bold>\<open>Theories.\<close>

  \<^item> \<open>Prelude\<close>: words and bytes, \<open>fold_m\<close> for loops that may fail, the calculus \<open>writes\<close> of the serialisers.
  \<^item> \<open>LW_Int\<close>, \<open>LW_Array\<close>, \<open>LW_Set\<close>: \<^verbatim>\<open>LWInt.h\<close>, \<^verbatim>\<open>LWArray.h\<close>, \<^verbatim>\<open>LWSet.c\<close>. The byte-order accessors invert each other;
    each array macro is the list operation of its name; adding to and removing from the probed table refine
    insertion and deletion in a set, in the locale \<open>set_keys\<close> (the documented contract of a hash and an equality).
  \<^item> \<open>LW_Tables\<close>: the hashes and equalities the program hands to its tables, as interpretations of \<open>keyed_table\<close>: the
    tables are the maps that the states below hold.
  \<^item> \<open>LW_Hash\<close>, \<open>LW_Crypto\<close>: \<^verbatim>\<open>LWCrypto.c\<close>. The seven block hashes, whatever was in their buffer before, hash the padded
    message (locale \<open>block_hash\<close>, one interpretation per hash); HMAC and PBKDF2 (locale \<open>hash_function\<close>); the
    authenticated encryption decrypts what it encrypted and writes nothing for anything else.
  \<^item> \<open>LW_Base58\<close>, \<open>LW_Bech32\<close>, \<open>LW_Address\<close>: round trips of texts and scripts; the conversion of radixes is one
    locale, \<open>radix\<close>, interpreted for both directions.
  \<^item> \<open>LW_Key\<close>, \<open>LW_BIP32\<close>, \<open>LW_BIP38\<close>, \<open>LW_BIP39\<close>, \<open>LW_BIP39Words\<close>: keys, signatures, derived keys, encrypted keys
    (with the block cipher AES-256, whose decryption inverts it), phrases.
  \<^item> \<open>LW_Tx\<close>: transactions, serialised, parsed and signed. \<open>LW_Merkle\<close>, \<open>LW_ChainParams\<close>, \<open>LW_Bloom\<close>: partial
    Merkle trees (root and extracted hashes of every honest tree, and the forgery that is possible), the work of a
    block, filters without false negatives.
  \<^item> \<open>LW_Wallet\<close> (state, order, balance), \<open>LW_Registry\<close> (addresses, registration, removal, updates, questions),
    \<open>LW_Spending\<close> (fees, creation, signing): \<^verbatim>\<open>LWWallet.c\<close>. \<open>LW_WalletInv\<close> has the invariant \<open>wallet_inv\<close>, the step relation
    \<open>wallet_step\<close>, whose rules state what the code asks of its callers, and the lemmas of each operation; \<open>LW_WalletSpec\<close>
    the properties, with examples on concrete wallets.
  \<^item> \<open>LW_Peer\<close> (context, messages, handlers), \<open>LW_PeerThread\<close> (the reading loop, one call of \<^verbatim>\<open>read\<close> per step):
    \<^verbatim>\<open>LWPeer.c\<close>. \<open>LW_PeerInv\<close> shows once, in the locale \<open>kept\<close>, that a property kept by the changes of single fields is
    kept by every handler and step; its interpretations are the invariant of a peer and the state of a peer whose
    handshake cannot complete any more. \<open>LW_PeerSpec\<close> has the properties.
  \<^item> \<open>LW_Manager\<close> (state, publishing, locators, filter), \<open>LW_ManagerChain\<close> (blocks), \<open>LW_ManagerPeers\<close>
    (connecting, callbacks, the operations of the user): \<^verbatim>\<open>LWPeerManager.c\<close>. \<open>LW_ManagerInv\<close> and \<open>LW_ManagerSteps\<close> have
    the invariant, the ledger of the publishers' callbacks and the relation \<open>manager_step\<close>; \<open>LW_ManagerSpec\<close> the properties.

  \<^bold>\<open>Bounds.\<close> A table holds at most 2609407362 items, two thirds of the largest size in the source; the wallet and
  the manager take their tables for unbounded sets and maps. The distance between block locators is a natural number, an
  \<^verbatim>\<open>int32_t\<close> in the source: they agree for chains of up to $2^{31}$ blocks. That a created transaction
  is balanced is shown for amounts below $2^{61}$ (\<open>moderate\<close>), two hundred times what will exist; \<open>amounts_wrap\<close> shows
  what happens without a bound. SHA-1 swaps and expands a block in the buffer it was copied to, where the model
  leaves the block: all 64 bytes are written again (data, zeros, padding) before the next block is compressed, and
  the rest is only read after it was written.

  \<^bold>\<open>Not modelled.\<close> The curve library secp256k1 is third-party code: its functions are the record \<open>ec\<close>, a
  parameter, and what is relied on is \<open>curve_laws\<close>. Floating point is exact (times, ping times, rates) or a parameter (the
  size of a filter). Opening sockets, resolving names, starting threads, the locks themselves, writing to the log,
  releasing and scrubbing memory, and the conversions to local currencies are left out, as are the payment protocol
  (\<^verbatim>\<open>LWPaymentProtocol.c\<close>) and the tests.
\<close>

end
